(* ===== verification/Prelude.thy ===== *)
theory Prelude
  imports Main "HOL-Library.Word"
begin

text \<open>
  Shared ground of the development: the theorem collections that the component theories
  fill and use, the type names of the Rust values the model keeps at their width, and the
  lemmas on lists and words that more than one component needs.
\<close>

named_theorems text_simps \<open>byte offsets, slices and boundaries of UTF-8 text\<close>
named_theorems lexer_simps \<open>projections of the lexer's elementary operations\<close>
named_theorems parser_simps \<open>projections of the token cursor's elementary operations\<close>
named_theorems total_rules \<open>introduction rules of the parser's total-correctness predicate\<close>

type_synonym u32 = "32 word"
type_synonym u64 = "64 word"
type_synonym f64 = "64 word"

abbreviation u32_max :: nat where
  "u32_max \<equiv> 2 ^ 32 - 1"

abbreviation i64_max :: int where
  "i64_max \<equiv> 2 ^ 63 - 1"

abbreviation i64_min :: int where
  "i64_min \<equiv> - (2 ^ 63)"

definition in_i64 :: "int \<Rightarrow> bool" where
  "in_i64 n \<longleftrightarrow> i64_min \<le> n \<and> n \<le> i64_max"

subsection \<open>Lists\<close>

lemma sum_list_le_mono [intro]:
  "(\<And>x. x \<in> set xs \<Longrightarrow> f x \<le> (g x :: nat)) \<Longrightarrow> sum_list (map f xs) \<le> sum_list (map g xs)"
  by (induction xs) (auto intro: add_mono)

lemma length_takeWhile_dropWhile:
  "length (takeWhile P xs) + length (dropWhile P xs) = length xs"
  by (metis length_append takeWhile_dropWhile_id)

lemma find_distinct_Some:
  assumes "x \<in> set xs" and "\<And>y. y \<in> set xs \<Longrightarrow> P y \<longleftrightarrow> y = x"
  shows "find P xs = Some x"
  using assms by (induction xs) auto

lemma find_SomeD: "find P xs = Some x \<Longrightarrow> P x \<and> x \<in> set xs"
  by (induction xs) (auto split: if_splits)

lemma last_snoc_Some: "xs \<noteq> [] \<Longrightarrow> \<exists>ys y. xs = ys @ [y]"
  by (metis append_butlast_last_id)

subsection \<open>Words\<close>

lemma unat_of_nat_u32 [simp]: "n \<le> u32_max \<Longrightarrow> unat (of_nat n :: u32) = n"
  by (simp add: unat_of_nat)

lemma unat_u32_le: "unat (of_nat n :: u32) \<le> n"
  by (simp add: unat_of_nat)

end
