(* ===== verification/Rust_Text.thy ===== *)
theory Rust_Text
  imports Prelude
begin

text \<open>
  Rust's \<open>str\<close>, as the lexer uses it: a text is the list of its Unicode scalar values, and a
  position is a byte offset into its UTF-8 encoding. A slice \<open>&s[a..b]\<close> is taken at byte
  offsets; Rust panics where an offset is not a character boundary, so the development proves
  (in the lexer's invariant) that every position it slices at is one.
  The properties of characters that need the Unicode tables, and \<open>str::parse::<f64>\<close>, are the
  parameters \<open>std_env\<close>; the White\_Space property, which is a short fixed list, is written out.
\<close>

type_synonym rtext = "nat list"

abbreviation ch :: "char \<Rightarrow> nat" where
  "ch c \<equiv> of_char c"

definition str :: "string \<Rightarrow> rtext" where
  "str s = map of_char s"

lemma str_simps [simp]:
  "str [] = []" "str (c # cs) = ch c # str cs" "str (s @ t) = str s @ str t"
  by (simp_all add: str_def)

lemma length_str [simp]: "length (str s) = length s"
  by (simp add: str_def)

lemma str_inject [simp]: "str s = str t \<longleftrightarrow> s = t"
  by (simp add: str_def inj_map_eq_map inj_on_def)

lemma str_ascii: "c \<in> set (str s) \<Longrightarrow> c < 256"
  using of_char_of [of _] by (auto simp: str_def dest: order_less_le_trans [OF nat_of_char_less_256])

abbreviation (input) newline_char :: nat where
  "newline_char \<equiv> 10"

record std_env =
  is_alphabetic :: "nat \<Rightarrow> bool"
  is_numeric :: "nat \<Rightarrow> bool"
  is_uppercase :: "nat \<Rightarrow> bool"
  parse_f64 :: "rtext \<Rightarrow> f64 option"

text \<open>\<open>char::is_alphanumeric\<close>: alphabetic or numeric.\<close>

definition is_alphanumeric :: "std_env \<Rightarrow> nat \<Rightarrow> bool" where
  "is_alphanumeric u c \<longleftrightarrow> is_alphabetic u c \<or> is_numeric u c"

definition is_whitespace :: "nat \<Rightarrow> bool" where
  "is_whitespace c \<longleftrightarrow>
     9 \<le> c \<and> c \<le> 13 \<or> c = 32 \<or> c = 0x85 \<or> c = 0xA0 \<or> c = 0x1680 \<or>
     0x2000 \<le> c \<and> c \<le> 0x200A \<or> c = 0x2028 \<or> c = 0x2029 \<or> c = 0x202F \<or> c = 0x205F \<or> c = 0x3000"

definition is_ascii_digit :: "nat \<Rightarrow> bool" where
  "is_ascii_digit c \<longleftrightarrow> ch CHR ''0'' \<le> c \<and> c \<le> ch CHR ''9''"

definition is_ascii_uppercase :: "nat \<Rightarrow> bool" where
  "is_ascii_uppercase c \<longleftrightarrow> ch CHR ''A'' \<le> c \<and> c \<le> ch CHR ''Z''"

definition is_ascii_hexdigit :: "nat \<Rightarrow> bool" where
  "is_ascii_hexdigit c \<longleftrightarrow>
     is_ascii_digit c \<or> ch CHR ''a'' \<le> c \<and> c \<le> ch CHR ''f'' \<or> ch CHR ''A'' \<le> c \<and> c \<le> ch CHR ''F''"

definition trim_start :: "rtext \<Rightarrow> rtext" where
  "trim_start s = dropWhile is_whitespace s"

definition trim :: "rtext \<Rightarrow> rtext" where
  "trim s = rev (dropWhile is_whitespace (rev (trim_start s)))"

definition starts_with :: "rtext \<Rightarrow> rtext \<Rightarrow> bool" where
  "starts_with s p \<longleftrightarrow> take (length p) s = p"

subsection \<open>Byte offsets\<close>

definition len_utf8 :: "nat \<Rightarrow> nat" where
  "len_utf8 c = (if c < 0x80 then 1 else if c < 0x800 then 2 else if c < 0x10000 then 3 else 4)"

definition blen :: "rtext \<Rightarrow> nat" where
  "blen s = sum_list (map len_utf8 s)"

fun drop_bytes :: "nat \<Rightarrow> rtext \<Rightarrow> rtext" where
  "drop_bytes n [] = []"
| "drop_bytes n (c # cs) = (if n = 0 then c # cs else drop_bytes (n - len_utf8 c) cs)"

fun take_bytes :: "nat \<Rightarrow> rtext \<Rightarrow> rtext" where
  "take_bytes n [] = []"
| "take_bytes n (c # cs) = (if n = 0 then [] else c # take_bytes (n - len_utf8 c) cs)"

definition slice :: "rtext \<Rightarrow> nat \<Rightarrow> nat \<Rightarrow> rtext" where
  "slice s a b = take_bytes (b - a) (drop_bytes a s)"

fun boundary :: "rtext \<Rightarrow> nat \<Rightarrow> bool" where
  "boundary [] n \<longleftrightarrow> n = 0"
| "boundary (c # cs) n \<longleftrightarrow> n = 0 \<or> len_utf8 c \<le> n \<and> boundary cs (n - len_utf8 c)"

text \<open>\<open>str::find(c)\<close> for a character: the byte offset of its first occurrence.\<close>

fun find_char :: "nat \<Rightarrow> rtext \<Rightarrow> nat option" where
  "find_char c [] = None"
| "find_char c (x # xs) = (if x = c then Some 0 else map_option (\<lambda>i. i + len_utf8 x) (find_char c xs))"

text \<open>\<open>s[from..].find('\n')\<close>, or the end of the text.\<close>

definition line_end :: "rtext \<Rightarrow> nat \<Rightarrow> nat" where
  "line_end s from = (case find_char newline_char (drop_bytes from s) of None \<Rightarrow> blen s | Some i \<Rightarrow> from + i)"

lemma len_utf8_pos [simp]: "0 < len_utf8 c"
  by (simp add: len_utf8_def)

lemma len_utf8_ge1 [simp]: "Suc 0 \<le> len_utf8 c" "len_utf8 c \<noteq> 0"
  by (simp_all add: len_utf8_def)

lemma len_utf8_le4: "len_utf8 c \<le> 4"
  by (simp add: len_utf8_def)

lemma len_utf8_ascii [simp]: "c < 128 \<Longrightarrow> len_utf8 c = 1"
  by (simp add: len_utf8_def)

lemma blen_simps [simp]:
  "blen [] = 0" "blen (c # cs) = len_utf8 c + blen cs" "blen (s @ t) = blen s + blen t"
  by (simp_all add: blen_def)

lemma length_le_blen: "length s \<le> blen s"
  by (induction s) (auto intro: add_mono [OF len_utf8_ge1(1), simplified])

lemma blen_takeWhile_le [simp]: "blen (takeWhile P s) \<le> blen s"
  by (induction s) auto

lemma blen_take_le [simp]: "blen (take k s) \<le> blen s"
  by (induction s arbitrary: k) (auto simp: take_Cons split: nat.splits)

lemma blen_0_iff [simp]: "blen s = 0 \<longleftrightarrow> s = []"
  by (cases s) auto

lemma drop_bytes_0 [simp]: "drop_bytes 0 s = s"
  by (cases s) auto

lemma take_bytes_0 [simp]: "take_bytes 0 s = []"
  by (cases s) auto

lemma boundary_0 [simp]: "boundary s 0"
  by (cases s) auto

lemma boundary_blen [simp]: "boundary s (blen s)"
  by (induction s) auto

lemma boundary_le: "boundary s n \<Longrightarrow> n \<le> blen s"
  by (induction s n rule: boundary.induct) auto

text \<open>A boundary is the byte length of a prefix.\<close>

lemma boundary_iff: "boundary s n \<longleftrightarrow> (\<exists>k \<le> length s. n = blen (take k s))"
proof (induction s n rule: boundary.induct)
  case (2 c cs n)
  show ?case
  proof
    assume "boundary (c # cs) n"
    then consider "n = 0" | "len_utf8 c \<le> n" "boundary cs (n - len_utf8 c)" by auto
    then show "\<exists>k \<le> length (c # cs). n = blen (take k (c # cs))"
    proof cases
      case 1
      then show ?thesis by (intro exI [of _ 0]) simp
    next
      case 2
      then obtain k where "k \<le> length cs" "n - len_utf8 c = blen (take k cs)" using "2.IH" by auto
      with 2 show ?thesis by (intro exI [of _ "Suc k"]) simp
    qed
  next
    assume "\<exists>k \<le> length (c # cs). n = blen (take k (c # cs))"
    then obtain k where "k \<le> length (c # cs)" "n = blen (take k (c # cs))" by blast
    then show "boundary (c # cs) n" using "2.IH" by (cases k) auto
  qed
qed auto

lemma drop_bytes_blen [text_simps]: "boundary s n \<Longrightarrow> blen (drop_bytes n s) = blen s - n"
  by (induction s n rule: boundary.induct) auto

lemma drop_bytes_append [text_simps]: "drop_bytes (blen s) (s @ t) = t"
  by (induction s) auto

lemma drop_bytes_all [simp]: "drop_bytes (blen s) s = []"
  using drop_bytes_append [of s "[]"] by simp

lemma drop_bytes_Nil_iff: "boundary s n \<Longrightarrow> drop_bytes n s = [] \<longleftrightarrow> n = blen s"
  by (metis blen_0_iff boundary_le diff_is_0_eq drop_bytes_all drop_bytes_blen le_antisym order_refl)

lemma boundary_add:
  "boundary s n \<Longrightarrow> boundary (drop_bytes n s) k \<Longrightarrow>
     boundary s (n + k) \<and> drop_bytes (n + k) s = drop_bytes k (drop_bytes n s)"
  by (induction s n rule: boundary.induct) (auto split: if_splits)

lemma boundary_prefix: "boundary s n \<Longrightarrow> drop_bytes n s = p @ q \<Longrightarrow>
     boundary s (n + blen p) \<and> drop_bytes (n + blen p) s = q"
proof -
  assume b: "boundary s n" and d: "drop_bytes n s = p @ q"
  have "boundary (p @ q) (blen p)" by (auto simp: boundary_iff intro: exI [of _ "length p"])
  with boundary_add [OF b] show ?thesis by (simp add: d text_simps)
qed

lemma boundary_step: "boundary s n \<Longrightarrow> drop_bytes n s = c # q \<Longrightarrow>
     boundary s (n + len_utf8 c) \<and> drop_bytes (n + len_utf8 c) s = q"
  using boundary_prefix [of s n "[c]" q] by simp

lemma boundary_takeWhile: "boundary s n \<Longrightarrow> boundary s (n + blen (takeWhile P (drop_bytes n s)))"
  using boundary_prefix [of s n _ "dropWhile P (drop_bytes n s)"] by simp

lemma find_char_Some:
  "find_char c s = Some i \<Longrightarrow> boundary s i \<and> (\<exists>q. drop_bytes i s = c # q)"
  by (induction s arbitrary: i) (auto split: if_splits)

lemma line_end_boundary: "boundary s n \<Longrightarrow> boundary s (line_end s n) \<and> n \<le> line_end s n"
  using boundary_add [of s n] by (auto simp: line_end_def dest: find_char_Some boundary_le split: option.splits)

lemma line_end_le: "boundary s n \<Longrightarrow> line_end s n \<le> blen s"
  using line_end_boundary boundary_le by blast

text \<open>Past a line that does not end the text there is a line feed.\<close>

lemma line_end_next: "boundary s n \<Longrightarrow> line_end s n < blen s \<Longrightarrow>
     boundary s (Suc (line_end s n)) \<and> Suc (line_end s n) \<le> blen s"
proof -
  assume b: "boundary s n" and lt: "line_end s n < blen s"
  then obtain i where i: "find_char newline_char (drop_bytes n s) = Some i" and e: "line_end s n = n + i"
    by (auto simp: line_end_def split: option.splits)
  from find_char_Some [OF i] obtain q where "boundary (drop_bytes n s) i" "drop_bytes i (drop_bytes n s) = newline_char # q"
    by auto
  with boundary_add [OF b] have "boundary s (n + i)" "drop_bytes (n + i) s = newline_char # q" by auto
  from boundary_step [OF this] e show ?thesis by (auto dest: boundary_le)
qed

lemma line_end_gt: "boundary s n \<Longrightarrow> drop_bytes n s = c # q \<Longrightarrow> c \<noteq> newline_char \<Longrightarrow> n < line_end s n"
proof -
  assume b: "boundary s n" and d: "drop_bytes n s = c # q" and c: "c \<noteq> newline_char"
  from boundary_step [OF b d] have "n + len_utf8 c \<le> blen s" using boundary_le by blast
  then have "n < blen s" using len_utf8_pos [of c] by (simp del: len_utf8_pos)
  then show ?thesis using d c by (auto simp: line_end_def split: option.splits)
qed

lemma slice_whole [simp]: "slice s 0 (blen s) = s"
proof -
  have "take_bytes (blen s) s = s" by (induction s) auto
  then show ?thesis by (simp add: slice_def)
qed

lemma take_bytes_append [text_simps]: "take_bytes (blen p) (p @ q) = p"
  by (induction p) auto

lemma slice_prefix: "boundary s n \<Longrightarrow> drop_bytes n s = p @ q \<Longrightarrow> slice s n (n + blen p) = p"
  by (simp add: slice_def text_simps)

subsection \<open>Numbers\<close>

definition digit_value :: "nat \<Rightarrow> nat" where
  "digit_value c =
     (if is_ascii_digit c then c - ch CHR ''0''
      else if ch CHR ''a'' \<le> c then c - ch CHR ''a'' + 10
      else c - ch CHR ''A'' + 10)"

definition digits_value :: "int \<Rightarrow> rtext \<Rightarrow> int" where
  "digits_value radix ds = foldl (\<lambda>v d. v * radix + int (digit_value d)) 0 ds"

text \<open>
  \<open>i64::from_str_radix\<close> and \<open>str::parse::<i64>\<close> on a text without a sign, and
  \<open>u32::from_str_radix\<close>: no digits, a character that is no digit, and a value that does not fit are errors.
\<close>

definition parse_radix :: "(nat \<Rightarrow> bool) \<Rightarrow> int \<Rightarrow> int \<Rightarrow> rtext \<Rightarrow> int option" where
  "parse_radix is_digit radix bound ds =
     (if ds = [] \<or> \<not> list_all is_digit ds then None
      else let v = digits_value radix ds in if v < bound then Some v else None)"

definition parse_i64 :: "rtext \<Rightarrow> int option" where
  "parse_i64 ds = parse_radix is_ascii_digit 10 (2 ^ 63) ds"

definition parse_i64_hex :: "rtext \<Rightarrow> int option" where
  "parse_i64_hex ds = parse_radix is_ascii_hexdigit 16 (2 ^ 63) ds"

definition parse_u32_hex :: "rtext \<Rightarrow> int option" where
  "parse_u32_hex ds = parse_radix is_ascii_hexdigit 16 (2 ^ 32) ds"

text \<open>\<open>char::from_u32\<close>: surrogates and values past U+10FFFF are no character.\<close>

definition char_from_u32 :: "int \<Rightarrow> nat option" where
  "char_from_u32 n = (if n < 0xD800 \<or> 0xE000 \<le> n \<and> n \<le> 0x10FFFF then Some (nat n) else None)"

lemma digits_value_nonneg: "0 \<le> radix \<Longrightarrow> 0 \<le> digits_value radix ds"
proof -
  assume r: "0 \<le> radix"
  have "0 \<le> v \<Longrightarrow> 0 \<le> foldl (\<lambda>v d. v * radix + int (digit_value d)) v ds" for v
    using r by (induction ds arbitrary: v) auto
  then show ?thesis by (simp add: digits_value_def)
qed

lemma parse_i64_range: "parse_i64 ds = Some n \<Longrightarrow> 0 \<le> n \<and> n \<le> i64_max"
  by (auto simp: parse_i64_def parse_radix_def Let_def digits_value_nonneg split: if_splits)

lemma parse_i64_hex_range: "parse_i64_hex ds = Some n \<Longrightarrow> 0 \<le> n \<and> n \<le> i64_max"
  by (auto simp: parse_i64_hex_def parse_radix_def Let_def digits_value_nonneg split: if_splits)

text \<open>Decimal digits of a natural number, as \<open>format!(\"{n}\")\<close> writes them.\<close>

fun nat_digits :: "nat \<Rightarrow> rtext" where
  "nat_digits n = (if n < 10 then [n + ch CHR ''0''] else nat_digits (n div 10) @ [n mod 10 + ch CHR ''0''])"

declare nat_digits.simps [simp del]

definition int_text :: "int \<Rightarrow> rtext" where
  "int_text n = (if n < 0 then ch CHR ''-'' # nat_digits (nat (- n)) else nat_digits (nat n))"

end
