(* ===== verification/Tokens.thy ===== *)
theory Tokens
  imports Rust_Text
begin

text \<open>
  The tokens of grenat\_lexer (src/token.rs): spans in bytes, kept as the 32-bit numbers the
  code stores; keywords with their three derived operations; token kinds with the source's
  constructors (prefixed by T) and their descriptions; comments, errors, and the lexer's result.
\<close>

subsection \<open>Spans\<close>

record span =
  sp_start :: u32
  sp_end :: u32

text \<open>\<open>Span::new\<close> truncates its offsets to 32 bits (\<open>as u32\<close>).\<close>

definition span_new :: "nat \<Rightarrow> nat \<Rightarrow> span" where
  "span_new s e = \<lparr>sp_start = of_nat s, sp_end = of_nat e\<rparr>"

text \<open>\<open>Span::to\<close>: the smallest span covering both.\<close>

definition span_to :: "span \<Rightarrow> span \<Rightarrow> span" where
  "span_to a b = \<lparr>sp_start = min (sp_start a) (sp_start b), sp_end = max (sp_end a) (sp_end b)\<rparr>"

lemma span_new_sel:
  "e \<le> u32_max \<Longrightarrow> s \<le> e \<Longrightarrow> unat (sp_start (span_new s e)) = s \<and> unat (sp_end (span_new s e)) = e"
  by (simp add: span_new_def)

lemma span_to_assoc: "span_to (span_to a b) c = span_to a (span_to b c)"
  by (simp add: span_to_def min.assoc max.assoc)

lemma span_to_covers:
  "sp_start (span_to a b) \<le> sp_start a \<and> sp_start (span_to a b) \<le> sp_start b \<and>
   sp_end a \<le> sp_end (span_to a b) \<and> sp_end b \<le> sp_end (span_to a b)"
  by (simp add: span_to_def)

subsection \<open>Keywords\<close>

datatype keyword =
  KAbstract | KAgent | KAnd | KBegin | KBreak | KCase | KClass | KDef | KDo
  | KElse | KElsif | KEnd | KEnsure | KEnum | KFalse | KIf | KIn | KModule
  | KNext | KNil | KNot | KOr | KPrompt | KRescue | KReturn | KSelfKw | KStruct
  | KSupervisor | KThen | KTool | KTrue | KUnless | KUntil | KWhen | KWhile | KWorkflow

primrec as_str :: "keyword \<Rightarrow> string" where
  "as_str KAbstract = ''abstract''"
| "as_str KAgent = ''agent''"
| "as_str KAnd = ''and''"
| "as_str KBegin = ''begin''"
| "as_str KBreak = ''break''"
| "as_str KCase = ''case''"
| "as_str KClass = ''class''"
| "as_str KDef = ''def''"
| "as_str KDo = ''do''"
| "as_str KElse = ''else''"
| "as_str KElsif = ''elsif''"
| "as_str KEnd = ''end''"
| "as_str KEnsure = ''ensure''"
| "as_str KEnum = ''enum''"
| "as_str KFalse = ''false''"
| "as_str KIf = ''if''"
| "as_str KIn = ''in''"
| "as_str KModule = ''module''"
| "as_str KNext = ''next''"
| "as_str KNil = ''nil''"
| "as_str KNot = ''not''"
| "as_str KOr = ''or''"
| "as_str KPrompt = ''prompt''"
| "as_str KRescue = ''rescue''"
| "as_str KReturn = ''return''"
| "as_str KSelfKw = ''self''"
| "as_str KStruct = ''struct''"
| "as_str KSupervisor = ''supervisor''"
| "as_str KThen = ''then''"
| "as_str KTool = ''tool''"
| "as_str KTrue = ''true''"
| "as_str KUnless = ''unless''"
| "as_str KUntil = ''until''"
| "as_str KWhen = ''when''"
| "as_str KWhile = ''while''"
| "as_str KWorkflow = ''workflow''"

definition keyword_ALL :: "keyword list" where
  "keyword_ALL = [KAbstract, KAgent, KAnd, KBegin, KBreak, KCase, KClass, KDef, KDo,
    KElse, KElsif, KEnd, KEnsure, KEnum, KFalse, KIf, KIn, KModule,
    KNext, KNil, KNot, KOr, KPrompt, KRescue, KReturn, KSelfKw, KStruct,
    KSupervisor, KThen, KTool, KTrue, KUnless, KUntil, KWhen, KWhile, KWorkflow]"

text \<open>\<open>Keyword::lookup\<close>: the keyword whose text is \<open>s\<close>; the arms of the macro's match are in \<open>ALL\<close>'s order.\<close>

definition keyword_lookup :: "rtext \<Rightarrow> keyword option" where
  "keyword_lookup s = find (\<lambda>k. str (as_str k) = s) keyword_ALL"

lemma keyword_ALL_all: "k \<in> set keyword_ALL"
  by (cases k) (simp_all add: keyword_ALL_def)

lemma as_str_inj: "as_str j = as_str k \<Longrightarrow> j = k"
  by (cases j; cases k) simp_all

lemma keyword_lookup_as_str: "keyword_lookup (str (as_str k)) = Some k"
  unfolding keyword_lookup_def
  by (rule find_distinct_Some) (auto simp: keyword_ALL_all dest: as_str_inj)

lemma keyword_lookup_Some: "keyword_lookup s = Some k \<longleftrightarrow> s = str (as_str k)"
  by (metis (mono_tags, lifting) find_SomeD keyword_lookup_as_str keyword_lookup_def)

subsection \<open>Token kinds\<close>

datatype (plugins only: size code) token_kind =
    TInt int | TFloat f64 | TStr "str_part list"
  | TSymbol rtext | TLabel rtext | TIdent rtext | TConst rtext | TIVar rtext | TKw keyword
  | TLParen | TRParen | TLBracket | TRBracket | TLBrace | TRBrace | TComma | TDot | TSafeDot
  | TDotDot | TDotDotDot | TColon | TColonColon | TQuestion | TPipe | TTilde | TArrow | TFatArrow
  | TPlus | TMinus | TStar | TStarStar | TSlash | TPercent
  | TEqEq | TNotEq | TLt | TLe | TGt | TGe | TCmp | TMatch
  | TAndAnd | TOrOr | TBang | TAmp | TCaret | TShl | TShr
  | TEq | TPlusEq | TMinusEq | TStarEq | TSlashEq | TOrOrEq | TAndAndEq
  | TMacroBody rtext | TNewline | TEof
and str_part = SLit rtext | SInterp "token list" span
and token = Token (tk_kind: token_kind) (tk_span: span) (tk_space_before: bool)

text \<open>A token list the parser takes: the end of file comes last, and only there.\<close>

definition tokens_end :: "token list \<Rightarrow> bool" where
  "tokens_end ts \<longleftrightarrow> ts \<noteq> [] \<and> tk_kind (last ts) = TEof \<and> (\<forall>t \<in> set (butlast ts). tk_kind t \<noteq> TEof)"

definition punct_text :: "token_kind \<Rightarrow> string" where
  "punct_text k = (case k of
     TLParen \<Rightarrow> ''(''
   | TRParen \<Rightarrow> '')''
   | TLBracket \<Rightarrow> ''[''
   | TRBracket \<Rightarrow> '']''
   | TLBrace \<Rightarrow> ''{''
   | TRBrace \<Rightarrow> ''}''
   | TComma \<Rightarrow> '',''
   | TDot \<Rightarrow> ''.''
   | TSafeDot \<Rightarrow> ''&.''
   | TDotDot \<Rightarrow> ''..''
   | TDotDotDot \<Rightarrow> ''...''
   | TColon \<Rightarrow> '':''
   | TColonColon \<Rightarrow> ''::''
   | TQuestion \<Rightarrow> ''?''
   | TPipe \<Rightarrow> ''|''
   | TTilde \<Rightarrow> ''~''
   | TArrow \<Rightarrow> ''->''
   | TFatArrow \<Rightarrow> ''=>''
   | TPlus \<Rightarrow> ''+''
   | TMinus \<Rightarrow> ''-''
   | TStar \<Rightarrow> ''*''
   | TStarStar \<Rightarrow> ''**''
   | TSlash \<Rightarrow> ''/''
   | TPercent \<Rightarrow> ''%''
   | TEqEq \<Rightarrow> ''==''
   | TNotEq \<Rightarrow> ''!=''
   | TLt \<Rightarrow> ''<''
   | TLe \<Rightarrow> ''<=''
   | TGt \<Rightarrow> ''>''
   | TGe \<Rightarrow> ''>=''
   | TCmp \<Rightarrow> ''<=>''
   | TMatch \<Rightarrow> ''=~''
   | TAndAnd \<Rightarrow> ''&&''
   | TOrOr \<Rightarrow> ''||''
   | TBang \<Rightarrow> ''!''
   | TAmp \<Rightarrow> ''&''
   | TCaret \<Rightarrow> ''^''
   | TShl \<Rightarrow> ''<<''
   | TShr \<Rightarrow> ''>>''
   | TEq \<Rightarrow> ''=''
   | TPlusEq \<Rightarrow> ''+=''
   | TMinusEq \<Rightarrow> ''-=''
   | TStarEq \<Rightarrow> ''*=''
   | TSlashEq \<Rightarrow> ''/=''
   | TOrOrEq \<Rightarrow> ''||=''
   | TAndAndEq \<Rightarrow> ''&&=''
   | _ \<Rightarrow> ''?'')"

text \<open>
  \<open>TokenKind::describe\<close>; a float is written by the standard library's \<open>Display\<close>, a parameter.
\<close>

definition describe :: "(f64 \<Rightarrow> rtext) \<Rightarrow> token_kind \<Rightarrow> rtext" where
  "describe show_f64 k = (case k of
     TInt n \<Rightarrow> str ''number `'' @ int_text n @ str ''`''
   | TFloat n \<Rightarrow> str ''number `'' @ show_f64 n @ str ''`''
   | TStr _ \<Rightarrow> str ''string''
   | TSymbol s \<Rightarrow> str ''symbol `:'' @ s @ str ''`''
   | TLabel s \<Rightarrow> str ''`'' @ s @ str '':`''
   | TIdent s \<Rightarrow> str ''identifier `'' @ s @ str ''`''
   | TConst s \<Rightarrow> str ''constant `'' @ s @ str ''`''
   | TIVar s \<Rightarrow> str ''`@'' @ s @ str ''`''
   | TKw w \<Rightarrow> str ''keyword `'' @ str (as_str w) @ str ''`''
   | TMacroBody _ \<Rightarrow> str ''macro body''
   | TNewline \<Rightarrow> str ''end of line''
   | TEof \<Rightarrow> str ''end of file''
   | other \<Rightarrow> str ''`'' @ str (punct_text other) @ str ''`'')"

subsection \<open>Comments, errors, the lexer's result\<close>

record comment =
  cm_span :: span
  cm_text :: rtext
  cm_doc :: bool
  cm_trailing :: bool

record lex_error =
  le_span :: span
  le_message :: rtext

record lexed =
  ld_tokens :: "token list"
  ld_comments :: "comment list"
  ld_errors :: "lex_error list"

end
