(* ===== verification/Lexer.thy ===== *)
theory Lexer
  imports Tokens
begin

text \<open>
  The scanning machine of grenat\_lexer (src/lexer.rs, src/strings.rs), operation by operation,
  as explicit state passing over the record \<open>lexer\<close>. The parameter \<open>u\<close> carries the Unicode
  character classes and the float parser of the standard library. The main loop and the
  sub-lexer of an interpolation call each other; \<open>lex_run\<close> ties that knot with fuel, and
  the theory Lexer\_Safety proves how much is enough.
\<close>

subsection \<open>State and elementary operations\<close>

record lexer =
  lx_src :: rtext
  lx_pos :: nat
  lx_tokens :: "token list"
  lx_comments :: "comment list"
  lx_errors :: "lex_error list"
  lx_heredoc_resume :: "nat option"
  lx_in_interp :: bool
  lx_brace_depth :: u32
  lx_space_before :: bool
  lx_line_has_token :: bool
  lx_macro_indent :: "nat option"

definition lexer_new :: "rtext \<Rightarrow> nat \<Rightarrow> bool \<Rightarrow> lexer" where
  "lexer_new src pos in_interp =
     \<lparr>lx_src = src, lx_pos = pos, lx_tokens = [], lx_comments = [], lx_errors = [],
      lx_heredoc_resume = None, lx_in_interp = in_interp, lx_brace_depth = 0,
      lx_space_before = True, lx_line_has_token = False, lx_macro_indent = None\<rparr>"

definition lx_rest :: "lexer \<Rightarrow> rtext" where
  "lx_rest lx = drop_bytes (lx_pos lx) (lx_src lx)"

definition lx_peek :: "lexer \<Rightarrow> nat option" where
  "lx_peek lx = (case lx_rest lx of [] \<Rightarrow> None | c # _ \<Rightarrow> Some c)"

definition lx_peek_at :: "nat \<Rightarrow> lexer \<Rightarrow> nat option" where
  "lx_peek_at n lx = (case drop n (lx_rest lx) of [] \<Rightarrow> None | c # _ \<Rightarrow> Some c)"

definition lx_bump :: "lexer \<Rightarrow> nat option \<times> lexer" where
  "lx_bump lx = (case lx_peek lx of
     None \<Rightarrow> (None, lx)
   | Some c \<Rightarrow> (Some c, lx\<lparr>lx_pos := lx_pos lx + len_utf8 c\<rparr>))"

definition lx_eat :: "nat \<Rightarrow> lexer \<Rightarrow> bool \<times> lexer" where
  "lx_eat c lx = (if lx_peek lx = Some c then (True, snd (lx_bump lx)) else (False, lx))"

text \<open>\<open>while self.peek().is_some_and(p) { self.bump(); }\<close>\<close>

definition lx_bump_while :: "(nat \<Rightarrow> bool) \<Rightarrow> lexer \<Rightarrow> lexer" where
  "lx_bump_while p lx = lx\<lparr>lx_pos := lx_pos lx + blen (takeWhile p (lx_rest lx))\<rparr>"

definition lx_line_end :: "lexer \<Rightarrow> nat \<Rightarrow> nat" where
  "lx_line_end lx from = line_end (lx_src lx) from"

definition lx_slice :: "lexer \<Rightarrow> nat \<Rightarrow> rtext" where
  "lx_slice lx start = slice (lx_src lx) start (lx_pos lx)"

definition lx_error :: "nat \<Rightarrow> nat \<Rightarrow> rtext \<Rightarrow> lexer \<Rightarrow> lexer" where
  "lx_error s e message lx =
     lx\<lparr>lx_errors := lx_errors lx @ [\<lparr>le_span = span_new s e, le_message = message\<rparr>]\<rparr>"

definition lx_push :: "token_kind \<Rightarrow> nat \<Rightarrow> nat \<Rightarrow> lexer \<Rightarrow> lexer" where
  "lx_push kind s e lx =
     lx\<lparr>lx_tokens := lx_tokens lx @ [Token kind (span_new s e) (lx_space_before lx)], lx_line_has_token := True\<rparr>"

definition last_kind :: "lexer \<Rightarrow> token_kind option" where
  "last_kind lx = (if lx_tokens lx = [] then None else Some (tk_kind (last (lx_tokens lx))))"

definition is_ident_start :: "std_env \<Rightarrow> nat \<Rightarrow> bool" where
  "is_ident_start u c \<longleftrightarrow> c = ch CHR ''_'' \<or> is_alphabetic u c"

definition is_ident_continue :: "std_env \<Rightarrow> nat \<Rightarrow> bool" where
  "is_ident_continue u c \<longleftrightarrow> c = ch CHR ''_'' \<or> is_alphanumeric u c"

fun join_continuations :: "token list \<Rightarrow> token list" where
  "join_continuations (t # next # ts) =
     (if tk_kind t = TNewline \<and> (tk_kind next = TDot \<or> tk_kind next = TSafeDot)
      then join_continuations (next # ts)
      else t # join_continuations (next # ts))"
| "join_continuations ts = ts"

subsection \<open>Blanks, newlines, macro bodies, comments\<close>

text \<open>The bytes of the spaces, tabs, carriage returns and line continuations a text starts with.\<close>

fun blanks_len :: "rtext \<Rightarrow> nat" where
  "blanks_len (c # cs) =
     (if c = ch CHR '' '' \<or> c = 9 \<or> c = 13 then 1 + blanks_len cs
      else if c = 92 then (case cs of d # ds \<Rightarrow> if d = newline_char then 2 + blanks_len ds else 0 | [] \<Rightarrow> 0)
      else 0)"
| "blanks_len [] = 0"

definition skip_blanks :: "lexer \<Rightarrow> bool \<times> lexer" where
  "skip_blanks lx = (let n = blanks_len (lx_rest lx) in (n \<noteq> 0, lx\<lparr>lx_pos := lx_pos lx + n\<rparr>))"

definition push_newline :: "nat \<Rightarrow> lexer \<Rightarrow> lexer" where
  "push_newline start lx =
     (let redundant = last_kind lx = None \<or> last_kind lx = Some TNewline;
          lx = (if redundant then lx else lx_push TNewline start (start + 1) lx)
      in lx\<lparr>lx_line_has_token := False\<rparr>)"

text \<open>The line holding the \<open>end\<close> of a macro whose header is indented by \<open>indent\<close> bytes.\<close>

function macro_end :: "rtext \<Rightarrow> nat \<Rightarrow> nat \<Rightarrow> nat option" where
  "macro_end src indent line =
     (if line < blen src then
        let e = line_end src line; txt = slice src line e
        in if trim txt = str ''end'' \<and> blen txt - blen (trim_start txt) = indent then Some line
           else macro_end src indent (e + 1)
      else None)"
  by pat_completeness auto
termination
  by (relation "measure (\<lambda>(src, indent, line). blen src - line)")
    (auto simp: line_end_def split: option.splits)

declare macro_end.simps [simp del]

definition macro_body :: "nat \<Rightarrow> lexer \<Rightarrow> lexer" where
  "macro_body indent lx =
     (let start = lx_pos lx; src = lx_src lx in
      case macro_end src indent start of
        Some line \<Rightarrow> (lx_push (TMacroBody (slice src start line)) start line lx)\<lparr>lx_pos := line\<rparr>
      | None \<Rightarrow>
          let lx = lx_push (TMacroBody (drop_bytes start src)) start (blen src) lx;
              lx = lx_error start (blen src) (str ''this `macro` has no `end` at its indentation'') lx
          in lx\<lparr>lx_pos := blen src\<rparr>)"

definition newline :: "nat \<Rightarrow> lexer \<Rightarrow> lexer" where
  "newline start lx =
     (let lx = push_newline start lx;
          lx = (case lx_heredoc_resume lx of
                  None \<Rightarrow> lx | Some resume \<Rightarrow> lx\<lparr>lx_heredoc_resume := None, lx_pos := resume\<rparr>)
      in case lx_macro_indent lx of
           None \<Rightarrow> lx | Some indent \<Rightarrow> macro_body indent (lx\<lparr>lx_macro_indent := None\<rparr>))"

definition lex_comment :: "lexer \<Rightarrow> lexer" where
  "lex_comment lx =
     (let start = lx_pos lx; e = lx_line_end lx start; raw = slice (lx_src lx) start e;
          doc = starts_with raw (str ''##'') \<and> \<not> starts_with raw (str ''###'')
      in lx\<lparr>lx_comments := lx_comments lx @
               [\<lparr>cm_span = span_new start e, cm_text = trim (dropWhile (\<lambda>c. c = ch CHR ''#'') raw),
                 cm_doc = doc, cm_trailing = lx_line_has_token lx\<rparr>],
            lx_pos := e\<rparr>)"

subsection \<open>Identifiers, instance variables, symbols\<close>

definition take_ident_chars :: "std_env \<Rightarrow> lexer \<Rightarrow> lexer" where
  "take_ident_chars u = lx_bump_while (is_ident_continue u)"

definition take_predicate_suffix :: "lexer \<Rightarrow> lexer" where
  "take_predicate_suffix lx =
     (if lx_peek lx \<in> {Some (ch CHR ''?''), Some (ch CHR ''!'')} \<and> lx_peek_at 1 lx \<noteq> Some (ch CHR ''='')
      then snd (lx_bump lx) else lx)"

definition at_method_name :: "lexer \<Rightarrow> bool" where
  "at_method_name lx \<longleftrightarrow> last_kind lx \<in> {Some TDot, Some TSafeDot, Some (TKw KDef)}"

text \<open>The byte offset where the line holding \<open>start\<close> begins: \<open>src[..start].rfind('\n')\<close>, plus one.\<close>

definition line_start_of :: "rtext \<Rightarrow> nat \<Rightarrow> nat" where
  "line_start_of src start =
     start - blen (takeWhile (\<lambda>c. c \<noteq> newline_char) (rev (take_bytes start src)))"

definition lex_ident :: "std_env \<Rightarrow> lexer \<Rightarrow> lexer" where
  "lex_ident u lx =
     (let start = lx_pos lx;
          is_const = (case lx_peek lx of None \<Rightarrow> False | Some c \<Rightarrow> is_uppercase u c);
          lx = take_ident_chars u lx;
          lx = (if \<not> is_const \<and> (keyword_lookup (lx_slice lx start) = None \<or> at_method_name lx)
                then take_predicate_suffix lx else lx);
          txt = lx_slice lx start
      in if \<not> is_const \<and> lx_peek lx = Some (ch CHR '':'') \<and> lx_peek_at 1 lx \<noteq> Some (ch CHR '':'') then
           (let lx = snd (lx_bump lx) in lx_push (TLabel txt) start (lx_pos lx) lx)
         else
           (let after_blanks = dropWhile (\<lambda>c. c = ch CHR '' '') (lx_rest lx);
                lx = (if txt = str ''macro'' \<and> \<not> lx_line_has_token lx \<and> \<not> lx_in_interp lx
                         \<and> lx_peek lx = Some (ch CHR '' '')
                         \<and> (case after_blanks of [] \<Rightarrow> False | c # _ \<Rightarrow> is_ident_start u c)
                      then lx\<lparr>lx_macro_indent := Some (start - line_start_of (lx_src lx) start)\<rparr> else lx);
                kind = (if is_const then TConst txt
                        else case keyword_lookup txt of Some kw \<Rightarrow> TKw kw | None \<Rightarrow> TIdent txt)
            in lx_push kind start (lx_pos lx) lx))"

definition lex_ivar :: "std_env \<Rightarrow> lexer \<Rightarrow> lexer" where
  "lex_ivar u lx =
     (let start = lx_pos lx;
          lx = snd (lx_bump lx);
          name_start = lx_pos lx;
          lx = take_ident_chars u lx
      in if lx_pos lx = name_start
         then lx_error start (lx_pos lx) (str ''expected an instance variable name after `@`'') lx
         else lx_push (TIVar (lx_slice lx name_start)) start (lx_pos lx) lx)"

definition OPERATORS :: "string list" where
  "OPERATORS = [''<=>'', ''**'', ''=='', ''!='', ''<='', ''>='', ''<<'', ''>>'',
     ''+'', ''-'', ''*'', ''/'', ''%'', ''<'', ''>'', ''&'', ''|'', ''^'']"

definition operator_symbol :: "lexer \<Rightarrow> string option" where
  "operator_symbol lx =
     find (\<lambda>op. starts_with (lx_rest lx) (str op) \<and>
                (case drop (length op) (lx_rest lx) of
                   [] \<Rightarrow> True | c # _ \<Rightarrow> c \<in> set (str '')],}'') \<union> {newline_char, 13})) OPERATORS"

definition lex_colon :: "std_env \<Rightarrow> lexer \<Rightarrow> lexer" where
  "lex_colon u lx =
     (let start = lx_pos lx; lx = snd (lx_bump lx); (double, lx) = lx_eat (ch CHR '':'') lx in
      if double then lx_push TColonColon start (lx_pos lx) lx
      else
        let after_opener = last_kind lx \<in>
              {None, Some TLParen, Some TLBracket, Some TLBrace, Some TComma, Some TPipe, Some TAmp};
            may_be_symbol = lx_space_before lx \<or> after_opener
        in if (case lx_peek lx of None \<Rightarrow> False | Some c \<Rightarrow> is_ident_start u c) \<and> may_be_symbol then
             (let name_start = lx_pos lx;
                  lx = take_predicate_suffix (take_ident_chars u lx)
              in lx_push (TSymbol (lx_slice lx name_start)) start (lx_pos lx) lx)
           else case (if may_be_symbol then operator_symbol lx else None) of
             Some op \<Rightarrow>
               (let lx = lx\<lparr>lx_pos := lx_pos lx + length op\<rparr>
                in lx_push (TSymbol (str op)) start (lx_pos lx) lx)
           | None \<Rightarrow> lx_push TColon start (lx_pos lx) lx)"

subsection \<open>Numbers\<close>

definition strip_underscores :: "rtext \<Rightarrow> rtext" where
  "strip_underscores s = filter (\<lambda>c. c \<noteq> ch CHR ''_'') s"

definition take_digits :: "lexer \<Rightarrow> lexer" where
  "take_digits = lx_bump_while (\<lambda>c. is_ascii_digit c \<or> c = ch CHR ''_'')"

definition peeks_digit :: "nat \<Rightarrow> lexer \<Rightarrow> bool" where
  "peeks_digit n lx = (case lx_peek_at n lx of None \<Rightarrow> False | Some c \<Rightarrow> is_ascii_digit c)"

definition lex_number :: "std_env \<Rightarrow> lexer \<Rightarrow> lexer" where
  "lex_number u lx =
     (let start = lx_pos lx in
      if starts_with (lx_rest lx) (str ''0x'') then
        let lx = lx\<lparr>lx_pos := lx_pos lx + 2\<rparr>;
            digits_start = lx_pos lx;
            lx = lx_bump_while (\<lambda>c. is_ascii_hexdigit c \<or> c = ch CHR ''_'') lx
        in case parse_i64_hex (strip_underscores (lx_slice lx digits_start)) of
             Some n \<Rightarrow> lx_push (TInt n) start (lx_pos lx) lx
           | None \<Rightarrow> lx_error start (lx_pos lx) (str ''invalid hexadecimal number'') lx
      else
        let lx = take_digits lx;
            (is_float, lx) =
              (if lx_peek lx = Some (ch CHR ''.'') \<and> peeks_digit 1 lx
               then (True, take_digits (snd (lx_bump lx))) else (False, lx));
            (is_float, lx) =
              (if lx_peek lx \<in> {Some (ch CHR ''e''), Some (ch CHR ''E'')} then
                 let signed = lx_peek_at 1 lx \<in> {Some (ch CHR ''+''), Some (ch CHR ''-'')};
                     digit_at = (if signed then 2 else 1)
                 in if peeks_digit digit_at lx
                    then (True, take_digits (lx\<lparr>lx_pos := lx_pos lx + digit_at\<rparr>)) else (is_float, lx)
               else (is_float, lx));
            txt = strip_underscores (lx_slice lx start);
            kind = (if is_float then map_option TFloat (parse_f64 u txt) else map_option TInt (parse_i64 txt))
        in case kind of
             Some kind \<Rightarrow> lx_push kind start (lx_pos lx) lx
           | None \<Rightarrow> lx_error start (lx_pos lx) (str ''number out of range'') lx)"

subsection \<open>Punctuation\<close>

text \<open>
  \<open>eat_or c f g\<close> is one guarded arm \<open>_ if self.eat(c)\<close>: with \<open>c\<close> eaten go on with \<open>f\<close>, otherwise with \<open>g\<close>.
\<close>

definition eat_or :: "char \<Rightarrow> (lexer \<Rightarrow> 'a) \<Rightarrow> (lexer \<Rightarrow> 'a) \<Rightarrow> lexer \<Rightarrow> 'a" where
  "eat_or c f g lx = (case lx_eat (ch c) lx of (True, lx') \<Rightarrow> f lx' | (False, lx') \<Rightarrow> g lx')"

definition yields :: "token_kind \<Rightarrow> lexer \<Rightarrow> token_kind option \<times> lexer" where
  "yields k lx = (Some k, lx)"

definition punct_kind :: "nat \<Rightarrow> lexer \<Rightarrow> token_kind option \<times> lexer" where
  "punct_kind c lx =
     (if c = ch CHR ''('' then yields TLParen lx
      else if c = ch CHR '')'' then yields TRParen lx
      else if c = ch CHR ''['' then yields TLBracket lx
      else if c = ch CHR '']'' then yields TRBracket lx
      else if c = ch CHR ''{'' then
        yields TLBrace (if lx_in_interp lx then lx\<lparr>lx_brace_depth := lx_brace_depth lx + 1\<rparr> else lx)
      else if c = ch CHR ''}'' then
        yields TRBrace (if lx_in_interp lx then lx\<lparr>lx_brace_depth := lx_brace_depth lx - 1\<rparr> else lx)
      else if c = ch CHR '','' then yields TComma lx
      else if c = ch CHR ''~'' then yields TTilde lx
      else if c = ch CHR ''^'' then yields TCaret lx
      else if c = ch CHR ''?'' then yields TQuestion lx
      else if c = ch CHR ''%'' then yields TPercent lx
      else if c = ch CHR ''.'' then
        eat_or CHR ''.'' (eat_or CHR ''.'' (yields TDotDotDot) (yields TDotDot)) (yields TDot) lx
      else if c = ch CHR ''&'' then
        eat_or CHR ''&'' (eat_or CHR ''='' (yields TAndAndEq) (yields TAndAnd))
          (eat_or CHR ''.'' (yields TSafeDot) (yields TAmp)) lx
      else if c = ch CHR ''|'' then
        eat_or CHR ''|'' (eat_or CHR ''='' (yields TOrOrEq) (yields TOrOr)) (yields TPipe) lx
      else if c = ch CHR ''='' then
        eat_or CHR ''='' (yields TEqEq) (eat_or CHR ''~'' (yields TMatch)
          (eat_or CHR ''>'' (yields TFatArrow) (yields TEq))) lx
      else if c = ch CHR ''!'' then eat_or CHR ''='' (yields TNotEq) (yields TBang) lx
      else if c = ch CHR ''<'' then
        eat_or CHR ''='' (eat_or CHR ''>'' (yields TCmp) (yields TLe)) (eat_or CHR ''<'' (yields TShl) (yields TLt)) lx
      else if c = ch CHR ''>'' then
        eat_or CHR ''='' (yields TGe) (eat_or CHR ''>'' (yields TShr) (yields TGt)) lx
      else if c = ch CHR ''+'' then eat_or CHR ''='' (yields TPlusEq) (yields TPlus) lx
      else if c = ch CHR ''-'' then
        eat_or CHR ''>'' (yields TArrow) (eat_or CHR ''='' (yields TMinusEq) (yields TMinus)) lx
      else if c = ch CHR ''*'' then
        eat_or CHR ''*'' (yields TStarStar) (eat_or CHR ''='' (yields TStarEq) (yields TStar)) lx
      else if c = ch CHR ''/'' then eat_or CHR ''='' (yields TSlashEq) (yields TSlash) lx
      else (None, lx))"

text \<open>At the end of the source \<open>punct\<close> panics; the main loop calls it after a successful peek.\<close>

definition lex_punct :: "lexer \<Rightarrow> lexer" where
  "lex_punct lx =
     (let start = lx_pos lx in
      case lx_bump lx of
        (None, lx) \<Rightarrow> lx
      | (Some c, lx) \<Rightarrow>
          (case punct_kind c lx of
             (Some kind, lx) \<Rightarrow> lx_push kind start (lx_pos lx) lx
           | (None, lx) \<Rightarrow>
               lx_error start (lx_pos lx) (str ''unexpected character `'' @ [c] @ str ''`'') lx))"

end
