(* ===== verification/Lexer_Run.thy ===== *)
theory Lexer_Run
  imports Lexer
begin

text \<open>
  Strings of grenat\_lexer (src/strings.rs: escapes, interpolations, heredocs) and the main loop
  (src/lexer.rs, \<open>run\<close> and \<open>lex\<close>). The operations that read an interpolation take the sub-lexer's
  \<open>run\<close> as their argument \<open>sub\<close>; a result \<open>None\<close> means that its fuel was not enough.
\<close>

subsection \<open>Escapes\<close>

text \<open>\<open>\<backslash>u{...}\<close> or \<open>\<backslash>uXXXX\<close>: \<open>start\<close> is the position of the backslash.\<close>

definition unicode_escape :: "nat \<Rightarrow> rtext \<Rightarrow> lexer \<Rightarrow> rtext \<times> lexer" where
  "unicode_escape start buf lx =
     (let (braced, lx) = lx_eat (ch CHR ''{'') lx;
          hex_start = lx_pos lx;
          digits = takeWhile is_ascii_hexdigit (lx_rest lx);
          hex = (if braced then digits else take 4 digits);
          lx = lx\<lparr>lx_pos := lx_pos lx + blen hex\<rparr>;
          lx = (if braced then
                  (case lx_eat (ch CHR ''}'') lx of
                     (True, lx') \<Rightarrow> lx'
                   | (False, lx') \<Rightarrow>
                       lx_error start (lx_pos lx')
                         (str ''expected `}` to close `'' @ [92] @ str ''u{'' @ [0x2026] @ str ''}`'') lx')
                else lx)
      in case Option.bind (parse_u32_hex hex) char_from_u32 of
           Some c \<Rightarrow> (buf @ [c], lx)
         | None \<Rightarrow> (buf, lx_error start (lx_pos lx) (str ''invalid unicode escape'') lx))"

definition lex_escape :: "rtext \<Rightarrow> bool \<Rightarrow> lexer \<Rightarrow> rtext \<times> lexer" where
  "lex_escape buf full lx =
     (let start = lx_pos lx; lx = snd (lx_bump lx) in
      case lx_bump lx of
        (None, lx) \<Rightarrow> (buf, lx)
      | (Some c, lx) \<Rightarrow>
          if \<not> full then (if c = 92 \<or> c = 39 then buf @ [c] else buf @ [92, c], lx)
          else if c = ch CHR ''n'' then (buf @ [10], lx)
          else if c = ch CHR ''t'' then (buf @ [9], lx)
          else if c = ch CHR ''r'' then (buf @ [13], lx)
          else if c = ch CHR ''0'' then (buf @ [0], lx)
          else if c = ch CHR ''e'' then (buf @ [0x1B], lx)
          else if c = ch CHR ''s'' then (buf @ [32], lx)
          else if c = ch CHR ''u'' then unicode_escape start buf lx
          else (buf @ [c], lx))"

subsection \<open>Interpolations\<close>

datatype string_term = Quote nat | End_at nat

type_synonym sub_lexer = "lexer \<Rightarrow> lexer option"

text \<open>The flag is false when the interpolation is not closed; the string stops there.\<close>

definition lex_interpolation :: "sub_lexer \<Rightarrow> str_part list \<Rightarrow> lexer \<Rightarrow> (bool \<times> str_part list \<times> lexer) option" where
  "lex_interpolation sub parts lx =
     (let open_at = lx_pos lx in
      case sub (lexer_new (lx_src lx) (open_at + 2) True) of
        None \<Rightarrow> None
      | Some s \<Rightarrow>
          if lx_peek s \<noteq> Some (ch CHR ''}'') then
            let e = lx_line_end lx open_at;
                lx = lx_error open_at e (str ''unterminated interpolation: expected `}`'') lx
            in Some (False, parts, lx\<lparr>lx_pos := e\<rparr>)
          else
            let lx = lx\<lparr>lx_errors := lx_errors lx @ lx_errors s\<rparr>;
                close = lx_pos s;
                toks = join_continuations (lx_tokens s) @ [Token TEof (span_new close close) False]
            in Some (True, parts @ [SInterp toks (span_new open_at (close + 1))], lx\<lparr>lx_pos := close + 1\<rparr>))"

subsection \<open>String contents\<close>

definition flush :: "rtext \<Rightarrow> str_part list \<Rightarrow> str_part list" where
  "flush buf parts = (if buf = [] then parts else parts @ [SLit buf])"

text \<open>
  The loop of \<open>string_parts\<close>, over the parts read and the literal being read. Every round reads at
  least one character or leaves the loop, so one more than the bytes left is fuel enough.
\<close>

fun string_loop :: "sub_lexer \<Rightarrow> nat \<Rightarrow> string_term \<Rightarrow> bool \<Rightarrow> nat \<Rightarrow> str_part list \<Rightarrow> rtext \<Rightarrow> lexer
    \<Rightarrow> (str_part list \<times> lexer) option" where
  "string_loop sub 0 stop interpolate open_at parts buf lx = None"
| "string_loop sub (Suc n) stop interpolate open_at parts buf lx =
     (if (case stop of End_at e \<Rightarrow> e \<le> lx_pos lx | Quote _ \<Rightarrow> False) then Some (flush buf parts, lx)
      else case lx_peek lx of
        None \<Rightarrow>
          let lx = lx_error open_at (lx_pos lx) (str ''unterminated string'') lx
          in Some (flush buf parts, lx\<lparr>lx_pos := lx_line_end lx open_at\<rparr>)
      | Some c \<Rightarrow>
          if stop = Quote c then Some (flush buf parts, snd (lx_bump lx))
          else if c = 92 then
            (case lex_escape buf interpolate lx of
               (buf, lx) \<Rightarrow> string_loop sub n stop interpolate open_at parts buf lx)
          else if interpolate \<and> c = ch CHR ''#'' \<and> lx_peek_at 1 lx = Some (ch CHR ''{'') then
            (case lex_interpolation sub (flush buf parts) lx of
               None \<Rightarrow> None
             | Some (True, parts, lx) \<Rightarrow> string_loop sub n stop interpolate open_at parts [] lx
             | Some (False, parts, lx) \<Rightarrow> Some (parts, lx))
          else string_loop sub n stop interpolate open_at parts (buf @ [c]) (snd (lx_bump lx)))"

definition string_fuel :: "lexer \<Rightarrow> nat" where
  "string_fuel lx = Suc (blen (lx_src lx) - lx_pos lx)"

definition string_parts :: "sub_lexer \<Rightarrow> string_term \<Rightarrow> bool \<Rightarrow> nat \<Rightarrow> lexer \<Rightarrow> (str_part list \<times> lexer) option" where
  "string_parts sub stop interpolate open_at lx =
     string_loop sub (string_fuel lx) stop interpolate open_at [] [] lx"

subsection \<open>Heredocs\<close>

definition at_heredoc :: "lexer \<Rightarrow> bool" where
  "at_heredoc lx \<longleftrightarrow>
     (starts_with (lx_rest lx) (str ''<<~'') \<or> starts_with (lx_rest lx) (str ''<<-'')) \<and>
     (case drop 3 (lx_rest lx) of
        [] \<Rightarrow> False | c # _ \<Rightarrow> c = 39 \<or> c = ch CHR ''_'' \<or> is_ascii_uppercase c)"

text \<open>The lines of the body, as offsets, and where to resume after the terminator, if it is found.\<close>

function heredoc_lines :: "rtext \<Rightarrow> rtext \<Rightarrow> nat \<Rightarrow> (nat \<times> nat) list \<times> nat option" where
  "heredoc_lines src name line_start =
     (if line_start < blen src then
        let e = line_end src line_start in
        if trim (slice src line_start e) = name then ([], Some (min (e + 1) (blen src)))
        else (case heredoc_lines src name (e + 1) of (lines, resume) \<Rightarrow> ((line_start, e) # lines, resume))
      else ([], None))"
  by pat_completeness auto
termination
  by (relation "measure (\<lambda>(src, name, line_start). blen src - line_start)")
    (auto simp: line_end_def split: option.splits)

declare heredoc_lines.simps [simp del]

definition leading_ws :: "rtext \<Rightarrow> nat" where
  "leading_ws line = blen (takeWhile (\<lambda>c. c = ch CHR '' '' \<or> c = 9) line)"

definition heredoc_indent :: "rtext \<Rightarrow> bool \<Rightarrow> (nat \<times> nat) list \<Rightarrow> nat" where
  "heredoc_indent src squiggly lines =
     (if squiggly then
        (case map leading_ws (filter (\<lambda>line. trim line \<noteq> []) (map (\<lambda>(s, e). slice src s e) lines)) of
           [] \<Rightarrow> 0 | n # ns \<Rightarrow> foldl min n ns)
      else 0)"

text \<open>A literal following a literal is joined to it.\<close>

definition join_part :: "str_part list \<Rightarrow> str_part \<Rightarrow> str_part list" where
  "join_part parts part =
     (case part of
        SLit t \<Rightarrow>
          (if parts = [] then [part]
           else case last parts of
             SLit prev \<Rightarrow> butlast parts @ [SLit (prev @ t)]
           | _ \<Rightarrow> parts @ [part])
      | _ \<Rightarrow> parts @ [part])"

fun heredoc_parts :: "sub_lexer \<Rightarrow> nat \<Rightarrow> bool \<Rightarrow> nat \<Rightarrow> (nat \<times> nat) list \<Rightarrow> str_part list \<Rightarrow> lexer
    \<Rightarrow> (str_part list \<times> lexer) option" where
  "heredoc_parts sub indent raw start [] parts lx = Some (parts, lx)"
| "heredoc_parts sub indent raw start ((s, e) # lines) parts lx =
     (let lx = lx\<lparr>lx_pos := s + min (leading_ws (slice (lx_src lx) s e)) indent\<rparr> in
      case string_parts sub (End_at e) (\<not> raw) start lx of
        None \<Rightarrow> None
      | Some (line_parts, lx) \<Rightarrow>
          heredoc_parts sub indent raw start lines
            (foldl join_part parts (line_parts @ [SLit [newline_char]])) lx)"

definition lex_heredoc :: "std_env \<Rightarrow> sub_lexer \<Rightarrow> lexer \<Rightarrow> lexer option" where
  "lex_heredoc u sub lx =
     (let start = lx_pos lx; src = lx_src lx;
          squiggly = starts_with (lx_rest lx) (str ''<<~'');
          lx = lx\<lparr>lx_pos := lx_pos lx + 3\<rparr>;
          (raw, lx) = lx_eat 39 lx;
          id_start = lx_pos lx;
          lx = take_ident_chars u lx;
          name = lx_slice lx id_start;
          lx = (if raw then
                  (case lx_eat 39 lx of
                     (True, lx') \<Rightarrow> lx'
                   | (False, lx') \<Rightarrow>
                       lx_error start (lx_pos lx') (str ''expected `'' @ [39] @ str ''` to close the heredoc identifier'') lx')
                else lx);
          opener_end = lx_pos lx;
          body_start = (case lx_heredoc_resume lx of
             Some r \<Rightarrow> r
           | None \<Rightarrow> (case find_char newline_char (lx_rest lx) of
                       None \<Rightarrow> blen src | Some i \<Rightarrow> lx_pos lx + i + 1));
          (lines, found) = heredoc_lines src name body_start;
          (resume, lx) = (case found of
             Some r \<Rightarrow> (r, lx)
           | None \<Rightarrow> (blen src, lx_error start opener_end
               (str ''unterminated heredoc: expected `'' @ name @ str ''` alone on a line'') lx));
          saved = lx_pos lx
      in case heredoc_parts sub (heredoc_indent src squiggly lines) raw start lines [] lx of
           None \<Rightarrow> None
         | Some (parts, lx) \<Rightarrow>
             Some (lx_push (TStr parts) start opener_end
                     (lx\<lparr>lx_pos := saved, lx_heredoc_resume := Some resume\<rparr>)))"

subsection \<open>The main loop\<close>

datatype flow = Returned lexer | Next lexer

definition lex_string :: "sub_lexer \<Rightarrow> nat \<Rightarrow> bool \<Rightarrow> lexer \<Rightarrow> lexer option" where
  "lex_string sub quote interpolate lx =
     (let start = lx_pos lx; lx = snd (lx_bump lx) in
      case string_parts sub (Quote quote) interpolate start lx of
        None \<Rightarrow> None
      | Some (parts, lx) \<Rightarrow> Some (lx_push (TStr parts) start (lx_pos lx) lx))"

text \<open>The arms of \<open>run\<close>'s match on the character \<open>c\<close> at the position.\<close>

definition run_char :: "std_env \<Rightarrow> sub_lexer \<Rightarrow> nat \<Rightarrow> lexer \<Rightarrow> flow option" where
  "run_char u sub c lx =
     (let start = lx_pos lx in
      if c = newline_char then Some (Next (newline start (snd (lx_bump lx))))
      else if c = ch CHR '';'' then Some (Next (push_newline start (snd (lx_bump lx))))
      else if c = ch CHR ''#'' then Some (Next (lex_comment lx))
      else if c = 34 then map_option Next (lex_string sub 34 True lx)
      else if c = 39 then map_option Next (lex_string sub 39 False lx)
      else if c = ch CHR ''@'' then Some (Next (lex_ivar u lx))
      else if c = ch CHR '':'' then Some (Next (lex_colon u lx))
      else if c = ch CHR ''<'' \<and> at_heredoc lx then map_option Next (lex_heredoc u sub lx)
      else if c = ch CHR ''}'' \<and> lx_in_interp lx \<and> lx_brace_depth lx = 0 then Some (Returned lx)
      else if is_ascii_digit c then Some (Next (lex_number u lx))
      else if is_ident_start u c then Some (Next (lex_ident u lx))
      else Some (Next (lex_punct lx)))"

definition run_step :: "std_env \<Rightarrow> sub_lexer \<Rightarrow> lexer \<Rightarrow> flow option" where
  "run_step u sub lx =
     (let (skipped, lx) = skip_blanks lx;
          at_start = last_kind lx = None \<or> last_kind lx = Some TNewline;
          lx = lx\<lparr>lx_space_before := skipped \<or> at_start\<rparr>
      in case lx_peek lx of None \<Rightarrow> Some (Returned lx) | Some c \<Rightarrow> run_char u sub c lx)"

primrec lex_run :: "nat \<Rightarrow> std_env \<Rightarrow> lexer \<Rightarrow> lexer option" where
  "lex_run 0 u lx = None"
| "lex_run (Suc n) u lx =
     (case run_step u (lex_run n u) lx of
        None \<Rightarrow> None
      | Some (Returned lx') \<Rightarrow> Some lx'
      | Some (Next lx') \<Rightarrow> lex_run n u lx')"

text \<open>
  Fuel for a whole text: a heredoc makes the next newline jump, at most once for each byte of
  the text, and between two jumps every round of the loop reads at least one byte.
\<close>

definition lex_fuel :: "rtext \<Rightarrow> nat" where
  "lex_fuel src = (blen src + 2) * (blen src + 2)"

definition lex_text :: "std_env \<Rightarrow> rtext \<Rightarrow> lexed option" where
  "lex_text u src =
     (case lex_run (lex_fuel src) u (lexer_new src 0 False) of
        None \<Rightarrow> None
      | Some lx \<Rightarrow>
          let lx = lx_push TEof (blen src) (blen src) lx
          in Some \<lparr>ld_tokens = join_continuations (lx_tokens lx), ld_comments = lx_comments lx,
                   ld_errors = lx_errors lx\<rparr>)"

end
