(* ===== verification/Lexer_Reads.thy ===== *)
theory Lexer_Reads
  imports Lexer_Run
begin

text \<open>
  The lexer's invariant and its total correctness. \<open>f\<close> is a floor that the position never goes
  below: the start of the text, or the last place a heredoc made the lexer resume at. A pending
  resume position lies strictly above the floor, which is what bounds the number of jumps.
\<close>

subsection \<open>Well-formed output\<close>

definition span_in :: "nat \<Rightarrow> span \<Rightarrow> bool" where
  "span_in L s \<longleftrightarrow> (L \<le> u32_max \<longrightarrow> unat (sp_start s) \<le> unat (sp_end s) \<and> unat (sp_end s) \<le> L)"

text \<open>
  Newlines separate statements: none comes first, none follows another, and none is left before a
  dot that continues the line above.
\<close>

fun newlines_ok :: "bool \<Rightarrow> token list \<Rightarrow> bool" where
  "newlines_ok after_newline [] = True"
| "newlines_ok after_newline (t # ts) =
     (\<not> (after_newline \<and> tk_kind t = TNewline) \<and> newlines_ok (tk_kind t = TNewline) ts)"

definition layout_ok :: "token list \<Rightarrow> bool" where
  "layout_ok ts \<longleftrightarrow> newlines_ok True ts \<and>
     successively (\<lambda>a b. tk_kind a = TNewline \<longrightarrow> tk_kind b \<noteq> TDot \<and> tk_kind b \<noteq> TSafeDot) ts"

lemma newlines_ok_snoc [simp]:
  "newlines_ok b (ts @ [t]) \<longleftrightarrow> newlines_ok b ts \<and>
     \<not> ((if ts = [] then b else tk_kind (last ts) = TNewline) \<and> tk_kind t = TNewline)"
  by (induction ts arbitrary: b) auto

lemma newlines_ok_join: "newlines_ok b ts \<Longrightarrow> newlines_ok b (join_continuations ts)"
  by (induction ts arbitrary: b rule: join_continuations.induct) auto

lemma join_hd: "ts \<noteq> [] \<Longrightarrow> join_continuations ts \<noteq> [] \<and>
     (tk_kind (hd ts) \<noteq> TNewline \<longrightarrow> tk_kind (hd (join_continuations ts)) = tk_kind (hd ts))"
  by (induction ts rule: join_continuations.induct) auto

lemma join_no_dot:
  "newlines_ok b ts \<Longrightarrow>
     successively (\<lambda>a b. tk_kind a = TNewline \<longrightarrow> tk_kind b \<noteq> TDot \<and> tk_kind b \<noteq> TSafeDot) (join_continuations ts)"
proof (induction ts arbitrary: b rule: join_continuations.induct)
  case (1 t t2 ts)
  with join_hd [of "t2 # ts"] show ?case
    by (cases "join_continuations (t2 # ts)") auto
qed auto

lemma layout_ok_join:
  assumes "newlines_ok True ts" "tk_kind t = TEof"
  shows "layout_ok (join_continuations ts @ [t])"
  using newlines_ok_join [OF assms(1)] join_no_dot [OF assms(1)] assms(2)
  by (auto simp: layout_ok_def successively_append_iff)

fun token_wf :: "nat \<Rightarrow> token \<Rightarrow> bool"
  and part_wf :: "nat \<Rightarrow> str_part \<Rightarrow> bool" where
  "token_wf L (Token k s b) \<longleftrightarrow> span_in L s \<and>
     (case k of
        TInt n \<Rightarrow> 0 \<le> n \<and> n \<le> i64_max
      | TIdent x \<Rightarrow> keyword_lookup x = None
      | TStr ps \<Rightarrow> list_all (part_wf L) ps
      | _ \<Rightarrow> True)"
| "part_wf L (SLit s) \<longleftrightarrow> s \<noteq> []"
| "part_wf L (SInterp ts s) \<longleftrightarrow> span_in L s \<and> tokens_end ts \<and> layout_ok ts \<and> list_all (token_wf L) ts"

lemma span_in_new [simp]: "s \<le> e \<Longrightarrow> e \<le> L \<Longrightarrow> span_in L (span_new s e)"
  by (simp add: span_in_def span_new_def)

definition output_ok :: "lexer \<Rightarrow> bool" where
  "output_ok lx \<longleftrightarrow>
     list_all (\<lambda>t. token_wf (blen (lx_src lx)) t \<and> tk_kind t \<noteq> TEof) (lx_tokens lx) \<and>
     newlines_ok True (lx_tokens lx) \<and>
     list_all (\<lambda>e. span_in (blen (lx_src lx)) (le_span e)) (lx_errors lx) \<and>
     list_all (\<lambda>c. span_in (blen (lx_src lx)) (cm_span c)) (lx_comments lx)"

definition resume_ok :: "nat \<Rightarrow> lexer \<Rightarrow> bool" where
  "resume_ok f lx \<longleftrightarrow> (\<forall>r. lx_heredoc_resume lx = Some r \<longrightarrow> f < r \<and> boundary (lx_src lx) r)"

definition lex_inv :: "nat \<Rightarrow> lexer \<Rightarrow> bool" where
  "lex_inv f lx \<longleftrightarrow> boundary (lx_src lx) (lx_pos lx) \<and> f \<le> lx_pos lx \<and> resume_ok f lx \<and> output_ok lx"

text \<open>What no operation changes: the source and the kind of the lexer; positions grow.\<close>

definition lx_ext :: "lexer \<Rightarrow> lexer \<Rightarrow> bool" where
  "lx_ext lx lx' \<longleftrightarrow> lx_src lx' = lx_src lx \<and> lx_in_interp lx' = lx_in_interp lx \<and> lx_pos lx \<le> lx_pos lx'"

lemma lx_ext_refl [simp]: "lx_ext lx lx"
  by (simp add: lx_ext_def)

lemma lx_ext_trans: "lx_ext a b \<Longrightarrow> lx_ext b c \<Longrightarrow> lx_ext a c"
  by (simp add: lx_ext_def)

subsection \<open>Elementary operations\<close>

lemma push_sel [lexer_simps]:
  "lx_src (lx_push k s e lx) = lx_src lx" "lx_pos (lx_push k s e lx) = lx_pos lx"
  "lx_in_interp (lx_push k s e lx) = lx_in_interp lx" "lx_errors (lx_push k s e lx) = lx_errors lx"
  "lx_comments (lx_push k s e lx) = lx_comments lx"
  "lx_heredoc_resume (lx_push k s e lx) = lx_heredoc_resume lx"
  "lx_brace_depth (lx_push k s e lx) = lx_brace_depth lx"
  "lx_macro_indent (lx_push k s e lx) = lx_macro_indent lx"
  "lx_tokens (lx_push k s e lx) = lx_tokens lx @ [Token k (span_new s e) (lx_space_before lx)]"
  by (simp_all add: lx_push_def)

lemma error_sel [lexer_simps]:
  "lx_src (lx_error s e m lx) = lx_src lx" "lx_pos (lx_error s e m lx) = lx_pos lx"
  "lx_in_interp (lx_error s e m lx) = lx_in_interp lx" "lx_tokens (lx_error s e m lx) = lx_tokens lx"
  "lx_comments (lx_error s e m lx) = lx_comments lx"
  "lx_heredoc_resume (lx_error s e m lx) = lx_heredoc_resume lx"
  "lx_brace_depth (lx_error s e m lx) = lx_brace_depth lx"
  "lx_macro_indent (lx_error s e m lx) = lx_macro_indent lx"
  "lx_errors (lx_error s e m lx) = lx_errors lx @ [\<lparr>le_span = span_new s e, le_message = m\<rparr>]"
  by (simp_all add: lx_error_def)

lemma peek_rest: "lx_peek lx = Some c \<longleftrightarrow> (\<exists>q. lx_rest lx = c # q)" "lx_peek lx = None \<longleftrightarrow> lx_rest lx = []"
  by (auto simp: lx_peek_def split: list.splits)

lemma bump_eq: "lx_peek lx = Some c \<Longrightarrow> lx_bump lx = (Some c, lx\<lparr>lx_pos := lx_pos lx + len_utf8 c\<rparr>)"
  by (simp add: lx_bump_def)

lemma inv_pos [intro]:
  "lex_inv f lx \<Longrightarrow> boundary (lx_src lx) p \<Longrightarrow> f \<le> p \<Longrightarrow> lex_inv f (lx\<lparr>lx_pos := p\<rparr>)"
  by (simp add: lex_inv_def resume_ok_def output_ok_def)

lemma inv_posD: "lex_inv f lx \<Longrightarrow> boundary (lx_src lx) (lx_pos lx) \<and> f \<le> lx_pos lx \<and> lx_pos lx \<le> blen (lx_src lx)"
  by (simp add: lex_inv_def boundary_le)

text \<open>Reading a prefix of the rest of the text.\<close>

lemma inv_read:
  "lex_inv f lx \<Longrightarrow> lx_rest lx = p @ q \<Longrightarrow>
     lex_inv f (lx\<lparr>lx_pos := lx_pos lx + blen p\<rparr>) \<and> lx_rest (lx\<lparr>lx_pos := lx_pos lx + blen p\<rparr>) = q"
  by (auto simp: lex_inv_def resume_ok_def output_ok_def lx_rest_def dest: boundary_prefix)

lemma bump_inv:
  assumes "lex_inv f lx" and "lx_peek lx = Some c"
  shows "lex_inv f (snd (lx_bump lx)) \<and> lx_ext lx (snd (lx_bump lx)) \<and> lx_pos lx < lx_pos (snd (lx_bump lx))"
proof -
  from assms(2) obtain q where "lx_rest lx = [c] @ q" by (auto simp: peek_rest)
  from inv_read [OF assms(1) this] show ?thesis by (simp add: bump_eq [OF assms(2)] lx_ext_def)
qed

lemma bump_inv_le: "lex_inv f lx \<Longrightarrow> lex_inv f (snd (lx_bump lx)) \<and> lx_ext lx (snd (lx_bump lx))"
  using bump_inv by (cases "lx_peek lx") (auto simp: lx_bump_def)

lemma bump_while_inv: "lex_inv f lx \<Longrightarrow> lex_inv f (lx_bump_while p lx) \<and> lx_ext lx (lx_bump_while p lx)"
  using inv_read [of f lx "takeWhile p (lx_rest lx)" "dropWhile p (lx_rest lx)"]
  by (simp add: lx_bump_while_def lx_ext_def)

lemma bump_while_unfold:
  "lex_inv f lx \<Longrightarrow> lx_bump_while p lx =
     (case lx_peek lx of
        None \<Rightarrow> lx
      | Some c \<Rightarrow> if p c then lx_bump_while p (snd (lx_bump lx)) else lx)"
proof (cases "lx_rest lx")
  case (Cons c q)
  assume "lex_inv f lx"
  from inv_read [OF this, of "[c]" q] Cons show ?thesis
    by (auto simp: lx_bump_while_def lx_peek_def lx_bump_def)
qed (simp add: lx_bump_while_def lx_peek_def)

lemma bump_while_pos:
  "lx_peek lx = Some c \<Longrightarrow> p c \<Longrightarrow> lx_pos lx < lx_pos (lx_bump_while p lx)"
  by (auto simp: lx_bump_while_def peek_rest)

lemma eat_inv: "lex_inv f lx \<Longrightarrow> lex_inv f (snd (lx_eat c lx)) \<and> lx_ext lx (snd (lx_eat c lx))"
  using bump_inv_le by (simp add: lx_eat_def)

lemma push_inv [intro]:
  "lex_inv f lx \<Longrightarrow> s \<le> e \<Longrightarrow> e \<le> blen (lx_src lx) \<Longrightarrow> k \<noteq> TEof \<Longrightarrow> k \<noteq> TNewline \<Longrightarrow>
   token_wf (blen (lx_src lx)) (Token k (span_new s e) (lx_space_before lx)) \<Longrightarrow> lex_inv f (lx_push k s e lx)"
  by (simp add: lex_inv_def resume_ok_def output_ok_def lexer_simps)

lemma error_inv [intro]:
  "lex_inv f lx \<Longrightarrow> s \<le> e \<Longrightarrow> e \<le> blen (lx_src lx) \<Longrightarrow> lex_inv f (lx_error s e m lx)"
  by (simp add: lex_inv_def resume_ok_def output_ok_def lexer_simps)

lemma inv_flags [simp]:
  "lex_inv f (lx\<lparr>lx_line_has_token := b\<rparr>) = lex_inv f lx"
  "lex_inv f (lx\<lparr>lx_space_before := b\<rparr>) = lex_inv f lx"
  "lex_inv f (lx\<lparr>lx_macro_indent := m\<rparr>) = lex_inv f lx"
  "lex_inv f (lx\<lparr>lx_brace_depth := d\<rparr>) = lex_inv f lx"
  by (simp_all add: lex_inv_def resume_ok_def output_ok_def)

subsection \<open>Blanks, newlines, macro bodies, comments\<close>

lemma blanks_prefix: "\<exists>p q. s = p @ q \<and> blen p = blanks_len s"
proof (induction s rule: blanks_len.induct)
  case (1 c cs)
  show ?case
  proof (cases "c = 32 \<or> c = 9 \<or> c = 13")
    case True
    with "1.IH"(1) obtain p q where "cs = p @ q" "blen p = blanks_len cs" by auto
    with True show ?thesis by (intro exI [of _ "c # p"] exI [of _ q]) auto
  next
    case blank: False
    show ?thesis
    proof (cases "c = 92 \<and> (\<exists>ds. cs = newline_char # ds)")
      case True
      then obtain ds where ds: "c = 92" "cs = newline_char # ds" by blast
      with "1.IH"(2) [OF _ _ ds(2)] blank obtain p q where "ds = p @ q" "blen p = blanks_len ds" by auto
      with ds show ?thesis by (intro exI [of _ "c # newline_char # p"] exI [of _ q]) auto
    next
      case False
      with blank show ?thesis
        by (intro exI [of _ "[]"] exI [of _ "c # cs"]) (auto split: list.splits)
    qed
  qed
qed simp

lemma skip_blanks_inv:
  assumes "lex_inv f lx"
  shows "lex_inv f (snd (skip_blanks lx)) \<and> lx_ext lx (snd (skip_blanks lx))"
proof -
  obtain p q where "lx_rest lx = p @ q" "blen p = blanks_len (lx_rest lx)" using blanks_prefix by blast
  with inv_read [OF assms this(1)] show ?thesis by (simp add: skip_blanks_def Let_def lx_ext_def)
qed

lemma push_newline_sel [lexer_simps]:
  "lx_src (push_newline s lx) = lx_src lx" "lx_pos (push_newline s lx) = lx_pos lx"
  "lx_in_interp (push_newline s lx) = lx_in_interp lx"
  "lx_heredoc_resume (push_newline s lx) = lx_heredoc_resume lx"
  "lx_brace_depth (push_newline s lx) = lx_brace_depth lx"
  by (simp_all add: push_newline_def Let_def lexer_simps)

lemma push_newline_inv: "lex_inv f lx \<Longrightarrow> Suc s \<le> blen (lx_src lx) \<Longrightarrow> lex_inv f (push_newline s lx)"
  by (auto simp: push_newline_def Let_def last_kind_def lex_inv_def resume_ok_def output_ok_def lexer_simps)

lemma macro_end_Some:
  "boundary src line \<Longrightarrow> macro_end src indent line = Some l \<Longrightarrow> boundary src l \<and> line \<le> l"
proof (induction src indent line rule: macro_end.induct)
  case (1 src indent line)
  let ?e = "line_end src line" let ?t = "slice src line ?e"
  have lt: "line < blen src" using "1.prems"(2) by (simp add: macro_end.simps split: if_splits)
  show ?case
  proof (cases "trim ?t = str ''end'' \<and> blen ?t - blen (trim_start ?t) = indent")
    case True
    with "1.prems" lt show ?thesis by (simp add: macro_end.simps [of src indent line] Let_def)
  next
    case False
    with "1.prems"(2) lt have next_line: "macro_end src indent (?e + 1) = Some l"
      by (simp add: macro_end.simps [of src indent line] Let_def split: if_splits)
    then have "?e < blen src" by (simp add: macro_end.simps [of src indent "Suc ?e"] split: if_splits)
    with line_end_next [OF "1.prems"(1)] have "boundary src (?e + 1)" by simp
    with "1.IH" [OF lt refl refl False _ next_line] line_end_boundary [OF "1.prems"(1)] show ?thesis by simp
  qed
qed

lemma macro_body_inv:
  assumes inv: "lex_inv f lx"
  shows "lex_inv f (macro_body indent lx) \<and> lx_ext lx (macro_body indent lx)"
proof (cases "macro_end (lx_src lx) indent (lx_pos lx)")
  case None
  with inv inv_posD [OF inv] show ?thesis
    by (auto simp: macro_body_def Let_def lx_ext_def lexer_simps intro!: inv_pos error_inv push_inv)
next
  case (Some l)
  with inv_posD [OF inv] macro_end_Some have "boundary (lx_src lx) l" "lx_pos lx \<le> l" by auto
  with Some inv inv_posD [OF inv] boundary_le [of "lx_src lx" l] show ?thesis
    by (auto simp: macro_body_def Let_def lx_ext_def lexer_simps intro!: inv_pos push_inv)
qed

text \<open>A newline either goes on in the text or jumps to a resume position above the floor.\<close>

lemma newline_inv:
  assumes inv: "lex_inv f lx" and s: "Suc s \<le> blen (lx_src lx)"
  shows "\<exists>f'. lex_inv f' (newline s lx) \<and> lx_src (newline s lx) = lx_src lx \<and>
              lx_in_interp (newline s lx) = lx_in_interp lx \<and>
              (f' = f \<and> lx_pos lx \<le> lx_pos (newline s lx) \<or> f < f')"
proof -
  let ?n = "push_newline s lx"
  have n: "lex_inv f ?n" using push_newline_inv [OF inv s] .
  define m where "m = (case lx_heredoc_resume ?n of None \<Rightarrow> ?n
      | Some r \<Rightarrow> ?n\<lparr>lx_heredoc_resume := None, lx_pos := r\<rparr>)"
  have "\<exists>f'. lex_inv f' m \<and> lx_src m = lx_src lx \<and> lx_in_interp m = lx_in_interp lx \<and>
             (f' = f \<and> lx_pos lx \<le> lx_pos m \<or> f < f')"
  proof (cases "lx_heredoc_resume ?n")
    case None
    with n show ?thesis by (intro exI [of _ f]) (simp add: m_def lexer_simps)
  next
    case (Some r)
    with n show ?thesis
      by (intro exI [of _ r]) (auto simp: m_def lexer_simps lex_inv_def resume_ok_def output_ok_def)
  qed
  then obtain f' where m: "lex_inv f' m" "lx_src m = lx_src lx" "lx_in_interp m = lx_in_interp lx"
      "f' = f \<and> lx_pos lx \<le> lx_pos m \<or> f < f'" by blast
  have nl: "newline s lx = (case lx_macro_indent m of None \<Rightarrow> m
      | Some indent \<Rightarrow> macro_body indent (m\<lparr>lx_macro_indent := None\<rparr>))"
    by (simp only: newline_def Let_def m_def)
  have "lex_inv f' (newline s lx) \<and> lx_ext m (newline s lx)"
    using macro_body_inv [of f' "m\<lparr>lx_macro_indent := None\<rparr>"] m(1)
    by (cases "lx_macro_indent m") (simp_all add: nl lx_ext_def)
  with m show ?thesis by (intro exI [of _ f']) (auto simp: lx_ext_def)
qed

lemma comment_inv:
  assumes inv: "lex_inv f lx" and c: "lx_peek lx = Some c" "c \<noteq> newline_char"
  shows "lex_inv f (lex_comment lx) \<and> lx_ext lx (lex_comment lx) \<and> lx_pos lx < lx_pos (lex_comment lx)"
proof -
  from inv_posD [OF inv] have b: "boundary (lx_src lx) (lx_pos lx)" by simp
  from c obtain q where "drop_bytes (lx_pos lx) (lx_src lx) = c # q" by (auto simp: peek_rest lx_rest_def)
  from line_end_gt [OF b this c(2)] line_end_boundary [OF b] line_end_le [OF b] inv show ?thesis
    by (auto simp: lex_comment_def Let_def lx_line_end_def lx_ext_def lex_inv_def resume_ok_def output_ok_def)
qed

subsection \<open>Reading\<close>

text \<open>
  \<open>reads f a b\<close>: from \<open>a\<close>, the lexer is at \<open>b\<close> with its invariant; \<open>reads1\<close>: and something was read.
\<close>

definition reads :: "nat \<Rightarrow> lexer \<Rightarrow> lexer \<Rightarrow> bool" where
  "reads f a b \<longleftrightarrow> lex_inv f b \<and> lx_ext a b"

definition reads1 :: "nat \<Rightarrow> lexer \<Rightarrow> lexer \<Rightarrow> bool" where
  "reads1 f a b \<longleftrightarrow> lex_inv f b \<and> lx_ext a b \<and> lx_pos a < lx_pos b"

lemma reads_refl: "lex_inv f a \<Longrightarrow> reads f a a"
  by (simp add: reads_def)

lemma reads_trans: "reads f a b \<Longrightarrow> reads f b c \<Longrightarrow> reads f a c"
  by (auto simp: reads_def lx_ext_def)

lemma reads1_trans: "reads1 f a b \<Longrightarrow> reads f b c \<Longrightarrow> reads1 f a c"
  by (auto simp: reads_def reads1_def lx_ext_def)

lemma reads_reads1: "reads1 f a b \<Longrightarrow> reads f a b"
  by (simp add: reads_def reads1_def)

lemma reads_inv: "reads f a b \<Longrightarrow> lex_inv f b" "reads1 f a b \<Longrightarrow> lex_inv f b"
  by (simp_all add: reads_def reads1_def)

lemma reads_bump: "lex_inv f a \<Longrightarrow> reads f a (snd (lx_bump a))"
  using bump_inv_le by (simp add: reads_def)

lemma reads1_bump: "lex_inv f a \<Longrightarrow> lx_peek a = Some c \<Longrightarrow> reads1 f a (snd (lx_bump a))"
  using bump_inv by (simp add: reads1_def)

lemma reads_bump_while: "lex_inv f a \<Longrightarrow> reads f a (lx_bump_while p a)"
  using bump_while_inv by (simp add: reads_def)

lemma reads_eat: "lex_inv f a \<Longrightarrow> lx_eat c a = (e, b) \<Longrightarrow> reads f a b"
  using eat_inv [of f a c] by (simp add: reads_def)

lemma reads_prefix: "lex_inv f a \<Longrightarrow> lx_rest a = p @ q \<Longrightarrow> reads f a (a\<lparr>lx_pos := lx_pos a + blen p\<rparr>)"
  using inv_read [of f a p q] by (simp add: reads_def lx_ext_def)

text \<open>A token, or an error, over what was read since \<open>a\<close>.\<close>

lemma reads1_push:
  assumes "reads1 f a b" "k \<noteq> TEof" "k \<noteq> TNewline"
    and "\<And>s. span_in (blen (lx_src b)) s \<Longrightarrow> token_wf (blen (lx_src b)) (Token k s (lx_space_before b))"
  shows "reads1 f a (lx_push k (lx_pos a) (lx_pos b) b)"
proof -
  have "lex_inv f b" "lx_pos a \<le> lx_pos b" "lx_pos b \<le> blen (lx_src b)"
    using assms(1) inv_posD [of f b] by (simp_all add: reads1_def)
  then have "lex_inv f (lx_push k (lx_pos a) (lx_pos b) b)" using assms(2-4) by (intro push_inv) (auto simp del: token_wf.simps)
  with assms(1) show ?thesis by (simp add: reads1_def lx_ext_def lexer_simps)
qed

lemma reads1_error: "reads1 f a b \<Longrightarrow> reads1 f a (lx_error (lx_pos a) (lx_pos b) m b)"
  using inv_posD [of f b] by (auto simp: reads1_def lx_ext_def lexer_simps)

subsection \<open>Identifiers, symbols, numbers, punctuation\<close>

lemma reads_suffix: "lex_inv f a \<Longrightarrow> reads f a (take_predicate_suffix a)"
  by (simp add: take_predicate_suffix_def reads_refl reads_bump)

lemma reads_ident_chars: "lex_inv f a \<Longrightarrow> reads f a (take_ident_chars u a)"
  by (simp add: take_ident_chars_def reads_bump_while)

lemma reads1_ident_chars:
  "lex_inv f a \<Longrightarrow> lx_peek a = Some c \<Longrightarrow> is_ident_start u c \<Longrightarrow> reads1 f a (take_ident_chars u a)"
  using reads_ident_chars [of f a u] bump_while_pos [of a c "is_ident_continue u"]
  by (auto simp: reads_def reads1_def take_ident_chars_def is_ident_start_def is_ident_continue_def is_alphanumeric_def)

lemma reads1_ident:
  assumes inv: "lex_inv f lx" and c: "lx_peek lx = Some c" "is_ident_start u c"
  shows "reads1 f lx (lex_ident u lx)"
proof -
  define const where "const = is_uppercase u c"
  define a where "a = take_ident_chars u lx"
  define b where "b = (if \<not> const \<and> (keyword_lookup (lx_slice a (lx_pos lx)) = None \<or> at_method_name a)
                       then take_predicate_suffix a else a)"
  let ?t = "lx_slice b (lx_pos lx)"
  have a: "reads1 f lx a" using reads1_ident_chars [OF inv c] by (simp add: a_def)
  have "reads f a b" using reads_suffix [of f a] reads_refl [of f a] reads_inv(2) [OF a] by (simp add: b_def)
  with a have b: "reads1 f lx b" by (rule reads1_trans)
  let ?label = "\<not> const \<and> lx_peek b = Some (ch CHR '':'') \<and> lx_peek_at 1 b \<noteq> Some (ch CHR '':'')"
  let ?d = "snd (lx_bump b)"
  define e where "e = (if ?t = str ''macro'' \<and> \<not> lx_line_has_token b \<and> \<not> lx_in_interp b
                       \<and> lx_peek b = Some (ch CHR '' '')
                       \<and> (case dropWhile (\<lambda>c. c = ch CHR '' '') (lx_rest b) of [] \<Rightarrow> False | c # _ \<Rightarrow> is_ident_start u c)
                    then b\<lparr>lx_macro_indent := Some (lx_pos lx - line_start_of (lx_src b) (lx_pos lx))\<rparr> else b)"
  define k where "k = (if const then TConst ?t
                       else case keyword_lookup ?t of Some kw \<Rightarrow> TKw kw | None \<Rightarrow> TIdent ?t)"
  have eq: "lex_ident u lx = (if ?label then lx_push (TLabel ?t) (lx_pos lx) (lx_pos ?d) ?d
                              else lx_push k (lx_pos lx) (lx_pos e) e)"
    by (simp only: lex_ident_def Let_def a_def b_def const_def e_def k_def c(1) option.case)
  have "reads1 f lx ?d" using b reads_bump [OF reads_inv(2) [OF b]] by (rule reads1_trans)
  then have label: "reads1 f lx (lx_push (TLabel ?t) (lx_pos lx) (lx_pos ?d) ?d)" by (rule reads1_push) simp_all
  have "reads1 f lx e" using b by (auto simp: e_def reads1_def lx_ext_def)
  then have "reads1 f lx (lx_push k (lx_pos lx) (lx_pos e) e)"
    by (rule reads1_push) (auto simp: k_def split: option.splits)
  with label show ?thesis unfolding eq by simp
qed

lemma reads1_ivar:
  assumes inv: "lex_inv f lx" and c: "lx_peek lx = Some c"
  shows "reads1 f lx (lex_ivar u lx)"
proof -
  let ?a = "snd (lx_bump lx)" let ?b = "take_ident_chars u ?a"
  have a: "reads1 f lx ?a" using reads1_bump [OF inv c] .
  have b: "reads1 f lx ?b" using a reads_ident_chars [OF reads_inv(2) [OF a]] by (rule reads1_trans)
  have "reads1 f lx (lx_push (TIVar t) (lx_pos lx) (lx_pos ?b) ?b)" for t using reads1_push [OF b] by simp
  with reads1_error [OF b] show ?thesis
    by (cases "lx_pos ?b = lx_pos ?a") (simp_all add: lex_ivar_def Let_def)
qed

lemma starts_with_prefix: "starts_with s p \<Longrightarrow> s = p @ drop (length p) s"
  by (metis append_take_drop_id starts_with_def)

lemma blen_str_ascii: "list_all (\<lambda>c. ch c < (128 :: nat)) s \<Longrightarrow> blen (str s) = length s"
  by (induction s) auto

lemma operator_symbol_Some:
  assumes "operator_symbol lx = Some op"
  shows "\<exists>q. lx_rest lx = str op @ q \<and> blen (str op) = length op"
proof -
  from assms have st: "starts_with (lx_rest lx) (str op)" and op: "op \<in> set OPERATORS"
    unfolding operator_symbol_def by (auto dest: find_SomeD)
  from op have "list_all (\<lambda>c. ch c < (128 :: nat)) op" by (auto simp: OPERATORS_def)
  with starts_with_prefix [OF st] blen_str_ascii show ?thesis by auto
qed

lemma reads1_colon:
  assumes inv: "lex_inv f lx" and c: "lx_peek lx = Some c"
  shows "reads1 f lx (lex_colon u lx)"
proof -
  let ?a = "snd (lx_bump lx)"
  have a: "reads1 f lx ?a" using reads1_bump [OF inv c] .
  obtain double b where eat: "lx_eat 58 ?a = (double, b)" by (cases "lx_eat 58 ?a")
  have b: "reads1 f lx b" using a reads_eat [OF reads_inv(2) [OF a] eat] by (rule reads1_trans)
  let ?i = "take_ident_chars u b" let ?s = "take_predicate_suffix ?i"
  have i: "reads1 f lx ?i" using b reads_ident_chars [OF reads_inv(2) [OF b]] by (rule reads1_trans)
  have s: "reads1 f lx ?s" using i reads_suffix [OF reads_inv(2) [OF i]] by (rule reads1_trans)
  have op: "reads1 f lx (b\<lparr>lx_pos := lx_pos b + length op\<rparr>)" if "operator_symbol b = Some op" for op
    using operator_symbol_Some [OF that] reads1_trans [OF b reads_prefix [OF reads_inv(2) [OF b]]] by metis
  have op': "reads1 f lx (lx_push (TSymbol (str op)) (lx_pos lx) (lx_pos b + length op) (b\<lparr>lx_pos := lx_pos b + length op\<rparr>))"
    if "operator_symbol b = Some op" for op
    using reads1_push [OF op [OF that], of "TSymbol (str op)"] by simp
  have tok: "reads1 f lx (lx_push TColonColon (lx_pos lx) (lx_pos b) b)"
    "reads1 f lx (lx_push TColon (lx_pos lx) (lx_pos b) b)"
    "reads1 f lx (lx_push (TSymbol t) (lx_pos lx) (lx_pos ?s) ?s)" for t
    using reads1_push [OF b] reads1_push [OF s] by simp_all
  show ?thesis using tok op' by (simp add: lex_colon_def Let_def eat split: option.splits)
qed

lemma digit_facts:
  "is_ascii_digit c \<Longrightarrow> len_utf8 c = 1" "is_ascii_digit c \<Longrightarrow> c \<noteq> newline_char"
  "is_ascii_digit c \<Longrightarrow> is_ascii_hexdigit c"
  by (auto simp: is_ascii_digit_def is_ascii_hexdigit_def)

lemma reads_take_digits: "lex_inv f a \<Longrightarrow> reads f a (take_digits a)"
  by (simp add: take_digits_def reads_bump_while)

lemma reads1_take_digits:
  "lex_inv f a \<Longrightarrow> lx_peek a = Some c \<Longrightarrow> is_ascii_digit c \<Longrightarrow> reads1 f a (take_digits a)"
  using reads_take_digits [of f a] bump_while_pos [of a c] by (auto simp: reads_def reads1_def take_digits_def)

lemma peek_at_prefix:
  assumes "lx_peek_at n a = Some d" and "list_all (\<lambda>c. c < 128) (take n (lx_rest a))"
  shows "\<exists>q. lx_rest a = take n (lx_rest a) @ q \<and> blen (take n (lx_rest a)) = n \<and> q \<noteq> []"
proof -
  have "n < length (lx_rest a)" using assms(1) by (cases "n < length (lx_rest a)") (auto simp: lx_peek_at_def)
  moreover have "list_all (\<lambda>c. c < 128) s \<Longrightarrow> blen s = length s" for s by (induction s) auto
  ultimately show ?thesis using assms(2) by (intro exI [of _ "drop n (lx_rest a)"]) auto
qed

text \<open>The exponent of a float: \<open>e\<close>, an optional sign, digits.\<close>

lemma reads_exponent:
  assumes inv: "lex_inv f a" and e: "lx_peek a \<in> {Some (ch CHR ''e''), Some (ch CHR ''E'')}"
    and n: "n = (if lx_peek_at 1 a \<in> {Some (ch CHR ''+''), Some (ch CHR ''-'')} then 2 else 1)"
    and d: "peeks_digit n a"
  shows "reads f a (take_digits (a\<lparr>lx_pos := lx_pos a + n\<rparr>))"
proof -
  from e obtain c q where rest: "lx_rest a = c # q" and c: "c < 128" by (auto simp: peek_rest)
  from d obtain x where x: "lx_peek_at n a = Some x" by (auto simp: peeks_digit_def split: option.splits)
  have "list_all (\<lambda>c. c < 128) (take n (lx_rest a))"
  proof (cases "n = 1")
    case False
    with n have "n = 2" "lx_peek_at 1 a \<in> {Some 43, Some 45}" by (auto split: if_splits)
    with rest c show ?thesis by (cases q) (auto simp: lx_peek_at_def)
  qed (use rest c in simp)
  from peek_at_prefix [OF x this] have "reads f a (a\<lparr>lx_pos := lx_pos a + n\<rparr>)"
    using reads_prefix [OF inv] by metis
  from reads_trans [OF this reads_take_digits [OF reads_inv(1) [OF this]]] show ?thesis .
qed

lemma reads1_number:
  assumes inv: "lex_inv f lx" and c: "lx_peek lx = Some c" "is_ascii_digit c"
  shows "reads1 f lx (lex_number u lx)"
proof (cases "starts_with (lx_rest lx) (str ''0x'')")
  case True
  let ?a = "lx\<lparr>lx_pos := lx_pos lx + 2\<rparr>"
  let ?b = "lx_bump_while (\<lambda>c. is_ascii_hexdigit c \<or> c = ch CHR ''_'') ?a"
  have "reads f lx ?a"
    using reads_prefix [OF inv, of "str ''0x''"] starts_with_prefix [OF True] by fastforce
  then have "reads1 f lx ?a" by (simp add: reads_def reads1_def)
  then have b: "reads1 f lx ?b" using reads_bump_while reads_inv by (blast intro: reads1_trans)
  have "reads1 f lx (lx_push (TInt n) (lx_pos lx) (lx_pos ?b) ?b)" if "parse_i64_hex s = Some n" for n s
    using parse_i64_hex_range [OF that] by (intro reads1_push [OF b]) simp_all
  with reads1_error [OF b] True show ?thesis
    unfolding lex_number_def Let_def by (simp only: if_True split: option.split) blast
next
  case False
  let ?a = "take_digits lx"
  have a: "reads1 f lx ?a" using reads1_take_digits [OF inv c] .
  obtain fl b where fb: "(if lx_peek ?a = Some (ch CHR ''.'') \<and> peeks_digit 1 ?a
      then (True, take_digits (snd (lx_bump ?a))) else (False, ?a)) = (fl, b)" by fastforce
  have "reads f ?a (take_digits (snd (lx_bump ?a)))"
    using reads_bump [OF reads_inv(2) [OF a]] reads_take_digits reads_inv by (blast intro: reads_trans)
  then have b: "reads1 f lx b"
    using fb a reads1_trans [OF a] by (auto split: if_splits)
  let ?n = "if lx_peek_at 1 b \<in> {Some (ch CHR ''+''), Some (ch CHR ''-'')} then 2 else 1"
  obtain fl' d where fd: "(if lx_peek b \<in> {Some (ch CHR ''e''), Some (ch CHR ''E'')} then
      if peeks_digit ?n b then (True, take_digits (b\<lparr>lx_pos := lx_pos b + ?n\<rparr>)) else (fl, b)
      else (fl, b)) = (fl', d)" by fastforce
  have d: "reads1 f lx d"
  proof (cases "lx_peek b \<in> {Some (ch CHR ''e''), Some (ch CHR ''E'')} \<and> peeks_digit ?n b")
    case True
    with fd have "d = take_digits (b\<lparr>lx_pos := lx_pos b + ?n\<rparr>)" by simp
    with reads1_trans [OF b] reads_exponent [OF reads_inv(2) [OF b] _ refl] True show ?thesis by blast
  next
    case False
    with fd have "d = b" by (auto split: if_splits)
    with b show ?thesis by simp
  qed
  let ?t = "strip_underscores (lx_slice d (lx_pos lx))"
  let ?k = "if fl' then map_option TFloat (parse_f64 u ?t) else map_option TInt (parse_i64 ?t)"
  have eq: "lex_number u lx = (case ?k of
       Some kind \<Rightarrow> lx_push kind (lx_pos lx) (lx_pos d) d
     | None \<Rightarrow> lx_error (lx_pos lx) (lx_pos d) (str ''number out of range'') d)"
    using False unfolding lex_number_def Let_def by (simp only: if_False fb fd prod.case)
  have "reads1 f lx (lx_push k (lx_pos lx) (lx_pos d) d)" if "?k = Some k" for k
    using that by (intro reads1_push [OF d]) (auto dest: parse_i64_range split: if_splits)
  with reads1_error [OF d] show ?thesis unfolding eq by (simp split: option.split)
qed

text \<open>Punctuation: whatever the guarded arms eat, the kind is one that carries nothing.\<close>

definition plain_kind :: "token_kind \<Rightarrow> bool" where
  "plain_kind k \<longleftrightarrow> k \<noteq> TEof \<and> k \<noteq> TNewline \<and> (\<forall>L s b. token_wf L (Token k s b) \<longleftrightarrow> span_in L s)"

definition punct_ok :: "nat \<Rightarrow> lexer \<Rightarrow> token_kind option \<times> lexer \<Rightarrow> bool" where
  "punct_ok f a r \<longleftrightarrow> reads f a (snd r) \<and> (\<forall>k. fst r = Some k \<longrightarrow> plain_kind k)"

lemma punct_ok_yields: "lex_inv f a \<Longrightarrow> plain_kind k \<Longrightarrow> punct_ok f a (yields k a)"
  by (simp add: punct_ok_def yields_def reads_refl)

lemma punct_ok_eat_or:
  assumes inv: "lex_inv f a" and g: "\<And>b. lex_inv f b \<Longrightarrow> punct_ok f b (g b)" and h: "\<And>b. lex_inv f b \<Longrightarrow> punct_ok f b (h b)"
  shows "punct_ok f a (eat_or c g h a)"
proof -
  obtain e b where e: "lx_eat (ch c) a = (e, b)" by fastforce
  from reads_eat [OF inv e] have r: "reads f a b" .
  with g [of b] h [of b] reads_inv(1) [OF r] show ?thesis
    by (cases e) (auto simp: eat_or_def e punct_ok_def intro: reads_trans)
qed

lemma punct_ok_depth:
  "punct_ok f a (yields k a) \<Longrightarrow> punct_ok f a (yields k (a\<lparr>lx_brace_depth := d\<rparr>))"
  by (simp add: punct_ok_def yields_def reads_def lx_ext_def)

lemma punct_kind_ok: "lex_inv f a \<Longrightarrow> punct_ok f a (punct_kind c a)"
  unfolding punct_kind_def
  by (simp add: punct_ok_yields punct_ok_eat_or punct_ok_depth plain_kind_def)
     (simp add: punct_ok_def reads_refl)

lemma reads1_punct:
  assumes inv: "lex_inv f lx" and c: "lx_peek lx = Some c"
  shows "reads1 f lx (lex_punct lx)"
proof -
  obtain a where bump: "lx_bump lx = (Some c, a)" using c by (simp add: bump_eq)
  with reads1_bump [OF inv c] have a: "reads1 f lx a" by simp
  obtain k b where k: "punct_kind c a = (k, b)" by fastforce
  with punct_kind_ok [OF reads_inv(2) [OF a], of c] have "reads f a b" and plain: "\<And>x. k = Some x \<Longrightarrow> plain_kind x"
    by (simp_all add: punct_ok_def)
  from a this(1) have b: "reads1 f lx b" by (rule reads1_trans)
  from plain have "reads1 f lx (lx_push x (lx_pos lx) (lx_pos b) b)" if "k = Some x" for x
    using that by (intro reads1_push [OF b]) (auto simp: plain_kind_def)
  with reads1_error [OF b] show ?thesis
    by (cases k) (simp_all add: lex_punct_def Let_def k bump)
qed

subsection \<open>Escapes\<close>

lemma reads_error: "reads f a b \<Longrightarrow> s \<le> e \<Longrightarrow> e \<le> lx_pos b \<Longrightarrow> reads f a (lx_error s e m b)"
  using inv_posD [of f b] by (auto simp: reads_def lx_ext_def lexer_simps)

lemma reads_unicode:
  assumes inv: "lex_inv f lx" and st: "start \<le> lx_pos lx"
  shows "reads f lx (snd (unicode_escape start buf lx))"
proof -
  obtain br a where a: "lx_eat (ch CHR ''{'') lx = (br, a)" by fastforce
  let ?ds = "takeWhile is_ascii_hexdigit (lx_rest a)"
  let ?hex = "if br then ?ds else take 4 ?ds"
  let ?b = "a\<lparr>lx_pos := lx_pos a + blen ?hex\<rparr>"
  have ra: "reads f lx a" using reads_eat [OF inv a] .
  have "lx_rest a = ?hex @ (if br then [] else drop 4 ?ds) @ dropWhile is_ascii_hexdigit (lx_rest a)"
    by (simp add: append_assoc [symmetric] del: append_assoc)
  from reads_prefix [OF reads_inv(1) [OF ra] this] have rb: "reads f lx ?b" using ra by (rule reads_trans [rotated])
  obtain ok d where d: "lx_eat (ch CHR ''}'') ?b = (ok, d)" by fastforce
  have rd: "reads f lx d" using rb reads_eat [OF reads_inv(1) [OF rb] d] by (rule reads_trans)
  have ge: "start \<le> lx_pos x" if "reads f lx x" for x using that st by (auto simp: reads_def lx_ext_def)
  define m where "m = str ''expected `}` to close `'' @ [92] @ str ''u{'' @ [0x2026] @ str ''}`''"
  define e where "e = (if br then (if ok then d else lx_error start (lx_pos d) m d) else ?b)"
  have re: "reads f lx e" using rb rd reads_error [OF rd ge [OF rd] order_refl] by (cases br) (simp_all add: e_def)
  have "unicode_escape start buf lx = (case Option.bind (parse_u32_hex ?hex) char_from_u32 of
      Some c \<Rightarrow> (buf @ [c], e) | None \<Rightarrow> (buf, lx_error start (lx_pos e) (str ''invalid unicode escape'') e))"
    unfolding unicode_escape_def Let_def e_def m_def
    by (simp only: a prod.case d) (cases ok; simp only: bool.case if_True if_False)
  with re reads_error [OF re ge [OF re] order_refl] show ?thesis by (simp split: option.split)
qed

lemma reads1_escape:
  assumes inv: "lex_inv f lx" and c: "lx_peek lx = Some c"
  shows "reads1 f lx (snd (lex_escape buf full lx))"
proof -
  obtain a where bump: "lx_bump lx = (Some c, a)" using c by (simp add: bump_eq)
  with reads1_bump [OF inv c] have a: "reads1 f lx a" by simp
  obtain d b where bump2: "lx_bump a = (d, b)" by fastforce
  with reads_bump [OF reads_inv(2) [OF a]] have "reads f a b" by (metis snd_conv)
  with a have b: "reads1 f lx b" by (rule reads1_trans)
  then have "lx_pos lx \<le> lx_pos b" by (simp add: reads1_def)
  with b have u: "reads1 f lx (snd (unicode_escape (lx_pos lx) buf b))"
    using reads_unicode reads_inv(2) by (blast intro: reads1_trans)
  show ?thesis
    using b u a by (cases d) (simp_all add: lex_escape_def Let_def bump bump2)
qed

end
