(* ===== verification/Lexer_Safety.thy ===== *)
theory Lexer_Safety
  imports Lexer_Reads
begin

text \<open>
  Total correctness of the lexer's main loop: the locale states what a sub-lexer promises to an
  interpolation, and its interpretation on \<open>lex_run\<close> ties the recursion.
\<close>

subsection \<open>Interpolations and strings, for a sub-lexer that is total on smaller work\<close>

text \<open>
  The work left: a jump costs all the bytes between the floors, which pays for reading again
  what the jump went back over.
\<close>

definition work :: "nat \<Rightarrow> lexer \<Rightarrow> nat" where
  "work f lx = (blen (lx_src lx) - f) * (blen (lx_src lx) + 2) + (blen (lx_src lx) - lx_pos lx)"

text \<open>Where a lexer stops: at the end of the text, or at the brace that closes its interpolation.\<close>

definition stopped :: "lexer \<Rightarrow> bool" where
  "stopped lx \<longleftrightarrow> lx_peek lx = None \<or>
     lx_in_interp lx \<and> lx_peek lx = Some (ch CHR ''}'') \<and> lx_brace_depth lx = 0"

definition runs :: "sub_lexer \<Rightarrow> nat \<Rightarrow> lexer \<Rightarrow> bool" where
  "runs sub f lx \<longleftrightarrow> (\<exists>lx' f'. sub lx = Some lx' \<and> f \<le> f' \<and> lex_inv f' lx' \<and> lx_src lx' = lx_src lx \<and>
     lx_in_interp lx' = lx_in_interp lx \<and> stopped lx')"

text \<open>A round of the main loop stops, or leaves less work.\<close>

definition progress :: "nat \<Rightarrow> lexer \<Rightarrow> flow \<Rightarrow> bool" where
  "progress f lx r = (case r of
     Returned lx' \<Rightarrow> lex_inv f lx' \<and> lx_src lx' = lx_src lx \<and> lx_in_interp lx' = lx_in_interp lx \<and> stopped lx'
   | Next lx' \<Rightarrow> \<exists>f'. f \<le> f' \<and> lex_inv f' lx' \<and> lx_src lx' = lx_src lx \<and>
       lx_in_interp lx' = lx_in_interp lx \<and> work f' lx' < work f lx)"

lemma work_pos: "lx_src b = lx_src a \<Longrightarrow> lx_pos a < lx_pos b \<Longrightarrow> lx_pos b \<le> blen (lx_src a) \<Longrightarrow> work f b < work f a"
  by (simp add: work_def)

lemma work_floor:
  assumes "f < g" "g \<le> blen (lx_src a)" "lx_src b = lx_src a"
  shows "work g b < work f a"
proof -
  define L where "L = blen (lx_src a)"
  have "Suc (L - g) \<le> L - f" using assms by (simp add: L_def)
  then have "Suc (L - g) * (L + 2) \<le> (L - f) * (L + 2)" by (rule mult_le_mono1)
  then have "(L - g) * (L + 2) + (L + 2) \<le> (L - f) * (L + 2)" unfolding mult_Suc by linarith
  then have "(L - g) * (L + 2) + (L - lx_pos b) < (L - f) * (L + 2) + (L - lx_pos a)" by linarith
  then show ?thesis using assms(3) unfolding work_def L_def by simp
qed

lemma work_mono: "lx_src b = lx_src a \<Longrightarrow> lx_pos a \<le> lx_pos b \<Longrightarrow> work f b \<le> work f a"
  unfolding work_def by (simp del: add_2_eq_Suc')

lemma progress_reads1: "reads1 f a b \<Longrightarrow> progress f a (Next b)"
  using inv_posD [of f b] work_pos [of b a f]
  by (auto simp: progress_def reads1_def lx_ext_def intro!: exI [of _ f])

lemma progress_newline:
  assumes inv: "lex_inv f lx" and c: "lx_peek lx = Some 10"
  shows "progress f lx (Next (newline (lx_pos lx) (snd (lx_bump lx))))"
proof -
  let ?a = "snd (lx_bump lx)" let ?n = "newline (lx_pos lx) ?a"
  have a: "lex_inv f ?a" "lx_src ?a = lx_src lx" "lx_in_interp ?a = lx_in_interp lx" "lx_pos lx < lx_pos ?a"
    using reads1_bump [OF inv c] by (simp_all add: reads1_def lx_ext_def)
  then have "Suc (lx_pos lx) \<le> blen (lx_src ?a)" using inv_posD [OF a(1)] by linarith
  from newline_inv [OF a(1) this] obtain f' where n: "lex_inv f' ?n" "lx_src ?n = lx_src lx" "lx_in_interp ?n = lx_in_interp lx"
    and f': "f' = f \<and> lx_pos ?a \<le> lx_pos ?n \<or> f < f'" using a by auto
  have "work f' ?n < work f lx"
  proof (cases "f < f'")
    case True
    with inv_posD [OF n(1)] n(2) show ?thesis by (intro work_floor) auto
  next
    case False
    with f' inv_posD [OF n(1)] n(2) a(4) work_pos [of ?n lx f] show ?thesis by auto
  qed
  with n f' show ?thesis by (auto simp: progress_def intro!: exI [of _ f'])
qed

lemma reads1_semicolon:
  assumes inv: "lex_inv f lx" and c: "lx_peek lx = Some d"
  shows "reads1 f lx (push_newline (lx_pos lx) (snd (lx_bump lx)))"
proof -
  let ?a = "snd (lx_bump lx)"
  have a: "reads1 f lx ?a" using reads1_bump [OF inv c] .
  then have "Suc (lx_pos lx) \<le> blen (lx_src ?a)" using inv_posD [of f ?a] by (auto simp: reads1_def)
  from push_newline_inv [OF reads_inv(2) [OF a] this] a show ?thesis
    by (simp add: reads1_def lx_ext_def lexer_simps)
qed

lemma reads1_comment:
  "lex_inv f lx \<Longrightarrow> lx_peek lx = Some c \<Longrightarrow> c \<noteq> newline_char \<Longrightarrow> reads1 f lx (lex_comment lx)"
  using comment_inv by (simp add: reads1_def)

lemma set_join: "set (join_continuations ts) \<subseteq> set ts"
  by (induction ts rule: join_continuations.induct) auto

locale total_sub_lexer =
  fixes sub :: sub_lexer and bound :: nat
  assumes sub_total: "lex_inv f lx \<Longrightarrow> work f lx < bound \<Longrightarrow> runs sub f lx"
begin

definition fits :: "nat \<Rightarrow> lexer \<Rightarrow> bool" where
  "fits f lx \<longleftrightarrow> (blen (lx_src lx) - f) * (blen (lx_src lx) + 2) \<le> bound"

lemma work_interp:
  assumes "f \<le> p" "p + 2 \<le> blen src" "(blen src - f) * (blen src + 2) \<le> bound"
  shows "work (p + 2) (lexer_new src (p + 2) True) < bound"
proof -
  define M where "M = blen src + 2"
  from assms have "blen src - (p + 2) \<le> blen src - f - 2" "2 \<le> blen src - f" by auto
  then obtain d where d: "blen src - f = d + 2" "blen src - (p + 2) \<le> d"
    by (metis add.commute le_Suc_ex diff_add_inverse2)
  have "(blen src - (p + 2)) * M \<le> d * M" using d(2) by (rule mult_le_mono1)
  moreover have "(blen src - f) * M = d * M + 2 * M" unfolding d(1) by (simp add: algebra_simps)
  moreover have "blen src - (p + 2) < M" by (simp add: M_def)
  moreover have "work (p + 2) (lexer_new src (p + 2) True) = (blen src - (p + 2)) * M + (blen src - (p + 2))"
    by (simp add: work_def lexer_new_def M_def)
  ultimately show ?thesis using assms(3) [folded M_def] by linarith
qed

lemma interpolation_total:
  assumes inv: "lex_inv f lx" and fit: "fits f lx" and parts: "list_all (part_wf (blen (lx_src lx))) parts"
    and rest: "lx_rest lx = ch CHR ''#'' # ch CHR ''{'' # q"
  shows "\<exists>ok parts' lx'. lex_interpolation sub parts lx = Some (ok, parts', lx') \<and> reads1 f lx lx' \<and>
           list_all (part_wf (blen (lx_src lx))) parts'"
proof -
  let ?src = "lx_src lx" let ?p = "lx_pos lx" let ?s = "lexer_new ?src (?p + 2) True"
  from inv_posD [OF inv] have b: "boundary ?src ?p" "f \<le> ?p" by auto
  from boundary_prefix [OF b(1), of "[35, 123]" q] rest
  have b2: "boundary ?src (?p + 2)" "?p + 2 \<le> blen ?src" by (auto simp: lx_rest_def dest: boundary_le)
  have "lex_inv (?p + 2) ?s" using b2 by (simp add: lex_inv_def lexer_new_def resume_ok_def output_ok_def)
  moreover have "work (?p + 2) ?s < bound" using work_interp b(2) b2(2) fit by (simp add: fits_def)
  ultimately have "runs sub (?p + 2) ?s" by (rule sub_total)
  then obtain s g where s: "sub ?s = Some s" and g: "?p + 2 \<le> g" "lex_inv g s" "lx_src s = ?src"
    by (auto simp: runs_def lexer_new_def)
  show ?thesis
  proof (cases "lx_peek s = Some (ch CHR ''}'')")
    case False
    let ?e = "lx_line_end lx ?p"
    from line_end_gt [OF b(1), of 35] rest line_end_boundary [OF b(1)]
    have e: "?p < ?e" "boundary ?src ?e" by (simp_all add: lx_line_end_def lx_rest_def)
    then have "reads1 f lx ((lx_error ?p ?e m lx)\<lparr>lx_pos := ?e\<rparr>)" for m
      using inv b(2) boundary_le [OF e(2)]
      by (auto simp: reads1_def lx_ext_def lexer_simps intro!: inv_pos error_inv)
    with False parts s show ?thesis by (auto simp: lex_interpolation_def Let_def)
  next
    case True
    then obtain r where "drop_bytes (lx_pos s) ?src = 125 # r" using g(3) by (auto simp: peek_rest lx_rest_def)
    from boundary_step [OF _ this] inv_posD [OF g(2)] g(3)
    have c: "boundary ?src (Suc (lx_pos s))" "Suc (lx_pos s) \<le> blen ?src" "?p < lx_pos s"
      using g(1) by (auto dest: boundary_le)
    let ?toks = "join_continuations (lx_tokens s) @ [Token TEof (span_new (lx_pos s) (lx_pos s)) False]"
    have out: "output_ok s" using g(2) by (simp add: lex_inv_def)
    then have "list_all (token_wf (blen ?src)) ?toks" "tokens_end ?toks" "layout_ok ?toks"
      using set_join [of "lx_tokens s"] c g(3) layout_ok_join
      by (auto simp: output_ok_def list_all_iff tokens_end_def)
    then have "part_wf (blen ?src) (SInterp ?toks (span_new ?p (Suc (lx_pos s))))" using c by simp
    moreover have "reads1 f lx (lx\<lparr>lx_errors := lx_errors lx @ lx_errors s, lx_pos := Suc (lx_pos s)\<rparr>)"
      using inv out c g(3) b(2) by (simp add: reads1_def lx_ext_def lex_inv_def resume_ok_def output_ok_def)
    ultimately show ?thesis using True parts s by (auto simp: lex_interpolation_def Let_def)
  qed
qed


lemma part_wf_flush: "list_all (part_wf L) parts \<Longrightarrow> list_all (part_wf L) (flush buf parts)"
  by (simp add: flush_def)

text \<open>
  The string loop ends past where the string was opened, even where an unterminated string
  sends the lexer back to the end of its opening line.
\<close>

lemma string_loop_total:
  assumes "lex_inv f lx" "fits f lx" "list_all (part_wf (blen (lx_src lx))) parts" "blen (lx_src lx) - lx_pos lx < n"
    and open_at: "boundary (lx_src lx) oa" "f \<le> oa" "oa < line_end (lx_src lx) oa"
  shows "\<exists>parts' lx'. string_loop sub n stop interp oa parts buf lx = Some (parts', lx') \<and> lex_inv f lx' \<and>
           lx_src lx' = lx_src lx \<and> lx_in_interp lx' = lx_in_interp lx \<and> (oa < lx_pos lx \<longrightarrow> oa < lx_pos lx') \<and>
           list_all (part_wf (blen (lx_src lx))) parts'"
  using assms
proof (induction n arbitrary: parts buf lx)
  case (Suc n)
  note inv = Suc.prems(1) and parts = Suc.prems(3)
  have again: ?case if r: "reads1 f lx lx'" and p: "list_all (part_wf (blen (lx_src lx))) parts'"
    and eq: "string_loop sub (Suc n) stop interp oa parts buf lx = string_loop sub n stop interp oa parts' buf' lx'"
    for lx' parts' buf'
  proof -
    from r have "lex_inv f lx'" and same: "lx_src lx' = lx_src lx" "lx_in_interp lx' = lx_in_interp lx"
      and lt: "lx_pos lx < lx_pos lx'" by (simp_all add: reads1_def lx_ext_def)
    have "blen (lx_src lx') - lx_pos lx' < n"
      using inv_posD [OF \<open>lex_inv f lx'\<close>] Suc.prems(4) lt unfolding same by linarith
    from Suc.IH [OF \<open>lex_inv f lx'\<close> _ _ this, of parts' buf'] Suc.prems p same lt
    obtain parts'' lx'' where "string_loop sub n stop interp oa parts' buf' lx' = Some (parts'', lx'')"
      "lex_inv f lx''" "lx_src lx'' = lx_src lx" "lx_in_interp lx'' = lx_in_interp lx"
      "oa < lx_pos lx' \<longrightarrow> oa < lx_pos lx''" "list_all (part_wf (blen (lx_src lx))) parts''"
      by (auto simp: fits_def)
    with lt show ?case unfolding eq by auto
  qed
  consider (stop) "case stop of End_at e \<Rightarrow> e \<le> lx_pos lx | Quote _ \<Rightarrow> False"
    | (eof) "\<not> (case stop of End_at e \<Rightarrow> e \<le> lx_pos lx | Quote _ \<Rightarrow> False)" "lx_peek lx = None"
    | (char) c where "\<not> (case stop of End_at e \<Rightarrow> e \<le> lx_pos lx | Quote _ \<Rightarrow> False)" "lx_peek lx = Some c"
    by (cases "lx_peek lx") auto
  then show ?case
  proof cases
    case stop
    with Suc.prems show ?thesis by (simp add: part_wf_flush)
  next
    case eof
    then have at_end: "lx_pos lx = blen (lx_src lx)"
      using inv_posD [OF inv] by (simp add: peek_rest lx_rest_def drop_bytes_Nil_iff)
    have "lex_inv f ((lx_error oa (lx_pos lx) m lx)\<lparr>lx_pos := line_end (lx_src lx) oa\<rparr>)" for m
      using inv inv_posD [OF inv] Suc.prems(5-7) line_end_boundary at_end boundary_le
      by (auto simp: lexer_simps intro!: inv_pos error_inv)
    with eof Suc.prems show ?thesis by (simp add: part_wf_flush Let_def lx_line_end_def lexer_simps)
  next
    case char
    have bump: "reads1 f lx (snd (lx_bump lx))" using reads1_bump [OF inv char(2)] .
    consider (quote) "stop = Quote c" | (escape) "stop \<noteq> Quote c" "c = 92"
      | (interp) "stop \<noteq> Quote c" "c \<noteq> 92" "interp \<and> c = ch CHR ''#'' \<and> lx_peek_at 1 lx = Some (ch CHR ''{'')"
      | (plain) "stop \<noteq> Quote c" "c \<noteq> 92" "\<not> (interp \<and> c = ch CHR ''#'' \<and> lx_peek_at 1 lx = Some (ch CHR ''{''))"
      by blast
    then show ?thesis
    proof cases
      case quote
      with char bump Suc.prems show ?thesis by (auto simp: part_wf_flush reads1_def lx_ext_def)
    next
      case escape
      obtain buf' lx' where e: "lex_escape buf interp lx = (buf', lx')" by fastforce
      with reads1_escape [OF inv char(2), of buf interp] have "reads1 f lx lx'" by simp
      then show ?thesis using parts by (rule again) (use char escape e in simp)
    next
      case interp
      then obtain q where "lx_rest lx = ch CHR ''#'' # ch CHR ''{'' # q"
        using char(2) by (auto simp: peek_rest lx_peek_at_def split: list.splits)
      from interpolation_total [OF inv Suc.prems(2) part_wf_flush [OF parts] this, of buf]
      obtain ok parts' lx' where i: "lex_interpolation sub (flush buf parts) lx = Some (ok, parts', lx')"
        "reads1 f lx lx'" "list_all (part_wf (blen (lx_src lx))) parts'" by blast
      show ?thesis
      proof (cases ok)
        case True
        from i(2,3) show ?thesis by (rule again) (use char interp i True in simp)
      next
        case False
        with i char interp Suc.prems show ?thesis by (simp add: reads1_def lx_ext_def)
      qed
    next
      case plain
      from bump parts show ?thesis by (rule again) (use char plain in auto)
    qed
  qed
qed simp

lemma string_parts_total:
  assumes "lex_inv f lx" "fits f lx"
    and "boundary (lx_src lx) oa" "f \<le> oa" "oa < line_end (lx_src lx) oa"
  shows "\<exists>parts' lx'. string_parts sub stop interp oa lx = Some (parts', lx') \<and> lex_inv f lx' \<and>
           lx_src lx' = lx_src lx \<and> lx_in_interp lx' = lx_in_interp lx \<and> (oa < lx_pos lx \<longrightarrow> oa < lx_pos lx') \<and>
           list_all (part_wf (blen (lx_src lx))) parts'"
  unfolding string_parts_def using assms
  by (intro string_loop_total) (simp_all add: string_fuel_def)

lemma lex_string_total:
  assumes inv: "lex_inv f lx" and fit: "fits f lx" and c: "lx_peek lx = Some c" "c \<noteq> newline_char"
  shows "\<exists>lx'. lex_string sub quote interp lx = Some lx' \<and> reads1 f lx lx'"
proof -
  let ?a = "snd (lx_bump lx)"
  have a: "reads1 f lx ?a" using reads1_bump [OF inv c(1)] .
  then have same: "lx_src ?a = lx_src lx" "lx_in_interp ?a = lx_in_interp lx" "lx_pos lx < lx_pos ?a"
    by (simp_all add: reads1_def lx_ext_def)
  from inv_posD [OF inv] have b: "boundary (lx_src lx) (lx_pos lx)" "f \<le> lx_pos lx" by auto
  from c(1) obtain q where "drop_bytes (lx_pos lx) (lx_src lx) = c # q" by (auto simp: peek_rest lx_rest_def)
  from line_end_gt [OF b(1) this c(2)] have "lx_pos lx < line_end (lx_src lx) (lx_pos lx)" .
  with string_parts_total [OF reads_inv(2) [OF a], of "lx_pos lx" "Quote quote" interp] fit b same
  obtain parts lx' where s: "string_parts sub (Quote quote) interp (lx_pos lx) ?a = Some (parts, lx')"
    and r: "reads1 f lx lx'" and p: "list_all (part_wf (blen (lx_src lx'))) parts"
    by (auto simp: fits_def reads1_def lx_ext_def)
  have "reads1 f lx (lx_push (TStr parts) (lx_pos lx) (lx_pos lx') lx')" using p by (intro reads1_push [OF r]) simp_all
  with s show ?thesis by (simp add: lex_string_def Let_def)
qed


text \<open>Heredocs: the lines of the body, its indentation, and the place to resume at.\<close>

lemma heredoc_lines_ok:
  "boundary src ls \<Longrightarrow> heredoc_lines src name ls = (lines, found) \<Longrightarrow>
     (\<forall>(s, e) \<in> set lines. boundary src s \<and> ls \<le> s) \<and>
     (\<forall>r. found = Some r \<longrightarrow> boundary src r \<and> ls < r)"
proof (induction src name ls arbitrary: lines found rule: heredoc_lines.induct)
  case (1 src name ls)
  let ?e = "line_end src ls"
  show ?case
  proof (cases "ls < blen src")
    case lt: True
    have e: "ls \<le> ?e" using line_end_boundary [OF "1.prems"(1)] by simp
    show ?thesis
    proof (cases "trim (slice src ls ?e) = name")
      case True
      with "1.prems" lt e line_end_next [OF "1.prems"(1)] show ?thesis
        by (auto simp: heredoc_lines.simps [of src name ls] Let_def min_def)
    next
      case False
      obtain lines' found' where rec: "heredoc_lines src name (?e + 1) = (lines', found')" by fastforce
      with "1.prems"(2) lt False have eq: "lines = (ls, ?e) # lines'" "found = found'"
        by (auto simp: heredoc_lines.simps [of src name ls] Let_def)
      show ?thesis
      proof (cases "?e < blen src")
        case True
        with "1.IH" [OF lt refl False _ rec] line_end_next [OF "1.prems"(1)] e "1.prems"(1)
        show ?thesis by (fastforce simp: eq)
      next
        case False
        with rec have "lines' = []" "found' = None"
          by (auto simp: heredoc_lines.simps [of src name "Suc ?e"])
        with "1.prems"(1) show ?thesis by (simp add: eq)
      qed
    qed
  next
    case False
    with "1.prems" show ?thesis by (simp add: heredoc_lines.simps [of src name ls])
  qed
qed

lemma take_bytes_prefix: "\<exists>q. s = take_bytes n s @ q"
  by (induction n s rule: take_bytes.induct) auto

lemma boundary_leading_ws:
  assumes "boundary src s" "k \<le> leading_ws (slice src s e)"
  shows "boundary src (s + k)"
proof -
  let ?t = "slice src s e" let ?w = "takeWhile (\<lambda>c. c = ch CHR '' '' \<or> c = 9) ?t"
  obtain q where q: "drop_bytes s src = ?t @ q" using take_bytes_prefix unfolding slice_def by blast
  have ascii: "list_all (\<lambda>c. c < 128) w \<Longrightarrow> blen w = length w" for w by (induction w) auto
  have w: "list_all (\<lambda>c. c < 128) ?w" by (auto simp: list_all_iff dest!: set_takeWhileD)
  then have "list_all (\<lambda>c. c < 128) (take k ?w)" using set_take_subset [of k ?w] by (auto simp: list_all_iff)
  from ascii [OF this] ascii [OF w] assms(2) have "blen (take k ?w) = k" by (simp add: leading_ws_def)
  moreover have "boundary src (s + blen (take k ?w))"
  proof (rule conjunct1 [OF boundary_prefix [OF assms(1)]])
    show "drop_bytes s src = take k ?w @ (drop k ?w @ dropWhile (\<lambda>c. c = ch CHR '' '' \<or> c = 9) ?t @ q)"
      unfolding q by (simp flip: append_assoc)
  qed
  ultimately show ?thesis by simp
qed

lemma join_part_wf: "list_all (part_wf L) parts \<Longrightarrow> part_wf L p \<Longrightarrow> list_all (part_wf L) (join_part parts p)"
  by (cases parts rule: rev_cases) (auto simp: join_part_def split: str_part.splits)

lemma join_parts_wf:
  "list_all (part_wf L) parts \<Longrightarrow> list_all (part_wf L) ps \<Longrightarrow> list_all (part_wf L) (foldl join_part parts ps)"
  by (induction ps arbitrary: parts) (simp_all add: join_part_wf)

lemma heredoc_parts_total:
  assumes "lex_inv f lx" "fits f lx" "list_all (part_wf (blen (lx_src lx))) parts"
    and "\<forall>(s, e) \<in> set lines. boundary (lx_src lx) s \<and> f \<le> s"
    and "boundary (lx_src lx) oa" "f \<le> oa" "oa < line_end (lx_src lx) oa"
  shows "\<exists>parts' lx'. heredoc_parts sub indent raw oa lines parts lx = Some (parts', lx') \<and> lex_inv f lx' \<and>
           lx_src lx' = lx_src lx \<and> lx_in_interp lx' = lx_in_interp lx \<and>
           list_all (part_wf (blen (lx_src lx))) parts'"
  using assms
proof (induction lines arbitrary: parts lx)
  case (Cons l lines)
  obtain s e where l: "l = (s, e)" by fastforce
  let ?p = "s + min (leading_ws (slice (lx_src lx) s e)) indent" let ?a = "lx\<lparr>lx_pos := ?p\<rparr>"
  have "lex_inv f ?a" using Cons.prems(1,4) l boundary_leading_ws [OF _ min.cobounded1] by (intro inv_pos) auto
  moreover have "fits f ?a" using Cons.prems(2) by (simp add: fits_def)
  ultimately obtain ps lx' where ps: "string_parts sub (End_at e) (\<not> raw) oa ?a = Some (ps, lx')"
    and lx': "lex_inv f lx'" "lx_src lx' = lx_src lx" "lx_in_interp lx' = lx_in_interp lx"
    and wf: "list_all (part_wf (blen (lx_src lx))) ps"
    using string_parts_total [of f ?a oa "End_at e" "\<not> raw"] Cons.prems(5-7) by auto
  have "list_all (part_wf (blen (lx_src lx'))) (foldl join_part parts (ps @ [SLit [newline_char]]))"
    using Cons.prems(3) wf lx'(2) by (intro join_parts_wf) simp_all
  from Cons.IH [OF lx'(1) _ this] Cons.prems lx'(2,3) show ?case
    by (auto simp: l ps Let_def fits_def)
qed simp


text \<open>The heredoc resumes past its opener: above the floor.\<close>

lemma heredoc_body_start:
  assumes inv: "lex_inv f lx"
  defines "bs \<equiv> (case lx_heredoc_resume lx of Some r \<Rightarrow> r
     | None \<Rightarrow> (case find_char newline_char (lx_rest lx) of
                 None \<Rightarrow> blen (lx_src lx) | Some i \<Rightarrow> lx_pos lx + i + 1))"
  shows "boundary (lx_src lx) bs \<and> f \<le> bs"
proof -
  from inv_posD [OF inv] have b: "boundary (lx_src lx) (lx_pos lx)" "f \<le> lx_pos lx" "lx_pos lx \<le> blen (lx_src lx)" by auto
  show ?thesis
  proof (cases "lx_heredoc_resume lx")
    case None
    note no_resume = None
    show ?thesis
    proof (cases "find_char newline_char (lx_rest lx)")
      case None
      with no_resume b show ?thesis by (simp add: bs_def)
    next
      case (Some i)
      then have "line_end (lx_src lx) (lx_pos lx) = lx_pos lx + i" by (simp add: line_end_def lx_rest_def)
      moreover from find_char_Some [OF Some] obtain q where "boundary (lx_rest lx) i" "drop_bytes i (lx_rest lx) = newline_char # q"
        by blast
      with boundary_add [OF b(1)] have "boundary (lx_src lx) (lx_pos lx + i)" "drop_bytes (lx_pos lx + i) (lx_src lx) = newline_char # q"
        by (auto simp: lx_rest_def)
      from boundary_step [OF this] have "boundary (lx_src lx) (lx_pos lx + i + 1)" by simp
      ultimately show ?thesis using no_resume Some b by (simp add: bs_def)
    qed
  next
    case (Some r)
    with inv show ?thesis by (simp add: bs_def lex_inv_def resume_ok_def)
  qed
qed

lemma at_heredoc_prefix:
  "at_heredoc lx \<Longrightarrow> \<exists>p q. lx_rest lx = p @ q \<and> blen p = 3 \<and> q \<noteq> []"
proof -
  assume h: "at_heredoc lx"
  let ?p = "take 3 (lx_rest lx)"
  from h have "?p = str ''<<~'' \<or> ?p = str ''<<-''"
    by (auto simp: at_heredoc_def starts_with_def numeral_3_eq_3)
  then have "blen ?p = 3" by auto
  moreover have "drop 3 (lx_rest lx) \<noteq> []" using h by (auto simp: at_heredoc_def)
  ultimately show ?thesis by (intro exI [of _ ?p] exI [of _ "drop 3 (lx_rest lx)"]) simp
qed

lemma lex_heredoc_total:
  assumes inv: "lex_inv f lx" and fit: "fits f lx" and h: "at_heredoc lx"
  shows "\<exists>lx'. lex_heredoc u sub lx = Some lx' \<and> reads1 f lx lx'"
proof -
  let ?src = "lx_src lx" let ?a = "lx\<lparr>lx_pos := lx_pos lx + 3\<rparr>"
  from inv_posD [OF inv] have b: "boundary ?src (lx_pos lx)" "f \<le> lx_pos lx" by auto
  from at_heredoc_prefix [OF h] obtain p q where pq: "lx_rest lx = p @ q" "blen p = 3" by blast
  have a: "reads1 f lx ?a" using reads_prefix [OF inv pq(1)] by (simp add: pq(2) reads_def reads1_def)
  obtain raw bb where bb: "lx_eat 39 ?a = (raw, bb)" by fastforce
  let ?c = "take_ident_chars u bb"
  have c: "reads1 f lx ?c"
    using reads1_trans [OF reads1_trans [OF a reads_eat [OF reads_inv(2) [OF a] bb]] reads_ident_chars]
      reads1_trans [OF a reads_eat [OF reads_inv(2) [OF a] bb]] reads_inv(2) by blast
  obtain q1 d where d: "lx_eat 39 ?c = (q1, d)" by fastforce
  have rd: "reads1 f lx d" using c reads_eat [OF reads_inv(2) [OF c] d] by (rule reads1_trans)
  define m where "m = str ''expected `'' @ [39] @ str ''` to close the heredoc identifier''"
  define e where "e = (if raw then (if q1 then d else lx_error (lx_pos lx) (lx_pos d) m d) else ?c)"
  have e: "reads1 f lx e" using c rd reads1_error [OF rd] by (simp add: e_def)
  then have e_inv: "lex_inv f e" and same: "lx_src e = ?src" "lx_in_interp e = lx_in_interp lx"
    and lt: "lx_pos lx < lx_pos e" by (simp_all add: reads1_def lx_ext_def)
  let ?name = "lx_slice ?c (lx_pos bb)"
  define bs where "bs = (case lx_heredoc_resume e of Some r \<Rightarrow> r
     | None \<Rightarrow> (case find_char newline_char (lx_rest e) of
                 None \<Rightarrow> blen ?src | Some i \<Rightarrow> lx_pos e + i + 1))"
  have bs: "boundary ?src bs" "f \<le> bs" using heredoc_body_start [OF e_inv] unfolding bs_def same by auto
  obtain lines found where hl: "heredoc_lines ?src ?name bs = (lines, found)" by fastforce
  define msg where "msg = str ''unterminated heredoc: expected `'' @ ?name @ str ''` alone on a line''"
  obtain r g where rg: "(case found of Some r \<Rightarrow> (r, e)
       | None \<Rightarrow> (blen ?src, lx_error (lx_pos lx) (lx_pos e) msg e)) = (r, g)" by fastforce
  have g: "reads1 f lx g" using rg e reads1_error [OF e] by (auto split: option.splits)
  have pos_le: "lx_pos e \<le> blen ?src" using inv_posD [OF e_inv] same by simp
  have r: "boundary ?src r" "f < r"
    using rg heredoc_lines_ok [OF bs(1) hl] bs(2) b(2) lt pos_le by (auto split: option.splits)
  have gpos: "lx_pos g = lx_pos e" and gsame: "lx_src g = ?src" "lx_in_interp g = lx_in_interp lx"
    using rg same by (auto simp: lexer_simps split: option.splits)
  from h obtain z where "drop_bytes (lx_pos lx) ?src = 60 # z"
    by (cases "drop_bytes (lx_pos lx) ?src") (auto simp: at_heredoc_def lx_rest_def starts_with_def)
  from line_end_gt [OF b(1) this] have le: "lx_pos lx < line_end ?src (lx_pos lx)" by simp
  let ?ind = "heredoc_indent ?src (starts_with (lx_rest lx) (str ''<<~'')) lines"
  have "fits f g" using fit gsame by (simp add: fits_def)
  then obtain ps k where ps: "heredoc_parts sub ?ind raw (lx_pos lx) lines [] g = Some (ps, k)"
    and k: "lex_inv f k" "lx_src k = ?src" "lx_in_interp k = lx_in_interp lx" "list_all (part_wf (blen ?src)) ps"
    using heredoc_parts_total [OF reads_inv(2) [OF g] _ _ _ _ b(2), of "[]" lines ?ind raw]
      heredoc_lines_ok [OF bs(1) hl] bs(2) b(1) le by (fastforce simp: gsame)
  let ?k = "k\<lparr>lx_pos := lx_pos g, lx_heredoc_resume := Some r\<rparr>"
  have ri: "reads1 f lx ?k"
    using k r g lt gpos gsame inv_posD [OF reads_inv(2) [OF g]]
    by (auto simp: reads1_def lx_ext_def lex_inv_def resume_ok_def output_ok_def)
  have "reads1 f lx (lx_push (TStr ps) (lx_pos lx) (lx_pos ?k) ?k)" by (rule reads1_push [OF ri]) (use k in simp_all)
  moreover have E: "(if raw then (case lx_eat 39 ?c of (True, lx') \<Rightarrow> lx' | (False, lx') \<Rightarrow> lx_error (lx_pos lx) (lx_pos lx') m lx') else ?c) = e"
    by (cases q1) (simp_all add: e_def d)
  have "lex_heredoc u sub lx = Some (lx_push (TStr ps) (lx_pos lx) (lx_pos e) ?k)"
    unfolding lex_heredoc_def Let_def
    by (simp only: bb prod.case m_def [symmetric] E bs_def [symmetric] hl msg_def [symmetric] rg ps option.case gpos)
  ultimately show ?thesis by (simp add: gpos)
qed

lemma run_char_total:
  assumes inv: "lex_inv f lx" and fit: "fits f lx" and c: "lx_peek lx = Some c"
  shows "\<exists>r. run_char u sub c lx = Some r \<and> progress f lx r"
proof -
  have some: "\<exists>r. map_option Next z = Some r \<and> progress f lx r" if "\<exists>b. z = Some b \<and> reads1 f lx b" for z
    using that progress_reads1 by auto
  note str_total = some [OF lex_string_total [OF inv fit c]] and doc_total = some [OF lex_heredoc_total [OF inv fit]]
  note reads = reads1_semicolon [OF inv c] reads1_comment [OF inv c] reads1_ivar [OF inv c] reads1_colon [OF inv c]
    reads1_number [OF inv c] reads1_ident [OF inv c] reads1_punct [OF inv c]
  have stop: "progress f lx (Returned lx)" if "c = ch CHR ''}''" "lx_in_interp lx" "lx_brace_depth lx = 0"
    using that inv c by (simp add: progress_def stopped_def)
  show ?thesis
    unfolding run_char_def Let_def
    using str_total doc_total reads stop progress_newline [OF inv] c
    by (simp add: progress_reads1)
qed

lemma run_step_total:
  assumes inv: "lex_inv f lx" and fit: "fits f lx"
  shows "\<exists>r. run_step u sub lx = Some r \<and> progress f lx r"
proof -
  obtain sk a where a: "skip_blanks lx = (sk, a)" by fastforce
  define b where "b = a\<lparr>lx_space_before := sk \<or> last_kind a = None \<or> last_kind a = Some TNewline\<rparr>"
  have step: "run_step u sub lx = (case lx_peek b of None \<Rightarrow> Some (Returned b) | Some c \<Rightarrow> run_char u sub c b)"
    by (simp only: run_step_def a b_def Let_def prod.case)
  have ab: "lex_inv f b" "lx_ext lx b" using skip_blanks_inv [OF inv] by (simp_all add: a b_def lx_ext_def)
  then have "work f b \<le> work f lx" "lx_src b = lx_src lx" "lx_in_interp b = lx_in_interp lx"
    by (simp_all add: lx_ext_def work_mono)
  then have lift: "progress f lx r" if "progress f b r" for r
    using that less_le_trans unfolding progress_def by (auto split: flow.splits)
  show ?thesis
  proof (cases "lx_peek b")
    case None
    with ab show ?thesis by (simp add: step progress_def stopped_def lx_ext_def)
  next
    case (Some c)
    with run_char_total [OF ab(1) _ Some] lift fit ab(2) show ?thesis by (auto simp: step fits_def lx_ext_def)
  qed
qed

end

subsection \<open>The knot\<close>

lemma lex_run_total: "lex_inv f lx \<Longrightarrow> work f lx < n \<Longrightarrow> runs (lex_run n u) f lx"
proof (induction n arbitrary: f lx)
  case (Suc n)
  have sub: "total_sub_lexer (lex_run n u) n" using Suc.IH by (rule total_sub_lexer.intro)
  have "total_sub_lexer.fits n f lx"
    using Suc.prems(2) unfolding total_sub_lexer.fits_def [OF sub] work_def less_Suc_eq_le by (rule add_leD1)
  from total_sub_lexer.run_step_total [OF sub Suc.prems(1) this]
  have "\<exists>r. run_step u (lex_run n u) lx = Some r \<and> progress f lx r" .
  then obtain r where r: "run_step u (lex_run n u) lx = Some r" "progress f lx r" by (elim exE conjE)
  show ?case
  proof (cases r)
    case (Returned a)
    with r show ?thesis by (auto simp: runs_def progress_def)
  next
    case (Next a)
    with r(2) obtain g where g: "f \<le> g" "lex_inv g a" "lx_src a = lx_src lx" "lx_in_interp a = lx_in_interp lx"
      "work g a < work f lx" by (auto simp: progress_def)
    then have "work g a < n" using Suc.prems(2) by linarith
    from Suc.IH [OF g(2) this] obtain b h where b: "lex_run n u a = Some b" "g \<le> h" "lex_inv h b"
      "lx_src b = lx_src a" "lx_in_interp b = lx_in_interp a" "stopped b" by (auto simp: runs_def)
    with g r(1) Next show ?thesis unfolding runs_def by (intro exI [of _ b] exI [of _ h]) simp
  qed
qed simp

interpretation knot: total_sub_lexer "lex_run n u" n for n u
  by unfold_locales (rule lex_run_total)

lemma lexer_new_inv: "boundary src p \<Longrightarrow> lex_inv p (lexer_new src p interp)"
  by (simp add: lex_inv_def lexer_new_def resume_ok_def output_ok_def)

lemma work_start: "work 0 (lexer_new src 0 interp) < lex_fuel src"
  by (simp add: work_def lexer_new_def lex_fuel_def algebra_simps)

lemma lex_runs: "runs (lex_run (lex_fuel src) u) 0 (lexer_new src 0 False)"
  by (intro knot.sub_total lexer_new_inv work_start) simp

text \<open>What the whole lexer returns.\<close>

definition lexed_wf :: "nat \<Rightarrow> lexed \<Rightarrow> bool" where
  "lexed_wf L r \<longleftrightarrow> tokens_end (ld_tokens r) \<and> layout_ok (ld_tokens r) \<and> list_all (token_wf L) (ld_tokens r) \<and>
     list_all (\<lambda>e. span_in L (le_span e)) (ld_errors r) \<and> list_all (\<lambda>c. span_in L (cm_span c)) (ld_comments r)"

lemma join_snoc:
  "\<not> (tk_kind t = TDot \<or> tk_kind t = TSafeDot) \<Longrightarrow> join_continuations (ts @ [t]) = join_continuations ts @ [t]"
  by (induction ts rule: join_continuations.induct) auto

lemma lex_text_run:
  obtains lx f where "lex_run (lex_fuel src) u (lexer_new src 0 False) = Some lx" "lex_inv f lx"
    "lx_src lx = src" "\<not> lx_in_interp lx" "lx_peek lx = None"
    "lex_text u src = Some \<lparr>ld_tokens = join_continuations (lx_tokens lx) @
        [Token TEof (span_new (blen src) (blen src)) (lx_space_before lx)],
      ld_comments = lx_comments lx, ld_errors = lx_errors lx\<rparr>"
  using lex_runs [of src u] unfolding runs_def
  by (auto simp: lexer_new_def stopped_def lex_text_def lexer_simps join_snoc)

lemma lex_text_ok: "\<exists>r. lex_text u src = Some r \<and> lexed_wf (blen src) r"
proof -
  obtain lx f where lx: "lex_inv f lx" "lx_src lx = src"
    and eq: "lex_text u src = Some \<lparr>ld_tokens = join_continuations (lx_tokens lx) @
        [Token TEof (span_new (blen src) (blen src)) (lx_space_before lx)],
      ld_comments = lx_comments lx, ld_errors = lx_errors lx\<rparr>"
    by (rule lex_text_run)
  from lx have "output_ok lx" by (simp add: lex_inv_def)
  with lx(2) set_join [of "lx_tokens lx"] show ?thesis
    unfolding eq by (auto simp: lexed_wf_def output_ok_def tokens_end_def list_all_iff layout_ok_join)
qed

end
