(* ===== verification/Lexer_Props.thy ===== *)
theory Lexer_Props
  imports Lexer_Safety
begin

text \<open>
  The lexer's properties: totality with well-formed output, keywords, numbers and string literals
  read back as they are written, and what a heredoc opened on the line of another literal does.
\<close>

text \<open>
  C2: The lexer is total and its output is well-formed: every text is lexed; the tokens end with
  the only end of file, no newline token comes first, follows another or stands before a dot,
  every span of a token, an error or a comment lies in the text (while the text fits in 32 bits),
  integers are values of an i64, no identifier is a keyword, literal pieces of strings are not
  empty; and all of this again inside every interpolation.
\<close>

theorem lex_total_well_formed: "\<exists>r. lex_text u src = Some r \<and> lexed_wf (blen src) r"
  by (rule lex_text_ok)

text \<open>\<open>Keyword::lookup\<close> finds exactly the text that \<open>Keyword::as_str\<close> writes.\<close>

theorem keyword_lookup_as_str_iff: "keyword_lookup s = Some k \<longleftrightarrow> s = str (as_str k)"
  by (rule keyword_lookup_Some)

subsection \<open>Texts that are one token\<close>

text \<open>A text whose first round reads it all as one token is that token and the end.\<close>

lemma lex_fuel_two: "src \<noteq> [] \<Longrightarrow> \<exists>n. lex_fuel src = Suc (Suc n)"
proof -
  assume "src \<noteq> []"
  then have "0 < blen src" using blen_0_iff [of src] by (cases "blen src") auto
  then have "2 \<le> lex_fuel src" by (simp add: lex_fuel_def)
  then show ?thesis by (metis add_2_eq_Suc le_Suc_ex)
qed

lemma run_step_end: "lx_rest lx = [] \<Longrightarrow> \<exists>b. run_step u sub lx = Some (Returned (lx\<lparr>lx_space_before := b\<rparr>))"
  by (auto simp: run_step_def skip_blanks_def Let_def lx_peek_def lx_rest_def)

lemma lex_one_token:
  assumes src: "src \<noteq> []" and step: "\<And>sub. run_step u sub (lexer_new src 0 False) = Some (Next lx)"
    and all_read: "lx_src lx = src" "lx_pos lx = blen src" and toks: "lx_tokens lx = [Token k s b]"
  shows "\<exists>r. lex_text u src = Some r \<and> map tk_kind (ld_tokens r) = [k, TEof] \<and> ld_errors r = lx_errors lx"
proof -
  from lex_fuel_two [OF src] obtain n where n: "lex_fuel src = Suc (Suc n)" by blast
  have "lx_rest lx = []" by (simp add: lx_rest_def all_read)
  from run_step_end [OF this, of u "lex_run n u"] obtain b' where
    "run_step u (lex_run n u) lx = Some (Returned (lx\<lparr>lx_space_before := b'\<rparr>))" by blast
  then have "lex_run (lex_fuel src) u (lexer_new src 0 False) = Some (lx\<lparr>lx_space_before := b'\<rparr>)"
    by (simp add: n step)
  then show ?thesis by (simp add: lex_text_def Let_def lexer_simps toks)
qed

lemma lex_no_token:
  assumes src: "src \<noteq> []" and step: "\<And>sub. run_step u sub (lexer_new src 0 False) = Some (Next lx)"
    and all_read: "lx_src lx = src" "lx_pos lx = blen src" and toks: "lx_tokens lx = []"
  shows "\<exists>r. lex_text u src = Some r \<and> map tk_kind (ld_tokens r) = [TEof] \<and> ld_errors r = lx_errors lx"
proof -
  from lex_fuel_two [OF src] obtain n where n: "lex_fuel src = Suc (Suc n)" by blast
  have "lx_rest lx = []" by (simp add: lx_rest_def all_read)
  from run_step_end [OF this, of u "lex_run n u"] obtain b' where
    "run_step u (lex_run n u) lx = Some (Returned (lx\<lparr>lx_space_before := b'\<rparr>))" by blast
  then have "lex_run (lex_fuel src) u (lexer_new src 0 False) = Some (lx\<lparr>lx_space_before := b'\<rparr>)"
    by (simp add: n step)
  then show ?thesis by (simp add: lex_text_def Let_def lexer_simps toks)
qed

subsection \<open>Numbers\<close>

lemma nat_digits_digits: "list_all is_ascii_digit (nat_digits n)"
proof (induction n rule: nat_digits.induct)
  case (1 n)
  have "is_ascii_digit (n mod 10 + 48)" "n < 10 \<Longrightarrow> is_ascii_digit (n + 48)"
    by (auto simp: is_ascii_digit_def)
  with 1 show ?case by (subst nat_digits.simps) auto
qed

lemma nat_digits_not_Nil [simp]: "nat_digits n \<noteq> []"
  by (subst nat_digits.simps) simp

lemma digits_value_snoc: "digits_value 10 (ds @ [d]) = digits_value 10 ds * 10 + int (digit_value d)"
  by (simp add: digits_value_def)

lemma digits_value_nat_digits: "digits_value 10 (nat_digits n) = int n"
proof (induction n rule: nat_digits.induct)
  case (1 n)
  have "digit_value (m + 48) = m" if "m < 10" for m using that by (simp add: digit_value_def is_ascii_digit_def)
  moreover have "int (n div 10) * 10 + int (n mod 10) = int n"
    by (metis div_mult_mod_eq of_nat_add of_nat_mult of_nat_numeral)
  ultimately show ?case
    using 1 by (subst nat_digits.simps) (auto simp: digits_value_snoc digits_value_def [of _ "[_]"])
qed

lemma parse_nat_digits: "parse_i64 (nat_digits n) = (if int n \<le> i64_max then Some (int n) else None)"
  by (simp add: parse_i64_def parse_radix_def nat_digits_digits digits_value_nat_digits Let_def)

lemma digits_plain:
  "list_all is_ascii_digit ds \<Longrightarrow> strip_underscores ds = ds \<and> takeWhile (\<lambda>c. is_ascii_digit c \<or> c = ch CHR ''_'') ds = ds"
  by (induction ds) (auto simp: strip_underscores_def is_ascii_digit_def)

lemma digits_step:
  assumes ds: "list_all is_ascii_digit ds" "ds \<noteq> []"
  defines "lx \<equiv> (lexer_new ds 0 False)\<lparr>lx_pos := blen ds\<rparr>"
  shows "run_step u sub (lexer_new ds 0 False) = Some (Next (case parse_i64 ds of
           Some n \<Rightarrow> lx_push (TInt n) 0 (blen ds) lx
         | None \<Rightarrow> lx_error 0 (blen ds) (str ''number out of range'') lx))"
proof -
  let ?l = "lexer_new ds 0 False"
  obtain d q where d: "ds = d # q" and dig: "is_ascii_digit d" using ds by (cases ds) auto
  have nd: "d \<notin> {10, 59, 35, 34, 39, 64, 58, 60, 125, 32, 9, 13, 92}" using dig by (auto simp: is_ascii_digit_def)
  have not_hex: "\<not> starts_with ds (str ''0x'')"
    using ds by (cases q) (auto simp: starts_with_def d is_ascii_digit_def)
  have rest: "lx_rest ?l = ds" by (simp add: lx_rest_def lexer_new_def)
  have take: "take_digits ?l = lx"
    by (simp only: take_digits_def lx_bump_while_def rest conjunct2 [OF digits_plain [OF ds(1)]] lx_def)
      (simp add: lexer_new_def)
  have lx: "lx_peek lx = None" "lx_slice lx 0 = ds" "lx_pos lx = blen ds"
    by (simp_all add: lx_def lexer_new_def lx_peek_def lx_rest_def lx_slice_def)
  have pos0: "lx_pos ?l = 0" by (simp add: lexer_new_def)
  have number: "lex_number u ?l = (case parse_i64 ds of
         Some n \<Rightarrow> lx_push (TInt n) 0 (blen ds) lx
       | None \<Rightarrow> lx_error 0 (blen ds) (str ''number out of range'') lx)"
    using not_hex conjunct1 [OF digits_plain [OF ds(1)]] pos0
    by (simp add: lex_number_def rest take Let_def lx split: option.split)
  have step: "run_step u sub ?l = run_char u sub d ?l"
    using nd by (simp add: run_step_def skip_blanks_def rest d Let_def lx_peek_def) (simp add: lexer_new_def d lx_rest_def last_kind_def)
  show ?thesis using nd dig by (simp add: step run_char_def number)
qed

text \<open>An integer literal reads back: every value of an i64 that is not negative is lexed to itself.\<close>

theorem int_literal_round_trip:
  assumes "0 \<le> n" "n \<le> i64_max"
  shows "\<exists>r. lex_text u (int_text n) = Some r \<and> map tk_kind (ld_tokens r) = [TInt n, TEof] \<and> ld_errors r = []"
proof -
  let ?ds = "nat_digits (nat n)"
  have t: "int_text n = ?ds" using assms(1) by (simp add: int_text_def)
  have p: "parse_i64 ?ds = Some n" using assms by (simp add: parse_nat_digits)
  show ?thesis
    unfolding t
    using lex_one_token [OF nat_digits_not_Nil digits_step [OF nat_digits_digits nat_digits_not_Nil], of "nat n"]
    by (simp add: p lexer_simps) (simp add: lexer_new_def)
qed

text \<open>A decimal literal past the largest i64 is one error over its text, and no token.\<close>

theorem int_literal_out_of_range:
  assumes "i64_max < n"
  shows "\<exists>r. lex_text u (int_text n) = Some r \<and> map tk_kind (ld_tokens r) = [TEof] \<and>
           ld_errors r = [\<lparr>le_span = span_new 0 (blen (int_text n)), le_message = str ''number out of range''\<rparr>]"
proof -
  let ?ds = "nat_digits (nat n)"
  have t: "int_text n = ?ds" using assms by (simp add: int_text_def)
  have p: "parse_i64 ?ds = None" using assms by (simp add: parse_nat_digits)
  show ?thesis
    unfolding t
    using lex_no_token [OF nat_digits_not_Nil digits_step [OF nat_digits_digits nat_digits_not_Nil], of "nat n"]
    by (simp add: p lexer_simps) (simp add: lexer_new_def)
qed

subsection \<open>Words\<close>

text \<open>What \<open>char::is_alphabetic\<close> documents on ASCII: the letters.\<close>

definition ascii_ok :: "std_env \<Rightarrow> bool" where
  "ascii_ok u \<longleftrightarrow> (\<forall>c < 128. is_alphabetic u c \<longleftrightarrow> ch CHR ''A'' \<le> c \<and> c \<le> ch CHR ''Z'' \<or> ch CHR ''a'' \<le> c \<and> c \<le> ch CHR ''z'')"

definition is_word :: "std_env \<Rightarrow> rtext \<Rightarrow> bool" where
  "is_word u s \<longleftrightarrow> (case s of [] \<Rightarrow> False | c # cs \<Rightarrow> is_ident_start u c \<and> list_all (is_ident_continue u) cs)"

definition word_kind :: "std_env \<Rightarrow> rtext \<Rightarrow> token_kind" where
  "word_kind u s =
     (if is_uppercase u (hd s) then TConst s
      else case keyword_lookup s of Some k \<Rightarrow> TKw k | None \<Rightarrow> TIdent s)"

lemma ident_start_not_special:
  assumes "ascii_ok u" "is_ident_start u c"
  shows "c \<notin> {10, 59, 35, 34, 39, 64, 58, 60, 125, 32, 9, 13, 92}" and "\<not> is_ascii_digit c"
proof -
  have "c \<ge> 128 \<or> 65 \<le> c \<and> c \<le> 90 \<or> c = 95 \<or> 97 \<le> c \<and> c \<le> 122"
    using assms by (auto simp: ascii_ok_def is_ident_start_def)
  then show "c \<notin> {10, 59, 35, 34, 39, 64, 58, 60, 125, 32, 9, 13, 92}" "\<not> is_ascii_digit c"
    by (auto simp: is_ascii_digit_def)
qed

lemma word_step:
  assumes u: "ascii_ok u" and s: "is_word u s"
  shows "run_step u sub (lexer_new s 0 False) =
     Some (Next (lx_push (word_kind u s) 0 (blen s) ((lexer_new s 0 False)\<lparr>lx_pos := blen s\<rparr>)))"
proof -
  let ?l = "lexer_new s 0 False" let ?e = "?l\<lparr>lx_pos := blen s\<rparr>"
  obtain c cs where c: "s = c # cs" "is_ident_start u c" "list_all (is_ident_continue u) cs"
    using s by (auto simp: is_word_def split: list.splits)
  have tw: "takeWhile (is_ident_continue u) s = s"
    using c by (auto simp: list_all_iff is_ident_start_def is_ident_continue_def is_alphanumeric_def)
  note nd = ident_start_not_special [OF u c(2)]
  have rest: "lx_rest ?l = s" and pos0: "lx_pos ?l = 0" by (simp_all add: lx_rest_def lexer_new_def)
  have peek: "lx_peek ?l = Some c" unfolding lx_peek_def rest by (simp add: c(1))
  have hd: "hd s = c" by (simp add: c(1))
  have take: "take_ident_chars u ?l = ?e"
    by (simp only: take_ident_chars_def lx_bump_while_def rest tw) (simp add: lexer_new_def)
  have e: "lx_peek ?e = None" "lx_slice ?e 0 = s" "lx_pos ?e = blen s" "lx_rest ?e = []"
    by (simp_all add: lexer_new_def lx_peek_def lx_rest_def lx_slice_def)
  have "lex_ident u ?l = lx_push (word_kind u s) 0 (blen s) ?e"
    by (cases "keyword_lookup s")
      (simp_all add: lex_ident_def take pos0 peek e take_predicate_suffix_def word_kind_def hd Let_def)
  moreover have "run_step u sub ?l = run_char u sub c ?l"
    using nd(1) by (simp add: run_step_def skip_blanks_def rest c(1) Let_def lx_peek_def)
      (simp add: lexer_new_def c(1) lx_rest_def last_kind_def)
  ultimately show ?thesis using nd c(2) by (simp add: run_char_def)
qed

text \<open>
  A word is lexed as one token: a constant when it starts with an upper-case letter, the
  keyword of that spelling when there is one, and an identifier otherwise.
\<close>

theorem word_token:
  assumes "ascii_ok u" "is_word u s"
  shows "\<exists>r. lex_text u s = Some r \<and> map tk_kind (ld_tokens r) = [word_kind u s, TEof] \<and> ld_errors r = []"
proof -
  have "s \<noteq> []" using assms(2) by (auto simp: is_word_def)
  from lex_one_token [OF this word_step [OF assms]] show ?thesis
    by (simp add: lexer_simps) (simp add: lexer_new_def)
qed

subsection \<open>String literals\<close>

text \<open>A text between double quotes, with its quotes, backslashes and hashes escaped.\<close>

definition escape_char :: "nat \<Rightarrow> rtext" where
  "escape_char c = (if c = 34 \<or> c = 92 \<or> c = ch CHR ''#'' then [92, c] else [c])"

definition quote_text :: "rtext \<Rightarrow> rtext" where
  "quote_text s = [34] @ concat (map escape_char s) @ [34]"

lemma rest_step:
  assumes "boundary (lx_src lx) (lx_pos lx)" "lx_rest lx = p @ q"
  shows "boundary (lx_src lx) (lx_pos lx + blen p)" "lx_rest (lx\<lparr>lx_pos := lx_pos lx + blen p\<rparr>) = q"
  using boundary_prefix [OF assms(1)] assms(2) by (auto simp: lx_rest_def)

lemma string_loop_quoted:
  assumes "boundary (lx_src lx) (lx_pos lx)" "lx_rest lx = concat (map escape_char s) @ 34 # q" "length s < n"
  shows "string_loop sub n (Quote 34) True oa parts buf lx =
     Some (flush (buf @ s) parts, lx\<lparr>lx_pos := lx_pos lx + blen (concat (map escape_char s)) + 1\<rparr>)"
  using assms
proof (induction s arbitrary: n buf lx)
  case Nil
  then show ?case by (cases n) (simp_all add: lx_peek_def lx_bump_def)
next
  case (Cons c s)
  then obtain m where n: "n = Suc m" "length s < m" by (cases n) auto
  let ?l = "lx\<lparr>lx_pos := lx_pos lx + blen (escape_char c)\<rparr>"
  have rest: "lx_rest lx = escape_char c @ concat (map escape_char s) @ 34 # q" using Cons.prems(2) by simp
  note step = rest_step [OF Cons.prems(1) rest]
  have "string_loop sub n (Quote 34) True oa parts buf lx = string_loop sub m (Quote 34) True oa parts (buf @ [c]) ?l"
  proof (cases "c = 34 \<or> c = 92 \<or> c = ch CHR ''#''")
    case True
    then have e: "escape_char c = [92, c]" by (auto simp: escape_char_def)
    have a: "lx_bump lx = (Some 92, lx\<lparr>lx_pos := lx_pos lx + 1\<rparr>)" using rest by (simp add: e lx_bump_def lx_peek_def)
    have "lx_rest (lx\<lparr>lx_pos := lx_pos lx + blen [92]\<rparr>) = c # concat (map escape_char s) @ 34 # q"
      by (rule rest_step [OF Cons.prems(1)]) (use rest e in simp)
    then have "lx_bump (lx\<lparr>lx_pos := lx_pos lx + 1\<rparr>) = (Some c, ?l)"
      using e by (simp add: lx_bump_def lx_peek_def)
    with a True have "lex_escape buf True lx = (buf @ [c], ?l)" by (auto simp: lex_escape_def Let_def)
    with rest show ?thesis by (simp add: n e lx_peek_def)
  next
    case False
    then have e: "escape_char c = [c]" by (auto simp: escape_char_def)
    with rest have "lx_bump lx = (Some c, ?l)" by (simp add: lx_bump_def lx_peek_def)
    with False rest e show ?thesis by (simp add: n lx_peek_def)
  qed
  also have "\<dots> = Some (flush ((buf @ [c]) @ s) parts,
      ?l\<lparr>lx_pos := lx_pos ?l + blen (concat (map escape_char s)) + 1\<rparr>)"
    using step n(2) by (intro Cons.IH) simp_all
  also have "\<dots> = Some (flush (buf @ c # s) parts, lx\<lparr>lx_pos := lx_pos lx + blen (concat (map escape_char (c # s))) + 1\<rparr>)"
    by (simp add: blen_def ac_simps)
  finally show ?case .
qed

lemma quoted_step:
  "run_step u sub (lexer_new (quote_text s) 0 False) =
     Some (Next (lx_push (TStr (flush s [])) 0 (blen (quote_text s))
                   ((lexer_new (quote_text s) 0 False)\<lparr>lx_pos := blen (quote_text s)\<rparr>)))"
proof -
  let ?t = "quote_text s" let ?l = "lexer_new ?t 0 False" let ?a = "?l\<lparr>lx_pos := 1\<rparr>"
  let ?body = "concat (map escape_char s)"
  have rest: "lx_rest ?l = [34] @ ?body @ [34]" by (simp add: lx_rest_def lexer_new_def quote_text_def)
  have b0: "boundary (lx_src ?l) (lx_pos ?l)" and pos0: "lx_pos ?l = 0" and src: "lx_src ?l = ?t" by (simp_all add: lexer_new_def)
  have bump: "lx_bump ?l = (Some 34, ?a)" using rest by (simp add: lx_bump_def lx_peek_def) (simp add: lexer_new_def)
  have a: "boundary (lx_src ?a) (lx_pos ?a)" "lx_rest ?a = ?body @ 34 # []"
    using rest_step [OF b0 rest] by (simp_all add: pos0)
  have total: "blen ?t = 1 + blen ?body + 1" by (simp add: quote_text_def blen_def)
  have "length s \<le> length ?body" by (induction s) (auto simp: escape_char_def)
  then have "length s \<le> blen ?body" using length_le_blen [of ?body] by (rule order_trans)
  then have "length s < string_fuel ?a" by (simp add: string_fuel_def total src)
  from string_loop_quoted [OF a this, of sub 0 "[]" "[]"]
  have "string_parts sub (Quote 34) True 0 ?a = Some (flush s [], ?l\<lparr>lx_pos := blen ?t\<rparr>)"
    by (simp add: string_parts_def total)
  then have "lex_string sub 34 True ?l = Some (lx_push (TStr (flush s [])) 0 (blen ?t) (?l\<lparr>lx_pos := blen ?t\<rparr>))"
    by (simp add: lex_string_def Let_def bump pos0)
  moreover have "run_step u sub ?l = run_char u sub 34 ?l"
    by (simp add: run_step_def skip_blanks_def rest Let_def lx_peek_def) (simp add: lexer_new_def lx_rest_def last_kind_def quote_text_def)
  ultimately show ?thesis by (simp add: run_char_def)
qed

text \<open>
  C17: A string literal reads back: any text, between double quotes with its quotes, backslashes
  and hashes escaped, is lexed to one string token holding exactly that text (no piece at all
  when it is empty), without an error.
\<close>

theorem string_literal_round_trip:
  "\<exists>r. lex_text u (quote_text s) = Some r \<and>
     map tk_kind (ld_tokens r) = [TStr (if s = [] then [] else [SLit s]), TEof] \<and> ld_errors r = []"
proof -
  have "quote_text s \<noteq> []" by (simp add: quote_text_def)
  have e: "TStr (flush s []) = TStr (if s = [] then [] else [SLit s])" by (simp add: flush_def)
  from lex_one_token [OF \<open>quote_text s \<noteq> []\<close> quoted_step [where u = u]] show ?thesis
    unfolding e by (simp add: lexer_simps split del: if_split) (simp add: lexer_new_def split del: if_split)
qed

subsection \<open>Two literals on a line\<close>

text \<open>A \<open>std_env\<close> that knows the ASCII characters, to run the lexer on concrete texts.\<close>

definition ascii_env :: std_env where
  "ascii_env = \<lparr>is_alphabetic = (\<lambda>c. ch CHR ''A'' \<le> c \<and> c \<le> ch CHR ''Z'' \<or> ch CHR ''a'' \<le> c \<and> c \<le> ch CHR ''z''),
     is_numeric = is_ascii_digit, is_uppercase = is_ascii_uppercase, parse_f64 = (\<lambda>_. None)\<rparr>"

lemma ascii_env_ok: "ascii_ok ascii_env"
  by (simp add: ascii_ok_def ascii_env_def)

text \<open>Words and numbers that the general theorems apply to.\<close>

lemma int_literal_round_trip_witness:
  "\<exists>r. lex_text ascii_env (int_text i64_max) = Some r \<and> map tk_kind (ld_tokens r) = [TInt i64_max, TEof] \<and> ld_errors r = []"
  by (rule int_literal_round_trip) simp_all

lemma int_literal_out_of_range_witness:
  "\<exists>r. lex_text ascii_env (int_text (2 ^ 63)) = Some r \<and> map tk_kind (ld_tokens r) = [TEof] \<and>
     ld_errors r = [\<lparr>le_span = span_new 0 (blen (int_text (2 ^ 63))), le_message = str ''number out of range''\<rparr>]"
  by (rule int_literal_out_of_range) simp

lemma word_token_witness:
  "\<exists>r. lex_text ascii_env (str ''unless'') = Some r \<and> map tk_kind (ld_tokens r) = [TKw KUnless, TEof] \<and> ld_errors r = []"
proof -
  have w: "is_word ascii_env (str ''unless'')" and k: "word_kind ascii_env (str ''unless'') = TKw KUnless" by code_simp+
  show ?thesis using word_token [OF ascii_env_ok w] unfolding k .
qed

text \<open>
  A string literal opened on the line of a heredoc and closed after the heredoc's body: the
  string's text takes in the heredoc's terminator, the heredoc is left empty, and the newline that
  follows the string jumps back into it, so its end is read a second time, as tokens of its own.
  The text is \<open><<~A "x\<close>, \<open>A\<close>, \<open>y"\<close> on three lines.
\<close>

theorem heredoc_rereads_string:
  "map_option (\<lambda>r. map (\<lambda>t. (tk_kind t, sp_start (tk_span t), sp_end (tk_span t))) (ld_tokens r))
     (lex_text ascii_env (str ''<<~A '' @ [34] @ str ''x'' @ [10] @ str ''A'' @ [10] @ str ''y'' @ [34, 10])) =
   Some [(TStr [], 0, 4), (TStr [SLit (str ''x'' @ [10] @ str ''A'' @ [10] @ str ''y'')], 5, 12), (TNewline, 12, 13),
     (TIdent (str ''y''), 10, 11), (TStr [SLit [10]], 11, 12), (TNewline, 12, 13), (TEof, 13, 13)]"
  by code_simp

end
