(* ===== verification/Ast.thy ===== *)
theory Ast
  imports Tokens
begin

text \<open>
  The syntax tree of grenat\_ast (src/lib.rs). The source's enums are datatypes with the same
  constructors, prefixed (E for expressions, P for patterns, Ty for types, Op for operators) where
  they would clash; \<open>Box\<close> is transparent. The types that sit between two expressions (arguments,
  blocks, bodies, patterns) are parametric in the expressions they hold.
\<close>

subsection \<open>Diagnostics\<close>

text \<open>
  A message is the list of the pieces a \<open>format!\<close> joins: text, and descriptions of tokens, whose
  floats are written by the standard library.
\<close>

datatype msg_part = Txt rtext | Desc token_kind

type_synonym message = "msg_part list"

definition render :: "(f64 \<Rightarrow> rtext) \<Rightarrow> message \<Rightarrow> rtext" where
  "render show_f64 m = concat (map (\<lambda>p. case p of Txt t \<Rightarrow> t | Desc k \<Rightarrow> describe show_f64 k) m)"

record diagnostic =
  dg_span :: span
  dg_message :: message
  dg_code :: "rtext option"
  dg_notes :: "(span \<times> message) list"
  dg_help :: "rtext option"

definition diagnostic_new :: "span \<Rightarrow> message \<Rightarrow> diagnostic" where
  "diagnostic_new s m = \<lparr>dg_span = s, dg_message = m, dg_code = None, dg_notes = [], dg_help = None\<rparr>"

definition with_note :: "diagnostic \<Rightarrow> span \<Rightarrow> message \<Rightarrow> diagnostic" where
  "with_note d s m = d\<lparr>dg_notes := dg_notes d @ [(s, m)]\<rparr>"

definition with_help :: "diagnostic \<Rightarrow> rtext \<Rightarrow> diagnostic" where
  "with_help d h = d\<lparr>dg_help := Some h\<rparr>"

definition with_code :: "diagnostic \<Rightarrow> rtext \<Rightarrow> diagnostic" where
  "with_code d c = d\<lparr>dg_code := Some c\<rparr>"

subsection \<open>Names and types\<close>

record ident =
  id_name :: rtext
  id_span :: span

datatype ty =
    TyNamed "ident list" "ty list" span
  | TyOptional ty span
  | TyTainted ty span
  | TySize u64 span

primrec ty_span :: "ty \<Rightarrow> span" where
  "ty_span (TyNamed path args s) = s"
| "ty_span (TyOptional t s) = s"
| "ty_span (TyTainted t s) = s"
| "ty_span (TySize n s) = s"

subsection \<open>Parts of expressions\<close>

datatype 'e str_seg = SegLit rtext | SegInterp 'e

datatype 'e arg = APos 'e | ANamed ident "'e option" | ABlockPass 'e

datatype 'e param = Param (pm_name: ident) (pm_ty: "ty option") (pm_default: "'e option") (pm_span: span)

datatype 'e rescue =
  Rescue (rs_types: "ty list") (rs_binding: "ident option") (rs_body: "'e list") (rs_span: span)

text \<open>Statements with optional \<open>rescue\<close> and \<open>ensure\<close> clauses.\<close>

datatype 'e body =
  Body (bd_stmts: "'e list") (bd_rescues: "'e rescue list") (bd_ensure: "'e list option") (bd_span: span)

definition body_new :: "'e list \<Rightarrow> span \<Rightarrow> 'e body" where
  "body_new stmts s = Body stmts [] None s"

datatype 'e block = Block (bk_params: "'e param list") (bk_body: "'e body") (bk_span: span)

datatype 'e pattern_kind =
    PWildcard
  | PBind rtext
  | PLit 'e
  | PConst "ident list" "'e pat_field list option"
  | PArray "'e pattern list"
  | POr "'e pattern list"
and 'e pattern = Pattern (pt_kind: "'e pattern_kind") (pt_span: span)
and 'e pat_field = PatField (pf_name: "ident option") (pf_pattern: "'e pattern")

datatype 'e arm_test = ArmIn "'e pattern" | ArmWhen "'e list"

datatype 'e case_arm =
  CaseArm (ca_test: "'e arm_test") (ca_guard: "'e option") (ca_body: "'e list") (ca_span: span)

subsection \<open>Expressions\<close>

datatype binop =
    OpAdd | OpSub | OpMul | OpDiv | OpRem | OpPow | OpEq | OpNotEq | OpLt | OpLe | OpGt | OpGe
  | OpCmp | OpMatch | OpAnd | OpOr | OpBitAnd | OpBitOr | OpBitXor | OpShl | OpShr

datatype unop = UNeg | UNot

datatype (plugins only: size code) expr_kind =
    EInt int
  | EFloat f64
  | EStr "expr str_seg list"
  | ESymbol rtext
  | EBool bool
  | ENil
  | ESelfRef
  | EArray "expr list"
  | EHash "(expr \<times> expr) list"
  | ERange expr expr bool
  | EVar rtext
  | EConst "ident list"
  | EIVar rtext
  | EIt
  | ECall "expr option" ident "expr arg list" "expr block option" bool bool
  | EIndex expr "expr list"
  | EUnary unop expr
  | EBinary binop expr expr
  | ETry expr
  | EAssign expr expr
  | EOpAssign binop expr expr
  | EMultiAssign "expr list" expr
  | EIf expr "expr list" "expr list option"
  | EWhile expr "expr list"
  | ECase "expr option" "expr case_arm list" "expr list option"
  | EBegin "expr body"
  | EReturn "expr option"
  | EBreak "expr option"
  | ENext "expr option"
and expr = Expr (ex_kind: expr_kind) (ex_span: span)

subsection \<open>Functions\<close>

datatype fn_kind = FkDef | FkPrompt | FkTool | FkWorkflow | FkNative

record effect =
  ef_path :: "ident list"
  ef_args :: "expr list"
  ef_span :: span

record fn_def =
  fn_kind :: fn_kind
  fn_doc :: "rtext option"
  fn_is_abstract :: bool
  fn_on_self :: bool
  fn_name :: ident
  fn_params :: "expr param list"
  fn_ret :: "ty option"
  fn_effects :: "effect list"
  fn_model :: "expr option"
  fn_body :: "expr body"
  fn_short :: bool
  fn_pure :: bool
  fn_span :: span

definition KNOWN_EFFECTS :: "string list" where
  "KNOWN_EFFECTS = [''llm'', ''net'', ''fs'', ''fs.read'', ''fs.write'', ''db'', ''db.read'', ''db.write'',
     ''mcp'', ''shell'', ''ssh'', ''human'', ''time'', ''random'', ''env'']"

subsection \<open>Named types\<close>

datatype type_kind = TkStruct | TkClass | TkModule | TkEnum | TkAgent | TkSupervisor

record field =
  fd_doc :: "rtext option"
  fd_name :: ident
  fd_is_ivar :: bool
  fd_ty :: "ty option"
  fd_default :: "expr option"
  fd_span :: span

record variant =
  vr_doc :: "rtext option"
  vr_name :: ident
  vr_fields :: "field list"
  vr_span :: span

record handler =
  hd_doc :: "rtext option"
  hd_message :: ident
  hd_params :: "expr param list"
  hd_ret :: "ty option"
  hd_body :: "expr body"
  hd_span :: span

record directive =
  dr_name :: ident
  dr_args :: "expr arg list"
  dr_span :: span

datatype member =
    MField field
  | MMethod fn_def
  | MInclude ty
  | MVariant variant
  | MHandler handler
  | MDirective directive

record type_def =
  td_kind :: type_kind
  td_doc :: "rtext option"
  td_name :: ident
  td_options :: "expr arg list"
  td_members :: "member list"
  td_span :: span

record model_decl =
  md_name :: ident
  md_options :: "expr arg list"
  md_span :: span

subsection \<open>Macros, items, programs\<close>

record macro_param =
  mp_name :: ident
  mp_variadic :: bool

record macro_def =
  mc_doc :: "rtext option"
  mc_name :: ident
  mc_params :: "macro_param list"
  mc_body :: rtext
  mc_body_span :: span
  mc_span :: span

datatype item = IFn fn_def | IType type_def | IModel model_decl | IMacro macro_def | IStmt expr

type_synonym program = "item list"

end
