(* ===== verification/Cursor.thy ===== *)
theory Cursor
  imports Ast
begin

text \<open>
  The parser's state and elementary operations (grenat\_parser: src/docs.rs, src/cursor.rs).
  A parse function takes the parser and returns one of the outcomes of \<open>pres\<close>: \<open>POk\<close> for \<open>Ok\<close>,
  \<open>PErr\<close> for \<open>Err(())\<close>, both with the parser it leaves, \<open>Panic\<close> where the code reaches an
  \<open>unreachable!\<close> or a failed \<open>expect\<close>, and \<open>Diverge\<close> when the fuel of a recursion or a loop is
  not enough; the theories Parse\_Total prove that the last two do not occur.
\<close>

subsection \<open>Documentation comments\<close>

record doc_table =
  dt_line_starts :: "nat list"
  dt_leading :: "nat \<rightharpoonup> rtext"
  dt_trailing :: "nat \<rightharpoonup> rtext"

text \<open>\<open>slice::partition_point\<close>, which is specified on slices that the predicate partitions.\<close>

definition partition_point :: "('a \<Rightarrow> bool) \<Rightarrow> 'a list \<Rightarrow> nat" where
  "partition_point P xs = length (takeWhile P xs)"

text \<open>The byte offsets of the line feeds of a text: \<open>src.match_indices('\n')\<close>.\<close>

fun newline_offsets :: "nat \<Rightarrow> rtext \<Rightarrow> nat list" where
  "newline_offsets i [] = []"
| "newline_offsets i (c # cs) =
     (if c = newline_char then i # newline_offsets (i + len_utf8 c) cs else newline_offsets (i + len_utf8 c) cs)"

definition line_of_start :: "nat list \<Rightarrow> span \<Rightarrow> nat" where
  "line_of_start line_starts s = partition_point (\<lambda>start. start \<le> unat (sp_start s)) line_starts - 1"

definition line_of :: "doc_table \<Rightarrow> span \<Rightarrow> nat" where
  "line_of d s = line_of_start (dt_line_starts d) s"

definition add_doc :: "doc_table \<Rightarrow> comment \<Rightarrow> doc_table" where
  "add_doc d c =
     (let line = line_of d (cm_span c)
      in if cm_trailing c then d\<lparr>dt_trailing := (dt_trailing d)(line \<mapsto> cm_text c)\<rparr>
         else d\<lparr>dt_leading := (dt_leading d)(line \<mapsto> cm_text c)\<rparr>)"

definition doc_table_new :: "rtext \<Rightarrow> comment list \<Rightarrow> doc_table" where
  "doc_table_new src comments =
     foldl add_doc
       \<lparr>dt_line_starts = 0 # map (\<lambda>i. i + 1) (newline_offsets 0 src), dt_leading = (\<lambda>_. None), dt_trailing = (\<lambda>_. None)\<rparr>
       (filter cm_doc comments)"

text \<open>The doc lines just above a line, the nearest first.\<close>

primrec docs_above :: "(nat \<rightharpoonup> rtext) \<Rightarrow> nat \<Rightarrow> rtext list" where
  "docs_above leading 0 = []"
| "docs_above leading (Suc line) =
     (case leading line of None \<Rightarrow> [] | Some t \<Rightarrow> t # docs_above leading line)"

fun join_lines :: "rtext list \<Rightarrow> rtext" where
  "join_lines [] = []"
| "join_lines [l] = l"
| "join_lines (l # ls) = l @ [newline_char] @ join_lines ls"

definition doc_for :: "doc_table \<Rightarrow> span \<Rightarrow> rtext option" where
  "doc_for d s =
     (let line = line_of d s;
          lines = rev (docs_above (dt_leading d) line) @
            (case dt_trailing d line of None \<Rightarrow> [] | Some t \<Rightarrow> [t])
      in if lines \<noteq> [] then Some (join_lines lines) else None)"

subsection \<open>The parser\<close>

definition MAX_DIAGNOSTICS :: nat where
  "MAX_DIAGNOSTICS = 100"

record parser =
  pr_toks :: "token list"
  pr_pos :: nat
  pr_diags :: "diagnostic list"
  pr_docs :: doc_table
  pr_no_do :: bool
  pr_in_index :: bool
  pr_misaligned_end :: "(span \<times> span \<times> rtext) option"

definition parser_new :: "token list \<Rightarrow> doc_table \<Rightarrow> parser" where
  "parser_new toks docs =
     \<lparr>pr_toks = toks, pr_pos = 0, pr_diags = [], pr_docs = docs, pr_no_do = False, pr_in_index = False,
      pr_misaligned_end = None\<rparr>"

datatype 'a pres = Diverge | Panic | PErr parser | POk 'a parser

type_synonym 'a parse = "parser \<Rightarrow> 'a pres"

text \<open>Sequencing: what follows runs where the first succeeded, as after \<open>?\<close>.\<close>

definition andthen :: "'a parse \<Rightarrow> ('a \<Rightarrow> 'b parse) \<Rightarrow> 'b parse" where
  "andthen m f p = (case m p of
     Diverge \<Rightarrow> Diverge | Panic \<Rightarrow> Panic | PErr p' \<Rightarrow> PErr p' | POk a p' \<Rightarrow> f a p')"

text \<open>\<open>Result::map\<close>.\<close>

definition pmap :: "('a \<Rightarrow> 'b) \<Rightarrow> 'a parse \<Rightarrow> 'b parse" where
  "pmap f m = andthen m (\<lambda>a. POk (f a))"

subsection \<open>Reading tokens\<close>

definition peek :: "parser \<Rightarrow> token" where
  "peek p = pr_toks p ! pr_pos p"

definition kind :: "parser \<Rightarrow> token_kind" where
  "kind p = tk_kind (peek p)"

definition nth_kind :: "nat \<Rightarrow> parser \<Rightarrow> token_kind" where
  "nth_kind n p = tk_kind (pr_toks p ! min (pr_pos p + n) (length (pr_toks p) - 1))"

definition cur_span :: "parser \<Rightarrow> span" where
  "cur_span p = tk_span (peek p)"

definition prev_span :: "parser \<Rightarrow> span" where
  "prev_span p = tk_span (pr_toks p ! (pr_pos p - 1))"

definition bump :: "parser \<Rightarrow> parser" where
  "bump p = (if pr_pos p < length (pr_toks p) - 1 then p\<lparr>pr_pos := pr_pos p + 1\<rparr> else p)"

definition at :: "token_kind \<Rightarrow> parser \<Rightarrow> bool" where
  "at k p \<longleftrightarrow> kind p = k"

definition at_tight :: "token_kind \<Rightarrow> parser \<Rightarrow> bool" where
  "at_tight k p \<longleftrightarrow> at k p \<and> \<not> tk_space_before (peek p)"

definition at_kw :: "keyword \<Rightarrow> parser \<Rightarrow> bool" where
  "at_kw w p \<longleftrightarrow> kind p = TKw w"

definition at_ident :: "string \<Rightarrow> parser \<Rightarrow> bool" where
  "at_ident name p \<longleftrightarrow> kind p = TIdent (str name)"

definition at_line_end :: "parser \<Rightarrow> bool" where
  "at_line_end p \<longleftrightarrow> kind p = TNewline \<or> kind p = TEof"

definition eat :: "token_kind \<Rightarrow> parser \<Rightarrow> bool \<times> parser" where
  "eat k p = (if at k p then (True, bump p) else (False, p))"

definition eat_kw :: "keyword \<Rightarrow> parser \<Rightarrow> bool \<times> parser" where
  "eat_kw w = eat (TKw w)"

text \<open>
  \<open>while P(self.kind()) { self.bump(); }\<close>: the tokens from the position on that \<open>P\<close> holds of are
  passed. No caller's \<open>P\<close> holds of the end of file, which ends every token list.
\<close>

definition bump_while :: "(token_kind \<Rightarrow> bool) \<Rightarrow> parser \<Rightarrow> parser" where
  "bump_while P p = p\<lparr>pr_pos := pr_pos p + length (takeWhile (\<lambda>t. P (tk_kind t)) (drop (pr_pos p) (pr_toks p)))\<rparr>"

definition skip_newlines :: "parser \<Rightarrow> parser" where
  "skip_newlines = bump_while (\<lambda>k. k = TNewline)"

definition recover_line :: "parser \<Rightarrow> parser" where
  "recover_line = bump_while (\<lambda>k. \<not> (k = TNewline \<or> k = TEof))"

text \<open>What is done to the parser whether the function it was lent to succeeds or fails.\<close>

definition on_parser :: "(parser \<Rightarrow> parser) \<Rightarrow> 'a pres \<Rightarrow> 'a pres" where
  "on_parser g r = (case r of
     Diverge \<Rightarrow> Diverge | Panic \<Rightarrow> Panic | PErr p \<Rightarrow> PErr (g p) | POk a p \<Rightarrow> POk a (g p))"

definition with_do :: "bool \<Rightarrow> 'a parse \<Rightarrow> 'a parse" where
  "with_do allowed f p =
     (let saved = pr_no_do p
      in on_parser (\<lambda>q. q\<lparr>pr_no_do := saved\<rparr>) (f (p\<lparr>pr_no_do := \<not> allowed\<rparr>)))"

text \<open>
  A \<open>loop\<close>: a round goes on with a new accumulator (\<open>Inl\<close>) or breaks with the result (\<open>Inr\<close>).
  A round that goes on has passed at least one token, so one more than the tokens left is fuel enough.
\<close>

fun loopP :: "nat \<Rightarrow> ('a \<Rightarrow> ('a + 'b) parse) \<Rightarrow> 'a \<Rightarrow> 'b parse" where
  "loopP 0 f a p = Diverge"
| "loopP (Suc n) f a p = andthen (f a) (\<lambda>r p. case r of Inl a' \<Rightarrow> loopP n f a' p | Inr b \<Rightarrow> POk b p) p"

definition loop :: "('a \<Rightarrow> ('a + 'b) parse) \<Rightarrow> 'a \<Rightarrow> 'b parse" where
  "loop f a p = loopP (Suc (length (pr_toks p) - pr_pos p)) f a p"

subsection \<open>Errors\<close>

definition report :: "diagnostic \<Rightarrow> parser \<Rightarrow> parser" where
  "report d p = (if length (pr_diags p) < MAX_DIAGNOSTICS then p\<lparr>pr_diags := pr_diags p @ [d]\<rparr> else p)"

definition fail :: "span \<Rightarrow> message \<Rightarrow> 'a parse" where
  "fail s m p = PErr (report (diagnostic_new s m) p)"

definition unexpected :: "rtext \<Rightarrow> 'a parse" where
  "unexpected expected p =
     fail (cur_span p) [Txt (str ''expected ''), Txt expected, Txt (str '', found ''), Desc (kind p)] p"

text \<open>\<open>let _ = self.unexpected(...)\<close>: only the diagnostic is kept.\<close>

definition note_unexpected :: "rtext \<Rightarrow> parser \<Rightarrow> parser" where
  "note_unexpected expected p =
     report (diagnostic_new (cur_span p)
       [Txt (str ''expected ''), Txt expected, Txt (str '', found ''), Desc (kind p)]) p"

definition expect :: "token_kind \<Rightarrow> rtext \<Rightarrow> span parse" where
  "expect k expected p = (if at k p then POk (cur_span p) (bump p) else unexpected expected p)"

definition is_definition :: "keyword \<Rightarrow> bool" where
  "is_definition k \<longleftrightarrow> k \<in> {KDef, KAbstract, KPrompt, KTool, KWorkflow, KStruct, KClass, KModule,
     KEnum, KAgent, KSupervisor}"

text \<open>The first token of the line that holds \<open>s\<close>: the index in the token list.\<close>

definition line_start :: "parser \<Rightarrow> span \<Rightarrow> nat" where
  "line_start p s =
     (let starts = dt_line_starts (pr_docs p); l = line_of (pr_docs p) s
      in if l < length starts then starts ! l else 0)"

definition first_of_line :: "parser \<Rightarrow> span \<Rightarrow> nat" where
  "first_of_line p s = partition_point (\<lambda>t. unat (sp_start (tk_span t)) < line_start p s) (pr_toks p)"

definition line_indent :: "parser \<Rightarrow> span \<Rightarrow> nat" where
  "line_indent p s =
     (let first = first_of_line p s
      in if first < length (pr_toks p)
         then unat (sp_start (tk_span (pr_toks p ! first))) - line_start p s else 0)"

definition indent_if_first :: "parser \<Rightarrow> span \<Rightarrow> nat option" where
  "indent_if_first p s =
     (let first = first_of_line p s
      in if first < length (pr_toks p) \<and> tk_span (pr_toks p ! first) = s
         then Some (unat (sp_start s) - line_start p s) else None)"

definition quoted :: "rtext \<Rightarrow> rtext" where
  "quoted t = str ''`'' @ t @ str ''`''"

definition expect_end :: "span \<Rightarrow> rtext \<Rightarrow> span parse" where
  "expect_end opener what p =
     (if at_kw KEnd p then
        let e = cur_span p; p = bump p;
            p = (if pr_misaligned_end p = None \<and>
                    (case indent_if_first p e of None \<Rightarrow> False | Some indent \<Rightarrow> indent < line_indent p opener)
                 then p\<lparr>pr_misaligned_end := Some (e, opener, what)\<rparr> else p)
        in POk e p
      else
        let m = (case kind p of
                   TKw w \<Rightarrow>
                     (if is_definition w
                      then [Txt (str ''expected `end` to close `'' @ what @ str ''` before this `'' @ str (as_str w) @ str ''`'')]
                      else [Txt (str ''expected `end` to close `'' @ what @ str ''`, found ''), Desc (TKw w)])
                 | other \<Rightarrow> [Txt (str ''expected `end` to close `'' @ what @ str ''`, found ''), Desc other]);
            d = with_note (diagnostic_new (cur_span p) m) opener [Txt (quoted what @ str '' opened here'')]
        in case pr_misaligned_end p of
             None \<Rightarrow> PErr (report d p)
           | Some (e, closed, closed_what) \<Rightarrow>
               let p = p\<lparr>pr_misaligned_end := None\<rparr>;
                   line = line_of (pr_docs p) closed + 1;
                   note = str ''this `end` closes the `'' @ closed_what @ str ''` of line '' @ int_text (int line)
                     @ str '', though it is less indented'';
                   d = with_help (with_note d e [Txt note]) (str ''an `end` may be missing above this one'')
               in PErr (report d p))"

definition at_definition :: "parser \<Rightarrow> bool" where
  "at_definition p \<longleftrightarrow> (case kind p of
     TKw w \<Rightarrow> is_definition w
   | TIdent name \<Rightarrow> name = str ''native'' \<and> nth_kind 1 p = TKw KDef
   | _ \<Rightarrow> False)"

subsection \<open>Names\<close>

definition ident_of :: "rtext \<Rightarrow> span \<Rightarrow> ident" where
  "ident_of name s = \<lparr>id_name = name, id_span = s\<rparr>"

definition ident :: "rtext \<Rightarrow> ident parse" where
  "ident expected p = (case kind p of
     TIdent name \<Rightarrow> POk (ident_of name (cur_span p)) (bump p)
   | _ \<Rightarrow> unexpected expected p)"

definition const_name :: "rtext \<Rightarrow> ident parse" where
  "const_name expected p = (case kind p of
     TConst name \<Rightarrow> POk (ident_of name (cur_span p)) (bump p)
   | _ \<Rightarrow> unexpected expected p)"

definition method_name :: "ident parse" where
  "method_name p = (case kind p of
     TIdent s \<Rightarrow> POk (ident_of s (cur_span p)) (bump p)
   | TConst s \<Rightarrow> POk (ident_of s (cur_span p)) (bump p)
   | TKw w \<Rightarrow> POk (ident_of (str (as_str w)) (cur_span p)) (bump p)
   | _ \<Rightarrow> unexpected (str ''a method name'') p)"

end
