(* ===== verification/Parse_Calls.thy ===== *)
theory Parse_Calls
  imports Cursor
begin

text \<open>
  Types, bodies, blocks and call arguments (grenat\_parser: src/types.rs, src/stmts.rs,
  src/blocks.rs, src/calls.rs). The parse functions are mutually recursive. Each one is defined
  here over the record \<open>subs\<close> of those that it calls back with fewer tokens left; the theory
  Parse ties the recursion.
\<close>

record subs =
  s_expr :: "expr parse"
  s_ternary :: "expr parse"
  s_binary :: "nat \<Rightarrow> expr parse"
  s_unary :: "expr parse"
  s_method_call :: "expr \<Rightarrow> bool \<Rightarrow> expr parse"
  s_postfix_from :: "expr \<Rightarrow> expr parse"
  s_elsif :: "expr parse"
  s_not_expr :: "expr parse"
  s_expr_stmt :: "expr parse"
  s_stmt :: "expr parse"
  s_stmts :: "keyword list \<Rightarrow> expr list parse"
  s_ty :: "ty parse"
  s_pattern :: "expr pattern parse"

subsection \<open>Lists\<close>

text \<open>
  The loop the parser writes for every comma-separated list up to a closing token: newlines may
  come before and after an item, and a comma may come last. \<open>item\<close> adds one item to the list.
\<close>

definition comma_round :: "token_kind \<Rightarrow> ('a \<Rightarrow> 'a parse) \<Rightarrow> 'a \<Rightarrow> ('a + 'a) parse" where
  "comma_round close item acc p =
     (let p = skip_newlines p in
      if at close p then POk (Inr acc) p
      else andthen (item acc) (\<lambda>acc p.
        let p = skip_newlines p in
        if at TComma p then POk (Inl acc) (bump p) else POk (Inr acc) p) p)"

definition comma_list :: "token_kind \<Rightarrow> rtext \<Rightarrow> ('a \<Rightarrow> 'a parse) \<Rightarrow> 'a \<Rightarrow> 'a parse" where
  "comma_list close expected item acc =
     andthen (loop (comma_round close item) acc) (\<lambda>acc p.
       andthen (expect close expected) (\<lambda>_. POk acc) (skip_newlines p))"

definition push_item :: "'a parse \<Rightarrow> 'a list \<Rightarrow> 'a list parse" where
  "push_item item xs = pmap (\<lambda>x. xs @ [x]) item"

subsection \<open>Types\<close>

text \<open>\<open>while self.eat(&T::ColonColon) { path.push(self.const_name(..)?); }\<close>\<close>

definition colon_path :: "rtext \<Rightarrow> ident list \<Rightarrow> ident list parse" where
  "colon_path expected = loop (\<lambda>path p.
     if at TColonColon p then pmap (\<lambda>c. Inl (path @ [c])) (const_name expected) (bump p)
     else POk (Inr path) p)"

definition ty_arg :: "subs \<Rightarrow> ty parse" where
  "ty_arg R p = (case kind p of
     TInt n \<Rightarrow> POk (TySize (of_int \<bar>n\<bar>) (cur_span p)) (bump p)
   | _ \<Rightarrow> s_ty R p)"

definition ty_args :: "subs \<Rightarrow> ty list parse" where
  "ty_args R p =
     (if at_tight TLParen p then comma_list TRParen (str ''`)`'') (push_item (ty_arg R)) [] (bump p)
      else POk [] p)"

definition optional_marks :: "ty \<Rightarrow> ty parse" where
  "optional_marks = loop (\<lambda>t p.
     if at_tight TQuestion p then POk (Inl (TyOptional t (span_to (ty_span t) (cur_span p)))) (bump p)
     else POk (Inr t) p)"

definition ty :: "subs \<Rightarrow> ty parse" where
  "ty R p =
     (let start = cur_span p in
      if at TTilde p then
        pmap (\<lambda>inner. TyTainted inner (span_to start (ty_span inner))) (s_ty R) (bump p)
      else
        andthen (const_name (str ''a type'')) (\<lambda>first.
        andthen (colon_path (str ''a type'') [first]) (\<lambda>path.
        andthen (ty_args R) (\<lambda>args p.
          optional_marks (TyNamed path args (span_to start (prev_span p))) p))) p)"

subsection \<open>Bodies\<close>

definition rescue_types :: "subs \<Rightarrow> ty list parse" where
  "rescue_types R p = (case kind p of
     TConst _ \<Rightarrow>
       andthen (s_ty R) (\<lambda>t. loop (\<lambda>types p.
         if at TComma p then pmap (\<lambda>t. Inl (types @ [t])) (s_ty R) (bump p) else POk (Inr types) p) [t]) p
   | _ \<Rightarrow> POk [] p)"

definition rescue_binding :: "ident option parse" where
  "rescue_binding p =
     (if at TFatArrow p then pmap Some (ident (str ''a variable name'')) (bump p) else POk None p)"

definition rescue_clause :: "subs \<Rightarrow> expr rescue parse" where
  "rescue_clause R p =
     (let start = cur_span p in
      andthen (rescue_types R) (\<lambda>types.
      andthen rescue_binding (\<lambda>binding p.
      andthen (s_stmts R [KRescue, KEnsure, KEnd]) (\<lambda>stmts p.
        POk (Rescue types binding stmts (span_to start (prev_span p))) p) (snd (eat_kw KThen p)))) (bump p))"

definition body :: "subs \<Rightarrow> keyword list \<Rightarrow> expr body parse" where
  "body R stops p =
     (let start = cur_span p in
      andthen (s_stmts R ([KRescue, KEnsure, KEnd] @ stops)) (\<lambda>stmts.
      andthen (loop (\<lambda>rescues p.
        if at_kw KRescue p then pmap (\<lambda>r. Inl (rescues @ [r])) (rescue_clause R) p
        else POk (Inr rescues) p) []) (\<lambda>rescues.
      andthen (\<lambda>p. if at_kw KEnsure p then pmap Some (s_stmts R [KEnd]) (bump p) else POk None p) (\<lambda>ensure p.
        POk (Body stmts rescues ensure (span_to start (prev_span p))) p))) p)"

subsection \<open>Blocks\<close>

definition block_param :: "subs \<Rightarrow> expr param parse" where
  "block_param R p =
     (let start = cur_span p;
          make = (\<lambda>name t p. POk (Param (ident_of name start) t None (span_to start (prev_span p))) p)
      in case kind p of
           TIdent name \<Rightarrow> make name None (bump p)
         | TLabel name \<Rightarrow> andthen (s_ty R) (\<lambda>t. make name (Some t)) (bump p)
         | _ \<Rightarrow> unexpected (str ''a block parameter'') p)"

definition block_params :: "subs \<Rightarrow> expr param list parse" where
  "block_params R p =
     (if at TOrOr p then POk [] (bump p)
      else if \<not> at TPipe p then POk [] p
      else
        andthen (loop (\<lambda>params. andthen (block_param R) (\<lambda>param p.
            if at TComma p then POk (Inl (params @ [param])) (bump p) else POk (Inr (params @ [param])) p)) [])
          (\<lambda>params. andthen (expect TPipe (str ''`|`'')) (\<lambda>_. POk params)) (bump p))"

definition brace_block :: "subs \<Rightarrow> expr block parse" where
  "brace_block R p =
     (let start = cur_span p in
      andthen (block_params R) (\<lambda>params p.
        let body_start = cur_span p in
        andthen (s_stmts R []) (\<lambda>stmts.
        andthen (expect TRBrace (str ''`}`'')) (\<lambda>e p.
          POk (Block params (body_new stmts (span_to body_start (prev_span p))) (span_to start e)) p)) p) (bump p))"

definition do_block :: "subs \<Rightarrow> expr block parse" where
  "do_block R p =
     (let start = cur_span p in
      andthen (block_params R) (\<lambda>params.
      andthen (body R []) (\<lambda>b.
      andthen (expect_end start (str ''do'')) (\<lambda>e. POk (Block params b (span_to start e))))) (bump p))"

subsection \<open>Calls\<close>

datatype arg_or_block = Arg "expr arg" | ABlock "expr block"

definition takes_block :: "expr \<Rightarrow> bool" where
  "takes_block e = (case ex_kind e of
     EVar _ \<Rightarrow> True | ECall _ _ _ block _ _ \<Rightarrow> (case block of None \<Rightarrow> True | Some _ \<Rightarrow> False) | _ \<Rightarrow> False)"

text \<open>\<open>None\<close> is the \<open>unreachable!\<close>.\<close>

definition attach_block :: "expr \<Rightarrow> expr block \<Rightarrow> expr option" where
  "attach_block e block =
     (let s = span_to (ex_span e) (bk_span block) in
      case ex_kind e of
        EVar name \<Rightarrow> Some (Expr (ECall None (ident_of name (ex_span e)) [] (Some block) False False) s)
      | ECall recv name args _ safe parens \<Rightarrow> Some (Expr (ECall recv name args (Some block) safe parens) s)
      | _ \<Rightarrow> None)"

definition can_start_command_arg :: "parser \<Rightarrow> bool" where
  "can_start_command_arg p \<longleftrightarrow>
     tk_space_before (peek p) \<and>
     (case kind p of
        TInt _ \<Rightarrow> True | TFloat _ \<Rightarrow> True | TStr _ \<Rightarrow> True | TSymbol _ \<Rightarrow> True | TLabel _ \<Rightarrow> True
      | TIdent _ \<Rightarrow> True | TConst _ \<Rightarrow> True | TIVar _ \<Rightarrow> True | TLBracket \<Rightarrow> True | TLParen \<Rightarrow> True
      | TKw w \<Rightarrow> w \<in> {KTrue, KFalse, KNil, KSelfKw}
      | _ \<Rightarrow> False)
     \<or> tk_space_before (peek p) \<and> kind p = TBang \<and>
       \<not> tk_space_before (pr_toks p ! min (pr_pos p + 1) (length (pr_toks p) - 1))"

text \<open>A label without a value: \<open>topic:\<close> before what ends an argument.\<close>

definition punned :: "parser \<Rightarrow> bool" where
  "punned p \<longleftrightarrow> kind p \<in> {TComma, TRParen, TRBracket, TRBrace, TNewline, TEof} \<or> at_kw KDo p"

definition arg :: "subs \<Rightarrow> arg_or_block parse" where
  "arg R p = (case kind p of
     TLabel name \<Rightarrow>
       (let name = ident_of name (cur_span p); p = bump p in
        if punned p then POk (Arg (ANamed name None)) p
        else pmap (\<lambda>e. Arg (ANamed name (Some e))) (s_expr R) p)
   | TAmp \<Rightarrow> pmap (\<lambda>e. Arg (ABlockPass e)) (s_unary R) (bump p)
   | TSafeDot \<Rightarrow>
       (let start = cur_span p in
        andthen (s_method_call R (Expr EIt start) False) (\<lambda>call.
        andthen (s_postfix_from R call) (\<lambda>b.
          let s = span_to start (ex_span b);
              it = Param (ident_of (str ''it'') start) None None start
          in POk (ABlock (Block [it] (body_new [b] s) s)))) (bump p))
   | _ \<Rightarrow> pmap (\<lambda>e. Arg (APos e)) (s_expr R) p)"

type_synonym args = "expr arg list \<times> expr block option"

definition add_arg :: "subs \<Rightarrow> args \<Rightarrow> args parse" where
  "add_arg R acc = pmap (\<lambda>a. case a of
     Arg x \<Rightarrow> (fst acc @ [x], snd acc) | ABlock b \<Rightarrow> (fst acc, Some b)) (arg R)"

definition arg_list :: "subs \<Rightarrow> args parse" where
  "arg_list R = loop (\<lambda>acc. andthen (add_arg R acc) (\<lambda>acc p.
     if at TComma p then POk (Inl acc) (skip_newlines (bump p)) else POk (Inr acc) p)) ([], None)"

definition paren_args :: "subs \<Rightarrow> args parse" where
  "paren_args R = andthen (expect TLParen (str ''`(`'')) (\<lambda>_.
     with_do True (comma_list TRParen (str ''`)`'') (add_arg R) ([], None)))"

definition command_args :: "subs \<Rightarrow> args parse" where
  "command_args R = andthen (with_do False (arg_list R)) (\<lambda>(args, block) p.
     if block = None then
       (if at TLBrace p then pmap (\<lambda>b. (args, Some b)) (brace_block R) p
        else if \<not> pr_no_do p \<and> at_kw KDo p then pmap (\<lambda>b. (args, Some b)) (do_block R) p
        else POk (args, block) p)
     else POk (args, block) p)"

definition method_call :: "subs \<Rightarrow> expr \<Rightarrow> bool \<Rightarrow> expr parse" where
  "method_call R recv safe =
     andthen method_name (\<lambda>name p.
       andthen (\<lambda>p.
           if at_tight TLParen p then pmap (\<lambda>(args, block). (args, block, True)) (paren_args R) p
           else if can_start_command_arg p then pmap (\<lambda>(args, block). (args, block, False)) (command_args R) p
           else POk ([], None, False) p)
         (\<lambda>(args, block, parens) p.
           POk (Expr (ECall (Some recv) name args block safe parens) (span_to (ex_span recv) (prev_span p))) p) p)"

definition expr_list :: "subs \<Rightarrow> token_kind \<Rightarrow> rtext \<Rightarrow> expr list parse" where
  "expr_list R close expected = with_do True (comma_list close expected (push_item (s_expr R)) [])"

end
