(* ===== verification/Parse_Exprs.thy ===== *)
theory Parse_Exprs
  imports Parse_Calls
begin

text \<open>
  Expressions and control structures (grenat\_parser: src/exprs.rs, src/control.rs): primaries,
  postfix forms, the Pratt loop of the binary operators, the ternary, assignments.
\<close>

subsection \<open>Operators\<close>

datatype infix_op = Bin binop | Range bool

definition not_e :: "expr \<Rightarrow> expr" where
  "not_e e = Expr (EUnary UNot e) (ex_span e)"

definition is_assignable :: "expr \<Rightarrow> bool" where
  "is_assignable e = (case ex_kind e of
     EVar _ \<Rightarrow> True | EIVar _ \<Rightarrow> True | EConst _ \<Rightarrow> True | EIndex _ _ \<Rightarrow> True
   | ECall (Some _) _ args None _ False \<Rightarrow> args = []
   | _ \<Rightarrow> False)"

text \<open>The operator at the position, with its left and right binding powers.\<close>

definition infix_at :: "token_kind \<Rightarrow> (infix_op \<times> nat \<times> nat) option" where
  "infix_at k = (case k of
     TDotDot \<Rightarrow> Some (Range True, 2, 3)
   | TDotDotDot \<Rightarrow> Some (Range False, 2, 3)
   | TOrOr \<Rightarrow> Some (Bin OpOr, 4, 5)
   | TAndAnd \<Rightarrow> Some (Bin OpAnd, 6, 7)
   | TEqEq \<Rightarrow> Some (Bin OpEq, 8, 9)
   | TNotEq \<Rightarrow> Some (Bin OpNotEq, 8, 9)
   | TMatch \<Rightarrow> Some (Bin OpMatch, 8, 9)
   | TCmp \<Rightarrow> Some (Bin OpCmp, 8, 9)
   | TLt \<Rightarrow> Some (Bin OpLt, 10, 11)
   | TLe \<Rightarrow> Some (Bin OpLe, 10, 11)
   | TGt \<Rightarrow> Some (Bin OpGt, 10, 11)
   | TGe \<Rightarrow> Some (Bin OpGe, 10, 11)
   | TPipe \<Rightarrow> Some (Bin OpBitOr, 12, 13)
   | TCaret \<Rightarrow> Some (Bin OpBitXor, 12, 13)
   | TAmp \<Rightarrow> Some (Bin OpBitAnd, 14, 15)
   | TShl \<Rightarrow> Some (Bin OpShl, 16, 17)
   | TShr \<Rightarrow> Some (Bin OpShr, 16, 17)
   | TPlus \<Rightarrow> Some (Bin OpAdd, 18, 19)
   | TMinus \<Rightarrow> Some (Bin OpSub, 18, 19)
   | TStar \<Rightarrow> Some (Bin OpMul, 20, 21)
   | TSlash \<Rightarrow> Some (Bin OpDiv, 20, 21)
   | TPercent \<Rightarrow> Some (Bin OpRem, 20, 21)
   | TStarStar \<Rightarrow> Some (Bin OpPow, 25, 24)
   | _ \<Rightarrow> None)"

text \<open>The end of an endless range in an index: \<open>-1\<close>, with the empty span after the dots.\<close>

definition endless :: "span \<Rightarrow> expr" where
  "endless op = Expr (EInt (- 1)) (span_new (unat (sp_end op)) (unat (sp_end op)))"

subsection \<open>Strings\<close>

definition interpolation :: "subs \<Rightarrow> token list \<Rightarrow> span \<Rightarrow> expr parse" where
  "interpolation R toks s p =
     andthen (s_stmts R []) (\<lambda>stmts sub.
       let sub = (if at TEof sub then sub else note_unexpected (str ''`}`'') sub);
           p = p\<lparr>pr_diags := pr_diags p @ pr_diags sub\<rparr>;
           p = (if 1 < length stmts
                then report (diagnostic_new s [Txt (str ''expected a single expression in `#{'' @ [0x2026] @ str ''}`'')]) p
                else p)
       in POk (if stmts = [] then Expr (EStr []) s else last stmts) p) (parser_new toks (pr_docs p))"

fun string_segs :: "subs \<Rightarrow> str_part list \<Rightarrow> expr str_seg list \<Rightarrow> expr str_seg list parse" where
  "string_segs R [] segs p = POk segs p"
| "string_segs R (SLit t # parts) segs p = string_segs R parts (segs @ [SegLit t]) p"
| "string_segs R (SInterp toks s # parts) segs p =
     andthen (interpolation R toks s) (\<lambda>e. string_segs R parts (segs @ [SegInterp e])) p"

definition string_e :: "subs \<Rightarrow> str_part list \<Rightarrow> span \<Rightarrow> expr parse" where
  "string_e R parts s = pmap (\<lambda>segs. Expr (EStr segs) s) (string_segs R parts [])"

subsection \<open>Primaries\<close>

definition ident_expr :: "subs \<Rightarrow> expr parse" where
  "ident_expr R p =
     (let tok = peek p; p = bump p in
      case tk_kind tok of
        TIdent n \<Rightarrow>
          (let name = ident_of n (tk_span tok);
               call = (\<lambda>parens (args, block) p.
                 POk (Expr (ECall None name args block False parens) (span_to (tk_span tok) (prev_span p))) p)
           in if at_tight TLParen p then andthen (paren_args R) (call True) p
              else if can_start_command_arg p then andthen (command_args R) (call False) p
              else POk (Expr (EVar n) (tk_span tok)) p)
      | _ \<Rightarrow> Panic)"

text \<open>\<open>Foo\<close>, \<open>A::B\<close>, or \<open>Research(topic: t)\<close>.\<close>

definition const_path :: "ident list \<Rightarrow> ident list parse" where
  "const_path = loop (\<lambda>path p.
     if at TColonColon p \<and> (case nth_kind 1 p of TConst _ \<Rightarrow> True | _ \<Rightarrow> False)
     then pmap (\<lambda>c. Inl (path @ [c])) (const_name (str ''a constant'')) (bump p)
     else POk (Inr path) p)"

definition const_expr :: "subs \<Rightarrow> expr parse" where
  "const_expr R p =
     (let start = cur_span p in
      andthen (const_name (str ''a constant'')) (\<lambda>first.
      andthen (const_path [first]) (\<lambda>path p.
        if \<not> at_tight TLParen p then POk (Expr (EConst path) (span_to start (prev_span p))) p
        else if path = [] then Panic
        else
          let name = last path; path = butlast path;
              recv = (if path = [] then None else Some (Expr (EConst path) (span_to start (id_span (last path)))))
          in andthen (paren_args R) (\<lambda>(args, block) p.
               POk (Expr (ECall recv name args block False True) (span_to start (prev_span p))) p) p)) p)"

definition hash_entry :: "subs \<Rightarrow> (expr \<times> expr) list \<Rightarrow> (expr \<times> expr) list parse" where
  "hash_entry R entries p = (case kind p of
     TLabel name \<Rightarrow>
       (let key = Expr (ESymbol name) (cur_span p); p = bump p in
        if at TComma p \<or> at TRBrace p then POk (entries @ [(key, Expr (EVar name) (ex_span key))]) p
        else pmap (\<lambda>e. entries @ [(key, e)]) (s_expr R) (skip_newlines p))
   | _ \<Rightarrow>
       andthen (s_expr R) (\<lambda>key.
       andthen (expect TFatArrow (str ''`=>`'')) (\<lambda>_ p.
         pmap (\<lambda>e. entries @ [(key, e)]) (s_expr R) (skip_newlines p))) p)"

definition hash :: "subs \<Rightarrow> expr parse" where
  "hash R p =
     (let start = cur_span p in
      andthen (with_do True (comma_list TRBrace (str ''`}`'') (hash_entry R) [])) (\<lambda>entries p.
        POk (Expr (EHash entries) (span_to start (prev_span p))) p) (bump p))"

definition jump_ends :: "token_kind \<Rightarrow> bool" where
  "jump_ends k \<longleftrightarrow> k \<in> {TNewline, TEof, TRBrace, TRParen, TKw KIf, TKw KUnless, TKw KWhile, TKw KUntil,
     TKw KRescue, TKw KEnd, TKw KElse, TKw KElsif, TKw KIn, TKw KWhen, TKw KThen, TKw KDo, TKw KEnsure}"

definition jump :: "subs \<Rightarrow> expr parse" where
  "jump R p =
     (let tok = peek p; p = bump p in
      andthen (\<lambda>p. if jump_ends (kind p) then POk None p else pmap Some (s_expr R) p) (\<lambda>value p.
        let s = span_to (tk_span tok) (prev_span p);
            k = (if tk_kind tok = TKw KReturn then EReturn value
                 else if tk_kind tok = TKw KBreak then EBreak value else ENext value)
        in POk (Expr k s) p) p)"

subsection \<open>Control structures\<close>

definition if_rest :: "subs \<Rightarrow> span \<Rightarrow> bool \<Rightarrow> expr parse" where
  "if_rest R start negate =
     andthen (s_expr_stmt R) (\<lambda>cond p.
       let cond = (if negate then not_e cond else cond); p = snd (eat_kw KThen p) in
       andthen (s_stmts R [KElsif, KElse, KEnd]) (\<lambda>thn.
       andthen (\<lambda>p.
           if at_kw KElsif p then pmap (\<lambda>e. Some [e]) (s_elsif R) p
           else if at_kw KElse p then pmap Some (s_stmts R [KEnd]) (bump p)
           else POk None p) (\<lambda>els p.
         POk (Expr (EIf cond thn els) (span_to start (prev_span p))) p)) p)"

text \<open>At an \<open>elsif\<close>: the nested \<open>if\<close> that the \<open>else\<close> branch holds.\<close>

definition elsif :: "subs \<Rightarrow> expr parse" where
  "elsif R p = (let start = cur_span p in if_rest R start False (bump p))"

definition if_expr :: "subs \<Rightarrow> bool \<Rightarrow> expr parse" where
  "if_expr R negate p =
     (let start = cur_span p in
      andthen (if_rest R start negate) (\<lambda>e.
      andthen (expect_end start (str (if negate then ''unless'' else ''if''))) (\<lambda>e_end.
        POk (Expr (ex_kind e) (span_to start e_end)))) (bump p))"

definition while_expr :: "subs \<Rightarrow> bool \<Rightarrow> expr parse" where
  "while_expr R until p =
     (let start = cur_span p in
      andthen (with_do False (s_expr_stmt R)) (\<lambda>cond p.
        let cond = (if until then not_e cond else cond); p = snd (eat_kw KDo p) in
        andthen (s_stmts R [KEnd]) (\<lambda>stmts.
        andthen (expect_end start (str (if until then ''until'' else ''while''))) (\<lambda>e_end.
          POk (Expr (EWhile cond stmts) (span_to start e_end)))) p) (bump p))"

definition case_test :: "subs \<Rightarrow> expr arm_test option parse" where
  "case_test R p =
     (if at_kw KIn p then pmap (\<lambda>pat. Some (ArmIn pat)) (s_pattern R) (bump p)
      else if at_kw KWhen p then
        andthen (s_expr R) (\<lambda>first.
          pmap (\<lambda>values. Some (ArmWhen values)) (loop (\<lambda>values p.
            if at TComma p then pmap (\<lambda>e. Inl (values @ [e])) (s_expr R) (skip_newlines (bump p))
            else POk (Inr values) p) [first])) (bump p)
      else POk None p)"

definition case_guard :: "subs \<Rightarrow> expr option parse" where
  "case_guard R p =
     (if at_kw KIf p then pmap Some (s_expr_stmt R) (bump p)
      else if at_kw KUnless p then pmap (\<lambda>e. Some (not_e e)) (s_expr_stmt R) (bump p)
      else POk None p)"

definition case_round :: "subs \<Rightarrow> expr case_arm list \<Rightarrow> (expr case_arm list + expr case_arm list) parse" where
  "case_round R arms p =
     (let arm_start = cur_span p in
      andthen (case_test R) (\<lambda>test p.
        case test of
          None \<Rightarrow> POk (Inr arms) p
        | Some test \<Rightarrow>
            andthen (case_guard R) (\<lambda>guard p.
              andthen (s_stmts R [KIn, KWhen, KElse, KEnd]) (\<lambda>stmts p.
                POk (Inl (arms @ [CaseArm test guard stmts (span_to arm_start (prev_span p))])) p)
              (snd (eat_kw KThen p))) p) p)"

definition case_expr :: "subs \<Rightarrow> expr parse" where
  "case_expr R p =
     (let start = cur_span p in
      andthen (\<lambda>p. if at_line_end p then POk None p else pmap Some (s_expr_stmt R) p) (\<lambda>subject p.
      andthen (loop (case_round R) []) (\<lambda>arms p.
        let p = (if arms = []
                 then report (diagnostic_new (cur_span p) [Txt (str ''expected at least one `in` or `when` branch'')]) p
                 else p) in
        andthen (\<lambda>p. if at_kw KElse p then pmap Some (s_stmts R [KEnd]) (bump p) else POk None p) (\<lambda>els.
        andthen (expect_end start (str ''case'')) (\<lambda>e_end.
          POk (Expr (ECase subject arms els) (span_to start e_end)))) p) (skip_newlines p)) (bump p))"

subsection \<open>Primaries, postfix forms\<close>

definition paren_expr :: "subs \<Rightarrow> expr parse" where
  "paren_expr R p =
     (let start = cur_span p in
      andthen (with_do True (\<lambda>p. andthen (s_stmt R) (\<lambda>e p.
          andthen (expect TRParen (str ''`)'')) (\<lambda>_. POk e) (skip_newlines p)) (skip_newlines p)))
        (\<lambda>inner p. POk (Expr (ex_kind inner) (span_to start (prev_span p))) p) (bump p))"

definition begin_expr :: "subs \<Rightarrow> expr parse" where
  "begin_expr R p =
     (let start = cur_span p in
      andthen (body R []) (\<lambda>b.
      andthen (expect_end start (str ''begin'')) (\<lambda>e_end. POk (Expr (EBegin b) (span_to start e_end)))) (bump p))"

definition primary :: "subs \<Rightarrow> expr parse" where
  "primary R p =
     (let s = cur_span p; simple = (\<lambda>k. POk (Expr k s) (bump p)) in
      case kind p of
        TInt n \<Rightarrow> simple (EInt n)
      | TFloat n \<Rightarrow> simple (EFloat n)
      | TSymbol t \<Rightarrow> simple (ESymbol t)
      | TIVar t \<Rightarrow> simple (EIVar t)
      | TStr parts \<Rightarrow> string_e R parts s (bump p)
      | TIdent _ \<Rightarrow> ident_expr R p
      | TConst _ \<Rightarrow> const_expr R p
      | TLParen \<Rightarrow> paren_expr R p
      | TLBracket \<Rightarrow>
          andthen (expr_list R TRBracket (str ''`]`''))
            (\<lambda>items p. POk (Expr (EArray items) (span_to s (prev_span p))) p) (bump p)
      | TLBrace \<Rightarrow> hash R p
      | TKw w \<Rightarrow>
          (if w = KTrue then simple (EBool True)
           else if w = KFalse then simple (EBool False)
           else if w = KNil then simple ENil
           else if w = KSelfKw then simple ESelfRef
           else if w = KIf then if_expr R False p
           else if w = KUnless then if_expr R True p
           else if w = KWhile then while_expr R False p
           else if w = KUntil then while_expr R True p
           else if w = KCase then case_expr R p
           else if w = KBegin then begin_expr R p
           else if w \<in> {KReturn, KBreak, KNext} then jump R p
           else if w = KEnd then fail s [Txt (str ''`end` without an opening block'')] p
           else if is_definition w then fail s [Txt (quoted (str (as_str w)) @ str '' is only allowed at the top level'')] p
           else unexpected (str ''an expression'') p)
      | TLabel name \<Rightarrow> fail s [Txt (str ''unexpected named argument `'' @ name @ str '':`'')] p
      | _ \<Rightarrow> unexpected (str ''an expression'') p)"

definition index_args :: "subs \<Rightarrow> expr list parse" where
  "index_args R p =
     (let saved = pr_in_index p
      in on_parser (\<lambda>q. q\<lparr>pr_in_index := saved\<rparr>) (expr_list R TRBracket (str ''`]`'') (p\<lparr>pr_in_index := True\<rparr>)))"

definition attach :: "expr \<Rightarrow> expr block parse \<Rightarrow> (expr + expr) parse" where
  "attach e b = andthen b (\<lambda>b p. case attach_block e b of None \<Rightarrow> Panic | Some e \<Rightarrow> POk (Inl e) p)"

definition postfix_round :: "subs \<Rightarrow> expr \<Rightarrow> (expr + expr) parse" where
  "postfix_round R e p =
     (let k = kind p; space = tk_space_before (peek p) in
      if k = TDot \<or> k = TSafeDot then pmap Inl (method_call R e (k = TSafeDot)) (bump p)
      else if k = TLBracket \<and> \<not> space then
        andthen (index_args R) (\<lambda>args p. POk (Inl (Expr (EIndex e args) (span_to (ex_span e) (prev_span p)))) p) (bump p)
      else if k = TQuestion \<and> \<not> space then
        POk (Inl (Expr (ETry e) (span_to (ex_span e) (cur_span p)))) (bump p)
      else if k = TLBrace \<and> takes_block e then attach e (brace_block R) p
      else if k = TKw KDo \<and> \<not> pr_no_do p \<and> takes_block e then attach e (do_block R) p
      else POk (Inr e) p)"

definition postfix_from :: "subs \<Rightarrow> expr \<Rightarrow> expr parse" where
  "postfix_from R e = loop (postfix_round R) e"

definition postfix :: "subs \<Rightarrow> expr parse" where
  "postfix R = andthen (primary R) (postfix_from R)"

subsection \<open>Unary and binary operators\<close>

definition f64_neg :: "f64 \<Rightarrow> f64" where
  "f64_neg f = xor f (push_bit 63 1)"

definition checked_neg :: "int \<Rightarrow> int option" where
  "checked_neg n = (if n = i64_min then None else Some (- n))"

text \<open>The literal that a glued minus negates: \<open>-3.abs\<close>, but not \<open>-2 ** 2\<close>.\<close>

definition neg_literal :: "unop \<Rightarrow> parser \<Rightarrow> expr_kind option" where
  "neg_literal op p =
     (if op = UNeg \<and> \<not> tk_space_before (peek p) \<and> nth_kind 1 p \<noteq> TStarStar then
        (case kind p of
           TInt n \<Rightarrow> map_option EInt (checked_neg n)
         | TFloat f \<Rightarrow> Some (EFloat (f64_neg f))
         | _ \<Rightarrow> None)
      else None)"

definition unary_op :: "subs \<Rightarrow> unop \<Rightarrow> expr parse" where
  "unary_op R op p =
     (let start = cur_span p; p = bump p in
      case neg_literal op p of
        Some k \<Rightarrow> postfix_from R (Expr k (span_to start (cur_span p))) (bump p)
      | None \<Rightarrow>
          pmap (\<lambda>e. Expr (EUnary op e) (span_to start (ex_span e)))
            (if op = UNeg then s_binary R 24 else s_unary R) p)"

definition unary :: "subs \<Rightarrow> expr parse" where
  "unary R p = (case kind p of TMinus \<Rightarrow> unary_op R UNeg p | TBang \<Rightarrow> unary_op R UNot p | _ \<Rightarrow> postfix R p)"

definition infix_expr :: "infix_op \<Rightarrow> bool \<Rightarrow> expr \<Rightarrow> expr \<Rightarrow> expr" where
  "infix_expr op is_endless lhs rhs =
     Expr (case op of Bin b \<Rightarrow> EBinary b lhs rhs | Range inclusive \<Rightarrow> ERange lhs rhs (inclusive \<or> is_endless))
       (span_to (ex_span lhs) (ex_span rhs))"

definition is_range :: "infix_op \<Rightarrow> bool" where
  "is_range op = (case op of Range _ \<Rightarrow> True | Bin _ \<Rightarrow> False)"

definition binary_round :: "subs \<Rightarrow> nat \<Rightarrow> expr \<Rightarrow> (expr + expr) parse" where
  "binary_round R min_bp lhs p = (case infix_at (kind p) of
     None \<Rightarrow> POk (Inr lhs) p
   | Some (op, left_bp, right_bp) \<Rightarrow>
       if left_bp < min_bp then POk (Inr lhs) p
       else
         let op_span = cur_span p; p = skip_newlines (bump p);
             is_endless = is_range op \<and> pr_in_index p \<and> at TRBracket p
         in pmap (\<lambda>rhs. Inl (infix_expr op is_endless lhs rhs))
              (if is_endless then POk (endless op_span) else s_binary R right_bp) p)"

definition binary :: "subs \<Rightarrow> nat \<Rightarrow> expr parse" where
  "binary R min_bp = andthen (unary R) (loop (binary_round R min_bp))"

subsection \<open>The ternary, assignments\<close>

definition ternary_branches :: "subs \<Rightarrow> (expr \<times> expr) parse" where
  "ternary_branches R p =
     andthen (s_ternary R) (\<lambda>thn p.
     andthen (expect TColon (str ''`:` (`cond ? a : b`)'')) (\<lambda>_ p.
       pmap (\<lambda>otherwise. (thn, otherwise)) (s_ternary R) (skip_newlines p)) (skip_newlines p)) (skip_newlines p)"

definition ternary_note :: rtext where
  "ternary_note = str ''this `?`, after a space, starts `cond ? a : b`; the `?` postfix is glued: `x?`, `end?`''"

definition note_last :: "span \<Rightarrow> message \<Rightarrow> parser \<Rightarrow> parser" where
  "note_last s m p =
     (if pr_diags p = [] then p
      else p\<lparr>pr_diags := butlast (pr_diags p) @ [with_note (last (pr_diags p)) s m]\<rparr>)"

definition ternary :: "subs \<Rightarrow> expr parse" where
  "ternary R = andthen (binary R 0) (\<lambda>cond p.
     if at TQuestion p \<and> tk_space_before (peek p) then
       let question = cur_span p in
       (case ternary_branches R (bump p) of
          Diverge \<Rightarrow> Diverge
        | Panic \<Rightarrow> Panic
        | PErr p \<Rightarrow> PErr (note_last question [Txt ternary_note] p)
        | POk (thn, otherwise) p \<Rightarrow>
            POk (Expr (EIf cond [thn] (Some [otherwise])) (span_to (ex_span cond) (ex_span otherwise))) p)
     else POk cond p)"

text \<open>The operator of an assignment: \<open>Some None\<close> is a plain \<open>=\<close>.\<close>

definition assign_op :: "token_kind \<Rightarrow> binop option option" where
  "assign_op k = (case k of
     TEq \<Rightarrow> Some None
   | TPlusEq \<Rightarrow> Some (Some OpAdd)
   | TMinusEq \<Rightarrow> Some (Some OpSub)
   | TStarEq \<Rightarrow> Some (Some OpMul)
   | TSlashEq \<Rightarrow> Some (Some OpDiv)
   | TOrOrEq \<Rightarrow> Some (Some OpOr)
   | TAndAndEq \<Rightarrow> Some (Some OpAnd)
   | _ \<Rightarrow> None)"

definition expr_e :: "subs \<Rightarrow> expr parse" where
  "expr_e R = andthen (ternary R) (\<lambda>lhs p.
     case assign_op (kind p) of
       None \<Rightarrow> POk lhs p
     | Some op \<Rightarrow>
         if \<not> is_assignable lhs then fail (ex_span lhs) [Txt (str ''this expression cannot be assigned to'')] p
         else
           pmap (\<lambda>value. Expr (case op of None \<Rightarrow> EAssign lhs value | Some op \<Rightarrow> EOpAssign op lhs value)
               (span_to (ex_span lhs) (ex_span value)))
             (s_expr R) (skip_newlines (bump p)))"

end
