(* ===== verification/Parse_Stmts.thy ===== *)
theory Parse_Stmts
  imports Parse_Exprs
begin

text \<open>
  Statements and patterns (grenat\_parser: src/stmts.rs, src/patterns.rs), and the knot: the parse
  functions with \<open>Suc n\<close> of fuel call each other back with \<open>n\<close>. A function is called back only
  after a token was passed, or on the tokens of an interpolation, so the weight of the tokens left
  bounds the fuel needed.
\<close>

subsection \<open>Statements\<close>

definition not_expr :: "subs \<Rightarrow> expr parse" where
  "not_expr R p =
     (if at_kw KNot p then
        let start = cur_span p in
        pmap (\<lambda>e. Expr (ex_kind (not_e e)) (span_to start (ex_span e))) (s_not_expr R) (bump p)
      else expr_e R p)"

definition expr_stmt :: "subs \<Rightarrow> expr parse" where
  "expr_stmt R = andthen (not_expr R) (loop (\<lambda>lhs p.
     let op = (if at_kw KAnd p then Some OpAnd else if at_kw KOr p then Some OpOr else None) in
     case op of
       None \<Rightarrow> POk (Inr lhs) p
     | Some op \<Rightarrow>
         pmap (\<lambda>rhs. Inl (Expr (EBinary op lhs rhs) (span_to (ex_span lhs) (ex_span rhs))))
           (s_not_expr R) (skip_newlines (bump p))))"

text \<open>Whether targets and commas up to an \<open>=\<close> follow: \<open>a, b =\<close>.\<close>

definition is_target :: "token_kind \<Rightarrow> bool" where
  "is_target k = (case k of TIdent _ \<Rightarrow> True | TIVar _ \<Rightarrow> True | _ \<Rightarrow> False)"

function multi_scan :: "parser \<Rightarrow> nat \<Rightarrow> bool" where
  "multi_scan p i =
     (if is_target (nth_kind i p) then
        (if nth_kind (i + 1) p = TComma then multi_scan p (i + 2)
         else nth_kind (i + 1) p = TEq \<and> 0 < i)
      else False)"
  by pat_completeness auto
termination
proof (relation "measure (\<lambda>(p, i). length (pr_toks p) - (pr_pos p + i))")
  fix p i
  assume target: "is_target (nth_kind i p)" and comma: "nth_kind (i + 1) p = TComma"
  have "pr_pos p + i < length (pr_toks p)"
  proof (rule ccontr)
    assume "\<not> pr_pos p + i < length (pr_toks p)"
    then have "min (pr_pos p + i) (length (pr_toks p) - 1) = min (pr_pos p + (i + 1)) (length (pr_toks p) - 1)"
      by arith
    then have "nth_kind i p = nth_kind (i + 1) p" unfolding nth_kind_def by (rule arg_cong)
    with target comma show False by (simp add: is_target_def)
  qed
  then show "((p, i + 2), (p, i)) \<in> measure (\<lambda>(p, i). length (pr_toks p) - (pr_pos p + i))" by simp
qed simp

declare multi_scan.simps [simp del]

definition multi_round :: "expr list \<Rightarrow> (expr list + expr list) parse" where
  "multi_round targets p =
     (let tok = peek p; p = bump p;
          go = (\<lambda>k. let targets = targets @ [Expr k (tk_span tok)]; sep = kind p; p = bump p
                     in POk (if sep = TEq then Inr targets else Inl targets) p)
      in case tk_kind tok of TIdent name \<Rightarrow> go (EVar name) | TIVar name \<Rightarrow> go (EIVar name) | _ \<Rightarrow> Panic)"

definition multi_assign :: "subs \<Rightarrow> expr option parse" where
  "multi_assign R p =
     (if multi_scan p 0 then
        let start = cur_span p in
        andthen (loop multi_round []) (\<lambda>targets p.
          pmap (\<lambda>value. Some (Expr (EMultiAssign targets value) (span_to start (ex_span value))))
            (s_expr R) (skip_newlines p)) p
      else POk None p)"

definition modified :: "keyword \<Rightarrow> span \<Rightarrow> expr \<Rightarrow> expr \<Rightarrow> expr" where
  "modified w kw_span e rhs =
     (let s = span_to (ex_span e) (ex_span rhs)
      in Expr (if w = KIf then EIf rhs [e] None
               else if w = KUnless then EIf (not_e rhs) [e] None
               else if w = KWhile then EWhile rhs [e]
               else if w = KUntil then EWhile (not_e rhs) [e]
               else EBegin (Body [e] [Rescue [] None [rhs] (span_to kw_span (ex_span rhs))] None s)) s)"

definition modifier_round :: "subs \<Rightarrow> expr \<Rightarrow> (expr + expr) parse" where
  "modifier_round R e p = (case kind p of
     TKw w \<Rightarrow>
       (if w \<in> {KIf, KUnless, KWhile, KUntil, KRescue} then
          let kw_span = cur_span p in pmap (\<lambda>rhs. Inl (modified w kw_span e rhs)) (s_expr_stmt R) (bump p)
        else POk (Inr e) p)
   | _ \<Rightarrow> POk (Inr e) p)"

definition stmt :: "subs \<Rightarrow> expr parse" where
  "stmt R = andthen (multi_assign R) (\<lambda>m.
     andthen (case m of Some e \<Rightarrow> POk e | None \<Rightarrow> expr_stmt R) (loop (modifier_round R)))"

definition at_stop :: "keyword list \<Rightarrow> parser \<Rightarrow> bool" where
  "at_stop stops p \<longleftrightarrow> (case kind p of TKw w \<Rightarrow> w \<in> set stops | _ \<Rightarrow> False)"

definition stmts_end :: "keyword list \<Rightarrow> parser \<Rightarrow> bool" where
  "stmts_end stops p \<longleftrightarrow>
     at_stop stops p \<or> kind p \<in> {TRBrace, TRParen, TEof} \<or> at_definition p \<or> MAX_DIAGNOSTICS \<le> length (pr_diags p)"

text \<open>A statement is followed by a line's end or the end of the body; recovery skips to the next line.\<close>

definition after_stmt :: "keyword list \<Rightarrow> parser \<Rightarrow> parser" where
  "after_stmt stops p =
     (if kind p \<in> {TNewline, TEof, TRBrace} \<or> at_stop stops p then p
      else recover_line (note_unexpected (str ''end of line'') p))"

definition after_error :: "keyword list \<Rightarrow> nat \<Rightarrow> parser \<Rightarrow> parser" where
  "after_error stops pos0 p =
     (if pr_pos p \<noteq> pos0 \<and> at_stop stops p \<and> indent_if_first p (cur_span p) \<noteq> None then p else recover_line p)"

definition bump_if_at :: "nat \<Rightarrow> parser \<Rightarrow> parser" where
  "bump_if_at pos0 p = (if pr_pos p = pos0 then bump p else p)"

definition stmts_round :: "subs \<Rightarrow> keyword list \<Rightarrow> expr list \<Rightarrow> (expr list + expr list) parse" where
  "stmts_round R stops out p =
     (let p = skip_newlines p in
      if stmts_end stops p then POk (Inr out) p
      else
        let pos0 = pr_pos p in
        case stmt R p of
          Diverge \<Rightarrow> Diverge
        | Panic \<Rightarrow> Panic
        | POk e p \<Rightarrow> POk (Inl (out @ [e])) (bump_if_at pos0 (after_stmt stops p))
        | PErr p \<Rightarrow> POk (Inl out) (bump_if_at pos0 (after_error stops pos0 p)))"

definition stmts :: "subs \<Rightarrow> keyword list \<Rightarrow> expr list parse" where
  "stmts R stops = with_do True (loop (stmts_round R stops) [])"

subsection \<open>Patterns\<close>

definition pattern_label :: "subs \<Rightarrow> ident \<Rightarrow> expr pattern parse" where
  "pattern_label R name p =
     (if kind p \<in> {TComma, TRParen} then POk (Pattern (PBind (id_name name)) (id_span name)) p
      else s_pattern R p)"

definition pattern_field :: "subs \<Rightarrow> expr pat_field parse" where
  "pattern_field R p = (case kind p of
     TLabel n \<Rightarrow> let name = ident_of n (cur_span p) in pmap (PatField (Some name)) (pattern_label R name) (bump p)
   | _ \<Rightarrow> pmap (PatField None) (s_pattern R) p)"

definition pattern_fields :: "subs \<Rightarrow> expr pat_field list parse" where
  "pattern_fields R p = comma_list TRParen (str ''`)'') (push_item (pattern_field R)) [] (bump p)"

text \<open>\<open>[a, b]\<close>: unlike the other lists, a comma must directly follow an item.\<close>

definition pattern_array :: "subs \<Rightarrow> expr pattern list parse" where
  "pattern_array R p =
     andthen (loop (\<lambda>items p.
         let p = skip_newlines p in
         if at TRBracket p then POk (Inr items) p
         else andthen (s_pattern R) (\<lambda>item p.
           if at TComma p then POk (Inl (items @ [item])) (bump p) else POk (Inr (items @ [item])) p) p) [])
       (\<lambda>items p. andthen (expect TRBracket (str ''`]`'')) (\<lambda>_. POk items) (skip_newlines p)) (bump p)"

definition pattern_const :: "subs \<Rightarrow> expr pattern_kind parse" where
  "pattern_const R =
     andthen (const_name (str ''a constant'')) (\<lambda>first.
     andthen (colon_path (str ''a constant'') [first]) (\<lambda>path.
     andthen (\<lambda>p. if at_tight TLParen p then pmap Some (pattern_fields R) p else POk None p) (\<lambda>fields.
       POk (PConst path fields))))"

definition pattern_kind_at :: "subs \<Rightarrow> expr pattern_kind parse" where
  "pattern_kind_at R p = (case kind p of
     TIdent name \<Rightarrow> POk (if name = str ''_'' then PWildcard else PBind name) (bump p)
   | TInt _ \<Rightarrow> pmap PLit (primary R) p
   | TFloat _ \<Rightarrow> pmap PLit (primary R) p
   | TStr _ \<Rightarrow> pmap PLit (primary R) p
   | TSymbol _ \<Rightarrow> pmap PLit (primary R) p
   | TKw w \<Rightarrow> if w \<in> {KTrue, KFalse, KNil} then pmap PLit (primary R) p else unexpected (str ''a pattern'') p
   | TMinus \<Rightarrow> pmap PLit (unary R) p
   | TConst _ \<Rightarrow> pattern_const R p
   | TLBracket \<Rightarrow> pmap PArray (pattern_array R) p
   | _ \<Rightarrow> unexpected (str ''a pattern'') p)"

definition pattern_atom :: "subs \<Rightarrow> expr pattern parse" where
  "pattern_atom R p =
     (let start = cur_span p in
      andthen (pattern_kind_at R) (\<lambda>k p. POk (Pattern k (span_to start (prev_span p))) p) p)"

definition pattern :: "subs \<Rightarrow> expr pattern parse" where
  "pattern R = andthen (pattern_atom R) (\<lambda>first p.
     if \<not> at TPipe p then POk first p
     else
       andthen (loop (\<lambda>alts p.
           if at TPipe p then pmap (\<lambda>a. Inl (alts @ [a])) (pattern_atom R) (bump p) else POk (Inr alts) p) [first])
         (\<lambda>alts. POk (Pattern (POr alts) (span_to (pt_span (hd alts)) (pt_span (last alts))))) p)"

subsection \<open>The knot\<close>

definition tie :: "subs \<Rightarrow> subs" where
  "tie R =
     \<lparr>s_expr = expr_e R, s_ternary = ternary R, s_binary = binary R, s_unary = unary R,
      s_method_call = method_call R, s_postfix_from = postfix_from R, s_elsif = elsif R,
      s_not_expr = not_expr R, s_expr_stmt = expr_stmt R, s_stmt = stmt R,
      s_stmts = stmts R, s_ty = ty R, s_pattern = pattern R\<rparr>"

primrec knot :: "nat \<Rightarrow> subs" where
  "knot 0 =
     \<lparr>s_expr = (\<lambda>_. Diverge), s_ternary = (\<lambda>_. Diverge), s_binary = (\<lambda>_ _. Diverge), s_unary = (\<lambda>_. Diverge),
      s_method_call = (\<lambda>_ _ _. Diverge), s_postfix_from = (\<lambda>_ _. Diverge), s_elsif = (\<lambda>_. Diverge),
      s_not_expr = (\<lambda>_. Diverge), s_expr_stmt = (\<lambda>_. Diverge), s_stmt = (\<lambda>_. Diverge),
      s_stmts = (\<lambda>_ _. Diverge), s_ty = (\<lambda>_. Diverge), s_pattern = (\<lambda>_. Diverge)\<rparr>"
| "knot (Suc n) = tie (knot n)"

text \<open>The tokens of a list, those of its interpolations counted.\<close>

fun token_weight :: "token \<Rightarrow> nat"
  and part_weight :: "str_part \<Rightarrow> nat" where
  "token_weight (Token k s b) = Suc (case k of TStr ps \<Rightarrow> sum_list (map part_weight ps) | _ \<Rightarrow> 0)"
| "part_weight (SLit t) = 0"
| "part_weight (SInterp ts s) = Suc (sum_list (map token_weight ts))"

definition tokens_weight :: "token list \<Rightarrow> nat" where
  "tokens_weight ts = sum_list (map token_weight ts)"

definition parse_fuel :: "token list \<Rightarrow> nat" where
  "parse_fuel toks = Suc (tokens_weight toks)"

end
