(* ===== verification/Parse_Items.thy ===== *)
theory Parse_Items
  imports Parse_Stmts Lexer_Run
begin

text \<open>
  Declarations and whole programs (grenat\_parser: src/items.rs, src/lib.rs), over the tied parse
  functions \<open>R\<close>.
\<close>

subsection \<open>Parts of declarations\<close>

definition param :: "subs \<Rightarrow> expr param parse" where
  "param R p =
     (let start = cur_span p;
          rest = (\<lambda>name t. andthen (\<lambda>p. if at TEq p then pmap Some (s_expr R) (bump p) else POk None p) (\<lambda>d p.
            POk (Param (ident_of name start) t d (span_to start (prev_span p))) p))
      in case kind p of
           TLabel name \<Rightarrow> andthen (s_ty R) (\<lambda>t. rest name (Some t)) (bump p)
         | TIdent name \<Rightarrow> rest name None (bump p)
         | _ \<Rightarrow> unexpected (str ''a parameter `name: Type`'') p)"

definition params :: "subs \<Rightarrow> expr param list parse" where
  "params R = andthen (expect TLParen (str ''`(`'')) (\<lambda>_.
     comma_list TRParen (str ''`)'') (push_item (param R)) [])"

definition tight_params :: "subs \<Rightarrow> expr param list parse" where
  "tight_params R p = (if at_tight TLParen p then params R p else POk [] p)"

definition ret_type :: "subs \<Rightarrow> ty option parse" where
  "ret_type R p = (if at TArrow p then pmap Some (s_ty R) (bump p) else POk None p)"

text \<open>The restrictions of an effect are positional arguments.\<close>

fun effect_args :: "expr arg list \<Rightarrow> expr list \<Rightarrow> expr list parse" where
  "effect_args [] acc p = POk acc p"
| "effect_args (APos e # args) acc p = effect_args args (acc @ [e]) p"
| "effect_args (ANamed name v # args) acc p = fail (id_span name) [Txt (str ''effect restrictions are positional'')] p"
| "effect_args (ABlockPass e # args) acc p = fail (ex_span e) [Txt (str ''unexpected block in an effect'')] p"

definition dot_path :: "ident list \<Rightarrow> ident list parse" where
  "dot_path = loop (\<lambda>path p.
     if at TDot p \<and> (case nth_kind 1 p of TIdent _ \<Rightarrow> True | _ \<Rightarrow> False)
     then pmap (\<lambda>c. Inl (path @ [c])) (ident (str ''an effect'')) (bump p)
     else POk (Inr path) p)"

definition effect :: "subs \<Rightarrow> effect parse" where
  "effect R = andthen (ident (str ''an effect (`llm`, `net`, `fs.read`'' @ [0x2026] @ str '')'')) (\<lambda>first.
     andthen (dot_path [first]) (\<lambda>path.
     andthen (\<lambda>p. if at_tight TLParen p then andthen (paren_args R) (\<lambda>(args, _). effect_args args []) p
                   else POk [] p) (\<lambda>args p.
       POk \<lparr>ef_path = path, ef_args = args, ef_span = span_to (id_span first) (prev_span p)\<rparr> p)))"

definition effects :: "subs \<Rightarrow> effect list parse" where
  "effects R = loop (\<lambda>es. andthen (effect R) (\<lambda>e p.
     if at TComma p then POk (Inl (es @ [e])) (skip_newlines (bump p)) else POk (Inr (es @ [e])) p)) []"

text \<open>The clauses of a header, in any order: effects, model, \<open>pure\<close>.\<close>

definition clause_round :: "subs \<Rightarrow> bool \<Rightarrow> effect list \<times> expr option \<times> bool
    \<Rightarrow> (effect list \<times> expr option \<times> bool + effect list \<times> expr option \<times> bool) parse" where
  "clause_round R native acc p = (case acc of (es, model, pure) \<Rightarrow>
     if at_ident ''uses'' p then pmap (\<lambda>more. Inl (es @ more, model, pure)) (effects R) (bump p)
     else if at_ident ''using'' p then pmap (\<lambda>m. Inl (es, Some m, pure)) (s_unary R) (bump p)
     else if native \<and> at_ident ''pure'' p then POk (Inl (es, model, True)) (bump p)
     else POk (Inr acc) p)"

definition NATIVE_WITHOUT_BODY :: rtext where
  "NATIVE_WITHOUT_BODY = str ''a `native def` has no body: its facet'' @ [39] @ str ''s native code or bridge implements it''"

definition at_native :: "parser \<Rightarrow> bool" where
  "at_native p \<longleftrightarrow> at_ident ''native'' p \<and> nth_kind 1 p = TKw KDef"

subsection \<open>Functions\<close>

definition fn_keyword :: "bool \<Rightarrow> token_kind \<Rightarrow> (fn_kind \<times> rtext) option" where
  "fn_keyword native k =
     (if k = TKw KDef then Some (if native then FkNative else FkDef, str ''def'')
      else if k = TKw KPrompt then Some (FkPrompt, str ''prompt'')
      else if k = TKw KTool then Some (FkTool, str ''tool'')
      else if k = TKw KWorkflow then Some (FkWorkflow, str ''workflow'')
      else None)"

text \<open>The body, and whether it is the short form.\<close>

definition fn_body_of :: "subs \<Rightarrow> bool \<Rightarrow> bool \<Rightarrow> span \<Rightarrow> rtext \<Rightarrow> (expr body \<times> bool) parse" where
  "fn_body_of R native is_abstract keyword_span keyword p =
     (if native then
        (if at TEq p then fail (cur_span p) [Txt NATIVE_WITHOUT_BODY] p
         else POk (body_new [] (prev_span p), False) p)
      else if at TEq p then
        pmap (\<lambda>e. (body_new [e] (ex_span e), True)) (s_stmt R) (skip_newlines (bump p))
      else if is_abstract then POk (body_new [] (prev_span p), False) p
      else andthen (body R []) (\<lambda>b. pmap (\<lambda>_. (b, False)) (expect_end keyword_span keyword)) p)"

text \<open>\<open>self.\<close> before the name of a class method.\<close>

definition on_self_prefix :: "bool \<Rightarrow> bool parse" where
  "on_self_prefix native p =
     (if at_kw KSelfKw p \<and> nth_kind 1 p = TDot then
        (if native then fail (cur_span p) [Txt (str ''a `native def` is a function, declared at the top level'')] p
         else POk True (bump (bump p)))
      else POk False p)"

text \<open>What follows the keyword of a function.\<close>

definition fn_rest :: "subs \<Rightarrow> rtext option \<Rightarrow> bool \<Rightarrow> bool \<Rightarrow> span \<Rightarrow> fn_kind \<Rightarrow> span \<Rightarrow> rtext \<Rightarrow> fn_def parse" where
  "fn_rest R doc native is_abstract start k keyword_span keyword =
     andthen (on_self_prefix native) (\<lambda>on_self.
     andthen (ident (str ''a function name'')) (\<lambda>name.
     andthen (tight_params R) (\<lambda>ps.
     andthen (ret_type R) (\<lambda>ret.
     andthen (loop (clause_round R native) ([], None, False)) (\<lambda>(es, model, pure).
     andthen (fn_body_of R native is_abstract keyword_span keyword) (\<lambda>(b, short) p.
       POk \<lparr>fn_kind = k, fn_doc = doc, fn_is_abstract = is_abstract, fn_on_self = on_self, fn_name = name,
            fn_params = ps, fn_ret = ret, fn_effects = es, fn_model = model, fn_body = b, fn_short = short,
            fn_pure = pure, fn_span = span_to start (prev_span p)\<rparr> p))))))"

definition fn_def :: "subs \<Rightarrow> rtext option \<Rightarrow> fn_def parse" where
  "fn_def R doc p =
     (let start = cur_span p; native = at_native p;
          p = (if native then bump p else p);
          (is_abstract, p) = (if native then (False, p) else eat_kw KAbstract p)
      in case fn_keyword native (kind p) of
           None \<Rightarrow> unexpected (str ''`def`'') p
         | Some (k, keyword) \<Rightarrow> fn_rest R doc native is_abstract start k (cur_span p) keyword (bump p))"

text \<open>\<open>NAME = expr\<close>: a function without arguments.\<close>

definition constant_fn :: "subs \<Rightarrow> rtext option \<Rightarrow> fn_def parse" where
  "constant_fn R doc p =
     (let start = cur_span p in
      andthen (const_name (str ''a constant'')) (\<lambda>name.
      andthen (expect TEq (str ''`=`'')) (\<lambda>_ p.
      andthen (s_expr R) (\<lambda>value p.
        POk \<lparr>fn_kind = FkDef, fn_doc = doc, fn_is_abstract = False, fn_on_self = True, fn_name = name,
             fn_params = [], fn_ret = None, fn_effects = [], fn_model = None,
             fn_body = body_new [value] (ex_span value), fn_short = True, fn_pure = False,
             fn_span = span_to start (prev_span p)\<rparr> p) (skip_newlines p))) p)"

subsection \<open>Macros and models\<close>

definition macro_param_round :: "macro_param list \<Rightarrow> (macro_param list + macro_param list) parse" where
  "macro_param_round ps p =
     (if at TRParen p then POk (Inr ps) p
      else
        let (variadic, p) = eat TStar p in
        andthen (ident (str ''a parameter name'')) (\<lambda>name p.
          let ps = ps @ [\<lparr>mp_name = name, mp_variadic = variadic\<rparr>] in
          if at TComma p then POk (Inl ps) (bump p) else POk (Inr ps) p) p)"

definition macro_params :: "macro_param list parse" where
  "macro_params p =
     (if at_tight TLParen p then
        andthen (loop macro_param_round [])
          (\<lambda>ps. andthen (expect TRParen (str ''`)'')) (\<lambda>_. POk ps)) (bump p)
      else POk [] p)"

text \<open>More than one variadic parameter, or one that is not the last.\<close>

definition bad_variadic :: "macro_param list \<Rightarrow> bool" where
  "bad_variadic ps \<longleftrightarrow> 1 < length (filter mp_variadic ps) \<or> list_ex mp_variadic (drop 1 (rev ps))"

definition macro_def :: "rtext option \<Rightarrow> macro_def parse" where
  "macro_def doc p =
     (let start = cur_span p in
      andthen (ident (str ''a macro name'')) (\<lambda>name.
      andthen macro_params (\<lambda>ps p.
        if bad_variadic ps then
          fail (span_to start (prev_span p)) [Txt (str ''only the last parameter of a macro can be `*variadic`'')] p
        else
          andthen (expect TNewline (str ''the end of the line'')) (\<lambda>_ p.
            case kind p of
              TMacroBody b \<Rightarrow>
                (let body_span = cur_span p in
                 andthen (expect_end start (str ''macro'')) (\<lambda>e.
                   POk \<lparr>mc_doc = doc, mc_name = name, mc_params = ps, mc_body = b, mc_body_span = body_span,
                        mc_span = span_to start e\<rparr>) (bump p))
            | _ \<Rightarrow> unexpected (str ''the macro'' @ [39] @ str ''s body'') p) p)) (bump p))"

text \<open>The options of a model or a type after a comma.\<close>

definition options :: "subs \<Rightarrow> expr arg list parse" where
  "options R p = (if at TComma p then pmap fst (arg_list R) (skip_newlines (bump p)) else POk [] p)"

definition model_decl :: "subs \<Rightarrow> model_decl parse" where
  "model_decl R p =
     (let start = cur_span p; p = bump p in
      case kind p of
        TSymbol n \<Rightarrow>
          (let name = ident_of n (cur_span p) in
           andthen (options R) (\<lambda>opts p.
             POk \<lparr>md_name = name, md_options = opts, md_span = span_to start (prev_span p)\<rparr> p) (bump p))
      | _ \<Rightarrow> unexpected (str ''a symbol (`:fast`)'') p)"

subsection \<open>Types and their members\<close>

definition default_value :: "subs \<Rightarrow> expr option parse" where
  "default_value R p = (if at TEq p then pmap Some (s_expr R) (bump p) else POk None p)"

definition field :: "subs \<Rightarrow> rtext option \<Rightarrow> field parse" where
  "field R doc p =
     (let start = cur_span p in
      case kind p of
        TLabel name \<Rightarrow>
          andthen (s_ty R) (\<lambda>t.
          andthen (default_value R) (\<lambda>d p.
            POk \<lparr>fd_doc = doc, fd_name = ident_of name start, fd_is_ivar = False, fd_ty = Some t, fd_default = d,
                 fd_span = span_to start (prev_span p)\<rparr> p)) (bump p)
      | _ \<Rightarrow> unexpected (str ''a field `name: Type`'') p)"

definition ivar_field :: "subs \<Rightarrow> rtext option \<Rightarrow> rtext \<Rightarrow> field parse" where
  "ivar_field R doc name p =
     (let start = cur_span p in
      andthen (\<lambda>p. if at TColon p then pmap Some (s_ty R) (bump p) else POk None p) (\<lambda>t.
      andthen (default_value R) (\<lambda>d p.
        if t = None \<and> d = None then
          fail start [Txt (str ''`@'' @ name @ str ''`: expected a type (`@'' @ name @ str '': Type`) or an initial value'')] p
        else POk \<lparr>fd_doc = doc, fd_name = ident_of name start, fd_is_ivar = True, fd_ty = t, fd_default = d,
                  fd_span = span_to start (prev_span p)\<rparr> p)) (bump p))"

definition variant :: "subs \<Rightarrow> rtext option \<Rightarrow> variant parse" where
  "variant R doc = andthen (const_name (str ''a variant'')) (\<lambda>name.
     andthen (\<lambda>p.
         if at_tight TLParen p then
           comma_list TRParen (str ''`)'')
             (push_item (\<lambda>p. field R (doc_for (pr_docs p) (cur_span p)) p)) [] (bump p)
         else POk [] p) (\<lambda>fields p.
       POk \<lparr>vr_doc = doc, vr_name = name, vr_fields = fields, vr_span = span_to (id_span name) (prev_span p)\<rparr> p))"

definition handler :: "subs \<Rightarrow> rtext option \<Rightarrow> handler parse" where
  "handler R doc p =
     (let start = cur_span p in
      andthen (const_name (str ''a capitalized message name'')) (\<lambda>message.
      andthen (tight_params R) (\<lambda>ps.
      andthen (ret_type R) (\<lambda>ret.
      andthen (body R []) (\<lambda>b.
      andthen (expect_end start (str ''on'')) (\<lambda>e.
        POk \<lparr>hd_doc = doc, hd_message = message, hd_params = ps, hd_ret = ret, hd_body = b, hd_span = span_to start e\<rparr>)))))
        (bump p))"

definition directive :: "subs \<Rightarrow> directive parse" where
  "directive R p =
     (let start = cur_span p in
      andthen (ident (str ''a directive'')) (\<lambda>name.
      andthen (\<lambda>p. if at_line_end p then POk [] p else pmap fst (command_args R) p) (\<lambda>args p.
        POk \<lparr>dr_name = name, dr_args = args, dr_span = span_to start (prev_span p)\<rparr> p)) p)"

definition member_expected :: "type_kind \<Rightarrow> rtext" where
  "member_expected k = (case k of
     TkEnum \<Rightarrow> str ''a variant, a method or `end`''
   | TkAgent \<Rightarrow> str ''a directive, `@state`, `on Message`, a method or `end`''
   | TkSupervisor \<Rightarrow> str ''a directive (`child '' @ [0x2026] @ str ''`) or `end`''
   | _ \<Rightarrow> str ''a field `name: Type`, a method or `end`'')"

definition member :: "subs \<Rightarrow> type_kind \<Rightarrow> member parse" where
  "member R tk p =
     (let start = cur_span p; doc = doc_for (pr_docs p) start in
      case kind p of
        TLabel _ \<Rightarrow> pmap MField (field R doc) p
      | TIVar name \<Rightarrow> pmap MField (ivar_field R doc name) p
      | TKw w \<Rightarrow>
          (if w \<in> {KDef, KAbstract, KPrompt, KTool, KWorkflow} then pmap MMethod (fn_def R doc) p
           else unexpected (member_expected tk) p)
      | TIdent name \<Rightarrow>
          (if name = str ''native'' \<and> nth_kind 1 p = TKw KDef then
             fail start [Txt (str ''a `native def` is a function, declared at the top level (not in a type)'')] p
           else if name = str ''include'' then pmap MInclude (s_ty R) (bump p)
           else if name = str ''on'' \<and> tk = TkAgent then pmap MHandler (handler R doc) p
           else pmap MDirective (directive R) p)
      | TConst _ \<Rightarrow>
          (if nth_kind 1 p = TEq then pmap MMethod (constant_fn R doc) p
           else if tk = TkEnum then pmap MVariant (variant R doc) p
           else unexpected (member_expected tk) p)
      | _ \<Rightarrow> unexpected (member_expected tk) p)"

text \<open>After a member or an item that failed: the next definition is parsed, or the line is skipped.\<close>

definition resume_at_definition :: "parser \<Rightarrow> parser" where
  "resume_at_definition p = (if at_definition p then p else recover_line p)"

definition members_round :: "subs \<Rightarrow> type_kind \<Rightarrow> member list \<Rightarrow> (member list + member list) parse" where
  "members_round R tk ms p =
     (let p = skip_newlines p in
      if at_kw KEnd p \<or> at TEof p \<or> MAX_DIAGNOSTICS \<le> length (pr_diags p) then POk (Inr ms) p
      else
        let pos0 = pr_pos p in
        case member R tk p of
          Diverge \<Rightarrow> Diverge
        | Panic \<Rightarrow> Panic
        | POk m p \<Rightarrow>
            POk (Inl (ms @ [m])) (bump_if_at pos0
              (if \<not> at_line_end p \<and> \<not> at_kw KEnd p then recover_line (note_unexpected (str ''end of line'') p) else p))
        | PErr p \<Rightarrow> POk (Inl ms) (bump_if_at pos0 (resume_at_definition p)))"

definition members :: "subs \<Rightarrow> type_kind \<Rightarrow> member list parse" where
  "members R tk = loop (members_round R tk) []"

definition type_def :: "subs \<Rightarrow> type_kind \<Rightarrow> rtext option \<Rightarrow> type_def parse" where
  "type_def R tk doc p =
     (let keyword = peek p in
      andthen (const_name (str ''a capitalized name'')) (\<lambda>name.
      andthen (options R) (\<lambda>opts.
      andthen (members R tk) (\<lambda>ms.
        let what = (case tk_kind keyword of TKw w \<Rightarrow> str (as_str w) | _ \<Rightarrow> str ''type'') in
        andthen (expect_end (tk_span keyword) what) (\<lambda>e.
          POk \<lparr>td_kind = tk, td_doc = doc, td_name = name, td_options = opts, td_members = ms,
               td_span = span_to (tk_span keyword) e\<rparr>)))) (bump p))"

subsection \<open>Programs\<close>

definition type_keyword :: "keyword \<Rightarrow> type_kind option" where
  "type_keyword w =
     (if w = KStruct then Some TkStruct else if w = KClass then Some TkClass else if w = KModule then Some TkModule
      else if w = KEnum then Some TkEnum else if w = KAgent then Some TkAgent
      else if w = KSupervisor then Some TkSupervisor else None)"

definition item :: "subs \<Rightarrow> item parse" where
  "item R p =
     (let doc = doc_for (pr_docs p) (cur_span p) in
      case kind p of
        TKw w \<Rightarrow>
          (if w \<in> {KDef, KAbstract, KPrompt, KTool, KWorkflow} then pmap IFn (fn_def R doc) p
           else (case type_keyword w of
                   Some tk \<Rightarrow> pmap IType (type_def R tk doc) p
                 | None \<Rightarrow> pmap IStmt (s_stmt R) p))
      | TIdent name \<Rightarrow>
          (if name = str ''native'' \<and> nth_kind 1 p = TKw KDef then pmap IFn (fn_def R doc) p
           else if name = str ''model'' \<and> (case nth_kind 1 p of TSymbol _ \<Rightarrow> True | _ \<Rightarrow> False)
             then pmap IModel (model_decl R) p
           else if name = str ''macro'' \<and> (case nth_kind 1 p of TIdent _ \<Rightarrow> True | _ \<Rightarrow> False)
             then pmap IMacro (macro_def doc) p
           else pmap IStmt (s_stmt R) p)
      | TConst _ \<Rightarrow>
          (if nth_kind 1 p = TEq then pmap (\<lambda>d. IFn (d\<lparr>fn_on_self := False\<rparr>)) (constant_fn R doc) p
           else pmap IStmt (s_stmt R) p)
      | _ \<Rightarrow> pmap IStmt (s_stmt R) p)"

text \<open>After a \<open>native def\<close>: where the statements that follow it start, if any.\<close>

definition after_native_of :: "item \<Rightarrow> span option option \<Rightarrow> span option option" where
  "after_native_of i after = (case i of
     IFn d \<Rightarrow> if fn_kind d = FkNative then Some None else None
   | IStmt e \<Rightarrow> map_option (\<lambda>start. Some (case start of None \<Rightarrow> ex_span e | Some s \<Rightarrow> s)) after
   | _ \<Rightarrow> None)"

definition program_round :: "subs \<Rightarrow> item list \<times> span option option
    \<Rightarrow> (item list \<times> span option option + item list) parse" where
  "program_round R acc p =
     (let (items, after) = acc; p = skip_newlines p in
      if at TEof p \<or> MAX_DIAGNOSTICS \<le> length (pr_diags p) then POk (Inr items) p
      else case (after, at_kw KEnd p) of
        (Some start, True) \<Rightarrow>
          let e = cur_span p; p = bump p;
              s = (case start of None \<Rightarrow> e | Some s \<Rightarrow> span_to s e)
          in POk (Inl (items, None)) (report (diagnostic_new s [Txt NATIVE_WITHOUT_BODY]) p)
      | _ \<Rightarrow>
          let pos0 = pr_pos p; p = p\<lparr>pr_misaligned_end := None\<rparr> in
          (case item R p of
             Diverge \<Rightarrow> Diverge
           | Panic \<Rightarrow> Panic
           | POk i p \<Rightarrow>
               POk (Inl (items @ [i], after_native_of i after)) (bump_if_at pos0
                 (if \<not> at_line_end p then recover_line (note_unexpected (str ''end of line'') p) else p))
           | PErr p \<Rightarrow> POk (Inl (items, after)) (bump_if_at pos0 (resume_at_definition p))))"

definition program :: "subs \<Rightarrow> program parse" where
  "program R = loop (program_round R) ([], None)"

text \<open>\<open>parse\<close>: the program, and the lexer's errors before the parser's.\<close>

record parsed =
  ps_program :: program
  ps_diagnostics :: "diagnostic list"

definition parse_tokens :: "doc_table \<Rightarrow> token list \<Rightarrow> program pres" where
  "parse_tokens docs toks = program (knot (parse_fuel toks)) (parser_new toks docs)"

definition parse :: "std_env \<Rightarrow> rtext \<Rightarrow> parsed option" where
  "parse u src = (case lex_text u src of
     None \<Rightarrow> None
   | Some lexed \<Rightarrow>
       let lex_diags = map (\<lambda>e. diagnostic_new (le_span e) [Txt (le_message e)]) (ld_errors lexed);
           docs = doc_table_new src (ld_comments lexed)
       in case parse_tokens docs (ld_tokens lexed) of
            POk prog p \<Rightarrow> Some \<lparr>ps_program = prog, ps_diagnostics = lex_diags @ pr_diags p\<rparr>
          | _ \<Rightarrow> None)"

text \<open>Macro expansions: every token, those of interpolations too, gets the span of the invocation.\<close>

fun relocate_token :: "span \<Rightarrow> token \<Rightarrow> token"
  and relocate_part :: "span \<Rightarrow> str_part \<Rightarrow> str_part" where
  "relocate_token s (Token k old b) =
     Token (case k of TStr parts \<Rightarrow> TStr (map (relocate_part s) parts) | _ \<Rightarrow> k) s b"
| "relocate_part s (SLit t) = SLit t"
| "relocate_part s (SInterp inner old) = SInterp (map (relocate_token s) inner) s"

definition parse_expansion :: "std_env \<Rightarrow> rtext \<Rightarrow> span \<Rightarrow> parsed option" where
  "parse_expansion u src s = (case lex_text u src of
     None \<Rightarrow> None
   | Some lexed \<Rightarrow>
       let lex_diags = map (\<lambda>e. diagnostic_new s [Txt (le_message e)]) (ld_errors lexed);
           toks = map (relocate_token s) (ld_tokens lexed)
       in case parse_tokens (doc_table_new [] []) toks of
            POk prog p \<Rightarrow> Some \<lparr>ps_program = prog,
              ps_diagnostics = lex_diags @ map (\<lambda>d. d\<lparr>dg_span := s, dg_notes := []\<rparr>) (pr_diags p)\<rparr>
          | _ \<Rightarrow> None)"

end
