(* ===== verification/Ast_Ok.thy ===== *)
theory Ast_Ok
  imports Parse_Items
begin

text \<open>
  The invariant of the syntax trees the parser makes: what later stages rely on and the types of
  the tree do not say.
\<close>

subsection \<open>Types and patterns\<close>

primrec ty_ok :: "ty \<Rightarrow> bool" where
  "ty_ok (TyNamed path args s) \<longleftrightarrow> path \<noteq> [] \<and> list_all ty_ok args"
| "ty_ok (TyOptional t s) \<longleftrightarrow> ty_ok t"
| "ty_ok (TyTainted t s) \<longleftrightarrow> ty_ok t"
| "ty_ok (TySize n s) \<longleftrightarrow> True"

text \<open>Alternatives are at least two; the path of a constant is not empty; \<open>P\<close> holds of the literals.\<close>

primrec pattern_kind_ok :: "('e \<Rightarrow> bool) \<Rightarrow> 'e pattern_kind \<Rightarrow> bool"
  and pattern_ok :: "('e \<Rightarrow> bool) \<Rightarrow> 'e pattern \<Rightarrow> bool"
  and pat_field_ok :: "('e \<Rightarrow> bool) \<Rightarrow> 'e pat_field \<Rightarrow> bool" where
  "pattern_kind_ok P PWildcard \<longleftrightarrow> True"
| "pattern_kind_ok P (PBind x) \<longleftrightarrow> True"
| "pattern_kind_ok P (PLit e) \<longleftrightarrow> P e"
| "pattern_kind_ok P (PConst path fs) \<longleftrightarrow>
     path \<noteq> [] \<and> pred_option (list_all id) (map_option (map (pat_field_ok P)) fs)"
| "pattern_kind_ok P (PArray ps) \<longleftrightarrow> list_all (pattern_ok P) ps"
| "pattern_kind_ok P (POr ps) \<longleftrightarrow> 2 \<le> length ps \<and> list_all (pattern_ok P) ps"
| "pattern_ok P (Pattern k s) \<longleftrightarrow> pattern_kind_ok P k"
| "pat_field_ok P (PatField name p) \<longleftrightarrow> pattern_ok P p"

subsection \<open>Parts of expressions\<close>

definition param_ok :: "('e \<Rightarrow> bool) \<Rightarrow> 'e param \<Rightarrow> bool" where
  "param_ok P p \<longleftrightarrow> pred_option ty_ok (pm_ty p) \<and> pred_option P (pm_default p)"

definition rescue_ok :: "('e \<Rightarrow> bool) \<Rightarrow> 'e rescue \<Rightarrow> bool" where
  "rescue_ok P r \<longleftrightarrow> list_all ty_ok (rs_types r) \<and> list_all P (rs_body r)"

definition body_ok :: "('e \<Rightarrow> bool) \<Rightarrow> 'e body \<Rightarrow> bool" where
  "body_ok P b \<longleftrightarrow>
     list_all P (bd_stmts b) \<and> list_all (rescue_ok P) (bd_rescues b) \<and> pred_option (list_all P) (bd_ensure b)"

definition block_ok :: "('e \<Rightarrow> bool) \<Rightarrow> 'e block \<Rightarrow> bool" where
  "block_ok P b \<longleftrightarrow> list_all (param_ok P) (bk_params b) \<and> body_ok P (bk_body b)"

definition arm_test_ok :: "('e \<Rightarrow> bool) \<Rightarrow> 'e arm_test \<Rightarrow> bool" where
  "arm_test_ok P t = (case t of ArmIn p \<Rightarrow> pattern_ok P p | ArmWhen es \<Rightarrow> es \<noteq> [] \<and> list_all P es)"

definition case_arm_ok :: "('e \<Rightarrow> bool) \<Rightarrow> 'e case_arm \<Rightarrow> bool" where
  "case_arm_ok P a \<longleftrightarrow>
     arm_test_ok P (ca_test a) \<and> pred_option P (ca_guard a) \<and> list_all P (ca_body a)"

definition is_variable :: "expr \<Rightarrow> bool" where
  "is_variable e = (case ex_kind e of EVar _ \<Rightarrow> True | EIVar _ \<Rightarrow> True | _ \<Rightarrow> False)"

subsection \<open>Expressions\<close>

text \<open>
  Integers are values of an i64; paths are not empty; an assignment's target can be assigned to,
  and several targets are at least two variables; a safe call has a receiver.
\<close>

primrec kind_ok :: "expr_kind \<Rightarrow> bool"
  and expr_ok :: "expr \<Rightarrow> bool" where
  "kind_ok (EInt n) \<longleftrightarrow> i64_min \<le> n \<and> n \<le> i64_max"
| "kind_ok (EFloat x) \<longleftrightarrow> True"
| "kind_ok (EStr segs) \<longleftrightarrow> list_all (pred_str_seg id) (map (map_str_seg expr_ok) segs)"
| "kind_ok (ESymbol x) \<longleftrightarrow> True"
| "kind_ok (EBool b) \<longleftrightarrow> True"
| "kind_ok ENil \<longleftrightarrow> True"
| "kind_ok ESelfRef \<longleftrightarrow> True"
| "kind_ok (EArray es) \<longleftrightarrow> list_all expr_ok es"
| "kind_ok (EHash es) \<longleftrightarrow> list_all (pred_prod id id) (map (map_prod expr_ok expr_ok) es)"
| "kind_ok (ERange lo hi inclusive) \<longleftrightarrow> expr_ok lo \<and> expr_ok hi"
| "kind_ok (EVar x) \<longleftrightarrow> True"
| "kind_ok (EConst path) \<longleftrightarrow> path \<noteq> []"
| "kind_ok (EIVar x) \<longleftrightarrow> True"
| "kind_ok EIt \<longleftrightarrow> True"
| "kind_ok (ECall recv name args block safe parens) \<longleftrightarrow>
     pred_option id (map_option expr_ok recv) \<and> list_all (pred_arg id) (map (map_arg expr_ok) args) \<and>
     pred_option (block_ok id) (map_option (map_block expr_ok) block) \<and> (safe \<longrightarrow> recv \<noteq> None)"
| "kind_ok (EIndex e args) \<longleftrightarrow> expr_ok e \<and> list_all expr_ok args"
| "kind_ok (EUnary op e) \<longleftrightarrow> expr_ok e"
| "kind_ok (EBinary op a b) \<longleftrightarrow> expr_ok a \<and> expr_ok b"
| "kind_ok (ETry e) \<longleftrightarrow> expr_ok e"
| "kind_ok (EAssign target v) \<longleftrightarrow> is_assignable target \<and> expr_ok target \<and> expr_ok v"
| "kind_ok (EOpAssign op target v) \<longleftrightarrow> is_assignable target \<and> expr_ok target \<and> expr_ok v"
| "kind_ok (EMultiAssign targets v) \<longleftrightarrow> 2 \<le> length targets \<and> list_all is_variable targets \<and> expr_ok v"
| "kind_ok (EIf c t e) \<longleftrightarrow> expr_ok c \<and> list_all expr_ok t \<and> pred_option (list_all id) (map_option (map expr_ok) e)"
| "kind_ok (EWhile c es) \<longleftrightarrow> expr_ok c \<and> list_all expr_ok es"
| "kind_ok (ECase subject arms e) \<longleftrightarrow>
     pred_option id (map_option expr_ok subject) \<and> list_all (case_arm_ok id) (map (map_case_arm expr_ok) arms) \<and>
     pred_option (list_all id) (map_option (map expr_ok) e)"
| "kind_ok (EBegin b) \<longleftrightarrow> body_ok id (map_body expr_ok b)"
| "kind_ok (EReturn e) \<longleftrightarrow> pred_option id (map_option expr_ok e)"
| "kind_ok (EBreak e) \<longleftrightarrow> pred_option id (map_option expr_ok e)"
| "kind_ok (ENext e) \<longleftrightarrow> pred_option id (map_option expr_ok e)"
| "expr_ok (Expr k s) \<longleftrightarrow> kind_ok k"

subsection \<open>The equations over nested parts\<close>

lemma pred_map_id [simp]:
  "pred_option id (map_option f x) = pred_option f x"
  "list_all id (map f xs) = list_all f xs"
  "pred_str_seg id (map_str_seg f g) = pred_str_seg f g"
  "pred_arg id (map_arg f a) = pred_arg f a"
  "pred_prod id id (map_prod f f c) = pred_prod f f c"
  by (simp_all add: option.pred_map list.pred_map str_seg.pred_map arg.pred_map prod.pred_map)

lemma pattern_ok_map [simp]:
  "pattern_kind_ok id (map_pattern_kind f k) = pattern_kind_ok f k"
  "pattern_ok id (map_pattern f p) = pattern_ok f p"
  "pat_field_ok id (map_pat_field f d) = pat_field_ok f d"
proof (induction k and p and d)
  case (PConst path fs)
  then show ?case by (cases fs) (auto simp: list_all_iff)
qed (auto simp: list_all_iff)

lemma parts_ok_map [simp]:
  "param_ok id (map_param f p) = param_ok f p"
  "rescue_ok id (map_rescue f r) = rescue_ok f r"
  "body_ok id (map_body f b) = body_ok f b"
  "block_ok id (map_block f k) = block_ok f k"
  "arm_test_ok id (map_arm_test f t) = arm_test_ok f t"
  "case_arm_ok id (map_case_arm f a) = case_arm_ok f a"
proof -
  show param: "param_ok id (map_param f p) = param_ok f p" for p
    by (cases p) (simp add: param_ok_def)
  show rescue: "rescue_ok id (map_rescue f r) = rescue_ok f r" for r
    by (cases r) (simp add: rescue_ok_def)
  show body: "body_ok id (map_body f b) = body_ok f b" for b
    by (cases b) (simp add: body_ok_def list.pred_map option.pred_map o_def rescue)
  show "block_ok id (map_block f k) = block_ok f k"
    by (cases k) (simp add: block_ok_def list.pred_map o_def param body)
  show test: "arm_test_ok id (map_arm_test f t) = arm_test_ok f t" for t
    by (cases t) (simp_all add: arm_test_ok_def)
  show "case_arm_ok id (map_case_arm f a) = case_arm_ok f a"
    by (cases a) (simp add: case_arm_ok_def test)
qed

lemma kind_ok_parts [simp]:
  "kind_ok (EStr segs) \<longleftrightarrow> list_all (pred_str_seg expr_ok) segs"
  "kind_ok (EHash es) \<longleftrightarrow> list_all (pred_prod expr_ok expr_ok) es"
  "kind_ok (ECall recv name args block safe parens) \<longleftrightarrow>
     pred_option expr_ok recv \<and> list_all (pred_arg expr_ok) args \<and>
     pred_option (block_ok expr_ok) block \<and> (safe \<longrightarrow> recv \<noteq> None)"
  "kind_ok (EIf c t e) \<longleftrightarrow> expr_ok c \<and> list_all expr_ok t \<and> pred_option (list_all expr_ok) e"
  "kind_ok (ECase subject arms e) \<longleftrightarrow>
     pred_option expr_ok subject \<and> list_all (case_arm_ok expr_ok) arms \<and> pred_option (list_all expr_ok) e"
  "kind_ok (EBegin b) \<longleftrightarrow> body_ok expr_ok b"
  by (simp_all add: list.pred_map option.pred_map o_def)

declare kind_ok.simps(3,9,15,23,25,26) [simp del]

lemma kind_ok_ex_kind [simp]: "kind_ok (ex_kind e) = expr_ok e"
  by (cases e) simp

end
