(* ===== verification/Parse_Spec.thy ===== *)
theory Parse_Spec
  imports Ast_Ok
begin

text \<open>
  The contract of a parse function, and the rules that sequence contracts. From a well-formed parser
  a function ends, does not panic, leaves the tokens and the flags as they were and the position in
  range, keeps the diagnostics there were, and has reported one when it fails.
\<close>

subsection \<open>Well-formed parsers\<close>

fun token_ok :: "token \<Rightarrow> bool"
  and str_part_ok :: "str_part \<Rightarrow> bool" where
  "token_ok (Token k s b) \<longleftrightarrow> (case k of
     TInt n \<Rightarrow> 0 \<le> n \<and> n \<le> i64_max | TStr ps \<Rightarrow> list_all str_part_ok ps | _ \<Rightarrow> True)"
| "str_part_ok (SLit t) \<longleftrightarrow> True"
| "str_part_ok (SInterp ts s) \<longleftrightarrow> tokens_end ts \<and> list_all token_ok ts"

definition parser_ok :: "parser \<Rightarrow> bool" where
  "parser_ok p \<longleftrightarrow> tokens_end (pr_toks p) \<and> list_all token_ok (pr_toks p) \<and> pr_pos p < length (pr_toks p)"

definition weight :: "parser \<Rightarrow> nat" where
  "weight p = tokens_weight (drop (pr_pos p) (pr_toks p))"

definition fits :: "nat \<Rightarrow> parser \<Rightarrow> bool" where
  "fits n p \<longleftrightarrow> parser_ok p \<and> weight p < n"

text \<open>\<open>ext p q\<close>: \<open>q\<close> comes after \<open>p\<close>.\<close>

definition ext :: "parser \<Rightarrow> parser \<Rightarrow> bool" where
  "ext p q \<longleftrightarrow> pr_toks q = pr_toks p \<and> pr_docs q = pr_docs p \<and> pr_no_do q = pr_no_do p \<and>
     pr_in_index q = pr_in_index p \<and> pr_pos p \<le> pr_pos q \<and> pr_pos q < length (pr_toks p) \<and>
     length (pr_diags p) \<le> length (pr_diags q)"

definition spec :: "parser \<Rightarrow> 'a pres \<Rightarrow> ('a \<Rightarrow> parser \<Rightarrow> bool) \<Rightarrow> bool" where
  "spec p r Q \<longleftrightarrow> (case r of
     Diverge \<Rightarrow> False | Panic \<Rightarrow> False
   | PErr q \<Rightarrow> ext p q \<and> pr_diags q \<noteq> []
   | POk a q \<Rightarrow> ext p q \<and> Q a q)"

text \<open>What most functions promise: a well-formed result, and that they passed a token.\<close>

definition gives :: "('a \<Rightarrow> bool) \<Rightarrow> parser \<Rightarrow> 'a \<Rightarrow> parser \<Rightarrow> bool" where
  "gives P p a q \<longleftrightarrow> P a \<and> pr_pos p < pr_pos q"

lemma tokens_endD:
  assumes "tokens_end ts" "i < length ts"
  shows "tk_kind (ts ! i) = TEof \<longleftrightarrow> i = length ts - 1"
proof (cases "i = length ts - 1")
  case True
  with assms last_conv_nth [of ts] show ?thesis by (auto simp: tokens_end_def)
next
  case False
  with assms(2) have "i < length (butlast ts)" by simp
  then have "ts ! i \<in> set (butlast ts)" by (metis nth_butlast nth_mem)
  with assms(1) False show ?thesis by (auto simp: tokens_end_def)
qed

lemma kind_eof: "parser_ok p \<Longrightarrow> kind p = TEof \<longleftrightarrow> pr_pos p = length (pr_toks p) - 1"
  by (simp add: parser_ok_def kind_def peek_def tokens_endD)

lemma ext_refl: "parser_ok p \<Longrightarrow> ext p p"
  by (simp add: ext_def parser_ok_def)

lemma ext_trans: "ext p q \<Longrightarrow> ext q r \<Longrightarrow> ext p r"
  by (auto simp: ext_def)

lemma ext_ok: "parser_ok p \<Longrightarrow> ext p q \<Longrightarrow> parser_ok q"
  by (simp add: ext_def parser_ok_def)

lemma ext_pos: "ext p q \<Longrightarrow> pr_pos p \<le> pr_pos q"
  by (simp add: ext_def)

lemma weight_le: "ext p q \<Longrightarrow> weight q \<le> weight p"
proof -
  assume e: "ext p q"
  then obtain k where k: "pr_pos q = pr_pos p + k" by (auto simp: ext_def le_iff_add)
  have "tokens_weight (drop (pr_pos p + k) ts) \<le> tokens_weight (drop (pr_pos p) ts)" for ts
    by (metis add.commute append_take_drop_id drop_drop le_add2 map_append sum_list_append tokens_weight_def)
  with e k show ?thesis by (simp add: weight_def ext_def)
qed

lemma token_weight_pos: "0 < token_weight t"
  by (cases t) simp

lemma weight_less: "ext p q \<Longrightarrow> pr_pos p < pr_pos q \<Longrightarrow> weight q < weight p"
proof -
  assume e: "ext p q" and lt: "pr_pos p < pr_pos q"
  define q' where "q' = p\<lparr>pr_pos := Suc (pr_pos p)\<rparr>"
  have "ext q' q" using e lt by (simp add: ext_def q'_def)
  then have "weight q \<le> weight q'" by (rule weight_le)
  moreover have "drop (pr_pos p) (pr_toks p) = pr_toks p ! pr_pos p # drop (Suc (pr_pos p)) (pr_toks p)"
    using e by (intro Cons_nth_drop_Suc [symmetric]) (auto simp: ext_def)
  then have "weight q' < weight p" by (simp add: weight_def q'_def tokens_weight_def token_weight_pos)
  ultimately show ?thesis by simp
qed

lemma fits_ext: "fits n p \<Longrightarrow> ext p q \<Longrightarrow> fits n q"
  using weight_le [of p q] by (auto simp: fits_def intro: ext_ok)

lemma fits_less: "fits (Suc n) p \<Longrightarrow> ext p q \<Longrightarrow> pr_pos p < pr_pos q \<Longrightarrow> fits n q"
  using weight_less [of p q] by (auto simp: fits_def intro: ext_ok)

lemma fits_ok: "fits n p \<Longrightarrow> parser_ok p"
  by (simp add: fits_def)

lemma fits_Suc: "fits n p \<Longrightarrow> fits (Suc n) p"
  by (simp add: fits_def)

subsection \<open>Rules of the contracts\<close>

lemma spec_weaken:
  "spec p r G \<Longrightarrow> ext p0 p \<Longrightarrow> (\<And>a q. ext p q \<Longrightarrow> ext p0 q \<Longrightarrow> G a q \<Longrightarrow> Q a q) \<Longrightarrow> spec p0 r Q"
  by (cases r) (auto simp: spec_def intro: ext_trans)

lemma spec_POk [simp]: "spec p (POk a q) Q \<longleftrightarrow> ext p q \<and> Q a q"
  by (simp add: spec_def)

lemma spec_andthen: "spec p (m q) (\<lambda>a r. spec p (f a r) Q) \<Longrightarrow> spec p (andthen m f q) Q"
  by (cases "m q") (auto simp: spec_def andthen_def)

lemma spec_pmap: "spec p (m q) (\<lambda>a. Q (f a)) \<Longrightarrow> spec p (pmap f m q) Q"
  by (auto simp: pmap_def intro!: spec_andthen) (auto simp: spec_def split: pres.splits)

subsection \<open>Elementary operations\<close>

lemma bump_sel [simp]:
  "pr_toks (bump p) = pr_toks p" "pr_docs (bump p) = pr_docs p" "pr_no_do (bump p) = pr_no_do p"
  "pr_in_index (bump p) = pr_in_index p" "pr_diags (bump p) = pr_diags p"
  "pr_misaligned_end (bump p) = pr_misaligned_end p"
  by (simp_all add: bump_def)

lemma bump_ext: "parser_ok p \<Longrightarrow> ext p (bump p)"
  by (auto simp: ext_def parser_ok_def bump_def)

lemma bump_pos: "parser_ok p \<Longrightarrow> kind p \<noteq> TEof \<Longrightarrow> pr_pos (bump p) = Suc (pr_pos p)"
  using kind_eof [of p] by (auto simp: bump_def parser_ok_def)

lemma takeWhile_bound:
  "\<not> P (tk_kind (last ts)) \<Longrightarrow> i < length ts \<Longrightarrow> i + length (takeWhile (\<lambda>t. P (tk_kind t)) (drop i ts)) < length ts"
proof -
  assume last: "\<not> P (tk_kind (last ts))" and i: "i < length ts"
  then have l: "last (drop i ts) = last ts" and ne: "drop i ts \<noteq> []" by (simp_all add: last_drop)
  have "last (drop i ts) \<in> set (drop i ts)" using ne by (rule last_in_set)
  moreover have "\<not> P (tk_kind (last (drop i ts)))" using last unfolding l .
  ultimately have "length (takeWhile (\<lambda>t. P (tk_kind t)) (drop i ts)) < length (drop i ts)"
    by (metis length_takeWhile_le nat_less_le set_takeWhileD takeWhile_eq_take take_all_iff)
  with i show ?thesis by simp
qed

lemma bump_while_ext: "parser_ok p \<Longrightarrow> \<not> P TEof \<Longrightarrow> ext p (bump_while P p)"
  using takeWhile_bound [of P "pr_toks p" "pr_pos p"]
  by (simp add: ext_def bump_while_def parser_ok_def tokens_end_def)

lemma bump_while_sel [simp]:
  "pr_toks (bump_while P p) = pr_toks p" "pr_docs (bump_while P p) = pr_docs p"
  "pr_no_do (bump_while P p) = pr_no_do p" "pr_in_index (bump_while P p) = pr_in_index p"
  "pr_diags (bump_while P p) = pr_diags p"
  by (simp_all add: bump_while_def)

lemma skip_ext: "parser_ok p \<Longrightarrow> ext p (skip_newlines p)"
  by (simp add: skip_newlines_def bump_while_ext)

lemma recover_ext: "parser_ok p \<Longrightarrow> ext p (recover_line p)"
  by (simp add: recover_line_def bump_while_ext)

lemma eat_ext: "parser_ok p \<Longrightarrow> ext p (snd (eat k p))" "parser_ok p \<Longrightarrow> ext p (snd (eat_kw w p))"
  by (simp_all add: eat_kw_def eat_def bump_ext ext_refl)

lemma report_ext: "parser_ok p \<Longrightarrow> ext p (report d p)"
  by (simp add: report_def ext_def parser_ok_def)

lemma report_some [simp]: "pr_diags (report d p) \<noteq> []"
  by (auto simp: report_def MAX_DIAGNOSTICS_def)

lemma note_unexpected_ext: "parser_ok p \<Longrightarrow> ext p (note_unexpected m p)"
  by (simp add: note_unexpected_def report_ext)

lemma spec_fail: "parser_ok p \<Longrightarrow> spec p (fail s m p) Q"
  by (simp add: spec_def fail_def report_ext)

lemma spec_unexpected: "parser_ok p \<Longrightarrow> spec p (unexpected m p) Q"
  by (simp add: unexpected_def spec_fail)

text \<open>The flags: what is lent to a function is given back.\<close>

lemma spec_with_do:
  assumes "spec (p\<lparr>pr_no_do := \<not> b\<rparr>) (f (p\<lparr>pr_no_do := \<not> b\<rparr>)) (\<lambda>a q. Q a (q\<lparr>pr_no_do := pr_no_do p\<rparr>))"
  shows "spec p (with_do b f p) Q"
  using assms by (cases "f (p\<lparr>pr_no_do := \<not> b\<rparr>)") (auto simp: spec_def with_do_def on_parser_def ext_def)

lemma spec_in_index:
  assumes "spec (p\<lparr>pr_in_index := b\<rparr>) (f (p\<lparr>pr_in_index := b\<rparr>)) (\<lambda>a q. Q a (q\<lparr>pr_in_index := pr_in_index p\<rparr>))"
  shows "spec p (on_parser (\<lambda>q. q\<lparr>pr_in_index := pr_in_index p\<rparr>) (f (p\<lparr>pr_in_index := b\<rparr>))) Q"
  using assms by (cases "f (p\<lparr>pr_in_index := b\<rparr>)") (auto simp: spec_def on_parser_def ext_def)

lemma fits_flags [simp]:
  "fits n (p\<lparr>pr_no_do := b\<rparr>) = fits n p" "fits n (p\<lparr>pr_in_index := b\<rparr>) = fits n p"
  by (simp_all add: fits_def parser_ok_def weight_def)

text \<open>A loop, by an invariant: a round that goes on passes a token.\<close>

definition round_ok :: "parser \<Rightarrow> ('a \<Rightarrow> parser \<Rightarrow> bool) \<Rightarrow> ('b \<Rightarrow> parser \<Rightarrow> bool) \<Rightarrow> 'a + 'b \<Rightarrow> parser \<Rightarrow> bool" where
  "round_ok p I Q r q = (case r of Inl a \<Rightarrow> I a q \<and> pr_pos p < pr_pos q | Inr b \<Rightarrow> Q b q)"

lemma round_ok_simps [simp]:
  "round_ok p I Q (Inl a) q \<longleftrightarrow> I a q \<and> pr_pos p < pr_pos q"
  "round_ok p I Q (Inr b) q \<longleftrightarrow> Q b q"
  by (simp_all add: round_ok_def)

lemma spec_loopP:
  assumes "\<And>a q. ext p q \<Longrightarrow> I a q \<Longrightarrow> spec q (f a q) (round_ok q I Q)"
  shows "ext p q \<Longrightarrow> I a q \<Longrightarrow> length (pr_toks q) - pr_pos q < n \<Longrightarrow> spec q (loopP n f a q) Q"
proof (induction n arbitrary: a q)
  case (Suc n)
  from assms [OF Suc.prems(1,2)] have "spec q (f a q) (round_ok q I Q)" .
  then show ?case
  proof (simp, intro spec_andthen, elim spec_weaken)
    show "ext q q" using Suc.prems(1) by (simp add: ext_def)
    fix r q'
    assume e: "ext q q'" and r: "round_ok q I Q r q'"
    show "spec q (case r of Inl a' \<Rightarrow> loopP n f a' q' | Inr b \<Rightarrow> POk b q') Q"
    proof (cases r)
      case (Inl a')
      with r have "I a' q'" "pr_pos q < pr_pos q'" by simp_all
      moreover from this e Suc.prems(3) have "length (pr_toks q') - pr_pos q' < n" by (auto simp: ext_def)
      ultimately have "spec q' (loopP n f a' q') Q" using Suc.IH ext_trans [OF Suc.prems(1) e] by blast
      then show ?thesis using e Inl by (auto elim: spec_weaken)
    next
      case (Inr b)
      with r e show ?thesis by simp
    qed
  qed
qed simp

lemma spec_loop:
  assumes "parser_ok p" "I a p" "\<And>a q. ext p q \<Longrightarrow> I a q \<Longrightarrow> spec q (f a q) (round_ok q I Q)"
  shows "spec p (loop f a p) Q"
  unfolding loop_def by (rule spec_loopP [of p I f Q]) (use assms ext_refl in auto)

subsection \<open>Names and punctuation\<close>

lemma spec_expect: "parser_ok p \<Longrightarrow> k \<noteq> TEof \<Longrightarrow> spec p (expect k m p) (gives (\<lambda>_. True) p)"
  by (auto simp: expect_def spec_unexpected bump_ext bump_pos gives_def at_def)

lemma spec_ident: "parser_ok p \<Longrightarrow> spec p (ident m p) (gives (\<lambda>_. True) p)"
  by (auto simp: ident_def spec_unexpected bump_ext bump_pos gives_def split: token_kind.split)

lemma spec_const_name: "parser_ok p \<Longrightarrow> spec p (const_name m p) (gives (\<lambda>_. True) p)"
  by (auto simp: const_name_def spec_unexpected bump_ext bump_pos gives_def split: token_kind.split)

lemma spec_method_name: "parser_ok p \<Longrightarrow> spec p (method_name p) (gives (\<lambda>_. True) p)"
  by (auto simp: method_name_def spec_unexpected bump_ext bump_pos gives_def split: token_kind.split)

lemma misaligned_sel [simp]:
  "ext p (q\<lparr>pr_misaligned_end := m\<rparr>) = ext p q" "parser_ok (p\<lparr>pr_misaligned_end := m\<rparr>) = parser_ok p"
  by (simp_all add: ext_def parser_ok_def)

lemma report_misaligned_ext: "parser_ok p \<Longrightarrow> ext p (report d (p\<lparr>pr_misaligned_end := m\<rparr>))"
  by (simp add: report_def ext_def parser_ok_def)

lemma spec_expect_end:
  assumes "parser_ok p"
  shows "spec p (expect_end opener what p) (gives (\<lambda>_. True) p)"
proof (cases "at_kw KEnd p")
  case True
  with assms bump_ext [of p] bump_pos [of p] show ?thesis
    by (simp add: expect_end_def Let_def gives_def at_kw_def)
next
  case False
  with assms show ?thesis
    unfolding expect_end_def Let_def
    by (cases "pr_misaligned_end p") (auto simp: spec_def report_ext report_misaligned_ext split: prod.splits)
qed

subsection \<open>Calls, in the form the proofs of the parse functions use\<close>

text \<open>
  \<open>ran p0 p q\<close>: what is known after a call at \<open>p\<close> that ended at \<open>q\<close>, in a run that started at \<open>p0\<close>.
\<close>

lemma spec_call:
  assumes "spec p r G" "fits m p" "ext p0 p"
    and "\<And>a q. ext p0 q \<Longrightarrow> fits m q \<Longrightarrow> pr_pos p \<le> pr_pos q \<Longrightarrow> G a q \<Longrightarrow> Q a q"
  shows "spec p0 r Q"
  using assms(1,3) by (rule spec_weaken) (use assms in \<open>auto intro: fits_ext ext_pos\<close>)

lemma loop_call:
  assumes "fits m p" "ext p0 p" "I a p"
    and "\<And>a q. fits m q \<Longrightarrow> ext p q \<Longrightarrow> pr_pos p \<le> pr_pos q \<Longrightarrow> I a q \<Longrightarrow> spec q (f a q) (round_ok q I J)"
    and "\<And>a q. ext p0 q \<Longrightarrow> fits m q \<Longrightarrow> pr_pos p \<le> pr_pos q \<Longrightarrow> J a q \<Longrightarrow> Q a q"
  shows "spec p0 (loop f a p) Q"
proof (rule spec_call [where G = J])
  show "spec p (loop f a p) J"
    by (rule spec_loop [where I = I]) (use assms(1,3,4) in \<open>auto intro: fits_ok fits_ext ext_pos\<close>)
qed (use assms in auto)

lemma with_do_call:
  assumes "fits m p" "ext p0 p"
    and "spec (p\<lparr>pr_no_do := \<not> b\<rparr>) (f (p\<lparr>pr_no_do := \<not> b\<rparr>)) (\<lambda>a q. G a)"
    and "\<And>a q. ext p0 q \<Longrightarrow> fits m q \<Longrightarrow> pr_pos p \<le> pr_pos q \<Longrightarrow> G a \<Longrightarrow> Q a q"
  shows "spec p0 (with_do b f p) Q"
proof (rule spec_call [where G = "\<lambda>a q. G a"])
  show "spec p (with_do b f p) (\<lambda>a q. G a)" by (rule spec_with_do) (rule assms(3))
qed (use assms in auto)

text \<open>Simplification rules for the side conditions.\<close>

lemma fits_steps [simp]:
  "fits m p \<Longrightarrow> fits m (bump p)" "fits m p \<Longrightarrow> fits m (skip_newlines p)" "fits m p \<Longrightarrow> fits m (snd (eat_kw w p))"
  "fits m p \<Longrightarrow> fits m (recover_line p)" "fits m p \<Longrightarrow> fits m (report d p)"
  by (auto intro: fits_ext bump_ext skip_ext eat_ext recover_ext report_ext dest: fits_ok)

lemma ext_steps:
  "fits m p \<Longrightarrow> ext p0 p \<Longrightarrow> ext p0 (bump p)" "fits m p \<Longrightarrow> ext p0 p \<Longrightarrow> ext p0 (skip_newlines p)"
  "fits m p \<Longrightarrow> ext p0 p \<Longrightarrow> ext p0 (snd (eat_kw w p))"
  "fits m p \<Longrightarrow> ext p0 p \<Longrightarrow> ext p0 (recover_line p)" "fits m p \<Longrightarrow> ext p0 p \<Longrightarrow> ext p0 (report d p)"
  by (auto intro: ext_trans bump_ext skip_ext eat_ext recover_ext report_ext dest: fits_ok)

lemma ext_refl_fits: "fits m p \<Longrightarrow> ext p p"
  by (simp add: ext_refl fits_ok)

lemma pos_bump: "fits m p \<Longrightarrow> kind p \<noteq> TEof \<Longrightarrow> pr_pos (bump p) = Suc (pr_pos p)"
  by (simp add: bump_pos fits_ok)

lemma pos_steps [simp]:
  "i \<le> pr_pos p \<Longrightarrow> i \<le> pr_pos (bump p)" "i < pr_pos p \<Longrightarrow> i < pr_pos (bump p)"
  "i \<le> pr_pos p \<Longrightarrow> i \<le> pr_pos (skip_newlines p)" "i < pr_pos p \<Longrightarrow> i < pr_pos (skip_newlines p)"
  "i \<le> pr_pos p \<Longrightarrow> i \<le> pr_pos (recover_line p)" "i < pr_pos p \<Longrightarrow> i < pr_pos (recover_line p)"
  "i \<le> pr_pos p \<Longrightarrow> i \<le> pr_pos (snd (eat_kw w p))" "i < pr_pos p \<Longrightarrow> i < pr_pos (snd (eat_kw w p))"
  "pr_pos (report d p) = pr_pos p"
  by (auto simp: bump_def skip_newlines_def recover_line_def bump_while_def eat_kw_def eat_def report_def)

lemma pos_dests:
  "pr_pos (skip_newlines p) \<le> i \<Longrightarrow> pr_pos p \<le> i" "pr_pos (skip_newlines p) < i \<Longrightarrow> pr_pos p < i"
  "pr_pos (snd (eat_kw w p)) \<le> i \<Longrightarrow> pr_pos p \<le> i" "pr_pos (snd (eat_kw w p)) < i \<Longrightarrow> pr_pos p < i"
  by (auto simp: skip_newlines_def bump_while_def eat_kw_def eat_def bump_def split: if_splits)

lemmas at_defs = at_def at_tight_def at_kw_def at_ident_def

lemma name_calls:
  assumes "fits m p" "ext p0 p" "\<And>a q. ext p0 q \<Longrightarrow> fits m q \<Longrightarrow> pr_pos p \<le> pr_pos q \<Longrightarrow> gives (\<lambda>_. True) p a q \<Longrightarrow> Q a q"
  shows "spec p0 (ident e p) Q" and "spec p0 (const_name e p) Q" and "spec p0 (method_name p) Q"
proof -
  have call: "spec p r (gives (\<lambda>_. True) p) \<Longrightarrow> spec p0 r Q" for r
    by (erule spec_call [OF _ assms(1,2)]) (rule assms(3))
  show "spec p0 (ident e p) Q" "spec p0 (const_name e p) Q" "spec p0 (method_name p) Q"
    using assms(1) by (simp_all add: call spec_ident spec_const_name spec_method_name fits_ok)
qed

lemma expect_calls:
  assumes "fits m p" "ext p0 p" "\<And>a q. ext p0 q \<Longrightarrow> fits m q \<Longrightarrow> pr_pos p \<le> pr_pos q \<Longrightarrow> gives (\<lambda>_. True) p a q \<Longrightarrow> Q a q"
  shows "k \<noteq> TEof \<Longrightarrow> spec p0 (expect k e p) Q" and "spec p0 (expect_end s what p) Q"
proof -
  have call: "spec p r (gives (\<lambda>_. True) p) \<Longrightarrow> spec p0 r Q" for r
    by (erule spec_call [OF _ assms(1,2)]) (rule assms(3))
  show "k \<noteq> TEof \<Longrightarrow> spec p0 (expect k e p) Q" "spec p0 (expect_end s what p) Q"
    using assms(1) by (simp_all add: call spec_expect spec_expect_end fits_ok)
qed

lemma unexpected_call: "fits m p \<Longrightarrow> ext p0 p \<Longrightarrow> spec p0 (unexpected e p) Q"
  by (rule spec_weaken [OF spec_unexpected]) (auto simp: fits_ok)

lemma fail_call: "fits m p \<Longrightarrow> ext p0 p \<Longrightarrow> spec p0 (fail s e p) Q"
  by (rule spec_weaken [OF spec_fail]) (auto simp: fits_ok)

lemma spec_call_less:
  assumes "spec p r (gives P p)" "fits (Suc m) p" "ext p0 p"
    and "\<And>a q. ext p0 q \<Longrightarrow> fits m q \<Longrightarrow> pr_pos p < pr_pos q \<Longrightarrow> P a \<Longrightarrow> Q a q"
  shows "spec p0 r Q"
  using assms(1,3) by (rule spec_weaken) (use assms(2,4) in \<open>auto simp: gives_def intro: fits_less\<close>)

lemma fits_enter: "fits (Suc m) p \<Longrightarrow> kind p \<noteq> TEof \<Longrightarrow> fits m (bump p)"
  by (rule fits_less [of m p]) (auto simp: bump_ext bump_pos fits_ok)

end
