(* ===== verification/Parse_Total_Calls.thy ===== *)
theory Parse_Total_Calls
  imports Parse_Spec
begin

text \<open>
  The contracts of types, bodies, blocks and calls, proved in the locale of what the functions
  called back with fewer tokens promise.
\<close>

locale sub_parsers =
  fixes R :: subs and n :: nat
  assumes s_expr: "fits n p \<Longrightarrow> spec p (s_expr R p) (gives expr_ok p)"
    and s_ternary: "fits n p \<Longrightarrow> spec p (s_ternary R p) (gives expr_ok p)"
    and s_binary: "fits n p \<Longrightarrow> spec p (s_binary R min_bp p) (gives expr_ok p)"
    and s_unary: "fits n p \<Longrightarrow> spec p (s_unary R p) (gives expr_ok p)"
    and s_method_call: "fits n p \<Longrightarrow> expr_ok e \<Longrightarrow> spec p (s_method_call R e safe p) (gives expr_ok p)"
    and s_postfix_from: "fits n p \<Longrightarrow> expr_ok e \<Longrightarrow> spec p (s_postfix_from R e p) (\<lambda>a q. expr_ok a)"
    and s_elsif: "fits n p \<Longrightarrow> at_kw KElsif p \<Longrightarrow> spec p (s_elsif R p) (gives expr_ok p)"
    and s_not_expr: "fits n p \<Longrightarrow> spec p (s_not_expr R p) (gives expr_ok p)"
    and s_expr_stmt: "fits n p \<Longrightarrow> spec p (s_expr_stmt R p) (gives expr_ok p)"
    and s_stmt: "fits n p \<Longrightarrow> spec p (s_stmt R p) (gives expr_ok p)"
    and s_stmts_ok: "fits n p \<Longrightarrow> \<exists>es q. s_stmts R stops p = POk es q \<and> ext p q \<and> list_all expr_ok es"
    and s_ty: "fits n p \<Longrightarrow> spec p (s_ty R p) (gives ty_ok p)"
    and s_pattern: "fits n p \<Longrightarrow> spec p (s_pattern R p) (gives (pattern_ok expr_ok) p)"
begin

lemma s_stmts: "fits n p \<Longrightarrow> spec p (s_stmts R stops p) (\<lambda>a q. list_all expr_ok a)"
  using s_stmts_ok [of p stops] by (auto simp: spec_def)

lemmas sub_calls =
  s_expr [THEN spec_call] s_ternary [THEN spec_call] s_binary [THEN spec_call] s_unary [THEN spec_call]
  s_method_call [THEN spec_call] s_postfix_from [THEN spec_call] s_elsif [THEN spec_call] s_not_expr [THEN spec_call]
  s_expr_stmt [THEN spec_call] s_stmt [THEN spec_call] s_stmts [THEN spec_call] s_ty [THEN spec_call]
  s_pattern [THEN spec_call]

lemmas [simp] = less_Suc_eq_le ext_steps [where m = n] ext_refl_fits [where m = n] pos_bump [where m = n]

lemmas [simp] = fits_enter [where m = n] fits_Suc [where n = n]
  ext_steps [where m = "Suc n"] ext_refl_fits [where m = "Suc n"] pos_bump [where m = "Suc n"]

lemmas [dest!] = pos_dests

lemmas vc = spec_andthen spec_pmap expect_calls [where m = n] name_calls [where m = n]
  unexpected_call [where m = n] fail_call [where m = n] sub_calls [where m = n]

subsection \<open>Lists\<close>

lemma comma_list_spec:
  assumes p: "fits n p" and acc: "I acc" and close: "close \<noteq> TEof"
    and elem: "\<And>acc q. fits n q \<Longrightarrow> I acc \<Longrightarrow> spec q (elem acc q) (\<lambda>a _. I a)"
  shows "spec p (comma_list close e elem acc p) (gives I p)"
proof -
  have round: "spec q (comma_round close elem acc q) (round_ok q (\<lambda>a _. I a) (\<lambda>a _. I a))"
    if "fits n q" "I acc" for q acc
    using that by (auto simp: comma_round_def Let_def at_defs intro!: spec_andthen elem [THEN spec_call [where m = n]])
  show ?thesis
    unfolding comma_list_def
    by (rule spec_andthen, rule loop_call [where I = "\<lambda>a _. I a", OF p _ acc round])
      (use p close in \<open>auto simp: gives_def intro!: vc\<close>)
qed

lemma push_item_spec:
  "spec p (elem p) (\<lambda>a q. P a) \<Longrightarrow> list_all P xs \<Longrightarrow> spec p (push_item elem xs p) (\<lambda>a q. list_all P a)"
  unfolding push_item_def by (rule spec_pmap) (auto simp: spec_def split: pres.splits)

lemma gives_any: "spec p r (gives P q) \<Longrightarrow> spec p r (\<lambda>a _. P a)"
  by (auto simp: spec_def gives_def split: pres.splits)

subsection \<open>Types\<close>

lemma colon_path_spec:
  "fits n p \<Longrightarrow> path \<noteq> [] \<Longrightarrow> spec p (colon_path e path p) (\<lambda>path q. path \<noteq> [])"
  unfolding colon_path_def
  by (rule loop_call [where I = "\<lambda>path q. path \<noteq> []"]) (auto simp: at_defs gives_def intro!: vc)

lemma ty_arg_spec: "fits n p \<Longrightarrow> spec p (ty_arg R p) (gives ty_ok p)"
  by (cases "kind p") (auto simp: ty_arg_def gives_def s_ty)

lemma ty_args_spec: "fits n p \<Longrightarrow> spec p (ty_args R p) (\<lambda>a q. list_all ty_ok a)"
  unfolding ty_args_def
  by (auto simp: at_defs gives_def intro!: comma_list_spec [where I = "list_all ty_ok", THEN spec_call [where m = n]] push_item_spec ty_arg_spec [THEN gives_any])

lemma optional_marks_spec: "fits n p \<Longrightarrow> ty_ok t \<Longrightarrow> spec p (optional_marks t p) (\<lambda>a q. ty_ok a)"
  unfolding optional_marks_def
  by (rule loop_call [where I = "\<lambda>t q. ty_ok t"]) (auto simp: at_defs gives_def intro!: vc)

lemma ty_spec:
  assumes p: "fits (Suc n) p"
  shows "spec p (ty R p) (gives ty_ok p)"
proof (cases "at TTilde p")
  case True
  with p show ?thesis by (auto simp: ty_def Let_def at_defs gives_def intro!: vc)
next
  case False
  have "spec p (andthen (const_name e) (\<lambda>first. andthen (colon_path e [first]) (\<lambda>path. andthen (ty_args R) (\<lambda>args p.
      optional_marks (TyNamed path args (span_to start (prev_span p))) p))) p) (gives ty_ok p)" for e start
    by (rule spec_andthen, rule spec_const_name [THEN spec_call_less [where m = n]])
      (use p in \<open>auto simp: gives_def fits_ok intro!: spec_andthen colon_path_spec [THEN spec_call [where m = n]]
        ty_args_spec [THEN spec_call [where m = n]] optional_marks_spec [THEN spec_call [where m = n]]\<close>)
  with False show ?thesis by (simp add: ty_def Let_def)
qed

subsection \<open>Bodies\<close>

lemma rescue_types_spec: "fits n p \<Longrightarrow> spec p (rescue_types R p) (\<lambda>a q. list_all ty_ok a)"
proof (cases "\<exists>c. kind p = TConst c")
  case True
  assume p: "fits n p"
  have loop: "spec q (loop (\<lambda>types p. if at TComma p then pmap (\<lambda>t. Inl (types @ [t])) (s_ty R) (bump p)
      else POk (Inr types) p) [t] q) (\<lambda>a q. list_all ty_ok a)" if "fits n q" "ty_ok t" for q t
    by (rule loop_call [where I = "\<lambda>a q. list_all ty_ok a"]) (use that in \<open>auto simp: at_defs gives_def intro!: vc\<close>)
  show ?thesis using p True
    by (auto simp: rescue_types_def gives_def intro!: vc loop [THEN spec_call [where m = n]])
next
  case False
  assume "fits n p"
  with False show ?thesis by (cases "kind p") (auto simp: rescue_types_def)
qed

lemma rescue_binding_spec: "fits n p \<Longrightarrow> spec p (rescue_binding p) (\<lambda>a q. True)"
  unfolding rescue_binding_def by (auto simp: at_defs intro!: vc)

lemma rescue_clause_spec: "fits n p \<Longrightarrow> kind p \<noteq> TEof \<Longrightarrow> spec p (rescue_clause R p) (gives (rescue_ok expr_ok) p)"
  unfolding rescue_clause_def Let_def
  by (auto simp: gives_def rescue_ok_def intro!: vc rescue_types_spec [THEN spec_call [where m = n]]
      rescue_binding_spec [THEN spec_call [where m = n]])

lemma body_spec: "fits n p \<Longrightarrow> spec p (body R stops p) (\<lambda>a q. body_ok expr_ok a)"
proof -
  have rescues: "spec q (loop (\<lambda>rescues p. if at_kw KRescue p then pmap (\<lambda>r. Inl (rescues @ [r])) (rescue_clause R) p
      else POk (Inr rescues) p) [] q) (\<lambda>a q. list_all (rescue_ok expr_ok) a)" if "fits n q" for q
    by (rule loop_call [where I = "\<lambda>a q. list_all (rescue_ok expr_ok) a"])
      (use that in \<open>auto simp: at_defs gives_def intro!: vc rescue_clause_spec [THEN spec_call [where m = n]]\<close>)
  show "fits n p \<Longrightarrow> spec p (body R stops p) (\<lambda>a q. body_ok expr_ok a)"
    unfolding body_def Let_def
    by (auto simp: at_defs body_ok_def intro!: vc rescues [unfolded at_defs, THEN spec_call [where m = n]])
qed

subsection \<open>Blocks\<close>

lemma block_param_spec: "fits n p \<Longrightarrow> spec p (block_param R p) (gives (param_ok expr_ok) p)"
  by (cases "kind p") (auto simp: block_param_def Let_def gives_def param_ok_def intro!: vc)

lemma block_params_spec: "fits n p \<Longrightarrow> spec p (block_params R p) (\<lambda>a q. list_all (param_ok expr_ok) a)"
proof -
  have loop: "spec q (loop (\<lambda>params. andthen (block_param R) (\<lambda>param p.
            if at TComma p then POk (Inl (params @ [param])) (bump p) else POk (Inr (params @ [param])) p)) [] q)
      (\<lambda>a q. list_all (param_ok expr_ok) a)" if "fits n q" for q
    by (rule loop_call [where I = "\<lambda>a q. list_all (param_ok expr_ok) a"])
      (use that in \<open>auto simp: at_defs gives_def intro!: vc block_param_spec [THEN spec_call [where m = n]]\<close>)
  show "fits n p \<Longrightarrow> ?thesis"
    unfolding block_params_def Let_def by (auto simp: at_defs intro!: vc loop [unfolded at_defs, THEN spec_call [where m = n]])
qed

lemma brace_block_spec: "fits (Suc n) p \<Longrightarrow> kind p \<noteq> TEof \<Longrightarrow> spec p (brace_block R p) (gives (block_ok expr_ok) p)"
  unfolding brace_block_def Let_def
  by (auto simp: gives_def block_ok_def body_ok_def body_new_def intro!: vc block_params_spec [THEN spec_call [where m = n]])

lemma do_block_spec: "fits (Suc n) p \<Longrightarrow> kind p \<noteq> TEof \<Longrightarrow> spec p (do_block R p) (gives (block_ok expr_ok) p)"
  unfolding do_block_def Let_def
  by (auto simp: gives_def block_ok_def intro!: vc block_params_spec [THEN spec_call [where m = n]]
      body_spec [THEN spec_call [where m = n]])

subsection \<open>Calls\<close>

definition args_ok :: "args \<Rightarrow> bool" where
  "args_ok a \<longleftrightarrow> list_all (pred_arg expr_ok) (fst a) \<and> pred_option (block_ok expr_ok) (snd a)"

definition arg_ok :: "arg_or_block \<Rightarrow> bool" where
  "arg_ok a = (case a of Arg x \<Rightarrow> pred_arg expr_ok x | ABlock b \<Rightarrow> block_ok expr_ok b)"

lemma arg_spec: "fits n p \<Longrightarrow> spec p (arg R p) (gives arg_ok p)"
  by (cases "kind p")
    (auto simp: arg_def Let_def gives_def arg_ok_def block_ok_def body_ok_def body_new_def param_ok_def intro!: vc)

lemma add_arg_spec: "fits n p \<Longrightarrow> args_ok acc \<Longrightarrow> spec p (add_arg R acc p) (\<lambda>a q. args_ok a)"
  unfolding add_arg_def
  by (auto simp: gives_def args_ok_def arg_ok_def intro!: vc arg_spec [THEN spec_call [where m = n]] split: arg_or_block.splits)

lemma arg_list_spec: "fits n p \<Longrightarrow> spec p (arg_list R p) (\<lambda>a q. args_ok a)"
  unfolding arg_list_def
  by (rule loop_call [where I = "\<lambda>a q. args_ok a"])
    (auto simp: at_defs args_ok_def [of "([], None)"] intro!: vc add_arg_spec [THEN spec_call [where m = n]])

lemma paren_args_spec: "fits n p \<Longrightarrow> spec p (paren_args R p) (gives args_ok p)"
  unfolding paren_args_def
  by (auto simp: gives_def args_ok_def [of "([], None)"]
      intro!: vc with_do_call [where m = n and G = args_ok] comma_list_spec [where I = args_ok, THEN gives_any] add_arg_spec)

lemma command_args_spec: "fits n p \<Longrightarrow> spec p (command_args R p) (\<lambda>a q. args_ok a)"
  unfolding command_args_def
  by (auto simp: gives_def at_defs args_ok_def intro!: vc with_do_call [where m = n and G = args_ok] arg_list_spec
      brace_block_spec [THEN spec_call [where m = n]] do_block_spec [THEN spec_call [where m = n]])

lemma method_call_spec:
  "fits (Suc n) p \<Longrightarrow> expr_ok e \<Longrightarrow> spec p (method_call R e safe p) (gives expr_ok p)"
  unfolding method_call_def
  by (rule spec_andthen, rule spec_call_less [OF spec_method_name [OF fits_ok], where m = n])
    (auto simp: gives_def at_defs args_ok_def intro!: vc paren_args_spec [THEN spec_call [where m = n]]
      command_args_spec [THEN spec_call [where m = n]])

lemma expr_list_spec:
  "fits n p \<Longrightarrow> close \<noteq> TEof \<Longrightarrow> spec p (expr_list R close e p) (\<lambda>a q. list_all expr_ok a)"
  unfolding expr_list_def
  by (rule with_do_call [where m = n and G = "list_all expr_ok"])
    (auto intro!: comma_list_spec [where I = "list_all expr_ok", THEN gives_any] push_item_spec s_expr [THEN gives_any])

end

end
