(* ===== verification/Parse_Total_Exprs.thy ===== *)
theory Parse_Total_Exprs
  imports Parse_Total_Calls
begin

text \<open>
  The contracts of expressions and control structures. Where a function reads its first token
  itself, it may start with one more token left (\<open>Suc n\<close>) than the functions it calls back.
\<close>

context sub_parsers
begin

lemmas vc1 = spec_andthen spec_pmap unexpected_call [where m = "Suc n"] fail_call [where m = "Suc n"]
  expect_calls [where m = n] name_calls [where m = n]
  unexpected_call [where m = n] fail_call [where m = n] sub_calls [where m = n]

subsection \<open>Control structures\<close>

lemma not_e_ok [simp]: "expr_ok (not_e e) = expr_ok e"
  by (simp add: not_e_def)

lemma if_rest_spec: "fits n p \<Longrightarrow> spec p (if_rest R start negate p) (gives expr_ok p)"
  unfolding if_rest_def Let_def by (auto simp: at_defs gives_def intro!: vc)

lemma elsif_spec: "fits (Suc n) p \<Longrightarrow> kind p \<noteq> TEof \<Longrightarrow> spec p (elsif R p) (gives expr_ok p)"
  unfolding elsif_def Let_def
  by (rule if_rest_spec [THEN spec_call [where m = n]]) (auto simp: gives_def)

lemma if_expr_spec: "fits (Suc n) p \<Longrightarrow> kind p \<noteq> TEof \<Longrightarrow> spec p (if_expr R negate p) (gives expr_ok p)"
  unfolding if_expr_def Let_def
  by (auto simp: gives_def intro!: vc1 if_rest_spec [THEN spec_call [where m = n]])

lemma while_expr_spec: "fits (Suc n) p \<Longrightarrow> kind p \<noteq> TEof \<Longrightarrow> spec p (while_expr R until p) (gives expr_ok p)"
  unfolding while_expr_def Let_def
  by (auto simp: gives_def intro!: vc with_do_call [where m = n and G = expr_ok] s_expr_stmt [THEN gives_any])

lemma case_test_spec:
  "fits n p \<Longrightarrow> spec p (case_test R p) (\<lambda>t q. case t of None \<Rightarrow> True | Some t \<Rightarrow> arm_test_ok expr_ok t \<and> pr_pos p < pr_pos q)"
proof -
  have loop: "spec q (loop (\<lambda>values p. if at TComma p then pmap (\<lambda>e. Inl (values @ [e])) (s_expr R) (skip_newlines (bump p))
            else POk (Inr values) p) [e] q) (\<lambda>a q. a \<noteq> [] \<and> list_all expr_ok a)" if "fits n q" "expr_ok e" for q e
    by (rule loop_call [where I = "\<lambda>a q. a \<noteq> [] \<and> list_all expr_ok a"])
      (use that in \<open>auto simp: at_defs gives_def intro!: vc\<close>)
  show "fits n p \<Longrightarrow> ?thesis"
    unfolding case_test_def
    by (auto simp: at_defs gives_def arm_test_ok_def intro!: vc loop [unfolded at_defs, THEN spec_call [where m = n]])
qed

lemma case_guard_spec: "fits n p \<Longrightarrow> spec p (case_guard R p) (\<lambda>g q. pred_option expr_ok g)"
  unfolding case_guard_def by (auto simp: at_defs gives_def intro!: vc)

lemma case_round_spec:
  assumes "fits n p" "list_all (case_arm_ok expr_ok) arms"
  shows "spec p (case_round R arms p)
    (round_ok p (\<lambda>a q. list_all (case_arm_ok expr_ok) a) (\<lambda>a q. list_all (case_arm_ok expr_ok) a))"
  unfolding case_round_def Let_def using assms
  by (auto simp: case_arm_ok_def intro!: vc case_test_spec [THEN spec_call [where m = n]]
      case_guard_spec [THEN spec_call [where m = n]] split: option.splits)

lemma case_expr_spec: "fits (Suc n) p \<Longrightarrow> kind p \<noteq> TEof \<Longrightarrow> spec p (case_expr R p) (gives expr_ok p)"
proof -
  have arms: "spec q (loop (case_round R) [] q) (\<lambda>a q. list_all (case_arm_ok expr_ok) a)" if "fits n q" for q
    by (rule loop_call [where I = "\<lambda>a q. list_all (case_arm_ok expr_ok) a"]) (use that case_round_spec in auto)
  show "fits (Suc n) p \<Longrightarrow> kind p \<noteq> TEof \<Longrightarrow> ?thesis"
    unfolding case_expr_def Let_def
    by (auto simp: at_defs gives_def intro!: vc arms [THEN spec_call [where m = n]])
qed

subsection \<open>Primaries\<close>

lemma ident_expr_spec:
  "fits (Suc n) p \<Longrightarrow> kind p = TIdent x \<Longrightarrow> spec p (ident_expr R p) (gives expr_ok p)"
  unfolding ident_expr_def Let_def kind_def
  by (auto simp: at_defs gives_def args_ok_def kind_def intro!: vc paren_args_spec [THEN spec_call [where m = n]]
      command_args_spec [THEN spec_call [where m = n]])

lemma const_path_spec: "fits n p \<Longrightarrow> path \<noteq> [] \<Longrightarrow> spec p (const_path path p) (\<lambda>path q. path \<noteq> [])"
  unfolding const_path_def
  by (rule loop_call [where I = "\<lambda>path q. path \<noteq> []"]) (auto simp: at_defs gives_def intro!: vc)

lemma const_expr_spec:
  assumes "fits (Suc n) p"
  shows "spec p (const_expr R p) (gives expr_ok p)"
proof -
  have rest: "spec q (andthen (const_path [first]) (\<lambda>path p.
        if \<not> at_tight TLParen p then POk (Expr (EConst path) (span_to start (prev_span p))) p
        else if path = [] then Panic
        else
          let name = last path; path = butlast path;
              recv = (if path = [] then None else Some (Expr (EConst path) (span_to start (id_span (last path)))))
          in andthen (paren_args R) (\<lambda>(args, block) p.
               POk (Expr (ECall recv name args block False True) (span_to start (prev_span p))) p) p) q) (\<lambda>a _. expr_ok a)"
    if "fits n q" for q first start
    using that by (auto simp: Let_def gives_def args_ok_def intro!: vc const_path_spec [THEN spec_call [where m = n]]
        paren_args_spec [THEN spec_call [where m = n]])
  show ?thesis
    unfolding const_expr_def Let_def
    by (rule spec_andthen, rule spec_call_less [OF spec_const_name [OF fits_ok]], (use assms in simp_all)[4])
      (rule rest [unfolded Let_def, THEN spec_call [where m = n]], simp_all add: gives_def)
qed

lemma hash_entry_spec:
  "fits n p \<Longrightarrow> list_all (pred_prod expr_ok expr_ok) es \<Longrightarrow>
     spec p (hash_entry R es p) (\<lambda>a _. list_all (pred_prod expr_ok expr_ok) a)"
  by (cases "kind p") (auto simp: hash_entry_def Let_def gives_def intro!: vc)

lemma hash_spec: "fits (Suc n) p \<Longrightarrow> kind p \<noteq> TEof \<Longrightarrow> spec p (hash R p) (gives expr_ok p)"
  unfolding hash_def Let_def
  by (auto simp: gives_def intro!: vc with_do_call [where m = n and G = "list_all (pred_prod expr_ok expr_ok)"]
      comma_list_spec [where I = "list_all (pred_prod expr_ok expr_ok)", THEN gives_any] hash_entry_spec)

lemma jump_spec: "fits (Suc n) p \<Longrightarrow> kind p \<noteq> TEof \<Longrightarrow> spec p (jump R p) (gives expr_ok p)"
  unfolding jump_def Let_def by (auto simp: gives_def intro!: vc)

lemma paren_expr_spec: "fits (Suc n) p \<Longrightarrow> kind p \<noteq> TEof \<Longrightarrow> spec p (paren_expr R p) (gives expr_ok p)"
  unfolding paren_expr_def Let_def
  by (auto simp: gives_def intro!: vc with_do_call [where m = n and G = expr_ok])

lemma begin_expr_spec: "fits (Suc n) p \<Longrightarrow> kind p \<noteq> TEof \<Longrightarrow> spec p (begin_expr R p) (gives expr_ok p)"
  unfolding begin_expr_def Let_def
  by (auto simp: gives_def intro!: vc body_spec [THEN spec_call [where m = n]])

subsection \<open>Strings\<close>

lemma token_at_weight: "parser_ok p \<Longrightarrow> token_weight (peek p) \<le> weight p"
proof -
  assume "parser_ok p"
  then have "drop (pr_pos p) (pr_toks p) = peek p # drop (Suc (pr_pos p)) (pr_toks p)"
    by (simp add: Cons_nth_drop_Suc parser_ok_def peek_def)
  then show ?thesis by (simp add: weight_def tokens_weight_def)
qed

lemma interp_fits:
  assumes p: "fits (Suc n) p" and k: "kind p = TStr parts" and i: "SInterp ts s \<in> set parts"
  shows "fits n (parser_new ts docs)"
proof -
  obtain sp b where tok: "peek p = Token (TStr parts) sp b" using k by (cases "peek p") (auto simp: kind_def)
  have ok: "token_ok (peek p)" using p by (auto simp: fits_def parser_ok_def peek_def list_all_length)
  then have t: "tokens_end ts" "list_all token_ok ts" using i by (auto simp: tok list_all_iff)
  have "tokens_weight ts < part_weight (SInterp ts s)" by (simp add: tokens_weight_def)
  also have "\<dots> \<le> sum_list (map part_weight parts)" using i by (intro member_le_sum_list) (auto simp del: part_weight.simps)
  also have "\<dots> < weight p" using token_at_weight [of p] p by (auto simp: tok fits_def)
  finally have "tokens_weight ts < n" using p by (simp add: fits_def)
  with t show ?thesis by (auto simp: fits_def parser_ok_def parser_new_def weight_def tokens_end_def)
qed

lemma interpolation_spec:
  assumes p: "fits m p" and sub: "fits n (parser_new ts (pr_docs p))"
  shows "spec p (interpolation R ts s p) (\<lambda>e _. expr_ok e)"
proof -
  from s_stmts_ok [OF sub] obtain es q where q: "s_stmts R [] (parser_new ts (pr_docs p)) = POk es q" "list_all expr_ok es"
    by blast
  have e: "ext p (p\<lparr>pr_diags := pr_diags p @ ds\<rparr>)" "fits m (p\<lparr>pr_diags := pr_diags p @ ds\<rparr>)" for ds
    using p by (auto simp: ext_def fits_def parser_ok_def weight_def)
  have "expr_ok (last es)" if "es \<noteq> []" using q(2) that by (simp add: list_all_iff)
  then show ?thesis
    using e ext_steps(5) [OF e(2) e(1)] by (auto simp: interpolation_def andthen_def q(1) Let_def)
qed

lemma string_segs_spec:
  assumes "fits m p" "\<And>ts s docs. SInterp ts s \<in> set parts \<Longrightarrow> fits n (parser_new ts docs)"
    and "list_all (pred_str_seg expr_ok) segs"
  shows "spec p (string_segs R parts segs p) (\<lambda>a _. list_all (pred_str_seg expr_ok) a)"
  using assms
proof (induction parts arbitrary: segs p)
  case Nil
  then show ?case by (simp add: ext_refl fits_ok)
next
  case (Cons part parts)
  show ?case
  proof (cases part)
    case (SLit t)
    with Cons show ?thesis by simp
  next
    case (SInterp ts s)
    have sub: "fits n (parser_new ts (pr_docs p))" by (rule Cons.prems(2) [of ts s]) (simp add: SInterp)
    show ?thesis
      unfolding SInterp string_segs.simps
    proof (rule spec_andthen, rule spec_call [OF interpolation_spec [OF Cons.prems(1) sub] Cons.prems(1)])
      show "ext p p" using Cons.prems(1) by (simp add: ext_refl fits_ok)
      fix e q
      assume q: "ext p q" "fits m q" and e: "expr_ok e"
      show "spec p (string_segs R parts (segs @ [SegInterp e]) q) (\<lambda>a _. list_all (pred_str_seg expr_ok) a)"
        by (rule spec_weaken [OF Cons.IH]) (use q e Cons.prems in auto)
    qed
  qed
qed

lemma string_e_spec:
  assumes p: "fits (Suc n) p" and k: "kind p = TStr parts"
  shows "spec p (string_e R parts s (bump p)) (gives expr_ok p)"
  unfolding string_e_def
  by (rule spec_pmap, rule string_segs_spec [where m = n, THEN spec_call [where m = n]])
    (use p k interp_fits [OF p k] in \<open>auto simp: gives_def\<close>)

end

text \<open>The contracts of primaries, postfix forms, operators, the ternary and assignments.\<close>

context sub_parsers
begin

lemma fits_int: "fits m p \<Longrightarrow> kind p = TInt k \<Longrightarrow> 0 \<le> k \<and> k \<le> i64_max"
proof -
  assume p: "fits m p" and k: "kind p = TInt k"
  obtain s b where tok: "peek p = Token (TInt k) s b" using k by (cases "peek p") (auto simp: kind_def)
  have "token_ok (peek p)" using p by (auto simp: fits_def parser_ok_def peek_def list_all_length)
  then show ?thesis by (simp add: tok)
qed

lemma array_spec:
  "fits (Suc n) p \<Longrightarrow> kind p = TLBracket \<Longrightarrow>
     spec p (andthen (expr_list R TRBracket e) (\<lambda>items p. POk (Expr (EArray items) (span_to s (prev_span p))) p) (bump p))
       (gives expr_ok p)"
  by (auto simp: gives_def intro!: vc expr_list_spec [THEN spec_call [where m = n]])

lemma primary_fails: "fits (Suc n) p \<Longrightarrow> spec p (fail s e p) Q" "fits (Suc n) p \<Longrightarrow> spec p (unexpected m p) Q"
  by (simp_all add: spec_fail spec_unexpected fits_ok)

lemma primary_keyword_spec:
  assumes "fits (Suc n) p" "kind p = TKw w"
  shows "spec p (primary R p) (gives expr_ok p)"
  using assms
  by (auto simp: primary_def Let_def gives_def if_expr_spec while_expr_spec
      case_expr_spec begin_expr_spec jump_spec primary_fails)

lemma primary_spec: "fits (Suc n) p \<Longrightarrow> spec p (primary R p) (gives expr_ok p)"
  using fits_int [of "Suc n" p]
  by (cases "kind p")
    (auto simp: primary_keyword_spec, auto simp: primary_def Let_def gives_def string_e_spec
      ident_expr_spec const_expr_spec paren_expr_spec
      array_spec hash_spec primary_fails)

subsection \<open>Postfix forms\<close>

lemma attach_block_ok:
  "takes_block e \<Longrightarrow> expr_ok e \<Longrightarrow> block_ok expr_ok b \<Longrightarrow> \<exists>e'. attach_block e b = Some e' \<and> expr_ok e'"
  by (cases e; cases "ex_kind e") (auto simp: takes_block_def attach_block_def Let_def split: option.splits)

lemma attach_spec:
  assumes "fits (Suc n) p" "takes_block e" "expr_ok e" "spec p (b p) (gives (block_ok expr_ok) p)"
  shows "spec p (attach e b p) (round_ok p (\<lambda>a _. expr_ok a) (\<lambda>a _. expr_ok a))"
  unfolding attach_def
proof (rule spec_andthen, rule spec_call [OF assms(4,1)])
  fix a q
  assume q: "ext p q" "gives (block_ok expr_ok) p a q"
  with attach_block_ok [OF assms(2,3), of a] show "spec p (case attach_block e a of None \<Rightarrow> Panic | Some e \<Rightarrow> POk (Inl e) q)
      (round_ok p (\<lambda>a _. expr_ok a) (\<lambda>a _. expr_ok a))" by (auto simp: gives_def)
qed (use assms in simp)

lemma index_args_spec: "fits n p \<Longrightarrow> spec p (index_args R p) (\<lambda>a _. list_all expr_ok a)"
  unfolding index_args_def Let_def by (rule spec_in_index) (simp add: expr_list_spec)

lemma postfix_round_spec:
  "fits (Suc n) p \<Longrightarrow> expr_ok e \<Longrightarrow> spec p (postfix_round R e p) (round_ok p (\<lambda>a _. expr_ok a) (\<lambda>a _. expr_ok a))"
  unfolding postfix_round_def Let_def
  by (auto simp: gives_def intro!: vc method_call_spec [THEN spec_call [where m = n]]
      index_args_spec [THEN spec_call [where m = n]] attach_spec brace_block_spec do_block_spec)

lemma postfix_from_spec: "fits (Suc n) p \<Longrightarrow> expr_ok e \<Longrightarrow> spec p (postfix_from R e p) (\<lambda>a _. expr_ok a)"
  unfolding postfix_from_def
  by (rule loop_call [where m = "Suc n" and I = "\<lambda>a _. expr_ok a" and J = "\<lambda>a _. expr_ok a"]) (auto simp: postfix_round_spec)

lemma postfix_spec: "fits (Suc n) p \<Longrightarrow> spec p (postfix R p) (gives expr_ok p)"
  unfolding postfix_def
  by (rule spec_andthen, rule primary_spec [THEN spec_call_less [where m = n]])
    (auto simp: gives_def intro!: postfix_from_spec [THEN spec_call [where m = n]])

subsection \<open>Operators\<close>

lemma neg_literal_ok: "fits n p \<Longrightarrow> neg_literal op p = Some k \<Longrightarrow> kind_ok k \<and> kind p \<noteq> TEof"
  using fits_int [of n p] by (auto simp: neg_literal_def checked_neg_def split: if_splits token_kind.splits)

lemma unary_op_spec: "fits (Suc n) p \<Longrightarrow> kind p \<noteq> TEof \<Longrightarrow> spec p (unary_op R op p) (gives expr_ok p)"
  unfolding unary_op_def Let_def
  by (auto simp: gives_def dest: neg_literal_ok [rotated] split: option.split
      intro!: vc postfix_from_spec [THEN spec_call [where m = n]])

lemma unary_spec: "fits (Suc n) p \<Longrightarrow> spec p (unary R p) (gives expr_ok p)"
  by (cases "kind p") (simp_all add: unary_def unary_op_spec postfix_spec)

lemma infix_expr_ok: "expr_ok a \<Longrightarrow> expr_ok b \<Longrightarrow> expr_ok (infix_expr op endl a b)"
  by (simp add: infix_expr_def split: infix_op.split)

lemma infix_not_eof: "infix_at k = Some x \<Longrightarrow> k \<noteq> TEof"
  by (auto simp: infix_at_def)

lemma binary_round_spec:
  "fits n p \<Longrightarrow> expr_ok e \<Longrightarrow> spec p (binary_round R m e p) (round_ok p (\<lambda>a _. expr_ok a) (\<lambda>a _. expr_ok a))"
  unfolding binary_round_def Let_def
  by (auto simp: gives_def endless_def infix_expr_ok dest: infix_not_eof split: option.split intro!: vc)

lemma binary_spec: "fits (Suc n) p \<Longrightarrow> spec p (binary R m p) (gives expr_ok p)"
  unfolding binary_def
  by (rule spec_andthen, rule unary_spec [THEN spec_call_less [where m = n]])
    (auto simp: gives_def binary_round_spec intro!: loop_call [where m = n and I = "\<lambda>a _. expr_ok a" and J = "\<lambda>a _. expr_ok a"])

subsection \<open>The ternary, assignments\<close>

lemma ternary_branches_spec:
  "fits n p \<Longrightarrow> spec p (ternary_branches R p) (gives (\<lambda>(a, b). expr_ok a \<and> expr_ok b) p)"
  unfolding ternary_branches_def by (auto simp: gives_def intro!: vc)

lemma note_last_ext: "ext p q \<Longrightarrow> pr_diags q \<noteq> [] \<Longrightarrow> ext p (note_last s m q) \<and> pr_diags (note_last s m q) \<noteq> []"
  by (simp add: note_last_def ext_def)

lemma ternary_spec: "fits (Suc n) p \<Longrightarrow> spec p (ternary R p) (gives expr_ok p)"
  unfolding ternary_def
proof (rule spec_andthen, rule binary_spec [THEN spec_call_less [where m = n]], simp_all only:)
  show "fits (Suc n) p \<Longrightarrow> ext p p" by simp
  fix cond q
  assume q: "ext p q" "fits n q" "pr_pos p < pr_pos q" "expr_ok cond"
  show "spec p (if at TQuestion q \<and> tk_space_before (peek q) then
       let question = cur_span q in
       (case ternary_branches R (bump q) of
          Diverge \<Rightarrow> Diverge
        | Panic \<Rightarrow> Panic
        | PErr p \<Rightarrow> PErr (note_last question [Txt ternary_note] p)
        | POk (thn, otherwise) p \<Rightarrow>
            POk (Expr (EIf cond [thn] (Some [otherwise])) (span_to (ex_span cond) (ex_span otherwise))) p)
     else POk cond q) (gives expr_ok p)"
  proof (cases "at TQuestion q \<and> tk_space_before (peek q)")
    case True
    then have b: "fits n (bump q)" "ext p (bump q)" "pr_pos p < pr_pos (bump q)" using q by (simp_all add: at_def)
    have "spec p (ternary_branches R (bump q)) (\<lambda>(x, y) r. expr_ok x \<and> expr_ok y \<and> pr_pos p < pr_pos r)"
      by (rule ternary_branches_spec [THEN spec_call [where m = n]]) (use b in \<open>auto simp: gives_def\<close>)
    with True q(4) show ?thesis
      by (cases "ternary_branches R (bump q)") (auto simp: spec_def gives_def note_last_ext)
  next
    case False
    show ?thesis unfolding if_not_P [OF False] using q by (simp add: gives_def)
  qed
qed

lemma assign_not_eof: "assign_op k = Some x \<Longrightarrow> k \<noteq> TEof"
  by (auto simp: assign_op_def)

lemma expr_spec: "fits (Suc n) p \<Longrightarrow> spec p (expr_e R p) (gives expr_ok p)"
  unfolding expr_e_def
  by (rule spec_andthen, rule ternary_spec [THEN spec_call_less [where m = n]])
    (auto simp: gives_def dest: assign_not_eof split: option.split intro!: vc)

end

end
