(* ===== verification/Parse_Total_Stmts.thy ===== *)
theory Parse_Total_Stmts
  imports Parse_Total_Exprs
begin

text \<open>
  The contracts of statements and patterns, and the interpretation of the locale on the knot: with
  more fuel than the weight of the tokens left, every parse function keeps its contract.
\<close>

subsection \<open>Running on after an error\<close>

lemma kind_cong: "ext p q \<Longrightarrow> pr_pos q = pr_pos p \<Longrightarrow> kind q = kind p"
  by (simp add: ext_def kind_def peek_def)

lemma bump_if_at_ext:
  assumes "fits m p" "kind p \<noteq> TEof" "ext p q"
  shows "ext p (bump_if_at (pr_pos p) q) \<and> pr_pos p < pr_pos (bump_if_at (pr_pos p) q)"
proof -
  from assms have q: "parser_ok q" by (auto intro: ext_ok fits_ok)
  show ?thesis
  proof (cases "pr_pos q = pr_pos p")
    case True
    with kind_cong [OF assms(3)] assms(2) have "kind q \<noteq> TEof" by simp
    with True q show ?thesis using ext_trans [OF assms(3) bump_ext [OF q]] by (simp add: bump_if_at_def bump_pos)
  next
    case False
    with assms(3) show ?thesis by (auto simp: bump_if_at_def dest: ext_pos)
  qed
qed

lemma after_ext:
  assumes "fits m p" "ext p q"
  shows "ext p (after_stmt stops q)" and "ext p (after_error stops pos0 q)"
    and "ext p (recover_line (note_unexpected e q))" and "ext p (resume_at_definition q)"
proof -
  from assms have q: "parser_ok q" by (auto intro: ext_ok fits_ok)
  have "ext q (recover_line (note_unexpected e q))" for e
    using note_unexpected_ext [OF q, of e] recover_ext ext_ok [OF q] ext_trans by blast
  with q assms(2) show "ext p (after_stmt stops q)" "ext p (after_error stops pos0 q)"
      "ext p (recover_line (note_unexpected e q))" "ext p (resume_at_definition q)"
    by (auto simp: after_stmt_def after_error_def resume_at_definition_def intro: ext_trans recover_ext)
qed

definition no_error :: "'a pres \<Rightarrow> bool" where
  "no_error r \<longleftrightarrow> (\<forall>q. r \<noteq> PErr q)"

lemma loopP_no_error: "(\<And>a q. no_error (f a q)) \<Longrightarrow> no_error (loopP n f a p)"
proof (induction n arbitrary: a p)
  case (Suc n)
  from Suc.prems [of a p] Suc.IH [OF Suc.prems] show ?case
    by (cases "f a p") (auto simp: no_error_def andthen_def split: sum.splits)
qed (simp add: no_error_def)

lemma stmts_no_error: "no_error (stmts R stops p)"
proof -
  have "no_error (stmts_round R stops a q)" for a q
    by (simp add: no_error_def stmts_round_def Let_def split: pres.split)
  then have "no_error (loop (stmts_round R stops) [] q)" for q unfolding loop_def by (rule loopP_no_error)
  then show ?thesis
    by (auto simp: stmts_def with_do_def on_parser_def no_error_def Let_def split: pres.split)
qed

context sub_parsers
begin

subsection \<open>Statements\<close>

lemma not_expr_spec: "fits (Suc n) p \<Longrightarrow> spec p (not_expr R p) (gives expr_ok p)"
  unfolding not_expr_def Let_def by (auto simp: at_defs gives_def expr_spec intro!: vc)

lemma expr_stmt_spec: "fits (Suc n) p \<Longrightarrow> spec p (expr_stmt R p) (gives expr_ok p)"
  unfolding expr_stmt_def Let_def
  by (rule spec_andthen, rule not_expr_spec [THEN spec_call_less [where m = n]])
    (auto simp: at_defs gives_def split: if_split_asm intro!: vc
      loop_call [where m = n and I = "\<lambda>a _. expr_ok a" and J = "\<lambda>a _. expr_ok a"])

text \<open>What the scan has seen is what the loop over the targets reads.\<close>

lemma nth_kind_at: "ext p q \<Longrightarrow> pr_pos q = pr_pos p + i \<Longrightarrow> nth_kind i p = kind q"
  by (auto simp: nth_kind_def kind_def peek_def ext_def min_def intro!: arg_cong [of _ _ tk_kind] arg_cong [of _ _ "nth (pr_toks p)"])

definition targets_ok :: "expr list \<Rightarrow> bool" where
  "targets_ok ts \<longleftrightarrow> 2 \<le> length ts \<and> list_all is_variable ts"

definition scan_inv :: "parser \<Rightarrow> expr list \<Rightarrow> parser \<Rightarrow> bool" where
  "scan_inv p ts q \<longleftrightarrow> pr_pos q = pr_pos p + 2 * length ts \<and> multi_scan p (2 * length ts) \<and> list_all is_variable ts"

lemma multi_round_spec:
  assumes q: "fits (Suc n) q" "ext p q" and inv: "scan_inv p ts q"
  shows "spec q (multi_round ts q) (round_ok q (scan_inv p) (gives targets_ok p))"
proof -
  let ?i = "2 * length ts" let ?b = "bump q" let ?c = "bump ?b"
  have ki: "nth_kind ?i p = kind q" using inv q by (intro nth_kind_at) (simp_all add: scan_inv_def)
  have scan: "is_target (kind q)" "nth_kind (?i + 1) p = TComma \<and> multi_scan p (?i + 2) \<or> nth_kind (?i + 1) p = TEq \<and> 0 < ?i"
    using inv by (auto simp: scan_inv_def multi_scan.simps [of p ?i] ki split: if_splits)
  from scan(1) have "kind q \<noteq> TEof" by (auto simp: is_target_def)
  with q have b: "pr_pos ?b = Suc (pr_pos q)" "ext p ?b" "fits (Suc n) ?b" by simp_all
  then have kb: "nth_kind (?i + 1) p = kind ?b" using inv by (intro nth_kind_at) (simp_all add: scan_inv_def)
  with scan(2) have c: "pr_pos ?c = Suc (Suc (pr_pos q))" "ext q ?c" using b q by auto
  from scan(1) obtain k where k: "tk_kind (peek q) = k" "is_target k" by (simp add: kind_def)
  have step: "spec q (POk (if kind ?b = TEq then Inr (ts @ [e]) else Inl (ts @ [e])) ?c)
      (round_ok q (scan_inv p) (gives targets_ok p))" if "is_variable e" for e
    using that scan(2) c inv unfolding kb by (auto simp: scan_inv_def gives_def targets_ok_def Suc_le_eq)
  define e where "e = Expr (case k of TIdent x \<Rightarrow> EVar x | TIVar x \<Rightarrow> EIVar x | _ \<Rightarrow> ENil) (tk_span (peek q))"
  have "is_variable e" "multi_round ts q = POk (if kind ?b = TEq then Inr (ts @ [e]) else Inl (ts @ [e])) ?c"
    using k by (auto simp: e_def multi_round_def Let_def is_target_def is_variable_def split: token_kind.splits)
  with step [of e] show ?thesis by simp
qed

lemma multi_targets_spec:
  "fits (Suc n) p \<Longrightarrow> multi_scan p 0 \<Longrightarrow> spec p (loop multi_round [] p) (gives targets_ok p)"
  by (rule loop_call [where m = "Suc n" and I = "scan_inv p" and J = "gives targets_ok p"])
    (auto simp: scan_inv_def [of p "[]"] intro: multi_round_spec)

lemma multi_assign_spec:
  "fits (Suc n) p \<Longrightarrow> spec p (multi_assign R p)
     (\<lambda>m q. case m of None \<Rightarrow> q = p | Some e \<Rightarrow> expr_ok e \<and> pr_pos p < pr_pos q)"
  unfolding multi_assign_def Let_def
  by (auto simp: gives_def targets_ok_def intro!: vc multi_targets_spec [THEN spec_call_less [where m = n]])

lemma modified_ok: "expr_ok e \<Longrightarrow> expr_ok rhs \<Longrightarrow> expr_ok (modified w s e rhs)"
  by (simp add: modified_def Let_def body_ok_def rescue_ok_def)

lemma modifier_round_spec:
  "fits n p \<Longrightarrow> expr_ok e \<Longrightarrow> spec p (modifier_round R e p) (round_ok p (\<lambda>a _. expr_ok a) (\<lambda>a _. expr_ok a))"
  by (cases "kind p") (auto simp: modifier_round_def Let_def gives_def modified_ok intro!: vc)

lemma stmt_spec: "fits (Suc n) p \<Longrightarrow> spec p (stmt R p) (gives expr_ok p)"
proof -
  assume p: "fits (Suc n) p"
  have loop: "spec p (loop (modifier_round R) e q) (gives expr_ok p)"
    if "fits n q" "ext p q" "pr_pos p < pr_pos q" "expr_ok e" for e q
    by (rule loop_call [where m = n and I = "\<lambda>a _. expr_ok a" and J = "\<lambda>a _. expr_ok a"])
      (use that in \<open>auto simp: modifier_round_spec gives_def\<close>)
  show ?thesis
    unfolding stmt_def
  proof (rule spec_andthen, rule spec_weaken [OF multi_assign_spec [OF p]])
    show "ext p p" using p by simp
    fix m q
    assume m: "ext p q" "case m of None \<Rightarrow> q = p | Some e \<Rightarrow> expr_ok e \<and> pr_pos p < pr_pos q"
    show "spec p (andthen (case m of Some e \<Rightarrow> POk e | None \<Rightarrow> expr_stmt R) (loop (modifier_round R)) q) (gives expr_ok p)"
    proof (cases m)
      case None
      with m(2) p show ?thesis
        by (auto intro!: spec_andthen expr_stmt_spec [THEN spec_call_less [where m = n]] loop)
    next
      case (Some e)
      with m fits_less [OF p m(1)] show ?thesis by (auto intro!: spec_andthen loop)
    qed
  qed
qed

lemma stmts_round_spec:
  assumes p: "fits (Suc n) p" and out: "list_all expr_ok out"
  shows "spec p (stmts_round R stops out p) (round_ok p (\<lambda>a _. list_all expr_ok a) (\<lambda>a _. list_all expr_ok a))"
proof -
  let ?s = "skip_newlines p"
  have s: "fits (Suc n) ?s" "ext p ?s" "pr_pos p \<le> pr_pos ?s" using p by auto
  show ?thesis
  proof (cases "stmts_end stops ?s")
    case True
    with s out show ?thesis by (simp add: stmts_round_def)
  next
    case False
    then have "kind ?s \<noteq> TEof" by (auto simp: stmts_end_def)
    note go = bump_if_at_ext [OF s(1) this]
    have next_round: "ext p (bump_if_at (pr_pos ?s) q) \<and> pr_pos p < pr_pos (bump_if_at (pr_pos ?s) q)" if "ext ?s q" for q
      using go [OF that] s ext_trans by (metis order.strict_trans1)
    from stmt_spec [OF s(1)] show ?thesis
      by (cases "stmt R ?s") (use False out next_round after_ext [OF s(1)] in
          \<open>auto simp: stmts_round_def spec_def gives_def Let_def\<close>)
  qed
qed

lemma stmts_spec: "fits (Suc n) p \<Longrightarrow> spec p (stmts R stops p) (\<lambda>a _. list_all expr_ok a)"
  unfolding stmts_def
  by (rule with_do_call [where m = "Suc n" and G = "list_all expr_ok"])
    (auto simp: stmts_round_spec intro!: loop_call [where m = "Suc n" and I = "\<lambda>a _. list_all expr_ok a"
      and J = "\<lambda>a _. list_all expr_ok a"])

lemma stmts_returns:
  "fits (Suc n) p \<Longrightarrow> \<exists>es q. stmts R stops p = POk es q \<and> ext p q \<and> list_all expr_ok es"
  using stmts_spec [of p stops] stmts_no_error [of R stops p]
  by (cases "stmts R stops p") (auto simp: spec_def no_error_def)

subsection \<open>Patterns\<close>

lemma pattern_field_spec: "fits n p \<Longrightarrow> spec p (pattern_field R p) (\<lambda>a _. pat_field_ok expr_ok a)"
  by (cases "kind p") (auto simp: pattern_field_def pattern_label_def Let_def gives_def intro!: vc)

lemma pattern_fields_spec:
  "fits n p \<Longrightarrow> kind p \<noteq> TEof \<Longrightarrow> spec p (pattern_fields R p) (\<lambda>a _. list_all (pat_field_ok expr_ok) a)"
  unfolding pattern_fields_def
  by (rule comma_list_spec [where I = "list_all (pat_field_ok expr_ok)", THEN gives_any, THEN spec_call [where m = n]])
    (auto intro!: push_item_spec pattern_field_spec)

lemma pattern_array_spec:
  "fits (Suc n) p \<Longrightarrow> kind p \<noteq> TEof \<Longrightarrow> spec p (pattern_array R p) (gives (list_all (pattern_ok expr_ok)) p)"
  unfolding pattern_array_def Let_def
  by (auto simp: at_defs gives_def intro!: vc
      loop_call [where m = n and I = "\<lambda>a _. list_all (pattern_ok expr_ok) a" and J = "\<lambda>a _. list_all (pattern_ok expr_ok) a"])

lemma pattern_const_spec: "fits (Suc n) p \<Longrightarrow> spec p (pattern_const R p) (gives (pattern_kind_ok expr_ok) p)"
  unfolding pattern_const_def
  by (rule spec_andthen, rule spec_call_less [OF spec_const_name [OF fits_ok], where m = n])
    (auto simp: gives_def at_defs intro!: vc colon_path_spec [THEN spec_call [where m = n]]
      pattern_fields_spec [THEN spec_call [where m = n]])

lemma gives_lit: "spec p r (gives expr_ok p) \<Longrightarrow> spec p r (\<lambda>a. gives (pattern_kind_ok expr_ok) p (PLit a))"
  by (rule spec_weaken [of p r]) (auto simp: gives_def spec_def ext_def split: pres.splits)

lemma pattern_kind_spec: "fits (Suc n) p \<Longrightarrow> spec p (pattern_kind_at R p) (gives (pattern_kind_ok expr_ok) p)"
proof -
  assume p: "fits (Suc n) p"
  have lit: "spec p (primary R p) (\<lambda>a. gives (pattern_kind_ok expr_ok) p (PLit a))"
    "spec p (unary R p) (\<lambda>a. gives (pattern_kind_ok expr_ok) p (PLit a))"
    using p by (simp_all add: gives_lit primary_spec unary_spec)
  have arr: "spec p (pattern_array R p) (\<lambda>a. gives (pattern_kind_ok expr_ok) p (PArray a))" if "kind p = TLBracket"
    by (rule spec_weaken [OF pattern_array_spec]) (use that p in \<open>auto simp: gives_def\<close>)
  show ?thesis
    using p lit arr
    by (cases "kind p") (auto simp: pattern_kind_at_def gives_def [of _ p "PBind _"] gives_def [of _ p PWildcard]
        pattern_const_spec primary_fails intro!: spec_pmap)
qed

lemma pattern_atom_spec: "fits (Suc n) p \<Longrightarrow> spec p (pattern_atom R p) (gives (pattern_ok expr_ok) p)"
  unfolding pattern_atom_def Let_def
  by (rule spec_andthen, rule pattern_kind_spec [THEN spec_call_less [where m = n]]) (auto simp: gives_def)

lemma pattern_spec: "fits (Suc n) p \<Longrightarrow> spec p (pattern R p) (gives (pattern_ok expr_ok) p)"
proof -
  assume p: "fits (Suc n) p"
  let ?I = "\<lambda>a q. a \<noteq> [] \<and> list_all (pattern_ok expr_ok) a \<and> (at TPipe q \<or> 2 \<le> length a)"
  have alts: "spec q (loop (\<lambda>alts p.
           if at TPipe p then pmap (\<lambda>a. Inl (alts @ [a])) (pattern_atom R) (bump p) else POk (Inr alts) p) [a] q)
      (\<lambda>a _. 2 \<le> length a \<and> list_all (pattern_ok expr_ok) a)" if "fits n q" "pattern_ok expr_ok a" "at TPipe q" for q a
    by (rule loop_call [where m = n and I = ?I and J = "\<lambda>a _. 2 \<le> length a \<and> list_all (pattern_ok expr_ok) a"])
      (use that in \<open>auto simp: at_defs gives_def Suc_le_eq intro!: vc pattern_atom_spec [THEN spec_call [where m = "Suc n"]]\<close>)
  show ?thesis
    unfolding pattern_def
    by (rule spec_andthen, rule pattern_atom_spec [THEN spec_call_less [where m = n]])
      (use p in \<open>auto simp: gives_def intro!: spec_andthen alts [THEN spec_call [where m = n]]\<close>)
qed

end

subsection \<open>The knot\<close>

lemma knot_promises: "sub_parsers (knot n) n"
proof (induction n)
  case 0
  show ?case by unfold_locales (simp_all add: fits_def)
next
  case (Suc n)
  note specs = sub_parsers.expr_spec [OF Suc.IH] sub_parsers.ternary_spec [OF Suc.IH] sub_parsers.binary_spec [OF Suc.IH]
    sub_parsers.unary_spec [OF Suc.IH] sub_parsers.method_call_spec [OF Suc.IH] sub_parsers.postfix_from_spec [OF Suc.IH]
    sub_parsers.elsif_spec [OF Suc.IH] sub_parsers.not_expr_spec [OF Suc.IH] sub_parsers.expr_stmt_spec [OF Suc.IH]
    sub_parsers.stmt_spec [OF Suc.IH] sub_parsers.stmts_returns [OF Suc.IH] sub_parsers.pattern_spec [OF Suc.IH]
    sub_parsers.ty_spec [OF Suc.IH]
  show ?case by unfold_locales (simp_all add: tie_def specs at_kw_def)
qed

end
