(* ===== verification/Parse_Total_Items.thy ===== *)
theory Parse_Total_Items
  imports Parse_Total_Stmts Lexer_Safety
begin

text \<open>
  The contracts of declarations and programs: what an item the parser makes promises to the later
  stages, and that a program is parsed to the end whatever the tokens are.
\<close>

subsection \<open>Well-formed declarations\<close>

definition effect_ok :: "effect \<Rightarrow> bool" where
  "effect_ok e \<longleftrightarrow> ef_path e \<noteq> [] \<and> list_all expr_ok (ef_args e)"

text \<open>
  Only a \<open>native def\<close> is pure; it is a function without a body. The short form has one expression,
  and an abstract function in the long form has none.
\<close>

definition fn_ok :: "fn_def \<Rightarrow> bool" where
  "fn_ok d \<longleftrightarrow>
     list_all (param_ok expr_ok) (fn_params d) \<and> pred_option ty_ok (fn_ret d) \<and>
     list_all effect_ok (fn_effects d) \<and> pred_option expr_ok (fn_model d) \<and> body_ok expr_ok (fn_body d) \<and>
     (fn_pure d \<longrightarrow> fn_kind d = FkNative) \<and>
     (fn_kind d = FkNative \<longrightarrow> bd_stmts (fn_body d) = [] \<and> \<not> fn_short d \<and> \<not> fn_is_abstract d \<and> \<not> fn_on_self d) \<and>
     (fn_short d \<longrightarrow> length (bd_stmts (fn_body d)) = 1 \<and> bd_rescues (fn_body d) = [] \<and> bd_ensure (fn_body d) = None) \<and>
     (fn_is_abstract d \<and> \<not> fn_short d \<longrightarrow> bd_stmts (fn_body d) = [])"

text \<open>An instance variable has a type or an initial value; another field has a type.\<close>

definition field_ok :: "field \<Rightarrow> bool" where
  "field_ok f \<longleftrightarrow> pred_option ty_ok (fd_ty f) \<and> pred_option expr_ok (fd_default f) \<and>
     (if fd_is_ivar f then fd_ty f \<noteq> None \<or> fd_default f \<noteq> None else fd_ty f \<noteq> None)"

definition handler_ok :: "handler \<Rightarrow> bool" where
  "handler_ok h \<longleftrightarrow>
     list_all (param_ok expr_ok) (hd_params h) \<and> pred_option ty_ok (hd_ret h) \<and> body_ok expr_ok (hd_body h)"

text \<open>Variants are members of enums, handlers of agents; a \<open>native def\<close> is no member.\<close>

fun member_ok :: "type_kind \<Rightarrow> member \<Rightarrow> bool" where
  "member_ok tk (MField f) \<longleftrightarrow> field_ok f"
| "member_ok tk (MMethod d) \<longleftrightarrow> fn_ok d \<and> fn_kind d \<noteq> FkNative"
| "member_ok tk (MInclude t) \<longleftrightarrow> ty_ok t"
| "member_ok tk (MVariant v) \<longleftrightarrow> tk = TkEnum \<and> list_all (\<lambda>f. field_ok f \<and> \<not> fd_is_ivar f) (vr_fields v)"
| "member_ok tk (MHandler h) \<longleftrightarrow> tk = TkAgent \<and> handler_ok h"
| "member_ok tk (MDirective d) \<longleftrightarrow> list_all (pred_arg expr_ok) (dr_args d)"

definition type_ok :: "type_def \<Rightarrow> bool" where
  "type_ok t \<longleftrightarrow> list_all (pred_arg expr_ok) (td_options t) \<and> list_all (member_ok (td_kind t)) (td_members t)"

text \<open>Only the last parameter of a macro is variadic.\<close>

definition macro_ok :: "macro_def \<Rightarrow> bool" where
  "macro_ok m \<longleftrightarrow> (\<forall>i < length (mc_params m). mp_variadic (mc_params m ! i) \<longrightarrow> Suc i = length (mc_params m))"

text \<open>A function outside a type has no receiver.\<close>

fun item_ok :: "item \<Rightarrow> bool" where
  "item_ok (IFn d) \<longleftrightarrow> fn_ok d"
| "item_ok (IType t) \<longleftrightarrow> type_ok t"
| "item_ok (IModel m) \<longleftrightarrow> list_all (pred_arg expr_ok) (md_options m)"
| "item_ok (IMacro m) \<longleftrightarrow> macro_ok m"
| "item_ok (IStmt e) \<longleftrightarrow> expr_ok e"

text \<open>What the clauses and the body of a function header promise to its definition.\<close>

definition clauses_ok :: "bool \<Rightarrow> effect list \<times> expr option \<times> bool \<Rightarrow> bool" where
  "clauses_ok native c = (case c of (es, model, pure) \<Rightarrow>
     list_all effect_ok es \<and> pred_option expr_ok model \<and> (pure \<longrightarrow> native))"

definition fn_body_ok :: "bool \<Rightarrow> bool \<Rightarrow> expr body \<times> bool \<Rightarrow> bool" where
  "fn_body_ok native is_abstract c = (case c of (b, short) \<Rightarrow> body_ok expr_ok b \<and>
     (native \<longrightarrow> bd_stmts b = [] \<and> \<not> short) \<and> (is_abstract \<and> \<not> short \<longrightarrow> bd_stmts b = []) \<and>
     (short \<longrightarrow> length (bd_stmts b) = 1 \<and> bd_rescues b = [] \<and> bd_ensure b = None))"

context sub_parsers
begin

subsection \<open>Parts of declarations\<close>

lemma param_spec: "fits n p \<Longrightarrow> spec p (param R p) (gives (param_ok expr_ok) p)"
  by (cases "kind p") (auto simp: param_def Let_def gives_def param_ok_def at_defs intro!: vc)

lemma params_spec: "fits n p \<Longrightarrow> spec p (params R p) (gives (list_all (param_ok expr_ok)) p)"
  unfolding params_def
  by (auto simp: gives_def intro!: vc comma_list_spec [where I = "list_all (param_ok expr_ok)", THEN spec_call [where m = n]]
      push_item_spec param_spec [THEN gives_any])

lemma tight_params_spec: "fits n p \<Longrightarrow> spec p (tight_params R p) (\<lambda>a _. list_all (param_ok expr_ok) a)"
  by (auto simp: tight_params_def params_spec [THEN gives_any])

lemma ret_type_spec: "fits n p \<Longrightarrow> spec p (ret_type R p) (\<lambda>a _. pred_option ty_ok a)"
  by (auto simp: ret_type_def at_defs gives_def intro!: vc)

lemma effect_args_spec:
  "fits n p \<Longrightarrow> list_all (pred_arg expr_ok) args \<Longrightarrow> list_all expr_ok acc \<Longrightarrow>
     spec p (effect_args args acc p) (\<lambda>a _. list_all expr_ok a)"
  by (induction args acc p rule: effect_args.induct) (auto intro: spec_fail fits_ok)

lemma dot_path_spec: "fits n p \<Longrightarrow> path \<noteq> [] \<Longrightarrow> spec p (dot_path path p) (\<lambda>a _. a \<noteq> [])"
  unfolding dot_path_def
  by (rule loop_call [where I = "\<lambda>a _. a \<noteq> []"]) (auto simp: at_defs gives_def intro!: vc)

lemma effect_spec: "fits n p \<Longrightarrow> spec p (effect R p) (gives effect_ok p)"
  unfolding effect_def
  by (auto simp: gives_def effect_ok_def at_defs args_ok_def intro!: vc dot_path_spec [THEN spec_call [where m = n]]
      paren_args_spec [THEN spec_call [where m = n]] effect_args_spec [THEN spec_call [where m = n]])

lemma effects_spec: "fits n p \<Longrightarrow> spec p (effects R p) (\<lambda>a _. list_all effect_ok a)"
  unfolding effects_def
  by (rule loop_call [where I = "\<lambda>a _. list_all effect_ok a"])
    (auto simp: at_defs gives_def intro!: vc effect_spec [THEN spec_call [where m = n]])

lemma clause_round_spec:
  "fits n p \<Longrightarrow> clauses_ok native acc \<Longrightarrow>
     spec p (clause_round R native acc p) (round_ok p (\<lambda>a _. clauses_ok native a) (\<lambda>a _. clauses_ok native a))"
  by (cases acc) (auto simp: clause_round_def clauses_ok_def gives_def at_defs intro!: vc
      effects_spec [THEN spec_call [where m = n]])

lemma clauses_spec:
  "fits n p \<Longrightarrow> spec p (loop (clause_round R native) ([], None, False) p) (\<lambda>a _. clauses_ok native a)"
  by (rule loop_call [where I = "\<lambda>a _. clauses_ok native a" and J = "\<lambda>a _. clauses_ok native a" and m = n])
    (auto simp: clause_round_spec, simp add: clauses_ok_def)

lemma fn_body_of_spec:
  "fits n p \<Longrightarrow> (native \<longrightarrow> \<not> is_abstract) \<Longrightarrow> spec p (fn_body_of R native is_abstract s w p) (\<lambda>a _. fn_body_ok native is_abstract a)"
  unfolding fn_body_of_def
  by (auto simp: fn_body_ok_def body_new_def body_ok_def [of _ "Body _ _ _ _"] gives_def at_defs intro!: vc
      body_spec [THEN spec_call [where m = n]])

lemma on_self_prefix_spec: "fits n p \<Longrightarrow> spec p (on_self_prefix native p) (\<lambda>a _. native \<longrightarrow> \<not> a)"
  by (auto simp: on_self_prefix_def intro!: vc)

lemma eat_abstract: "fits n p \<Longrightarrow> eat_kw w p = (b, q) \<Longrightarrow> fits n q \<and> ext p q \<and> pr_pos p \<le> pr_pos q"
  using eat_ext(2) [of p w] fits_steps(3) [of n p w] pos_steps(7) [of "pr_pos p" p w]
  by (auto dest: fits_ok)

lemma fn_keyword_some:
  "fn_keyword native k = Some (fk, w) \<Longrightarrow> k \<noteq> TEof \<and> (fk = FkNative \<longrightarrow> native \<and> k = TKw KDef) \<and> (native \<and> k = TKw KDef \<longrightarrow> fk = FkNative)"
  by (auto simp: fn_keyword_def split: if_splits)

lemma at_native_kinds: "at_native p \<Longrightarrow> fits n p \<Longrightarrow> kind p \<noteq> TEof \<and> kind (bump p) = TKw KDef"
  using pos_bump [of n p] by (auto simp: at_native_def at_defs nth_kind_def kind_def peek_def bump_def split: if_splits)

lemma fn_ok_make:
  assumes "list_all (param_ok expr_ok) ps" "pred_option ty_ok ret" "clauses_ok native (es, model, pure)"
    "fn_body_ok native ab (b, short)" "native \<longrightarrow> \<not> on_self \<and> \<not> ab" "k = FkNative \<longleftrightarrow> native"
  shows "fn_ok \<lparr>fn_kind = k, fn_doc = doc, fn_is_abstract = ab, fn_on_self = on_self, fn_name = name,
            fn_params = ps, fn_ret = ret, fn_effects = es, fn_model = model, fn_body = b, fn_short = short,
            fn_pure = pure, fn_span = s\<rparr>"
  using assms by (auto simp: fn_ok_def clauses_ok_def fn_body_ok_def)

lemma fn_rest_spec:
  assumes p: "fits n p" and k: "k = FkNative \<longleftrightarrow> native" "native \<longrightarrow> \<not> ab"
  shows "spec p (fn_rest R doc native ab start k ks w p) (\<lambda>d _. fn_ok d \<and> (fn_kind d = FkNative \<longleftrightarrow> native))"
proof -
  have tail: "spec p (andthen (fn_body_of R native ab ks w) (\<lambda>(b, short) q. POk \<lparr>fn_kind = k, fn_doc = doc,
        fn_is_abstract = ab, fn_on_self = on_self, fn_name = name, fn_params = ps, fn_ret = ret, fn_effects = es,
        fn_model = model, fn_body = b, fn_short = short, fn_pure = pure, fn_span = span_to start (prev_span q)\<rparr> q) q)
      (\<lambda>d _. fn_ok d \<and> (fn_kind d = FkNative \<longleftrightarrow> native))"
    if q: "fits n q" "ext p q" and ok: "list_all (param_ok expr_ok) ps" "pred_option ty_ok ret"
      "clauses_ok native (es, model, pure)" "native \<longrightarrow> \<not> on_self"
    for q on_self name ps ret es model pure
  proof (rule spec_andthen, rule fn_body_of_spec [THEN spec_call [where m = n]])
    fix c r
    assume r: "ext p r" and c: "fn_body_ok native ab c"
    obtain b short where bs: "c = (b, short)" by (cases c)
    show "spec p ((case c of (b, short) \<Rightarrow> \<lambda>q. POk \<lparr>fn_kind = k, fn_doc = doc,
        fn_is_abstract = ab, fn_on_self = on_self, fn_name = name, fn_params = ps, fn_ret = ret, fn_effects = es,
        fn_model = model, fn_body = b, fn_short = short, fn_pure = pure, fn_span = span_to start (prev_span q)\<rparr> q) r)
      (\<lambda>d _. fn_ok d \<and> (fn_kind d = FkNative \<longleftrightarrow> native))"
      using r c ok k unfolding bs by (simp add: fn_ok_make [where native = native])
  qed (use q k in auto)
  show ?thesis
    unfolding fn_rest_def
    apply (rule spec_andthen, rule on_self_prefix_spec [THEN spec_call [where m = n]])
       apply (use p in auto)[2]
     apply (simp add: p)
    apply (rule spec_andthen, rule name_calls(1) [where m = n], assumption, assumption)
    apply (rule spec_andthen, rule tight_params_spec [THEN spec_call [where m = n]], assumption, assumption, assumption)
    apply (rule spec_andthen, rule ret_type_spec [THEN spec_call [where m = n]], assumption, assumption, assumption)
    apply (rule spec_andthen, rule clauses_spec [THEN spec_call [where m = n]], assumption, assumption, assumption)
    subgoal for _ _ _ _ _ _ _ _ c q by (cases c) (simp add: tail)
    done
qed

lemma fn_def_spec:
  assumes p: "fits n p"
  shows "spec p (fn_def R doc p) (gives (\<lambda>d. fn_ok d \<and> (fn_kind d = FkNative \<longleftrightarrow> at_native p)) p)"
proof -
  define p1 where "p1 = (if at_native p then bump p else p)"
  obtain ab p2 where ab: "(if at_native p then (False, p1) else eat_kw KAbstract p1) = (ab, p2)" by fastforce
  have p1: "fits n p1" "ext p p1" using p by (simp_all add: p1_def)
  have p2: "fits n p2" "ext p p2"
    using ab p1 eat_abstract [of p1 KAbstract ab p2] ext_trans [of p p1 p2] by (auto split: if_splits)
  have native: "at_native p \<longrightarrow> kind p2 = TKw KDef \<and> \<not> ab" using ab p at_native_kinds [of p] by (auto simp: p1_def)
  have eq: "fn_def R doc p = (case fn_keyword (at_native p) (kind p2) of None \<Rightarrow> unexpected (str ''`def`'') p2
      | Some (k, keyword) \<Rightarrow> fn_rest R doc (at_native p) ab (cur_span p) k (cur_span p2) keyword (bump p2))"
    unfolding fn_def_def Let_def p1_def [symmetric] ab by (simp only: prod.case)
  show ?thesis
  proof (cases "fn_keyword (at_native p) (kind p2)")
    case None
    with p2 show ?thesis by (simp add: eq unexpected_call)
  next
    case (Some c)
    with native obtain k w where k: "fn_keyword (at_native p) (kind p2) = Some (k, w)" by (cases c) auto
    from fn_keyword_some [OF k] native have kk: "kind p2 \<noteq> TEof" "k = FkNative \<longleftrightarrow> at_native p" by blast+
    with p2 ext_pos [OF p2(2)] have b: "fits n (bump p2)" "ext p (bump p2)" "pr_pos p < pr_pos (bump p2)" by simp_all
    show ?thesis
      by (simp add: eq k, rule fn_rest_spec [THEN spec_call [where m = n]])
        (use b kk native in \<open>auto simp: gives_def\<close>)
  qed
qed

lemma constant_fn_spec: "fits n p \<Longrightarrow> spec p (constant_fn R doc p) (gives (\<lambda>d. fn_ok d \<and> fn_kind d = FkDef) p)"
  unfolding constant_fn_def Let_def
  by (auto simp: gives_def fn_ok_def body_new_def body_ok_def [of _ "Body _ _ _ _"] intro!: vc)

subsection \<open>Macros, models, types\<close>

lemma macro_param_round_spec: "fits n p \<Longrightarrow> spec p (macro_param_round ps p) (round_ok p (\<lambda>_ _. True) (\<lambda>_ _. True))"
proof -
  assume p: "fits n p"
  obtain v q where v: "eat TStar p = (v, q)" by fastforce
  with p have "fits n q" "ext p q" "pr_pos p \<le> pr_pos q"
    using eat_ext(1) [of p TStar] fits_ext [of n p q] by (auto simp: fits_ok dest: ext_pos)
  with p v show ?thesis by (auto simp: macro_param_round_def Let_def at_defs gives_def intro!: vc)
qed

lemma macro_params_spec: "fits n p \<Longrightarrow> spec p (macro_params p) (\<lambda>_ _. True)"
  unfolding macro_params_def
  by (auto simp: at_defs intro!: vc loop_call [where m = n and I = "\<lambda>_ _. True" and J = "\<lambda>_ _. True"] macro_param_round_spec)

lemma variadic_last: "\<not> bad_variadic ps \<Longrightarrow> \<forall>i < length ps. mp_variadic (ps ! i) \<longrightarrow> Suc i = length ps"
proof (cases ps rule: rev_cases)
  case (snoc qs q)
  assume "\<not> bad_variadic ps"
  with snoc have "\<forall>x \<in> set qs. \<not> mp_variadic x" by (simp add: bad_variadic_def list_ex_iff)
  with snoc show ?thesis by (auto simp: nth_append split: if_splits)
qed simp

lemma macro_def_spec: "fits n p \<Longrightarrow> kind p \<noteq> TEof \<Longrightarrow> spec p (macro_def doc p) (gives macro_ok p)"
  unfolding macro_def_def Let_def
  by (auto simp: gives_def macro_ok_def split: token_kind.split intro!: vc macro_params_spec [THEN spec_call [where m = n]]
      dest!: variadic_last)

lemma options_spec: "fits n p \<Longrightarrow> spec p (options R p) (\<lambda>a _. list_all (pred_arg expr_ok) a)"
  by (auto simp: options_def at_defs args_ok_def intro!: vc arg_list_spec [THEN spec_call [where m = n]])

lemma model_decl_spec:
  "fits n p \<Longrightarrow> kind p \<noteq> TEof \<Longrightarrow> spec p (model_decl R p) (gives (\<lambda>m. list_all (pred_arg expr_ok) (md_options m)) p)"
  unfolding model_decl_def Let_def
  by (cases "kind (bump p)") (auto simp: gives_def intro!: vc options_spec [THEN spec_call [where m = n]])

lemma default_value_spec: "fits n p \<Longrightarrow> spec p (default_value R p) (\<lambda>a _. pred_option expr_ok a)"
  by (auto simp: default_value_def at_defs gives_def intro!: vc)

lemma field_spec: "fits n p \<Longrightarrow> spec p (field R doc p) (gives (\<lambda>f. field_ok f \<and> \<not> fd_is_ivar f) p)"
  by (cases "kind p") (auto simp: field_def Let_def gives_def field_ok_def intro!: vc default_value_spec [THEN spec_call [where m = n]])

lemma ivar_field_spec: "fits n p \<Longrightarrow> kind p \<noteq> TEof \<Longrightarrow> spec p (ivar_field R doc x p) (gives field_ok p)"
  unfolding ivar_field_def Let_def
  by (auto simp: gives_def field_ok_def at_defs intro!: vc default_value_spec [THEN spec_call [where m = n]])

lemma variant_spec:
  "fits n p \<Longrightarrow> spec p (variant R doc p) (gives (\<lambda>v. list_all (\<lambda>f. field_ok f \<and> \<not> fd_is_ivar f) (vr_fields v)) p)"
  unfolding variant_def
  by (auto simp: gives_def at_defs intro!: vc field_spec [THEN gives_any] push_item_spec
      comma_list_spec [where I = "list_all (\<lambda>f. field_ok f \<and> \<not> fd_is_ivar f)", THEN spec_call [where m = n]])

lemma handler_spec: "fits n p \<Longrightarrow> kind p \<noteq> TEof \<Longrightarrow> spec p (handler R doc p) (gives handler_ok p)"
  unfolding handler_def Let_def
  by (auto simp: gives_def handler_ok_def intro!: vc tight_params_spec [THEN spec_call [where m = n]]
      ret_type_spec [THEN spec_call [where m = n]] body_spec [THEN spec_call [where m = n]])

lemma directive_spec: "fits n p \<Longrightarrow> spec p (directive R p) (gives (\<lambda>d. list_all (pred_arg expr_ok) (dr_args d)) p)"
  unfolding directive_def Let_def
  by (auto simp: gives_def args_ok_def intro!: vc command_args_spec [THEN spec_call [where m = n]])

lemma member_spec: "fits n p \<Longrightarrow> spec p (member R tk p) (gives (member_ok tk) p)"
proof -
  assume p: "fits n p"
  have fn: "spec p (pmap MMethod (fn_def R doc) p) (gives (member_ok tk) p)" if "\<not> at_native p" for doc
    by (rule spec_pmap, rule fn_def_spec [THEN spec_weaken]) (use p that in \<open>auto simp: gives_def\<close>)
  have native: "\<not> at_native p" if "kind p = TKw w" for w using that by (simp add: at_native_def at_defs)
  have un: "spec p (unexpected e p) Q" and fl: "spec p (fail s m p) Q" for e s m Q
    using p by (auto intro: unexpected_call fail_call)
  have calls: "spec p (pmap MField (field R doc) p) (gives (member_ok tk) p)"
    "kind p \<noteq> TEof \<Longrightarrow> spec p (pmap MField (ivar_field R doc x) p) (gives (member_ok tk) p)"
    "kind p \<noteq> TEof \<Longrightarrow> spec p (pmap MInclude (s_ty R) (bump p)) (gives (member_ok tk) p)"
    "kind p \<noteq> TEof \<Longrightarrow> spec p (pmap MHandler (handler R doc) p) (gives (member_ok TkAgent) p)"
    "spec p (pmap MDirective (directive R) p) (gives (member_ok tk) p)"
    "spec p (pmap MMethod (constant_fn R doc) p) (gives (member_ok tk) p)"
    "spec p (pmap MVariant (variant R doc) p) (gives (member_ok TkEnum) p)" for doc x
    by (rule spec_pmap, rule spec_weaken, rule field_spec ivar_field_spec s_ty handler_spec directive_spec
        constant_fn_spec variant_spec, use p in \<open>auto simp: gives_def\<close>)+
  show ?thesis
    unfolding member_def Let_def
    by (cases "kind p") (auto simp: un fl fn native calls)
qed

lemma members_round_spec:
  assumes p: "fits n p" and ms: "list_all (member_ok tk) ms"
  shows "spec p (members_round R tk ms p) (round_ok p (\<lambda>a _. list_all (member_ok tk) a) (\<lambda>a _. list_all (member_ok tk) a))"
proof -
  let ?s = "skip_newlines p"
  have s: "fits n ?s" "ext p ?s" "pr_pos p \<le> pr_pos ?s" using p by auto
  show ?thesis
  proof (cases "at_kw KEnd ?s \<or> at TEof ?s \<or> MAX_DIAGNOSTICS \<le> length (pr_diags ?s)")
    case True
    with s ms show ?thesis by (auto simp: members_round_def)
  next
    case False
    then have "kind ?s \<noteq> TEof" by (simp add: at_def)
    note go = bump_if_at_ext [OF s(1) this]
    have next_round: "ext p (bump_if_at (pr_pos ?s) q) \<and> pr_pos p < pr_pos (bump_if_at (pr_pos ?s) q)" if "ext ?s q" for q
      using go [OF that] s ext_trans by (metis order.strict_trans1)
    from member_spec [OF s(1), of tk] show ?thesis
      by (cases "member R tk ?s") (use False ms next_round after_ext [OF s(1)] in
          \<open>auto simp: members_round_def spec_def gives_def Let_def\<close>)
  qed
qed

lemma members_spec: "fits n p \<Longrightarrow> spec p (members R tk p) (\<lambda>a _. list_all (member_ok tk) a)"
  unfolding members_def
  by (rule loop_call [where m = n and I = "\<lambda>a _. list_all (member_ok tk) a" and J = "\<lambda>a _. list_all (member_ok tk) a"])
    (auto simp: members_round_spec)

lemma type_def_spec: "fits n p \<Longrightarrow> kind p \<noteq> TEof \<Longrightarrow> spec p (type_def R tk doc p) (gives type_ok p)"
  unfolding type_def_def Let_def
  by (auto simp: gives_def type_ok_def intro!: vc options_spec [THEN spec_call [where m = n]] members_spec [THEN spec_call [where m = n]])

subsection \<open>Programs\<close>

lemma fn_ok_on_self: "fn_ok d \<Longrightarrow> fn_ok (d\<lparr>fn_on_self := False\<rparr>)"
  by (simp add: fn_ok_def)

lemma item_spec: "fits n p \<Longrightarrow> kind p \<noteq> TEof \<Longrightarrow> spec p (item R p) (gives item_ok p)"
proof -
  assume p: "fits n p" and k: "kind p \<noteq> TEof"
  have calls: "spec p (pmap IFn (fn_def R doc) p) (gives item_ok p)"
    "spec p (pmap IType (type_def R tk doc) p) (gives item_ok p)"
    "spec p (pmap IStmt (s_stmt R) p) (gives item_ok p)"
    "spec p (pmap IModel (model_decl R) p) (gives item_ok p)"
    "spec p (pmap IMacro (macro_def doc) p) (gives item_ok p)"
    "spec p (pmap (\<lambda>d. IFn (d\<lparr>fn_on_self := False\<rparr>)) (constant_fn R doc) p) (gives item_ok p)" for doc tk
    by (rule spec_pmap, rule spec_weaken, rule fn_def_spec type_def_spec s_stmt model_decl_spec macro_def_spec
        constant_fn_spec, use p k in \<open>auto simp: gives_def fn_ok_on_self\<close>)+
  show ?thesis
    unfolding item_def Let_def
    by (cases "kind p") (use calls in \<open>auto split: option.split\<close>)
qed

definition items_ok :: "item list \<times> span option option \<Rightarrow> bool" where
  "items_ok acc \<longleftrightarrow> list_all item_ok (fst acc)"

lemma program_round_spec:
  assumes p: "fits n p" and acc: "items_ok acc"
  shows "spec p (program_round R acc p) (round_ok p (\<lambda>a _. items_ok a) (\<lambda>a q. list_all item_ok a \<and> (at TEof q \<or> MAX_DIAGNOSTICS \<le> length (pr_diags q))))"
proof -
  let ?s = "skip_newlines p"
  obtain items after where a: "acc = (items, after)" by (cases acc)
  have s: "fits n ?s" "ext p ?s" "pr_pos p \<le> pr_pos ?s" using p by auto
  consider (stop) "at TEof ?s \<or> MAX_DIAGNOSTICS \<le> length (pr_diags ?s)"
    | (body) start where "kind ?s \<noteq> TEof" "\<not> MAX_DIAGNOSTICS \<le> length (pr_diags ?s)" "after = Some start" "at_kw KEnd ?s"
    | (item) "kind ?s \<noteq> TEof" "\<not> MAX_DIAGNOSTICS \<le> length (pr_diags ?s)" "after = None \<or> \<not> at_kw KEnd ?s"
    by (cases after) (auto simp: at_def)
  then show ?thesis
  proof cases
    case stop
    with s acc a show ?thesis by (auto simp: program_round_def items_ok_def)
  next
    case body
    with s acc a show ?thesis by (auto simp: program_round_def items_ok_def at_def Let_def)
  next
    case item
    let ?m = "?s\<lparr>pr_misaligned_end := None\<rparr>"
    have m: "fits n ?m" "ext ?s ?m" "kind ?m \<noteq> TEof" "pr_pos ?m = pr_pos ?s"
      using s item(1) by (simp_all add: fits_def weight_def kind_def peek_def)
    have next_round: "ext p (bump_if_at (pr_pos ?s) q) \<and> pr_pos p < pr_pos (bump_if_at (pr_pos ?s) q)" if "ext ?m q" for q
    proof -
      from bump_if_at_ext [OF m(1,3) that] have "ext ?m (bump_if_at (pr_pos ?s) q)" "pr_pos ?s < pr_pos (bump_if_at (pr_pos ?s) q)"
        by (simp_all only: m(4))
      with ext_trans [OF ext_trans [OF s(2) m(2)]] s(3) show ?thesis by (blast intro: order.strict_trans1)
    qed
    have eq: "program_round R acc p = (case Parse_Items.item R ?m of
             Diverge \<Rightarrow> Diverge
           | Panic \<Rightarrow> Panic
           | POk i p \<Rightarrow>
               POk (Inl (items @ [i], after_native_of i after)) (bump_if_at (pr_pos ?s)
                 (if \<not> at_line_end p then recover_line (note_unexpected (str ''end of line'') p) else p))
           | PErr p \<Rightarrow> POk (Inl (items, after)) (bump_if_at (pr_pos ?s) (resume_at_definition p)))"
      using item by (cases after; cases "at_kw KEnd ?s") (simp_all add: program_round_def a Let_def at_def split: pres.split)
    from item_spec [OF m(1,3)] show ?thesis unfolding eq
      by (cases "Parse_Items.item R ?m") (use acc a next_round after_ext [OF m(1)] in
          \<open>auto simp: spec_def gives_def items_ok_def\<close>)
  qed
qed

lemma program_spec:
  "fits n p \<Longrightarrow> spec p (program R p) (\<lambda>a q. list_all item_ok a \<and> (at TEof q \<or> MAX_DIAGNOSTICS \<le> length (pr_diags q)))"
  unfolding program_def
  by (rule loop_call [where m = n and I = "\<lambda>a _. items_ok a"
      and J = "\<lambda>a q. list_all item_ok a \<and> (at TEof q \<or> MAX_DIAGNOSTICS \<le> length (pr_diags q))"])
    (auto simp: program_round_spec, simp add: items_ok_def)

end

end
