(* ===== verification/Parse_Props.thy ===== *)
theory Parse_Props
  imports Parse_Total_Items
begin

text \<open>
  The properties of the parser: every text is parsed, whatever it holds, to well-formed items; the
  contract of expressions and statement lists; documentation comments; macro expansions.
\<close>

subsection \<open>From the lexer to the parser\<close>

lemma token_wf_ok: "token_wf L t \<Longrightarrow> token_ok t" and part_wf_ok: "part_wf L s \<Longrightarrow> str_part_ok s"
  by (induction L t and L s rule: token_wf_part_wf.induct)
    (auto simp: list_all_iff split: token_kind.splits)

lemma parser_new_fits:
  assumes "tokens_end toks" "list_all token_ok toks"
  shows "fits (parse_fuel toks) (parser_new toks docs)"
  using assms by (auto simp: fits_def parser_ok_def parser_new_def weight_def parse_fuel_def tokens_end_def)

text \<open>What is known of a run over a whole token list.\<close>

definition parsed_to_end :: "token list \<Rightarrow> program \<Rightarrow> parser \<Rightarrow> bool" where
  "parsed_to_end toks prog q \<longleftrightarrow> list_all item_ok prog \<and> pr_toks q = toks \<and> \<not> pr_no_do q \<and> \<not> pr_in_index q \<and>
     (pr_pos q = length toks - 1 \<or> MAX_DIAGNOSTICS \<le> length (pr_diags q))"

lemma loopP_no_error_round: "(\<And>a q. no_error (f a q)) \<Longrightarrow> no_error (loop f a p)"
  unfolding loop_def by (rule loopP_no_error)

lemma program_no_error: "no_error (program R p)"
  unfolding program_def
  by (rule loopP_no_error_round)
    (auto simp: no_error_def program_round_def Let_def split: prod.split pres.split option.split bool.split)

lemma parse_tokens_ends:
  assumes "tokens_end toks" "list_all token_ok toks"
  shows "\<exists>prog q. parse_tokens docs toks = POk prog q \<and> parsed_to_end toks prog q"
proof -
  let ?p = "parser_new toks docs" let ?n = "parse_fuel toks"
  note fits = parser_new_fits [OF assms]
  have sel: "pr_toks ?p = toks" "\<not> pr_no_do ?p" "\<not> pr_in_index ?p" by (simp_all add: parser_new_def)
  from sub_parsers.program_spec [OF knot_promises fits]
  have "spec ?p (parse_tokens docs toks) (\<lambda>a q. list_all item_ok a \<and> (at TEof q \<or> MAX_DIAGNOSTICS \<le> length (pr_diags q)))"
    by (simp add: parse_tokens_def)
  moreover have "no_error (parse_tokens docs toks)" unfolding parse_tokens_def by (rule program_no_error)
  ultimately obtain prog q where q: "parse_tokens docs toks = POk prog q" "ext ?p q" "list_all item_ok prog"
    "at TEof q \<or> MAX_DIAGNOSTICS \<le> length (pr_diags q)"
    by (cases "parse_tokens docs toks") (auto simp: spec_def no_error_def)
  from q(2) fits have "parser_ok q" by (auto intro: ext_ok fits_ok)
  with q sel show ?thesis by (auto simp: parsed_to_end_def ext_def at_def kind_eof)
qed

lemma lexed_parse:
  obtains r where "lex_text u src = Some r" "tokens_end (ld_tokens r)" "list_all token_ok (ld_tokens r)"
proof -
  from lex_text_ok [of u src] obtain r where r: "lex_text u src = Some r" "lexed_wf (blen src) r" by blast
  show thesis
    by (rule that [OF r(1)]) (use r(2) token_wf_ok in \<open>auto simp: lexed_wf_def list_all_iff\<close>)
qed

subsection \<open>Macro expansions\<close>

lemma relocate_kind: "tk_kind (relocate_token s t) = TEof \<longleftrightarrow> tk_kind t = TEof"
  by (cases t) (auto split: token_kind.split)

lemma relocate_end: "tokens_end ts \<Longrightarrow> tokens_end (map (relocate_token s) ts)"
  by (auto simp: tokens_end_def relocate_kind last_map simp flip: map_butlast)

lemma relocate_ok: "token_ok t \<Longrightarrow> token_ok (relocate_token s t)" and "str_part_ok x \<Longrightarrow> str_part_ok (relocate_part s x)"
  by (induction s t and s x rule: relocate_token_relocate_part.induct)
    (auto simp: list_all_iff relocate_end split: token_kind.splits)

subsection \<open>Properties of whole parses\<close>

text \<open>
  C1: The parser is total and its items are well-formed: every text is parsed, without
  exhausting the fuel and without reaching an \<open>unreachable!\<close>, to items of which later stages may rely
  on what \<open>item_ok\<close> says.
\<close>

theorem parse_total_well_formed: "\<exists>r. parse u src = Some r \<and> list_all item_ok (ps_program r)"
proof -
  obtain r where r: "lex_text u src = Some r" "tokens_end (ld_tokens r)" "list_all token_ok (ld_tokens r)"
    by (rule lexed_parse)
  from parse_tokens_ends [OF r(2,3), of "doc_table_new src (ld_comments r)"] r(1) show ?thesis
    by (auto simp: parse_def parsed_to_end_def Let_def)
qed

text \<open>
  C18: A parse ends at the end of the file, unless a hundred errors stopped it, with the two
  context flags as they were at the start.
\<close>

theorem parse_reads_to_the_end:
  "case lex_text u src of None \<Rightarrow> False | Some r \<Rightarrow>
     (case parse_tokens (doc_table_new src (ld_comments r)) (ld_tokens r) of
        POk prog q \<Rightarrow> \<not> pr_no_do q \<and> \<not> pr_in_index q \<and>
          (pr_pos q = length (ld_tokens r) - 1 \<or> MAX_DIAGNOSTICS \<le> length (pr_diags q))
      | _ \<Rightarrow> False)"
proof -
  obtain r where r: "lex_text u src = Some r" "tokens_end (ld_tokens r)" "list_all token_ok (ld_tokens r)"
    by (rule lexed_parse)
  from parse_tokens_ends [OF r(2,3), of "doc_table_new src (ld_comments r)"] r(1) show ?thesis
    by (auto simp: parsed_to_end_def)
qed

text \<open>
  Every text a macro expands to is parsed, and every diagnostic of the expansion points at the
  invocation and has no notes.
\<close>

theorem parse_expansion_total:
  "\<exists>r. parse_expansion u src s = Some r \<and> list_all item_ok (ps_program r) \<and>
     list_all (\<lambda>d. dg_span d = s \<and> dg_notes d = []) (ps_diagnostics r)"
proof -
  obtain r where r: "lex_text u src = Some r" "tokens_end (ld_tokens r)" "list_all token_ok (ld_tokens r)"
    by (rule lexed_parse)
  let ?toks = "map (relocate_token s) (ld_tokens r)"
  have "list_all token_ok ?toks" using r(3) by (auto simp: list_all_iff relocate_ok)
  from parse_tokens_ends [OF relocate_end [OF r(2)] this, of "doc_table_new [] []"] r(1) show ?thesis
    by (auto simp: parse_expansion_def parsed_to_end_def Let_def diagnostic_new_def list_all_iff)
qed

subsection \<open>Properties of the parse functions\<close>

text \<open>
  C19: What an expression parser promises from any place in any well-formed token list, with
  more fuel than the weight of the tokens left: it ends, without panic; it gives the tokens, the
  comment table and the two context flags back as they were, with the position not moved back and
  still in range and no diagnostic lost; when it fails it has reported a diagnostic, and when it
  succeeds the expression is well-formed and at least one token was passed.
\<close>

theorem expr_contract:
  assumes "parser_ok p" "weight p \<le> n"
  shows "case expr_e (knot n) p of
     Diverge \<Rightarrow> False | Panic \<Rightarrow> False
   | PErr q \<Rightarrow> ext p q \<and> pr_diags q \<noteq> []
   | POk e q \<Rightarrow> ext p q \<and> expr_ok e \<and> pr_pos p < pr_pos q"
  using sub_parsers.expr_spec [OF knot_promises, of n p] assms
  by (auto simp: fits_def spec_def gives_def split: pres.splits)

text \<open>One operand and the end of the file.\<close>

definition sample_parser :: parser where
  "sample_parser = parser_new [Token (TInt 7) (span_new 0 1) False, Token TEof (span_new 1 1) False] (doc_table_new [] [])"

lemma sample_parser_ok: "parser_ok sample_parser" "weight sample_parser = 2"
  by (simp_all add: sample_parser_def parser_ok_def parser_new_def tokens_end_def weight_def tokens_weight_def)

lemma expr_contract_witness:
  "case expr_e (knot 2) sample_parser of
     Diverge \<Rightarrow> False | Panic \<Rightarrow> False
   | PErr q \<Rightarrow> ext sample_parser q \<and> pr_diags q \<noteq> []
   | POk e q \<Rightarrow> ext sample_parser q \<and> expr_ok e \<and> pr_pos sample_parser < pr_pos q"
  by (rule expr_contract) (simp_all add: sample_parser_ok)

text \<open>
  A list of statements always succeeds: an error in a statement is reported and the
  parser goes on behind it, whatever the tokens are and however many of them do not parse.
\<close>

theorem stmts_recover:
  assumes "parser_ok p" "weight p \<le> n"
  shows "\<exists>es q. stmts (knot n) stops p = POk es q \<and> ext p q \<and> list_all expr_ok es"
  using sub_parsers.stmts_returns [OF knot_promises, of n p stops] assms by (simp add: fits_def)

lemma stmts_recover_witness:
  "\<exists>es q. stmts (knot 2) [KEnd] sample_parser = POk es q \<and> ext sample_parser q \<and> list_all expr_ok es"
  by (rule stmts_recover) (simp_all add: sample_parser_ok)

text \<open>
  Documentation comments: the line of a span, and which comments a declaration is documented by.
\<close>

subsection \<open>Lines\<close>

lemma newline_offsets_above: "x \<in> set (newline_offsets i cs) \<Longrightarrow> i \<le> x"
proof (induction cs arbitrary: i)
  case (Cons c cs)
  then show ?case by (cases "c = newline_char") (auto dest!: Cons.IH)
qed simp

lemma newline_offsets_sorted: "sorted_wrt (<) (newline_offsets i cs)"
proof (induction cs arbitrary: i)
  case (Cons c cs)
  have "i < x" if "x \<in> set (newline_offsets (i + len_utf8 c) cs)" for x
    using newline_offsets_above [OF that] len_utf8_pos [of c] by linarith
  with Cons.IH [of "i + len_utf8 c"] show ?case by (cases "c = newline_char") auto
qed simp

lemma add_doc_starts [simp]: "dt_line_starts (add_doc d c) = dt_line_starts d"
  by (simp add: add_doc_def Let_def)

lemma doc_table_starts: "dt_line_starts (doc_table_new src comments) = 0 # map (\<lambda>i. i + 1) (newline_offsets 0 src)"
proof -
  have "dt_line_starts (foldl add_doc d cs) = dt_line_starts d" for d cs
    by (induction cs arbitrary: d) simp_all
  then show ?thesis by (simp add: doc_table_new_def)
qed

text \<open>On a sorted list the partition point splits what is below a bound from what is above it.\<close>

lemma partition_point_sorted:
  assumes "sorted_wrt (<) xs"
  shows "list_all (\<lambda>x. x \<le> (b::nat)) (take (partition_point (\<lambda>x. x \<le> b) xs) xs)"
    and "list_all (\<lambda>x. b < x) (drop (partition_point (\<lambda>x. x \<le> b) xs) xs)"
proof -
  show "list_all (\<lambda>x. x \<le> b) (take (partition_point (\<lambda>x. x \<le> b) xs) xs)"
    by (auto simp: partition_point_def takeWhile_eq_take [symmetric] list_all_iff dest: set_takeWhileD)
  have "list_all (\<lambda>x. b < x) (dropWhile (\<lambda>x. x \<le> b) xs)"
    using assms by (induction xs) (auto simp: list_all_iff)
  then show "list_all (\<lambda>x. b < x) (drop (partition_point (\<lambda>x. x \<le> b) xs) xs)"
    by (simp add: partition_point_def dropWhile_eq_drop)
qed

text \<open>
  The line a comment table gives a span: its index is in range (the subtraction does not
  underflow), the line starts at or before the span, and every later line starts after it.
\<close>

theorem line_of_span:
  "let d = doc_table_new src comments; l = line_of d s in
     l < length (dt_line_starts d) \<and> dt_line_starts d ! l \<le> unat (sp_start s) \<and>
     list_all (\<lambda>x. unat (sp_start s) < x) (drop (Suc l) (dt_line_starts d))"
proof -
  let ?d = "doc_table_new src comments" let ?b = "unat (sp_start s)"
  let ?xs = "dt_line_starts ?d" let ?k = "partition_point (\<lambda>x. x \<le> ?b) ?xs"
  have "sorted_wrt (<) ?xs"
    using newline_offsets_sorted [of 0 src] by (simp add: doc_table_starts sorted_wrt_map)
  note split = partition_point_sorted [OF this, of ?b]
  have "0 < ?k" by (simp add: partition_point_def doc_table_starts)
  moreover have "?k \<le> length ?xs" unfolding partition_point_def by (rule length_takeWhile_le)
  ultimately have k: "0 < ?k" "?k \<le> length ?xs" .
  have l: "line_of ?d s = ?k - 1" by (simp only: line_of_def line_of_start_def)
  have "?k - 1 < length (take ?k ?xs)" using k by simp
  from nth_mem [OF this] have "take ?k ?xs ! (?k - 1) \<le> ?b" using split(1) unfolding list_all_iff by blast
  moreover have "take ?k ?xs ! (?k - 1) = ?xs ! (?k - 1)" using k by (intro nth_take) simp
  ultimately have le: "?xs ! (?k - 1) \<le> ?b" by (simp only:)
  have "?k - 1 < length ?xs" "Suc (?k - 1) = ?k" using k by linarith+
  with le split(2) show ?thesis unfolding Let_def l by (simp only: simp_thms)
qed

subsection \<open>The comments of a declaration\<close>

lemma docs_above_run:
  "\<exists>k \<le> l. list_all (\<lambda>i. leading i \<noteq> None) [l - k..<l] \<and> (k = l \<or> leading (l - k - 1) = None) \<and>
     rev (docs_above leading l) = map (the \<circ> leading) [l - k..<l]"
proof (induction l)
  case (Suc l)
  show ?case
  proof (cases "leading l")
    case None
    then show ?thesis by (intro exI [of _ 0]) simp
  next
    case (Some t)
    from Suc.IH obtain k where k: "k \<le> l" "list_all (\<lambda>i. leading i \<noteq> None) [l - k..<l]"
      "k = l \<or> leading (l - k - 1) = None" "rev (docs_above leading l) = map (the \<circ> leading) [l - k..<l]" by blast
    have up: "[Suc l - Suc k..<Suc l] = [l - k..<l] @ [l]" using k(1) by simp
    show ?thesis
      by (intro exI [of _ "Suc k"], unfold up) (use k Some in auto)
  qed
qed simp

text \<open>
  A declaration is documented by the longest run of whole-line comments that ends just above its
  line, from the top down, and then by the comment at the end of its line; by nothing when there is
  neither.
\<close>

theorem doc_for_run:
  "\<exists>k \<le> line_of d s.
     list_all (\<lambda>i. dt_leading d i \<noteq> None) [line_of d s - k..<line_of d s] \<and>
     (k = line_of d s \<or> dt_leading d (line_of d s - k - 1) = None) \<and>
     doc_for d s =
       (let lines = map (the \<circ> dt_leading d) [line_of d s - k..<line_of d s] @
          (case dt_trailing d (line_of d s) of None \<Rightarrow> [] | Some t \<Rightarrow> [t])
        in if lines = [] then None else Some (join_lines lines))"
proof -
  from docs_above_run [of "line_of d s" "dt_leading d"] obtain k where k: "k \<le> line_of d s"
    "list_all (\<lambda>i. dt_leading d i \<noteq> None) [line_of d s - k..<line_of d s]"
    "k = line_of d s \<or> dt_leading d (line_of d s - k - 1) = None"
    "rev (docs_above (dt_leading d) (line_of d s)) = map (the \<circ> dt_leading d) [line_of d s - k..<line_of d s]" by blast
  show ?thesis
    by (intro exI [of _ k] conjI k(1,2,3), simp only: doc_for_def Let_def k(4)) simp
qed

end
