(* ===== verification/Infix_Props.thy ===== *)
theory Infix_Props
  imports Parse_Total_Items
begin

text \<open>
  Precedence and associativity: a tree of binary operators that respects the binding powers, written
  without parentheses, is parsed back to itself.
\<close>

subsection \<open>Operator trees and how they are written\<close>

datatype otree = OLeaf token_kind span bool | ONode otree token_kind span bool otree

text \<open>The tokens that are an operand on their own.\<close>

definition leaf_kind :: "token_kind \<Rightarrow> expr_kind option" where
  "leaf_kind k = (case k of
     TInt n \<Rightarrow> Some (EInt n) | TFloat f \<Rightarrow> Some (EFloat f) | TSymbol s \<Rightarrow> Some (ESymbol s) | TIVar x \<Rightarrow> Some (EIVar x)
   | TKw w \<Rightarrow> (if w = KTrue then Some (EBool True) else if w = KFalse then Some (EBool False)
               else if w = KNil then Some ENil else if w = KSelfKw then Some ESelfRef else None)
   | _ \<Rightarrow> None)"

primrec otokens :: "otree \<Rightarrow> token list" where
  "otokens (OLeaf k s b) = [Token k s b]"
| "otokens (ONode l k s b r) = otokens l @ Token k s b # otokens r"

primrec oexpr :: "otree \<Rightarrow> expr" where
  "oexpr (OLeaf k s b) = Expr (the (leaf_kind k)) s"
| "oexpr (ONode l k s b r) = infix_expr (fst (the (infix_at k))) False (oexpr l) (oexpr r)"

definition left_bp :: "token_kind \<Rightarrow> nat" where
  "left_bp k = fst (snd (the (infix_at k)))"

definition right_bp :: "token_kind \<Rightarrow> nat" where
  "right_bp k = snd (snd (the (infix_at k)))"

text \<open>The token after a tree does not continue it: it binds looser than every operator on the right edge.\<close>

primrec stops :: "token_kind \<Rightarrow> otree \<Rightarrow> bool" where
  "stops k (OLeaf k' s b) \<longleftrightarrow> True"
| "stops k (ONode l k' s b r) \<longleftrightarrow> (infix_at k = None \<or> left_bp k < right_bp k') \<and> stops k r"

primrec bp_ok :: "nat \<Rightarrow> otree \<Rightarrow> bool" where
  "bp_ok m (OLeaf k s b) \<longleftrightarrow> leaf_kind k \<noteq> None"
| "bp_ok m (ONode l k s b r) \<longleftrightarrow>
     infix_at k \<noteq> None \<and> m \<le> left_bp k \<and> bp_ok m l \<and> stops k l \<and> bp_ok (right_bp k) r"

text \<open>What follows an operand is no postfix form.\<close>

definition no_postfix :: "token_kind \<Rightarrow> bool" where
  "no_postfix k \<longleftrightarrow> k \<notin> {TDot, TSafeDot, TLBracket, TQuestion}"

definition reads_at :: "parser \<Rightarrow> token list \<Rightarrow> bool" where
  "reads_at p ts \<longleftrightarrow> take (length ts) (drop (pr_pos p) (pr_toks p)) = ts"

definition ahead :: "parser \<Rightarrow> nat \<Rightarrow> parser" where
  "ahead p n = p\<lparr>pr_pos := pr_pos p + n\<rparr>"

subsection \<open>Loops\<close>

lemma loopP_more: "loopP n f a p = POk b q \<Longrightarrow> loopP (Suc n) f a p = POk b q"
proof (induction n arbitrary: a p)
  case (Suc n)
  from Suc.prems obtain r p' where r: "f a p = POk r p'" by (auto simp: andthen_def split: pres.splits)
  show ?case
  proof (cases r)
    case (Inl a')
    with r Suc.prems have "loopP n f a' p' = POk b q" by (simp add: andthen_def)
    then have "loopP (Suc n) f a' p' = POk b q" by (rule Suc.IH)
    with r Inl show ?thesis by (simp add: andthen_def)
  next
    case (Inr c)
    with r Suc.prems show ?thesis by (simp add: andthen_def)
  qed
qed simp

lemma loopP_mono: "loopP n f a p = POk b q \<Longrightarrow> n \<le> m \<Longrightarrow> loopP m f a p = POk b q"
  by (rule dec_induct) (auto dest: loopP_more)

lemma loop_go:
  assumes "f a p = POk (Inl a') p'" "pr_toks p' = pr_toks p" "pr_pos p < pr_pos p'" "pr_pos p < length (pr_toks p)"
    and "loop f a' p' = POk b q"
  shows "loop f a p = POk b q"
proof -
  have "Suc (length (pr_toks p') - pr_pos p') \<le> length (pr_toks p) - pr_pos p" using assms(2,3,4) by simp
  with assms(5) have "loopP (length (pr_toks p) - pr_pos p) f a' p' = POk b q" unfolding loop_def by (rule loopP_mono)
  with assms(1) show ?thesis by (simp add: loop_def andthen_def)
qed

lemma loop_end: "f a p = POk (Inr b) q \<Longrightarrow> loop f a p = POk b q"
  by (simp add: loop_def andthen_def)

subsection \<open>The parser on the tokens of a tree\<close>

lemma reads_at_Cons: "reads_at p (t # ts) \<longleftrightarrow> pr_pos p < length (pr_toks p) \<and> peek p = t \<and> reads_at (ahead p 1) ts"
proof (cases "pr_pos p < length (pr_toks p)")
  case True
  then show ?thesis by (simp add: reads_at_def ahead_def peek_def Cons_nth_drop_Suc [symmetric])
qed (simp add: reads_at_def)

lemma ahead_ahead [simp]: "ahead (ahead p i) j = ahead p (i + j)"
  by (simp add: ahead_def add.assoc)

lemma ahead_sel [simp]:
  "pr_toks (ahead p i) = pr_toks p" "pr_pos (ahead p i) = pr_pos p + i"
  by (simp_all add: ahead_def)

lemma reads_at_append: "reads_at p (xs @ ys) \<longleftrightarrow> reads_at p xs \<and> reads_at (ahead p (length xs)) ys"
proof (induction xs arbitrary: p)
  case Nil
  show ?case by (simp add: reads_at_def ahead_def)
next
  case (Cons x xs)
  show ?case by (simp add: reads_at_Cons Cons.IH)
qed

lemma bump_ahead: "reads_at p (t # u # ts) \<Longrightarrow> bump p = ahead p 1"
  by (auto simp: reads_at_Cons bump_def ahead_def)

lemma infix_kinds: "infix_at k \<noteq> None \<Longrightarrow> no_postfix k \<and> k \<noteq> TNewline"
  by (auto simp: infix_at_def no_postfix_def)

lemma leaf_unary:
  assumes "reads_at p (Token k s b # u # ts)" "leaf_kind k = Some e" "no_postfix (tk_kind u)"
  shows "unary R p = POk (Expr e s) (ahead p 1)"
proof -
  have b: "bump p = ahead p 1" using assms(1) by (rule bump_ahead)
  have k: "kind p = k" "cur_span p = s" using assms(1) by (simp_all add: reads_at_Cons kind_def cur_span_def)
  have prim: "primary R p = POk (Expr e s) (ahead p 1)"
    using assms(2) unfolding primary_def Let_def k b by (cases k) (auto simp: leaf_kind_def split: if_splits)
  have nb: "\<not> takes_block (Expr e s)"
    using assms(2) by (cases k) (auto simp: leaf_kind_def takes_block_def split: if_splits)
  have u: "kind (ahead p 1) = tk_kind u" using assms(1) by (simp add: reads_at_Cons kind_def)
  have "postfix_round R (Expr e s) (ahead p 1) = POk (Inr (Expr e s)) (ahead p 1)"
    using assms(3) nb u by (auto simp: postfix_round_def Let_def no_postfix_def)
  from loop_end [where f = "postfix_round R", OF this] prim have "postfix R p = POk (Expr e s) (ahead p 1)"
    by (simp add: postfix_def andthen_def postfix_from_def)
  with assms(2) k show ?thesis by (auto simp: unary_def leaf_kind_def split: token_kind.splits)
qed

lemma otokens_first: "bp_ok m t \<Longrightarrow> \<exists>k s b ts. otokens t = Token k s b # ts \<and> leaf_kind k \<noteq> None"
  by (induction t arbitrary: m) (auto, fastforce)

lemma skip_at_leaf: "reads_at p (Token k s b # ts) \<Longrightarrow> leaf_kind k \<noteq> None \<Longrightarrow> skip_newlines p = p"
  by (auto simp: reads_at_Cons skip_newlines_def bump_while_def peek_def Cons_nth_drop_Suc [symmetric] leaf_kind_def)

lemma binary_tree:
  assumes "bp_ok m t" "reads_at p (otokens t @ u # ts)" "stops (tk_kind u) t" "no_postfix (tk_kind u)"
    and "length (otokens t) \<le> n"
    and "loop (binary_round (knot n) m) (oexpr t) (ahead p (length (otokens t))) = POk e q"
  shows "binary (knot n) m p = POk e q"
  using assms
proof (induction t arbitrary: m p u ts n e q)
  case (OLeaf k s b)
  from OLeaf.prems(1) obtain x where x: "leaf_kind k = Some x" by auto
  from leaf_unary [OF _ x OLeaf.prems(4)] OLeaf.prems(2) have "unary (knot n) p = POk (Expr x s) (ahead p 1)" by simp
  with OLeaf.prems(6) x show ?case by (simp add: binary_def andthen_def)
next
  case (ONode l k s b r)
  let ?i = "length (otokens l)" and ?j = "length (otokens r)"
  from ONode.prems(1) obtain op where op: "infix_at k = Some (op, left_bp k, right_bp k)"
    by (auto simp: left_bp_def right_bp_def)
  from ONode.prems(5) obtain n' where n: "n = Suc n'" "?j \<le> n'" by (cases n) auto
  have l: "reads_at p (otokens l @ Token k s b # (otokens r @ u # ts))" using ONode.prems(2) by simp
  then have at_op: "reads_at (ahead p ?i) (Token k s b # (otokens r @ u # ts))" by (simp add: reads_at_append)
  then have r: "reads_at (ahead p (?i + 1)) (otokens r @ u # ts)" by (simp add: reads_at_Cons)
  from ONode.prems(1) have rr: "bp_ok (right_bp k) r" by simp
  from otokens_first [OF rr] r obtain k' s' b' ts' where first: "reads_at (ahead p (?i + 1)) (Token k' s' b' # ts')"
    "leaf_kind k' \<noteq> None" "otokens r @ u # ts = Token k' s' b' # ts'" by auto
  have u: "kind (ahead p (?i + 1 + ?j)) = tk_kind u"
    using r by (simp add: reads_at_append reads_at_Cons kind_def)
  have stop: "binary_round (knot n') (right_bp k) (oexpr r) (ahead p (?i + 1 + ?j)) = POk (Inr (oexpr r)) (ahead p (?i + 1 + ?j))"
    using ONode.prems(3) unfolding binary_round_def u by (auto simp: left_bp_def split: option.split)
  from loop_end [where f = "binary_round (knot n') (right_bp k)", OF this] have rhs: "binary (knot n') (right_bp k) (ahead p (?i + 1)) = POk (oexpr r) (ahead p (?i + 1 + ?j))"
    by (intro ONode.IH(2) [OF rr r _ ONode.prems(4) n(2)]) (use ONode.prems(3) in simp_all)
  have pk: "kind (ahead p ?i) = k" "pr_pos (ahead p ?i) < length (pr_toks p)"
    using at_op by (simp_all add: reads_at_Cons kind_def)
  have step: "bump (ahead p ?i) = ahead p (?i + 1)" using bump_ahead [OF at_op [unfolded first(3)]] by simp
  have not_end: "\<not> at TRBracket (ahead p (?i + 1))"
    using first by (auto simp: at_def kind_def reads_at_Cons leaf_kind_def)
  have round: "binary_round (knot n) m (oexpr l) (ahead p ?i) = POk (Inl (oexpr (ONode l k s b r))) (ahead p (?i + 1 + ?j))"
    using ONode.prems(1) skip_at_leaf [OF first(1,2)] rhs not_end
    by (simp add: binary_round_def pk op step Let_def n(1) tie_def pmap_def andthen_def)
  have "loop (binary_round (knot n) m) (oexpr l) (ahead p ?i) = POk e q"
    by (rule loop_go [where f = "binary_round (knot n) m", OF round]) (use pk ONode.prems(6) in \<open>simp_all add: add.assoc\<close>)
  with ONode.prems(1,5) l op infix_kinds [of k] show ?case
    by (intro ONode.IH(1) [OF _ l]) auto
qed

lemma binary_tree_end:
  assumes "bp_ok m t" "reads_at p (otokens t @ [u])" "stops (tk_kind u) t" "no_postfix (tk_kind u)"
    and "infix_at (tk_kind u) = None \<or> left_bp (tk_kind u) < m" "length (otokens t) \<le> n"
  shows "binary (knot n) m p = POk (oexpr t) (ahead p (length (otokens t)))"
proof (rule binary_tree [OF assms(1,2,3,4,6)], rule loop_end)
  have "kind (ahead p (length (otokens t))) = tk_kind u"
    using assms(2) by (simp add: reads_at_append reads_at_Cons kind_def)
  with assms(5) show "binary_round (knot n) m (oexpr t) (ahead p (length (otokens t))) =
      POk (Inr (oexpr t)) (ahead p (length (otokens t)))"
    unfolding binary_round_def by (auto simp: left_bp_def split: option.split)
qed

text \<open>
  C3: Precedence and associativity: the operands and operators of a tree in which every operator
  binds at least as tightly as its place demands (\<open>bp_ok\<close>), written in order without
  parentheses, are parsed to that very tree, with the spans of its operands, and the parser stops at
  the token after them. More fuel than there are tokens is enough.
\<close>

theorem infix_round_trip:
  assumes "bp_ok m t" "reads_at p (otokens t @ [u])" "stops (tk_kind u) t" "no_postfix (tk_kind u)"
    and "infix_at (tk_kind u) = None \<or> left_bp (tk_kind u) < m" "length (otokens t) \<le> n"
  shows "binary (knot n) m p = POk (oexpr t) (ahead p (length (otokens t)))"
  using assms by (rule binary_tree_end)

text \<open>
  \<open>1 - 2 ** 3 ** 4 - 5 < 6 && @x\<close>, as a tree: the power groups to the right, the
  difference to the left.
\<close>

definition sample_leaf :: "token_kind \<Rightarrow> otree" where
  "sample_leaf k = OLeaf k (span_new 0 0) True"

definition sample_node :: "otree \<Rightarrow> token_kind \<Rightarrow> otree \<Rightarrow> otree" where
  "sample_node l k r = ONode l k (span_new 0 0) True r"

definition sample_tree :: otree where
  "sample_tree =
     sample_node
       (sample_node
         (sample_node
           (sample_node (sample_leaf (TInt 1)) TMinus
             (sample_node (sample_leaf (TInt 2)) TStarStar
               (sample_node (sample_leaf (TInt 3)) TStarStar (sample_leaf (TInt 4)))))
           TMinus (sample_leaf (TInt 5)))
         TLt (sample_leaf (TInt 6)))
       TAndAnd (sample_leaf (TIVar (str ''x'')))"

lemma infix_round_trip_witness:
  "let toks = otokens sample_tree @ [Token TEof (span_new 0 0) False] in
     binary (knot 13) 0 (parser_new toks (doc_table_new [] [])) =
       POk (oexpr sample_tree) (ahead (parser_new toks (doc_table_new [] [])) 13)"
proof -
  have len: "length (otokens sample_tree) = 13" and ok: "bp_ok 0 sample_tree" "stops TEof sample_tree"
    by (simp_all add: sample_tree_def sample_node_def sample_leaf_def leaf_kind_def infix_at_def left_bp_def right_bp_def)
  show ?thesis
    using infix_round_trip [of 0 sample_tree "parser_new (otokens sample_tree @ [Token TEof (span_new 0 0) False]) (doc_table_new [] [])"
        "Token TEof (span_new 0 0) False" 13] len ok
    by (simp add: reads_at_def parser_new_def no_postfix_def infix_at_def)
qed

end
