(* ===== verification/Floats.thy ===== *)
theory Floats
  imports Prelude
begin

text \<open>
  IEEE doubles as their 64 bits (\<open>f64\<close>): the parts of a double, how two compare, and the double
  nearest to an integer. Arithmetic on doubles is not modelled.
\<close>

text \<open>The parts of an IEEE double: its value is \<open>mantissa * 2 ^ exponent\<close>, negated when the sign is set.\<close>

definition f64_sign :: "f64 \<Rightarrow> bool" where
  "f64_sign f = bit f 63"

definition f64_biased :: "f64 \<Rightarrow> nat" where
  "f64_biased f = nat (uint f div 2 ^ 52 mod 2 ^ 11)"

definition f64_mantissa :: "f64 \<Rightarrow> nat" where
  "f64_mantissa f = nat (uint f mod 2 ^ 52) + (if f64_biased f = 0 then 0 else 2 ^ 52)"

definition f64_exponent :: "f64 \<Rightarrow> int" where
  "f64_exponent f = int (max 1 (f64_biased f)) - 1075"

definition f64_is_finite :: "f64 \<Rightarrow> bool" where
  "f64_is_finite f \<longleftrightarrow> f64_biased f \<noteq> 2047"

text \<open>\<open>a / b\<close> rounded to the nearest integer, ties to even.\<close>

definition div_round_even :: "nat \<Rightarrow> nat \<Rightarrow> nat" where
  "div_round_even a b =
     (let q = a div b; r = a mod b
      in if b < 2 * r \<or> 2 * r = b \<and> odd q then q + 1 else q)"

text \<open>
  Comparing two doubles: apart from NaN, in the order of their bits, which is that of their
  magnitudes, with the sign; the two zeros are equal.
\<close>

definition f64_is_nan :: "f64 \<Rightarrow> bool" where
  "f64_is_nan f \<longleftrightarrow> f64_biased f = 2047 \<and> uint f mod 2 ^ 52 \<noteq> 0"

definition f64_key :: "f64 \<Rightarrow> int" where
  "f64_key f = (let m = uint f mod 2 ^ 63 in if f64_sign f then - m else m)"

definition f64_eq :: "f64 \<Rightarrow> f64 \<Rightarrow> bool" where
  "f64_eq a b \<longleftrightarrow> \<not> f64_is_nan a \<and> \<not> f64_is_nan b \<and> f64_key a = f64_key b"

datatype ordering = Less | Equal | Greater

definition int_cmp :: "int \<Rightarrow> int \<Rightarrow> ordering" where
  "int_cmp a b = (if a < b then Less else if a = b then Equal else Greater)"

definition f64_partial_cmp :: "f64 \<Rightarrow> f64 \<Rightarrow> ordering option" where
  "f64_partial_cmp a b = (if f64_is_nan a \<or> f64_is_nan b then None else Some (int_cmp (f64_key a) (f64_key b)))"

text \<open>\<open>n as f64\<close>: the nearest double, ties to even.\<close>

fun bit_len :: "nat \<Rightarrow> nat" where
  "bit_len n = (if n = 0 then 0 else Suc (bit_len (n div 2)))"

definition f64_of_nat :: "nat \<Rightarrow> int" where
  "f64_of_nat n =
     (let l = bit_len n
      in if n = 0 then 0
         else int (l + 1022) * 2 ^ 52 +
           (int (if l \<le> 53 then n * 2 ^ (53 - l) else div_round_even n (2 ^ (l - 53))) - 2 ^ 52))"

definition f64_of_int :: "int \<Rightarrow> f64" where
  "f64_of_int n = word_of_int (f64_of_nat (nat \<bar>n\<bar>) + (if n < 0 then 2 ^ 63 else 0))"

declare bit_len.simps [simp del]

lemma f64_eq_sym: "f64_eq a b = f64_eq b a"
  by (auto simp: f64_eq_def)

lemma f64_eq_refl: "f64_eq a a \<longleftrightarrow> \<not> f64_is_nan a"
  by (simp add: f64_eq_def)

lemma f64_finite_not_nan: "f64_is_finite f \<Longrightarrow> \<not> f64_is_nan f"
  by (simp add: f64_is_finite_def f64_is_nan_def)

end
