(* ===== verification/Limits.thy ===== *)
theory Limits
  imports Rust_Text Floats
begin

text \<open>
  Rate limits (grenat\_limits: src/rate.rs, src/bucket.rs, src/slots.rs): rates, the token bucket
  kept as the instant it is next empty, and concurrency slots with their queue. A \<open>Duration\<close> is
  its number of nanoseconds, an \<open>Instant\<close> the nanoseconds from an origin of the platform's
  clock, between the earliest and the latest instant the platform represents.
\<close>

type_synonym duration = nat
type_synonym instant = int

record clock_range =
  earliest :: instant
  latest :: instant

definition in_range :: "clock_range \<Rightarrow> instant \<Rightarrow> bool" where
  "in_range c t \<longleftrightarrow> earliest c \<le> t \<and> t \<le> latest c"

text \<open>\<open>Instant::checked_sub\<close>, and \<open>Instant + Duration\<close>, which panics out of the range.\<close>

definition checked_sub :: "clock_range \<Rightarrow> instant \<Rightarrow> duration \<Rightarrow> instant option" where
  "checked_sub c t d = (if in_range c (t - int d) then Some (t - int d) else None)"

definition plus_duration :: "clock_range \<Rightarrow> instant \<Rightarrow> duration \<Rightarrow> instant option" where
  "plus_duration c t d = (if in_range c (t + int d) then Some (t + int d) else None)"

subsection \<open>The floating-point values of a rate\<close>

text \<open>\<open>f <= 0.0\<close> and \<open>f > n\<close>, of a finite \<open>f\<close>.\<close>

definition f64_le_zero :: "f64 \<Rightarrow> bool" where
  "f64_le_zero f \<longleftrightarrow> f64_sign f \<or> f64_mantissa f = 0"

definition f64_gt :: "f64 \<Rightarrow> nat \<Rightarrow> bool" where
  "f64_gt f n \<longleftrightarrow> \<not> f64_sign f \<and>
     (if 0 \<le> f64_exponent f then n < f64_mantissa f * 2 ^ nat (f64_exponent f)
      else n * 2 ^ nat (- f64_exponent f) < f64_mantissa f)"

text \<open>\<open>Duration::from_secs_f64\<close>, of a finite value that is not negative.\<close>

definition from_secs_f64 :: "f64 \<Rightarrow> duration" where
  "from_secs_f64 f =
     (let m = f64_mantissa f * 10 ^ 9; e = f64_exponent f
      in if 0 \<le> e then m * 2 ^ nat e else div_round_even m (2 ^ nat (- e)))"

subsection \<open>Rates\<close>

record rate =
  rt_count :: nat
  rt_period :: duration

text \<open>The longest period: \<open>366.0 * 86_400.0\<close> seconds.\<close>

definition max_period_secs :: nat where
  "max_period_secs = 366 * 86400"

text \<open>\<open>show_f64\<close>: how the standard library writes an \<open>f64\<close>, in the error messages.\<close>

definition rate_new :: "(f64 \<Rightarrow> rtext) \<Rightarrow> int \<Rightarrow> f64 \<Rightarrow> rtext + rate" where
  "rate_new show_f64 count seconds =
     (if count < 1 then Inl (str ''a rate allows at least one call, not '' @ int_text count)
      else if int u32_max < count then Inl (str ''a rate allows at most '' @ int_text (int u32_max) @ str '' calls'')
      else if \<not> f64_is_finite seconds \<or> f64_le_zero seconds then
        Inl (str ''a rate'' @ [39] @ str ''s period is positive, not '' @ show_f64 seconds @ str ''s'')
      else if f64_gt seconds max_period_secs then Inl (str ''a rate'' @ [39] @ str ''s period is a year at most'')
      else Inr \<lparr>rt_count = nat count, rt_period = from_secs_f64 seconds\<rparr>)"

definition rate_interval :: "rate \<Rightarrow> duration" where
  "rate_interval r = rt_period r div rt_count r"

text \<open>
  \<open>Display\<close>: the period's seconds as an \<open>f64\<close> are one of the four values exactly when the
  period is that many whole seconds; \<open>show_secs\<close> writes the others.
\<close>

definition rate_text :: "(duration \<Rightarrow> rtext) \<Rightarrow> rate \<Rightarrow> rtext" where
  "rate_text show_secs r =
     (let unit = (if rt_period r = 10 ^ 9 then str ''second''
                  else if rt_period r = 60 * 10 ^ 9 then str ''minute''
                  else if rt_period r = 3600 * 10 ^ 9 then str ''hour''
                  else if rt_period r = 86400 * 10 ^ 9 then str ''day''
                  else show_secs (rt_period r) @ str ''s'')
      in int_text (int (rt_count r)) @ str '' per '' @ unit)"

subsection \<open>The token bucket\<close>

record turn =
  tn_at :: instant
  tn_before :: instant
  tn_after :: instant

record bucket =
  bk_interval :: duration
  bk_burst :: duration
  bk_next :: "instant option"

definition bucket_new :: "rate \<Rightarrow> bucket" where
  "bucket_new r = \<lparr>bk_interval = rate_interval r, bk_burst = rate_interval r * (rt_count r - 1), bk_next = None\<rparr>"

text \<open>\<open>None\<close>: the addition to \<open>next\<close> panics.\<close>

definition reserve :: "clock_range \<Rightarrow> instant \<Rightarrow> bucket \<Rightarrow> (turn \<times> bucket) option" where
  "reserve c now b =
     (let nxt = max (case bk_next b of None \<Rightarrow> now | Some t \<Rightarrow> t) now;
          at = (case checked_sub c nxt (bk_burst b) of None \<Rightarrow> now | Some t \<Rightarrow> max t now)
      in case plus_duration c nxt (bk_interval b) of
           None \<Rightarrow> None
         | Some after \<Rightarrow> Some (\<lparr>tn_at = at, tn_before = nxt, tn_after = after\<rparr>, b\<lparr>bk_next := Some after\<rparr>))"

definition refund :: "turn \<Rightarrow> bucket \<Rightarrow> bucket" where
  "refund t b = (if bk_next b = Some (tn_after t) then b\<lparr>bk_next := Some (tn_before t)\<rparr> else b)"

subsection \<open>Slots\<close>

record slots =
  sl_max :: nat
  sl_in_flight :: nat
  sl_queue :: "nat list"
  sl_next_ticket :: nat

definition slots_new :: "nat \<Rightarrow> slots" where
  "slots_new n = \<lparr>sl_max = max n 1, sl_in_flight = 0, sl_queue = [], sl_next_ticket = 0\<rparr>"

definition enqueue :: "slots \<Rightarrow> nat \<times> slots" where
  "enqueue s =
     (let ticket = sl_next_ticket s
      in (ticket, s\<lparr>sl_next_ticket := ticket + 1, sl_queue := sl_queue s @ [ticket]\<rparr>))"

definition try_enter :: "nat \<Rightarrow> slots \<Rightarrow> bool \<times> slots" where
  "try_enter ticket s =
     (case sl_queue s of
        [] \<Rightarrow> (False, s)
      | t # ts \<Rightarrow>
          if sl_in_flight s < sl_max s \<and> t = ticket
          then (True, s\<lparr>sl_queue := ts, sl_in_flight := sl_in_flight s + 1\<rparr>) else (False, s))"

definition leave :: "nat \<Rightarrow> slots \<Rightarrow> slots" where
  "leave ticket s = s\<lparr>sl_queue := filter (\<lambda>t. t \<noteq> ticket) (sl_queue s)\<rparr>"

definition release_slot :: "slots \<Rightarrow> slots" where
  "release_slot s = s\<lparr>sl_in_flight := sl_in_flight s - 1\<rparr>"

subsection \<open>The limiter\<close>

record limiter =
  lm_rate :: "rate option"
  lm_concurrent :: "nat option"
  lm_bucket :: "bucket option"
  lm_slots :: "slots option"
  lm_paused :: "instant option"

definition limiter_new :: "rate option \<Rightarrow> nat option \<Rightarrow> limiter" where
  "limiter_new r n =
     \<lparr>lm_rate = r, lm_concurrent = n, lm_bucket = map_option bucket_new r, lm_slots = map_option slots_new n,
      lm_paused = None\<rparr>"

text \<open>What is left of a pause at \<open>now\<close>, if any.\<close>

definition paused_for :: "instant \<Rightarrow> limiter \<Rightarrow> duration option" where
  "paused_for now l =
     (case lm_paused l of None \<Rightarrow> None | Some p \<Rightarrow> if now < p then Some (nat (p - now)) else None)"

definition pause_until :: "instant \<Rightarrow> limiter \<Rightarrow> limiter" where
  "pause_until until l = l\<lparr>lm_paused := Some (case lm_paused l of None \<Rightarrow> until | Some p \<Rightarrow> max p until)\<rparr>"

definition refill :: "limiter \<Rightarrow> limiter" where
  "refill l = l\<lparr>lm_bucket := map_option bucket_new (lm_rate l), lm_paused := None\<rparr>"

definition lm_in_flight :: "limiter \<Rightarrow> nat" where
  "lm_in_flight l = (case lm_slots l of None \<Rightarrow> 0 | Some s \<Rightarrow> sl_in_flight s)"

definition lm_release :: "limiter \<Rightarrow> limiter" where
  "lm_release l = l\<lparr>lm_slots := map_option release_slot (lm_slots l)\<rparr>"

end
