(* ===== verification/Limits_Bucket.thy ===== *)
theory Limits_Bucket
  imports Limits Steps
begin

text \<open>
  The token bucket: it is the classical bucket that fills with time (a refinement), and however
  bookings and refunds interleave, the turns that stay booked never exceed the rate.
\<close>

subsection \<open>The bucket as tokens that fill with time\<close>

text \<open>
  What a bucket holds at an instant, in nanoseconds of rate: a call costs \<open>bk_interval\<close>; a negative
  level is what was booked ahead.
\<close>

definition capacity :: "bucket \<Rightarrow> int" where
  "capacity b = int (bk_burst b) + int (bk_interval b)"

definition level :: "bucket \<Rightarrow> instant \<Rightarrow> int" where
  "level b now = capacity b - (case bk_next b of None \<Rightarrow> 0 | Some t \<Rightarrow> max 0 (t - now))"

text \<open>The classical token bucket: refill, then wait for what is missing and take it.\<close>

definition refilled :: "int \<Rightarrow> int \<Rightarrow> int \<Rightarrow> int" where
  "refilled cap l elapsed = min cap (l + elapsed)"

definition wait_for :: "int \<Rightarrow> int \<Rightarrow> int" where
  "wait_for cost l = max 0 (cost - l)"

lemma level_refills: "0 \<le> d \<Longrightarrow> level b (now + d) = refilled (capacity b) (level b now) d"
  by (auto simp: level_def refilled_def split: option.split)

lemma reserve_level:
  assumes "reserve c now b = Some (t, b')" "in_range c now"
  shows "tn_at t = now + wait_for (int (bk_interval b)) (level b now)"
    and "level b' now = level b now - int (bk_interval b)"
    and "capacity b' = capacity b" and "bk_interval b' = bk_interval b" and "bk_burst b' = bk_burst b"
  using assms
  by (auto simp: reserve_def Let_def checked_sub_def plus_duration_def in_range_def level_def capacity_def wait_for_def
      split: option.splits if_splits)

subsection \<open>Bookings and refunds in any order\<close>

text \<open>The turns booked and not given back, with the bucket: a turn is given back or spent.\<close>

inductive bucket_step :: "clock_range \<Rightarrow> bucket \<times> turn list \<Rightarrow> bucket \<times> turn list \<Rightarrow> bool" for c where
  book: "in_range c now \<Longrightarrow> reserve c now b = Some (t, b') \<Longrightarrow> bucket_step c (b, ts) (b', ts @ [t])"
| give_back: "t \<in> set ts \<Longrightarrow>
     bucket_step c (b, ts) (refund t b, if bk_next b = Some (tn_after t) then remove1 t ts else ts)"

definition fresh_bucket :: "rate \<Rightarrow> bucket \<times> turn list \<Rightarrow> bool" where
  "fresh_bucket r s \<longleftrightarrow> s = (bucket_new r, [])"

definition turn_ok :: "bucket \<Rightarrow> turn \<Rightarrow> bool" where
  "turn_ok b t \<longleftrightarrow> tn_after t = tn_before t + int (bk_interval b) \<and>
     tn_before t \<le> tn_at t + int (bk_burst b) \<and> tn_at t \<le> tn_before t \<and>
     (case bk_next b of None \<Rightarrow> False | Some n \<Rightarrow> tn_after t \<le> n)"

definition follows :: "turn \<Rightarrow> turn \<Rightarrow> bool" where
  "follows t u \<longleftrightarrow> tn_after t \<le> tn_before u"

definition bucket_inv :: "rate \<Rightarrow> bucket \<times> turn list \<Rightarrow> bool" where
  "bucket_inv r s \<longleftrightarrow> bk_interval (fst s) = rate_interval r \<and> bk_burst (fst s) = rate_interval r * (rt_count r - 1) \<and>
     list_all (turn_ok (fst s)) (snd s) \<and> sorted_wrt follows (snd s)"

lemma sorted_wrt_remove1: "sorted_wrt P xs \<Longrightarrow> sorted_wrt P (remove1 x xs)"
  by (induction xs) (auto dest: notin_set_remove1 in_set_remove1 [THEN iffD1, rotated])

lemma reserve_turn:
  assumes "reserve c now b = Some (t, b')" "in_range c now"
  shows "tn_after t = tn_before t + int (bk_interval b)" "tn_before t \<le> tn_at t + int (bk_burst b)" "tn_at t \<le> tn_before t"
    "bk_next b' = Some (tn_after t)" "bk_interval b' = bk_interval b" "bk_burst b' = bk_burst b"
    "bk_next b = Some n \<Longrightarrow> n \<le> tn_before t" "now \<le> tn_at t"
  using assms
  by (auto simp: reserve_def Let_def checked_sub_def plus_duration_def in_range_def split: option.splits if_splits)

lemma bucket_inv_book:
  assumes inv: "bucket_inv r (b, ts)" and "in_range c now" and res: "reserve c now b = Some (t, b')"
  shows "bucket_inv r (b', ts @ [t])"
proof -
  note t = reserve_turn [OF res assms(2)]
  have old: "turn_ok b' u \<and> follows u t" if "u \<in> set ts" for u
    using that inv t by (auto simp: bucket_inv_def turn_ok_def follows_def list_all_iff split: option.splits)
  have "turn_ok b' t" using t by (simp add: turn_ok_def)
  with inv old t show ?thesis by (auto simp: bucket_inv_def list_all_iff sorted_wrt_append)
qed

text \<open>A turn whose end is the bucket's next instant: every other booked turn ends before it starts.\<close>

lemma last_booked:
  assumes inv: "bucket_inv r (b, ts)" and t: "t \<in> set ts" "bk_next b = Some (tn_after t)"
    and u: "u \<in> set (remove1 t ts)"
  shows "tn_after u \<le> tn_before t"
proof -
  from t(1) obtain xs ys where ts: "ts = xs @ t # ys" "t \<notin> set xs" by (blast dest: split_list_first)
  with u have where_u: "u \<in> set xs \<or> u \<in> set ys" by (simp add: remove1_append)
  then have "u \<in> set ts" using ts(1) by auto
  with inv t(1) have "turn_ok b u" "turn_ok b t" by (auto simp: bucket_inv_def list_all_iff)
  with t(2) have ok: "tn_after u = tn_before u + int (bk_interval b)" "tn_after u \<le> tn_after t"
    "tn_after t = tn_before t + int (bk_interval b)"
    by (simp_all add: turn_ok_def)
  from where_u have "follows t u \<or> follows u t"
    using inv unfolding ts(1) by (auto simp: bucket_inv_def sorted_wrt_append)
  with ok show ?thesis by (auto simp: follows_def)
qed

lemma bucket_inv_refund:
  assumes inv: "bucket_inv r (b, ts)" and t: "t \<in> set ts"
  shows "bucket_inv r (refund t b, if bk_next b = Some (tn_after t) then remove1 t ts else ts)"
proof (cases "bk_next b = Some (tn_after t)")
  case True
  from last_booked [OF inv t True] True inv set_remove1_subset [of t ts]
  have "list_all (turn_ok (refund t b)) (remove1 t ts)"
    by (auto simp: bucket_inv_def turn_ok_def refund_def list_all_iff)
  with True inv show ?thesis by (auto simp: bucket_inv_def refund_def sorted_wrt_remove1)
next
  case False
  with inv show ?thesis by (simp add: refund_def)
qed

interpretation booked: inductive_invariant "fresh_bucket r" "bucket_step c" "bucket_inv r" for r c
proof unfold_locales
  show "fresh_bucket r s \<Longrightarrow> bucket_inv r s" for s
    by (simp add: fresh_bucket_def bucket_inv_def bucket_new_def)
  show "bucket_inv r s \<Longrightarrow> bucket_step c s s' \<Longrightarrow> bucket_inv r s'" for s s'
    by (erule bucket_step.cases) (auto simp: bucket_inv_book bucket_inv_refund)
qed

text \<open>Turns apart: two booked turns with so many between them are at least that many intervals apart.\<close>

lemma booked_apart:
  assumes "bucket_inv r (b, ts)" "i < j" "j < length ts"
  shows "tn_before (ts ! i) + int (j - i) * int (rate_interval r) \<le> tn_before (ts ! j)"
  using assms(2,3)
proof (induction j)
  case (Suc j)
  have ok: "turn_ok b (ts ! k)" if "k < length ts" for k using assms(1) that by (auto simp: bucket_inv_def list_all_length)
  have "follows (ts ! j) (ts ! Suc j)" using assms(1) Suc.prems(2) by (auto simp: bucket_inv_def sorted_wrt_iff_nth_less)
  with ok [of j] Suc.prems assms(1) have step: "tn_before (ts ! j) + int (rate_interval r) \<le> tn_before (ts ! Suc j)"
    by (simp add: follows_def turn_ok_def bucket_inv_def)
  show ?case
  proof (cases "i = j")
    case True
    with step show ?thesis by simp
  next
    case False
    with Suc.IH Suc.prems have "tn_before (ts ! i) + int (j - i) * int (rate_interval r) \<le> tn_before (ts ! j)" by simp
    moreover have "int (Suc j - i) = int (j - i) + 1" using Suc.prems(1) by simp
    ultimately show ?thesis using step by (simp add: algebra_simps)
  qed
qed simp

lemma booked_times:
  assumes "bucket_inv r (b, ts)" "k < length ts"
  shows "tn_at (ts ! k) \<le> tn_before (ts ! k)"
    and "tn_before (ts ! k) \<le> tn_at (ts ! k) + int (rate_interval r * (rt_count r - 1))"
  using assms by (auto simp: bucket_inv_def list_all_length turn_ok_def)

subsection \<open>The properties\<close>

text \<open>
  C26: The bucket refines the classical token bucket that fills with time up to its capacity
  (\<open>count\<close> calls): a reservation waits exactly for what is missing to one call and takes one
  call's worth, and time fills the bucket up to the capacity.
\<close>

theorem bucket_refines_tokens:
  assumes "reserve c now b = Some (t, b')" "in_range c now"
  shows "tn_at t = now + wait_for (int (bk_interval b)) (level b now) \<and>
     level b' now = level b now - int (bk_interval b) \<and>
     capacity b' = capacity b \<and>
     (\<forall>d. level b' (now + int d) = refilled (capacity b') (level b' now) (int d))"
  using reserve_level [OF assms] by (simp add: level_refills)

definition sample_range :: clock_range where
  "sample_range = \<lparr>earliest = 0, latest = 10 ^ 18\<rparr>"

definition sample_rate :: rate where
  "sample_rate = \<lparr>rt_count = 2, rt_period = 10 ^ 9\<rparr>"

lemma bucket_refines_tokens_witness:
  "let b = bucket_new sample_rate; t = \<lparr>tn_at = 7, tn_before = 7, tn_after = 7 + 5 * 10 ^ 8\<rparr>;
       b' = b\<lparr>bk_next := Some (7 + 5 * 10 ^ 8)\<rparr>
   in tn_at t = 7 + wait_for (int (bk_interval b)) (level b 7) \<and>
     level b' 7 = level b 7 - int (bk_interval b) \<and>
     capacity b' = capacity b \<and>
     (\<forall>d. level b' (7 + int d) = refilled (capacity b') (level b' 7) (int d))"
proof -
  have "reserve sample_range 7 (bucket_new sample_rate) =
      Some (\<lparr>tn_at = 7, tn_before = 7, tn_after = 7 + 5 * 10 ^ 8\<rparr>, (bucket_new sample_rate)\<lparr>bk_next := Some (7 + 5 * 10 ^ 8)\<rparr>)"
    and "in_range sample_range 7"
    by (simp_all add: reserve_def bucket_new_def sample_rate_def sample_range_def rate_interval_def in_range_def
        checked_sub_def plus_duration_def)
  from bucket_refines_tokens [OF this] show ?thesis unfolding Let_def .
qed

text \<open>
  C25: Whatever is booked and given back, in any order, the rate is never exceeded: among the
  turns that stay booked, one comes at least as many intervals after another as there are turns
  from that one to it, less the burst of \<open>count - 1\<close> that a full bucket allows at once.
\<close>

theorem rate_never_exceeded:
  assumes "reaches (fresh_bucket r) (bucket_step c) (b, ts)" "i < j" "j < length ts"
  shows "tn_at (ts ! i) + int (j - i) * int (rate_interval r)
    \<le> tn_at (ts ! j) + int (rate_interval r * (rt_count r - 1))"
proof -
  from booked.reached [OF assms(1)] have inv: "bucket_inv r (b, ts)" .
  have "i < length ts" using assms(2,3) by simp
  with booked_apart [OF inv assms(2,3)] booked_times [OF inv this] booked_times [OF inv assms(3)] show ?thesis by simp
qed

text \<open>Three bookings at the same instant: two go at once, the third half a second later.\<close>

definition sample_bucket :: "instant \<Rightarrow> bucket" where
  "sample_bucket n = (bucket_new sample_rate)\<lparr>bk_next := Some n\<rparr>"

definition sample_turn :: "nat \<Rightarrow> turn" where
  "sample_turn k = \<lparr>tn_at = 500000000 * int (k - 1), tn_before = 500000000 * int k, tn_after = 500000000 * int (k + 1)\<rparr>"

lemma sample_reserve:
  "reserve sample_range 0 (bucket_new sample_rate) = Some (sample_turn 0, sample_bucket 500000000)"
  "reserve sample_range 0 (sample_bucket 500000000) = Some (sample_turn 1, sample_bucket 1000000000)"
  "reserve sample_range 0 (sample_bucket 1000000000) = Some (sample_turn 2, sample_bucket 1500000000)"
  "in_range sample_range 0"
  by (simp_all add: reserve_def bucket_new_def sample_rate_def sample_range_def rate_interval_def in_range_def
    checked_sub_def plus_duration_def sample_turn_def sample_bucket_def)

lemma sample_run:
  "reaches (fresh_bucket sample_rate) (bucket_step sample_range)
     (sample_bucket 1500000000, [sample_turn 0, sample_turn 1, sample_turn 2])"
proof -
  let ?R = "reaches (fresh_bucket sample_rate) (bucket_step sample_range)"
  have go: "?R (b, ts) \<Longrightarrow> reserve sample_range 0 b = Some (t, b') \<Longrightarrow> ?R (b', ts @ [t])" for b ts t b'
    by (erule reaches_step) (rule book [OF sample_reserve(4)])
  have "?R (bucket_new sample_rate, [])" by (rule reaches_init) (simp add: fresh_bucket_def)
  from go [OF this sample_reserve(1)] have "?R (sample_bucket 500000000, [sample_turn 0])" by simp
  from go [OF this sample_reserve(2)] have "?R (sample_bucket 1000000000, [sample_turn 0, sample_turn 1])" by simp
  from go [OF this sample_reserve(3)] show ?thesis by simp
qed

lemma rate_never_exceeded_witness:
  "tn_at (sample_turn 0) + 2 * int (rate_interval sample_rate)
     \<le> tn_at (sample_turn 2) + int (rate_interval sample_rate * (rt_count sample_rate - 1))"
  using rate_never_exceeded [OF sample_run, of 0 2] by simp

end
