(* ===== verification/Limiter.thy ===== *)
theory Limiter
  imports Limits_Bucket
begin

text \<open>
  The limiter shared by tasks (grenat\_limits: src/limiter.rs). \<open>acquire\<close> takes the limiter's
  lock several times and sleeps between; each region under the lock, each clock reading and each
  return of the caller's \<open>wait\<close> is a step of its own, so that the calls of many tasks interleave.
\<close>

subsection \<open>The calls and the world\<close>

text \<open>
  Where a call to \<open>acquire\<close> is. \<open>Await\<close> states are inside \<open>wait\<close>; \<open>Calling\<close> has the permit,
  \<open>Done\<close> has dropped it; the turn is kept in both, to state what they were allowed.
\<close>

datatype call_pc =
    Asking
  | Queued nat
  | AwaitSlot nat
  | Booking
  | Booked "turn option"
  | AwaitTurn turn
  | Checking "turn option"
  | AwaitPause "turn option"
  | Ready "turn option"
  | Calling "turn option"
  | Dropping
  | Cancelled
  | Done "turn option"

text \<open>A call and its permit: whether it holds a slot, and how long it waited.\<close>

record call =
  cl_pc :: call_pc
  cl_started :: instant
  cl_holds :: bool
  cl_waited :: duration

record world =
  wd_now :: instant
  wd_lim :: limiter
  wd_calls :: "call list"

definition call_new :: "instant \<Rightarrow> call" where
  "call_new now = \<lparr>cl_pc = Asking, cl_started = now, cl_holds = False, cl_waited = 0\<rparr>"

definition at_pc :: "world \<Rightarrow> nat \<Rightarrow> call_pc \<Rightarrow> bool" where
  "at_pc w i pc \<longleftrightarrow> i < length (wd_calls w) \<and> cl_pc (wd_calls w ! i) = pc"

definition set_call :: "nat \<Rightarrow> (call \<Rightarrow> call) \<Rightarrow> world \<Rightarrow> world" where
  "set_call i f w = w\<lparr>wd_calls := (wd_calls w)[i := f (wd_calls w ! i)]\<rparr>"

definition goto :: "nat \<Rightarrow> call_pc \<Rightarrow> world \<Rightarrow> world" where
  "goto i pc = set_call i (\<lambda>c. c\<lparr>cl_pc := pc\<rparr>)"

definition with_slots :: "slots \<Rightarrow> world \<Rightarrow> world" where
  "with_slots s w = w\<lparr>wd_lim := (wd_lim w)\<lparr>lm_slots := Some s\<rparr>\<rparr>"

definition with_bucket :: "bucket \<Rightarrow> world \<Rightarrow> world" where
  "with_bucket b w = w\<lparr>wd_lim := (wd_lim w)\<lparr>lm_bucket := Some b\<rparr>\<rparr>"

text \<open>The instant a turn is booked from: after a pause.\<close>

definition booking_from :: "world \<Rightarrow> instant" where
  "booking_from w = (case lm_paused (wd_lim w) of None \<Rightarrow> wd_now w | Some p \<Rightarrow> max p (wd_now w))"

text \<open>\<open>give_back\<close>: the turn of a cancelled call, if it has one.\<close>

definition give_back_turn :: "turn option \<Rightarrow> limiter \<Rightarrow> limiter" where
  "give_back_turn u l =
     (case u of None \<Rightarrow> l | Some t \<Rightarrow> l\<lparr>lm_bucket := map_option (refund t) (lm_bucket l)\<rparr>)"

text \<open>\<open>Drop for Permit\<close>: the slot is given back, once.\<close>

definition drop_permit :: "nat \<Rightarrow> call_pc \<Rightarrow> world \<Rightarrow> world" where
  "drop_permit i pc w =
     (let w' = set_call i (\<lambda>c. c\<lparr>cl_pc := pc, cl_holds := False\<rparr>) w
      in if cl_holds (wd_calls w ! i) then w'\<lparr>wd_lim := lm_release (wd_lim w)\<rparr> else w')"

subsection \<open>The steps\<close>

inductive lim_step :: "clock_range \<Rightarrow> world \<Rightarrow> world \<Rightarrow> bool" for c where
  tick: "wd_now w \<le> t \<Longrightarrow> in_range c t \<Longrightarrow> lim_step c w (w\<lparr>wd_now := t\<rparr>)"
| pause: "in_range c until \<Longrightarrow> lim_step c w (w\<lparr>wd_lim := pause_until until (wd_lim w)\<rparr>)"
| call: "lim_step c w (w\<lparr>wd_calls := wd_calls w @ [call_new (wd_now w)]\<rparr>)"
| join: "at_pc w i Asking \<Longrightarrow> lm_slots (wd_lim w) = Some s \<Longrightarrow> enqueue s = (k, s') \<Longrightarrow>
    lim_step c w (goto i (Queued k) (with_slots s' w))"
| no_slots: "at_pc w i Asking \<Longrightarrow> lm_slots (wd_lim w) = None \<Longrightarrow> lim_step c w (goto i Booking w)"
| enter: "at_pc w i (Queued k) \<Longrightarrow> lm_slots (wd_lim w) = Some s \<Longrightarrow> try_enter k s = (True, s') \<Longrightarrow>
    lim_step c w (set_call i (\<lambda>c. c\<lparr>cl_pc := Booking, cl_holds := True\<rparr>) (with_slots s' w))"
| full: "at_pc w i (Queued k) \<Longrightarrow> lm_slots (wd_lim w) = Some s \<Longrightarrow> try_enter k s = (False, s') \<Longrightarrow>
    lim_step c w (goto i (AwaitSlot k) (with_slots s' w))"
| poll: "at_pc w i (AwaitSlot k) \<Longrightarrow> lim_step c w (goto i (Queued k) w)"
| cancel_slot: "at_pc w i (AwaitSlot k) \<Longrightarrow> lm_slots (wd_lim w) = Some s \<Longrightarrow>
    lim_step c w (goto i Cancelled (with_slots (leave k s) w))"
| no_rate: "at_pc w i Booking \<Longrightarrow> lm_bucket (wd_lim w) = None \<Longrightarrow> lim_step c w (goto i (Booked None) w)"
| book_turn: "at_pc w i Booking \<Longrightarrow> lm_bucket (wd_lim w) = Some b \<Longrightarrow> reserve c (booking_from w) b = Some (t, b') \<Longrightarrow>
    lim_step c w (goto i (Booked (Some t)) (with_bucket b' w))"
| book_panics: "at_pc w i Booking \<Longrightarrow> lm_bucket (wd_lim w) = Some b \<Longrightarrow> reserve c (booking_from w) b = None \<Longrightarrow>
    lim_step c w (goto i Dropping w)"
| no_turn: "at_pc w i (Booked None) \<Longrightarrow> lim_step c w (goto i (Checking None) w)"
| turn_here: "at_pc w i (Booked (Some t)) \<Longrightarrow> tn_at t \<le> wd_now w \<Longrightarrow> lim_step c w (goto i (Checking (Some t)) w)"
| turn_later: "at_pc w i (Booked (Some t)) \<Longrightarrow> wd_now w < tn_at t \<Longrightarrow> lim_step c w (goto i (AwaitTurn t) w)"
| turn_again: "at_pc w i (AwaitTurn t) \<Longrightarrow> lim_step c w (goto i (Booked (Some t)) w)"
| cancel_turn: "at_pc w i (AwaitTurn t) \<Longrightarrow>
    lim_step c w (goto i Dropping (w\<lparr>wd_lim := give_back_turn (Some t) (wd_lim w)\<rparr>))"
| held_back: "at_pc w i (Checking u) \<Longrightarrow> paused_for (wd_now w) (wd_lim w) = Some d \<Longrightarrow>
    lim_step c w (goto i (AwaitPause u) w)"
| pause_over: "at_pc w i (AwaitPause u) \<Longrightarrow> lim_step c w (goto i (Checking u) w)"
| cancel_pause: "at_pc w i (AwaitPause u) \<Longrightarrow>
    lim_step c w (goto i Dropping (w\<lparr>wd_lim := give_back_turn u (wd_lim w)\<rparr>))"
| no_pause: "at_pc w i (Checking u) \<Longrightarrow> paused_for (wd_now w) (wd_lim w) = None \<Longrightarrow> lim_step c w (goto i (Ready u) w)"
| go: "at_pc w i (Ready u) \<Longrightarrow>
    lim_step c w (set_call i (\<lambda>c. c\<lparr>cl_pc := Calling u, cl_waited := nat (wd_now w - cl_started c)\<rparr>) w)"
| unwind: "at_pc w i Dropping \<Longrightarrow> lim_step c w (drop_permit i Cancelled w)"
| finish_call: "at_pc w i (Calling u) \<Longrightarrow> lim_step c w (drop_permit i (Done u) w)"

text \<open>With the refills between two tests.\<close>

inductive test_step :: "clock_range \<Rightarrow> world \<Rightarrow> world \<Rightarrow> bool" for c where
  normally: "lim_step c w w' \<Longrightarrow> test_step c w w'"
| refilling: "test_step c w (w\<lparr>wd_lim := refill (wd_lim w)\<rparr>)"

definition fresh_limiter :: "clock_range \<Rightarrow> rate option \<Rightarrow> nat option \<Rightarrow> world \<Rightarrow> bool" where
  "fresh_limiter c r n w \<longleftrightarrow> wd_lim w = limiter_new r n \<and> wd_calls w = [] \<and> in_range c (wd_now w)"

end
