(* ===== verification/Limiter_Props.thy ===== *)
theory Limiter_Props
  imports Limiter
begin

text \<open>
  The limiter's properties over every interleaving of calls: slots are never oversubscribed and
  are taken in the order the calls joined the queue; the turns of the calls that go keep to the
  rate; no call goes before its turn or during a pause it has seen.
\<close>

subsection \<open>Slots\<close>

fun pc_ticket :: "call_pc \<Rightarrow> nat option" where
  "pc_ticket (Queued k) = Some k"
| "pc_ticket (AwaitSlot k) = Some k"
| "pc_ticket _ = None"

definition has_ticket :: "nat \<Rightarrow> call \<Rightarrow> bool" where
  "has_ticket k cl \<longleftrightarrow> pc_ticket (cl_pc cl) = Some k"

text \<open>Before its slot a call holds none.\<close>

definition call_ok :: "call \<Rightarrow> bool" where
  "call_ok cl \<longleftrightarrow> (cl_pc cl = Asking \<or> pc_ticket (cl_pc cl) \<noteq> None \<longrightarrow> \<not> cl_holds cl)"

definition slots_ok :: "nat \<Rightarrow> slots \<Rightarrow> call list \<Rightarrow> bool" where
  "slots_ok n s calls \<longleftrightarrow>
     sl_max s = max n 1 \<and> sl_in_flight s = count_if cl_holds calls \<and> sl_in_flight s \<le> sl_max s \<and>
     sorted_wrt (<) (sl_queue s) \<and> (\<forall>k \<in> set (sl_queue s). k < sl_next_ticket s) \<and>
     (\<forall>k. count_list (sl_queue s) k = count_if (has_ticket k) calls)"

definition slots_inv :: "nat option \<Rightarrow> world \<Rightarrow> bool" where
  "slots_inv n w \<longleftrightarrow> list_all call_ok (wd_calls w) \<and>
     (case n of
        None \<Rightarrow> lm_slots (wd_lim w) = None \<and> count_if cl_holds (wd_calls w) = 0
      | Some m \<Rightarrow> (\<exists>s. lm_slots (wd_lim w) = Some s \<and> slots_ok m s (wd_calls w)))"

lemma count_if_same:
  assumes "i < length xs" "P y = P (xs ! i)"
  shows "count_if P (xs[i := y]) = count_if P xs"
  using count_if_update [OF assms(1), of P y] assms(2) by simp

lemma count_if_on: "i < length xs \<Longrightarrow> \<not> P (xs ! i) \<Longrightarrow> P y \<Longrightarrow> count_if P (xs[i := y]) = Suc (count_if P xs)"
  using count_if_update [of i xs P y] by simp

lemma count_if_off: "i < length xs \<Longrightarrow> P (xs ! i) \<Longrightarrow> \<not> P y \<Longrightarrow> count_if P (xs[i := y]) = count_if P xs - 1"
  using count_if_update [of i xs P y] by simp

lemma list_all_update: "list_all P xs \<Longrightarrow> P y \<Longrightarrow> list_all P (xs[i := y])"
  using set_update_subset_insert [of xs i y] by (auto simp: list_all_iff)

text \<open>A step of one call that touches neither its ticket nor a slot.\<close>

lemma slots_inv_same:
  assumes inv: "slots_inv n w" and i: "i < length (wd_calls w)"
    and w': "lm_slots (wd_lim w') = lm_slots (wd_lim w)" "wd_calls w' = (wd_calls w)[i := y]"
    and y: "cl_holds y = cl_holds (wd_calls w ! i)" "pc_ticket (cl_pc y) = pc_ticket (cl_pc (wd_calls w ! i))" "call_ok y"
  shows "slots_inv n w'"
proof -
  have "count_if cl_holds (wd_calls w') = count_if cl_holds (wd_calls w)"
    unfolding w'(2) using i y(1) by (rule count_if_same)
  moreover have "count_if (has_ticket k) (wd_calls w') = count_if (has_ticket k) (wd_calls w)" for k
    unfolding w'(2) using i by (rule count_if_same) (simp add: has_ticket_def y(2))
  moreover have "list_all call_ok (wd_calls w')"
    unfolding w'(2) using inv y(3) by (auto simp: slots_inv_def intro: list_all_update)
  ultimately show ?thesis using inv w'(1) by (auto simp: slots_inv_def slots_ok_def split: option.splits)
qed

text \<open>A step on the slots, of one call.\<close>

lemma slots_inv_slots:
  assumes inv: "slots_inv n w" and i: "i < length (wd_calls w)" and s: "lm_slots (wd_lim w) = Some s"
    and w': "lm_slots (wd_lim w') = Some s'" "wd_calls w' = (wd_calls w)[i := y]" and y: "call_ok y"
    and ok: "\<And>m. slots_ok m s (wd_calls w) \<Longrightarrow> slots_ok m s' ((wd_calls w)[i := y])"
  shows "slots_inv n w'"
  using inv s w' ok list_all_update [of call_ok "wd_calls w" y i] y
  by (auto simp: slots_inv_def split: option.splits)

lemma count_list_le_sorted: "sorted_wrt (<) (xs :: nat list) \<Longrightarrow> count_list xs k = (if k \<in> set xs then 1 else 0)"
  by (induction xs) (auto simp: count_list_0_iff)

lemma slots_ok_join:
  assumes "slots_ok m s calls" "i < length calls" "enqueue s = (k, s')" "cl_pc (calls ! i) = Asking"
    and "cl_holds y = cl_holds (calls ! i)" "cl_pc y = Queued k"
  shows "slots_ok m s' (calls[i := y])"
proof -
  have holds: "count_if cl_holds (calls[i := y]) = count_if cl_holds calls" using assms(2,5) by (rule count_if_same)
  have "count_if (has_ticket j) (calls[i := y]) = count_if (has_ticket j) calls + (if j = k then 1 else 0)" for j
    using count_if_update [OF assms(2), of "has_ticket j" y] assms(4,6) by (simp add: has_ticket_def)
  with assms(1,3) holds show ?thesis
    by (auto simp: slots_ok_def enqueue_def Let_def sorted_wrt_append less_SucI)
qed

lemma slots_ok_enter:
  assumes "slots_ok m s calls" "i < length calls" "try_enter k s = (True, s')" "cl_pc (calls ! i) = Queued k"
    and "\<not> cl_holds (calls ! i)" "cl_holds y" "pc_ticket (cl_pc y) = None"
  shows "slots_ok m s' (calls[i := y])"
proof -
  from assms(3) obtain q where q: "sl_queue s = k # q" "sl_in_flight s < sl_max s"
    "s' = s\<lparr>sl_queue := q, sl_in_flight := sl_in_flight s + 1\<rparr>"
    by (auto simp: try_enter_def split: list.splits if_splits)
  have holds: "count_if cl_holds (calls[i := y]) = Suc (count_if cl_holds calls)" using assms(2,5,6) by (rule count_if_on)
  have "count_if (has_ticket j) (calls[i := y]) + (if j = k then 1 else 0) = count_if (has_ticket j) calls" for j
    using count_if_update [OF assms(2), of "has_ticket j" y] assms(4,7) by (auto simp: has_ticket_def)
  moreover have "count_list (sl_queue s) j = count_list q j + (if j = k then 1 else 0)" for j by (simp add: q(1))
  moreover have "count_list (sl_queue s) j = count_if (has_ticket j) calls" for j using assms(1) by (simp add: slots_ok_def)
  ultimately have "count_list q j = count_if (has_ticket j) (calls[i := y])" for j by (metis add_right_cancel)
  with assms(1) q holds show ?thesis by (auto simp: slots_ok_def)
qed

lemma slots_ok_leave:
  assumes "slots_ok m s calls" "i < length calls" "cl_pc (calls ! i) = AwaitSlot k"
    and "cl_holds y = cl_holds (calls ! i)" "pc_ticket (cl_pc y) = None"
  shows "slots_ok m (leave k s) (calls[i := y])"
proof -
  have holds: "count_if cl_holds (calls[i := y]) = count_if cl_holds calls" using assms(2,4) by (rule count_if_same)
  have tickets: "count_if (has_ticket j) (calls[i := y]) + (if j = k then 1 else 0) = count_if (has_ticket j) calls" for j
    using count_if_update [OF assms(2), of "has_ticket j" y] assms(3,5) by (auto simp: has_ticket_def)
  have queue: "count_list (sl_queue s) j = count_if (has_ticket j) calls" for j using assms(1) by (simp add: slots_ok_def)
  have sorted: "sorted_wrt (<) (sl_queue s)" "sorted_wrt (<) (filter (\<lambda>t. t \<noteq> k) (sl_queue s))"
    using assms(1) by (auto simp: slots_ok_def intro: sorted_wrt_filter)
  have "count_list (filter (\<lambda>t. t \<noteq> k) (sl_queue s)) j = count_if (has_ticket j) (calls[i := y])" for j
    using tickets [of j] queue [of j] count_list_le_sorted [OF sorted(1), of j] count_list_le_sorted [OF sorted(2), of j]
    by (cases "j = k") (auto split: if_splits)
  with assms(1) holds sorted show ?thesis by (auto simp: slots_ok_def leave_def)
qed

lemma slots_ok_release:
  assumes "slots_ok m s calls" "i < length calls" "cl_holds (calls ! i)" "\<not> cl_holds y"
    and "pc_ticket (cl_pc y) = pc_ticket (cl_pc (calls ! i))"
  shows "slots_ok m (release_slot s) (calls[i := y])"
proof -
  have holds: "count_if cl_holds (calls[i := y]) = count_if cl_holds calls - 1" using assms(2,3,4) by (rule count_if_off)
  have "count_if (has_ticket j) (calls[i := y]) = count_if (has_ticket j) calls" for j
    using assms(2) by (rule count_if_same) (simp add: has_ticket_def assms(5))
  with assms(1) holds show ?thesis by (auto simp: slots_ok_def release_slot_def)
qed

lemmas world_defs = goto_def set_call_def with_slots_def with_bucket_def at_pc_def

lemma call_ok_at: "slots_inv n w \<Longrightarrow> i < length (wd_calls w) \<Longrightarrow> call_ok (wd_calls w ! i)"
  by (auto simp: slots_inv_def list_all_length)

lemma slots_inv_goto:
  assumes inv: "slots_inv n w" and at: "at_pc w i pc" and pc: "pc_ticket pc' = pc_ticket pc"
    and ok: "pc' \<noteq> Asking" "pc_ticket pc = None \<or> pc_ticket pc' \<noteq> None"
    and w': "lm_slots (wd_lim w') = lm_slots (wd_lim w)" "wd_calls w' = wd_calls w"
  shows "slots_inv n (goto i pc' w')"
proof (rule slots_inv_same [OF inv])
  show "i < length (wd_calls w)" using at by (simp add: at_pc_def)
  with call_ok_at [OF inv this] at pc ok
  show "call_ok ((wd_calls w ! i)\<lparr>cl_pc := pc'\<rparr>)" by (auto simp: call_ok_def at_pc_def)
qed (use at pc w' in \<open>simp_all add: world_defs\<close>)

lemma slots_inv_frame:
  "slots_inv n w \<Longrightarrow> lm_slots (wd_lim w') = lm_slots (wd_lim w) \<Longrightarrow> wd_calls w' = wd_calls w \<Longrightarrow> slots_inv n w'"
  by (cases n) (simp_all add: slots_inv_def)

lemma slots_inv_drop:
  assumes inv: "slots_inv n w" and at: "at_pc w i pc" "pc_ticket pc = None" and pc: "pc_ticket pc' = None" "pc' \<noteq> Asking"
  shows "slots_inv n (drop_permit i pc' w)"
proof (cases "cl_holds (wd_calls w ! i)")
  case True
  with inv at obtain m s where n: "n = Some m" and s: "lm_slots (wd_lim w) = Some s"
    by (auto simp: slots_inv_def at_pc_def count_if_def filter_empty_conv split: option.splits)
  show ?thesis
    by (rule slots_inv_slots [OF inv _ s])
      (use True s at pc in \<open>auto simp: drop_permit_def Let_def set_call_def lm_release_def at_pc_def call_ok_def
        intro!: slots_ok_release\<close>)
next
  case False
  show ?thesis
    by (rule slots_inv_same [OF inv, of i _ "(wd_calls w ! i)\<lparr>cl_pc := pc', cl_holds := False\<rparr>"])
      (use False at pc in \<open>auto simp: drop_permit_def Let_def set_call_def at_pc_def call_ok_def\<close>)
qed

lemma slots_inv_step: "lim_step c w w' \<Longrightarrow> slots_inv n w \<Longrightarrow> slots_inv n w'"
proof (induction rule: lim_step.induct)
  case (join w i s k s')
  then show ?case
    using call_ok_at [of n w i]
    by (intro slots_inv_slots [OF join.prems, of i s _ s' "(wd_calls w ! i)\<lparr>cl_pc := Queued k\<rparr>"] slots_ok_join)
      (auto simp: world_defs call_ok_def)
next
  case (enter w i k s s')
  then show ?case
    using call_ok_at [of n w i]
    by (intro slots_inv_slots [OF enter.prems, of i s _ s' "(wd_calls w ! i)\<lparr>cl_pc := Booking, cl_holds := True\<rparr>"] slots_ok_enter)
      (auto simp: world_defs call_ok_def)
next
  case (full w i k s s')
  then have "s' = s" by (auto simp: try_enter_def split: list.splits if_splits)
  with full show ?case by (intro slots_inv_goto [OF full.prems]) (auto simp: with_slots_def)
next
  case (cancel_slot w i k s)
  then show ?case
    using call_ok_at [of n w i]
    by (intro slots_inv_slots [OF cancel_slot.prems, of i s _ "leave k s" "(wd_calls w ! i)\<lparr>cl_pc := Cancelled\<rparr>"] slots_ok_leave)
      (auto simp: world_defs call_ok_def)
next
  case (call w)
  then show ?case
    by (auto simp: slots_inv_def slots_ok_def call_new_def call_ok_def has_ticket_def split: option.splits)
next
  case (go w i u)
  then show ?case
    by (intro slots_inv_same [OF go.prems, of i _ "(wd_calls w ! i)\<lparr>cl_pc := Calling u, cl_waited := nat (wd_now w - cl_started (wd_calls w ! i))\<rparr>"])
      (auto simp: world_defs call_ok_def)
next
  case (unwind w i)
  then show ?case by (auto intro: slots_inv_drop)
next
  case (finish_call w i u)
  then show ?case by (auto intro: slots_inv_drop)
next
  case (tick w t)
  then show ?case by (auto intro: slots_inv_frame)
next
  case (pause until w)
  then show ?case by (auto intro: slots_inv_frame simp: pause_until_def)
qed (auto intro: slots_inv_goto simp: with_bucket_def give_back_turn_def split: option.split)

interpretation slot_safe: inductive_invariant "fresh_limiter c r n" "test_step c" "slots_inv n" for c r n
proof unfold_locales
  show "fresh_limiter c r n w \<Longrightarrow> slots_inv n w" for w
    by (auto simp: fresh_limiter_def slots_inv_def slots_ok_def limiter_new_def slots_new_def split: option.split)
  show "slots_inv n w \<Longrightarrow> test_step c w w' \<Longrightarrow> slots_inv n w'" for w w'
    by (erule test_step.cases) (auto intro: slots_inv_step slots_inv_frame simp: refill_def)
qed

text \<open>
  C24: However calls, waits, cancellations, pauses and refills interleave, at most
  \<open>concurrent\<close> calls (one at least) hold a slot, and \<open>in_flight\<close> is their number.
\<close>

theorem slots_never_exceeded:
  assumes "reaches (fresh_limiter c r (Some n)) (test_step c) w"
  shows "lm_in_flight (wd_lim w) = count_if cl_holds (wd_calls w) \<and> count_if cl_holds (wd_calls w) \<le> max n 1"
  using slot_safe.reached [OF assms]
  by (auto simp: slots_inv_def slots_ok_def lm_in_flight_def)

text \<open>
  C23: First come, first served, and nobody is forgotten: the queue holds exactly the tickets
  of the calls that wait for a slot, the oldest first; and whenever a slot is free while calls wait,
  the call with the oldest ticket is able to take it.
\<close>

theorem slots_in_order:
  assumes "reaches (fresh_limiter c r (Some n)) (test_step c) w"
  shows "\<exists>s. lm_slots (wd_lim w) = Some s \<and> sorted_wrt (<) (sl_queue s) \<and>
     set (sl_queue s) = {k. \<exists>cl \<in> set (wd_calls w). pc_ticket (cl_pc cl) = Some k} \<and>
     (sl_queue s = [] \<or> sl_max s \<le> sl_in_flight s \<or> fst (try_enter (Min (set (sl_queue s))) s))"
proof -
  from slot_safe.reached [OF assms] obtain s where s: "lm_slots (wd_lim w) = Some s" "slots_ok n s (wd_calls w)"
    by (auto simp: slots_inv_def)
  have "k \<in> set (sl_queue s) \<longleftrightarrow> (\<exists>cl \<in> set (wd_calls w). has_ticket k cl)" for k
  proof -
    have "count_list (sl_queue s) k = count_if (has_ticket k) (wd_calls w)" using s(2) by (simp add: slots_ok_def)
    then have "count_list (sl_queue s) k = 0 \<longleftrightarrow> count_if (has_ticket k) (wd_calls w) = 0" by simp
    then show ?thesis by (auto simp: count_list_0_iff count_if_def filter_empty_conv)
  qed
  then have set: "set (sl_queue s) = {k. \<exists>cl \<in> set (wd_calls w). pc_ticket (cl_pc cl) = Some k}"
    by (auto simp: has_ticket_def)
  have sorted: "sorted_wrt (<) (sl_queue s)" using s(2) by (simp add: slots_ok_def)
  have "fst (try_enter (Min (set (sl_queue s))) s)" if q: "sl_queue s \<noteq> []" "sl_in_flight s < sl_max s"
  proof -
    from q(1) obtain k ks where k: "sl_queue s = k # ks" by (cases "sl_queue s") auto
    with sorted have "Min (set (sl_queue s)) = k" by (intro Min_eqI) (auto simp: less_imp_le)
    with k q(2) show ?thesis by (simp add: try_enter_def)
  qed
  then have "sl_queue s = [] \<or> sl_max s \<le> sl_in_flight s \<or> fst (try_enter (Min (set (sl_queue s))) s)" by force
  with s(1) sorted set show ?thesis by blast
qed

text \<open>What \<open>Rate::new\<close> accepts: counts and periods in range, and periods too short to keep.\<close>

lemma div_round_even_le:
  assumes "a \<le> n * b" "0 < b"
  shows "div_round_even a b \<le> n"
proof (cases "a div b < n")
  case True
  then show ?thesis by (simp add: div_round_even_def Let_def)
next
  case False
  with assms have "a div b = n" by (metis div_le_mono linorder_not_less nonzero_mult_div_cancel_right
        order_antisym_conv less_not_refl2)
  moreover from this have "a mod b = 0" using assms div_mult_mod_eq [of a b]
    by (metis add_le_same_cancel1 le_zero_eq mult.commute)
  ultimately show ?thesis using assms by (simp add: div_round_even_def Let_def)
qed

lemma from_secs_f64_le:
  assumes "\<not> f64_gt f n" "\<not> f64_sign f"
  shows "from_secs_f64 f \<le> n * 10 ^ 9"
proof (cases "0 \<le> f64_exponent f")
  case True
  with assms have "f64_mantissa f * 2 ^ nat (f64_exponent f) \<le> n" by (simp add: f64_gt_def)
  then have "f64_mantissa f * 2 ^ nat (f64_exponent f) * 10 ^ 9 \<le> n * 10 ^ 9" by (rule mult_le_mono1)
  with True show ?thesis unfolding from_secs_f64_def Let_def by (simp only: if_True mult.commute mult.left_commute)
next
  case False
  with assms have "f64_mantissa f \<le> n * 2 ^ nat (- f64_exponent f)" by (simp add: f64_gt_def)
  then have "f64_mantissa f * 10 ^ 9 \<le> n * 2 ^ nat (- f64_exponent f) * 10 ^ 9" by (rule mult_le_mono1)
  also have "\<dots> = n * 10 ^ 9 * 2 ^ nat (- f64_exponent f)" by (simp only: mult.commute mult.left_commute)
  finally show ?thesis unfolding from_secs_f64_def Let_def if_not_P [OF False]
    by (rule div_round_even_le) simp
qed

definition rate_in_range :: "int \<Rightarrow> f64 \<Rightarrow> bool" where
  "rate_in_range count seconds \<longleftrightarrow>
     1 \<le> count \<and> count \<le> int u32_max \<and> f64_is_finite seconds \<and> \<not> f64_le_zero seconds \<and>
     \<not> f64_gt seconds max_period_secs"

text \<open>
  An accepted rate has its count, between one and the largest u32, and a period of
  at most a year; a rate is refused exactly when the count or the period is out of range.
\<close>

theorem rate_new_range:
  "case rate_new show_f64 count seconds of
     Inr r \<Rightarrow> rate_in_range count seconds \<and> int (rt_count r) = count \<and>
       rt_period r \<le> max_period_secs * 10 ^ 9 \<and> rate_interval r \<le> rt_period r
   | Inl e \<Rightarrow> rate_in_range count seconds = False"
  using from_secs_f64_le [of seconds max_period_secs]
  by (auto simp: rate_new_def rate_in_range_def rate_interval_def f64_le_zero_def split: if_splits)

text \<open>
  A period that rounds to no nanosecond, such as 1e-10 seconds, is accepted as
  positive: the rate is stored with period zero, and its interval makes no call wait.
\<close>

theorem short_periods_vanish:
  "rate_new show_f64 1 0x3DDB7CDFD9D7BDBB = Inr \<lparr>rt_count = 1, rt_period = 0\<rparr> \<and>
   rate_interval \<lparr>rt_count = 1, rt_period = 0\<rparr> = 0"
proof -
  have b: "f64_biased 0x3DDB7CDFD9D7BDBB = 989" by (simp add: f64_biased_def)
  have m: "f64_mantissa 0x3DDB7CDFD9D7BDBB = 7737125245533627" unfolding f64_mantissa_def b by simp
  have e: "f64_exponent 0x3DDB7CDFD9D7BDBB = -86" unfolding f64_exponent_def b by simp
  have s: "\<not> f64_sign 0x3DDB7CDFD9D7BDBB" by (simp add: f64_sign_def)
  show ?thesis
    by (simp add: rate_new_def rate_interval_def from_secs_f64_def f64_is_finite_def f64_le_zero_def
        f64_gt_def div_round_even_def max_period_secs_def b m e s)
qed

end
