(* ===== verification/Limiter_Rate.thy ===== *)
theory Limiter_Rate
  imports Limiter_Props "HOL-Library.Multiset"
begin

text \<open>
  The rate over every interleaving of calls: the turns held by the calls that wait, go or have gone
  are turns of one bucket run, so they keep to the rate, and no call goes before its turn.
\<close>

subsection \<open>The turns the calls hold\<close>

fun held_turn :: "call_pc \<Rightarrow> turn option" where
  "held_turn (Booked u) = u"
| "held_turn (AwaitTurn t) = Some t"
| "held_turn (Checking u) = u"
| "held_turn (AwaitPause u) = u"
| "held_turn (Ready u) = u"
| "held_turn (Calling u) = u"
| "held_turn (Done u) = u"
| "held_turn _ = None"

definition turn_mset :: "call \<Rightarrow> turn multiset" where
  "turn_mset cl = (case held_turn (cl_pc cl) of None \<Rightarrow> {#} | Some t \<Rightarrow> {#t#})"

definition held :: "call list \<Rightarrow> turn multiset" where
  "held calls = sum_list (map turn_mset calls)"

lemma held_update: "i < length calls \<Longrightarrow> held (calls[i := y]) + turn_mset (calls ! i) = held calls + turn_mset y"
proof (induction calls arbitrary: i)
  case (Cons x xs)
  then show ?case by (cases i) (auto simp: held_def add.commute add.left_commute)
qed simp

lemma held_same: "i < length calls \<Longrightarrow> turn_mset y = turn_mset (calls ! i) \<Longrightarrow> held (calls[i := y]) = held calls"
  using held_update [of i calls y] by simp

text \<open>When a call goes: not before its turn.\<close>

definition on_time :: "instant \<Rightarrow> call \<Rightarrow> bool" where
  "on_time now cl \<longleftrightarrow> cl_started cl \<le> now \<and>
     (case cl_pc cl of
        Checking (Some t) \<Rightarrow> tn_at t \<le> now
      | AwaitPause (Some t) \<Rightarrow> tn_at t \<le> now
      | Ready (Some t) \<Rightarrow> tn_at t \<le> now
      | Calling (Some t) \<Rightarrow> tn_at t \<le> cl_started cl + int (cl_waited cl)
      | Done (Some t) \<Rightarrow> tn_at t \<le> cl_started cl + int (cl_waited cl)
      | _ \<Rightarrow> True)"

definition time_inv :: "clock_range \<Rightarrow> world \<Rightarrow> bool" where
  "time_inv c w \<longleftrightarrow> in_range c (wd_now w) \<and> pred_option (in_range c) (lm_paused (wd_lim w)) \<and>
     list_all (on_time (wd_now w)) (wd_calls w)"

definition turns_inv :: "rate \<Rightarrow> world \<Rightarrow> bool" where
  "turns_inv r w \<longleftrightarrow>
     (\<exists>b ts. lm_bucket (wd_lim w) = Some b \<and> bucket_inv r (b, ts) \<and> held (wd_calls w) \<subseteq># mset ts)"

subsection \<open>Preservation\<close>

lemma on_time_later: "on_time now cl \<Longrightarrow> now \<le> t \<Longrightarrow> on_time t cl"
  by (auto simp: on_time_def split: call_pc.splits option.splits)

lemma time_inv_call:
  assumes "time_inv c w" "lm_paused (wd_lim w') = lm_paused (wd_lim w)" "wd_now w' = wd_now w"
    and "wd_calls w' = (wd_calls w)[i := y]" "on_time (wd_now w) y"
  shows "time_inv c w'"
  using assms list_all_update [of "on_time (wd_now w)" "wd_calls w" y i] by (simp add: time_inv_def)

lemma on_time_at: "time_inv c w \<Longrightarrow> i < length (wd_calls w) \<Longrightarrow> on_time (wd_now w) (wd_calls w ! i)"
  by (auto simp: time_inv_def list_all_length)

lemma time_inv_goto:
  assumes inv: "time_inv c w" and at: "at_pc w i pc"
    and pc: "\<And>cl. on_time (wd_now w) cl \<Longrightarrow> cl_pc cl = pc \<Longrightarrow> on_time (wd_now w) (cl\<lparr>cl_pc := pc'\<rparr>)"
    and w': "lm_paused (wd_lim w') = lm_paused (wd_lim w)" "wd_now w' = wd_now w" "wd_calls w' = wd_calls w"
  shows "time_inv c (goto i pc' w')"
proof (rule time_inv_call [OF inv, of _ i "(wd_calls w ! i)\<lparr>cl_pc := pc'\<rparr>"])
  have "i < length (wd_calls w)" using at by (simp add: at_pc_def)
  with on_time_at [OF inv this] at show "on_time (wd_now w) ((wd_calls w ! i)\<lparr>cl_pc := pc'\<rparr>)"
    by (intro pc) (simp_all add: at_pc_def)
qed (use w' in \<open>simp_all add: world_defs\<close>)

lemma time_inv_drop:
  assumes inv: "time_inv c w" and at: "at_pc w i pc" and pc: "pc = Dropping \<and> pc' = Cancelled \<or> (\<exists>u. pc = Calling u \<and> pc' = Done u)"
  shows "time_inv c (drop_permit i pc' w)"
proof (rule time_inv_call [OF inv, of _ i "(wd_calls w ! i)\<lparr>cl_pc := pc', cl_holds := False\<rparr>"])
  have "i < length (wd_calls w)" using at by (simp add: at_pc_def)
  with on_time_at [OF inv this] at pc
  show "on_time (wd_now w) ((wd_calls w ! i)\<lparr>cl_pc := pc', cl_holds := False\<rparr>)"
    by (auto simp: on_time_def at_pc_def split: option.splits)
qed (simp_all add: drop_permit_def Let_def set_call_def lm_release_def)

lemma time_inv_step: "lim_step c w w' \<Longrightarrow> time_inv c w \<Longrightarrow> time_inv c w'"
proof (induction rule: lim_step.induct)
  case (tick w t)
  then show ?case using on_time_later [of "wd_now w" _ t] by (auto simp: time_inv_def list_all_iff)
next
  case (pause until w)
  then show ?case by (auto simp: time_inv_def pause_until_def in_range_def split: option.split)
next
  case (call w)
  then show ?case by (simp add: time_inv_def call_new_def on_time_def)
next
  case (enter w i k s s')
  then show ?case
    by (intro time_inv_call [OF enter.prems, of _ i "(wd_calls w ! i)\<lparr>cl_pc := Booking, cl_holds := True\<rparr>"])
      (use on_time_at [OF enter.prems, of i] in \<open>auto simp: world_defs on_time_def\<close>)
next
  case (go w i u)
  then show ?case
    by (intro time_inv_call [OF go.prems, of _ i "(wd_calls w ! i)\<lparr>cl_pc := Calling u, cl_waited := nat (wd_now w - cl_started (wd_calls w ! i))\<rparr>"])
      (use on_time_at [OF go.prems, of i] in \<open>auto simp: world_defs on_time_def split: option.splits\<close>)
next
  case (unwind w i)
  then show ?case by (auto intro: time_inv_drop)
next
  case (finish_call w i u)
  then show ?case by (auto intro: time_inv_drop)
qed (auto intro: time_inv_goto simp: with_slots_def with_bucket_def give_back_turn_def on_time_def split: option.splits)

lemma turns_inv_same:
  assumes inv: "turns_inv r w" and i: "i < length (wd_calls w)"
    and w': "lm_bucket (wd_lim w') = lm_bucket (wd_lim w)" "wd_calls w' = (wd_calls w)[i := y]"
    and y: "held_turn (cl_pc y) = held_turn (cl_pc (wd_calls w ! i)) \<or> held_turn (cl_pc y) = None"
  shows "turns_inv r w'"
proof -
  have "turn_mset y = turn_mset (wd_calls w ! i) \<or> turn_mset y = {#}" using y by (auto simp: turn_mset_def)
  then have "held (wd_calls w') \<subseteq># held (wd_calls w)"
  proof
    assume "turn_mset y = turn_mset (wd_calls w ! i)"
    with held_same [OF i this] show ?thesis by (simp add: w'(2))
  next
    assume "turn_mset y = {#}"
    with held_update [OF i, of y] have "held (wd_calls w) = held (wd_calls w') + turn_mset (wd_calls w ! i)"
      by (simp add: w'(2))
    then show ?thesis by (simp only: mset_subset_eq_add_left)
  qed
  with inv w'(1) show ?thesis by (auto simp: turns_inv_def intro: subset_mset.order_trans)
qed

lemma turns_inv_goto:
  assumes inv: "turns_inv r w" and at: "at_pc w i pc"
    and pc: "held_turn pc' = held_turn pc \<or> held_turn pc' = None"
    and w': "lm_bucket (wd_lim w') = lm_bucket (wd_lim w)" "wd_calls w' = wd_calls w"
  shows "turns_inv r (goto i pc' w')"
  by (rule turns_inv_same [OF inv, of i _ "(wd_calls w ! i)\<lparr>cl_pc := pc'\<rparr>"]) (use at pc w' in \<open>auto simp: world_defs\<close>)

lemma turns_inv_book:
  assumes inv: "turns_inv r w" and at: "at_pc w i Booking" and b: "lm_bucket (wd_lim w) = Some b"
    and res: "reserve c now b = Some (t, b')" and range: "in_range c now"
  shows "turns_inv r (goto i (Booked (Some t)) (with_bucket b' w))"
proof -
  from inv b obtain ts where ts: "bucket_inv r (b, ts)" "held (wd_calls w) \<subseteq># mset ts" by (auto simp: turns_inv_def)
  have "i < length (wd_calls w)" using at by (simp add: at_pc_def)
  from held_update [OF this, of "(wd_calls w ! i)\<lparr>cl_pc := Booked (Some t)\<rparr>"] at
  have "held ((wd_calls w)[i := (wd_calls w ! i)\<lparr>cl_pc := Booked (Some t)\<rparr>]) = held (wd_calls w) + {#t#}"
    by (simp add: turn_mset_def at_pc_def)
  with bucket_inv_book [OF ts(1) range res] ts(2) show ?thesis
    by (auto simp: turns_inv_def world_defs intro!: exI [of _ "ts @ [t]"])
qed

lemma turns_inv_refund:
  assumes inv: "turns_inv r w" and at: "at_pc w i pc" and pc: "held_turn pc = Some t"
  shows "turns_inv r (goto i Dropping (w\<lparr>wd_lim := give_back_turn (Some t) (wd_lim w)\<rparr>))"
proof -
  from inv obtain b ts where b: "lm_bucket (wd_lim w) = Some b" and ts: "bucket_inv r (b, ts)" "held (wd_calls w) \<subseteq># mset ts"
    by (auto simp: turns_inv_def)
  let ?y = "(wd_calls w ! i)\<lparr>cl_pc := Dropping\<rparr>"
  let ?ts = "if bk_next b = Some (tn_after t) then remove1 t ts else ts"
  have i: "i < length (wd_calls w)" using at by (simp add: at_pc_def)
  from held_update [OF i, of ?y] at pc have h: "held ((wd_calls w)[i := ?y]) + {#t#} = held (wd_calls w)"
    by (simp add: turn_mset_def at_pc_def)
  with ts(2) have "t \<in># mset ts" by (metis mset_subset_eqD union_iff union_single_eq_member add_mset_add_single)
  then have inv': "bucket_inv r (refund t b, ?ts)" by (intro bucket_inv_refund [OF ts(1)]) simp
  have "held ((wd_calls w)[i := ?y]) = held (wd_calls w) - {#t#}" using h by (metis add_diff_cancel_right')
  moreover have "held (wd_calls w) - {#t#} \<subseteq># mset ts - {#t#}" using ts(2) by (auto simp: subseteq_mset_def diff_le_mono)
  ultimately have "held ((wd_calls w)[i := ?y]) \<subseteq># mset ts - {#t#}" by (simp only:)
  then have "held ((wd_calls w)[i := ?y]) \<subseteq># mset ?ts"
    by (auto intro: subset_mset.order_trans [OF _ diff_subset_eq_self])
  with inv' b show ?thesis by (auto simp: turns_inv_def world_defs give_back_turn_def intro!: exI [of _ ?ts])
qed

lemma turns_inv_frame:
  "turns_inv r w \<Longrightarrow> lm_bucket (wd_lim w') = lm_bucket (wd_lim w) \<Longrightarrow> wd_calls w' = wd_calls w \<Longrightarrow> turns_inv r w'"
  by (simp add: turns_inv_def)

lemma booking_in_range: "time_inv c w \<Longrightarrow> in_range c (booking_from w)"
  by (auto simp: time_inv_def booking_from_def in_range_def split: option.splits)

lemma turns_inv_drop:
  assumes inv: "turns_inv r w" and at: "at_pc w i pc" and pc: "held_turn pc' = held_turn pc"
  shows "turns_inv r (drop_permit i pc' w)"
  by (rule turns_inv_same [OF inv, of i _ "(wd_calls w ! i)\<lparr>cl_pc := pc', cl_holds := False\<rparr>"])
    (use at pc in \<open>auto simp: at_pc_def drop_permit_def Let_def set_call_def lm_release_def\<close>)

lemma turns_inv_step: "lim_step c w w' \<Longrightarrow> time_inv c w \<Longrightarrow> turns_inv r w \<Longrightarrow> turns_inv r w'"
proof (induction rule: lim_step.induct)
  case (tick w t)
  then show ?case by (auto intro: turns_inv_frame)
next
  case (pause until w)
  then show ?case by (auto intro: turns_inv_frame simp: pause_until_def)
next
  case (call w)
  then show ?case by (simp add: turns_inv_def held_def call_new_def turn_mset_def)
next
  case (enter w i k s s')
  then show ?case
    by (intro turns_inv_same [OF enter.prems(2), of i _ "(wd_calls w ! i)\<lparr>cl_pc := Booking, cl_holds := True\<rparr>"])
      (auto simp: world_defs)
next
  case (no_rate w i)
  then show ?case by (auto simp: turns_inv_def)
next
  case (book_turn w i b t b')
  then show ?case by (auto intro: turns_inv_book booking_in_range)
next
  case (cancel_turn w i t)
  then show ?case by (auto intro: turns_inv_refund)
next
  case (cancel_pause w i u)
  show ?case
  proof (cases u)
    case None
    with cancel_pause show ?thesis by (auto intro: turns_inv_goto simp: give_back_turn_def)
  next
    case (Some t)
    with cancel_pause show ?thesis by (auto intro: turns_inv_refund)
  qed
next
  case (go w i u)
  then show ?case
    by (intro turns_inv_same [OF go.prems(2), of i _ "(wd_calls w ! i)\<lparr>cl_pc := Calling u, cl_waited := nat (wd_now w - cl_started (wd_calls w ! i))\<rparr>"])
      (auto simp: world_defs)
next
  case (unwind w i)
  then show ?case by (auto intro: turns_inv_drop)
next
  case (finish_call w i u)
  then show ?case by (auto intro: turns_inv_drop)
qed (auto intro: turns_inv_goto simp: with_slots_def with_bucket_def)

definition limiter_inv :: "clock_range \<Rightarrow> rate \<Rightarrow> world \<Rightarrow> bool" where
  "limiter_inv c r w \<longleftrightarrow> time_inv c w \<and> turns_inv r w"

interpretation rate_safe: inductive_invariant "fresh_limiter c (Some r) n" "lim_step c" "limiter_inv c r" for c r n
proof unfold_locales
  show "fresh_limiter c (Some r) n w \<Longrightarrow> limiter_inv c r w" for w
    by (auto simp: fresh_limiter_def limiter_inv_def time_inv_def turns_inv_def limiter_new_def held_def
        bucket_inv_def bucket_new_def intro!: exI [of _ "[]"])
  show "limiter_inv c r w \<Longrightarrow> lim_step c w w' \<Longrightarrow> limiter_inv c r w'" for w w'
    by (auto simp: limiter_inv_def intro: time_inv_step turns_inv_step)
qed

subsection \<open>How many turns a window holds\<close>

text \<open>Points at least \<open>d\<close> apart: a window of length \<open>len\<close> holds \<open>1 + len div d\<close> at most.\<close>

lemma apart_in_window:
  assumes "0 < d" "sorted_wrt (\<lambda>x y. x + d \<le> y) xs" "\<forall>x \<in> set xs. a \<le> x \<and> x \<le> a + len" "0 \<le> (len :: int)"
  shows "int (length xs) \<le> 1 + len div d"
  using assms(2-4)
proof (induction xs arbitrary: a len)
  case Nil
  then show ?case using assms(1) by (simp add: pos_imp_zdiv_nonneg_iff)
next
  case (Cons x xs)
  show ?case
  proof (cases xs)
    case Nil
    with Cons.prems(3) assms(1) show ?thesis by (simp add: pos_imp_zdiv_nonneg_iff)
  next
    case (Cons y ys)
    have "y \<in> set (x # xs)" "x + d \<le> y" using Cons Cons.prems(1) by simp_all
    with Cons.prems(2) have len: "0 \<le> len - d" by force
    have "int (length xs) \<le> 1 + (len - d) div d"
    proof (rule Cons.IH [of "a + d"])
      show "\<forall>z \<in> set xs. a + d \<le> z \<and> z \<le> a + d + (len - d)" using Cons.prems(1,2) by force
    qed (use Cons.prems(1) len in simp_all)
    moreover have "(len - d + d) div d = (len - d) div d + 1" using assms(1) by (intro div_add_self2) simp
    ultimately show ?thesis by simp
  qed
qed

definition in_window :: "instant \<Rightarrow> duration \<Rightarrow> turn \<Rightarrow> bool" where
  "in_window from d t \<longleftrightarrow> from \<le> tn_at t \<and> tn_at t \<le> from + int d"

lemma booked_in_window:
  assumes inv: "bucket_inv r (b, ts)" and pos: "0 < rate_interval r" and count: "0 < rt_count r"
  shows "length (filter (in_window from d) ts) \<le> rt_count r + d div rate_interval r"
proof -
  let ?I = "rate_interval r" and ?ws = "filter (in_window from d) ts"
  have ok: "turn_ok b t" if "t \<in> set ts" for t using inv that by (auto simp: bucket_inv_def list_all_iff)
  have "sorted_wrt (\<lambda>t u. tn_before t + int ?I \<le> tn_before u) ts"
    using inv ok by (auto simp: bucket_inv_def turn_ok_def follows_def elim!: sorted_wrt_mono_rel [rotated])
  then have "sorted_wrt (\<lambda>t u. tn_before t + int ?I \<le> tn_before u) ?ws" by (rule sorted_wrt_filter)
  then have "sorted_wrt (\<lambda>x y. x + int ?I \<le> y) (map tn_before ?ws)" by (simp add: sorted_wrt_map)
  moreover have "\<forall>x \<in> set (map tn_before ?ws). from \<le> x \<and> x \<le> from + (int d + int ?I * int (rt_count r - 1))"
    using ok inv by (fastforce simp: turn_ok_def bucket_inv_def in_window_def)
  ultimately have "int (length (map tn_before ?ws)) \<le> 1 + (int d + int ?I * int (rt_count r - 1)) div int ?I"
    using pos by (intro apart_in_window) auto
  also have "(int d + int ?I * int (rt_count r - 1)) div int ?I = int d div int ?I + int (rt_count r - 1)"
    using pos by (simp add: div_mult_self2)
  finally have "int (length ?ws) \<le> int (rt_count r + d div ?I)"
    using count by (simp add: zdiv_int of_nat_diff)
  then show ?thesis by (simp only: of_nat_le_iff)
qed

subsection \<open>The properties\<close>

text \<open>A call that goes or has gone, with a turn in a window.\<close>

definition went_in :: "instant \<Rightarrow> duration \<Rightarrow> call \<Rightarrow> bool" where
  "went_in from d cl = (case cl_pc cl of
     Calling (Some t) \<Rightarrow> in_window from d t | Done (Some t) \<Rightarrow> in_window from d t | _ \<Rightarrow> False)"

lemma went_le_held: "count_if (went_in from d) calls \<le> size (filter_mset (in_window from d) (held calls))"
proof (induction calls)
  case (Cons cl calls)
  have "(if went_in from d cl then 1 else 0) \<le> size (filter_mset (in_window from d) (turn_mset cl))"
    by (auto simp: went_in_def turn_mset_def split: call_pc.splits option.splits)
  with Cons show ?case by (simp add: held_def split: if_splits)
qed (simp add: held_def)

text \<open>
  C4: The limiter keeps to its rate under every interleaving of calls, waits, cancellations and
  pauses: of the calls that went, at most \<open>count\<close> plus one for each whole interval have
  their turn in any window of time. A cancelled call's turn is never used by two others.
\<close>

theorem limiter_keeps_rate:
  assumes "reaches (fresh_limiter c (Some r) n) (lim_step c) w"
    and "0 < rate_interval r" "0 < rt_count r"
  shows "count_if (went_in from d) (wd_calls w) \<le> rt_count r + d div rate_interval r"
proof -
  from rate_safe.reached [OF assms(1)] obtain b ts where ts: "bucket_inv r (b, ts)" "held (wd_calls w) \<subseteq># mset ts"
    by (auto simp: limiter_inv_def turns_inv_def)
  from ts(2) have "size (filter_mset (in_window from d) (held (wd_calls w))) \<le> size (filter_mset (in_window from d) (mset ts))"
    by (intro size_mset_mono multiset_filter_mono)
  also have "\<dots> = length (filter (in_window from d) ts)" by (simp flip: mset_filter)
  also have "\<dots> \<le> rt_count r + d div rate_interval r" using ts(1) assms(2,3) by (rule booked_in_window)
  finally show ?thesis using went_le_held order.trans by blast
qed

text \<open>
  No call goes before its turn: a call that goes or has gone waited at least until the
  instant it was booked for.
\<close>

theorem calls_wait_their_turn:
  assumes "reaches (fresh_limiter c (Some r) n) (lim_step c) w"
    and "cl \<in> set (wd_calls w)" "cl_pc cl = Calling (Some t) \<or> cl_pc cl = Done (Some t)"
  shows "tn_at t \<le> cl_started cl + int (cl_waited cl)"
  using rate_safe.reached [OF assms(1)] assms(2,3)
  by (auto simp: limiter_inv_def time_inv_def on_time_def list_all_iff)

subsection \<open>A call that goes\<close>

text \<open>One call on a limiter of two calls a second and one slot, at each of its steps.\<close>

definition sample_world :: "slots \<Rightarrow> bucket \<Rightarrow> call list \<Rightarrow> world" where
  "sample_world s b calls =
     \<lparr>wd_now = 0, wd_lim = (limiter_new (Some sample_rate) (Some 1))\<lparr>lm_slots := Some s, lm_bucket := Some b\<rparr>,
      wd_calls = calls\<rparr>"

definition sample_call :: "call_pc \<Rightarrow> bool \<Rightarrow> call" where
  "sample_call pc holds = \<lparr>cl_pc = pc, cl_started = 0, cl_holds = holds, cl_waited = 0\<rparr>"

definition sample_slots :: "nat \<Rightarrow> nat list \<Rightarrow> nat \<Rightarrow> slots" where
  "sample_slots n q k = \<lparr>sl_max = 1, sl_in_flight = n, sl_queue = q, sl_next_ticket = k\<rparr>"

definition sample_end :: world where
  "sample_end = sample_world (sample_slots 1 [] 1) (sample_bucket 500000000) [sample_call (Calling (Some (sample_turn 0))) True]"

lemma sample_end_reached: "reaches (fresh_limiter sample_range (Some sample_rate) (Some 1)) (lim_step sample_range) sample_end"
proof -
  let ?R = "reaches (fresh_limiter sample_range (Some sample_rate) (Some 1)) (lim_step sample_range)"
  let ?W = sample_world and ?S = sample_slots and ?B = "bucket_new sample_rate" and ?t = "Some (sample_turn 0)"
  let ?B' = "sample_bucket 500000000" and ?C = sample_call
  note defs = sample_world_def sample_call_def sample_slots_def world_defs limiter_new_def sample_turn_def
  have go: "?R w \<Longrightarrow> lim_step sample_range w w'' \<Longrightarrow> w'' = w' \<Longrightarrow> ?R w'" for w w' w''
    by (auto intro: reaches_step)
  have "?R (?W (?S 0 [] 0) ?B [])"
    by (rule reaches_init) (simp add: fresh_limiter_def defs slots_new_def sample_range_def in_range_def)
  from go [OF this lim_step.call] have "?R (?W (?S 0 [] 0) ?B [?C Asking False])"
    by (simp add: defs call_new_def)
  from go [OF this lim_step.join [where i = 0 and s = "?S 0 [] 0" and k = 0 and s' = "?S 0 [0] 1"]]
  have "?R (?W (?S 0 [0] 1) ?B [?C (Queued 0) False])" by (simp add: defs enqueue_def Let_def)
  from go [OF this lim_step.enter [where i = 0 and s = "?S 0 [0] 1" and k = 0 and s' = "?S 1 [] 1"]]
  have "?R (?W (?S 1 [] 1) ?B [?C Booking True])" by (simp add: defs try_enter_def)
  from go [OF this lim_step.book_turn [where i = 0 and b = ?B and t = "sample_turn 0" and b' = ?B']]
  have "?R (?W (?S 1 [] 1) ?B' [?C (Booked ?t) True])"
    using sample_reserve(1) by (simp add: defs booking_from_def)
  from go [OF this lim_step.turn_here [where i = 0 and t = "sample_turn 0"]]
  have "?R (?W (?S 1 [] 1) ?B' [?C (Checking ?t) True])" by (simp add: defs)
  from go [OF this lim_step.no_pause [where i = 0 and u = ?t]]
  have "?R (?W (?S 1 [] 1) ?B' [?C (Ready ?t) True])" by (simp add: defs paused_for_def)
  from go [OF this lim_step.go [where i = 0 and u = ?t]]
  show ?thesis by (simp add: defs sample_end_def)
qed

lemma reaches_test: "reaches init (lim_step c) w \<Longrightarrow> reaches init (test_step c) w"
  by (induction rule: reaches.induct) (auto intro: reaches_init reaches_step normally)

lemma slots_never_exceeded_witness:
  "lm_in_flight (wd_lim sample_end) = count_if cl_holds (wd_calls sample_end) \<and>
     count_if cl_holds (wd_calls sample_end) \<le> max 1 1"
  by (rule slots_never_exceeded) (rule reaches_test [OF sample_end_reached])

lemma slots_in_order_witness:
  "\<exists>s. lm_slots (wd_lim sample_end) = Some s \<and> sorted_wrt (<) (sl_queue s) \<and>
     set (sl_queue s) = {k. \<exists>cl \<in> set (wd_calls sample_end). pc_ticket (cl_pc cl) = Some k} \<and>
     (sl_queue s = [] \<or> sl_max s \<le> sl_in_flight s \<or> fst (try_enter (Min (set (sl_queue s))) s))"
  by (rule slots_in_order) (rule reaches_test [OF sample_end_reached])

lemma limiter_keeps_rate_witness:
  "count_if (went_in 0 100) (wd_calls sample_end) \<le> rt_count sample_rate + 100 div rate_interval sample_rate"
  by (rule limiter_keeps_rate [OF sample_end_reached]) (simp_all add: sample_rate_def rate_interval_def)

lemma calls_wait_their_turn_witness: "tn_at (sample_turn 0) \<le> 0 + int 0"
  using calls_wait_their_turn [OF sample_end_reached, of "sample_call (Calling (Some (sample_turn 0))) True" "sample_turn 0"]
  by (simp add: sample_end_def sample_world_def sample_call_def)

end
