(* ===== verification/Rust_Split.thy ===== *)
theory Rust_Split
  imports Rust_Text
begin

text \<open>
  More of Rust's \<open>str\<close> and slices, shared by the components that read small formats: the
  pieces of a text, prefixes and suffixes, ASCII case, unsigned numbers, and the position of an item.
\<close>

text \<open>A result mapped: \<open>?\<close> and \<open>map\<close> on a \<open>Result\<close>.\<close>

lemma map_result_Inr [simp]:
  "map_sum id f r = Inr y \<longleftrightarrow> (\<exists>x. r = Inr x \<and> y = f x)" "Inr y = map_sum id f r \<longleftrightarrow> (\<exists>x. r = Inr x \<and> y = f x)"
  by (cases r; auto)+

subsection \<open>Pieces\<close>

text \<open>\<open>str::split\<close> on a character: the pieces between, empty ones too.\<close>

fun split_at :: "(nat \<Rightarrow> bool) \<Rightarrow> rtext \<Rightarrow> rtext list" where
  "split_at P [] = [[]]"
| "split_at P (c # cs) =
     (if P c then [] # split_at P cs
      else (case split_at P cs of [] \<Rightarrow> [[c]] | p # ps \<Rightarrow> (c # p) # ps))"

text \<open>\<open>str::split_whitespace\<close>, \<open>str::split_once\<close> and \<open>str::rsplit_once\<close> on a character.\<close>

definition split_whitespace :: "rtext \<Rightarrow> rtext list" where
  "split_whitespace s = filter (\<lambda>w. w \<noteq> []) (split_at is_whitespace s)"

fun split_once :: "nat \<Rightarrow> rtext \<Rightarrow> (rtext \<times> rtext) option" where
  "split_once c [] = None"
| "split_once c (x # xs) =
     (if x = c then Some ([], xs) else map_option (\<lambda>(a, b). (x # a, b)) (split_once c xs))"

definition strip_prefix :: "rtext \<Rightarrow> rtext \<Rightarrow> rtext option" where
  "strip_prefix p s = (if starts_with s p then Some (drop (length p) s) else None)"

fun join_with :: "rtext \<Rightarrow> rtext list \<Rightarrow> rtext" where
  "join_with sep [] = []"
| "join_with sep [p] = p"
| "join_with sep (p # ps) = p @ sep @ join_with sep ps"

text \<open>\<open>str::contains\<close> of a text.\<close>

fun contains :: "rtext \<Rightarrow> rtext \<Rightarrow> bool" where
  "contains [] p \<longleftrightarrow> p = []"
| "contains (c # cs) p \<longleftrightarrow> starts_with (c # cs) p \<or> contains cs p"

lemma split_at_not_Nil [simp]: "split_at P s \<noteq> []"
  by (induction s) (auto split: list.splits)

lemma split_at_none: "\<forall>c \<in> set s. \<not> P c \<Longrightarrow> split_at P s = [s]"
  by (induction s) auto

lemma split_at_append: "\<forall>c \<in> set p. \<not> P c \<Longrightarrow> P x \<Longrightarrow> split_at P (p @ x # s) = p # split_at P s"
  by (induction p) auto

lemma split_at_sep [simp]: "x \<notin> set p \<Longrightarrow> split_at (\<lambda>c. c = x) (p @ x # s) = p # split_at (\<lambda>c. c = x) s"
  by (rule split_at_append) auto

lemma split_at_pieces: "p \<in> set (split_at P s) \<Longrightarrow> c \<in> set p \<Longrightarrow> c \<in> set s \<and> \<not> P c"
proof (induction s arbitrary: p)
  case (Cons d s)
  obtain q qs where q: "split_at P s = q # qs" by (meson neq_Nil_conv split_at_not_Nil)
  with Cons.prems Cons.IH [of p] Cons.IH [of q] show ?case by (auto split: if_splits)
qed simp

lemma split_at_empty: "split_at P s = [[]] \<longleftrightarrow> s = []"
  by (cases s) (auto split: list.splits)

lemma split_at_last: "last (split_at P s) = [] \<longleftrightarrow> s = [] \<or> P (last s)"
proof (induction s)
  case (Cons c s)
  obtain p ps where "split_at P s = p # ps" by (meson neq_Nil_conv split_at_not_Nil)
  with Cons split_at_empty [of P s] show ?case by (cases ps) (auto split: if_splits)
qed simp

lemma split_at_at: "P x \<Longrightarrow> split_at P (a @ x # b) = split_at P a @ split_at P b"
  by (induction a) (auto split: list.splits)

text \<open>Pieces without the separator are found again in their join.\<close>

lemma split_join:
  "ps \<noteq> [] \<Longrightarrow> \<forall>p \<in> set ps. x \<notin> set p \<Longrightarrow> split_at (\<lambda>c. c = x) (join_with [x] ps) = ps"
proof (induction ps rule: induct_list012)
  case (3 p q ps)
  then show ?case by simp
qed (auto intro: split_at_none)

lemma split_once_split_at:
  "split_once x s = (case split_at (\<lambda>c. c = x) s of
     [] \<Rightarrow> None | [p] \<Rightarrow> None | p # q # ps \<Rightarrow> Some (p, join_with [x] (q # ps)))"
proof (induction s)
  case (Cons c s)
  have "join_with [x] (split_at (\<lambda>c. c = x) s) = s"
  proof (induction s)
    case (Cons d s)
    obtain p ps where "split_at (\<lambda>c. c = x) s = p # ps" by (meson neq_Nil_conv split_at_not_Nil)
    with Cons show ?case by (cases ps) auto
  qed simp
  with Cons show ?case by (auto split: list.splits)
qed simp

lemma split_once_Some: "split_once c s = Some (a, b) \<Longrightarrow> s = a @ c # b \<and> c \<notin> set a"
  by (induction s arbitrary: a) (auto split: if_splits)

lemma split_once_append: "c \<notin> set a \<Longrightarrow> split_once c (a @ c # b) = Some (a, b)"
  by (induction a) auto

subsection \<open>Bytes\<close>

type_synonym bytes = "nat list"

text \<open>The UTF-8 encoding: \<open>str::as_bytes\<close>.\<close>

definition utf8_char :: "nat \<Rightarrow> bytes" where
  "utf8_char c =
     (if c < 0x80 then [c]
      else if c < 0x800 then [0xC0 + c div 64, 0x80 + c mod 64]
      else if c < 0x10000 then [0xE0 + c div 4096, 0x80 + c div 64 mod 64, 0x80 + c mod 64]
      else [0xF0 + c div 262144, 0x80 + c div 4096 mod 64, 0x80 + c div 64 mod 64, 0x80 + c mod 64])"

definition as_bytes :: "rtext \<Rightarrow> bytes" where
  "as_bytes s = concat (map utf8_char s)"

subsection \<open>ASCII case\<close>

definition ascii_lower :: "nat \<Rightarrow> nat" where
  "ascii_lower c = (if is_ascii_uppercase c then c + 32 else c)"

definition eq_ignore_ascii_case :: "rtext \<Rightarrow> rtext \<Rightarrow> bool" where
  "eq_ignore_ascii_case s t \<longleftrightarrow> map ascii_lower s = map ascii_lower t"

subsection \<open>Numbers and positions\<close>

text \<open>\<open>str::parse\<close> for an unsigned integer of so many bits: a plus sign is allowed.\<close>

definition parse_unsigned :: "nat \<Rightarrow> rtext \<Rightarrow> int option" where
  "parse_unsigned bits s = (case s of
     [] \<Rightarrow> None
   | c # cs \<Rightarrow> parse_radix is_ascii_digit 10 (2 ^ bits) (if c = ch CHR ''+'' then cs else s))"

lemma parse_unsigned_range: "parse_unsigned bits s = Some n \<Longrightarrow> 0 \<le> n \<and> n < 2 ^ bits"
  by (auto simp: parse_unsigned_def parse_radix_def Let_def digits_value_nonneg split: list.splits if_splits)

fun position :: "'a \<Rightarrow> 'a list \<Rightarrow> nat option" where
  "position x [] = None"
| "position x (y # ys) = (if y = x then Some 0 else map_option Suc (position x ys))"

fun position_of :: "('a \<Rightarrow> bool) \<Rightarrow> 'a list \<Rightarrow> nat option" where
  "position_of P [] = None"
| "position_of P (y # ys) = (if P y then Some 0 else map_option Suc (position_of P ys))"

lemma position_less: "position x xs = Some i \<Longrightarrow> i < length xs"
  by (induction xs arbitrary: i) (auto split: if_splits)

lemma position_of_less: "position_of P xs = Some i \<Longrightarrow> i < length xs \<and> P (xs ! i)"
  by (induction xs arbitrary: i) (auto split: if_splits)

end
