(* ===== verification/Retry_After.thy ===== *)
theory Retry_After
  imports Limits Rust_Split
begin

text \<open>
  \<open>Retry-After\<close> (grenat\_limits: src/retry\_after.rs): seconds, or an HTTP date in three
  formats. The system's clock is given as the seconds since the epoch, \<open>None\<close> before it.
\<close>

subsection \<open>Pieces of text\<close>

definition is_ascii_whitespace :: "nat \<Rightarrow> bool" where
  "is_ascii_whitespace c \<longleftrightarrow> c \<in> {9, 10, 12, 13, 32}"

definition split_ascii_whitespace :: "rtext \<Rightarrow> rtext list" where
  "split_ascii_whitespace s = filter (\<lambda>w. w \<noteq> []) (split_at is_ascii_whitespace s)"

definition ends_with :: "rtext \<Rightarrow> nat \<Rightarrow> bool" where
  "ends_with s c \<longleftrightarrow> s \<noteq> [] \<and> last s = c"

text \<open>\<open>str::parse::<i64>\<close>: a sign is allowed.\<close>

definition parse_signed :: "rtext \<Rightarrow> int option" where
  "parse_signed s = (case s of
     [] \<Rightarrow> None
   | c # cs \<Rightarrow>
       if c = ch CHR ''+'' then parse_radix is_ascii_digit 10 (2 ^ 63) cs
       else if c = ch CHR ''-'' then map_option uminus (parse_radix is_ascii_digit 10 (2 ^ 63 + 1) cs)
       else parse_radix is_ascii_digit 10 (2 ^ 63) s)"

subsection \<open>The calendar\<close>

definition MONTHS :: "string list" where
  "MONTHS = [''Jan'', ''Feb'', ''Mar'', ''Apr'', ''May'', ''Jun'', ''Jul'', ''Aug'', ''Sep'', ''Oct'', ''Nov'', ''Dec'']"

definition month_number :: "rtext \<Rightarrow> int option" where
  "month_number name = map_option (\<lambda>i. int i + 1) (position name (map str MONTHS))"

text \<open>
  \<open>this_century\<close>: \<open>div_euclid\<close> and \<open>rem_euclid\<close> by a positive number are
  \<open>div\<close> and \<open>mod\<close>; \<open>%\<close> of what is compared with zero, and of \<open>month + 9\<close>, agrees with \<open>mod\<close>.
\<close>

definition this_century :: "int \<Rightarrow> int" where
  "this_century now =
     (let this_year = 1970 + now div (86400 * 36525 div 100) in this_year - this_year mod 100)"

definition is_leap :: "int \<Rightarrow> bool" where
  "is_leap year \<longleftrightarrow> year mod 4 = 0 \<and> (year mod 100 \<noteq> 0 \<or> year mod 400 = 0)"

definition days_in_month :: "int \<Rightarrow> int \<Rightarrow> int" where
  "days_in_month year month =
     (if month = 2 \<and> is_leap year then 29 else if month = 2 then 28
      else if month \<in> {4, 6, 9, 11} then 30 else 31)"

text \<open>The divisions of the code are of numbers that are not negative, where they agree with \<open>div\<close>.\<close>

definition days_from_civil :: "int \<Rightarrow> int \<Rightarrow> int \<Rightarrow> int" where
  "days_from_civil year month day =
     (let y = (if month \<le> 2 then year - 1 else year);
          era = y div 400;
          yoe = y - era * 400;
          mp = (month + 9) mod 12;
          doy = (153 * mp + 2) div 5 + day - 1;
          doe = yoe * 365 + yoe div 4 - yoe div 100 + doy
      in era * 146097 + doe - 719468)"

definition timestamp :: "int \<Rightarrow> int \<Rightarrow> int \<Rightarrow> int \<Rightarrow> int option" where
  "timestamp year month day seconds =
     (if day < 1 \<or> days_in_month year month < day then None
      else Some (days_from_civil year month day * 86400 + seconds))"

subsection \<open>Dates\<close>

definition FIFTY_YEARS :: int where
  "FIFTY_YEARS = 50 * 31556952"

text \<open>\<open>i64::saturating_add\<close>.\<close>

definition saturating_add :: "int \<Rightarrow> int \<Rightarrow> int" where
  "saturating_add a b = max i64_min (min i64_max (a + b))"

text \<open>The day, the month, the year, the time, and whether the year has two digits.\<close>

definition date_parts :: "rtext \<Rightarrow> rtext \<Rightarrow> rtext \<Rightarrow> int \<Rightarrow> rtext \<Rightarrow> bool \<Rightarrow> (int \<times> int \<times> int \<times> rtext \<times> bool) option" where
  "date_parts day month year century time two_digits =
     (case (parse_signed day, month_number month, parse_signed year) of
        (Some d, Some m, Some y) \<Rightarrow> Some (d, m, century + y, time, two_digits)
      | _ \<Rightarrow> None)"

definition date_format :: "rtext list \<Rightarrow> int \<Rightarrow> (int \<times> int \<times> int \<times> rtext \<times> bool) option" where
  "date_format words now = (case words of
     [name, day, month, year, time, zone] \<Rightarrow>
       if zone = str ''GMT'' \<and> ends_with name (ch CHR '','') \<and> blen day = 2 \<and> blen year = 4
       then date_parts day month year 0 time False else None
   | [name, date, time, zone] \<Rightarrow>
       if zone = str ''GMT'' \<and> ends_with name (ch CHR '','') then
         (case split_at (\<lambda>c. c = ch CHR ''-'') date of
            [day, month, year] \<Rightarrow>
              if blen day \<noteq> 2 \<or> blen year \<noteq> 2 then None
              else date_parts day month year (this_century now) time True
          | _ \<Rightarrow> None)
       else None
   | [_, month, day, time, year] \<Rightarrow>
       if 1 \<le> blen day \<and> blen day \<le> 2 \<and> blen year = 4
       then date_parts day month year 0 time False else None
   | _ \<Rightarrow> None)"

text \<open>The seconds of a time \<open>hh:mm:ss\<close>; 60 is a leap second.\<close>

definition clock_seconds :: "rtext \<Rightarrow> int option" where
  "clock_seconds time = (case split_at (\<lambda>c. c = ch CHR '':'') time of
     [h, m, s] \<Rightarrow>
       if blen h \<noteq> 2 \<or> blen m \<noteq> 2 \<or> blen s \<noteq> 2 then None
       else (case (parse_signed h, parse_signed m, parse_signed s) of
               (Some h, Some m, Some s) \<Rightarrow>
                 if 23 < h \<or> 59 < m \<or> 60 < s then None else Some (h * 3600 + m * 60 + s)
             | _ \<Rightarrow> None)
   | _ \<Rightarrow> None)"

definition http_date :: "rtext \<Rightarrow> int \<Rightarrow> int option" where
  "http_date value now = (case date_format (split_ascii_whitespace value) now of
     None \<Rightarrow> None
   | Some (day, month, year, time, two_digits) \<Rightarrow>
       (case clock_seconds time of
          None \<Rightarrow> None
        | Some seconds \<Rightarrow>
            (case timestamp year month day seconds of
               None \<Rightarrow> None
             | Some at \<Rightarrow>
                 if two_digits \<and> saturating_add now FIFTY_YEARS < at
                 then timestamp (year - 100) month day seconds else Some at)))"

text \<open>\<open>parse\<close>, in seconds; \<open>now\<close> is the seconds since the epoch as an i64.\<close>

definition parse_retry_after :: "rtext \<Rightarrow> int option \<Rightarrow> int option" where
  "parse_retry_after value now =
     (let value = trim value in
      if value \<noteq> [] \<and> list_all is_ascii_digit value then
        Some (case parse_radix is_ascii_digit 10 (2 ^ 64) value of None \<Rightarrow> 2 ^ 64 - 1 | Some n \<Rightarrow> n)
      else
        (case now of None \<Rightarrow> None
         | Some n \<Rightarrow> map_option (\<lambda>at. max (max i64_min (min i64_max (at - n))) 0) (http_date value n)))"

end
