(* ===== verification/Gregorian.thy ===== *)
theory Gregorian
  imports Prelude
begin

text \<open>
  Arithmetic of the Gregorian calendar that the two calendars of the program share (the one
  of \<open>Retry-After\<close> in grenat\_limits and the one of grenat\_serve): division by steps and by nested
  divisors, and the days of the years before a year, counted from March.
\<close>

lemma div_step:
  assumes n: "0 < n"
  shows "(y :: int) div n = (y - 1) div n + (if y mod n = 0 then 1 else 0)"
proof (cases "y mod n = 0")
  case True
  then obtain k where k: "y = n * k" by (auto elim: dvdE simp: mod_eq_0_iff_dvd)
  have "(n * k - 1) div n = k - 1"
    by (rule int_div_pos_eq [where r = "n - 1"]) (use n in \<open>simp_all add: algebra_simps\<close>)
  with k n True show ?thesis by simp
next
  case False
  with n have r: "0 < y mod n" by (metis pos_mod_sign less_le)
  have "(y - 1) div n = y div n"
    by (rule int_div_pos_eq [where r = "y mod n - 1"])
      (use r n pos_mod_bound [OF n, of y] div_mult_mod_eq [of y n] in \<open>simp_all add: algebra_simps\<close>)
  with False show ?thesis by simp
qed

lemma div_nested: "0 < a \<Longrightarrow> c = b * a \<Longrightarrow> (x :: int) div a = x div c * b + (x mod c) div a"
proof -
  assume a: "0 < a" and c: "c = b * a"
  have "x = x mod c + (x div c * b) * a" unfolding c by (metis add.commute div_mult_mod_eq mult.assoc)
  then have "x div a = (x mod c + (x div c * b) * a) div a" by simp
  also have "\<dots> = x div c * b + (x mod c) div a" using a by (intro div_mult_self1) simp
  finally show ?thesis .
qed

lemma div_mod_parts:
  fixes r :: int
  assumes "0 \<le> r" "r < k"
  shows "(r + k * q) div k = q" "(r + k * q) mod k = r"
proof -
  have "k \<noteq> 0" using assms by simp
  then show "(r + k * q) div k = q" using assms by (simp add: div_pos_pos_trivial)
  show "(r + k * q) mod k = r" unfolding mod_mult_self2 using assms by (rule mod_pos_pos_trivial)
qed

text \<open>The days of the years before \<open>y\<close>, from March to March.\<close>

definition year_days :: "int \<Rightarrow> int" where
  "year_days y = 365 * y + y div 4 - y div 100 + y div 400"

lemma year_days_rule:
  "year_days y = year_days (y - 1) + 365 + (if y mod 4 = 0 \<and> (y mod 100 \<noteq> 0 \<or> y mod 400 = 0) then 1 else 0)"
proof -
  have "y mod 400 = 0 \<Longrightarrow> y mod 100 = 0" "y mod 100 = 0 \<Longrightarrow> y mod 4 = 0"
    by (auto simp: mod_eq_0_iff_dvd elim: dvd_trans [rotated])
  then show ?thesis
    unfolding year_days_def div_step [of 4 y, simplified] div_step [of 100 y, simplified] div_step [of 400 y, simplified]
    by (cases "y mod 4 = 0"; cases "y mod 100 = 0"; cases "y mod 400 = 0") simp_all
qed

lemma months: "1 \<le> m \<Longrightarrow> m \<le> 12 \<Longrightarrow> m \<in> {1, 2, 3, 4, 5, 6, 7, 8, 9, 10, 11, 12 :: int}"
  unfolding insert_iff empty_iff by presburger

lemma months_from_March: "0 \<le> m \<Longrightarrow> m \<le> 11 \<Longrightarrow> m \<in> {0, 1, 2, 3, 4, 5, 6, 7, 8, 9, 10, 11 :: int}"
  unfolding insert_iff empty_iff by presburger

text \<open>
  An era of 400 years, from March: its days are \<open>c\<close> centuries, \<open>b\<close> times four years, \<open>a\<close>
  years and \<open>r\<close> days, where only the last year of four has a 366th day, and of a
  century's last four years only that of the last century.
\<close>

definition era_parts :: "int \<Rightarrow> int \<Rightarrow> int \<Rightarrow> int \<Rightarrow> bool" where
  "era_parts c b a r \<longleftrightarrow> 0 \<le> c \<and> c \<le> 3 \<and> 0 \<le> b \<and> b \<le> 24 \<and> 0 \<le> a \<and> a \<le> 3 \<and> 0 \<le> r \<and>
     (r \<le> 364 \<or> r = 365 \<and> a = 3 \<and> (b = 24 \<longrightarrow> c = 3))"

lemma era_parts_exist:
  assumes "0 \<le> doe" "doe < 146097"
  shows "\<exists>c b a r. era_parts c b a r \<and> doe = 36524 * c + 1461 * b + 365 * a + r"
proof -
  define c where "c = min 3 (doe div 36524)"
  define x where "x = doe - 36524 * c"
  define b where "b = x div 1461"
  define y where "y = x - 1461 * b"
  define a where "a = min 3 (y div 365)"
  define r where "r = y - 365 * a"
  have c: "0 \<le> c" "c \<le> 3" "0 \<le> x" "x \<le> 36523 \<or> c = 3 \<and> x = 36524"
    using assms by (auto simp: c_def x_def min_def)
  have b: "0 \<le> b" "b \<le> 24" "0 \<le> y" "y \<le> 1460" "x = 1461 * b + y"
    using c by (auto simp: b_def y_def)
  have a: "0 \<le> a" "a \<le> 3" "0 \<le> r" "r \<le> 364 \<or> a = 3 \<and> r = 365 \<and> y = 1460"
    using b by (auto simp: a_def r_def min_def)
  have "a = 3 \<and> r = 365 \<and> y = 1460 \<Longrightarrow> b = 24 \<Longrightarrow> c = 3" using b c by auto
  then have "era_parts c b a r" using c b a by (auto simp: era_parts_def)
  moreover have "doe = 36524 * c + 1461 * b + 365 * a + r" by (simp add: r_def y_def x_def)
  ultimately show ?thesis by blast
qed

lemma era_year:
  assumes p: "era_parts c b a r" and doe: "doe = 36524 * c + 1461 * b + 365 * a + r"
  shows "(doe - doe div 1460 + doe div 36524 - doe div 146096) div 365 = 100 * c + 4 * b + a"
proof -
  from p have le: "0 \<le> c" "c \<le> 3" "0 \<le> b" "b \<le> 24" "0 \<le> a" "a \<le> 3" "0 \<le> r"
    and r: "r \<le> 364 \<or> r = 365 \<and> a = 3 \<and> (b = 24 \<longrightarrow> c = 3)" by (auto simp: era_parts_def)
  have last: "doe = 146096 \<or> doe < 36524 * (c + 1) \<and> doe < 146096" using le r unfolding doe by auto
  have cent: "doe div 36524 - doe div 146096 = c"
  proof (cases "doe = 146096")
    case True
    then have "c = 3" using le r unfolding doe by auto
    with True show ?thesis by simp
  next
    case False
    with last have "doe < 36524 * (c + 1)" "doe < 146096" by auto
    moreover have "36524 * c \<le> doe" "0 \<le> doe" using le unfolding doe by auto
    ultimately have "doe div 36524 = c" "doe div 146096 = 0"
      by (auto intro: int_div_pos_eq [where r = "doe - 36524 * c"])
    then show ?thesis by simp
  qed
  define e where "e = (24 * c + b + 365 * a + r) div 1460"
  have "doe = (24 * c + b + 365 * a + r) + (25 * c + b) * 1460" unfolding doe by simp
  then have leap: "doe div 1460 = 25 * c + b + e" by (simp add: e_def)
  have e: "0 \<le> r - e" "r - e < 365"
    using le r by (auto simp: e_def)
  have "doe - doe div 1460 + doe div 36524 - doe div 146096 = 365 * (100 * c + 4 * b + a) + (r - e)"
    using leap cent unfolding doe by simp
  with e show ?thesis by (intro int_div_pos_eq) simp_all
qed

lemma era_year_parts:
  assumes "era_parts c b a r"
  shows "(100 * c + 4 * b + a) div 4 = 25 * c + b" "(100 * c + 4 * b + a) div 100 = c"
    "0 \<le> 100 * c + 4 * b + a" "100 * c + 4 * b + a < 400"
  using assms by (auto simp: era_parts_def intro: int_div_pos_eq [where r = a] int_div_pos_eq [where r = "4 * b + a"])

end
