(* ===== verification/Retry_Props.thy ===== *)
theory Retry_Props
  imports Retry_After Gregorian
begin

text \<open>
  Properties of \<open>Retry-After\<close>: the calendar counts days one by one, two-digit years stay
  within fifty years of the clock, and signs are accepted where the formats have none.
\<close>

subsection \<open>The calendar\<close>

lemma year_days_step: "year_days y = year_days (y - 1) + 365 + (if is_leap y then 1 else 0)"
  using year_days_rule [of y] by (simp add: is_leap_def)

lemma era_sum:
  "r = x - 400 * q \<Longrightarrow> a = q * 100 + b \<Longrightarrow> c = q * 4 + e \<Longrightarrow>
     q * 146097 + r * 365 + b - e = 365 * x + a - c + (q :: int)"
  by simp

lemma days_year_days:
  "days_from_civil y m d =
     year_days (if m \<le> 2 then y - 1 else y) + (153 * ((m + 9) mod 12) + 2) div 5 + d - 719469"
proof -
  have era: "(x div 400) * 146097 + (x - x div 400 * 400) * 365 + (x - x div 400 * 400) div 4 - (x - x div 400 * 400) div 100
      = year_days x" for x :: int
  proof -
    have k: "x - x div 400 * 400 = x mod 400" by (simp add: minus_div_mult_eq_mod)
    have "x div 4 = x div 400 * 100 + (x mod 400) div 4" "x div 100 = x div 400 * 4 + (x mod 400) div 100"
      by (rule div_nested; simp)+
    with minus_mult_div_eq_mod [of x 400, symmetric] show ?thesis
      unfolding k year_days_def by (intro era_sum)
  qed
  have sum: "e * 146097 + (q * 365 + a - b + (c + d - 1)) - 719468 = (e * 146097 + q * 365 + a - b) + c + d - 719469"
    for a b c d e q :: int by simp
  show ?thesis unfolding days_from_civil_def Let_def sum era ..
qed

text \<open>The day after a day of the calendar.\<close>

definition next_day :: "int \<times> int \<times> int \<Rightarrow> int \<times> int \<times> int" where
  "next_day = (\<lambda>(y, m, d).
     if d < days_in_month y m then (y, m, d + 1) else if m < 12 then (y, m + 1, 1) else (y + 1, 1, 1))"

definition day_number :: "int \<times> int \<times> int \<Rightarrow> int" where
  "day_number = (\<lambda>(y, m, d). days_from_civil y m d)"

text \<open>
  The calendar: the first of January 1970 is day 0, and every day of the calendar, the
  leap days by the Gregorian rule, has the number after the day before it.
\<close>

theorem calendar_days:
  assumes "1 \<le> m" "m \<le> 12" "1 \<le> d" "d \<le> days_in_month y m"
  shows "day_number (1970, 1, 1) = 0 \<and> day_number (next_day (y, m, d)) = day_number (y, m, d) + 1"
proof
  show "day_number (1970, 1, 1) = 0" by (simp add: day_number_def days_from_civil_def)
  show "day_number (next_day (y, m, d)) = day_number (y, m, d) + 1"
  proof (cases "d < days_in_month y m")
    case True
    then show ?thesis by (simp add: next_day_def day_number_def days_year_days)
  next
    case False
    with assms(4) have d: "d = days_in_month y m" by simp
    have "\<not> days_in_month y m < days_in_month y m" by simp
    with months [OF assms(1,2)] show ?thesis
      unfolding d next_day_def day_number_def days_year_days days_in_month_def
      by (elim insertE emptyE) (simp_all add: year_days_step [of y])
  qed
qed

lemma calendar_days_witness:
  "day_number (1970, 1, 1) = 0 \<and> day_number (next_day (2024, 2, 29)) = day_number (2024, 2, 29) + 1"
  by (rule calendar_days) (simp_all add: days_in_month_def is_leap_def)

subsection \<open>Two-digit years\<close>

lemma parse_radix_two:
  assumes "parse_radix is_ascii_digit 10 bound ds = Some v" "length ds \<le> 2"
  shows "0 \<le> v \<and> v \<le> 99"
proof -
  from assms have d: "list_all is_ascii_digit ds" "v = digits_value 10 ds"
    by (auto simp: parse_radix_def Let_def split: if_splits)
  have "is_ascii_digit c \<Longrightarrow> digit_value c \<le> 9" for c by (auto simp: digit_value_def is_ascii_digit_def)
  with d assms(2) show ?thesis
    by (cases ds rule: list.exhaust; cases "tl ds" rule: list.exhaust) (fastforce simp: digits_value_def)+
qed

lemma parse_signed_two:
  assumes "parse_signed s = Some v" "blen s = 2"
  shows "v \<le> 99"
proof -
  from assms(2) have "length s \<le> 2" by (metis length_le_blen)
  with assms(1) show ?thesis
    by (auto simp: parse_signed_def dest!: parse_radix_two split: list.splits if_splits)
qed

lemma month_number_range: "month_number name = Some m \<Longrightarrow> 1 \<le> m \<and> m \<le> 12"
  using position_less [of name "map str MONTHS"] by (auto simp: month_number_def) (simp add: MONTHS_def)

lemma date_format_two_digits:
  assumes "date_format words now = Some (d, m, y, t, True)"
  shows "1 \<le> m \<and> m \<le> 12 \<and> y \<le> this_century now + 99"
  using assms
  by (auto simp: date_format_def date_parts_def dest!: month_number_range parse_signed_two
      split: list.splits if_splits option.splits)

lemma year_days_le: "400 * year_days y \<le> 146097 * y + 400"
proof -
  obtain a b c where abc: "a = y div 4" "b = y div 100" "c = y div 400" by blast
  then have "4 * a \<le> y" "y \<le> 100 * b + 99" "400 * c \<le> y" by simp_all
  then show ?thesis unfolding year_days_def abc [symmetric] by (simp add: algebra_simps)
qed

lemma clock_seconds_le: "clock_seconds t = Some n \<Longrightarrow> n \<le> 86400"
  by (auto simp: clock_seconds_def split: list.splits if_splits option.splits)

text \<open>A day of a year before this one is past, but for what a year is longer than the calendar's.\<close>

lemma earlier_year:
  assumes now: "0 \<le> now" and y: "y \<le> this_century now - 1" and m: "1 \<le> m" "m \<le> 12"
    and at: "timestamp y m d n = Some at" and n: "n \<le> 86400"
  shows "at \<le> now + 31556952"
proof -
  let ?k = "now div 31557600"
  from y have yk: "y \<le> 1969 + ?k" using pos_mod_sign [of 100 "1970 + ?k"] by (simp add: this_century_def Let_def)
  from at have d: "d \<le> 31" "at = days_from_civil y m d * 86400 + n"
    by (auto simp: timestamp_def days_in_month_def split: if_splits)
  define doy where "doy = (153 * ((m + 9) mod 12) + 2) div 5"
  have doy: "doy \<le> 337" "m \<le> 2 \<or> doy \<le> 275" using months [OF m] by (auto simp: doy_def)
  have k: "?k * 31557600 \<le> now" "0 \<le> ?k" using now by simp_all
  have day: "at = (year_days (if m \<le> 2 then y - 1 else y) + doy + d - 719469) * 86400 + n"
    unfolding doy_def d days_year_days ..
  show ?thesis
  proof (cases "m \<le> 2")
    case True
    with day year_days_le [of "y - 1"] doy k yk d(1) n show ?thesis by simp
  next
    case False
    with day year_days_le [of y] doy k yk d(1) n show ?thesis by simp
  qed
qed

text \<open>
  A date with a two-digit year is never read as more than fifty years ahead of the
  clock.
\<close>

theorem two_digit_years:
  assumes "0 \<le> now" "now + FIFTY_YEARS \<le> i64_max"
    and "date_format (split_ascii_whitespace value) now = Some (d, m, y, t, True)"
    and "http_date value now = Some at"
  shows "at \<le> now + FIFTY_YEARS"
proof -
  from date_format_two_digits [OF assms(3)] have m: "1 \<le> m" "m \<le> 12" and y: "y - 100 \<le> this_century now - 1"
    by simp_all
  have sat: "saturating_add now FIFTY_YEARS = now + FIFTY_YEARS"
    using assms(1,2) by (simp add: saturating_add_def FIFTY_YEARS_def)
  from assms(3,4) obtain n at1 where n: "clock_seconds t = Some n" "timestamp y m d n = Some at1"
    and at: "if now + FIFTY_YEARS < at1 then timestamp (y - 100) m d n = Some at else at = at1"
    by (auto simp: http_date_def sat split: option.splits if_splits)
  show ?thesis
  proof (cases "now + FIFTY_YEARS < at1")
    case True
    with at have "timestamp (y - 100) m d n = Some at" by simp
    from earlier_year [OF assms(1) y m this clock_seconds_le [OF n(1)]]
    show ?thesis by (simp add: FIFTY_YEARS_def)
  next
    case False
    with at show ?thesis by simp
  qed
qed

lemma two_digit_years_witness:
  "http_date (str ''Monday, 01-Jan-77 00:00:00 GMT'') 1791417600 = Some 220924800 \<and>
   (220924800 :: int) \<le> 1791417600 + FIFTY_YEARS"
proof
  show *: "http_date (str ''Monday, 01-Jan-77 00:00:00 GMT'') 1791417600 = Some 220924800" by code_simp
  have "date_format (split_ascii_whitespace (str ''Monday, 01-Jan-77 00:00:00 GMT'')) 1791417600 =
      Some (1, 1, 2077, str ''00:00:00'', True)" by code_simp
  then show "(220924800 :: int) \<le> 1791417600 + FIFTY_YEARS"
    by (rule two_digit_years [OF _ _ _ *, rotated 2]) (simp_all add: FIFTY_YEARS_def)
qed

subsection \<open>Signs\<close>

text \<open>
  A time that is none of a day is read as one: the pieces of a time may have a sign, and
  a negative hour, minute or second passes the checks, which have no lower bound.
\<close>

theorem signed_times_accepted:
  "http_date (str ''Sun, 06 Nov 1994 -9:-9:-9 GMT'') 0 = Some (784080000 - 9 * 3600 - 9 * 60 - 9)"
  by code_simp

end
