(* ===== verification/Green_Sched.thy ===== *)
theory Green_Sched
  imports Steps
begin

text \<open>
  The scheduler of green tasks (grenat\_green: src/task.rs, src/scheduler.rs): the tasks, the run
  queue with its lock and condition variable, the workers, and the calls of \<open>wake\<close> in flight. A
  worker has one step for each access to what it shares with the others; what a task does in
  between (to spawn, wake, yield, park, return or panic) is up to the task.
\<close>

subsection \<open>Tasks\<close>

datatype task_state = QUEUED | RUNNING | PARKED | NOTIFIED | DONE

text \<open>A stack: its address and its size. The coroutine of a task holds its stack.\<close>

type_synonym stack = "nat \<times> nat"

record task =
  tk_state :: task_state
  tk_co :: "stack option"

definition task_new :: "stack \<Rightarrow> task" where
  "task_new stk = \<lparr>tk_state = QUEUED, tk_co = Some stk\<rparr>"

record config =
  cf_workers :: nat
  cf_main_stack :: nat
  cf_task_stack :: nat

text \<open>
  Where a worker is: in its loop (before it locks the queue, with the lock and no task, about to wait,
  waiting, returned), with a task it took, inside a task, and after the task gave it back.
\<close>

datatype worker =
    Idle | Empty_Seen | Sleeping | Asleep | Stopped
  | Took nat | Resuming nat | Inside nat
  | Spawn_Stack nat stack | Spawning nat nat | Spawned nat
  | Yielded nat | Parking nat | Requeued nat | Pushing nat | Notifying
  | Returned nat | Unwinding nat | Finishing nat | Counting | Last
  | Crashed

text \<open>Where a call of \<open>wake\<close> is: before the load, after it, before the push, before its notification.\<close>

datatype waker = Waking nat | Saw nat task_state | Wake_Push nat | Wake_Notify | Woke

record sched =
  sd_tasks :: "task list"
  sd_queue :: "nat list"
  sd_locked :: bool
  sd_live :: nat
  sd_stacks :: "stack list"
  sd_panic :: "nat option"
  sd_result :: bool
  sd_workers :: "worker list"
  sd_wakes :: "waker list"

definition wk :: "sched \<Rightarrow> nat \<Rightarrow> worker \<Rightarrow> bool" where
  "wk s i w \<longleftrightarrow> i < length (sd_workers s) \<and> sd_workers s ! i = w"

definition wkr :: "sched \<Rightarrow> nat \<Rightarrow> waker \<Rightarrow> bool" where
  "wkr s k w \<longleftrightarrow> k < length (sd_wakes s) \<and> sd_wakes s ! k = w"

definition set_worker :: "nat \<Rightarrow> worker \<Rightarrow> sched \<Rightarrow> sched" where
  "set_worker i w s = s\<lparr>sd_workers := (sd_workers s)[i := w]\<rparr>"

definition set_waker :: "nat \<Rightarrow> waker \<Rightarrow> sched \<Rightarrow> sched" where
  "set_waker k w s = s\<lparr>sd_wakes := (sd_wakes s)[k := w]\<rparr>"

definition st :: "sched \<Rightarrow> nat \<Rightarrow> task_state" where
  "st s t = tk_state (sd_tasks s ! t)"

definition set_state :: "nat \<Rightarrow> task_state \<Rightarrow> sched \<Rightarrow> sched" where
  "set_state t x s = s\<lparr>sd_tasks := (sd_tasks s)[t := (sd_tasks s ! t)\<lparr>tk_state := x\<rparr>]\<rparr>"

definition take_co :: "nat \<Rightarrow> sched \<Rightarrow> sched" where
  "take_co t s = s\<lparr>sd_tasks := (sd_tasks s)[t := (sd_tasks s ! t)\<lparr>tk_co := None\<rparr>]\<rparr>"

text \<open>\<open>push\<close>: under the lock of the queue; its notification is a step of its own.\<close>

definition push_task :: "nat \<Rightarrow> sched \<Rightarrow> sched" where
  "push_task t s = s\<lparr>sd_queue := sd_queue s @ [t]\<rparr>"

text \<open>\<open>notify_one\<close>: one of the waiting workers, if there is one.\<close>

definition notify_one :: "sched \<Rightarrow> sched \<Rightarrow> bool" where
  "notify_one s s' \<longleftrightarrow>
     (Asleep \<notin> set (sd_workers s) \<and> s' = s) \<or> (\<exists>i < length (sd_workers s). sd_workers s ! i = Asleep \<and> s' = set_worker i Idle s)"

definition woken_up :: "worker \<Rightarrow> worker" where
  "woken_up w = (if w = Asleep then Idle else w)"

text \<open>\<open>stack\<close>: a stack of the pool, the last one given back, or a new one at a free address.\<close>

definition stacks_used :: "sched \<Rightarrow> stack list" where
  "stacks_used s = sd_stacks s
     @ concat (map (\<lambda>k. case tk_co k of None \<Rightarrow> [] | Some stk \<Rightarrow> [stk]) (sd_tasks s))
     @ concat (map (\<lambda>w. case w of Spawn_Stack t stk \<Rightarrow> [stk] | _ \<Rightarrow> []) (sd_workers s))"

definition get_stack :: "config \<Rightarrow> nat \<Rightarrow> sched \<Rightarrow> stack \<Rightarrow> sched \<Rightarrow> bool" where
  "get_stack c bytes s stk s' \<longleftrightarrow>
     (if bytes = cf_task_stack c \<and> sd_stacks s \<noteq> [] then
        stk = last (sd_stacks s) \<and> s' = s\<lparr>sd_stacks := butlast (sd_stacks s)\<rparr>
      else fst stk \<notin> fst ` set (stacks_used s) \<and> snd stk = bytes \<and> s' = s)"

text \<open>A new task, counted among the live ones, not yet queued.\<close>

definition add_task :: "stack \<Rightarrow> sched \<Rightarrow> sched" where
  "add_task stk s = s\<lparr>sd_tasks := sd_tasks s @ [task_new stk], sd_live := sd_live s + 1\<rparr>"

subsection \<open>The steps\<close>

text \<open>The loop of \<open>work\<close>, up to the task it takes.\<close>

inductive look_step :: "sched \<Rightarrow> sched \<Rightarrow> bool" where
  pop: "wk s i Idle \<Longrightarrow> \<not> sd_locked s \<Longrightarrow> sd_queue s = t # q \<Longrightarrow>
    look_step s (set_worker i (Took t) (s\<lparr>sd_queue := q\<rparr>))"
| empty: "wk s i Idle \<Longrightarrow> \<not> sd_locked s \<Longrightarrow> sd_queue s = [] \<Longrightarrow>
    look_step s (set_worker i Empty_Seen (s\<lparr>sd_locked := True\<rparr>))"
| stop: "wk s i Empty_Seen \<Longrightarrow> sd_live s = 0 \<Longrightarrow> look_step s (set_worker i Stopped (s\<lparr>sd_locked := False\<rparr>))"
| wait: "wk s i Empty_Seen \<Longrightarrow> sd_live s \<noteq> 0 \<Longrightarrow> look_step s (set_worker i Sleeping s)"
| sleep: "wk s i Sleeping \<Longrightarrow> look_step s (set_worker i Asleep (s\<lparr>sd_locked := False\<rparr>))"
| spurious: "wk s i Asleep \<Longrightarrow> look_step s (set_worker i Idle s)"

text \<open>Inside a task: \<open>resume\<close>, then what the task does. The first task stores its result as it ends.\<close>

inductive task_step :: "config \<Rightarrow> sched \<Rightarrow> sched \<Rightarrow> bool" for c where
  store_running: "wk s i (Took t) \<Longrightarrow> task_step c s (set_worker i (Resuming t) (set_state t RUNNING s))"
| resume: "wk s i (Resuming t) \<Longrightarrow> tk_co (sd_tasks s ! t) \<noteq> None \<Longrightarrow> task_step c s (set_worker i (Inside t) s)"
| no_coroutine: "wk s i (Resuming t) \<Longrightarrow> tk_co (sd_tasks s ! t) = None \<Longrightarrow> task_step c s (set_worker i Crashed s)"
| spawn_stack: "wk s i (Inside t) \<Longrightarrow> get_stack c (cf_task_stack c) s stk s' \<Longrightarrow>
    task_step c s (set_worker i (Spawn_Stack t stk) s')"
| spawn_task: "wk s i (Spawn_Stack t stk) \<Longrightarrow>
    task_step c s (set_worker i (Spawning t (length (sd_tasks s))) (add_task stk s))"
| spawn_push: "wk s i (Spawning t u) \<Longrightarrow> \<not> sd_locked s \<Longrightarrow> task_step c s (set_worker i (Spawned t) (push_task u s))"
| spawn_notify: "wk s i (Spawned t) \<Longrightarrow> notify_one s s' \<Longrightarrow> task_step c s (set_worker i (Inside t) s')"
| yield: "wk s i (Inside t) \<Longrightarrow> task_step c s (set_worker i (Yielded t) s)"
| park: "wk s i (Inside t) \<Longrightarrow> task_step c s (set_worker i (Parking t) s)"
| return: "wk s i (Inside t) \<Longrightarrow>
    task_step c s (set_worker i (Returned t) (s\<lparr>sd_result := (sd_result s \<or> t = 0)\<rparr>))"
| panic: "wk s i (Inside t) \<Longrightarrow> task_step c s (set_worker i (Unwinding t) s)"

text \<open>What \<open>work\<close> does with the outcome, and \<open>finish\<close>.\<close>

inductive outcome_step :: "sched \<Rightarrow> sched \<Rightarrow> bool" where
  yielded: "wk s i (Yielded t) \<Longrightarrow> outcome_step s (set_worker i (Pushing t) (set_state t QUEUED s))"
| parked: "wk s i (Parking t) \<Longrightarrow> st s t = RUNNING \<Longrightarrow> outcome_step s (set_worker i Idle (set_state t PARKED s))"
| woken_meanwhile: "wk s i (Parking t) \<Longrightarrow> st s t \<noteq> RUNNING \<Longrightarrow> outcome_step s (set_worker i (Requeued t) s)"
| requeue: "wk s i (Requeued t) \<Longrightarrow> st s t = NOTIFIED \<Longrightarrow>
    outcome_step s (set_worker i (Pushing t) (set_state t QUEUED s))"
| assert_fails: "wk s i (Requeued t) \<Longrightarrow> st s t \<noteq> NOTIFIED \<Longrightarrow> outcome_step s (set_worker i Crashed s)"
| push: "wk s i (Pushing t) \<Longrightarrow> \<not> sd_locked s \<Longrightarrow> outcome_step s (set_worker i Notifying (push_task t s))"
| notify: "wk s i Notifying \<Longrightarrow> notify_one s s' \<Longrightarrow> outcome_step s (set_worker i Idle s')"
| keep_stack: "wk s i (Returned t) \<Longrightarrow> tk_co (sd_tasks s ! t) = Some stk \<Longrightarrow>
    outcome_step s (set_worker i (Finishing t) (take_co t (s\<lparr>sd_stacks := sd_stacks s @ [stk]\<rparr>)))"
| nothing_to_take: "wk s i (Returned t) \<Longrightarrow> tk_co (sd_tasks s ! t) = None \<Longrightarrow> outcome_step s (set_worker i Crashed s)"
| drop_co: "wk s i (Unwinding t) \<Longrightarrow>
    outcome_step s (set_worker i (Finishing t) (take_co t
      (s\<lparr>sd_panic := (if sd_panic s = None then Some t else sd_panic s)\<rparr>)))"
| store_done: "wk s i (Finishing t) \<Longrightarrow> outcome_step s (set_worker i Counting (set_state t DONE s))"
| count_down: "wk s i Counting \<Longrightarrow> sd_live s \<noteq> 1 \<Longrightarrow> outcome_step s (set_worker i Idle (s\<lparr>sd_live := sd_live s - 1\<rparr>))"
| count_last: "wk s i Counting \<Longrightarrow> sd_live s = 1 \<Longrightarrow> outcome_step s (set_worker i Last (s\<lparr>sd_live := 0\<rparr>))"
| notify_all: "wk s i Last \<Longrightarrow> \<not> sd_locked s \<Longrightarrow>
    outcome_step s (set_worker i Idle (s\<lparr>sd_workers := map woken_up (sd_workers s)\<rparr>))"

text \<open>\<open>Task::wake\<close>: a call may come from anywhere (a task, the timer, a blocking call).\<close>

inductive wake_step :: "sched \<Rightarrow> sched \<Rightarrow> bool" where
  call: "t < length (sd_tasks s) \<Longrightarrow> wake_step s (s\<lparr>sd_wakes := sd_wakes s @ [Waking t]\<rparr>)"
| load: "wkr s k (Waking t) \<Longrightarrow> st s t \<in> {PARKED, RUNNING} \<Longrightarrow> wake_step s (set_waker k (Saw t (st s t)) s)"
| no_need: "wkr s k (Waking t) \<Longrightarrow> st s t \<notin> {PARKED, RUNNING} \<Longrightarrow> wake_step s (set_waker k Woke s)"
| unpark: "wkr s k (Saw t PARKED) \<Longrightarrow> st s t = PARKED \<Longrightarrow>
    wake_step s (set_waker k (Wake_Push t) (set_state t QUEUED s))"
| mark: "wkr s k (Saw t RUNNING) \<Longrightarrow> st s t = RUNNING \<Longrightarrow> wake_step s (set_waker k Woke (set_state t NOTIFIED s))"
| again: "wkr s k (Saw t x) \<Longrightarrow> st s t \<noteq> x \<Longrightarrow> wake_step s (set_waker k (Waking t) s)"
| wake_push: "wkr s k (Wake_Push t) \<Longrightarrow> \<not> sd_locked s \<Longrightarrow> wake_step s (set_waker k Wake_Notify (push_task t s))"
| wake_notify: "wkr s k Wake_Notify \<Longrightarrow> notify_one s s' \<Longrightarrow> wake_step s (set_waker k Woke s')"

definition sd_step :: "config \<Rightarrow> sched \<Rightarrow> sched \<Rightarrow> bool" where
  "sd_step c s s' \<longleftrightarrow> look_step s s' \<or> task_step c s s' \<or> outcome_step s s' \<or> wake_step s s'"

text \<open>\<open>run\<close>, once the first task is queued and the workers are started.\<close>

definition sd_init :: "config \<Rightarrow> sched \<Rightarrow> bool" where
  "sd_init c s \<longleftrightarrow> (\<exists>a. s =
     \<lparr>sd_tasks = [task_new (a, cf_main_stack c)], sd_queue = [0], sd_locked = False, sd_live = 1, sd_stacks = [],
      sd_panic = None, sd_result = False, sd_workers = replicate (max 1 (cf_workers c)) Idle, sd_wakes = []\<rparr>)"

text \<open>What \<open>run\<close> returns once the workers have stopped: a panic, the result, or its own panic.\<close>

datatype run_end = Resumed_Panic nat | First_Result | No_Result

definition run_returns :: "sched \<Rightarrow> run_end" where
  "run_returns s = (case sd_panic s of Some t \<Rightarrow> Resumed_Panic t
     | None \<Rightarrow> if sd_result s then First_Result else No_Result)"

end
