(* ===== verification/Green_Owners.thy ===== *)
theory Green_Owners
  imports Green_Sched "HOL-Library.Multiset"
begin

text \<open>
  The owners of the tasks: every runnable task has exactly one claim on it (of the queue, a worker
  or a waker), and every step keeps it so.
\<close>

subsection \<open>Owners\<close>

text \<open>
  The claims on tasks, and what each asks of its task: in the queue or on the way there, given
  to a worker, known to be notified, its coroutine taken.
\<close>

datatype claim = Runnable | Resumed | Rewoken | Emptied

fun claim_ok :: "claim \<Rightarrow> task \<Rightarrow> bool" where
  "claim_ok Runnable k \<longleftrightarrow> tk_state k = QUEUED \<and> tk_co k \<noteq> None"
| "claim_ok Resumed k \<longleftrightarrow> tk_state k \<in> {RUNNING, NOTIFIED} \<and> tk_co k \<noteq> None"
| "claim_ok Rewoken k \<longleftrightarrow> tk_state k = NOTIFIED \<and> tk_co k \<noteq> None"
| "claim_ok Emptied k \<longleftrightarrow> tk_state k \<in> {RUNNING, NOTIFIED} \<and> tk_co k = None"

definition unclaimed_ok :: "task \<Rightarrow> bool" where
  "unclaimed_ok k \<longleftrightarrow> tk_state k = PARKED \<and> tk_co k \<noteq> None \<or> tk_state k = DONE \<and> tk_co k = None"

fun worker_claims :: "worker \<Rightarrow> (nat \<times> claim) multiset" where
  "worker_claims (Took t) = {#(t, Runnable)#}"
| "worker_claims (Resuming t) = {#(t, Resumed)#}"
| "worker_claims (Inside t) = {#(t, Resumed)#}"
| "worker_claims (Spawn_Stack t _) = {#(t, Resumed)#}"
| "worker_claims (Spawning t u) = {#(t, Resumed), (u, Runnable)#}"
| "worker_claims (Spawned t) = {#(t, Resumed)#}"
| "worker_claims (Yielded t) = {#(t, Resumed)#}"
| "worker_claims (Parking t) = {#(t, Resumed)#}"
| "worker_claims (Requeued t) = {#(t, Rewoken)#}"
| "worker_claims (Pushing t) = {#(t, Runnable)#}"
| "worker_claims (Returned t) = {#(t, Resumed)#}"
| "worker_claims (Unwinding t) = {#(t, Resumed)#}"
| "worker_claims (Finishing t) = {#(t, Emptied)#}"
| "worker_claims _ = {#}"

fun waker_claims :: "waker \<Rightarrow> (nat \<times> claim) multiset" where
  "waker_claims (Wake_Push t) = {#(t, Runnable)#}"
| "waker_claims _ = {#}"

definition claims :: "sched \<Rightarrow> (nat \<times> claim) multiset" where
  "claims s = mset (map (\<lambda>t. (t, Runnable)) (sd_queue s)) + sum_list (map worker_claims (sd_workers s))
     + sum_list (map waker_claims (sd_wakes s))"

text \<open>A task has one claim, which is kept, or none, and then it is parked or done.\<close>

definition mine :: "nat \<Rightarrow> (nat \<times> claim) multiset \<Rightarrow> claim multiset" where
  "mine t C = image_mset snd (filter_mset (\<lambda>c. fst c = t) C)"

definition one_claim :: "claim multiset \<Rightarrow> task \<Rightarrow> bool" where
  "one_claim M k \<longleftrightarrow> M = {#} \<and> unclaimed_ok k \<or> (\<exists>p. M = {#p#} \<and> claim_ok p k)"

definition owned :: "task list \<Rightarrow> (nat \<times> claim) multiset \<Rightarrow> bool" where
  "owned ts C \<longleftrightarrow> (\<forall>t. if t < length ts then one_claim (mine t C) (ts ! t) else mine t C = {#})"

lemma mine_simps [simp]:
  "mine t {#} = {#}"
  "mine t (add_mset (u, p) C) = (if u = t then add_mset p (mine t C) else mine t C)"
  by (simp_all add: mine_def)

lemma one_claim_simps [simp]:
  "one_claim {#} k \<longleftrightarrow> unclaimed_ok k"
  "one_claim (add_mset p M) k \<longleftrightarrow> M = {#} \<and> claim_ok p k"
  by (auto simp: one_claim_def)

lemma owned_claim:
  assumes "owned ts (add_mset (t, p) C)"
  shows "t < length ts \<and> claim_ok p (ts ! t) \<and> mine t C = {#}"
  using assms unfolding owned_def by (auto dest!: spec [of _ t] split: if_splits)

lemma owned_others:
  assumes "owned ts (add_mset (t, p) C)" "u \<noteq> t"
  shows "u < length ts \<Longrightarrow> one_claim (mine u C) (ts ! u)" "\<not> u < length ts \<Longrightarrow> mine u C = {#}"
  using assms by (auto simp: owned_def dest!: spec [of _ u] split: if_splits)

text \<open>Handing a claim on, with the change of the task.\<close>

lemma owned_pass:
  assumes "owned ts (add_mset (t, p) C)" "claim_ok q k"
  shows "owned (ts[t := k]) (add_mset (t, q) C)"
  using assms(2) owned_claim [OF assms(1)] owned_others [OF assms(1)]
  unfolding owned_def by (auto simp: nth_list_update)

lemma owned_drop:
  assumes "owned ts (add_mset (t, p) C)" "unclaimed_ok k"
  shows "owned (ts[t := k]) C"
  using assms(2) owned_claim [OF assms(1)] owned_others [OF assms(1)]
  unfolding owned_def by (auto simp: nth_list_update)

lemma parked_free: "owned ts C \<Longrightarrow> t < length ts \<Longrightarrow> tk_state (ts ! t) = PARKED \<Longrightarrow> mine t C = {#}"
  by (force simp: owned_def one_claim_def elim: claim_ok.elims dest!: spec [of _ t])

lemma owned_take:
  assumes "owned ts C" "t < length ts" "tk_state (ts ! t) = PARKED" "claim_ok q k"
  shows "owned (ts[t := k]) (add_mset (t, q) C)"
  using assms parked_free [OF assms(1-3)] by (auto simp: owned_def nth_list_update)

lemma owned_new:
  assumes "owned ts C" "claim_ok q k"
  shows "owned (ts @ [k]) (add_mset (length ts, q) C)"
  using assms by (auto simp: owned_def nth_append less_Suc_eq)

lemma owned_mark:
  assumes "owned ts C" "t < length ts" "tk_state (ts ! t) = RUNNING"
  shows "owned (ts[t := (ts ! t)\<lparr>tk_state := NOTIFIED\<rparr>]) C"
proof -
  from assms have "one_claim (mine t C) (ts ! t)" by (auto simp: owned_def)
  with assms(3) have "one_claim (mine t C) ((ts ! t)\<lparr>tk_state := NOTIFIED\<rparr>)"
    by (auto simp: one_claim_def unclaimed_ok_def elim!: claim_ok.elims)
  with assms show ?thesis by (auto simp: owned_def nth_list_update)
qed

text \<open>The claims of a list of workers with one of them replaced.\<close>

lemma sum_list_split:
  "i < length xs \<Longrightarrow> \<exists>R. \<forall>y. sum_list (map f (xs[i := y])) = f y + (R :: 'b :: comm_monoid_add)"
proof (induction xs arbitrary: i)
  case (Cons x xs)
  show ?case
  proof (cases i)
    case 0
    then show ?thesis by auto
  next
    case (Suc j)
    with Cons obtain R where "sum_list (map f (xs[j := y])) = f y + R" for y by force
    with Suc show ?thesis by (intro exI [of _ "f x + R"]) (simp add: ac_simps)
  qed
qed simp

lemma worker_split:
  assumes "wk s i w"
  obtains R where "claims s = worker_claims w + R"
    and "\<And>v. claims (set_worker i v s) = worker_claims v + R"
proof -
  from assms have i: "i < length (sd_workers s)" "sd_workers s ! i = w" by (auto simp: wk_def)
  from sum_list_split [OF i(1), of worker_claims] obtain R where
    R: "sum_list (map worker_claims ((sd_workers s)[i := y])) = worker_claims y + R" for y by blast
  from R [of w] i(2) have "sum_list (map worker_claims (sd_workers s)) = worker_claims w + R"
    using list_update_id [of "sd_workers s" i] by simp
  with R show ?thesis by (intro that) (simp_all add: claims_def set_worker_def ac_simps)
qed

lemma waker_split:
  assumes "wkr s i w"
  obtains R where "claims s = waker_claims w + R"
    and "\<And>v. claims (set_waker i v s) = waker_claims v + R"
proof -
  from assms have i: "i < length (sd_wakes s)" "sd_wakes s ! i = w" by (auto simp: wkr_def)
  from sum_list_split [OF i(1), of waker_claims] obtain R where
    R: "sum_list (map waker_claims ((sd_wakes s)[i := y])) = waker_claims y + R" for y by blast
  from R [of w] i(2) have "sum_list (map waker_claims (sd_wakes s)) = waker_claims w + R"
    using list_update_id [of "sd_wakes s" i] by simp
  with R show ?thesis by (intro that) (simp_all add: claims_def set_waker_def ac_simps)
qed


subsection \<open>The owners through the steps\<close>

lemma set_worker_sel [simp]:
  "sd_tasks (set_worker i v s) = sd_tasks s" "sd_queue (set_worker i v s) = sd_queue s"
  "sd_locked (set_worker i v s) = sd_locked s" "sd_live (set_worker i v s) = sd_live s"
  "sd_stacks (set_worker i v s) = sd_stacks s" "sd_panic (set_worker i v s) = sd_panic s"
  "sd_result (set_worker i v s) = sd_result s" "sd_wakes (set_worker i v s) = sd_wakes s"
  "sd_workers (set_worker i v s) = (sd_workers s)[i := v]"
  by (simp_all add: set_worker_def)

lemma set_waker_sel [simp]:
  "sd_tasks (set_waker i u s) = sd_tasks s" "sd_queue (set_waker i u s) = sd_queue s"
  "sd_locked (set_waker i u s) = sd_locked s" "sd_live (set_waker i u s) = sd_live s"
  "sd_stacks (set_waker i u s) = sd_stacks s" "sd_panic (set_waker i u s) = sd_panic s"
  "sd_result (set_waker i u s) = sd_result s" "sd_workers (set_waker i u s) = sd_workers s"
  "sd_wakes (set_waker i u s) = (sd_wakes s)[i := u]"
  by (simp_all add: set_waker_def)

lemma notify_one_sel:
  assumes "notify_one s s'"
  shows "sd_tasks s' = sd_tasks s \<and> sd_queue s' = sd_queue s \<and> sd_wakes s' = sd_wakes s \<and> sd_live s' = sd_live s \<and>
    sd_stacks s' = sd_stacks s \<and> sd_locked s' = sd_locked s \<and> sd_panic s' = sd_panic s \<and> sd_result s' = sd_result s"
  using assms by (auto simp: notify_one_def)

lemma notify_one_claims: "notify_one s s' \<Longrightarrow> claims s' = claims s"
proof -
  assume "notify_one s s'"
  then consider "s' = s" | i where "wk s i Asleep" "s' = set_worker i Idle s" by (auto simp: notify_one_def wk_def)
  then show ?thesis
  proof cases
    case 2
    from worker_split [OF 2(1)] obtain R where "claims s = worker_claims Asleep + R"
      "claims (set_worker i Idle s) = worker_claims Idle + R" by metis
    with 2(2) show ?thesis by simp
  qed simp
qed

lemma notify_one_wk:
  assumes "notify_one s s'" "wk s i w" "w \<noteq> Asleep"
  shows "wk s' i w"
  using assms by (auto simp: notify_one_def wk_def nth_list_update)

lemma owned_worker:
  assumes "wk s i w" "owned (sd_tasks s) (claims s)" "wk s' i w" "claims s' = claims s"
    and "\<And>R. owned (sd_tasks s) (worker_claims w + R) \<Longrightarrow> owned (sd_tasks s') (worker_claims v + R)"
  shows "owned (sd_tasks s') (claims (set_worker i v s'))"
proof -
  from worker_split [OF assms(3)] obtain R where R: "claims s' = worker_claims w + R"
    "claims (set_worker i v s') = worker_claims v + R" by metis
  with assms(2,4,5) show ?thesis by simp
qed

text \<open>The same in the form of the cases of a step.\<close>

lemma owned_go:
  assumes "s' = set_worker i v s0" "wk s i w" "owned (sd_tasks s) (claims s)" "wk s0 i w" "claims s0 = claims s"
    and "\<And>R. owned (sd_tasks s) (worker_claims w + R) \<Longrightarrow> owned (sd_tasks s0) (worker_claims v + R)"
  shows "owned (sd_tasks s') (claims s')"
  using owned_worker [OF assms(2-5), of v] assms(1,6) by simp

lemma owned_waker:
  assumes "wkr s i w" "owned (sd_tasks s) (claims s)" "wkr s' i w" "claims s' = claims s"
    and "\<And>R. owned (sd_tasks s) (waker_claims w + R) \<Longrightarrow> owned (sd_tasks s') (waker_claims v + R)"
  shows "owned (sd_tasks s') (claims (set_waker i v s'))"
proof -
  from waker_split [OF assms(3)] obtain R where R: "claims s' = waker_claims w + R"
    "claims (set_waker i v s') = waker_claims v + R" by metis
  with assms(2,4,5) show ?thesis by simp
qed

lemma claims_push [simp]: "claims (push_task t s) = add_mset (t, Runnable) (claims s)"
  by (simp add: claims_def push_task_def ac_simps)

lemma claims_frame [simp]:
  "claims (s\<lparr>sd_locked := b\<rparr>) = claims s" "claims (s\<lparr>sd_live := n\<rparr>) = claims s"
  "claims (s\<lparr>sd_stacks := ss\<rparr>) = claims s" "claims (s\<lparr>sd_panic := p\<rparr>) = claims s"
  "claims (s\<lparr>sd_result := r\<rparr>) = claims s" "claims (set_state t x s) = claims s" "claims (take_co t s) = claims s"
  "claims (add_task stk s) = claims s"
  by (simp_all add: claims_def set_state_def take_co_def add_task_def)

lemma wk_frame [simp]:
  "wk (s\<lparr>sd_locked := b\<rparr>) i w = wk s i w" "wk (s\<lparr>sd_live := n\<rparr>) i w = wk s i w"
  "wk (s\<lparr>sd_stacks := ss\<rparr>) i w = wk s i w" "wk (s\<lparr>sd_panic := p\<rparr>) i w = wk s i w"
  "wk (s\<lparr>sd_result := r\<rparr>) i w = wk s i w" "wk (set_state t x s) i w = wk s i w" "wk (take_co t s) i w = wk s i w"
  "wk (push_task t s) i w = wk s i w" "wk (s\<lparr>sd_queue := q\<rparr>) i w = wk s i w" "wk (add_task stk s) i w = wk s i w"
  by (simp_all add: wk_def set_state_def take_co_def push_task_def add_task_def)

lemma wkr_frame [simp]:
  "wkr (set_state t x s) i w = wkr s i w" "wkr (push_task t s) i w = wkr s i w"
  by (simp_all add: wkr_def set_state_def push_task_def)

lemma frame_sel [simp]:
  "sd_tasks (set_state t x s) = (sd_tasks s)[t := (sd_tasks s ! t)\<lparr>tk_state := x\<rparr>]"
  "sd_tasks (take_co t s) = (sd_tasks s)[t := (sd_tasks s ! t)\<lparr>tk_co := None\<rparr>]"
  "sd_tasks (push_task t s) = sd_tasks s" "sd_tasks (add_task stk s) = sd_tasks s @ [task_new stk]"
  by (simp_all add: set_state_def take_co_def push_task_def add_task_def)

lemma owned_look:
  assumes "owned (sd_tasks s) (claims s)" "look_step s s'"
  shows "owned (sd_tasks s') (claims s')"
  using assms(2)
proof cases
  case (pop i t q)
  then have "wk (s\<lparr>sd_queue := q\<rparr>) i Idle" by simp
  from worker_split [OF this] obtain R where "claims (s\<lparr>sd_queue := q\<rparr>) = worker_claims Idle + R"
    "claims s' = worker_claims (Took t) + R" unfolding pop(1) by metis
  moreover from pop have "claims s = add_mset (t, Runnable) (claims (s\<lparr>sd_queue := q\<rparr>))" by (simp add: claims_def)
  ultimately show ?thesis using assms(1) pop(1) by simp
next
  case (empty i)
  then show ?thesis by (intro owned_go [OF empty(1,2) assms(1)]) simp_all
next
  case (stop i)
  then show ?thesis by (intro owned_go [OF stop(1,2) assms(1)]) simp_all
next
  case (wait i)
  then show ?thesis by (intro owned_go [OF wait(1,2) assms(1)]) simp_all
next
  case (sleep i)
  then show ?thesis by (intro owned_go [OF sleep(1,2) assms(1)]) simp_all
next
  case (spurious i)
  then show ?thesis by (intro owned_go [OF spurious(1,2) assms(1)]) simp_all
qed

text \<open>A claim handed on by its worker, with the change of the state.\<close>

lemma owned_pass_state:
  "owned ts (add_mset (t, p) C) \<Longrightarrow> (\<And>k. claim_ok p k \<Longrightarrow> claim_ok q (k\<lparr>tk_state := x\<rparr>)) \<Longrightarrow>
     owned (ts[t := (ts ! t)\<lparr>tk_state := x\<rparr>]) (add_mset (t, q) C)"
  using owned_claim by (blast intro: owned_pass)

lemma owned_pass_same:
  "owned ts (add_mset (t, p) C) \<Longrightarrow> (\<And>k. claim_ok p k \<Longrightarrow> k = ts ! t \<Longrightarrow> claim_ok q k) \<Longrightarrow> owned ts (add_mset (t, q) C)"
  using owned_pass [of ts t p C q "ts ! t"] owned_claim [of ts t p C] by simp

lemma get_stack_sel:
  "get_stack c n s stk s' \<Longrightarrow> sd_tasks s' = sd_tasks s \<and> claims s' = claims s \<and> sd_workers s' = sd_workers s \<and>
     sd_queue s' = sd_queue s \<and> sd_locked s' = sd_locked s \<and> sd_live s' = sd_live s \<and> sd_wakes s' = sd_wakes s \<and>
     sd_panic s' = sd_panic s \<and> sd_result s' = sd_result s"
  by (auto simp: get_stack_def claims_def split: if_splits)

lemma owned_task:
  assumes "owned (sd_tasks s) (claims s)" "task_step c s s'"
  shows "owned (sd_tasks s') (claims s')"
  using assms(2)
proof cases
  case (store_running i t)
  then show ?thesis
    by (intro owned_go [OF store_running assms(1)]) (auto elim!: owned_pass_state)
next
  case (resume i t)
  then show ?thesis by (intro owned_go [OF resume(1,2) assms(1)]) simp_all
next
  case (no_coroutine i t)
  from worker_split [OF no_coroutine(2)] obtain R where "claims s = add_mset (t, Resumed) R" by auto
  with assms(1) owned_claim [of "sd_tasks s" t Resumed R] no_coroutine(3) show ?thesis by simp
next
  case (spawn_stack i t stk s0)
  note sel = get_stack_sel [OF spawn_stack(3)]
  with spawn_stack show ?thesis by (intro owned_go [OF spawn_stack(1,2) assms(1)]) (simp_all add: wk_def)
next
  case (spawn_task i t stk)
  have "owned (ts @ [task_new stk]) (add_mset (t, Resumed) (add_mset (length ts, Runnable) R))"
    if "owned ts (add_mset (t, Resumed) R)" for ts R
    using owned_new [OF that, of Runnable "task_new stk"] by (simp add: task_new_def add_mset_commute)
  then show ?thesis by (intro owned_go [OF spawn_task assms(1)]) (simp_all add: spawn_task(2))
next
  case (spawn_push i t u)
  from worker_split [OF spawn_push(2)] obtain R where R: "claims s = {#(t, Resumed), (u, Runnable)#} + R"
    by (metis worker_claims.simps(5))
  from worker_split [of "push_task u s" i "Spawning t u"] spawn_push(2) obtain R' where
    R': "claims (push_task u s) = {#(t, Resumed), (u, Runnable)#} + R'"
    "claims s' = {#(t, Resumed)#} + R'" unfolding spawn_push(1) by (metis worker_claims.simps(5,6) wk_frame(8))
  from R R'(1) have "R' = add_mset (u, Runnable) R" by simp
  with R R' assms(1) spawn_push(1) show ?thesis by (simp add: add_mset_commute)
next
  case (spawn_notify i t s0)
  note sel = notify_one_sel [OF spawn_notify(3)] notify_one_claims [OF spawn_notify(3)]
    notify_one_wk [OF spawn_notify(3,2)]
  then show ?thesis by (intro owned_go [OF spawn_notify(1,2) assms(1)]) simp_all
next
  case (yield i t)
  then show ?thesis by (intro owned_go [OF yield assms(1)]) simp_all
next
  case (park i t)
  then show ?thesis by (intro owned_go [OF park assms(1)]) simp_all
next
  case (return i t)
  then show ?thesis by (intro owned_go [OF return assms(1)]) simp_all
next
  case (panic i t)
  then show ?thesis by (intro owned_go [OF panic assms(1)]) simp_all
qed

lemma owned_outcome:
  assumes "owned (sd_tasks s) (claims s)" "outcome_step s s'"
  shows "owned (sd_tasks s') (claims s')"
  using assms(2)
proof cases
  case (yielded i t)
  then show ?thesis
    by (intro owned_go [OF yielded assms(1)]) (auto elim!: owned_pass_state)
next
  case (parked i t)
  have "owned (ts[t := (ts ! t)\<lparr>tk_state := PARKED\<rparr>]) R" if "owned ts (add_mset (t, Resumed) R)" for ts R
    using owned_drop [OF that] owned_claim [OF that] by (simp add: unclaimed_ok_def)
  with parked show ?thesis by (intro owned_go [OF parked(1,2) assms(1)]) simp_all
next
  case (woken_meanwhile i t)
  then show ?thesis
    by (intro owned_go [OF woken_meanwhile(1,2) assms(1)]) (auto elim!: owned_pass_same simp: st_def)
next
  case (requeue i t)
  then show ?thesis
    by (intro owned_go [OF requeue(1,2) assms(1)]) (auto elim!: owned_pass_state)
next
  case (assert_fails i t)
  from worker_split [OF assert_fails(2)] obtain R where "claims s = worker_claims (Requeued t) + R" by metis
  with assms(1) owned_claim [of "sd_tasks s" t Rewoken R] assert_fails(3) show ?thesis by (simp add: st_def)
next
  case (push i t)
  have w: "wk (push_task t s) i (Pushing t)" using push by simp
  from worker_split [OF push(2)] obtain R where R: "claims s = worker_claims (Pushing t) + R" by metis
  from worker_split [OF w] obtain R' where
    R': "claims (push_task t s) = worker_claims (Pushing t) + R'" "claims s' = worker_claims Notifying + R'"
    unfolding push(1) by metis
  from R R'(1) have "R' = add_mset (t, Runnable) R" by simp
  with R R' assms(1) push(1) show ?thesis by simp
next
  case (notify i s0)
  note sel = notify_one_sel [OF notify(3)] notify_one_claims [OF notify(3)]
    notify_one_wk [OF notify(3,2)]
  then show ?thesis by (intro owned_go [OF notify(1,2) assms(1)]) simp_all
next
  case (keep_stack i t stk)
  have "owned (ts[t := (ts ! t)\<lparr>tk_co := None\<rparr>]) (add_mset (t, Emptied) R)"
    if "owned ts (add_mset (t, Resumed) R)" for ts R
    using owned_pass [OF that] owned_claim [OF that] by simp
  with keep_stack show ?thesis by (intro owned_go [OF keep_stack(1,2) assms(1)]) simp_all
next
  case (nothing_to_take i t)
  from worker_split [OF nothing_to_take(2)] obtain R where "claims s = worker_claims (Returned t) + R" by metis
  with assms(1) owned_claim [of "sd_tasks s" t Resumed R] nothing_to_take(3) show ?thesis by simp
next
  case (drop_co i t)
  have "owned (ts[t := (ts ! t)\<lparr>tk_co := None\<rparr>]) (add_mset (t, Emptied) R)"
    if "owned ts (add_mset (t, Resumed) R)" for ts R
    using owned_pass [OF that] owned_claim [OF that] by simp
  with drop_co show ?thesis by (intro owned_go [OF drop_co assms(1)]) simp_all
next
  case (store_done i t)
  have "owned (ts[t := (ts ! t)\<lparr>tk_state := DONE\<rparr>]) R" if "owned ts (add_mset (t, Emptied) R)" for ts R
    using owned_drop [OF that] owned_claim [OF that] by (simp add: unclaimed_ok_def)
  with store_done show ?thesis by (intro owned_go [OF store_done assms(1)]) simp_all
next
  case (count_down i)
  then show ?thesis by (intro owned_go [OF count_down(1,2) assms(1)]) simp_all
next
  case (count_last i)
  then show ?thesis by (intro owned_go [OF count_last(1,2) assms(1)]) simp_all
next
  case (notify_all i)
  have "worker_claims \<circ> woken_up = worker_claims" by (auto simp: woken_up_def)
  with notify_all show ?thesis
    by (intro owned_go [OF notify_all(1,2) assms(1)]) (auto simp: wk_def claims_def woken_up_def)
qed

lemma owned_wakego:
  assumes "s' = set_waker i v s0" "wkr s i w" "owned (sd_tasks s) (claims s)" "wkr s0 i w" "claims s0 = claims s"
    and "\<And>R. owned (sd_tasks s) (waker_claims w + R) \<Longrightarrow> owned (sd_tasks s0) (waker_claims v + R)"
  shows "owned (sd_tasks s') (claims s')"
  using owned_waker [OF assms(2-5), of v] assms(1,6) by simp

text \<open>Every call of \<open>wake\<close> is of a task there is.\<close>

fun waker_task :: "waker \<Rightarrow> nat option" where
  "waker_task (Waking t) = Some t"
| "waker_task (Saw t _) = Some t"
| "waker_task (Wake_Push t) = Some t"
| "waker_task _ = None"

definition wakes_ok :: "nat \<Rightarrow> waker list \<Rightarrow> bool" where
  "wakes_ok n ws \<longleftrightarrow> (\<forall>w \<in> set ws. \<forall>t. waker_task w = Some t \<longrightarrow> t < n)"

lemma wakes_ok_nth: "wakes_ok n (sd_wakes s) \<Longrightarrow> wkr s k w \<Longrightarrow> waker_task w = Some t \<Longrightarrow> t < n"
  by (auto simp: wakes_ok_def wkr_def)

lemma owned_wake:
  assumes "owned (sd_tasks s) (claims s)" "wake_step s s'" "wakes_ok (length (sd_tasks s)) (sd_wakes s)"
  shows "owned (sd_tasks s') (claims s')"
  using assms(2)
proof cases
  case (call t)
  with assms(1) show ?thesis by (simp add: claims_def)
next
  case (load k t)
  then show ?thesis by (intro owned_wakego [OF load(1,2) assms(1)]) simp_all
next
  case (no_need k t)
  then show ?thesis by (intro owned_wakego [OF no_need(1,2) assms(1)]) simp_all
next
  case (unpark k t)
  from wakes_ok_nth [OF assms(3) unpark(2)] have t: "t < length (sd_tasks s)" by simp
  have q: "claim_ok Runnable ((sd_tasks s ! t)\<lparr>tk_state := QUEUED\<rparr>)"
    using assms(1) t unpark(3) by (auto simp: owned_def one_claim_def unclaimed_ok_def st_def elim!: claim_ok.elims dest!: spec [of _ t])
  show ?thesis
    by (intro owned_wakego [OF unpark(1,2) assms(1)])
      (use t q unpark in \<open>simp_all add: owned_take st_def\<close>)
next
  case (mark k t)
  from wakes_ok_nth [OF assms(3) mark(2)] have t: "t < length (sd_tasks s)" by simp
  show ?thesis
    by (intro owned_wakego [OF mark(1,2) assms(1)]) (use t mark in \<open>simp_all add: owned_mark st_def\<close>)
next
  case (again k t x)
  then show ?thesis by (intro owned_wakego [OF again(1,2) assms(1)]) simp_all
next
  case (wake_push k t)
  have w: "wkr (push_task t s) k (Wake_Push t)" using wake_push by simp
  from waker_split [OF wake_push(2)] obtain R where R: "claims s = waker_claims (Wake_Push t) + R" by metis
  from waker_split [OF w] obtain R' where
    R': "claims (push_task t s) = waker_claims (Wake_Push t) + R'" "claims s' = waker_claims Wake_Notify + R'"
    unfolding wake_push(1) by metis
  from R R'(1) have "R' = add_mset (t, Runnable) R" by simp
  with R R' assms(1) wake_push(1) show ?thesis by simp
next
  case (wake_notify k s0)
  note sel = notify_one_sel [OF wake_notify(3)] notify_one_claims [OF wake_notify(3)]
  with wake_notify show ?thesis by (intro owned_wakego [OF wake_notify(1,2) assms(1)]) (simp_all add: wkr_def)
qed

end
