(* ===== verification/Green_Workers.thy ===== *)
theory Green_Workers
  imports Green_Owners
begin

text \<open>
  The workers: no worker waits while more tasks are queued than workers are about to look, none
  is left waiting when all tasks are done, and the count of the live tasks is right.
\<close>

subsection \<open>Counting the workers\<close>

lemma count_if_split:
  assumes "i < length xs"
  obtains r where "\<And>P y. count_if P (xs[i := y]) = r P + (if P y then 1 else 0)"
proof (rule that [of "\<lambda>P. count_if P xs - (if P (xs ! i) then 1 else 0)"])
  show "count_if P (xs[i := y]) = count_if P xs - (if P (xs ! i) then 1 else 0) + (if P y then 1 else 0)" for P y
    using count_if_update [OF assms, of P y] count_if_pos [OF assms, of P] by (auto split: if_splits)
qed

lemma worker_counts:
  assumes "wk s i w"
  obtains r where "\<And>P v. count_if P ((sd_workers s)[i := v]) = r P + (if P v then 1 else 0)"
    and "\<And>P. count_if P (sd_workers s) = r P + (if P w then 1 else 0)"
proof -
  from assms have i: "i < length (sd_workers s)" "w = sd_workers s ! i" by (auto simp: wk_def)
  from count_if_split [OF i(1)] obtain r where
    r: "\<And>P v. count_if P ((sd_workers s)[i := v]) = r P + (if P v then 1 else 0)" by blast
  from r [of _ w] i show ?thesis by (intro that [OF r]) simp
qed

lemma waker_counts:
  assumes "wkr s i w"
  obtains r where "\<And>P v. count_if P ((sd_wakes s)[i := v]) = r P + (if P v then 1 else 0)"
    and "\<And>P. count_if P (sd_wakes s) = r P + (if P w then 1 else 0)"
proof -
  from assms have i: "i < length (sd_wakes s)" "w = sd_wakes s ! i" by (auto simp: wkr_def)
  from count_if_split [OF i(1)] obtain r where
    r: "\<And>P v. count_if P ((sd_wakes s)[i := v]) = r P + (if P v then 1 else 0)" by blast
  from r [of _ w] i show ?thesis by (intro that [OF r]) simp
qed

fun has_lock :: "worker \<Rightarrow> bool" where
  "has_lock Empty_Seen = True" | "has_lock Sleeping = True" | "has_lock _ = False"

text \<open>About to look at the queue, or to wake a worker that does.\<close>

fun looking :: "worker \<Rightarrow> bool" where
  "looking Idle = True" | "looking Notifying = True" | "looking (Spawned _) = True" | "looking _ = False"

fun may_wait :: "worker \<Rightarrow> bool" where
  "may_wait Asleep = True" | "may_wait Sleeping = True" | "may_wait _ = False"

definition workers_ok :: "sched \<Rightarrow> bool" where
  "workers_ok s \<longleftrightarrow>
     count_if has_lock (sd_workers s) = (if sd_locked s then 1 else 0) \<and> (sd_locked s \<longrightarrow> sd_queue s = []) \<and>
     (count_if ((=) Asleep) (sd_workers s) = 0 \<or>
        length (sd_queue s) \<le> count_if looking (sd_workers s) + count_if ((=) Wake_Notify) (sd_wakes s)) \<and>
     (sd_live s \<noteq> 0 \<or> 0 < count_if ((=) Last) (sd_workers s) \<or> count_if may_wait (sd_workers s) = 0) \<and>
     (count_if ((=) Stopped) (sd_workers s) = 0 \<or> sd_live s = 0)"

lemma workers_look:
  assumes "workers_ok s" "look_step s s'"
  shows "workers_ok s'"
  using assms(2,1)
proof cases
  case (pop i t q)
  then show ?thesis using assms(1) by (auto simp: workers_ok_def elim!: worker_counts)
qed (auto simp: workers_ok_def elim!: worker_counts split: if_splits)


lemma notify_one_cases:
  assumes "notify_one s s'"
  obtains "s' = s" "count_if ((=) Asleep) (sd_workers s) = 0" | j where "wk s j Asleep" "s' = set_worker j Idle s"
  using assms that by (auto simp: notify_one_def wk_def count_if_def filter_empty_conv)

lemma count_if_two:
  assumes "i < length xs" "j < length xs" "i \<noteq> j" "P (xs ! i)" "P (xs ! j)"
  shows "2 \<le> count_if P xs"
proof -
  have "{i, j} \<subseteq> {k. k < length xs \<and> P (xs ! k)}" using assms by auto
  then have "card {i, j} \<le> card {k. k < length xs \<and> P (xs ! k)}" by (intro card_mono) auto
  with assms(3) show ?thesis by (simp add: count_if_def length_filter_conv_card)
qed

text \<open>A notification whose sender goes on: a waiting worker looks again, if there is one.\<close>

lemma notify_counts:
  assumes "notify_one s s0" "wk s i w" "w \<noteq> Asleep"
  obtains "s0 = s" "count_if ((=) Asleep) (sd_workers s) = 0"
  | r where "\<And>P v. count_if P ((sd_workers s0)[i := v]) = r P + (if P Idle then 1 else 0) + (if P v then 1 else 0)"
    "\<And>P. count_if P (sd_workers s) = r P + (if P Asleep then 1 else 0) + (if P w then 1 else 0)"
    "\<And>P. count_if P (sd_workers s0) = r P + (if P Idle then 1 else 0) + (if P w then 1 else 0)"
  using assms(1)
proof (cases rule: notify_one_cases)
  case 1
  then show ?thesis using that(1) by simp
next
  case (2 j)
  let ?ws = "sd_workers s"
  from 2 assms(2,3) have ij: "i < length ?ws" "j < length ?ws" "i \<noteq> j" "?ws ! i = w" "?ws ! j = Asleep"
    by (auto simp: wk_def)
  have two: "(if P Asleep then 1 else 0) + (if P w then 1 else 0) \<le> count_if P ?ws" for P
    using count_if_two [OF ij(1-3), of P] count_if_pos [OF ij(1), of P] count_if_pos [OF ij(2), of P] ij by auto
  have upd: "count_if P (?ws[j := Idle, i := v]) + (if P Asleep then 1 else 0) + (if P w then 1 else 0)
      = count_if P ?ws + (if P Idle then 1 else 0) + (if P v then 1 else 0)" for P v
    using count_if_update [OF ij(2), of P Idle] count_if_update [of i "?ws[j := Idle]" P v] ij by simp
  have w: "?ws[j := Idle, i := w] = ?ws[j := Idle]" using ij by (metis list_update_id nth_list_update_neq)
  define r where "r P = count_if P ?ws - (if P Asleep then 1 else 0) - (if P w then 1 else 0)" for P
  have r: "count_if P ?ws = r P + (if P Asleep then 1 else 0) + (if P w then 1 else 0)" for P
    using two [of P] unfolding r_def by linarith
  show ?thesis
  proof (rule that(2))
    show "count_if P ((sd_workers s0)[i := v]) = r P + (if P Idle then 1 else 0) + (if P v then 1 else 0)" for P v
      using upd [of P v] r [of P] 2(2) by simp
    show "count_if P (sd_workers s0) = r P + (if P Idle then 1 else 0) + (if P w then 1 else 0)" for P
      using upd [of P w] r [of P] 2(2) w by simp
  qed (rule r)
qed

definition live_ok :: "sched \<Rightarrow> bool" where
  "live_ok s \<longleftrightarrow> sd_live s =
     count_if (\<lambda>k. tk_state k \<noteq> DONE) (sd_tasks s) + count_if ((=) Counting) (sd_workers s)"

lemma claimed:
  assumes "owned (sd_tasks s) (claims s)" "wk s i w" "worker_claims w = add_mset (t, p) C"
  shows "t < length (sd_tasks s) \<and> claim_ok p (sd_tasks s ! t)"
proof -
  from worker_split [OF assms(2)] obtain R where "claims s = worker_claims w + R" by metis
  with assms(1,3) show ?thesis using owned_claim [of "sd_tasks s" t p "C + R"] by simp
qed

lemma claim_ok_live: "claim_ok p k \<Longrightarrow> tk_state k \<noteq> DONE"
  by (auto elim: claim_ok.elims)

lemma claimed_live:
  assumes "owned (sd_tasks s) (claims s)" "live_ok s" "wk s i w" "worker_claims w = add_mset (t, p) C"
  shows "sd_live s \<noteq> 0"
proof -
  from claimed [OF assms(1,3,4)] have "t < length (sd_tasks s)" "tk_state (sd_tasks s ! t) \<noteq> DONE"
    by (auto dest: claim_ok_live)
  then have "0 < count_if (\<lambda>k. tk_state k \<noteq> DONE) (sd_tasks s)" by (rule count_if_pos)
  with assms(2) show ?thesis by (simp add: live_ok_def)
qed

lemma frame_sel2 [simp]:
  "sd_workers (set_state t x s) = sd_workers s" "sd_queue (set_state t x s) = sd_queue s"
  "sd_locked (set_state t x s) = sd_locked s" "sd_live (set_state t x s) = sd_live s" "sd_wakes (set_state t x s) = sd_wakes s"
  "sd_stacks (set_state t x s) = sd_stacks s" "sd_panic (set_state t x s) = sd_panic s" "sd_result (set_state t x s) = sd_result s"
  "sd_workers (take_co t s) = sd_workers s" "sd_queue (take_co t s) = sd_queue s"
  "sd_locked (take_co t s) = sd_locked s" "sd_live (take_co t s) = sd_live s" "sd_wakes (take_co t s) = sd_wakes s"
  "sd_stacks (take_co t s) = sd_stacks s" "sd_panic (take_co t s) = sd_panic s" "sd_result (take_co t s) = sd_result s"
  "sd_workers (push_task t s) = sd_workers s" "sd_queue (push_task t s) = sd_queue s @ [t]"
  "sd_locked (push_task t s) = sd_locked s" "sd_live (push_task t s) = sd_live s" "sd_wakes (push_task t s) = sd_wakes s"
  "sd_stacks (push_task t s) = sd_stacks s" "sd_panic (push_task t s) = sd_panic s" "sd_result (push_task t s) = sd_result s"
  "sd_workers (add_task stk s) = sd_workers s" "sd_queue (add_task stk s) = sd_queue s"
  "sd_locked (add_task stk s) = sd_locked s" "sd_live (add_task stk s) = sd_live s + 1" "sd_wakes (add_task stk s) = sd_wakes s"
  "sd_stacks (add_task stk s) = sd_stacks s" "sd_panic (add_task stk s) = sd_panic s" "sd_result (add_task stk s) = sd_result s"
  by (simp_all add: set_state_def take_co_def push_task_def add_task_def)

text \<open>Most steps are of a worker with a task, to another place with it or back to the loop.\<close>

definition working :: "worker \<Rightarrow> bool" where
  "working w \<longleftrightarrow> \<not> has_lock w \<and> \<not> may_wait w \<and> w \<noteq> Last \<and> w \<noteq> Stopped"

lemma workers_go:
  assumes "s' = set_worker i v s0" "wk s i w" "workers_ok s"
    and "sd_workers s0 = sd_workers s \<and> sd_queue s0 = sd_queue s \<and> sd_locked s0 = sd_locked s \<and>
      sd_live s0 = sd_live s \<and> sd_wakes s0 = sd_wakes s"
    and "working w" "working v" "looking w \<Longrightarrow> looking v"
  shows "workers_ok s'"
proof -
  from worker_counts [OF assms(2)] obtain r where
    r: "\<And>P v. count_if P ((sd_workers s)[i := v]) = r P + (if P v then 1 else 0)"
    "\<And>P. count_if P (sd_workers s) = r P + (if P w then 1 else 0)" by blast
  from assms(5,6) have ne: "Asleep \<noteq> w" "Asleep \<noteq> v" "Last \<noteq> w" "Last \<noteq> v" "Stopped \<noteq> w" "Stopped \<noteq> v"
    by (auto simp: working_def)
  from assms(3-7) ne show ?thesis unfolding assms(1)
    by (cases "looking w") (auto simp: workers_ok_def working_def r)
qed

lemma workers_task:
  assumes "workers_ok s" "task_step c s s'" "owned (sd_tasks s) (claims s)" "live_ok s"
  shows "workers_ok s'"
  using assms(2)
proof cases
  case (spawn_stack i t stk s0)
  from get_stack_sel [OF spawn_stack(3)] show ?thesis
    by (intro workers_go [OF spawn_stack(1,2) assms(1)]) (simp_all add: working_def)
next
  case (spawn_task i t stk)
  with assms(1) claimed_live [OF assms(3,4) spawn_task(2)] show ?thesis
    by (auto simp: workers_ok_def elim!: worker_counts)
next
  case (spawn_push i t u)
  with assms(1) show ?thesis by (auto simp: workers_ok_def elim!: worker_counts)
next
  case (spawn_notify i t s0)
  from spawn_notify(3,2) have "Spawned t \<noteq> Asleep" by simp
  from spawn_notify(3,2) this show ?thesis
    by (cases rule: notify_counts) (use spawn_notify notify_one_sel [OF spawn_notify(3)] assms(1) in
        \<open>auto simp: workers_ok_def elim!: worker_counts\<close>)
qed ((rule workers_go [OF _ _ assms(1)], assumption, assumption, (simp_all add: working_def) [4])+)

lemma workers_outcome:
  assumes "workers_ok s" "outcome_step s s'" "live_ok s"
  shows "workers_ok s'"
  using assms(2)
proof cases
  case (push i t)
  with assms(1) show ?thesis by (auto simp: workers_ok_def elim!: worker_counts)
next
  case (notify i s0)
  have "Notifying \<noteq> Asleep" by simp
  from notify(3,2) this show ?thesis
    by (cases rule: notify_counts) (use notify notify_one_sel [OF notify(3)] assms(1) in
        \<open>auto simp: workers_ok_def elim!: worker_counts\<close>)
next
  case (count_down i)
  from worker_counts [OF count_down(2)] obtain r where
    r: "\<And>P v. count_if P ((sd_workers s)[i := v]) = r P + (if P v then 1 else 0)"
    "\<And>P. count_if P (sd_workers s) = r P + (if P Counting then 1 else 0)" by blast
  from assms(3) have "sd_live s \<noteq> 0" by (simp add: live_ok_def r)
  with assms(1) count_down show ?thesis by (auto simp: workers_ok_def r)
next
  case (count_last i)
  with assms(1) show ?thesis by (auto simp: workers_ok_def elim!: worker_counts)
next
  case (notify_all i)
  let ?s = "s\<lparr>sd_workers := map woken_up (sd_workers s)\<rparr>"
  have same: "count_if P (map woken_up ws) = count_if P ws" if "\<And>w. P (woken_up w) = P w" for P ws
    by (induction ws) (simp_all add: that)
  have none: "count_if ((=) Asleep) (map woken_up ws) = 0" for ws
    by (induction ws) (auto simp: woken_up_def)
  have wait: "count_if has_lock ws = 0 \<Longrightarrow> count_if may_wait (map woken_up ws) = 0" for ws
  proof (induction ws)
    case (Cons w ws)
    then show ?case by (cases w) (auto simp: woken_up_def split: if_splits)
  qed simp
  from notify_all(2) have w: "wk ?s i Last" by (auto simp: wk_def woken_up_def)
  have "count_if has_lock (sd_workers s) = 0" using assms(1) notify_all(3) by (simp add: workers_ok_def)
  with assms(1) notify_all(1,3) wait [of "sd_workers s"] none [of "sd_workers s"]
    same [of has_lock "sd_workers s"] same [of "(=) Stopped" "sd_workers s"] show ?thesis
    by (auto simp: workers_ok_def woken_up_def intro: worker_counts [OF w])
qed ((rule workers_go [OF _ _ assms(1)], assumption, assumption, (simp_all add: working_def) [4])+)

lemma workers_waker:
  assumes "workers_ok s" "wake_step s s'"
  shows "workers_ok s'"
  using assms(2)
proof cases
  case (call t)
  with assms(1) show ?thesis by (auto simp: workers_ok_def)
next
  case (wake_notify k s0)
  show ?thesis
    using wake_notify(3)
  proof (cases rule: notify_one_cases)
    case 1
    with assms(1) wake_notify(1) show ?thesis by (simp add: workers_ok_def)
  next
    case (2 j)
    from wake_notify(2) have "wkr s0 k Wake_Notify" using notify_one_sel [OF wake_notify(3)] by (simp add: wkr_def)
    with assms(1) wake_notify(1) 2 show ?thesis
      by (auto simp: workers_ok_def elim!: worker_counts waker_counts)
  qed
qed (use assms(1) in \<open>auto simp: workers_ok_def elim!: waker_counts\<close>)

subsection \<open>The live tasks\<close>

lemma count_state:
  assumes "t < length ts" "tk_state (ts ! t) \<noteq> DONE" "x \<noteq> DONE"
  shows "count_if (\<lambda>k. tk_state k \<noteq> DONE) (ts[t := (ts ! t)\<lparr>tk_state := x\<rparr>]) = count_if (\<lambda>k. tk_state k \<noteq> DONE) ts"
  using count_if_update [OF assms(1), of "\<lambda>k. tk_state k \<noteq> DONE" "(ts ! t)\<lparr>tk_state := x\<rparr>"] assms(2,3) by simp

lemma count_co:
  "count_if (\<lambda>k. tk_state k \<noteq> DONE) (ts[t := (ts ! t)\<lparr>tk_co := c\<rparr>]) = count_if (\<lambda>k. tk_state k \<noteq> DONE) ts"
proof (cases "t < length ts")
  case True
  from count_if_update [OF this, of "\<lambda>k. tk_state k \<noteq> DONE" "(ts ! t)\<lparr>tk_co := c\<rparr>"] show ?thesis
    by (auto split: if_splits)
qed (simp add: list_update_beyond)

lemma live_go:
  assumes "s' = set_worker i v s0" "wk s i w" "live_ok s"
    and "sd_workers s0 = sd_workers s \<and> sd_live s0 = sd_live s \<and>
      count_if (\<lambda>k. tk_state k \<noteq> DONE) (sd_tasks s0) = count_if (\<lambda>k. tk_state k \<noteq> DONE) (sd_tasks s)"
    and "w \<noteq> Counting" "v \<noteq> Counting"
  shows "live_ok s'"
proof -
  from assms(5,6) have ne: "Counting \<noteq> w" "Counting \<noteq> v" by auto
  from worker_counts [OF assms(2)] obtain r where
    "\<And>P v. count_if P ((sd_workers s)[i := v]) = r P + (if P v then 1 else 0)"
    "\<And>P. count_if P (sd_workers s) = r P + (if P w then 1 else 0)" by blast
  with assms(1,3,4) ne show ?thesis by (simp add: live_ok_def)
qed

lemma live_state:
  assumes "s' = set_worker i v (set_state t x s)" "wk s i w" "live_ok s" "owned (sd_tasks s) (claims s)"
    and "worker_claims w = add_mset (t, p) C" "x \<noteq> DONE" "w \<noteq> Counting" "v \<noteq> Counting"
  shows "live_ok s'"
proof -
  from claimed [OF assms(4,2,5)] have "t < length (sd_tasks s)" "tk_state (sd_tasks s ! t) \<noteq> DONE"
    by (auto dest: claim_ok_live)
  with assms show ?thesis by (intro live_go [OF assms(1-3)]) (simp_all add: count_state)
qed

lemma live_notify:
  assumes "notify_one s s0" "live_ok s"
  shows "live_ok s0"
  using assms(1)
proof (cases rule: notify_one_cases)
  case (2 j)
  with assms(2) show ?thesis by (intro live_go [OF 2(2,1)]) simp_all
qed (use assms(2) in simp)

lemma live_look: "live_ok s \<Longrightarrow> look_step s s' \<Longrightarrow> live_ok s'"
  by (erule look_step.cases) (auto intro: live_go)

lemma live_task:
  assumes "live_ok s" "task_step c s s'" "owned (sd_tasks s) (claims s)"
  shows "live_ok s'"
  using assms(2)
proof cases
  case (store_running i t)
  then show ?thesis by (intro live_state [OF store_running assms(1,3)]) auto
next
  case (spawn_stack i t stk s0)
  from get_stack_sel [OF spawn_stack(3)] show ?thesis by (intro live_go [OF spawn_stack(1,2) assms(1)]) simp_all
next
  case (spawn_task i t stk)
  with assms(1) show ?thesis by (auto simp: live_ok_def task_new_def elim!: worker_counts)
next
  case (spawn_notify i t s0)
  have "wk s0 i (Spawned t)" using notify_one_wk [OF spawn_notify(3,2)] by simp
  from live_notify [OF spawn_notify(3) assms(1)] show ?thesis
    by (intro live_go [OF spawn_notify(1) \<open>wk s0 i (Spawned t)\<close>]) simp_all
qed ((rule live_go [OF _ _ assms(1)], assumption, assumption, (simp_all) [3])+)

lemma live_outcome:
  assumes "live_ok s" "outcome_step s s'" "owned (sd_tasks s) (claims s)"
  shows "live_ok s'"
  using assms(2)
proof cases
  case (yielded i t)
  then show ?thesis by (intro live_state [OF yielded assms(1,3)]) auto
next
  case (parked i t)
  then show ?thesis by (intro live_state [OF parked(1,2) assms(1,3)]) auto
next
  case (requeue i t)
  then show ?thesis by (intro live_state [OF requeue(1,2) assms(1,3)]) auto
next
  case (notify i s0)
  have "wk s0 i Notifying" using notify_one_wk [OF notify(3,2)] by simp
  from live_notify [OF notify(3) assms(1)] show ?thesis
    by (intro live_go [OF notify(1) \<open>wk s0 i Notifying\<close>]) simp_all
next
  case (keep_stack i t stk)
  then show ?thesis by (intro live_go [OF keep_stack(1,2) assms(1)]) (simp_all add: count_co)
next
  case (drop_co i t)
  then show ?thesis by (intro live_go [OF drop_co assms(1)]) (simp_all add: count_co)
next
  case (store_done i t)
  from claimed [OF assms(3) store_done(2)] have t: "t < length (sd_tasks s)" "tk_state (sd_tasks s ! t) \<noteq> DONE"
    by (auto dest: claim_ok_live)
  from count_if_update [OF t(1), of "\<lambda>k. tk_state k \<noteq> DONE" "(sd_tasks s ! t)\<lparr>tk_state := DONE\<rparr>"] t(2)
    assms(1) store_done show ?thesis by (auto simp: live_ok_def elim!: worker_counts)
next
  case (count_down i)
  with assms(1) show ?thesis by (auto simp: live_ok_def elim!: worker_counts)
next
  case (count_last i)
  with assms(1) show ?thesis by (auto simp: live_ok_def elim!: worker_counts)
next
  case (notify_all i)
  let ?s = "s\<lparr>sd_workers := map woken_up (sd_workers s)\<rparr>"
  have "count_if ((=) Counting) (map woken_up ws) = count_if ((=) Counting) ws" for ws
    by (induction ws) (auto simp: woken_up_def)
  with assms(1) have "live_ok ?s" by (simp add: live_ok_def)
  from notify_all(2) have w: "wk ?s i Last" by (auto simp: wk_def woken_up_def)
  from \<open>live_ok ?s\<close> show ?thesis by (intro live_go [OF notify_all(1) w]) simp_all
qed ((rule live_go [OF _ _ assms(1)], assumption, assumption, (simp_all) [3])+)

lemma live_wake:
  assumes "live_ok s" "wake_step s s'" "wakes_ok (length (sd_tasks s)) (sd_wakes s)"
  shows "live_ok s'"
  using assms(2)
proof cases
  case (unpark k t)
  with wakes_ok_nth [OF assms(3) unpark(2)] assms(1) show ?thesis by (simp add: live_ok_def st_def count_state)
next
  case (mark k t)
  with wakes_ok_nth [OF assms(3) mark(2)] assms(1) show ?thesis by (simp add: live_ok_def st_def count_state)
next
  case (wake_notify k s0)
  from live_notify [OF wake_notify(3) assms(1)] wake_notify(1) show ?thesis by (simp add: live_ok_def)
qed (use assms(1) in \<open>auto simp: live_ok_def\<close>)

end
