(* ===== verification/Green_Sched_Props.thy ===== *)
theory Green_Sched_Props
  imports Green_Workers
begin

text \<open>
  What the scheduler keeps: a task is run by one worker at a time, wake-ups are kept, workers do
  not sleep while tasks wait, and they stop when all are done.
\<close>

subsection \<open>The result and the calls of wake\<close>

definition result_ok :: "sched \<Rightarrow> bool" where
  "result_ok s \<longleftrightarrow> sd_tasks s \<noteq> [] \<and> (sd_result s \<or> sd_panic s \<noteq> None \<or> tk_co (sd_tasks s ! 0) \<noteq> None) \<and>
     (sd_result s \<or> Returned 0 \<notin> set (sd_workers s))"

lemma set_list_update: "y \<in> set (xs[i := x]) \<Longrightarrow> y = x \<or> y \<in> set xs"
  using set_update_subset_insert [of xs i x] by auto

lemma result_go:
  assumes "s' = set_worker i v s0" "result_ok s"
    and "Returned 0 \<in> set (sd_workers s0) \<longrightarrow> Returned 0 \<in> set (sd_workers s)" "sd_result s \<longrightarrow> sd_result s0"
      "sd_panic s \<noteq> None \<longrightarrow> sd_panic s0 \<noteq> None"
    and "sd_tasks s0 \<noteq> []" "tk_co (sd_tasks s0 ! 0) = tk_co (sd_tasks s ! 0)" "v \<noteq> Returned 0"
  shows "result_ok s'"
  using assms by (auto simp: result_ok_def dest!: set_list_update)

lemma nth0_update [simp]: "(xs[t := y]) ! 0 = (if t = 0 \<and> xs \<noteq> [] then y else xs ! 0)"
  by (cases xs; cases t) auto

lemma result_notify: "notify_one s s0 \<Longrightarrow> result_ok s \<Longrightarrow> result_ok s0"
  by (auto simp: notify_one_def result_ok_def dest!: set_list_update)

lemma result_look: "result_ok s \<Longrightarrow> look_step s s' \<Longrightarrow> result_ok s'"
  by (erule look_step.cases) (auto simp: result_ok_def dest!: set_list_update)

lemma nonempty: "result_ok s \<Longrightarrow> sd_tasks s \<noteq> []"
  by (simp add: result_ok_def)

lemma result_task:
  assumes "result_ok s" "task_step c s s'"
  shows "result_ok s'"
  using assms(2)
proof cases
  case (spawn_stack i t stk s0)
  with get_stack_sel [OF spawn_stack(3)] nonempty [OF assms(1)] show ?thesis
    by (intro result_go [OF spawn_stack(1) assms(1)]) auto
next
  case (spawn_task i t stk)
  with nonempty [OF assms(1)] show ?thesis
    by (intro result_go [OF spawn_task(1) assms(1)]) (auto simp: nth_append)
next
  case (spawn_notify i t s0)
  from result_notify [OF spawn_notify(3) assms(1)] have ok: "result_ok s0" .
  with nonempty [OF ok] show ?thesis by (intro result_go [OF spawn_notify(1) ok]) auto
next
  case (return i t)
  with assms(1) show ?thesis by (auto simp: result_ok_def dest!: set_list_update)
qed ((rule result_go [OF _ assms(1)], assumption, (use nonempty [OF assms(1)] in \<open>simp_all\<close>) [6])+)

lemma returned_wk: "wk s i w \<Longrightarrow> w \<in> set (sd_workers s)"
  by (auto simp: wk_def)

lemma result_outcome:
  assumes "result_ok s" "outcome_step s s'"
  shows "result_ok s'"
  using assms(2)
proof cases
  case (notify i s0)
  from result_notify [OF notify(3) assms(1)] have ok: "result_ok s0" .
  with nonempty [OF ok] show ?thesis by (intro result_go [OF notify(1) ok]) auto
next
  case (keep_stack i t stk)
  with assms(1) returned_wk [OF keep_stack(2)] show ?thesis by (auto simp: result_ok_def dest!: set_list_update)
next
  case (drop_co i t)
  with assms(1) show ?thesis by (auto simp: result_ok_def dest!: set_list_update)
next
  case (notify_all i)
  with assms(1) show ?thesis by (auto simp: result_ok_def woken_up_def dest!: set_list_update split: if_splits)
qed ((rule result_go [OF _ assms(1)], assumption, (use nonempty [OF assms(1)] in \<open>simp_all\<close>) [6])+)

lemma result_wake:
  assumes "result_ok s" "wake_step s s'"
  shows "result_ok s'"
  using assms(2)
proof cases
  case (wake_notify k s0)
  from result_notify [OF wake_notify(3) assms(1)] wake_notify(1) show ?thesis by (simp add: result_ok_def)
qed (use assms(1) in \<open>auto simp: result_ok_def\<close>)

lemma wakes_step:
  assumes "wakes_ok (length (sd_tasks s)) (sd_wakes s)" "sd_step c s s'"
  shows "wakes_ok (length (sd_tasks s')) (sd_wakes s') \<and> length (sd_tasks s) \<le> length (sd_tasks s')"
proof -
  have upd: "wakes_ok n (ws[k := w])" if "wakes_ok n ws" "waker_task w = None \<or> (\<exists>t. waker_task w = Some t \<and> t < n)"
    for n ws k w using that by (auto simp: wakes_ok_def dest!: set_list_update)
  have more: "wakes_ok (Suc n) ws" if "wakes_ok n ws" for n ws using that by (auto simp: wakes_ok_def less_SucI)
  from assms(2) consider "look_step s s'" | "task_step c s s'" | "outcome_step s s'" | "wake_step s s'"
    by (auto simp: sd_step_def)
  then show ?thesis
  proof cases
    case 1
    then show ?thesis by cases (use assms(1) in auto)
  next
    case 2
    then show ?thesis by cases (use assms(1) more in \<open>auto dest: get_stack_sel notify_one_sel\<close>)
  next
    case 3
    then show ?thesis by cases (use assms(1) in \<open>auto dest: notify_one_sel\<close>)
  next
    case 4
    then show ?thesis
    proof cases
      case (call t)
      with assms(1) show ?thesis by (auto simp: wakes_ok_def)
    next
      case (wake_notify k s0)
      with assms(1) notify_one_sel [OF wake_notify(3)] show ?thesis by (simp add: upd)
    qed (use assms(1) wakes_ok_nth [OF assms(1)] in \<open>auto intro!: upd\<close>)
  qed
qed

subsection \<open>The stacks\<close>

definition task_stk :: "task \<Rightarrow> stack multiset" where
  "task_stk k = (case tk_co k of None \<Rightarrow> {#} | Some stk \<Rightarrow> {#stk#})"

fun worker_stk :: "worker \<Rightarrow> stack multiset" where
  "worker_stk (Spawn_Stack t stk) = {#stk#}"
| "worker_stk _ = {#}"

definition used :: "sched \<Rightarrow> stack multiset" where
  "used s = mset (sd_stacks s) + sum_list (map task_stk (sd_tasks s)) + sum_list (map worker_stk (sd_workers s))"

lemma used_stacks: "mset (stacks_used s) = used s"
proof -
  have "mset (case w of Spawn_Stack t stk \<Rightarrow> [stk] | _ \<Rightarrow> []) = worker_stk w" for w by (cases w) auto
  moreover have "mset (case tk_co k of None \<Rightarrow> [] | Some stk \<Rightarrow> [stk]) = task_stk k" for k
    by (simp add: task_stk_def split: option.split)
  ultimately show ?thesis by (simp add: stacks_used_def used_def mset_concat o_def)
qed

definition apart :: "config \<Rightarrow> stack multiset \<Rightarrow> bool" where
  "apart c M \<longleftrightarrow> (\<forall>a. count (image_mset fst M) a \<le> 1) \<and>
     (\<forall>stk \<in># M. snd stk = cf_main_stack c \<or> snd stk = cf_task_stack c)"

lemma apart_add:
  "apart c (add_mset stk M) \<longleftrightarrow> apart c M \<and> fst stk \<notin> fst ` set_mset M \<and>
     (snd stk = cf_main_stack c \<or> snd stk = cf_task_stack c)"
proof -
  have "count (image_mset fst M) (fst stk) = 0 \<longleftrightarrow> fst stk \<notin> fst ` set_mset M" by (simp add: count_eq_zero_iff)
  then have "(\<forall>a. count (image_mset fst (add_mset stk M)) a \<le> 1) \<longleftrightarrow>
      (\<forall>a. count (image_mset fst M) a \<le> 1) \<and> fst stk \<notin> fst ` set_mset M"
    by (auto simp: le_Suc_eq)
  then show ?thesis unfolding apart_def by auto
qed

lemma state_stk:
  "map task_stk (ts[t := (ts ! t)\<lparr>tk_state := x\<rparr>]) = map task_stk ts"
proof (cases "t < length ts")
  case True
  then show ?thesis by (intro nth_equalityI) (auto simp: nth_list_update task_stk_def)
qed (simp add: list_update_beyond)

lemma used_worker:
  assumes "wk s i w"
  obtains R where "used s = worker_stk w + R" "\<And>v. used (set_worker i v s) = worker_stk v + R"
proof -
  from assms have i: "i < length (sd_workers s)" "sd_workers s ! i = w" by (auto simp: wk_def)
  from sum_list_split [OF i(1), of worker_stk] obtain R where
    R: "sum_list (map worker_stk ((sd_workers s)[i := y])) = worker_stk y + R" for y by blast
  from R [of w] i(2) have "sum_list (map worker_stk (sd_workers s)) = worker_stk w + R"
    using list_update_id [of "sd_workers s" i] by simp
  with R show ?thesis by (intro that) (simp_all add: used_def ac_simps)
qed

lemma used_go:
  assumes "s' = set_worker i v s0" "wk s i w" "sd_workers s0 = sd_workers s" "used s0 = used s" "worker_stk w = worker_stk v"
  shows "used s' = used s"
proof -
  from assms(2,3) have "wk s0 i w" by (simp add: wk_def)
  from used_worker [OF this] assms(1,4,5) show ?thesis by metis
qed

lemma used_frame [simp]:
  "used (set_state t x s) = used s" "used (push_task t s) = used s" "used (s\<lparr>sd_queue := q\<rparr>) = used s"
  "used (s\<lparr>sd_locked := b\<rparr>) = used s" "used (s\<lparr>sd_live := n\<rparr>) = used s" "used (s\<lparr>sd_result := r\<rparr>) = used s"
  "used (s\<lparr>sd_wakes := ws\<rparr>) = used s" "used (set_waker k u s) = used s" "used (s\<lparr>sd_panic := p\<rparr>) = used s"
  by (simp_all add: used_def set_state_def push_task_def set_waker_def state_stk)

lemma used_notify:
  assumes "notify_one s s0"
  shows "used s0 = used s"
  using assms
proof (cases rule: notify_one_cases)
  case (2 j)
  then show ?thesis by (intro used_go [OF 2(2,1)]) simp_all
qed simp

lemma used_look:
  assumes "look_step s s'"
  shows "used s' = used s"
  using assms by cases ((rule used_go, assumption, assumption, (simp_all) [3])+)

lemma used_wake: "wake_step s s' \<Longrightarrow> used s' = used s"
  by (erule wake_step.cases) (auto dest: used_notify)

lemma apart_go: "apart c (used s) \<Longrightarrow> used s' = used s \<Longrightarrow> apart c (used s')"
  by simp

lemma stk_taken:
  assumes "t < length ts" "tk_co (ts ! t) = Some stk"
  shows "sum_list (map task_stk ts) = add_mset stk (sum_list (map task_stk (ts[t := (ts ! t)\<lparr>tk_co := None\<rparr>])))"
proof -
  from sum_list_split [OF assms(1), of task_stk] obtain R where
    R: "sum_list (map task_stk (ts[t := y])) = task_stk y + R" for y by blast
  from R [of "ts ! t"] R [of "(ts ! t)\<lparr>tk_co := None\<rparr>"] assms(2) show ?thesis by (simp add: task_stk_def)
qed

lemma apart_task:
  assumes "apart c (used s)" "task_step c s s'"
  shows "apart c (used s')"
  using assms(2)
proof cases
  case (spawn_stack i t stk s0)
  have "wk s0 i (Inside t)" using spawn_stack get_stack_sel [OF spawn_stack(3)] by (simp add: wk_def)
  from used_worker [OF this] obtain R where "used s0 = worker_stk (Inside t) + R"
    "used s' = worker_stk (Spawn_Stack t stk) + R" unfolding spawn_stack(1) by metis
  then have s': "used s' = add_mset stk (used s0)" by simp
  show ?thesis
  proof (cases "cf_task_stack c = cf_task_stack c \<and> sd_stacks s \<noteq> []")
    case True
    with spawn_stack(3) have "stk = last (sd_stacks s)" "s0 = s\<lparr>sd_stacks := butlast (sd_stacks s)\<rparr>"
      by (simp_all add: get_stack_def)
    moreover from True have "mset (sd_stacks s) = mset (butlast (sd_stacks s) @ [last (sd_stacks s)])" by simp
    ultimately have "used s' = used s" using s' by (simp add: used_def del: append_butlast_last_id)
    with assms(1) show ?thesis by simp
  next
    case False
    with spawn_stack(3) have "s0 = s" "fst stk \<notin> fst ` set (stacks_used s)" "snd stk = cf_task_stack c"
      by (simp_all add: get_stack_def)
    with s' assms(1) show ?thesis by (simp add: apart_add flip: used_stacks)
  qed
next
  case (spawn_task i t stk)
  have "wk (add_task stk s) i (Spawn_Stack t stk)" using spawn_task by simp
  from used_worker [OF this] obtain R where R: "used (add_task stk s) = add_mset stk R" "used s' = R"
    unfolding spawn_task(1) by (metis add_mset_add_single union_commute worker_stk.simps(1,10) add_0)
  have "used (add_task stk s) = add_mset stk (used s)" by (simp add: used_def add_task_def task_new_def task_stk_def)
  with R assms(1) show ?thesis by simp
next
  case (spawn_notify i t s0)
  have "wk s0 i (Spawned t)" using notify_one_wk [OF spawn_notify(3,2)] by simp
  with used_go [OF spawn_notify(1) this] used_notify [OF spawn_notify(3)] assms(1) show ?thesis by simp
qed ((rule apart_go [OF assms(1)], rule used_go, assumption, assumption, (simp_all) [3])+)

lemma apart_outcome:
  assumes "apart c (used s)" "outcome_step s s'" "owned (sd_tasks s) (claims s)"
  shows "apart c (used s')"
  using assms(2)
proof cases
  case (notify i s0)
  have "wk s0 i Notifying" using notify_one_wk [OF notify(3,2)] by simp
  with used_go [OF notify(1) this] used_notify [OF notify(3)] assms(1) show ?thesis by simp
next
  case (keep_stack i t stk)
  from claimed [OF assms(3) keep_stack(2)] have t: "t < length (sd_tasks s)" by simp
  let ?s = "take_co t (s\<lparr>sd_stacks := sd_stacks s @ [stk]\<rparr>)"
  have "used ?s = used s" using stk_taken [OF t keep_stack(3)] by (simp add: used_def take_co_def)
  with used_go [OF keep_stack(1), of ?s] used_go [OF keep_stack(1,2)] assms(1) show ?thesis
    by (simp add: take_co_def)
next
  case (drop_co i t)
  from claimed [OF assms(3) drop_co(2)] obtain stk where t: "t < length (sd_tasks s)" "tk_co (sd_tasks s ! t) = Some stk"
    by auto
  let ?s = "take_co t (s\<lparr>sd_panic := (if sd_panic s = None then Some t else sd_panic s)\<rparr>)"
  have "used s = add_mset stk (used ?s)" using stk_taken [OF t] by (simp add: used_def take_co_def)
  with assms(1) have "apart c (used ?s)" by (simp add: apart_add)
  moreover have "wk ?s i (Unwinding t)" using drop_co(2) by simp
  from used_go [OF drop_co(1) this] have "used s' = used ?s" by simp
  ultimately show ?thesis by simp
next
  case (notify_all i)
  let ?s = "s\<lparr>sd_workers := map woken_up (sd_workers s)\<rparr>"
  have "map worker_stk (map woken_up ws) = map worker_stk ws" for ws by (auto simp: woken_up_def)
  then have "used ?s = used s" by (simp add: used_def del: map_map)
  moreover have "wk ?s i Last" using notify_all(2) by (auto simp: wk_def woken_up_def)
  from used_go [OF notify_all(1) this] have "used s' = used ?s" by simp
  ultimately show ?thesis using assms(1) by simp
qed ((rule apart_go [OF assms(1)], rule used_go, assumption, assumption, (simp_all) [3])+)

subsection \<open>No worker panics\<close>

lemma sound_notify: "notify_one s s' \<Longrightarrow> Crashed \<notin> set (sd_workers s) \<Longrightarrow> Crashed \<notin> set (sd_workers s')"
  by (auto simp: notify_one_def dest!: set_list_update)

lemma sound_go:
  assumes "s' = set_worker i v s0" "Crashed \<notin> set (sd_workers s)" "sd_workers s0 = sd_workers s" "v \<noteq> Crashed"
  shows "Crashed \<notin> set (sd_workers s')"
  using assms by (auto dest!: set_list_update)

lemma sound_look:
  assumes "Crashed \<notin> set (sd_workers s)" "look_step s s'"
  shows "Crashed \<notin> set (sd_workers s')"
  using assms(2) by cases ((rule sound_go [OF _ assms(1)], assumption, (simp_all) [2])+)

lemma sound_task:
  assumes "Crashed \<notin> set (sd_workers s)" "task_step c s s'" "owned (sd_tasks s) (claims s)"
  shows "Crashed \<notin> set (sd_workers s')"
  using assms(2)
proof cases
  case (no_coroutine i t)
  then show ?thesis using claimed [OF assms(3) no_coroutine(2)] by simp
next
  case (spawn_stack i t stk s0)
  then show ?thesis using get_stack_sel [OF spawn_stack(3)] by (intro sound_go [OF spawn_stack(1) assms(1)]) simp_all
next
  case (spawn_notify i t s0)
  from sound_notify [OF spawn_notify(3) assms(1)] show ?thesis by (intro sound_go [OF spawn_notify(1)]) simp_all
qed ((rule sound_go [OF _ assms(1)], assumption, (simp_all) [2])+)

lemma sound_outcome:
  assumes "Crashed \<notin> set (sd_workers s)" "outcome_step s s'" "owned (sd_tasks s) (claims s)"
  shows "Crashed \<notin> set (sd_workers s')"
  using assms(2)
proof cases
  case (assert_fails i t)
  then show ?thesis using claimed [OF assms(3) assert_fails(2)] by (simp add: st_def)
next
  case (nothing_to_take i t)
  then show ?thesis using claimed [OF assms(3) nothing_to_take(2)] by simp
next
  case (notify i s0)
  from sound_notify [OF notify(3) assms(1)] show ?thesis by (intro sound_go [OF notify(1)]) simp_all
next
  case (notify_all i)
  with assms(1) show ?thesis by (auto simp: woken_up_def dest!: set_list_update split: if_splits)
qed ((rule sound_go [OF _ assms(1)], assumption, (simp_all) [2])+)

lemma sound_wake:
  assumes "Crashed \<notin> set (sd_workers s)" "wake_step s s'"
  shows "Crashed \<notin> set (sd_workers s')"
  using assms(2) by cases (use assms(1) sound_notify in auto)

subsection \<open>The invariant\<close>

definition sched_inv :: "config \<Rightarrow> sched \<Rightarrow> bool" where
  "sched_inv c s \<longleftrightarrow> owned (sd_tasks s) (claims s) \<and> wakes_ok (length (sd_tasks s)) (sd_wakes s) \<and>
     workers_ok s \<and> live_ok s \<and> result_ok s \<and> apart c (used s) \<and> Crashed \<notin> set (sd_workers s)"

lemma sched_inv_init: "sd_init c s \<Longrightarrow> sched_inv c s"
proof -
  have rep: "count_if P (replicate n Idle) = (if P Idle then n else 0)" for P n by (induction n) auto
  have none: "sum_list (replicate n {#}) = {#}" for n by (induction n) auto
  assume "sd_init c s"
  then show ?thesis
    by (auto simp: sched_inv_def sd_init_def owned_def claims_def wakes_ok_def workers_ok_def live_ok_def result_ok_def
        apart_def used_def task_new_def task_stk_def rep none)
qed

lemma sched_inv_step:
  assumes "sched_inv c s" "sd_step c s s'"
  shows "sched_inv c s'"
proof -
  from assms(1) have inv: "owned (sd_tasks s) (claims s)" "wakes_ok (length (sd_tasks s)) (sd_wakes s)"
    "workers_ok s" "live_ok s" "result_ok s" "apart c (used s)" "Crashed \<notin> set (sd_workers s)" by (simp_all add: sched_inv_def)
  note wakes = wakes_step [OF inv(2) assms(2)]
  from assms(2) consider "look_step s s'" | "task_step c s s'" | "outcome_step s s'" | "wake_step s s'"
    by (auto simp: sd_step_def)
  then show ?thesis
  proof cases
    case 1
    with inv wakes show ?thesis
      by (simp add: sched_inv_def owned_look workers_look live_look result_look used_look sound_look)
  next
    case 2
    with inv wakes show ?thesis
      by (simp add: sched_inv_def owned_task workers_task live_task result_task apart_task sound_task)
  next
    case 3
    with inv wakes show ?thesis
      by (simp add: sched_inv_def owned_outcome workers_outcome live_outcome result_outcome apart_outcome sound_outcome)
  next
    case 4
    with inv wakes show ?thesis
      by (simp add: sched_inv_def owned_wake workers_waker live_wake result_wake used_wake sound_wake)
  qed
qed

interpretation scheduled: inductive_invariant "sd_init c" "sd_step c" "sched_inv c" for c
  by unfold_locales (auto intro: sched_inv_init sched_inv_step)

subsection \<open>The properties\<close>

text \<open>The tasks a worker has, and those a waker is about to queue.\<close>

fun worker_tasks :: "worker \<Rightarrow> nat list" where
  "worker_tasks (Took t) = [t]" | "worker_tasks (Resuming t) = [t]" | "worker_tasks (Inside t) = [t]"
| "worker_tasks (Spawn_Stack t _) = [t]" | "worker_tasks (Spawning t u) = [t, u]" | "worker_tasks (Spawned t) = [t]"
| "worker_tasks (Yielded t) = [t]" | "worker_tasks (Parking t) = [t]" | "worker_tasks (Requeued t) = [t]"
| "worker_tasks (Pushing t) = [t]" | "worker_tasks (Returned t) = [t]" | "worker_tasks (Unwinding t) = [t]"
| "worker_tasks (Finishing t) = [t]" | "worker_tasks _ = []"

fun waker_tasks :: "waker \<Rightarrow> nat list" where
  "waker_tasks (Wake_Push t) = [t]" | "waker_tasks _ = []"

definition places :: "sched \<Rightarrow> nat list" where
  "places s = sd_queue s @ concat (map worker_tasks (sd_workers s)) @ concat (map waker_tasks (sd_wakes s))"

lemma image_sum: "image_mset g (sum_list (map f xs)) = sum_list (map (\<lambda>x. image_mset g (f x)) xs)"
  by (induction xs) auto

lemma places_claims: "mset (places s) = image_mset fst (claims s)"
proof -
  have "mset (worker_tasks w) = image_mset fst (worker_claims w)" for w by (cases w) auto
  moreover have "mset (waker_tasks k) = image_mset fst (waker_claims k)" for k by (cases k) auto
  moreover have "image_mset fst (mset (map (\<lambda>t. (t, Runnable)) q)) = mset q" for q :: "nat list"
    by (induction q) auto
  ultimately show ?thesis by (simp add: places_def claims_def mset_concat o_def image_sum)
qed

lemma mine_size: "size (mine t C) = count (image_mset fst C) t"
  by (induction C) (auto simp: mine_def)

definition runnable :: "task \<Rightarrow> bool" where
  "runnable k \<longleftrightarrow> tk_state k \<in> {QUEUED, RUNNING, NOTIFIED}"

text \<open>
  C7: A task that is queued, runs or was woken while it ran is in exactly one place: once in the
  queue, with one worker, or with one waker that is about to queue it; a parked or finished
  task is in none. So one worker at a time touches its coroutine, and no task is lost.
\<close>

theorem task_in_one_place:
  assumes "reaches (sd_init c) (sd_step c) s" "t < length (sd_tasks s)"
  shows "count_list (places s) t = (if runnable (sd_tasks s ! t) then 1 else 0)"
proof -
  from scheduled.reached [OF assms(1)] have "one_claim (mine t (claims s)) (sd_tasks s ! t)"
    using assms(2) by (auto simp: sched_inv_def owned_def)
  then have "size (mine t (claims s)) = (if runnable (sd_tasks s ! t) then 1 else 0)"
    by (auto simp: one_claim_def unclaimed_ok_def runnable_def elim!: claim_ok.elims)
  then show ?thesis by (simp add: mine_size count_mset flip: places_claims)
qed

text \<open>
  The scheduler never panics: a worker that resumes a task finds its coroutine, one that
  takes it back finds it too, and a task that cannot park is marked as notified, as the code asserts.
\<close>

theorem scheduler_never_panics:
  assumes "reaches (sd_init c) (sd_step c) s"
  shows "Crashed \<notin> set (sd_workers s)"
  using scheduled.reached [OF assms] by (simp add: sched_inv_def)

text \<open>The states a task may go to in one step.\<close>

fun may_become :: "task_state \<Rightarrow> task_state \<Rightarrow> bool" where
  "may_become QUEUED y \<longleftrightarrow> y \<in> {QUEUED, RUNNING}"
| "may_become RUNNING y \<longleftrightarrow> y \<in> {RUNNING, QUEUED, PARKED, NOTIFIED, DONE}"
| "may_become NOTIFIED y \<longleftrightarrow> y \<in> {NOTIFIED, QUEUED, DONE}"
| "may_become PARKED y \<longleftrightarrow> y \<in> {PARKED, QUEUED}"
| "may_become DONE y \<longleftrightarrow> y = DONE"

lemma may_become_refl [simp]: "may_become x x"
  by (cases x) auto

lemma nth_at: "t < length xs \<Longrightarrow> (xs[u := y]) ! t = (if u = t then y else xs ! t)"
  by auto

lemma claimed_state:
  assumes "sched_inv c s" "wk s i w" "worker_claims w = add_mset (t, p) C"
  shows "claim_ok p (sd_tasks s ! t)"
  using claimed [OF _ assms(2,3)] assms(1) by (simp add: sched_inv_def)

text \<open>
  The state machine of a task: a task goes only from a state to one that may follow it.
  So a task that was woken (it is queued or notified) runs again before it can park, and a finished task
  stays finished.
\<close>

theorem task_transitions:
  assumes "reaches (sd_init c) (sd_step c) s" "sd_step c s s'" "t < length (sd_tasks s)"
  shows "may_become (st s t) (st s' t)"
proof -
  from scheduled.reached [OF assms(1)] have inv: "sched_inv c s" .
  from assms(2) consider "look_step s s'" | "task_step c s s'" | "outcome_step s s'" | "wake_step s s'"
    by (auto simp: sd_step_def)
  then show ?thesis
  proof cases
    case 1
    then show ?thesis by cases (simp_all add: st_def)
  next
    case 2
    then show ?thesis
    proof cases
      case (store_running i u)
      with claimed_state [OF inv store_running(2)] assms(3) show ?thesis by (auto simp: st_def nth_at)
    next
      case (spawn_stack i u stk s0)
      with get_stack_sel [OF spawn_stack(3)] show ?thesis by (simp add: st_def)
    next
      case (spawn_notify i u s0)
      with notify_one_sel [OF spawn_notify(3)] show ?thesis by (simp add: st_def)
    qed (use assms(3) in \<open>auto simp: st_def nth_append\<close>)
  next
    case 3
    then show ?thesis
    proof cases
      case (yielded i u)
      with claimed_state [OF inv yielded(2)] assms(3) show ?thesis by (auto simp: st_def nth_at)
    next
      case (store_done i u)
      with claimed_state [OF inv store_done(2)] assms(3) show ?thesis by (auto simp: st_def nth_at)
    next
      case (notify i s0)
      with notify_one_sel [OF notify(3)] show ?thesis by (simp add: st_def)
    qed (use assms(3) in \<open>auto simp: st_def nth_at\<close>)
  next
    case 4
    then show ?thesis
    proof cases
      case (wake_notify k s0)
      with notify_one_sel [OF wake_notify(3)] show ?thesis by (simp add: st_def)
    qed (use assms(3) in \<open>auto simp: st_def nth_at\<close>)
  qed
qed

lemma wakes_same:
  assumes "look_step s s' \<or> task_step c s s' \<or> outcome_step s s'"
  shows "sd_wakes s' = sd_wakes s"
  using assms
proof (elim disjE)
  assume "look_step s s'"
  then show ?thesis by cases simp_all
next
  assume "task_step c s s'"
  then show ?thesis by cases (auto dest: get_stack_sel notify_one_sel)
next
  assume "outcome_step s s'"
  then show ?thesis by cases (auto dest: notify_one_sel)
qed

text \<open>Where a call of \<open>wake\<close> has still to decide.\<close>

fun undecided :: "nat \<Rightarrow> waker \<Rightarrow> bool" where
  "undecided t (Waking u) \<longleftrightarrow> u = t" | "undecided t (Saw u x) \<longleftrightarrow> u = t" | "undecided t _ \<longleftrightarrow> False"

text \<open>
  C8: No wake-up is lost: when a call of \<open>wake\<close> has done its work, whatever ran in
  between, the task is queued, notified or finished, and never parked.
\<close>

theorem wake_not_lost:
  assumes "reaches (sd_init c) (sd_step c) s" "sd_step c s s'"
    and "wkr s k w" "undecided t w" "wkr s' k w'" "\<not> undecided t w'"
  shows "st s' t \<in> {QUEUED, NOTIFIED, DONE}"
proof -
  have t: "t < length (sd_tasks s)"
    using scheduled.reached [OF assms(1)] wakes_ok_nth [of _ s k w t] assms(3,4)
    by (cases w) (auto simp: sched_inv_def)
  have "sd_wakes s' \<noteq> sd_wakes s" using assms(3-6) by (auto simp: wkr_def)
  with wakes_same [of s s' c] assms(2) have "wake_step s s'" by (auto simp: sd_step_def)
  then show ?thesis
  proof cases
    case (no_need j u)
    with assms(3-6) have "u = t" by (auto simp: wkr_def nth_list_update split: if_splits)
    with no_need show ?thesis by (cases "st s t") (auto simp: st_def)
  next
    case (unpark j u)
    with assms(3-6) have "u = t" by (auto simp: wkr_def nth_list_update split: if_splits)
    with unpark t show ?thesis by (simp add: st_def)
  next
    case (mark j u)
    with assms(3-6) have "u = t" by (auto simp: wkr_def nth_list_update split: if_splits)
    with mark t show ?thesis by (simp add: st_def)
  next
    case (wake_notify j s0)
    with assms(3-6) notify_one_sel [OF wake_notify(3)] show ?thesis
      by (auto simp: wkr_def nth_list_update split: if_splits)
  qed (use assms(3-6) in \<open>auto simp: wkr_def nth_list_update nth_append split: if_splits\<close>)
qed

text \<open>
  C9: Work conservation: while a worker waits, there are no more tasks in the queue than workers
  about to look at it and notifications about to be sent; so with a task in the queue, somebody comes for it.
\<close>

theorem work_conserving:
  assumes "reaches (sd_init c) (sd_step c) s"
  shows "count_if ((=) Asleep) (sd_workers s) = 0 \<or>
    length (sd_queue s) \<le> count_if looking (sd_workers s) + count_if ((=) Wake_Notify) (sd_wakes s)"
  using scheduled.reached [OF assms] by (simp add: sched_inv_def workers_ok_def)

text \<open>
  C10: The workers stop only when every task has finished; then nothing is queued, no worker
  is left waiting but for one that is about to wake them all, and \<open>run\<close> has the result of the first task or a
  panic to raise: its own \<open>expect\<close> never fails.
\<close>

theorem workers_stop_when_done:
  assumes "reaches (sd_init c) (sd_step c) s" "Stopped \<in> set (sd_workers s)"
  shows "list_all (\<lambda>k. tk_state k = DONE) (sd_tasks s) \<and> places s = [] \<and> run_returns s \<noteq> No_Result \<and>
    (0 < count_if ((=) Last) (sd_workers s) \<or> count_if ((=) Asleep) (sd_workers s) = 0)"
proof -
  from scheduled.reached [OF assms(1)] have inv: "sched_inv c s" .
  from assms(2) have "count_if ((=) Stopped) (sd_workers s) \<noteq> 0" by (auto simp: count_if_def filter_empty_conv)
  with inv have live: "sd_live s = 0" by (auto simp: sched_inv_def workers_ok_def)
  with inv have "count_if (\<lambda>k. tk_state k \<noteq> DONE) (sd_tasks s) = 0" by (auto simp: sched_inv_def live_ok_def)
  then have all_done: "list_all (\<lambda>k. tk_state k = DONE) (sd_tasks s)"
    by (auto simp: count_if_def filter_empty_conv list_all_iff)
  have free: "mine t (claims s) = {#}" "t < length (sd_tasks s) \<Longrightarrow> unclaimed_ok (sd_tasks s ! t)" for t
    using inv all_done claim_ok_live
    by (auto simp: sched_inv_def owned_def one_claim_def list_all_length split: if_splits dest!: spec [of _ t])
  have "image_mset fst (claims s) = {#}"
    by (rule multiset_eqI) (use free(1) in \<open>simp flip: mine_size\<close>)
  then have "places s = []" using places_claims [of s] by simp
  moreover have "run_returns s \<noteq> No_Result"
  proof -
    from inv have r: "result_ok s" by (simp add: sched_inv_def)
    with free(2) [of 0] all_done have "tk_co (sd_tasks s ! 0) = None"
      by (auto simp: result_ok_def unclaimed_ok_def list_all_length)
    with r show ?thesis by (auto simp: result_ok_def run_returns_def split: option.split)
  qed
  moreover have "0 < count_if ((=) Last) (sd_workers s) \<or> count_if ((=) Asleep) (sd_workers s) = 0"
  proof -
    have "count_if ((=) Asleep) ws \<le> count_if may_wait ws" for ws by (induction ws) auto
    from this [of "sd_workers s"] inv live show ?thesis by (auto simp: sched_inv_def workers_ok_def)
  qed
  ultimately show ?thesis using all_done by simp
qed

lemma distinct_count: "distinct xs \<longleftrightarrow> (\<forall>a. count (mset xs) a \<le> 1)"
  by (simp add: distinct_count_atmost_1 le_Suc_eq)

text \<open>
  Stacks: no stack is used twice, by two tasks or by a task and the pool, and each is as large
  as a task asks for, if the first task's is.
\<close>

theorem stacks_apart:
  assumes "reaches (sd_init c) (sd_step c) s" "cf_task_stack c \<le> cf_main_stack c"
  shows "distinct (map fst (stacks_used s)) \<and> list_all (\<lambda>stk. cf_task_stack c \<le> snd stk) (stacks_used s)"
proof
  from scheduled.reached [OF assms(1)] have "apart c (mset (stacks_used s))"
    by (simp add: sched_inv_def used_stacks)
  then show "distinct (map fst (stacks_used s))" "list_all (\<lambda>stk. cf_task_stack c \<le> snd stk) (stacks_used s)"
    using assms(2) by (auto simp: apart_def distinct_count list_all_iff)
qed

end
