(* ===== verification/Green_Runs.thy ===== *)
theory Green_Runs
  imports Green_Sched_Props
begin

text \<open>Runs of one task on one worker, at which the properties of the scheduler are applied.\<close>

definition sample_config :: config where
  "sample_config = \<lparr>cf_workers = 1, cf_main_stack = 64, cf_task_stack = 16\<rparr>"

definition sample_task :: "task_state \<Rightarrow> stack option \<Rightarrow> task" where
  "sample_task x co = \<lparr>tk_state = x, tk_co = co\<rparr>"

text \<open>The queue, the lock, the live tasks, the pool, the result, the worker and the wakers.\<close>

definition sample :: "task \<Rightarrow> nat list \<Rightarrow> bool \<Rightarrow> nat \<Rightarrow> stack list \<Rightarrow> bool \<Rightarrow> worker \<Rightarrow> waker list \<Rightarrow> sched" where
  "sample k q b n ss r w ws =
     \<lparr>sd_tasks = [k], sd_queue = q, sd_locked = b, sd_live = n, sd_stacks = ss, sd_panic = None,
      sd_result = r, sd_workers = [w], sd_wakes = ws\<rparr>"

abbreviation reached :: "sched \<Rightarrow> bool" where
  "reached s \<equiv> reaches (sd_init sample_config) (sd_step sample_config) s"

lemmas sample_defs = sample_def sample_task_def wk_def wkr_def set_worker_def set_waker_def set_state_def take_co_def
  st_def push_task_def

lemma looks: "reached s \<Longrightarrow> look_step s s' \<Longrightarrow> reached s'"
  and runs: "reached s \<Longrightarrow> task_step sample_config s s' \<Longrightarrow> reached s'"
  and leaves: "reached s \<Longrightarrow> outcome_step s s' \<Longrightarrow> reached s'"
  and wakes: "reached s \<Longrightarrow> wake_step s s' \<Longrightarrow> reached s'"
  by (auto simp: sd_step_def intro: reaches_step)

abbreviation co :: "stack option" where "co \<equiv> Some (0, 64)"

lemma inside: "reached (sample (sample_task RUNNING co) [] False 1 [] False (Inside 0) [])"
proof -
  have "reached (sample (sample_task QUEUED co) [0] False 1 [] False Idle [])"
    by (rule reaches_init) (simp add: sd_init_def sample_def sample_task_def sample_config_def task_new_def)
  then have "reached (sample (sample_task QUEUED co) [] False 1 [] False (Took 0) [])"
    by (rule looks) (use look_step.pop [of "sample (sample_task QUEUED co) [0] False 1 [] False Idle []" 0 0 "[]"] in
        \<open>simp add: sample_defs\<close>)
  then have "reached (sample (sample_task RUNNING co) [] False 1 [] False (Resuming 0) [])"
    by (rule runs) (use task_step.store_running [of "sample (sample_task QUEUED co) [] False 1 [] False (Took 0) []" 0 0] in
        \<open>simp add: sample_defs\<close>)
  then show ?thesis
    by (rule runs) (use task_step.resume [of "sample (sample_task RUNNING co) [] False 1 [] False (Resuming 0) []" 0 0] in
        \<open>simp add: sample_defs\<close>)
qed

text \<open>A wake-up that comes while the task runs.\<close>

lemma saw: "reached (sample (sample_task RUNNING co) [] False 1 [] False (Inside 0) [Saw 0 RUNNING])"
proof -
  from inside have "reached (sample (sample_task RUNNING co) [] False 1 [] False (Inside 0) [Waking 0])"
    by (rule wakes) (use wake_step.call [of 0 "sample (sample_task RUNNING co) [] False 1 [] False (Inside 0) []"] in
        \<open>simp add: sample_defs\<close>)
  then show ?thesis
    by (rule wakes) (use wake_step.load [of "sample (sample_task RUNNING co) [] False 1 [] False (Inside 0) [Waking 0]" 0 0] in
        \<open>simp add: sample_defs\<close>)
qed

lemma marks: "sd_step sample_config (sample (sample_task RUNNING co) [] False 1 [] False (Inside 0) [Saw 0 RUNNING])
    (sample (sample_task NOTIFIED co) [] False 1 [] False (Inside 0) [Woke])"
  using wake_step.mark [of "sample (sample_task RUNNING co) [] False 1 [] False (Inside 0) [Saw 0 RUNNING]" 0 0]
  by (simp add: sample_defs sd_step_def)

text \<open>The task returns, and its worker stops.\<close>

lemma stopped: "reached (sample (sample_task DONE None) [] False 0 [(0, 64)] True Stopped [])"
proof -
  from inside have "reached (sample (sample_task RUNNING co) [] False 1 [] True (Returned 0) [])"
    by (rule runs) (use task_step.return [of "sample (sample_task RUNNING co) [] False 1 [] False (Inside 0) []" 0 0] in
        \<open>simp add: sample_defs\<close>)
  then have "reached (sample (sample_task RUNNING None) [] False 1 [(0, 64)] True (Finishing 0) [])"
    by (rule leaves) (use outcome_step.keep_stack [of "sample (sample_task RUNNING co) [] False 1 [] True (Returned 0) []" 0 0] in
        \<open>simp add: sample_defs\<close>)
  then have "reached (sample (sample_task DONE None) [] False 1 [(0, 64)] True Counting [])"
    by (rule leaves) (use outcome_step.store_done [of "sample (sample_task RUNNING None) [] False 1 [(0, 64)] True (Finishing 0) []" 0 0] in
        \<open>simp add: sample_defs\<close>)
  then have "reached (sample (sample_task DONE None) [] False 0 [(0, 64)] True Last [])"
    by (rule leaves) (use outcome_step.count_last [of "sample (sample_task DONE None) [] False 1 [(0, 64)] True Counting []" 0] in
        \<open>simp add: sample_defs\<close>)
  then have "reached (sample (sample_task DONE None) [] False 0 [(0, 64)] True Idle [])"
    by (rule leaves) (use outcome_step.notify_all [of "sample (sample_task DONE None) [] False 0 [(0, 64)] True Last []" 0] in
        \<open>simp add: sample_defs woken_up_def\<close>)
  then have "reached (sample (sample_task DONE None) [] True 0 [(0, 64)] True Empty_Seen [])"
    by (rule looks) (use look_step.empty [of "sample (sample_task DONE None) [] False 0 [(0, 64)] True Idle []" 0] in
        \<open>simp add: sample_defs\<close>)
  then show ?thesis
    by (rule looks) (use look_step.stop [of "sample (sample_task DONE None) [] True 0 [(0, 64)] True Empty_Seen []" 0] in
        \<open>simp add: sample_defs\<close>)
qed

subsection \<open>The witnesses\<close>

lemma task_in_one_place_witness:
  "count_list (places (sample (sample_task RUNNING co) [] False 1 [] False (Inside 0) [])) 0 = 1"
  using task_in_one_place [OF inside, of 0] by (simp add: sample_def sample_task_def runnable_def)

lemma scheduler_never_panics_witness:
  "Crashed \<notin> set (sd_workers (sample (sample_task DONE None) [] False 0 [(0, 64)] True Stopped []))"
  by (rule scheduler_never_panics [OF stopped])

lemma task_transitions_witness: "may_become RUNNING NOTIFIED"
  using task_transitions [OF saw marks, of 0] by (simp add: sample_def sample_task_def st_def)

lemma wake_not_lost_witness:
  "st (sample (sample_task NOTIFIED co) [] False 1 [] False (Inside 0) [Woke]) 0 \<in> {QUEUED, NOTIFIED, DONE}"
  by (rule wake_not_lost [OF saw marks, of 0 "Saw 0 RUNNING" 0 Woke]) (simp_all add: sample_def wkr_def)

lemma work_conserving_witness:
  "let s = sample (sample_task RUNNING co) [] False 1 [] False (Inside 0) []
   in count_if ((=) Asleep) (sd_workers s) = 0 \<or>
     length (sd_queue s) \<le> count_if looking (sd_workers s) + count_if ((=) Wake_Notify) (sd_wakes s)"
  unfolding Let_def by (rule work_conserving [OF inside])

lemma workers_stop_when_done_witness:
  "run_returns (sample (sample_task DONE None) [] False 0 [(0, 64)] True Stopped []) \<noteq> No_Result"
  using workers_stop_when_done [OF stopped] by (simp add: sample_def)

lemma stacks_apart_witness:
  "distinct (map fst (stacks_used (sample (sample_task RUNNING co) [] False 1 [] False (Inside 0) [])))"
  using stacks_apart [OF inside] by (simp add: sample_config_def)

end
