(* ===== verification/Green_Sync.thy ===== *)
theory Green_Sync
  imports Steps
begin

text \<open>
  The lock and the condition variable of green tasks (grenat\_green: src/sync.rs), with any number
  of tasks (or threads, \<open>Waiter\<close> is either). A task's wake-up is a token: \<open>wake\<close> leaves
  it, \<open>park\<close> takes it and returns, or returns without one (spuriously); it is what the scheduler
  keeps as NOTIFIED. A step is one critical section of a state, or a \<open>park\<close>.
\<close>

text \<open>Where a task is: outside, in \<open>lock\<close>, holding the guard, or in \<open>Condvar::wait\<close>.\<close>

datatype sync_pc =
    Out | Locking | Waiting nat | Woken nat | Holds
  | Cv_Unlock nat | Cv_Park nat | Cv_Woken nat

type_synonym waiters = "(nat \<times> nat) list"

record lock_state =
  ls_locked :: bool
  ls_waiters :: waiters
  ls_next :: nat

definition lock_new :: lock_state where
  "lock_new = \<lparr>ls_locked = False, ls_waiters = [], ls_next = 0\<rparr>"

record sync =
  sy_lock :: lock_state
  sy_cv :: waiters
  sy_cv_last :: nat
  sy_pc :: "nat \<Rightarrow> sync_pc"
  sy_token :: "nat \<Rightarrow> bool"
  sy_wakes :: "nat list"

definition retain :: "nat \<Rightarrow> waiters \<Rightarrow> waiters" where
  "retain k ws = filter (\<lambda>w. fst w \<noteq> k) ws"

text \<open>\<open>lock\<close>, one pass of its loop: the lock, or a place among the waiters.\<close>

definition try_lock :: "nat \<Rightarrow> lock_state \<Rightarrow> sync_pc \<times> lock_state" where
  "try_lock p l =
     (if \<not> ls_locked l then (Holds, l\<lparr>ls_locked := True\<rparr>)
      else (Waiting (ls_next l),
        l\<lparr>ls_next := ls_next l + 1, ls_waiters := ls_waiters l @ [(ls_next l, p)]\<rparr>))"

text \<open>\<open>unlock\<close>: the task it wakes, if one waits.\<close>

definition unlock :: "lock_state \<Rightarrow> nat list \<times> lock_state" where
  "unlock l = (case ls_waiters l of
     [] \<Rightarrow> ([], l\<lparr>ls_locked := False\<rparr>)
   | (k, p) # ws \<Rightarrow> ([p], l\<lparr>ls_locked := False, ls_waiters := ws\<rparr>))"

definition at :: "nat \<Rightarrow> sync_pc \<Rightarrow> sync \<Rightarrow> sync" where
  "at p pc s = s\<lparr>sy_pc := (sy_pc s)(p := pc)\<rparr>"

definition drop_guard :: "nat \<Rightarrow> sync_pc \<Rightarrow> sync \<Rightarrow> sync" where
  "drop_guard p pc s = (case unlock (sy_lock s) of (ws, l) \<Rightarrow> at p pc (s\<lparr>sy_lock := l, sy_wakes := sy_wakes s @ ws\<rparr>))"

inductive sync_step :: "sync \<Rightarrow> sync \<Rightarrow> bool" where
  call_lock: "sy_pc s p = Out \<Longrightarrow> sync_step s (at p Locking s)"
| locking: "sy_pc s p = Locking \<Longrightarrow> try_lock p (sy_lock s) = (pc, l) \<Longrightarrow> sync_step s (at p pc (s\<lparr>sy_lock := l\<rparr>))"
| park_returns: "sy_pc s p = Waiting k \<Longrightarrow> sync_step s (at p (Woken k) (s\<lparr>sy_token := (sy_token s)(p := False)\<rparr>))"
| forget: "sy_pc s p = Woken k \<Longrightarrow>
    sync_step s (at p Locking (s\<lparr>sy_lock := (sy_lock s)\<lparr>ls_waiters := retain k (ls_waiters (sy_lock s))\<rparr>\<rparr>))"
| release: "sy_pc s p = Holds \<Longrightarrow> sync_step s (drop_guard p Out s)"
| cv_wait: "sy_pc s p = Holds \<Longrightarrow>
    sync_step s (at p (Cv_Unlock (sy_cv_last s + 1))
      (s\<lparr>sy_cv_last := sy_cv_last s + 1, sy_cv := sy_cv s @ [(sy_cv_last s + 1, p)]\<rparr>))"
| cv_unlock: "sy_pc s p = Cv_Unlock k \<Longrightarrow> sync_step s (drop_guard p (Cv_Park k) s)"
| cv_park_returns: "sy_pc s p = Cv_Park k \<Longrightarrow>
    sync_step s (at p (Cv_Woken k) (s\<lparr>sy_token := (sy_token s)(p := False)\<rparr>))"
| cv_forget: "sy_pc s p = Cv_Woken k \<Longrightarrow> sync_step s (at p Locking (s\<lparr>sy_cv := retain k (sy_cv s)\<rparr>))"
| notify_all: "sync_step s (s\<lparr>sy_cv := [], sy_wakes := sy_wakes s @ map snd (sy_cv s)\<rparr>)"
| wake: "p \<in> set (sy_wakes s) \<Longrightarrow>
    sync_step s (s\<lparr>sy_wakes := remove1 p (sy_wakes s), sy_token := (sy_token s)(p := True)\<rparr>)"
| other_park: "sy_pc s p = Out \<or> sy_pc s p = Holds \<Longrightarrow> sync_step s (s\<lparr>sy_token := (sy_token s)(p := False)\<rparr>)"

definition sync_init :: "sync \<Rightarrow> bool" where
  "sync_init s \<longleftrightarrow> sy_lock s = lock_new \<and> sy_cv s = [] \<and> sy_pc s = (\<lambda>_. Out) \<and> sy_wakes s = []"

subsection \<open>The invariant\<close>

text \<open>The tasks with the guard: the holder, and one that is about to drop it to wait for the condition.\<close>

fun has_guard :: "sync_pc \<Rightarrow> bool" where
  "has_guard Holds = True" | "has_guard (Cv_Unlock _) = True" | "has_guard _ = False"

fun attempt :: "sync_pc \<Rightarrow> nat option" where
  "attempt (Waiting k) = Some k" | "attempt (Woken k) = Some k" | "attempt _ = None"

text \<open>On its way to try the lock: in the loop, or no longer among the waiters.\<close>

fun coming :: "waiters \<Rightarrow> nat \<Rightarrow> sync_pc \<Rightarrow> bool" where
  "coming ws p Locking = True" | "coming ws p (Woken _) = True"
| "coming ws p (Waiting k) \<longleftrightarrow> (k, p) \<notin> set ws" | "coming ws p _ = False"

fun cv_ticket :: "sync_pc \<Rightarrow> nat option" where
  "cv_ticket (Cv_Unlock k) = Some k" | "cv_ticket (Cv_Park k) = Some k" | "cv_ticket _ = None"

fun cv_attempt :: "sync_pc \<Rightarrow> nat option" where
  "cv_attempt (Cv_Woken k) = Some k" | "cv_attempt pc = cv_ticket pc"

definition woken :: "sync \<Rightarrow> nat \<Rightarrow> bool" where
  "woken s p \<longleftrightarrow> sy_token s p \<or> p \<in> set (sy_wakes s)"

definition guards :: "sync \<Rightarrow> nat set" where
  "guards s = {p. has_guard (sy_pc s p)}"

definition guard_ok :: "sync \<Rightarrow> bool" where
  "guard_ok s \<longleftrightarrow> (if ls_locked (sy_lock s) then \<exists>p. guards s = {p} else guards s = {})"

definition waiters_ok :: "sync \<Rightarrow> bool" where
  "waiters_ok s \<longleftrightarrow> sorted_wrt (<) (map fst (ls_waiters (sy_lock s))) \<and>
     (\<forall>k p. (k, p) \<in> set (ls_waiters (sy_lock s)) \<longrightarrow> attempt (sy_pc s p) = Some k) \<and>
     (\<forall>p k. attempt (sy_pc s p) = Some k \<longrightarrow> k < ls_next (sy_lock s)) \<and>
     (\<forall>p k. sy_pc s p = Waiting k \<longrightarrow> (k, p) \<in> set (ls_waiters (sy_lock s)) \<or> woken s p) \<and>
     (\<forall>p q k. attempt (sy_pc s p) = Some k \<longrightarrow> attempt (sy_pc s q) = Some k \<longrightarrow> p = q)"

definition coming_ok :: "sync \<Rightarrow> bool" where
  "coming_ok s \<longleftrightarrow> ls_locked (sy_lock s) \<or> ls_waiters (sy_lock s) = [] \<or>
     (\<exists>p. coming (ls_waiters (sy_lock s)) p (sy_pc s p))"

definition cv_ok :: "sync \<Rightarrow> bool" where
  "cv_ok s \<longleftrightarrow> (\<forall>p k. cv_ticket (sy_pc s p) = Some k \<longrightarrow> (k, p) \<in> set (sy_cv s) \<or> woken s p) \<and>
     (\<forall>p k. cv_attempt (sy_pc s p) = Some k \<longrightarrow> k \<le> sy_cv_last s) \<and>
     (\<forall>p q k. cv_attempt (sy_pc s p) = Some k \<longrightarrow> cv_attempt (sy_pc s q) = Some k \<longrightarrow> p = q)"

lemmas sync_defs = at_def drop_guard_def unlock_def try_lock_def retain_def woken_def

lemma guards_at [simp]:
  "guards (at p pc s) = (if has_guard pc then insert p (guards s) else guards s - {p})"
  by (auto simp: guards_def at_def)

lemma guards_frame [simp]:
  "guards (s\<lparr>sy_lock := l\<rparr>) = guards s" "guards (s\<lparr>sy_token := t\<rparr>) = guards s"
  "guards (s\<lparr>sy_cv := c\<rparr>) = guards s" "guards (s\<lparr>sy_cv_last := n\<rparr>) = guards s" "guards (s\<lparr>sy_wakes := ws\<rparr>) = guards s"
  by (simp_all add: guards_def)

lemma at_sel [simp]:
  "sy_lock (at p pc s) = sy_lock s" "sy_cv (at p pc s) = sy_cv s" "sy_cv_last (at p pc s) = sy_cv_last s"
  "sy_token (at p pc s) = sy_token s" "sy_wakes (at p pc s) = sy_wakes s" "sy_pc (at p pc s) = (sy_pc s)(p := pc)"
  by (simp_all add: at_def)

lemma guards_pc: "p \<in> guards s \<longleftrightarrow> has_guard (sy_pc s p)"
  by (simp add: guards_def)

lemma guard_keep:
  assumes "guard_ok s" "guards s0 = guards s" "ls_locked (sy_lock s0) = ls_locked (sy_lock s)"
    and "has_guard pc = has_guard (sy_pc s p)"
  shows "guard_ok (at p pc s0)"
proof -
  have "guards (at p pc s0) = guards s" using assms(2,4) by (auto simp: guards_pc insert_absorb)
  with assms(1,3) show ?thesis by (simp add: guard_ok_def)
qed

lemma unlock_sel:
  assumes "unlock l = (ws, l')"
  shows "\<not> ls_locked l' \<and> ls_next l' = ls_next l \<and> ls_waiters l' = tl (ls_waiters l) \<and> ws = map snd (take 1 (ls_waiters l))"
  using assms by (auto simp: unlock_def split: list.splits)

lemma drop_guard_sel:
  "sy_lock (drop_guard p pc s) = snd (unlock (sy_lock s))" "sy_cv (drop_guard p pc s) = sy_cv s"
  "sy_cv_last (drop_guard p pc s) = sy_cv_last s" "sy_token (drop_guard p pc s) = sy_token s"
  "sy_pc (drop_guard p pc s) = (sy_pc s)(p := pc)"
  "sy_wakes (drop_guard p pc s) = sy_wakes s @ fst (unlock (sy_lock s))"
  by (simp_all add: drop_guard_def split: prod.split)

lemma guard_drop:
  assumes "guard_ok s" "has_guard (sy_pc s p)" "\<not> has_guard pc"
  shows "guard_ok (drop_guard p pc s)"
proof -
  from assms(1,2) have "guards s = {p}" by (auto simp: guard_ok_def guards_pc [symmetric] split: if_splits)
  with assms(3) have "guards (drop_guard p pc s) = {}"
    by (auto simp: guards_def drop_guard_sel set_eq_iff split: if_splits)
  then show ?thesis using unlock_sel [of "sy_lock s"] by (simp add: guard_ok_def drop_guard_sel prod_eq_iff)
qed

lemma guard_step:
  assumes "guard_ok s" "sync_step s s'"
  shows "guard_ok s'"
  using assms(2)
proof cases
  case (locking p pc l)
  show ?thesis
  proof (cases "ls_locked (sy_lock s)")
    case True
    with locking show ?thesis by (auto simp: try_lock_def intro!: guard_keep [OF assms(1)])
  next
    case False
    with locking assms(1) show ?thesis by (auto simp: try_lock_def guard_ok_def)
  qed
next
  case (release p)
  with assms(1) show ?thesis by (simp add: guard_drop)
next
  case (cv_unlock p k)
  with assms(1) show ?thesis by (simp add: guard_drop)
next
  case notify_all
  with assms(1) show ?thesis by (simp add: guard_ok_def)
next
  case (wake p)
  with assms(1) show ?thesis by (simp add: guard_ok_def)
next
  case (other_park p)
  with assms(1) show ?thesis by (simp add: guard_ok_def)
qed (simp_all add: guard_keep [OF assms(1)])

lemma waiters_okD:
  assumes "waiters_ok s"
  shows "sorted_wrt (<) (map fst (ls_waiters (sy_lock s)))"
    and "(k, p) \<in> set (ls_waiters (sy_lock s)) \<Longrightarrow> attempt (sy_pc s p) = Some k"
    and "attempt (sy_pc s p) = Some k \<Longrightarrow> k < ls_next (sy_lock s)"
    and "sy_pc s p = Waiting k \<Longrightarrow> (k, p) \<in> set (ls_waiters (sy_lock s)) \<or> woken s p"
    and "attempt (sy_pc s p) = Some k \<Longrightarrow> attempt (sy_pc s q) = Some k \<Longrightarrow> p = q"
  using assms unfolding waiters_ok_def by blast+

text \<open>A step that keeps the waiters, of a task that has no ticket before and after.\<close>

lemma waiters_keep:
  assumes "waiters_ok s" "ls_waiters (sy_lock s0) = ls_waiters (sy_lock s)" "ls_next (sy_lock s0) = ls_next (sy_lock s)"
    and "sy_pc s0 = sy_pc s" "\<And>q. q \<noteq> p \<Longrightarrow> woken s q \<Longrightarrow> woken s0 q"
    and "attempt pc = attempt (sy_pc s p)" "\<And>k. pc \<noteq> Waiting k"
  shows "waiters_ok (at p pc s0)"
  unfolding waiters_ok_def
proof (intro conjI allI impI)
  show "sorted_wrt (<) (map fst (ls_waiters (sy_lock (at p pc s0))))" using waiters_okD(1) [OF assms(1)] assms(2) by simp
  show "attempt (sy_pc (at p pc s0) q) = Some k" if "(k, q) \<in> set (ls_waiters (sy_lock (at p pc s0)))" for k q
    using waiters_okD(2) [OF assms(1), of k q] that assms(2,4,6) by auto
  show "k < ls_next (sy_lock (at p pc s0))" if "attempt (sy_pc (at p pc s0) q) = Some k" for k q
    using waiters_okD(3) [OF assms(1), of q k] that assms(3,4,6) by (auto split: if_splits)
  show "(k, q) \<in> set (ls_waiters (sy_lock (at p pc s0))) \<or> woken (at p pc s0) q" if "sy_pc (at p pc s0) q = Waiting k" for k q
    using waiters_okD(4) [OF assms(1), of q k] that assms(2,4,5,7) by (auto simp: woken_def split: if_splits)
  show "q = u" if "attempt (sy_pc (at p pc s0) q) = Some k" "attempt (sy_pc (at p pc s0) u) = Some k" for q u k
    using waiters_okD(5) [OF assms(1), of q k u] that assms(4,6) by (auto split: if_splits)
qed

lemma waiters_enqueue:
  assumes "waiters_ok s" "attempt (sy_pc s p) = None"
  shows "waiters_ok (at p (Waiting (ls_next (sy_lock s))) (s\<lparr>sy_lock := (sy_lock s)
    \<lparr>ls_next := ls_next (sy_lock s) + 1, ls_waiters := ls_waiters (sy_lock s) @ [(ls_next (sy_lock s), p)]\<rparr>\<rparr>))"
  unfolding waiters_ok_def
proof (intro conjI allI impI)
  have less: "k < ls_next (sy_lock s)" if "(k, q) \<in> set (ls_waiters (sy_lock s))" for k q
    using waiters_okD(2,3) [OF assms(1)] that by blast
  then show "sorted_wrt (<) (map fst (ls_waiters (sy_lock (at p (Waiting (ls_next (sy_lock s))) (s\<lparr>sy_lock := (sy_lock s)
    \<lparr>ls_next := ls_next (sy_lock s) + 1, ls_waiters := ls_waiters (sy_lock s) @ [(ls_next (sy_lock s), p)]\<rparr>\<rparr>)))))"
    using waiters_okD(1) [OF assms(1)] by (auto simp: sorted_wrt_append)
qed (use waiters_okD [OF assms(1)] assms(2) in \<open>auto simp: woken_def less_SucI split: if_splits\<close>)

lemma waiters_drop:
  assumes "waiters_ok s" "attempt (sy_pc s p) = None" "attempt pc = None"
  shows "waiters_ok (drop_guard p pc s)"
proof (cases "ls_waiters (sy_lock s)")
  case Nil
  have "waiters_ok (at p pc (s\<lparr>sy_lock := (sy_lock s)\<lparr>ls_locked := False\<rparr>\<rparr>))"
    using assms by (intro waiters_keep [OF assms(1)]) (auto simp: woken_def)
  with Nil show ?thesis by (simp add: drop_guard_def unlock_def)
next
  case (Cons w ws)
  obtain k q where w: "w = (k, q)" by (cases w)
  from waiters_okD(1) [OF assms(1)] Cons w have less: "k < j" if "(j, r) \<in> set ws" for j r using that by auto
  show ?thesis
    unfolding waiters_ok_def
  proof (intro conjI allI impI)
    show "sorted_wrt (<) (map fst (ls_waiters (sy_lock (drop_guard p pc s))))"
      using waiters_okD(1) [OF assms(1)] Cons by (simp add: drop_guard_def unlock_def w)
    show "attempt (sy_pc (drop_guard p pc s) r) = Some j" if "(j, r) \<in> set (ls_waiters (sy_lock (drop_guard p pc s)))" for j r
      using waiters_okD(2) [OF assms(1), of j r] that assms(2) Cons by (auto simp: drop_guard_def unlock_def w)
    show "j < ls_next (sy_lock (drop_guard p pc s))" if "attempt (sy_pc (drop_guard p pc s) r) = Some j" for j r
      using waiters_okD(3) [OF assms(1), of r j] that assms(3) Cons by (auto simp: drop_guard_def unlock_def w split: if_splits)
    show "(j, r) \<in> set (ls_waiters (sy_lock (drop_guard p pc s))) \<or> woken (drop_guard p pc s) r"
      if "sy_pc (drop_guard p pc s) r = Waiting j" for j r
      using waiters_okD(4) [OF assms(1), of r j] that assms(3) Cons
      by (auto simp: drop_guard_def unlock_def woken_def w split: if_splits)
    show "r = u" if "attempt (sy_pc (drop_guard p pc s) r) = Some j" "attempt (sy_pc (drop_guard p pc s) u) = Some j" for r u j
      using waiters_okD(5) [OF assms(1), of r j u] that assms(3) Cons
      by (auto simp: drop_guard_def unlock_def w split: if_splits)
  qed
qed

lemma waiters_forget:
  assumes "waiters_ok s" "sy_pc s p = Woken k"
  shows "waiters_ok (at p Locking (s\<lparr>sy_lock := (sy_lock s)\<lparr>ls_waiters := retain k (ls_waiters (sy_lock s))\<rparr>\<rparr>))"
proof -
  let ?ws = "ls_waiters (sy_lock s)"
  have mine: "q = p" if "attempt (sy_pc s q) = Some k" for q
    using waiters_okD(5) [OF assms(1), of q k p] that assms(2) by simp
  have other: "j = k" if "(j, p) \<in> set ?ws" for j
    using waiters_okD(2) [OF assms(1) that] assms(2) by simp
  have "sorted_wrt (<) (map fst (retain k ?ws))"
    using waiters_okD(1) [OF assms(1)] by (auto simp: retain_def sorted_wrt_map intro: sorted_wrt_filter)
  moreover have "(j, q) \<in> set (retain k ?ws) \<or> woken s q" if "sy_pc s q = Waiting j" "q \<noteq> p" for j q
    using waiters_okD(4) [OF assms(1) that(1)] mine [of q] that by (auto simp: retain_def)
  ultimately show ?thesis
    unfolding waiters_ok_def using waiters_okD(2,3,5) [OF assms(1)] other
    by (auto simp: retain_def woken_def split: if_splits)
qed

lemma waiters_step:
  assumes "waiters_ok s" "sync_step s s'"
  shows "waiters_ok s'"
  using assms(2)
proof cases
  case (locking p pc l)
  show ?thesis
  proof (cases "ls_locked (sy_lock s)")
    case True
    with locking waiters_enqueue [OF assms(1), of p] show ?thesis by (auto simp: try_lock_def)
  next
    case False
    with locking show ?thesis by (auto simp: try_lock_def woken_def intro!: waiters_keep [OF assms(1)])
  qed
next
  case (forget p k)
  with waiters_forget [OF assms(1)] show ?thesis by simp
next
  case (release p)
  with assms(1) show ?thesis by (simp add: waiters_drop)
next
  case (cv_unlock p k)
  with assms(1) show ?thesis by (simp add: waiters_drop)
next
  case (wake p)
  then show ?thesis using waiters_okD [OF assms(1)] by (auto simp: waiters_ok_def woken_def in_set_remove1)
next
  case (other_park p)
  then show ?thesis using waiters_okD [OF assms(1)] by (fastforce simp: waiters_ok_def woken_def)
next
  case notify_all
  then show ?thesis using waiters_okD [OF assms(1)] by (fastforce simp: waiters_ok_def woken_def)
qed (auto simp: woken_def intro!: waiters_keep [OF assms(1)])

lemma coming_keep:
  assumes "coming_ok s" "ls_waiters (sy_lock s0) = ls_waiters (sy_lock s)" "ls_locked (sy_lock s0) = ls_locked (sy_lock s)"
    and "sy_pc s0 = sy_pc s" "coming (ls_waiters (sy_lock s)) p (sy_pc s p) \<Longrightarrow> coming (ls_waiters (sy_lock s)) p pc"
  shows "coming_ok (at p pc s0)"
  using assms unfolding coming_ok_def by (metis at_sel(1,6) fun_upd_apply)

lemma coming_here: "coming (ls_waiters (sy_lock s)) p pc \<Longrightarrow> coming_ok (at p pc s)"
  by (auto simp: coming_ok_def intro: exI [of _ p])

lemma coming_drop:
  assumes "waiters_ok s" "attempt (sy_pc s p) = None"
  shows "coming_ok (drop_guard p pc s)"
proof (cases "ls_waiters (sy_lock s)")
  case Nil
  then show ?thesis by (simp add: coming_ok_def drop_guard_def unlock_def)
next
  case (Cons w ws)
  obtain k q where w: "w = (k, q)" by (cases w)
  from waiters_okD(1) [OF assms(1)] Cons w have "(k, q) \<notin> set ws" by force
  moreover from waiters_okD(2) [OF assms(1), of k q] Cons w have q: "attempt (sy_pc s q) = Some k" by simp
  ultimately have "coming ws q (sy_pc s q)" by (cases "sy_pc s q") auto
  with q assms(2) Cons w show ?thesis
    by (auto simp: coming_ok_def drop_guard_def unlock_def intro!: exI [of _ q])
qed

lemma coming_step:
  assumes "coming_ok s" "sync_step s s'" "waiters_ok s"
  shows "coming_ok s'"
  using assms(2)
proof cases
  case (locking p pc l)
  then show ?thesis by (cases "ls_locked (sy_lock s)") (auto simp: try_lock_def coming_ok_def)
next
  case (release p)
  with assms(3) show ?thesis by (simp add: coming_drop)
next
  case (cv_unlock p k)
  with assms(3) show ?thesis by (simp add: coming_drop)
next
  case notify_all
  with assms(1) show ?thesis by (simp add: coming_ok_def)
next
  case (wake p)
  with assms(1) show ?thesis by (simp add: coming_ok_def)
next
  case (other_park p)
  with assms(1) show ?thesis by (simp add: coming_ok_def)
qed (auto intro: coming_here coming_keep [OF assms(1)])

lemma cv_okD:
  assumes "cv_ok s"
  shows "cv_ticket (sy_pc s p) = Some k \<Longrightarrow> (k, p) \<in> set (sy_cv s) \<or> woken s p"
    and "cv_attempt (sy_pc s p) = Some k \<Longrightarrow> k \<le> sy_cv_last s"
    and "cv_attempt (sy_pc s p) = Some k \<Longrightarrow> cv_attempt (sy_pc s q) = Some k \<Longrightarrow> p = q"
  using assms unfolding cv_ok_def by blast+

lemma cv_ticket_attempt: "cv_ticket pc = Some k \<Longrightarrow> cv_attempt pc = Some k"
  by (cases pc) auto

lemma cv_keep:
  assumes "cv_ok s" "sy_pc s0 = sy_pc s" "sy_cv_last s0 = sy_cv_last s"
    and "cv_attempt pc = None \<or> cv_attempt pc = cv_attempt (sy_pc s p)"
    and "\<And>q k. q \<noteq> p \<or> cv_ticket pc = Some k \<Longrightarrow> cv_ticket (sy_pc s q) = Some k \<Longrightarrow> (k, q) \<in> set (sy_cv s) \<or> woken s q \<Longrightarrow>
      (k, q) \<in> set (sy_cv s0) \<or> woken s0 q"
    and "\<And>k. cv_ticket pc = Some k \<Longrightarrow> cv_ticket (sy_pc s p) = Some k"
  shows "cv_ok (at p pc s0)"
  unfolding cv_ok_def
proof (intro conjI allI impI)
  show "(k, q) \<in> set (sy_cv (at p pc s0)) \<or> woken (at p pc s0) q" if "cv_ticket (sy_pc (at p pc s0) q) = Some k" for q k
    using cv_okD(1) [OF assms(1), of q k] that assms(2,5,6) by (auto simp: woken_def split: if_splits)
  show "k \<le> sy_cv_last (at p pc s0)" if "cv_attempt (sy_pc (at p pc s0) q) = Some k" for q k
    using cv_okD(2) [OF assms(1), of q k] that assms(2-4) by (auto split: if_splits)
  show "q = u" if "cv_attempt (sy_pc (at p pc s0) q) = Some k" "cv_attempt (sy_pc (at p pc s0) u) = Some k" for q u k
    using cv_okD(3) [OF assms(1), of q k u] that assms(2,4) by (auto split: if_splits)
qed

lemma cv_same:
  assumes "cv_ok s" "sy_pc s0 = sy_pc s" "sy_cv_last s0 = sy_cv_last s"
    and "\<And>q k. cv_ticket (sy_pc s q) = Some k \<Longrightarrow> (k, q) \<in> set (sy_cv s) \<or> woken s q \<Longrightarrow> (k, q) \<in> set (sy_cv s0) \<or> woken s0 q"
  shows "cv_ok s0"
  using cv_okD [OF assms(1)] assms(2-4) unfolding cv_ok_def by metis

lemma cv_step:
  assumes "cv_ok s" "sync_step s s'"
  shows "cv_ok s'"
  using assms(2)
proof cases
  case (locking p pc l)
  then have "cv_attempt pc = None" "cv_ticket pc = None" by (auto simp: try_lock_def split: if_splits)
  with locking show ?thesis by (auto simp: woken_def intro!: cv_keep [OF assms(1)])
next
  case (cv_wait p)
  have "j < sy_cv_last s + 1" if "cv_attempt (sy_pc s q) = Some j" for q j
    using cv_okD(2) [OF assms(1) that] by simp
  then have fresh: "cv_attempt (sy_pc s q) \<noteq> Some (sy_cv_last s + 1)" for q by blast
  show ?thesis
    unfolding cv_ok_def cv_wait
    using cv_okD [OF assms(1)] fresh by (auto simp: woken_def le_SucI split: if_splits)
next
  case (release p)
  from release(2) show ?thesis
    unfolding release(1) drop_guard_def split_def by (auto simp: woken_def intro!: cv_keep [OF assms(1)])
next
  case (cv_unlock p k)
  from cv_unlock(2) show ?thesis
    unfolding cv_unlock(1) drop_guard_def split_def by (auto simp: woken_def intro!: cv_keep [OF assms(1)])
next
  case (cv_forget p k)
  have "j \<noteq> k" if "cv_ticket (sy_pc s q) = Some j" "q \<noteq> p" for q j
    using cv_okD(3) [OF assms(1) cv_ticket_attempt [OF that(1)], of p] that(2) cv_forget(2) by auto
  then have kept: "(j, q) \<in> set (retain k (sy_cv s)) \<or> woken s q"
    if "q \<noteq> p" "cv_ticket (sy_pc s q) = Some j" for q j
    using cv_okD(1) [OF assms(1) that(2)] that by (auto simp: retain_def)
  show ?thesis
    unfolding cv_forget(1) by (rule cv_keep [OF assms(1)]) (use kept in \<open>simp_all add: woken_def\<close>)
next
  case notify_all
  show ?thesis
    unfolding notify_all by (rule cv_same [OF assms(1)]) (auto simp: woken_def rev_image_eqI)
next
  case (wake p)
  show ?thesis
    unfolding wake(1) by (rule cv_same [OF assms(1)]) (auto simp: woken_def in_set_remove1)
next
  case (other_park p)
  show ?thesis
    unfolding other_park(1) by (rule cv_same [OF assms(1)]) (use other_park(2) in \<open>auto simp: woken_def\<close>)
qed (auto simp: woken_def intro!: cv_keep [OF assms(1)])

definition sync_inv :: "sync \<Rightarrow> bool" where
  "sync_inv s \<longleftrightarrow> guard_ok s \<and> waiters_ok s \<and> coming_ok s \<and> cv_ok s"

interpretation synced: inductive_invariant sync_init sync_step sync_inv
proof
  show "sync_init s \<Longrightarrow> sync_inv s" for s
    by (auto simp: sync_init_def sync_inv_def guard_ok_def guards_def waiters_ok_def coming_ok_def cv_ok_def lock_new_def)
  show "sync_inv s \<Longrightarrow> sync_step s s' \<Longrightarrow> sync_inv s'" for s s'
    unfolding sync_inv_def using guard_step waiters_step coming_step cv_step by blast
qed

subsection \<open>The properties\<close>

text \<open>
  C20: Mutual exclusion: at most one task holds the guard of a lock at a time, and the lock is
  marked as locked exactly while one does.
\<close>

theorem mutual_exclusion:
  assumes "reaches sync_init sync_step s" "has_guard (sy_pc s p)"
  shows "ls_locked (sy_lock s) \<and> (has_guard (sy_pc s q) \<longrightarrow> q = p)"
  using synced.reached [OF assms(1)] assms(2)
  by (auto simp: sync_inv_def guard_ok_def set_eq_iff guards_pc split: if_splits)

text \<open>
  C21: No task is left behind by a lock: one that waits is among the waiters or has been woken, and
  while the lock is free and tasks wait, one of them is on its way to take it.
\<close>

theorem lock_leaves_nobody:
  assumes "reaches sync_init sync_step s"
  shows "(sy_pc s p = Waiting k \<longrightarrow> (k, p) \<in> set (ls_waiters (sy_lock s)) \<or> woken s p) \<and>
    (ls_locked (sy_lock s) \<or> ls_waiters (sy_lock s) = [] \<or> (\<exists>q. coming (ls_waiters (sy_lock s)) q (sy_pc s q)))"
  using synced.reached [OF assms] by (auto simp: sync_inv_def waiters_ok_def coming_ok_def)

text \<open>
  C22: No notification is missed: a task that waits for a condition, from the moment it is registered,
  before it releases the lock, is still registered or has been woken; so after \<open>notify_all\<close> it returns.
\<close>

theorem notification_not_missed:
  assumes "reaches sync_init sync_step s" "sy_pc s p = Cv_Unlock k \<or> sy_pc s p = Cv_Park k"
  shows "(k, p) \<in> set (sy_cv s) \<or> sy_token s p \<or> p \<in> set (sy_wakes s)"
proof -
  from assms(2) have "cv_ticket (sy_pc s p) = Some k" by auto
  with synced.reached [OF assms(1)] show ?thesis by (auto simp: sync_inv_def cv_ok_def woken_def)
qed

subsection \<open>A run of two tasks\<close>

definition sync_start :: sync where
  "sync_start = \<lparr>sy_lock = lock_new, sy_cv = [], sy_cv_last = 0, sy_pc = (\<lambda>_. Out), sy_token = (\<lambda>_. False), sy_wakes = []\<rparr>"

definition sync_held :: sync where
  "sync_held = at 0 Holds (sync_start\<lparr>sy_lock := lock_new\<lparr>ls_locked := True\<rparr>\<rparr>)"

definition sync_waits :: sync where
  "sync_waits = at 1 (Waiting 0) (sync_held\<lparr>sy_lock := \<lparr>ls_locked = True, ls_waiters = [(0, 1)], ls_next = 1\<rparr>\<rparr>)"

definition sync_conditions :: sync where
  "sync_conditions = at 0 (Cv_Unlock 1) (sync_held\<lparr>sy_cv_last := 1, sy_cv := [(1, 0)]\<rparr>)"

lemma at_at: "at p x (at p y s) = at p x s"
  by (simp add: at_def)

lemma held_reached: "reaches sync_init sync_step sync_held"
proof -
  have "reaches sync_init sync_step sync_start" by (rule reaches_init) (simp add: sync_init_def sync_start_def)
  from reaches_step [OF this call_lock [of sync_start 0]]
  have "reaches sync_init sync_step (at 0 Locking sync_start)" by (simp add: sync_start_def)
  from reaches_step [OF this locking [of _ 0 Holds "lock_new\<lparr>ls_locked := True\<rparr>"]]
  show ?thesis by (simp add: sync_held_def sync_start_def try_lock_def lock_new_def at_def)
qed

lemma waits_reached: "reaches sync_init sync_step sync_waits"
proof -
  from reaches_step [OF held_reached call_lock [of sync_held 1]]
  have "reaches sync_init sync_step (at 1 Locking sync_held)" by (simp add: sync_held_def sync_start_def)
  from reaches_step [OF this locking [of _ 1 "Waiting 0" "\<lparr>ls_locked = True, ls_waiters = [(0, 1)], ls_next = 1\<rparr>"]]
  show ?thesis by (simp add: sync_waits_def sync_held_def sync_start_def try_lock_def lock_new_def at_def)
qed

lemma conditions_reached: "reaches sync_init sync_step sync_conditions"
  using reaches_step [OF held_reached cv_wait [of sync_held 0]]
  by (simp add: sync_conditions_def sync_held_def sync_start_def)

lemma mutual_exclusion_witness:
  "ls_locked (sy_lock sync_waits) \<and> (has_guard (sy_pc sync_waits 1) = False)"
  using mutual_exclusion [OF waits_reached, of 0 1] by (simp add: sync_waits_def sync_held_def)

lemma lock_leaves_nobody_witness: "(0, 1) \<in> set (ls_waiters (sy_lock sync_waits)) \<or> woken sync_waits 1"
  using lock_leaves_nobody [OF waits_reached, of 1 0] by (simp add: sync_waits_def)

lemma notification_not_missed_witness:
  "(1, 0) \<in> set (sy_cv sync_conditions) \<or> sy_token sync_conditions 0 \<or> 0 \<in> set (sy_wakes sync_conditions)"
  by (rule notification_not_missed [OF conditions_reached]) (simp add: sync_conditions_def)

end
