(* ===== verification/Green_Channel.thy ===== *)
theory Green_Channel
  imports Steps
begin

text \<open>
  The channel and the blocking calls of green tasks (grenat\_green: src/channel.rs,
  src/blocking.rs). As for the lock, the wake-up of a task is a token that \<open>wake\<close> leaves and
  \<open>park\<close> takes, and \<open>park\<close> may return without one. A channel has one receiving task, and any
  number of senders.
\<close>

subsection \<open>The channel\<close>

record 'v chan =
  ch_items :: "'v list"
  ch_senders :: nat
  ch_open :: bool
  ch_receiver :: "nat option"

definition channel_new :: "'v chan" where
  "channel_new = \<lparr>ch_items = [], ch_senders = 1, ch_open = True, ch_receiver = None\<rparr>"

text \<open>\<open>send\<close>: the value given back, or the waiter to wake.\<close>

definition send :: "'v \<Rightarrow> 'v chan \<Rightarrow> ('v + nat option) \<times> 'v chan" where
  "send v c = (if \<not> ch_open c then (Inl v, c)
     else (Inr (ch_receiver c), c\<lparr>ch_items := ch_items c @ [v], ch_receiver := None\<rparr>))"

definition clone_sender :: "'v chan \<Rightarrow> 'v chan" where
  "clone_sender c = c\<lparr>ch_senders := ch_senders c + 1\<rparr>"

definition drop_sender :: "'v chan \<Rightarrow> nat option \<times> 'v chan" where
  "drop_sender c = (if ch_senders c - 1 = 0
     then (ch_receiver c, c\<lparr>ch_senders := ch_senders c - 1, ch_receiver := None\<rparr>)
     else (None, c\<lparr>ch_senders := ch_senders c - 1\<rparr>))"

datatype 'v received = Got 'v | Ended | Parks

text \<open>One pass of the loop of \<open>recv\<close>.\<close>

definition recv_round :: "nat \<Rightarrow> 'v chan \<Rightarrow> 'v received \<times> 'v chan" where
  "recv_round p c = (case ch_items c of
     v # vs \<Rightarrow> (Got v, c\<lparr>ch_items := vs\<rparr>)
   | [] \<Rightarrow> if ch_senders c = 0 then (Ended, c) else (Parks, c\<lparr>ch_receiver := Some p\<rparr>))"

definition drop_receiver :: "'v chan \<Rightarrow> 'v chan" where
  "drop_receiver c = c\<lparr>ch_open := False, ch_items := []\<rparr>"

datatype recv_pc = Elsewhere | Looking | Parked | Dropped

text \<open>The channel with its receiver: what it received, what was sent, and whether it was told the end.\<close>

record 'v channel =
  cw_chan :: "'v chan"
  cw_pc :: recv_pc
  cw_task :: nat
  cw_token :: bool
  cw_wakes :: "nat list"
  cw_sent :: "'v list"
  cw_got :: "'v list"
  cw_ended :: bool

definition to_wake :: "nat option \<Rightarrow> nat list" where
  "to_wake w = (case w of None \<Rightarrow> [] | Some p \<Rightarrow> [p])"

inductive chan_step :: "'v channel \<Rightarrow> 'v channel \<Rightarrow> bool" where
  send_ok: "0 < ch_senders (cw_chan w) \<Longrightarrow> send v (cw_chan w) = (Inr p, c) \<Longrightarrow>
    chan_step w (w\<lparr>cw_chan := c, cw_sent := cw_sent w @ [v], cw_wakes := cw_wakes w @ to_wake p\<rparr>)"
| send_back: "send v (cw_chan w) = (Inl u, c) \<Longrightarrow> chan_step w (w\<lparr>cw_chan := c\<rparr>)"
| clone: "0 < ch_senders (cw_chan w) \<Longrightarrow> chan_step w (w\<lparr>cw_chan := clone_sender (cw_chan w)\<rparr>)"
| drop: "0 < ch_senders (cw_chan w) \<Longrightarrow> drop_sender (cw_chan w) = (p, c) \<Longrightarrow>
    chan_step w (w\<lparr>cw_chan := c, cw_wakes := cw_wakes w @ to_wake p\<rparr>)"
| recv: "cw_pc w = Elsewhere \<Longrightarrow> chan_step w (w\<lparr>cw_pc := Looking\<rparr>)"
| got: "cw_pc w = Looking \<Longrightarrow> recv_round (cw_task w) (cw_chan w) = (Got v, c) \<Longrightarrow>
    chan_step w (w\<lparr>cw_chan := c, cw_pc := Elsewhere, cw_got := cw_got w @ [v]\<rparr>)"
| ended: "cw_pc w = Looking \<Longrightarrow> recv_round (cw_task w) (cw_chan w) = (Ended, c) \<Longrightarrow>
    chan_step w (w\<lparr>cw_chan := c, cw_pc := Elsewhere, cw_ended := True\<rparr>)"
| parks: "cw_pc w = Looking \<Longrightarrow> recv_round (cw_task w) (cw_chan w) = (Parks, c) \<Longrightarrow>
    chan_step w (w\<lparr>cw_chan := c, cw_pc := Parked\<rparr>)"
| park_returns: "cw_pc w = Parked \<Longrightarrow> chan_step w (w\<lparr>cw_pc := Looking, cw_token := False\<rparr>)"
| wake: "p \<in> set (cw_wakes w) \<Longrightarrow>
    chan_step w (w\<lparr>cw_wakes := remove1 p (cw_wakes w), cw_token := (cw_token w \<or> p = cw_task w)\<rparr>)"
| elsewhere: "cw_pc w = Elsewhere \<Longrightarrow> chan_step w (w\<lparr>cw_token := b, cw_task := q\<rparr>)"
| close: "cw_pc w = Elsewhere \<Longrightarrow> chan_step w (w\<lparr>cw_chan := drop_receiver (cw_chan w), cw_pc := Dropped\<rparr>)"

definition chan_init :: "'v channel \<Rightarrow> bool" where
  "chan_init w \<longleftrightarrow> cw_chan w = channel_new \<and> cw_pc w = Elsewhere \<and> cw_wakes w = [] \<and>
     cw_sent w = [] \<and> cw_got w = [] \<and> \<not> cw_ended w"

definition recv_woken :: "'v channel \<Rightarrow> bool" where
  "recv_woken w \<longleftrightarrow> cw_token w \<or> cw_task w \<in> set (cw_wakes w)"

definition chan_inv :: "'v channel \<Rightarrow> bool" where
  "chan_inv w \<longleftrightarrow> (\<exists>rest. cw_sent w = cw_got w @ ch_items (cw_chan w) @ rest \<and> (ch_open (cw_chan w) \<longrightarrow> rest = [])) \<and>
     (ch_open (cw_chan w) \<longleftrightarrow> cw_pc w \<noteq> Dropped) \<and>
     (cw_ended w \<longrightarrow> ch_senders (cw_chan w) = 0 \<and> (ch_open (cw_chan w) \<longrightarrow> ch_items (cw_chan w) = [])) \<and>
     (cw_pc w = Parked \<longrightarrow> recv_woken w \<or>
        ch_receiver (cw_chan w) = Some (cw_task w) \<and> ch_items (cw_chan w) = [] \<and> 0 < ch_senders (cw_chan w))"

lemmas chan_defs = send_def clone_sender_def drop_sender_def recv_round_def drop_receiver_def to_wake_def

lemma chan_inv_step:
  assumes "chan_inv w" "chan_step w w'"
  shows "chan_inv w'"
  using assms(2)
proof cases
  case (send_ok v p c)
  with assms(1) show ?thesis
    by (auto simp: chan_inv_def chan_defs recv_woken_def split: if_splits option.splits)
next
  case (drop p c)
  with assms(1) show ?thesis
    by (auto simp: chan_inv_def chan_defs recv_woken_def split: if_splits option.splits)
next
  case (wake p)
  with assms(1) show ?thesis by (auto simp: chan_inv_def recv_woken_def in_set_remove1)
qed (use assms(1) in \<open>auto simp: chan_inv_def chan_defs recv_woken_def split: if_splits list.splits\<close>)

interpretation channelled: inductive_invariant chan_init chan_step chan_inv
proof
  show "chan_init w \<Longrightarrow> chan_inv w" for w :: "'v channel"
    by (auto simp: chan_init_def chan_inv_def channel_new_def)
  show "chan_inv w \<Longrightarrow> chan_step w w' \<Longrightarrow> chan_inv w'" for w w' :: "'v channel"
    by (rule chan_inv_step)
qed

text \<open>
  C35: A channel is a queue: while the receiver is there, what it received and what is still in the
  channel, in order, is what was sent; and it is told the end only when every sender is gone and it has
  received everything.
\<close>

theorem channel_is_fifo:
  assumes "reaches chan_init chan_step w" "cw_pc w \<noteq> Dropped"
  shows "cw_got w @ ch_items (cw_chan w) = cw_sent w \<and>
    (cw_ended w \<longrightarrow> ch_senders (cw_chan w) = 0 \<and> cw_got w = cw_sent w)"
  using channelled.reached [OF assms(1)] assms(2) by (auto simp: chan_inv_def)

text \<open>
  The receiver is never left parked: with a value in the channel, or no sender left, a
  parked receiver has been woken; otherwise it is registered to be.
\<close>

theorem receiver_not_forgotten:
  assumes "reaches chan_init chan_step w" "cw_pc w = Parked"
  shows "(if ch_items (cw_chan w) \<noteq> [] \<or> ch_senders (cw_chan w) = 0 then recv_woken w
    else recv_woken w \<or> ch_receiver (cw_chan w) = Some (cw_task w))"
  using channelled.reached [OF assms(1)] assms(2) by (auto simp: chan_inv_def)

subsection \<open>Blocking calls\<close>

text \<open>The outcome of the call: its value, or its panic.\<close>

datatype job_pc = Calling_Out | Job_Waking | Job_Done
datatype 'r block_pc = Block_Looking | Block_Parked | Block_Returned 'r

record 'r blocking =
  bl_slot :: "'r option"
  bl_job :: job_pc
  bl_pc :: "'r block_pc"
  bl_token :: bool

text \<open>\<open>r\<close> is what the call gives.\<close>

inductive block_step :: "'r \<Rightarrow> 'r blocking \<Rightarrow> 'r blocking \<Rightarrow> bool" for r where
  store: "bl_job b = Calling_Out \<Longrightarrow> block_step r b (b\<lparr>bl_slot := Some r, bl_job := Job_Waking\<rparr>)"
| wakes: "bl_job b = Job_Waking \<Longrightarrow> block_step r b (b\<lparr>bl_job := Job_Done, bl_token := True\<rparr>)"
| take: "bl_pc b = Block_Looking \<Longrightarrow> bl_slot b = Some x \<Longrightarrow>
    block_step r b (b\<lparr>bl_slot := None, bl_pc := Block_Returned x\<rparr>)"
| parks: "bl_pc b = Block_Looking \<Longrightarrow> bl_slot b = None \<Longrightarrow> block_step r b (b\<lparr>bl_pc := Block_Parked\<rparr>)"
| unpark: "bl_pc b = Block_Parked \<Longrightarrow> block_step r b (b\<lparr>bl_pc := Block_Looking, bl_token := False\<rparr>)"
| other_wake: "block_step r b (b\<lparr>bl_token := True\<rparr>)"

definition block_init :: "'r blocking \<Rightarrow> bool" where
  "block_init b \<longleftrightarrow> bl_slot b = None \<and> bl_job b = Calling_Out \<and> bl_pc b = Block_Looking"

definition block_inv :: "'r \<Rightarrow> 'r blocking \<Rightarrow> bool" where
  "block_inv r b \<longleftrightarrow> (case bl_pc b of
     Block_Returned x \<Rightarrow> x = r \<and> bl_job b \<noteq> Calling_Out
   | Block_Looking \<Rightarrow> if bl_job b = Calling_Out then bl_slot b = None else bl_slot b = Some r
   | Block_Parked \<Rightarrow> if bl_job b = Calling_Out then bl_slot b = None
       else bl_slot b = Some r \<and> (bl_job b = Job_Waking \<or> bl_token b))"

interpretation blocked: inductive_invariant block_init "block_step r" "block_inv r" for r
proof
  show "block_init b \<Longrightarrow> block_inv r b" for b by (simp add: block_init_def block_inv_def)
  show "block_inv r b \<Longrightarrow> block_step r b b' \<Longrightarrow> block_inv r b'" for b b'
    by (erule block_step.cases) (auto simp: block_inv_def split: block_pc.splits if_splits intro: job_pc.exhaust)
qed

text \<open>
  A blocking call returns what the call gave, only after its thread has stored it, and a
  task parked in it is woken once the result is there.
\<close>

theorem blocking_returns:
  assumes "reaches block_init (block_step r) b"
  shows "case bl_pc b of
      Block_Returned x \<Rightarrow> x = r \<and> bl_job b \<noteq> Calling_Out
    | Block_Parked \<Rightarrow> if bl_job b = Job_Done then bl_slot b = Some r \<and> bl_token b else True
    | Block_Looking \<Rightarrow> if bl_job b = Calling_Out then bl_slot b = None else bl_slot b = Some r"
  using blocked.reached [OF assms] by (auto simp: block_inv_def split: block_pc.splits if_splits)

subsection \<open>Runs\<close>

definition chan_start :: "nat channel" where
  "chan_start = \<lparr>cw_chan = channel_new, cw_pc = Elsewhere, cw_task = 0, cw_token = False, cw_wakes = [],
     cw_sent = [], cw_got = [], cw_ended = False\<rparr>"

text \<open>The receiver parks, then 7 is sent; it is woken and receives it.\<close>

definition chan_parked :: "nat channel" where
  "chan_parked = chan_start\<lparr>cw_chan := channel_new\<lparr>ch_receiver := Some 0\<rparr>, cw_pc := Parked\<rparr>"

definition chan_sent :: "nat channel" where
  "chan_sent = chan_parked\<lparr>cw_chan := channel_new\<lparr>ch_items := [7]\<rparr>, cw_sent := [7], cw_wakes := [0]\<rparr>"

definition chan_got :: "nat channel" where
  "chan_got = chan_sent\<lparr>cw_chan := channel_new, cw_pc := Elsewhere, cw_got := [7], cw_token := False\<rparr>"

lemmas chan_run_defs = chan_start_def chan_parked_def chan_sent_def chan_got_def channel_new_def

lemma chan_sent_reached: "reaches chan_init chan_step chan_sent"
proof -
  have "reaches chan_init chan_step chan_start" by (rule reaches_init) (simp add: chan_init_def chan_start_def)
  from reaches_step [OF this chan_step.recv] have "reaches chan_init chan_step (chan_start\<lparr>cw_pc := Looking\<rparr>)"
    by (simp add: chan_start_def)
  from reaches_step [OF this chan_step.parks [of _ "channel_new\<lparr>ch_receiver := Some 0\<rparr>"]]
  have "reaches chan_init chan_step chan_parked" by (simp add: chan_run_defs recv_round_def)
  from reaches_step [OF this chan_step.send_ok [of _ 7 "Some 0" "channel_new\<lparr>ch_items := [7]\<rparr>"]]
  show ?thesis by (simp add: chan_run_defs send_def to_wake_def)
qed

lemma chan_got_reached: "reaches chan_init chan_step chan_got"
proof -
  from reaches_step [OF chan_sent_reached chan_step.park_returns]
  have "reaches chan_init chan_step (chan_sent\<lparr>cw_pc := Looking, cw_token := False\<rparr>)" by (simp add: chan_run_defs)
  from reaches_step [OF this chan_step.got [of _ 7 channel_new]]
  show ?thesis by (simp add: chan_run_defs recv_round_def)
qed

lemma channel_is_fifo_witness: "cw_got chan_got @ ch_items (cw_chan chan_got) = [7]"
  using channel_is_fifo [OF chan_got_reached] by (simp add: chan_run_defs)

lemma receiver_not_forgotten_witness: "recv_woken chan_sent"
  using receiver_not_forgotten [OF chan_sent_reached] by (simp add: chan_run_defs)

definition block_start :: "nat blocking" where
  "block_start = \<lparr>bl_slot = None, bl_job = Calling_Out, bl_pc = Block_Looking, bl_token = False\<rparr>"

lemma blocking_returns_witness: "bl_slot (block_start\<lparr>bl_slot := Some 3, bl_job := Job_Waking\<rparr>) = Some (3 :: nat)"
proof -
  have "reaches block_init (block_step 3) block_start" by (rule reaches_init) (simp add: block_init_def block_start_def)
  from reaches_step [OF this block_step.store]
  have "reaches block_init (block_step 3) (block_start\<lparr>bl_slot := Some 3, bl_job := Job_Waking\<rparr>)"
    by (simp add: block_start_def)
  from blocking_returns [OF this] show ?thesis by (simp add: block_start_def)
qed

end
