(* ===== verification/Green_Timer.thy ===== *)
theory Green_Timer
  imports Steps "HOL-Library.Multiset"
begin

text \<open>
  Sleeping tasks (grenat\_green: src/timer.rs): the heap of the sleepers, the thread of the timer
  and the tasks that sleep. The binary heap of the standard library gives its least element, by
  deadline and then by number, whatever its order inside; it is the list of what it holds.
\<close>

subsection \<open>The heap\<close>

record sleeper =
  sp_deadline :: int
  sp_seq :: nat
  sp_waiter :: nat

text \<open>\<open>Ord for Sleeper\<close>.\<close>

definition sooner :: "sleeper \<Rightarrow> sleeper \<Rightarrow> bool" where
  "sooner a b \<longleftrightarrow> sp_deadline a < sp_deadline b \<or> sp_deadline a = sp_deadline b \<and> sp_seq a \<le> sp_seq b"

fun heap_peek :: "sleeper list \<Rightarrow> sleeper option" where
  "heap_peek [] = None"
| "heap_peek (h # hs) = (case heap_peek hs of None \<Rightarrow> Some h | Some m \<Rightarrow> Some (if sooner h m then h else m))"

lemma heap_peek_set: "heap_peek hs = Some m \<Longrightarrow> m \<in> set hs"
  by (induction hs arbitrary: m) (auto split: option.splits if_splits)

lemma heap_peek_None: "heap_peek hs = None \<longleftrightarrow> hs = []"
  by (cases hs) (auto split: option.splits)

lemma heap_peek_least: "heap_peek hs = Some m \<Longrightarrow> h \<in> set hs \<Longrightarrow> sooner m h"
proof (induction hs arbitrary: m)
  case (Cons a hs)
  then show ?case
    by (cases "heap_peek hs") (force simp: heap_peek_None sooner_def split: if_splits)+
qed simp

text \<open>The inner loop of \<open>timer\<close>: the sleepers whose time has come, in order, and the others.\<close>

function wake_due :: "int \<Rightarrow> sleeper list \<Rightarrow> sleeper list \<times> sleeper list" where
  "wake_due now hs = (case heap_peek hs of
     None \<Rightarrow> ([], hs)
   | Some m \<Rightarrow>
       if sp_deadline m \<le> now then
         (case wake_due now (remove1 m hs) of (due, rest) \<Rightarrow> (m # due, rest))
       else ([], hs))"
  by pat_completeness auto

termination
  by (relation "measure (length \<circ> snd)") (auto dest!: heap_peek_set simp: length_remove1 dest: length_pos_if_in_set)

declare wake_due.simps [simp del]

lemma wake_due_ok:
  "wake_due now hs = (due, rest) \<Longrightarrow>
     mset due + mset rest = mset hs \<and> list_all (\<lambda>h. sp_deadline h \<le> now) due \<and>
     list_all (\<lambda>h. now < sp_deadline h) rest \<and> sorted_wrt sooner due"
proof (induction now hs arbitrary: due rest rule: wake_due.induct)
  case (1 now hs)
  show ?case
  proof (cases "heap_peek hs")
    case None
    with "1.prems" show ?thesis by (auto simp: wake_due.simps [of now hs] heap_peek_None)
  next
    case (Some m)
    show ?thesis
    proof (cases "sp_deadline m \<le> now")
      case True
      obtain due' rest' where r: "wake_due now (remove1 m hs) = (due', rest')" by fastforce
      with "1.prems" Some True have d: "due = m # due'" "rest = rest'" by (simp_all add: wake_due.simps [of now hs])
      from "1.IH" [OF Some True r] have ih: "mset due' + mset rest' = mset (remove1 m hs)"
        "list_all (\<lambda>h. sp_deadline h \<le> now) due'" "list_all (\<lambda>h. now < sp_deadline h) rest'" "sorted_wrt sooner due'" by simp_all
      from heap_peek_set [OF Some] have "mset hs = add_mset m (mset (remove1 m hs))" by simp
      moreover have "sooner m h" if "h \<in> set due'" for h
      proof -
        from that have "h \<in># mset due' + mset rest'" by simp
        then have "h \<in> set (remove1 m hs)" unfolding ih(1) by (simp only: set_mset_mset)
        then show ?thesis using heap_peek_least [OF Some] set_remove1_subset by fast
      qed
      ultimately show ?thesis using d ih True by simp
    next
      case False
      have "now < sp_deadline h" if "h \<in> set hs" for h using heap_peek_least [OF Some that] False by (auto simp: sooner_def)
      with "1.prems" Some False show ?thesis by (auto simp: wake_due.simps [of now hs] list_all_iff)
    qed
  qed
qed

text \<open>
  The timer wakes exactly the sleepers whose deadline has passed, the earliest first and those
  of one instant in the order in which they went to sleep, and keeps all the others.
\<close>

theorem timer_wakes_due:
  assumes "wake_due now hs = (due, rest)"
  shows "mset due = filter_mset (\<lambda>h. sp_deadline h \<le> now) (mset hs) \<and>
    mset rest = filter_mset (\<lambda>h. now < sp_deadline h) (mset hs) \<and> sorted_wrt sooner due"
proof -
  from wake_due_ok [OF assms] have ok: "mset hs = mset due + mset rest" "\<forall>h \<in> set due. sp_deadline h \<le> now"
    "\<forall>h \<in> set rest. now < sp_deadline h" "sorted_wrt sooner due" by (auto simp: list_all_iff)
  have "filter_mset P (mset xs) = mset xs" if "\<forall>x \<in> set xs. P x" for P and xs :: "sleeper list"
    using that by (auto simp: filter_mset_eq_conv)
  moreover have "filter_mset P (mset xs) = {#}" if "\<forall>x \<in> set xs. \<not> P x" for P and xs :: "sleeper list"
    using that by (induction xs) auto
  ultimately show ?thesis using ok by (simp add: not_le [symmetric] not_less)
qed

lemma timer_wakes_due_witness:
  "wake_due 5 [\<lparr>sp_deadline = 9, sp_seq = 1, sp_waiter = 0\<rparr>, \<lparr>sp_deadline = 4, sp_seq = 2, sp_waiter = 1\<rparr>] =
     ([\<lparr>sp_deadline = 4, sp_seq = 2, sp_waiter = 1\<rparr>], [\<lparr>sp_deadline = 9, sp_seq = 1, sp_waiter = 0\<rparr>]) \<and>
   mset [\<lparr>sp_deadline = 4, sp_seq = 2, sp_waiter = 1\<rparr>] = filter_mset (\<lambda>h. sp_deadline h \<le> 5)
     (mset [\<lparr>sp_deadline = 9, sp_seq = 1, sp_waiter = 0\<rparr>, \<lparr>sp_deadline = 4, sp_seq = 2, sp_waiter = 1\<rparr>])"
proof
  show *: "wake_due 5 [\<lparr>sp_deadline = 9, sp_seq = 1, sp_waiter = 0\<rparr>, \<lparr>sp_deadline = 4, sp_seq = 2, sp_waiter = 1\<rparr>] =
     ([\<lparr>sp_deadline = 4, sp_seq = 2, sp_waiter = 1\<rparr>], [\<lparr>sp_deadline = 9, sp_seq = 1, sp_waiter = 0\<rparr>])"
    by (simp add: wake_due.simps sooner_def)
  show "mset [\<lparr>sp_deadline = 4, sp_seq = 2, sp_waiter = 1\<rparr>] = filter_mset (\<lambda>h. sp_deadline h \<le> 5)
     (mset [\<lparr>sp_deadline = 9, sp_seq = 1, sp_waiter = 0\<rparr>, \<lparr>sp_deadline = 4, sp_seq = 2, sp_waiter = 1\<rparr>])"
    using timer_wakes_due [OF *] by simp
qed

subsection \<open>The timer and the sleeping tasks\<close>

text \<open>The thread of the timer: in its loop, or waiting, with the deadline of the first sleeper if there is one.\<close>

datatype timer_pc = Timer_Awake | Timer_Waits "int option"

text \<open>
  A task in \<open>sleep\<close>: with its deadline, about to push its sleeper, to notify the timer, to look at the
  clock, or parked.
\<close>

datatype sleep_pc = Not_Asleep | Sleep_Push int | Sleep_Notify int | Sleep_Looks int | Sleep_Parked int

record timers =
  tm_now :: int
  tm_heap :: "sleeper list"
  tm_seq :: nat
  tm_timer :: timer_pc
  tm_pc :: "nat \<Rightarrow> sleep_pc"
  tm_token :: "nat \<Rightarrow> bool"

definition sleeps :: "nat \<Rightarrow> sleep_pc \<Rightarrow> timers \<Rightarrow> timers" where
  "sleeps p pc w = w\<lparr>tm_pc := (tm_pc w)(p := pc)\<rparr>"

text \<open>\<open>notify_one\<close> and the end of a wait have the same effect: the timer looks again.\<close>

inductive timer_step :: "timers \<Rightarrow> timers \<Rightarrow> bool" where
  tick: "tm_now w \<le> t \<Longrightarrow> timer_step w (w\<lparr>tm_now := t\<rparr>)"
| begin_sleep: "tm_pc w p = Not_Asleep \<Longrightarrow> timer_step w (sleeps p (Sleep_Push (tm_now w + int d)) w)"
| push_sleeper: "tm_pc w p = Sleep_Push d \<Longrightarrow>
    timer_step w (sleeps p (Sleep_Notify d) (w\<lparr>tm_seq := tm_seq w + 1,
      tm_heap := tm_heap w @ [\<lparr>sp_deadline = d, sp_seq = tm_seq w + 1, sp_waiter = p\<rparr>]\<rparr>))"
| notify_timer: "tm_pc w p = Sleep_Notify d \<Longrightarrow> timer_step w (sleeps p (Sleep_Looks d) (w\<lparr>tm_timer := Timer_Awake\<rparr>))"
| look_again: "tm_pc w p = Sleep_Looks d \<Longrightarrow> tm_now w < d \<Longrightarrow> timer_step w (sleeps p (Sleep_Parked d) w)"
| sleep_ends: "tm_pc w p = Sleep_Looks d \<Longrightarrow> d \<le> tm_now w \<Longrightarrow> timer_step w (sleeps p Not_Asleep w)"
| unparked: "tm_pc w p = Sleep_Parked d \<Longrightarrow>
    timer_step w (sleeps p (Sleep_Looks d) (w\<lparr>tm_token := (tm_token w)(p := False)\<rparr>))"
| timer_round: "tm_timer w = Timer_Awake \<Longrightarrow> wake_due (tm_now w) (tm_heap w) = (due, rest) \<Longrightarrow>
    timer_step w (w\<lparr>tm_heap := rest, tm_timer := Timer_Waits (map_option sp_deadline (heap_peek rest)),
      tm_token := (\<lambda>p. tm_token w p \<or> p \<in> sp_waiter ` set due)\<rparr>)"
| timeout: "tm_timer w = Timer_Waits (Some t) \<Longrightarrow> t \<le> tm_now w \<Longrightarrow> timer_step w (w\<lparr>tm_timer := Timer_Awake\<rparr>)"
| timer_spurious: "timer_step w (w\<lparr>tm_timer := Timer_Awake\<rparr>)"
| other_token: "timer_step w (w\<lparr>tm_token := (tm_token w)(p := True)\<rparr>)"
| other_park: "tm_pc w p = Not_Asleep \<Longrightarrow> timer_step w (w\<lparr>tm_token := (tm_token w)(p := False)\<rparr>)"

definition timer_init :: "timers \<Rightarrow> bool" where
  "timer_init w \<longleftrightarrow> tm_heap w = [] \<and> tm_timer w = Timer_Awake \<and> tm_pc w = (\<lambda>_. Not_Asleep)"

text \<open>The sleeper of a task is in the heap.\<close>

definition in_heap :: "timers \<Rightarrow> nat \<Rightarrow> int \<Rightarrow> bool" where
  "in_heap w p d \<longleftrightarrow> (\<exists>h \<in> set (tm_heap w). sp_waiter h = p \<and> sp_deadline h = d)"

definition timer_inv :: "timers \<Rightarrow> bool" where
  "timer_inv w \<longleftrightarrow>
     (\<forall>t. tm_timer w = Timer_Waits t \<longrightarrow> (\<forall>h \<in> set (tm_heap w). tm_pc w (sp_waiter h) = Sleep_Notify (sp_deadline h) \<or>
        (\<exists>u. t = Some u \<and> u \<le> sp_deadline h))) \<and>
     (\<forall>p d. tm_pc w p = Sleep_Notify d \<or> tm_pc w p = Sleep_Looks d \<longrightarrow> in_heap w p d \<or> d \<le> tm_now w) \<and>
     (\<forall>p d. tm_pc w p = Sleep_Parked d \<longrightarrow> in_heap w p d \<or> d \<le> tm_now w \<and> tm_token w p)"

lemma in_heap_due:
  assumes "wake_due now hs = (due, rest)" "h \<in> set hs"
  shows "h \<in> set rest \<or> sp_deadline h \<le> now \<and> h \<in> set due"
proof -
  from wake_due_ok [OF assms(1)] have ok: "mset due + mset rest = mset hs" "\<forall>h \<in> set due. sp_deadline h \<le> now"
    by (auto simp: list_all_iff)
  from assms(2) have "h \<in># mset due + mset rest" unfolding ok(1) by simp
  with ok(2) show ?thesis by auto
qed

lemma timer_inv_step:
  assumes "timer_inv w" "timer_step w w'"
  shows "timer_inv w'"
  using assms(2)
proof cases
  case (tick t)
  then show ?thesis using assms(1) by (fastforce simp: timer_inv_def in_heap_def)
next
  case (begin_sleep p d)
  then show ?thesis using assms(1) by (fastforce simp: timer_inv_def in_heap_def sleeps_def)
next
  case (push_sleeper p d)
  then show ?thesis using assms(1) by (fastforce simp: timer_inv_def in_heap_def sleeps_def)
next
  case (notify_timer p d)
  then show ?thesis using assms(1) by (auto simp: timer_inv_def in_heap_def sleeps_def)
next
  case (look_again p d)
  then show ?thesis using assms(1) by (fastforce simp: timer_inv_def in_heap_def sleeps_def)
next
  case (sleep_ends p d)
  then show ?thesis using assms(1) by (fastforce simp: timer_inv_def in_heap_def sleeps_def)
next
  case (unparked p d)
  then show ?thesis using assms(1) by (fastforce simp: timer_inv_def in_heap_def sleeps_def)
next
  case (timer_round due rest)
  have kept: "in_heap w' p d \<or> d \<le> tm_now w \<and> tm_token w' p" if "in_heap w p d" for p d
    using that in_heap_due [OF timer_round(3)] timer_round(1) by (fastforce simp: in_heap_def)
  have first: "\<exists>u. map_option sp_deadline (heap_peek rest) = Some u \<and> u \<le> sp_deadline h" if "h \<in> set rest" for h
    using that heap_peek_least [of rest _ h] by (cases "heap_peek rest") (auto simp: heap_peek_None sooner_def)
  from timer_round(1) have w': "tm_pc w' = tm_pc w" "tm_now w' = tm_now w" "tm_heap w' = rest"
    "tm_timer w' = Timer_Waits (map_option sp_deadline (heap_peek rest))" "\<And>p. tm_token w p \<Longrightarrow> tm_token w' p"
    by simp_all
  show ?thesis
    unfolding timer_inv_def
  proof (intro conjI)
    show "\<forall>t. tm_timer w' = Timer_Waits t \<longrightarrow> (\<forall>h \<in> set (tm_heap w').
        tm_pc w' (sp_waiter h) = Sleep_Notify (sp_deadline h) \<or> (\<exists>u. t = Some u \<and> u \<le> sp_deadline h))"
      using first w'(3,4) by auto
    show "\<forall>p d. tm_pc w' p = Sleep_Notify d \<or> tm_pc w' p = Sleep_Looks d \<longrightarrow> in_heap w' p d \<or> d \<le> tm_now w'"
      using assms(1) kept w'(1,2) unfolding timer_inv_def by metis
    show "\<forall>p d. tm_pc w' p = Sleep_Parked d \<longrightarrow> in_heap w' p d \<or> d \<le> tm_now w' \<and> tm_token w' p"
      using assms(1) kept w'(1,2,5) unfolding timer_inv_def by metis
  qed
next
  case (timeout t)
  then show ?thesis using assms(1) by (simp add: timer_inv_def in_heap_def)
next
  case timer_spurious
  then show ?thesis using assms(1) by (simp add: timer_inv_def in_heap_def)
next
  case (other_token p)
  then show ?thesis using assms(1) by (auto simp: timer_inv_def in_heap_def)
next
  case (other_park p)
  then show ?thesis using assms(1) by (auto simp: timer_inv_def in_heap_def)
qed

interpretation timed: inductive_invariant timer_init timer_step timer_inv
proof
  show "timer_init w \<Longrightarrow> timer_inv w" for w by (simp add: timer_init_def timer_inv_def)
  show "timer_inv w \<Longrightarrow> timer_step w w' \<Longrightarrow> timer_inv w'" for w w' by (rule timer_inv_step)
qed

text \<open>
  C40: Nobody oversleeps: a parked task whose deadline has passed has been woken, or its sleeper
  is in the heap and the timer is awake or its own wait is over.
\<close>

theorem sleeper_not_forgotten:
  assumes "reaches timer_init timer_step w" "tm_pc w p = Sleep_Parked d" "d \<le> tm_now w"
  shows "tm_token w p \<or> in_heap w p d \<and>
    (case tm_timer w of Timer_Awake \<Rightarrow> True | Timer_Waits t \<Rightarrow> \<exists>u. t = Some u \<and> u \<le> tm_now w)"
proof (cases "tm_token w p")
  case False
  from timed.reached [OF assms(1)] have inv: "timer_inv w" .
  with assms(2) False have h: "in_heap w p d" by (auto simp: timer_inv_def)
  then obtain s where s: "s \<in> set (tm_heap w)" "sp_waiter s = p" "sp_deadline s = d" by (auto simp: in_heap_def)
  show ?thesis
  proof (cases "tm_timer w")
    case (Timer_Waits t)
    with inv s(1) have "tm_pc w (sp_waiter s) = Sleep_Notify (sp_deadline s) \<or> (\<exists>u. t = Some u \<and> u \<le> sp_deadline s)"
      by (simp add: timer_inv_def)
    with s assms(2,3) Timer_Waits h show ?thesis by auto
  qed (use h in simp)
qed simp

text \<open>One task that sleeps for 5, until 7.\<close>

definition timer_start :: timers where
  "timer_start = \<lparr>tm_now = 2, tm_heap = [], tm_seq = 0, tm_timer = Timer_Awake, tm_pc = (\<lambda>_. Not_Asleep), tm_token = (\<lambda>_. False)\<rparr>"

definition timer_asleep :: timers where
  "timer_asleep = sleeps 0 (Sleep_Parked 7) (timer_start\<lparr>tm_seq := 1,
     tm_heap := [\<lparr>sp_deadline = 7, sp_seq = 1, sp_waiter = 0\<rparr>]\<rparr>)"

lemma timer_asleep_reached: "reaches timer_init timer_step (timer_asleep\<lparr>tm_now := 9\<rparr>)"
proof -
  have "reaches timer_init timer_step timer_start" by (rule reaches_init) (simp add: timer_init_def timer_start_def)
  from reaches_step [OF this timer_step.begin_sleep [of _ 0 5]]
  have "reaches timer_init timer_step (sleeps 0 (Sleep_Push 7) timer_start)"
    by (simp add: timer_start_def sleeps_def)
  from reaches_step [OF this timer_step.push_sleeper [of _ 0 7]]
  have "reaches timer_init timer_step (sleeps 0 (Sleep_Notify 7) timer_asleep)"
    by (simp add: timer_start_def timer_asleep_def sleeps_def)
  from reaches_step [OF this timer_step.notify_timer [of _ 0 7]]
  have "reaches timer_init timer_step (sleeps 0 (Sleep_Looks 7) timer_asleep)"
    by (simp add: timer_start_def timer_asleep_def sleeps_def)
  from reaches_step [OF this timer_step.look_again [of _ 0 7]]
  have "reaches timer_init timer_step timer_asleep" by (simp add: timer_start_def timer_asleep_def sleeps_def)
  from reaches_step [OF this timer_step.tick [of _ 9]] show ?thesis
    by (simp add: timer_start_def timer_asleep_def sleeps_def)
qed

lemma sleeper_not_forgotten_witness: "in_heap (timer_asleep\<lparr>tm_now := 9\<rparr>) 0 7 \<and> tm_timer timer_asleep = Timer_Awake"
  using sleeper_not_forgotten [OF timer_asleep_reached, of 0 7] by (simp add: timer_asleep_def timer_start_def sleeps_def)

end
