(* ===== verification/Calendar.thy ===== *)
theory Calendar
  imports Rust_Text Gregorian
begin

text \<open>
  The calendar of schedules (grenat\_serve: src/calendar.rs): civil dates and times of the
  seconds since the epoch, in UTC. The numbers of the code are i64; all of them stay within its
  range for the seconds of an i64 (\<open>civil_in_range\<close>), so that they are integers here.
\<close>

subsection \<open>Operations\<close>

text \<open>
  \<open>div_euclid\<close> and \<open>rem_euclid\<close> by a positive number are \<open>div\<close> and \<open>mod\<close>; the plain
  divisions are of numbers that are not negative, where they agree with \<open>div\<close>.
\<close>

definition civil :: "int \<Rightarrow> int \<times> int \<times> int \<times> int \<times> int \<times> int" where
  "civil t =
     (let days = t div 86400;
          seconds = t mod 86400;
          z = days + 719468;
          era = z div 146097;
          doe = z mod 146097;
          yoe = (doe - doe div 1460 + doe div 36524 - doe div 146096) div 365;
          doy = doe - (365 * yoe + yoe div 4 - yoe div 100);
          mp = (5 * doy + 2) div 153;
          day = doy - (153 * mp + 2) div 5 + 1;
          month = (if mp < 10 then mp + 3 else mp - 9);
          year = yoe + era * 400 + (if month \<le> 2 then 1 else 0);
          weekday = (days + 4) mod 7
      in (year, month, day, seconds div 3600, seconds mod 3600 div 60, weekday))"

definition days_from_date :: "int \<Rightarrow> int \<Rightarrow> int \<Rightarrow> int" where
  "days_from_date year month day =
     (let year = (if month \<le> 2 then year - 1 else year);
          era = year div 400;
          yoe = year mod 400;
          doy = (153 * (if month > 2 then month - 3 else month + 9) + 2) div 5 + day - 1;
          doe = yoe * 365 + yoe div 4 - yoe div 100 + doy
      in era * 146097 + doe - 719468)"

text \<open>\<open>is_leap\<close>: the remainders of the code are compared with zero, where \<open>%\<close> and \<open>mod\<close> agree.\<close>

definition leap_year :: "int \<Rightarrow> bool" where
  "leap_year year \<longleftrightarrow> year mod 4 = 0 \<and> (year mod 100 \<noteq> 0 \<or> year mod 400 = 0)"

definition month_days :: "int \<Rightarrow> int \<Rightarrow> int" where
  "month_days year month =
     (if month \<in> {1, 3, 5, 7, 8, 10, 12} then 31
      else if month \<in> {4, 6, 9, 11} then 30
      else if month = 2 \<and> leap_year year then 29
      else if month = 2 then 28
      else 0)"

text \<open>\<open>{:04}\<close> and \<open>{:02}\<close>: zeroes after the sign, up to the width.\<close>

definition padded :: "nat \<Rightarrow> int \<Rightarrow> rtext" where
  "padded width n =
     (let digits = nat_digits (nat \<bar>n\<bar>);
          sign = (if n < 0 then str ''-'' else [])
      in sign @ replicate (width - length sign - length digits) (ch CHR ''0'') @ digits)"

definition date_text :: "int \<Rightarrow> rtext" where
  "date_text t = (case civil t of (year, month, day, _) \<Rightarrow>
     padded 4 year @ str ''-'' @ padded 2 month @ str ''-'' @ padded 2 day)"

subsection \<open>Dates that exist\<close>

definition valid_date :: "int \<times> int \<times> int \<Rightarrow> bool" where
  "valid_date = (\<lambda>(y, m, d). 1 \<le> m \<and> m \<le> 12 \<and> 1 \<le> d \<and> d \<le> month_days y m)"

definition date_of :: "int \<Rightarrow> int \<times> int \<times> int" where
  "date_of t = (case civil t of (y, m, d, _) \<Rightarrow> (y, m, d))"

text \<open>The days of an era before its year \<open>yoe\<close>, and the day of that year from March.\<close>

definition era_days :: "int \<Rightarrow> int" where
  "era_days yoe = 365 * yoe + yoe div 4 - yoe div 100"

lemma year_of_era:
  assumes "0 \<le> doe" "doe < 146097"
  defines "yoe \<equiv> (doe - doe div 1460 + doe div 36524 - doe div 146096) div 365"
  shows "0 \<le> yoe \<and> yoe < 400 \<and> 0 \<le> doe - era_days yoe \<and>
    (doe - era_days yoe \<le> 364 \<or> doe - era_days yoe = 365 \<and> (yoe + 1) mod 4 = 0 \<and> ((yoe + 1) mod 100 \<noteq> 0 \<or> yoe = 399))"
proof -
  obtain c b a r where p: "era_parts c b a r" and doe: "doe = 36524 * c + 1461 * b + 365 * a + r"
    using era_parts_exist assms by blast
  have y: "yoe = 100 * c + 4 * b + a" unfolding yoe_def by (rule era_year [OF p doe])
  have r: "doe - era_days yoe = r" unfolding era_days_def y era_year_parts(1,2) [OF p] doe by simp
  have "r = 365 \<Longrightarrow> a = 3 \<and> (b = 24 \<longrightarrow> c = 3) \<and> b \<le> 24 \<and> 0 \<le> b" "0 \<le> r" "r \<le> 364 \<or> r = 365"
    using p by (auto simp: era_parts_def)
  moreover have "a = 3 \<Longrightarrow> (yoe + 1) mod 4 = 0" unfolding y by presburger
  moreover have "a = 3 \<Longrightarrow> 0 \<le> b \<Longrightarrow> b < 24 \<Longrightarrow> (yoe + 1) mod 100 \<noteq> 0"
  proof -
    assume "a = 3" "0 \<le> b" "b < 24"
    then have "yoe + 1 = 4 * (b + 1) + 100 * c" unfolding y by simp
    then have "(yoe + 1) mod 100 = 4 * (b + 1) mod 100" by (simp only: mod_mult_self2)
    also have "\<dots> = 4 * (b + 1)" using \<open>0 \<le> b\<close> \<open>b < 24\<close> by (intro mod_pos_pos_trivial) simp_all
    finally have "(yoe + 1) mod 100 = 4 * (b + 1)" .
    moreover have "4 * (b + 1) \<noteq> 0" using \<open>0 \<le> b\<close> by simp
    ultimately show ?thesis by metis
  qed
  moreover have "a = 3 \<Longrightarrow> b = 24 \<Longrightarrow> c = 3 \<Longrightarrow> yoe = 399" unfolding y by simp
  ultimately show ?thesis unfolding r using era_year_parts(3,4) [OF p] unfolding y by (cases "b = 24") auto
qed

lemma year_of_era_unique:
  assumes "0 \<le> yoe" "yoe < 400" "0 \<le> doy"
    and "doy \<le> 364 \<or> doy = 365 \<and> (yoe + 1) mod 4 = 0 \<and> ((yoe + 1) mod 100 \<noteq> 0 \<or> yoe = 399)"
    and doe: "doe = era_days yoe + doy"
  shows "(doe - doe div 1460 + doe div 36524 - doe div 146096) div 365 = yoe" "0 \<le> doe" "doe < 146097"
proof -
  define c where "c = yoe div 100"
  define x where "x = yoe mod 100"
  define b where "b = x div 4"
  define a where "a = x mod 4"
  have y: "yoe = 100 * c + 4 * b + a" by (simp add: a_def b_def x_def c_def)
  have le: "0 \<le> c" "c \<le> 3" "0 \<le> b" "b \<le> 24" "0 \<le> a" "a \<le> 3"
    using assms(1,2) by (auto simp: a_def b_def x_def c_def)
  have "doy = 365 \<Longrightarrow> a = 3 \<and> (b = 24 \<longrightarrow> c = 3)"
  proof -
    assume "doy = 365"
    with assms(4) have l: "(yoe + 1) mod 4 = 0" "(yoe + 1) mod 100 \<noteq> 0 \<or> yoe = 399" by auto
    have a: "a = 3" using l(1) le unfolding y by presburger
    moreover have "b = 24 \<Longrightarrow> c = 3" using l(2) le unfolding y a by auto
    ultimately show ?thesis by simp
  qed
  with assms(3,4) le have p: "era_parts c b a doy" by (auto simp: era_parts_def)
  have d: "doe = 36524 * c + 1461 * b + 365 * a + doy"
    unfolding doe era_days_def y era_year_parts(1,2) [OF p] by simp
  show "(doe - doe div 1460 + doe div 36524 - doe div 146096) div 365 = yoe"
    unfolding y by (rule era_year [OF p d])
  show "0 \<le> doe" "doe < 146097" using p le unfolding d by (auto simp: era_parts_def)
qed

text \<open>A day of the year from March is a month from March and a day of it.\<close>

lemma div_bounds: "0 < n \<Longrightarrow> n * (x div n) \<le> x \<and> x < n * (x div n) + (n :: int)"
  by (metis add.commute add_less_cancel_left le_add_same_cancel1 mult_div_mod_eq pos_mod_bound pos_mod_sign)

lemma month_of_doy:
  fixes r :: int
  assumes "0 \<le> r" "r \<le> 365"
  shows "0 \<le> (5 * r + 2) div 153 \<and> (5 * r + 2) div 153 \<le> 11 \<and>
    0 \<le> r - (153 * ((5 * r + 2) div 153) + 2) div 5"
proof -
  define q where "q = (5 * r + 2) div 153"
  define c where "c = (153 * q + 2) div 5"
  have "153 * q \<le> 5 * r + 2 \<and> 5 * r + 2 < 153 * q + 153" "5 * c \<le> 153 * q + 2"
    using div_bounds [of 153 "5 * r + 2"] div_bounds [of 5 "153 * q + 2"] by (simp_all add: q_def c_def)
  with assms have "0 \<le> q" "q \<le> 11" "0 \<le> r - c" by linarith+
  then show ?thesis unfolding q_def c_def by simp
qed

lemma month_of_doy_unique:
  fixes mp :: int
  assumes "0 \<le> d" "(153 * mp + 2) div 5 + d < (153 * (mp + 1) + 2) div 5"
  shows "(5 * ((153 * mp + 2) div 5 + d) + 2) div 153 = mp"
proof -
  define c where "c = (153 * mp + 2) div 5"
  define c' where "c' = (153 * (mp + 1) + 2) div 5"
  have "153 * mp + 2 < 5 * c + 5" "5 * c' \<le> 153 * (mp + 1) + 2"
    using div_bounds [of 5 "153 * mp + 2"] div_bounds [of 5 "153 * (mp + 1) + 2"] by (simp_all add: c_def c'_def)
  moreover have "0 \<le> d" "c + d < c'" using assms by (simp_all add: c_def c'_def)
  ultimately have "153 * mp \<le> 5 * (c + d) + 2" "5 * (c + d) + 2 < 153 * mp + 153" by simp_all
  then have "(5 * (c + d) + 2) div 153 = mp"
    by (intro int_div_pos_eq [where r = "5 * (c + d) + 2 - 153 * mp"]) simp_all
  then show ?thesis by (simp add: c_def)
qed

definition doy_of :: "int \<Rightarrow> int \<Rightarrow> int" where
  "doy_of mp day = (153 * mp + 2) div 5 + day - 1"

text \<open>The month from March, and back.\<close>

lemma month_shift:
  fixes mp :: int
  assumes "0 \<le> mp" "mp \<le> 11"
  defines "m \<equiv> (if mp < 10 then mp + 3 else mp - 9)"
  shows "1 \<le> m \<and> m \<le> 12 \<and> (if m > 2 then m - 3 else m + 9) = mp \<and> (m \<le> 2 \<longleftrightarrow> 10 \<le> mp)"
  using assms by auto

lemma leap_of_era:
  assumes "0 \<le> yoe" "yoe < 400"
  shows "leap_year (yoe + era * 400 + 1) \<longleftrightarrow> (yoe + 1) mod 4 = 0 \<and> ((yoe + 1) mod 100 \<noteq> 0 \<or> yoe = 399)"
proof -
  have e: "yoe + era * 400 + 1 = (yoe + 1) + 4 * (100 * era)" "yoe + era * 400 + 1 = (yoe + 1) + 100 * (4 * era)"
    "yoe + era * 400 + 1 = (yoe + 1) + 400 * era" by simp_all
  have "(yoe + era * 400 + 1) mod 4 = (yoe + 1) mod 4" unfolding e(1) by (rule mod_mult_self2)
  moreover have "(yoe + era * 400 + 1) mod 100 = (yoe + 1) mod 100" unfolding e(2) by (rule mod_mult_self2)
  moreover have "(yoe + era * 400 + 1) mod 400 = (yoe + 1) mod 400" unfolding e(3) by (rule mod_mult_self2)
  moreover have "(yoe + 1) mod 400 = 0 \<longleftrightarrow> yoe = 399"
    using assms by (cases "yoe = 399") (simp_all add: mod_pos_pos_trivial)
  ultimately show ?thesis unfolding leap_year_def by metis
qed

text \<open>Every date of the calendar is one day of one era.\<close>

lemma days_of_date:
  assumes v: "valid_date (y, m, d)"
  defines "Y \<equiv> (if m \<le> 2 then y - 1 else y)" and "mp \<equiv> (if m > 2 then m - 3 else m + 9)"
  shows "0 \<le> mp \<and> mp \<le> 11 \<and> 0 \<le> doy_of mp d \<and> (5 * doy_of mp d + 2) div 153 = mp \<and>
    (doy_of mp d \<le> 364 \<or> doy_of mp d = 365 \<and> (Y mod 400 + 1) mod 4 = 0 \<and> ((Y mod 400 + 1) mod 100 \<noteq> 0 \<or> Y mod 400 = 399)) \<and>
    days_from_date y m d = Y div 400 * 146097 + (era_days (Y mod 400) + doy_of mp d) - 719468 \<and>
    (if mp < 10 then mp + 3 else mp - 9) = m"
proof -
  from v have m: "1 \<le> m" "m \<le> 12" and d: "1 \<le> d" "d \<le> month_days y m" by (auto simp: valid_date_def)
  have leap: "m = 2 \<Longrightarrow> leap_year y \<longleftrightarrow> (Y mod 400 + 1) mod 4 = 0 \<and> ((Y mod 400 + 1) mod 100 \<noteq> 0 \<or> Y mod 400 = 399)"
    using leap_of_era [of "Y mod 400" "Y div 400"] by (simp add: Y_def)
  have "days_from_date y m d = Y div 400 * 146097 + (era_days (Y mod 400) + doy_of mp d) - 719468"
    by (simp add: days_from_date_def Let_def era_days_def doy_of_def Y_def mp_def)
  moreover have mp: "0 \<le> mp" "mp \<le> 11" "(if mp < 10 then mp + 3 else mp - 9) = m" using m by (auto simp: mp_def)
  moreover have "(153 * mp + 2) div 5 + (d - 1) < (153 * (mp + 1) + 2) div 5"
    using months [OF m] d(2) unfolding mp_def month_days_def
    by (elim insertE emptyE; hypsubst; simp split: if_splits)
  with d(1) month_of_doy_unique [of "d - 1" mp] have "(5 * doy_of mp d + 2) div 153 = mp"
    by (simp add: doy_of_def algebra_simps)
  moreover have "0 \<le> doy_of mp d" using mp(1) d by (simp add: doy_of_def)
  moreover have "doy_of mp d \<le> 364 \<or> doy_of mp d = 365 \<and> (Y mod 400 + 1) mod 4 = 0 \<and> ((Y mod 400 + 1) mod 100 \<noteq> 0 \<or> Y mod 400 = 399)"
  proof (cases "m = 2")
    case True
    then have "doy_of mp d = 336 + d" by (simp add: doy_of_def mp_def)
    moreover have "d \<le> 28 \<or> d = 29 \<and> leap_year y" using d True by (auto simp: month_days_def split: if_splits)
    ultimately show ?thesis using leap [OF True] by auto
  next
    case False
    then have "doy_of mp d \<le> 364"
      using months [OF m] d(2) unfolding mp_def doy_of_def month_days_def
      by (elim insertE emptyE; hypsubst; simp split: if_splits)
    then show ?thesis by blast
  qed
  ultimately show ?thesis by simp
qed

lemma civil_of_days:
  assumes yoe: "0 \<le> yoe" "yoe < 400" and doy: "0 \<le> doy"
    "doy \<le> 364 \<or> doy = 365 \<and> (yoe + 1) mod 4 = 0 \<and> ((yoe + 1) mod 100 \<noteq> 0 \<or> yoe = 399)"
    and t: "t div 86400 = era * 146097 + (era_days yoe + doy) - 719468"
  defines "mp \<equiv> (5 * doy + 2) div 153"
  defines "m \<equiv> (if mp < 10 then mp + 3 else mp - 9)"
  shows "date_of t = (yoe + era * 400 + (if m \<le> 2 then 1 else 0), m, doy - (153 * mp + 2) div 5 + 1)"
proof -
  note u = year_of_era_unique [OF yoe doy refl]
  have z: "t div 86400 + 719468 = (era_days yoe + doy) + 146097 * era" using t by simp
  have dv: "(t div 86400 + 719468) div 146097 = era"
    unfolding z using u(2,3) by (simp add: div_mult_self2)
  have md: "(t div 86400 + 719468) mod 146097 = era_days yoe + doy"
    unfolding z mod_mult_self2 using u(2,3) by (simp add: mod_pos_pos_trivial)
  show ?thesis
    unfolding date_of_def civil_def Let_def dv md u(1) era_days_def [symmetric] add_diff_cancel_left' prod.case
    unfolding m_def mp_def ..
qed

subsection \<open>The calendar is correct\<close>

lemma valid_month_day:
  fixes doy :: int
  assumes "0 \<le> doy" "doy \<le> 365" and leap: "doy = 365 \<Longrightarrow> leap_year y"
  defines "mp \<equiv> (5 * doy + 2) div 153"
  defines "m \<equiv> (if mp < 10 then mp + 3 else mp - 9)"
  shows "valid_date (y, m, doy - (153 * mp + 2) div 5 + 1)"
proof -
  have mp: "0 \<le> mp" "mp \<le> 11" and d: "0 \<le> doy - (153 * mp + 2) div 5"
    using month_of_doy [OF assms(1,2)] unfolding mp_def by blast+
  have m: "1 \<le> m" "m \<le> 12" using mp by (auto simp: m_def)
  have le: "doy \<le> 365" "\<not> leap_year y \<Longrightarrow> doy \<le> 364" using assms(2) leap by (auto simp: order_le_less)
  have lt: "5 * doy + 2 < 153 * mp + 153" using div_bounds [of 153 "5 * doy + 2"] by (simp add: mp_def)
  have "doy - (153 * mp + 2) div 5 + 1 \<le> month_days y m"
    using months_from_March [OF mp] lt le unfolding m_def month_days_def
    by (elim insertE emptyE; hypsubst; simp split: if_splits)
  with d m show ?thesis by (simp add: valid_date_def)
qed

lemma date_of_days:
  "valid_date (date_of t) \<and> (case date_of t of (y, m, d) \<Rightarrow> days_from_date y m d = t div 86400)"
proof -
  define z where "z = t div 86400 + 719468"
  define era where "era = z div 146097"
  define doe where "doe = z mod 146097"
  define yoe where "yoe = (doe - doe div 1460 + doe div 36524 - doe div 146096) div 365"
  define doy where "doy = doe - era_days yoe"
  define mp where "mp = (5 * doy + 2) div 153"
  define m where "m = (if mp < 10 then mp + 3 else mp - 9)"
  define y where "y = yoe + era * 400 + (if m \<le> 2 then 1 else 0)"
  define d where "d = doy - (153 * mp + 2) div 5 + 1"
  have "0 \<le> doe" "doe < 146097" by (simp_all add: doe_def)
  from year_of_era [OF this] have yoe: "0 \<le> yoe" "yoe < 400" and doy: "0 \<le> doy"
    "doy \<le> 364 \<or> doy = 365 \<and> (yoe + 1) mod 4 = 0 \<and> ((yoe + 1) mod 100 \<noteq> 0 \<or> yoe = 399)"
    by (simp_all add: yoe_def doy_def)
  have "z = era * 146097 + doe" by (simp add: era_def doe_def)
  then have t: "t div 86400 = era * 146097 + (era_days yoe + doy) - 719468" by (simp add: z_def doy_def)
  have date: "date_of t = (y, m, d)"
    using civil_of_days [OF yoe doy t] by (simp only: y_def m_def d_def mp_def)
  have le: "doy \<le> 365" using doy(2) by auto
  note mp = month_of_doy [OF doy(1) le, folded mp_def]
  have shift: "1 \<le> m" "(if m > 2 then m - 3 else m + 9) = mp" "m \<le> 2 \<longleftrightarrow> 10 \<le> mp"
    using month_shift [of mp] mp by (simp_all add: m_def)
  have "leap_year y" if "doy = 365"
  proof -
    from that have "mp = 11" by (simp add: mp_def)
    then have "y = yoe + era * 400 + 1" by (simp add: y_def m_def)
    then show ?thesis using leap_of_era [OF yoe] doy(2) that by simp
  qed
  from valid_month_day [OF doy(1) le this] have valid: "valid_date (y, m, d)"
    by (simp only: m_def mp_def d_def)
  have Y: "(if m \<le> 2 then y - 1 else y) = yoe + 400 * era" by (simp add: y_def)
  have "(yoe + 400 * era) div 400 = era" "(yoe + 400 * era) mod 400 = yoe"
    using yoe by (simp_all add: div_mult_self2 mod_pos_pos_trivial)
  then have "days_from_date y m d = era * 146097 + (yoe * 365 + yoe div 4 - yoe div 100 + ((153 * mp + 2) div 5 + d - 1)) - 719468"
    unfolding days_from_date_def Let_def Y shift(2) by metis
  also have "\<dots> = t div 86400" unfolding t d_def era_days_def by simp
  finally show ?thesis using valid unfolding date by simp
qed

text \<open>
  The calendar: the date of every instant is one that exists (leap days by the Gregorian
  rule), at an hour, a minute and a day of the week in range, and \<open>days_from_civil\<close> gives its day back.
\<close>

theorem civil_round_trip:
  "case civil t of (y, m, d, hour, minute, weekday) \<Rightarrow>
     valid_date (y, m, d) \<and> days_from_date y m d = t div 86400 \<and>
     0 \<le> hour \<and> hour < 24 \<and> 0 \<le> minute \<and> minute < 60 \<and> 0 \<le> weekday \<and> weekday < 7 \<and>
     t div 60 = days_from_date y m d * 1440 + hour * 60 + minute"
proof -
  obtain y m d hour minute weekday where c: "civil t = (y, m, d, hour, minute, weekday)" by (cases "civil t") auto
  from date_of_days [of t] have d: "valid_date (y, m, d)" "days_from_date y m d = t div 86400"
    by (simp_all add: date_of_def c)
  have h: "hour = t mod 86400 div 3600" "minute = t mod 86400 mod 3600 div 60" "weekday = (t div 86400 + 4) mod 7"
    using c unfolding civil_def Let_def prod.inject by blast+
  define s where "s = t mod 86400"
  note h = h [folded s_def]
  have "0 \<le> s" "s < 86400" "3600 * hour \<le> s" "s < 3600 * hour + 3600"
    using div_bounds [of 3600 s] by (simp_all add: s_def h(1))
  then have hour: "0 \<le> hour" "hour < 24" by linarith+
  have "0 \<le> s mod 3600" "s mod 3600 < 3600" "60 * minute \<le> s mod 3600" "s mod 3600 < 60 * minute + 60"
    using div_bounds [of 60 "s mod 3600"] by (simp_all add: h(2))
  then have minute: "0 \<le> minute" "minute < 60" by linarith+
  have weekday: "0 \<le> weekday" "weekday < 7" by (simp_all add: h(3))
  have "t div 60 = t div 86400 * 1440 + s div 60" unfolding s_def by (rule div_nested) simp_all
  moreover have "s div 60 = hour * 60 + minute" unfolding h by (rule div_nested) simp_all
  ultimately have "t div 60 = days_from_date y m d * 1440 + hour * 60 + minute" unfolding d(2) by simp
  with d hour minute weekday show ?thesis unfolding c prod.case by blast
qed

text \<open>Conversely every date that exists is the date of the instants of its day.\<close>

lemma date_of_date:
  assumes v: "valid_date (y, m, d)" and t: "t div 86400 = days_from_date y m d"
  shows "date_of t = (y, m, d)"
proof -
  define Y where "Y = (if m \<le> 2 then y - 1 else y)"
  define mp where "mp = (if m > 2 then m - 3 else m + 9)"
  note * = days_of_date [OF v, folded Y_def mp_def]
  have yoe: "0 \<le> Y mod 400" "Y mod 400 < 400" by simp_all
  note D = * [THEN conjunct2, THEN conjunct2]
  note mp = D [THEN conjunct2, THEN conjunct1]
    D [THEN conjunct2, THEN conjunct2, THEN conjunct2, THEN conjunct2]
  note t' = t [unfolded D [THEN conjunct2, THEN conjunct2, THEN conjunct2, THEN conjunct1]]
  note date = civil_of_days [OF yoe D [THEN conjunct1] D [THEN conjunct2, THEN conjunct2, THEN conjunct1] t', unfolded mp]
  have "Y mod 400 + Y div 400 * 400 = Y" by (metis add.commute div_mult_mod_eq)
  with date show ?thesis by (simp add: doy_of_def Y_def)
qed

text \<open>The numbers of \<open>civil\<close> and of its inverse stay within i64.\<close>

lemma civil_in_range:
  assumes "in_i64 t"
  shows "\<bar>t div 86400\<bar> \<le> 2 ^ 47"
proof -
  define q where "q = t div 86400"
  have "86400 * q \<le> t" "t < 86400 * q + 86400" using div_bounds [of 86400 t] by (simp_all add: q_def)
  with assms have "q \<le> 2 ^ 47" "- (2 ^ 47) \<le> q" unfolding in_i64_def by simp_all
  then show ?thesis unfolding q_def [symmetric] by (simp add: abs_le_iff)
qed

end
