(* ===== verification/Cron.thy ===== *)
theory Cron
  imports Calendar Rust_Split
begin

text \<open>
  Cron schedules (grenat\_serve: src/cron.rs): the five fields, and the next time a schedule
  matches. A vector of booleans is a list; \<open>Cron_Props\<close> shows that every index is in range.
  Seconds are unbounded integers where the code has an i64: the two differ only where a time lies
  within a few years of the bounds of i64, some 290 billion years away.
\<close>

subsection \<open>Parsing\<close>

record cron =
  cr_minutes :: "bool list"
  cr_hours :: "bool list"
  cr_days :: "bool list"
  cr_months :: "bool list"
  cr_weekdays :: "bool list"
  cr_either_day :: bool

datatype cron_error =
  Five_Fields rtext
| Invalid_Value rtext
| Out_Of_Range int int int
| Invalid_Step rtext
| Empty_Range rtext

definition MONTH_NAMES :: "string list" where
  "MONTH_NAMES = [''JAN'', ''FEB'', ''MAR'', ''APR'', ''MAY'', ''JUN'', ''JUL'', ''AUG'', ''SEP'', ''OCT'', ''NOV'', ''DEC'']"

definition WEEKDAY_NAMES :: "string list" where
  "WEEKDAY_NAMES = [''SUN'', ''MON'', ''TUE'', ''WED'', ''THU'', ''FRI'', ''SAT'']"

text \<open>The closure \<open>value\<close> of \<open>field\<close>: a name, or a number in range.\<close>

definition field_value :: "int \<Rightarrow> int \<Rightarrow> string list \<Rightarrow> int \<Rightarrow> rtext \<Rightarrow> cron_error + int" where
  "field_value lo hi names first_name s =
     (case position_of (\<lambda>n. eq_ignore_ascii_case (str n) s) names of
        Some i \<Rightarrow> Inr (int i + first_name)
      | None \<Rightarrow>
          (case parse_unsigned 32 s of
             None \<Rightarrow> Inl (Invalid_Value s)
           | Some n \<Rightarrow> if n < lo \<or> hi < n then Inl (Out_Of_Range n lo hi) else Inr n))"

text \<open>The range and the step of one part of a field.\<close>

definition part_step :: "rtext \<Rightarrow> cron_error + rtext \<times> int" where
  "part_step part = (case split_once (ch CHR ''/'') part of
     None \<Rightarrow> Inr (part, 1)
   | Some (r, s) \<Rightarrow>
       (case parse_unsigned 32 s of
          None \<Rightarrow> Inl (Invalid_Step part)
        | Some n \<Rightarrow> if 0 < n then Inr (r, n) else Inl (Invalid_Step part)))"

definition part_range :: "(rtext \<Rightarrow> cron_error + int) \<Rightarrow> int \<Rightarrow> int \<Rightarrow> rtext \<Rightarrow> int \<Rightarrow> cron_error + int \<times> int" where
  "part_range value lo hi rng step =
     (if rng = str ''*'' then Inr (lo, hi)
      else (case split_once (ch CHR ''-'') rng of
        Some (a, b) \<Rightarrow>
          (case value a of Inl e \<Rightarrow> Inl e
           | Inr l \<Rightarrow> (case value b of Inl e \<Rightarrow> Inl e | Inr h \<Rightarrow> Inr (l, h)))
      | None \<Rightarrow>
          (case value rng of Inl e \<Rightarrow> Inl e
           | Inr v \<Rightarrow> if 1 < step then Inr (v, hi) else Inr (v, v))))"

text \<open>\<open>(lo..=hi).step_by(step)\<close>: the values marked in \<open>allowed\<close>.\<close>

definition stepped :: "int \<Rightarrow> int \<Rightarrow> int \<Rightarrow> int \<Rightarrow> bool" where
  "stepped lo hi step v \<longleftrightarrow> lo \<le> v \<and> v \<le> hi \<and> (v - lo) mod step = 0"

definition mark :: "int \<Rightarrow> int \<Rightarrow> int \<Rightarrow> bool list \<Rightarrow> bool list" where
  "mark lo hi step allowed =
     map (\<lambda>i. allowed ! i \<or> stepped lo hi step (int i)) [0 ..< length allowed]"

fun field_parts :: "(rtext \<Rightarrow> cron_error + int) \<Rightarrow> int \<Rightarrow> int \<Rightarrow> rtext list \<Rightarrow> bool list \<Rightarrow> cron_error + bool list" where
  "field_parts value lo hi [] allowed = Inr allowed"
| "field_parts value lo hi (part # parts) allowed =
     (case part_step part of Inl e \<Rightarrow> Inl e
      | Inr (rng, step) \<Rightarrow>
          (case part_range value lo hi rng step of Inl e \<Rightarrow> Inl e
           | Inr (l, h) \<Rightarrow>
               if h < l then Inl (Empty_Range part)
               else field_parts value lo hi parts (mark l h step allowed)))"

definition field :: "rtext \<Rightarrow> int \<Rightarrow> int \<Rightarrow> string list \<Rightarrow> int \<Rightarrow> cron_error + bool list" where
  "field text lo hi names first_name =
     field_parts (field_value lo hi names first_name) lo hi (split_at (\<lambda>c. c = ch CHR '','') text)
       (replicate (nat hi + 1) False)"

text \<open>The day of the week is read first; 7 is Sunday too.\<close>

definition cron_parse :: "rtext \<Rightarrow> cron_error + cron" where
  "cron_parse text = (case split_whitespace text of
     [minute, hour, day, month, weekday] \<Rightarrow>
       (case field weekday 0 7 WEEKDAY_NAMES 0 of Inl e \<Rightarrow> Inl e
        | Inr wd \<Rightarrow>
            let wd = (if wd ! 7 then wd[0 := True] else wd);
                wd = take 7 wd
            in (case field minute 0 59 [] 0 of Inl e \<Rightarrow> Inl e
                | Inr mi \<Rightarrow> (case field hour 0 23 [] 0 of Inl e \<Rightarrow> Inl e
                | Inr ho \<Rightarrow> (case field day 1 31 [] 0 of Inl e \<Rightarrow> Inl e
                | Inr da \<Rightarrow> (case field month 1 12 MONTH_NAMES 1 of Inl e \<Rightarrow> Inl e
                | Inr mo \<Rightarrow> Inr \<lparr>cr_minutes = mi, cr_hours = ho, cr_days = da, cr_months = mo,
                    cr_weekdays = wd, cr_either_day = (day \<noteq> str ''*'' \<and> weekday \<noteq> str ''*'')\<rparr>)))))
   | _ \<Rightarrow> Inl (Five_Fields text))"

subsection \<open>The next time\<close>

definition day_ok :: "cron \<Rightarrow> int \<Rightarrow> int \<Rightarrow> bool" where
  "day_ok c day weekday =
     (if cr_either_day c then cr_days c ! nat day \<or> cr_weekdays c ! nat weekday
      else cr_days c ! nat day \<and> cr_weekdays c ! nat weekday)"

text \<open>One round of the loop of \<open>next\<close>: the time found, or the time to look at next.\<close>

definition next_round :: "cron \<Rightarrow> int \<Rightarrow> int + int" where
  "next_round c t = (case civil t of (_, month, day, hour, minute, weekday) \<Rightarrow>
     if \<not> cr_months c ! nat month \<or> \<not> day_ok c day weekday then Inr ((t div 86400 + 1) * 86400)
     else if \<not> cr_hours c ! nat hour then Inr ((t div 3600 + 1) * 3600)
     else if \<not> cr_minutes c ! nat minute then Inr (t + 60)
     else Inl t)"

fun next_loop :: "nat \<Rightarrow> cron \<Rightarrow> int \<Rightarrow> int option" where
  "next_loop rounds c t =
     (if rounds = 0 then None
      else (case next_round c t of Inl found \<Rightarrow> Some found | Inr t' \<Rightarrow> next_loop (rounds - 1) c t'))"

declare next_loop.simps [simp del]

definition ROUNDS :: nat where
  "ROUNDS = 4 * 366 * 24 * 60"

definition cron_next :: "cron \<Rightarrow> int \<Rightarrow> int option" where
  "cron_next c after = next_loop ROUNDS c ((after div 60 + 1) * 60)"

end
