(* ===== verification/Cron_Props.thy ===== *)
theory Cron_Props
  imports Cron
begin

text \<open>
  Properties of schedules: a parsed schedule indexes within its tables, and \<open>next\<close> gives the
  first minute that matches, or nothing when no minute ever does: the rounds it is given suffice.
\<close>

subsection \<open>Parsed schedules\<close>

text \<open>Which values a table allows, and that there are some, all in the range of the field.\<close>

definition table_ok :: "int \<Rightarrow> int \<Rightarrow> bool list \<Rightarrow> bool" where
  "table_ok lo hi table \<longleftrightarrow> length table = nat hi + 1 \<and> (\<exists>v. lo \<le> v \<and> v \<le> hi \<and> table ! nat v)"

definition cron_ok :: "cron \<Rightarrow> bool" where
  "cron_ok c \<longleftrightarrow> table_ok 0 59 (cr_minutes c) \<and> table_ok 0 23 (cr_hours c) \<and> table_ok 1 31 (cr_days c) \<and>
     table_ok 1 12 (cr_months c) \<and> table_ok 0 6 (cr_weekdays c) \<and>
     (cr_either_day c \<or> (\<forall>d. 1 \<le> d \<and> d \<le> 31 \<longrightarrow> cr_days c ! nat d) \<or> (\<forall>w. 0 \<le> w \<and> w \<le> 6 \<longrightarrow> cr_weekdays c ! nat w))"

lemma length_mark [simp]: "length (mark lo hi step allowed) = length allowed"
  by (simp add: mark_def)

lemma mark_nth [simp]:
  "i < length allowed \<Longrightarrow> mark lo hi step allowed ! i \<longleftrightarrow> allowed ! i \<or> stepped lo hi step (int i)"
  by (simp add: mark_def)

lemma field_value_range:
  assumes "field_value lo hi names first s = Inr v" "first = lo" "int (length names) \<le> hi - lo + 1"
  shows "lo \<le> v \<and> v \<le> hi"
  using assms by (auto simp: field_value_def split: option.splits if_splits dest: position_of_less)

lemma part_range_in:
  assumes "part_range value lo hi r step = Inr (l, h)" "lo \<le> hi" "\<And>s v. value s = Inr v \<Longrightarrow> lo \<le> v \<and> v \<le> hi"
  shows "lo \<le> l \<and> l \<le> hi \<and> lo \<le> h \<and> h \<le> hi"
  using assms by (auto simp: part_range_def split: if_splits option.splits sum.splits prod.splits)

lemma field_parts_ok:
  assumes "field_parts value lo hi parts allowed = Inr table" "0 \<le> lo" "lo \<le> hi" "length allowed = nat hi + 1"
    and "\<And>s v. value s = Inr v \<Longrightarrow> lo \<le> v \<and> v \<le> hi"
    and "parts \<noteq> [] \<or> (\<exists>v. lo \<le> v \<and> v \<le> hi \<and> allowed ! nat v)"
  shows "table_ok lo hi table"
  using assms(1,4,6)
proof (induction parts arbitrary: allowed)
  case (Cons part parts)
  from Cons.prems(1) obtain r step l h where p: "part_step part = Inr (r, step)"
    "part_range value lo hi r step = Inr (l, h)" "\<not> h < l"
    and rest: "field_parts value lo hi parts (mark l h step allowed) = Inr table"
    by (auto split: sum.splits prod.splits if_splits)
  from part_range_in [OF p(2) assms(3,5)] have l: "lo \<le> l" "l \<le> hi" by auto
  then have "mark l h step allowed ! nat l"
    using Cons.prems(2) assms(2) p(3) by (simp add: stepped_def)
  with l show ?case by (intro Cons.IH [OF rest]) (use Cons.prems(2) in auto)
qed (auto simp: table_ok_def)

lemma field_ok:
  assumes "field text lo hi names first = Inr table" "0 \<le> lo" "lo \<le> hi" "names \<noteq> [] \<longrightarrow> first = lo"
    "int (length names) \<le> hi - lo + 1"
  shows "table_ok lo hi table"
proof -
  have "lo \<le> v \<and> v \<le> hi" if "field_value lo hi names first s = Inr v" for s v
    using that assms(4,5) field_value_range [of lo hi names first s v]
    by (cases "names = []") (auto simp: field_value_def split: option.splits if_splits)
  with assms(1-3) show ?thesis unfolding field_def by (intro field_parts_ok [OF assms(1)[unfolded field_def]]) auto
qed

text \<open>A lone star allows everything.\<close>

lemma field_star:
  assumes "field (str ''*'') lo hi names first = Inr table" "0 \<le> lo" "lo \<le> v" "v \<le> hi"
  shows "table ! nat v"
proof -
  have "part_step (str ''*'') = Inr (str ''*'', 1)" by (simp add: part_step_def)
  moreover have "split_at (\<lambda>c. c = ch CHR '','') (str ''*'') = [str ''*'']" by simp
  ultimately have "table = mark lo hi 1 (replicate (nat hi + 1) False)"
    using assms by (simp add: field_def part_range_def)
  with assms show ?thesis by (simp add: stepped_def)
qed

lemma cron_parse_ok:
  assumes "cron_parse text = Inr c"
  shows "cron_ok c"
proof -
  from assms obtain minute hour day month weekday wd0 where
    wd0: "field weekday 0 7 WEEKDAY_NAMES 0 = Inr wd0"
    and f: "field minute 0 59 [] 0 = Inr (cr_minutes c)" "field hour 0 23 [] 0 = Inr (cr_hours c)"
      "field day 1 31 [] 0 = Inr (cr_days c)" "field month 1 12 MONTH_NAMES 1 = Inr (cr_months c)"
    and wd: "cr_weekdays c = take 7 (if wd0 ! 7 then wd0[0 := True] else wd0)"
    and e: "cr_either_day c \<longleftrightarrow> day \<noteq> str ''*'' \<and> weekday \<noteq> str ''*''"
    by (auto simp: cron_parse_def Let_def split: list.splits sum.splits)
  have t: "table_ok 0 59 (cr_minutes c)" "table_ok 0 23 (cr_hours c)" "table_ok 1 31 (cr_days c)" "table_ok 1 12 (cr_months c)"
    "table_ok 0 7 wd0"
    using field_ok [OF f(1)] field_ok [OF f(2)] field_ok [OF f(3)] field_ok [OF f(4)] field_ok [OF wd0]
    by (simp_all add: MONTH_NAMES_def WEEKDAY_NAMES_def)
  have w: "table_ok 0 6 (cr_weekdays c)"
  proof -
    from t(5) obtain v where v: "0 \<le> v" "v \<le> 7" "wd0 ! nat v" and l: "length wd0 = 8" by (auto simp: table_ok_def)
    let ?w = "if v = 7 then 0 else v"
    have "cr_weekdays c ! nat ?w" using v l by (auto simp: wd nth_list_update)
    moreover have "0 \<le> ?w" "?w \<le> 6" using v by auto
    ultimately show ?thesis using l by (auto simp: table_ok_def wd)
  qed
  have "cr_either_day c \<or> (\<forall>d. 1 \<le> d \<and> d \<le> 31 \<longrightarrow> cr_days c ! nat d) \<or> (\<forall>w. 0 \<le> w \<and> w \<le> 6 \<longrightarrow> cr_weekdays c ! nat w)"
  proof (cases "day = str ''*''")
    case True
    with field_star [OF f(3) [unfolded True]] show ?thesis by simp
  next
    case False
    have "cr_weekdays c ! nat v" if "weekday = str ''*''" "0 \<le> v" "v \<le> 6" for v
      using field_star [OF wd0 [unfolded that(1)], of v] that t(5) by (auto simp: wd nth_list_update table_ok_def)
    with False e show ?thesis by auto
  qed
  with t w show ?thesis by (simp add: cron_ok_def)
qed

subsection \<open>Years\<close>

lemma era_whole: "x = 400 * e + r \<Longrightarrow> e * 146097 + r * 365 = 365 * x + e * (97 :: int)"
  by simp

lemma era_add: "e * 146097 + r * 365 = 365 * x + e * 97 \<Longrightarrow> a = e * 100 + b \<Longrightarrow> c = e * 4 + d \<Longrightarrow>
    e * 146097 + (r * 365 + b - d) = 365 * x + a - c + (e :: int)"
  by simp

lemma days_of_years:
  "days_from_date y m d =
     year_days (if m \<le> 2 then y - 1 else y) + (153 * (if m > 2 then m - 3 else m + 9) + 2) div 5 + d - 719469"
proof -
  have era: "x div 400 * 146097 + (x mod 400 * 365 + x mod 400 div 4 - x mod 400 div 100) = year_days x" for x :: int
  proof -
    have "x div 4 = x div 400 * 100 + (x mod 400) div 4" "x div 100 = x div 400 * 4 + (x mod 400) div 100"
      by (rule div_nested; simp)+
    moreover have "x = 400 * (x div 400) + x mod 400" by (metis mult_div_mod_eq)
    ultimately show ?thesis unfolding year_days_def by (intro era_add era_whole)
  qed
  have sum: "e * 146097 + (q * 365 + a - b + (c + d - 1)) - 719468 = (e * 146097 + (q * 365 + a - b)) + c + d - 719469"
    for a b c d e q :: int by simp
  show ?thesis unfolding days_from_date_def Let_def sum era ..
qed

definition new_year :: "int \<Rightarrow> int" where
  "new_year y = days_from_date y 1 1"

lemma new_year_next: "new_year (y + 1) = new_year y + 365 + (if leap_year y then 1 else 0)"
  using year_days_rule [of y] by (simp add: new_year_def days_of_years leap_year_def)

lemma new_year_le: "new_year y + 365 * int k \<le> new_year (y + int k)" "new_year (y + int k) \<le> new_year y + 366 * int k"
proof (induction k)
  case (Suc k)
  { case 1 show ?case using Suc new_year_next [of "y + int k"] by (simp add: algebra_simps split: if_splits) }
  { case 2 show ?case using Suc new_year_next [of "y + int k"] by (simp add: algebra_simps split: if_splits) }
qed simp_all

lemma date_in_year:
  assumes "valid_date (y, m, d)"
  shows "new_year y \<le> days_from_date y m d \<and> days_from_date y m d < new_year (y + 1)"
proof -
  from assms have m: "1 \<le> m" "m \<le> 12" "1 \<le> d" "d \<le> month_days y m" by (auto simp: valid_date_def)
  have n: "new_year y = year_days (y - 1) + 306 + 1 - 719469" by (simp add: new_year_def days_of_years)
  have yd: "year_days y = year_days (y - 1) + 365 + (if leap_year y then 1 else 0)"
    using year_days_rule [of y] by (simp add: leap_year_def)
  show ?thesis
    using months [OF m(1,2)] m(3,4) unfolding new_year_next n days_of_years month_days_def
    by (elim insertE emptyE; hypsubst; simp add: yd split: if_splits)
qed

lemma leap_within_eight: "\<exists>k. 1 \<le> k \<and> k \<le> 8 \<and> leap_year (y + int k)"
proof -
  define q where "q = y div 4"
  have q: "4 * q \<le> y" "y < 4 * q + 4" using div_bounds [of 4 y] by (simp_all add: q_def)
  define x where "x = 4 * q + 4"
  have m4: "x mod 4 = 0" "(x + 4) mod 4 = 0" by (simp_all add: x_def)
  have "x mod 100 \<noteq> 0 \<or> (x + 4) mod 100 \<noteq> 0"
  proof (rule ccontr)
    assume "\<not> ?thesis"
    then have "100 dvd x" "100 dvd x + 4" by (auto simp: mod_eq_0_iff_dvd)
    then have "100 dvd (4 :: int)" by (metis dvd_add_right_iff)
    then show False by simp
  qed
  then have "leap_year x \<or> leap_year (x + 4)" using m4 by (auto simp: leap_year_def)
  then show ?thesis
  proof
    assume "leap_year x"
    then have "leap_year (y + int (nat (x - y)))" using q by (simp add: x_def)
    then show ?thesis using q by (intro exI [of _ "nat (x - y)"]) (simp add: x_def nat_le_iff le_nat_iff)
  next
    assume "leap_year (x + 4)"
    then have "leap_year (y + int (nat (x + 4 - y)))" using q by (simp add: x_def)
    then show ?thesis using q by (intro exI [of _ "nat (x + 4 - y)"]) (simp add: x_def nat_le_iff le_nat_iff)
  qed
qed

text \<open>A month and a day of it that exist are there again within eight years.\<close>

lemma date_again:
  assumes "valid_date (y, m, d)"
  shows "\<exists>k. 1 \<le> k \<and> k \<le> 8 \<and> valid_date (y0 + int k, m, d)"
proof (cases "m = 2")
  case True
  obtain k where "1 \<le> k" "k \<le> 8" "leap_year (y0 + int k)" using leap_within_eight by blast
  with assms True show ?thesis by (intro exI [of _ k]) (auto simp: valid_date_def month_days_def split: if_splits)
next
  case False
  with assms show ?thesis by (intro exI [of _ 1]) (auto simp: valid_date_def month_days_def split: if_splits)
qed

subsection \<open>Minutes that match\<close>

text \<open>The time of a schedule: a whole minute whose date and time all its fields allow.\<close>

definition schedule_matches :: "cron \<Rightarrow> int \<Rightarrow> bool" where
  "schedule_matches c t \<longleftrightarrow> t mod 60 = 0 \<and> (case civil t of (_, month, day, hour, minute, weekday) \<Rightarrow>
     cr_months c ! nat month \<and> day_ok c day weekday \<and> cr_hours c ! nat hour \<and> cr_minutes c ! nat minute)"

definition day_due :: "cron \<Rightarrow> int \<Rightarrow> bool" where
  "day_due c D \<longleftrightarrow> (case date_of (D * 86400) of (_, month, day) \<Rightarrow>
     cr_months c ! nat month \<and> day_ok c day ((D + 4) mod 7))"

definition hour_due :: "cron \<Rightarrow> int \<Rightarrow> bool" where
  "hour_due c h \<longleftrightarrow> cr_hours c ! nat (h mod 24)"

definition minute_due :: "cron \<Rightarrow> int \<Rightarrow> bool" where
  "minute_due c n \<longleftrightarrow> cr_minutes c ! nat (n mod 60)"

definition due :: "cron \<Rightarrow> int \<Rightarrow> bool" where
  "due c n \<longleftrightarrow> day_due c (n div 60 div 24) \<and> hour_due c (n div 60) \<and> minute_due c n"

text \<open>What \<open>civil\<close> gives for the start of a minute, in minutes.\<close>

lemma minute_parts:
  fixes n :: int
  shows "n * 60 div 60 = n" "n * 60 div 3600 = n div 60" "n * 60 div 86400 = n div 60 div 24"
    "n * 60 mod 86400 div 3600 = n div 60 mod 24" "n * 60 mod 86400 mod 3600 div 60 = n mod 60"
proof -
  show "n * 60 div 60 = n" by simp
  show h: "n * 60 div 3600 = n div 60" using div_mult_mult2 [of 60 n 60] by simp
  show "n * 60 div 86400 = n div 60 div 24"
    using div_mult_mult2 [of 60 n 1440] by (simp add: div_mult2_eq' [symmetric] zdiv_zmult2_eq [symmetric])
  have m: "n * 60 mod 86400 = (n mod 1440) * 60" using mult_mod_left [of n 1440 60] by simp
  have "n * 60 mod 86400 mod 3600 = n * 60 mod 3600" by (rule mod_mod_cancel) simp
  also have "\<dots> = (n mod 60) * 60" using mult_mod_left [of n 60 60] by simp
  finally show "n * 60 mod 86400 mod 3600 div 60 = n mod 60" by simp
  have "(n mod 1440) * 60 div 3600 = n mod 1440 div 60" using div_mult_mult2 [of 60 "n mod 1440" 60] by simp
  also have "n mod 1440 div 60 = n div 60 mod 24"
    using zmod_zmult2_eq [of 24 n 60] by (intro int_div_pos_eq [where r = "n mod 60"]) simp_all
  finally show "n * 60 mod 86400 div 3600 = n div 60 mod 24" using m by simp
qed

lemma date_of_day: "t div 86400 = u div 86400 \<Longrightarrow> date_of t = date_of u"
  unfolding date_of_def civil_def Let_def prod.case by (simp only:)

lemma civil_minute:
  "civil (n * 60) = (case date_of (n div 60 div 24 * 86400) of (y, m, d) \<Rightarrow>
     (y, m, d, n div 60 mod 24, n mod 60, (n div 60 div 24 + 4) mod 7))"
proof -
  obtain y m d hour minute weekday where c: "civil (n * 60) = (y, m, d, hour, minute, weekday)"
    by (cases "civil (n * 60)") auto
  have "hour = n * 60 mod 86400 div 3600" "minute = n * 60 mod 86400 mod 3600 div 60"
    "weekday = (n * 60 div 86400 + 4) mod 7"
    using c unfolding civil_def Let_def prod.inject by blast+
  note parts = this [unfolded minute_parts]
  have "n div 60 div 24 * 86400 div 86400 = n * 60 div 86400"
    unfolding minute_parts(3) by (rule nonzero_mult_div_cancel_right) simp
  from date_of_day [OF this] have "date_of (n div 60 div 24 * 86400) = (y, m, d)" by (simp only: date_of_def c prod.case)
  then show ?thesis unfolding c by (simp only: prod.case parts)
qed

lemma schedule_matches_due: "schedule_matches c t \<longleftrightarrow> t mod 60 = 0 \<and> due c (t div 60)"
proof (cases "t mod 60 = 0")
  case True
  then have "t = t div 60 * 60" by (metis add.right_neutral div_mult_mod_eq)
  then obtain n where t: "t = n * 60" by blast
  show ?thesis
    unfolding schedule_matches_def due_def day_due_def hour_due_def minute_due_def t civil_minute minute_parts(1)
    by (simp split: prod.splits)
qed (simp add: schedule_matches_def)

text \<open>A round of the loop, in minutes.\<close>

definition skip_to :: "cron \<Rightarrow> int \<Rightarrow> int" where
  "skip_to c n =
     (if \<not> day_due c (n div 60 div 24) then (n div 60 div 24 + 1) * 1440
      else if \<not> hour_due c (n div 60) then (n div 60 + 1) * 60 else n + 1)"

lemma next_round_minutes: "next_round c (n * 60) = (if due c n then Inl (n * 60) else Inr (skip_to c n * 60))"
  unfolding next_round_def civil_minute minute_parts skip_to_def due_def day_due_def hour_due_def minute_due_def
  by (simp add: algebra_simps split: prod.splits)

subsection \<open>The search\<close>

lemma skip_later: "n < skip_to c n"
proof -
  have "n < (n div 60 div 24 + 1) * 1440" "n < (n div 60 + 1) * 60"
    using div_bounds [of 60 n] div_bounds [of 24 "n div 60"] by simp_all
  then show ?thesis by (simp add: skip_to_def)
qed

lemma same_day: "(n :: int) \<le> m \<Longrightarrow> m < (n div 60 div 24 + 1) * 1440 \<Longrightarrow> m div 60 div 24 = n div 60 div 24"
proof -
  assume nm: "n \<le> m" and m: "m < (n div 60 div 24 + 1) * 1440"
  define h k where "h = n div 60" and "k = m div 60"
  have "h \<le> k" using nm by (simp add: h_def k_def zdiv_mono1)
  moreover have "60 * k \<le> m" using div_bounds [of 60 m] by (simp add: k_def)
  then have "k < (h div 24 + 1) * 24" using m by (simp add: h_def)
  ultimately show ?thesis
    using div_bounds [of 24 h] unfolding h_def [symmetric] k_def [symmetric]
    by (intro int_div_pos_eq [where r = "k - 24 * (h div 24)"]) simp_all
qed

lemma same_hour: "(n :: int) \<le> m \<Longrightarrow> m < (n div 60 + 1) * 60 \<Longrightarrow> m div 60 = n div 60"
  using div_bounds [of 60 n] by (intro int_div_pos_eq [where r = "m - 60 * (n div 60)"]) simp_all

text \<open>Nothing that is due is skipped.\<close>

lemma skip_not_due:
  assumes "\<not> due c n" "n \<le> m" "m < skip_to c n"
  shows "\<not> due c m"
proof (cases "day_due c (n div 60 div 24)")
  case False
  with assms same_day [of n m] show ?thesis by (auto simp: skip_to_def due_def)
next
  case day: True
  show ?thesis
  proof (cases "hour_due c (n div 60)")
    case False
    with day assms same_hour [of n m] show ?thesis by (auto simp: skip_to_def due_def)
  next
    case True
    with day assms have "m = n" by (auto simp: skip_to_def)
    with assms(1) show ?thesis by simp
  qed
qed

lemma skip_le: "\<not> due c n \<Longrightarrow> due c T \<Longrightarrow> n \<le> T \<Longrightarrow> skip_to c n \<le> T"
  using skip_not_due by force

lemma next_loop_step:
  "next_loop (Suc k) c (n * 60) = (if due c n then Some (n * 60) else next_loop k c (skip_to c n * 60))"
  by (subst next_loop.simps) (simp add: next_round_minutes)

lemma next_loop_sound:
  "next_loop k c (n * 60) = Some t \<Longrightarrow> \<exists>r. t = r * 60 \<and> n \<le> r \<and> due c r \<and> (\<forall>m. n \<le> m \<and> m < r \<longrightarrow> \<not> due c m)"
proof (induction k arbitrary: n)
  case 0
  then show ?case by (simp add: next_loop.simps)
next
  case (Suc k)
  show ?case
  proof (cases "due c n")
    case True
    with Suc.prems show ?thesis by (auto simp: next_loop_step)
  next
    case False
    with Suc obtain r where "t = r * 60" "skip_to c n \<le> r" "due c r" "\<forall>m. skip_to c n \<le> m \<and> m < r \<longrightarrow> \<not> due c m"
      by (auto simp: next_loop_step)
    with skip_not_due [OF False] skip_later [of n c] show ?thesis by (intro exI [of _ r]) force
  qed
qed

text \<open>
  How many rounds find what is due: one a minute at worst, but only one an hour until the hour
  is found, once the search is at the start of one.
\<close>

lemma found_by_minutes:
  "due c T \<Longrightarrow> n \<le> T \<Longrightarrow> nat (T - n) < k \<Longrightarrow> next_loop k c (n * 60) \<noteq> None"
proof (induction k arbitrary: n)
  case (Suc k)
  show ?case
  proof (cases "due c n")
    case False
    with Suc.prems skip_le [OF False] have "skip_to c n \<le> T" by blast
    moreover have "nat (T - skip_to c n) < k" using Suc.prems(2,3) calculation skip_later [of n c] by linarith
    ultimately have "next_loop k c (skip_to c n * 60) \<noteq> None" using Suc.prems(1) Suc.IH by blast
    with False show ?thesis by (simp add: next_loop_step)
  qed (simp add: next_loop_step)
qed simp

definition some_minute :: "cron \<Rightarrow> bool" where
  "some_minute c \<longleftrightarrow> (\<exists>v. 0 \<le> v \<and> v \<le> 59 \<and> cr_minutes c ! nat v)"

lemma found_in_hour:
  assumes "some_minute c" "n mod 60 = 0" "day_due c (n div 60 div 24)" "hour_due c (n div 60)" "60 \<le> k"
  shows "next_loop k c (n * 60) \<noteq> None"
proof -
  from assms(1) obtain v where v: "0 \<le> v" "v \<le> 59" "cr_minutes c ! nat v" by (auto simp: some_minute_def)
  from assms(2) have n: "n = 60 * (n div 60)" by (metis add.right_neutral mult_div_mod_eq)
  have "(n + v) div 60 = n div 60" using n v by (intro same_hour) simp_all
  moreover have "(60 * q + v) mod 60 = v" for q using v by (simp add: mod_pos_pos_trivial)
  then have "(n + v) mod 60 = v" by (subst n)
  ultimately have "due c (n + v)" using assms v by (simp add: due_def minute_due_def)
  then show ?thesis by (rule found_by_minutes) (use v assms in simp_all)
qed

lemma hours_mono: "(n :: int) \<le> T \<Longrightarrow> n div 60 \<le> T div 60"
  by (rule zdiv_mono1) simp_all

lemma skip_hours:
  assumes "\<not> (day_due c (n div 60 div 24) \<and> hour_due c (n div 60))"
  shows "skip_to c n mod 60 = 0 \<and> n div 60 + 1 \<le> skip_to c n div 60"
proof -
  have "n div 60 + 1 \<le> (n div 60 div 24 + 1) * 24" using div_bounds [of 24 "n div 60"] by simp
  moreover have "(n div 60 div 24 + 1) * 1440 = (n div 60 div 24 + 1) * 24 * 60" by simp
  ultimately obtain h where "skip_to c n = h * 60" "n div 60 + 1 \<le> h"
    using assms unfolding skip_to_def by (metis order_refl)
  moreover have "h * 60 mod 60 = 0" "h * 60 div 60 = h" for h :: int by simp_all
  ultimately show ?thesis by metis
qed

lemma rounds_left:
  "a + 1 \<le> b \<Longrightarrow> b \<le> t \<Longrightarrow> nat (t - a) + 60 \<le> Suc k \<Longrightarrow> nat (t - b) + 60 \<le> k"
  "a + 1 \<le> b \<Longrightarrow> b \<le> t \<Longrightarrow> r < 60 \<Longrightarrow> nat (60 - r) + nat (t - a) + 60 \<le> Suc k \<Longrightarrow> nat (t - b) + 60 \<le> k"
  "r < 59 \<Longrightarrow> nat (60 - r) + nat (t - a) + 60 \<le> Suc k \<Longrightarrow> nat (60 - (r + 1)) + nat (t - a) + 60 \<le> k"
  for a b t r :: int
  by linarith+

lemma found_from_hour:
  assumes "some_minute c" "due c T"
  shows "n mod 60 = 0 \<Longrightarrow> n \<le> T \<Longrightarrow> nat (T div 60 - n div 60) + 60 \<le> k \<Longrightarrow> next_loop k c (n * 60) \<noteq> None"
proof (induction k arbitrary: n)
  case (Suc k)
  show ?case
  proof (cases "day_due c (n div 60 div 24) \<and> hour_due c (n div 60)")
    case True
    with Suc.prems show ?thesis by (intro found_in_hour [OF assms(1)]) simp_all
  next
    case False
    then have nd: "\<not> due c n" by (auto simp: due_def)
    note skip = skip_hours [OF False] and le = skip_le [OF nd assms(2) Suc.prems(2)]
    have "nat (T div 60 - skip_to c n div 60) + 60 \<le> k"
      by (rule rounds_left(1) [OF skip [THEN conjunct2] hours_mono [OF le] Suc.prems(3)])
    with Suc.IH [OF _ le] skip have "next_loop k c (skip_to c n * 60) \<noteq> None" by blast
    with nd show ?thesis by (simp add: next_loop_step)
  qed
qed simp

lemma found:
  assumes "some_minute c" "due c T"
  shows "n \<le> T \<Longrightarrow> nat (60 - n mod 60) + nat (T div 60 - n div 60) + 60 \<le> k \<Longrightarrow> next_loop k c (n * 60) \<noteq> None"
proof (induction k arbitrary: n)
  case (Suc k)
  show ?case
  proof (cases "due c n")
    case False
    note le = skip_le [OF False assms(2) Suc.prems(1)]
    have r: "0 \<le> n mod 60" "n mod 60 < 60" by simp_all
    have "next_loop k c (skip_to c n * 60) \<noteq> None"
    proof (cases "day_due c (n div 60 div 24) \<and> hour_due c (n div 60) \<and> n mod 60 < 59")
      case True
      then have s: "skip_to c n = n + 1" by (simp add: skip_to_def)
      obtain q m where n: "n = m + 60 * q" "q = n div 60" "m = n mod 60" by (metis mod_mult_div_eq)
      have m: "0 \<le> m" "m < 59" using True r unfolding n(3) by blast+
      have n1: "n + 1 = (m + 1) + 60 * q" using n(1) by simp
      have p: "(n + 1) div 60 = q" "(n + 1) mod 60 = m + 1"
        unfolding n1 by (rule div_mod_parts; use m in simp)+
      have "nat (60 - (n + 1) mod 60) + nat (T div 60 - (n + 1) div 60) + 60 \<le> k"
        unfolding p by (rule rounds_left(3) [OF m(2) Suc.prems(2) [folded n(2,3)]])
      with Suc.IH [of "n + 1"] le show ?thesis unfolding s by blast
    next
      case F: False
      have "skip_to c n mod 60 = 0 \<and> n div 60 + 1 \<le> skip_to c n div 60"
      proof (cases "day_due c (n div 60 div 24) \<and> hour_due c (n div 60)")
        case True
        with F r have "n mod 60 = 59" by simp
        moreover have "n = 60 * (n div 60) + n mod 60" by simp
        ultimately have "n + 1 = (n div 60 + 1) * 60" by simp
        moreover have "h * 60 mod 60 = 0" "h * 60 div 60 = h" for h :: int by simp_all
        moreover have "skip_to c n = n + 1" using True by (simp add: skip_to_def)
        ultimately show ?thesis by (metis order_refl)
      qed (rule skip_hours)
      then show ?thesis
        using rounds_left(2) [OF _ hours_mono [OF le] r(2) Suc.prems(2)] by (intro found_from_hour [OF assms _ le]) blast+
    qed
    with False show ?thesis by (simp add: next_loop_step)
  qed (simp add: next_loop_step)
qed simp

subsection \<open>A day that matches comes again\<close>

lemma day_due_date:
  assumes "valid_date (y, m, d)"
  shows "day_due c (days_from_date y m d) \<longleftrightarrow> cr_months c ! nat m \<and> day_ok c d ((days_from_date y m d + 4) mod 7)"
proof -
  have "days_from_date y m d * 86400 div 86400 = days_from_date y m d"
    by (rule nonzero_mult_div_cancel_right) simp
  from date_of_date [OF assms this] show ?thesis by (simp add: day_due_def)
qed

lemma years_later:
  assumes "valid_date (y, m, d)" "1 \<le> k" "k \<le> 8" "new_year y0 \<le> D0" "D0 < new_year (y0 + 1)" "y = y0 + int k"
  shows "D0 < days_from_date y m d \<and> days_from_date y m d \<le> D0 + 3294"
proof -
  note in_year = date_in_year [OF assms(1), unfolded assms(6)]
  have "new_year (y0 + 1) + 365 * int (k - 1) \<le> new_year (y0 + 1 + int (k - 1))" by (rule new_year_le)
  moreover have "y0 + 1 + int (k - 1) = y0 + int k" using assms(2) by simp
  moreover have "new_year (y0 + int (k + 1)) \<le> new_year y0 + 366 * int (k + 1)" by (rule new_year_le)
  ultimately show ?thesis using in_year assms(2-5) unfolding assms(6) by (simp add: algebra_simps)
qed

lemma day_again:
  assumes ok: "cron_ok c" and due: "day_due c D"
  shows "\<exists>D'. D0 < D' \<and> D' \<le> D0 + 3300 \<and> day_due c D'"
proof -
  obtain y m d where date: "date_of (D * 86400) = (y, m, d)" by (cases "date_of (D * 86400)") auto
  have day: "D * 86400 div 86400 = D" by (rule nonzero_mult_div_cancel_right) simp
  from date_of_days [of "D * 86400"] have v: "valid_date (y, m, d)" by (simp add: date)
  from due have m: "cr_months c ! nat m" and dw: "day_ok c d ((D + 4) mod 7)" by (simp_all add: day_due_def date)
  from v have d: "1 \<le> d" "d \<le> 31" "1 \<le> m" "m \<le> 12" by (auto simp: valid_date_def month_days_def split: if_splits)
  obtain y0 m0 d0 where date0: "date_of (D0 * 86400) = (y0, m0, d0)" by (cases "date_of (D0 * 86400)") auto
  have "D0 * 86400 div 86400 = D0" by (rule nonzero_mult_div_cancel_right) simp
  with date_of_days [of "D0 * 86400"] have "valid_date (y0, m0, d0)" "days_from_date y0 m0 d0 = D0" by (simp_all add: date0)
  with date_in_year have y0: "new_year y0 \<le> D0" "D0 < new_year (y0 + 1)" by auto
  define w where "w = (D + 4) mod 7"
  have w: "0 \<le> w" "w \<le> 6" unfolding w_def by (simp_all add: pos_mod_bound zle_diff1_eq [symmetric] del: zle_diff1_eq)
  have any: "(\<forall>w. 0 \<le> w \<and> w < 7 \<longrightarrow> day_ok c d w) \<or> (\<forall>d. 1 \<le> d \<and> d \<le> 31 \<longrightarrow> day_ok c d w)"
    using ok dw d w unfolding w_def [symmetric] by (auto simp: cron_ok_def day_ok_def)
  then show ?thesis
  proof
    assume "\<forall>w. 0 \<le> w \<and> w < 7 \<longrightarrow> day_ok c d w"
    moreover obtain k where k: "1 \<le> k" "k \<le> 8" "valid_date (y0 + int k, m, d)" using date_again [OF v] by blast
    ultimately have "day_due c (days_from_date (y0 + int k) m d)" using m by (simp add: day_due_date)
    with years_later [OF k(3,1,2) y0 refl] show ?thesis by (intro exI [of _ "days_from_date (y0 + int k) m d"]) simp
  next
    assume all: "\<forall>d. 1 \<le> d \<and> d \<le> 31 \<longrightarrow> day_ok c d w"
    define F where "F = days_from_date (y0 + 1) m 1"
    define i where "i = (w - (F + 4)) mod 7"
    have i: "0 \<le> i" "i < 7" by (simp_all add: i_def)
    have v': "valid_date (y0 + int 1, m, 1 + i)" using months [OF d(3,4)] i by (auto simp: valid_date_def month_days_def)
    have "days_from_date (y0 + int 1) m (1 + i) = F + i" by (simp add: F_def days_of_years)
    moreover have "(F + i + 4) mod 7 = w"
    proof -
      have "(F + i + 4) mod 7 = ((F + 4) + (w - (F + 4)) mod 7) mod 7" by (simp add: i_def algebra_simps)
      also have "\<dots> = w mod 7" unfolding mod_add_right_eq by simp
      finally show ?thesis using w by simp
    qed
    ultimately have "day_due c (F + i)" using day_due_date [OF v', of c] all m i by simp
    with years_later [OF v' _ _ y0 refl] \<open>days_from_date _ _ _ = F + i\<close> show ?thesis by (intro exI [of _ "F + i"]) simp
  qed
qed

lemma rounds_bound:
  "0 \<le> r \<Longrightarrow> t \<le> h + 79300 \<Longrightarrow> nat (60 - r) + nat (t - h) + 60 \<le> 80000" for r t h :: int
  by linarith

lemma due_again:
  assumes "cron_ok c" "due c T"
  shows "\<exists>T'. n \<le> T' \<and> due c T' \<and> T' div 60 \<le> n div 60 + 79300"
proof -
  define D0 where "D0 = n div 60 div 24"
  define q where "q = T div 60 mod 24"
  define r where "r = T mod 60"
  from assms day_again [of c "T div 60 div 24" D0] obtain D where D: "D0 < D" "D \<le> D0 + 3300" "day_due c D"
    by (auto simp: due_def)
  have q: "0 \<le> q" "q < 24" and r: "0 \<le> r" "r < 60" by (simp_all add: q_def r_def)
  define T' where "T' = r + 60 * (q + 24 * D)"
  have h: "T' div 60 = q + 24 * D" "T' mod 60 = r" unfolding T'_def by (rule div_mod_parts [OF r])+
  note div_mod_parts [OF q, of D]
  then have "due c T'"
    using assms(2) D(3) unfolding due_def hour_due_def minute_due_def h by (simp add: q_def r_def)
  moreover have "24 * D0 \<le> n div 60" "n div 60 < 24 * D0 + 24" using div_bounds [of 24 "n div 60"] by (simp_all add: D0_def)
  then have hours: "n div 60 < q + 24 * D" "q + 24 * D \<le> n div 60 + 79300" using D q by simp_all
  moreover have "n < T'" using hours(1) div_bounds [of 60 n] r unfolding T'_def by simp
  ultimately show ?thesis unfolding h(1) [symmetric] by (intro exI [of _ T']) simp
qed

text \<open>
  C11: The next time of a schedule is exactly the first whole minute after the given time that
  all its fields allow (day of month or day of week when both are restricted); and when there
  is no answer, no minute ever matches: the rounds are enough for every schedule, also over the
  eight years without a 29 February.
\<close>

theorem cron_next_exact:
  assumes "cron_parse text = Inr c"
  shows "case cron_next c after of
     Some t \<Rightarrow> after < t \<and> schedule_matches c t \<and> (\<forall>u. after < u \<and> u < t \<longrightarrow> \<not> schedule_matches c u)
   | None \<Rightarrow> \<forall>u. after < u \<longrightarrow> \<not> schedule_matches c u"
proof -
  define n where "n = after div 60 + 1"
  have ok: "cron_ok c" by (rule cron_parse_ok [OF assms])
  then have minute: "some_minute c" by (auto simp: cron_ok_def table_ok_def some_minute_def)
  have later: "after < u \<longleftrightarrow> n \<le> u div 60" if "u mod 60 = 0" for u
  proof -
    obtain v where "u = v * 60" using \<open>u mod 60 = 0\<close> by (metis add.right_neutral div_mult_mod_eq)
    moreover have "60 * (after div 60) \<le> after" "after < 60 * (after div 60) + 60" using div_bounds [of 60 after] by simp_all
    ultimately show ?thesis by (auto simp: n_def)
  qed
  show ?thesis
  proof (cases "cron_next c after")
    case None
    have "\<not> schedule_matches c u" if "after < u" for u
    proof
      assume "schedule_matches c u"
      then have "due c (u div 60)" by (simp add: schedule_matches_due)
      from due_again [OF ok this] obtain T where T: "n \<le> T" "due c T" "T div 60 \<le> n div 60 + 79300" by blast
      have "0 \<le> n mod 60" by simp
      with T(3) have "nat (60 - n mod 60) + nat (T div 60 - n div 60) + 60 \<le> 80000" by (intro rounds_bound)
      also have "\<dots> \<le> ROUNDS" by (simp add: ROUNDS_def)
      finally have "next_loop ROUNDS c (n * 60) \<noteq> None" by (rule found [OF minute T(2,1)])
      with None show False by (simp add: cron_next_def n_def)
    qed
    with None show ?thesis by simp
  next
    case (Some t)
    then obtain r where r: "t = r * 60" "n \<le> r" "due c r" "\<forall>m. n \<le> m \<and> m < r \<longrightarrow> \<not> due c m"
      using next_loop_sound [of ROUNDS c n t] by (auto simp: cron_next_def n_def)
    have t: "t mod 60 = 0" "t div 60 = r" by (simp_all add: r(1))
    have "\<not> schedule_matches c u" if "after < u" "u < t" for u
    proof
      assume "schedule_matches c u"
      then have u: "u mod 60 = 0" "due c (u div 60)" by (auto simp: schedule_matches_due)
      then have "u = u div 60 * 60" by (metis add.right_neutral div_mult_mod_eq)
      then have "u div 60 < r" using that(2) unfolding r(1) by (metis mult_less_cancel_right_pos zero_less_numeral)
      moreover have "n \<le> u div 60" using later [OF u(1)] that(1) by simp
      ultimately show False using r(4) u(2) by blast
    qed
    with Some r(2,3) later [OF t(1)] t show ?thesis by (simp add: schedule_matches_due)
  qed
qed

lemma next_loop_more: "next_loop k c t = Some r \<Longrightarrow> k \<le> k' \<Longrightarrow> next_loop k' c t = Some r"
proof (induction k arbitrary: t k')
  case (Suc k)
  then obtain j where k': "k' = Suc j" "k \<le> j" by (cases k') auto
  with Suc.prems Suc.IH [of _ j] show ?case
    unfolding k'(1) next_loop.simps [of "Suc k"] next_loop.simps [of "Suc j"] by (auto split: sum.splits)
qed (simp add: next_loop.simps)

text \<open>From Friday the 25th of September 2026, 12:34:56: Monday at 8.\<close>

lemma cron_next_exact_witness:
  "case cron_parse (str ''0 8 * * MON'') of
     Inr c \<Rightarrow> cron_next c 1790339696 = Some 1790582400 \<and> schedule_matches c 1790582400 \<and> \<not> schedule_matches c 1790409600
   | Inl e \<Rightarrow> False"
proof -
  have w: "split_whitespace (str ''0 8 * * MON'') = [str ''0'', str ''8'', str ''*'', str ''*'', str ''MON'']"
    by (simp add: split_whitespace_def is_whitespace_def)
  define c where "c = projr (cron_parse (str ''0 8 * * MON''))"
  have p: "cron_parse (str ''0 8 * * MON'') = Inr c" unfolding c_def cron_parse_def w list.case by code_simp
  have "next_loop 20 c ((1790339696 div 60 + 1) * 60) = Some 1790582400"
    unfolding c_def cron_parse_def w list.case by code_simp
  from next_loop_more [OF this, of ROUNDS] have n: "cron_next c 1790339696 = Some 1790582400"
    by (simp add: cron_next_def ROUNDS_def)
  from cron_next_exact [OF p, of 1790339696] n p show ?thesis by simp
qed

end
