(* ===== verification/Wildcards.thy ===== *)
theory Wildcards
  imports Rust_Split
begin

text \<open>
  What a wildcard pattern matches, as a specification of its own: a list of tokens, some of
  which stand for any run of characters and the others for one character each. The folder
  watcher and the host patterns of known\_hosts each have a matcher of their own; the locale
  says what a matcher promises, and both are shown to keep it.
\<close>

fun wild :: "('t \<Rightarrow> bool) \<Rightarrow> ('t \<Rightarrow> 'c \<Rightarrow> bool) \<Rightarrow> 't list \<Rightarrow> 'c list \<Rightarrow> bool" where
  "wild any fits [] s \<longleftrightarrow> s = []"
| "wild any fits (t # ts) s \<longleftrightarrow>
     (if any t then \<exists>k \<le> length s. wild any fits ts (drop k s)
      else (case s of [] \<Rightarrow> False | c # cs \<Rightarrow> fits t c \<and> wild any fits ts cs))"

lemma drop_choice:
  "(\<exists>k \<le> length s. P (drop k s)) \<longleftrightarrow> P s \<or> s \<noteq> [] \<and> (\<exists>k \<le> length (tl s). P (drop k (tl s)))"
proof (cases s)
  case (Cons c cs)
  have "(\<exists>k \<le> Suc n. Q k) \<longleftrightarrow> Q 0 \<or> (\<exists>k \<le> n. Q (Suc k))" for n and Q :: "nat \<Rightarrow> bool"
    by (metis Suc_le_mono le0 not0_implies_Suc)
  from this [of "length cs" "\<lambda>k. P (drop k s)"] show ?thesis by (simp add: Cons)
qed simp

lemma wild_any:
  "any t \<Longrightarrow> wild any fits (t # ts) s \<longleftrightarrow> wild any fits ts s \<or> (s \<noteq> [] \<and> wild any fits (t # ts) (tl s))"
  using drop_choice [of s "wild any fits ts"] by simp

text \<open>What is left of the tokens at the end of the text.\<close>

lemma wild_end: "wild any fits ts [] \<longleftrightarrow> list_all any ts"
  by (induction ts) auto

text \<open>Tokens that take one character each.\<close>

lemma wild_singles:
  "list_all (\<lambda>t. \<not> any t) ps \<Longrightarrow> wild any fits (ps @ ts) s \<Longrightarrow>
     length ps \<le> length s \<and> wild any fits ts (drop (length ps) s)"
  by (induction ps arbitrary: s) (auto split: list.splits)

subsection \<open>Matchers\<close>

locale wildcard_matcher =
  fixes any :: "'t \<Rightarrow> bool"
    and fits :: "'t \<Rightarrow> 'c \<Rightarrow> bool"
    and matcher :: "'t list \<Rightarrow> 'c list \<Rightarrow> bool"
  assumes matcher_Nil: "matcher [] s \<longleftrightarrow> s = []"
    and matcher_any: "any t \<Longrightarrow> matcher (t # ts) s \<longleftrightarrow> matcher ts s \<or> (s \<noteq> [] \<and> matcher (t # ts) (tl s))"
    and matcher_one: "\<not> any t \<Longrightarrow> matcher (t # ts) s \<longleftrightarrow> (s \<noteq> [] \<and> fits t (hd s) \<and> matcher ts (tl s))"
begin

lemma matcher_wild: "matcher ts s \<longleftrightarrow> wild any fits ts s"
proof (induction ts arbitrary: s)
  case (Cons t ts)
  show ?case
  proof (cases "any t")
    case True
    show ?thesis
    proof (induction s)
      case Nil
      show ?case unfolding matcher_any [OF True, of ts "[]"] wild_any [of any t fits ts "[]", OF True] Cons.IH by blast
    next
      case (Cons c cs)
      have "matcher (t # ts) (c # cs) \<longleftrightarrow> wild any fits ts (c # cs) \<or> wild any fits (t # ts) cs"
        unfolding matcher_any [OF True, of ts "c # cs"] \<open>\<And>s. matcher ts s = wild any fits ts s\<close> list.sel Cons by blast
      also have "\<dots> \<longleftrightarrow> wild any fits (t # ts) (c # cs)"
        unfolding wild_any [of any t fits ts "c # cs", OF True] by simp
      finally show ?case .
    qed
  next
    case False
    with matcher_one [of t ts s] Cons.IH show ?thesis by (auto split: list.splits)
  qed
qed (simp add: matcher_Nil)

text \<open>Tokens that are not wildcards match texts of their own length only.\<close>

lemma matcher_length:
  assumes "list_all (\<lambda>t. \<not> any t) ts" "matcher ts s"
  shows "length s = length ts"
  using wild_singles [of any ts fits "[]" s] assms by (simp add: matcher_wild)

text \<open>A leading wildcard matches every ending of what it matches, and more.\<close>

lemma matcher_extends:
  assumes "any t" "matcher (t # ts) s"
  shows "matcher (t # ts) (p @ s)"
proof (induction p)
  case (Cons c p)
  then show ?case using matcher_any [OF assms(1), of ts "c # p @ s"] by simp
qed (simp add: assms(2))

end

text \<open>A matcher for the wildcards is decided by its laws: any two agree.\<close>

lemma matchers_agree:
  assumes "wildcard_matcher any fits m" "wildcard_matcher any fits m'"
  shows "m = m'"
  using wildcard_matcher.matcher_wild [OF assms(1)] wildcard_matcher.matcher_wild [OF assms(2)]
  by (intro ext) simp

end
