(* ===== verification/Glob.thy ===== *)
theory Glob
  imports Wildcards
begin

text \<open>
  File patterns of the folder watcher (grenat\_watch: src/glob.rs): alternatives in braces,
  segments of wildcards, and which names and directories a pattern matches.
\<close>

subsection \<open>Patterns\<close>

datatype glob_token =
  G_Char nat
| G_Any
| G_One
| G_Class bool "(nat \<times> nat) list"

datatype segment =
  Directories
| Name "glob_token list"

record glob =
  gl_pattern :: rtext
  gl_base :: rtext
  gl_alternatives :: "segment list list"

datatype glob_error =
  Empty_Pattern
| Names_A_Directory
| Empty_Segment
| Holds_Nul
| Stars_In_Segment
| Ends_With_Stars
| Unopened_Brace
| Unclosed_Brace
| Too_Many_Alternatives
| Unclosed_Class
| Reversed_Range nat nat

definition MAX_ALTERNATIVES :: nat where
  "MAX_ALTERNATIVES = 64"

subsection \<open>Alternatives\<close>

text \<open>
  The scan of \<open>expand\<close> from an open brace: the choices between the commas at its own depth, and
  what follows the brace that closes it. \<open>cur\<close> is the choice read so far, \<open>depth\<close> that of the
  code less the open brace.
\<close>

fun choices :: "nat \<Rightarrow> rtext \<Rightarrow> rtext \<Rightarrow> (rtext list \<times> rtext) option" where
  "choices depth cur [] = None"
| "choices depth cur (c # cs) =
     (if c = ch CHR ''{'' then choices (depth + 1) (cur @ [c]) cs
      else if c = ch CHR ''}'' then
        (if depth = 0 then Some ([cur], cs) else choices (depth - 1) (cur @ [c]) cs)
      else if c = ch CHR '','' \<and> depth = 0 then
        map_option (\<lambda>(ps, rest). (cur # ps, rest)) (choices 0 [] cs)
      else choices depth (cur @ [c]) cs)"

lemma choices_rest: "choices depth cur cs = Some (ps, rest) \<Longrightarrow> length rest < length cs"
  by (induction depth cur cs arbitrary: ps rest rule: choices.induct) (fastforce split: if_splits)+

lemma choices_length:
  "choices depth cur cs = Some (ps, rest) \<Longrightarrow> p \<in> set ps \<Longrightarrow> length p + length rest < length cur + length cs"
proof (induction depth cur cs arbitrary: ps rest p rule: choices.induct)
  case (2 depth cur c cs)
  consider (open_brace) "c = ch CHR ''{''" | (close_brace) "c = ch CHR ''}''" | (comma) "c = ch CHR '',''" "depth = 0"
    | (other) "c \<noteq> ch CHR ''{''" "c \<noteq> ch CHR ''}''" "\<not> (c = ch CHR '','' \<and> depth = 0)" by blast
  then show ?case
  proof cases
    case open_brace
    with "2.IH"(1) "2.prems" show ?thesis by fastforce
  next
    case close_brace
    with "2.IH"(2) "2.prems" show ?thesis by (cases "depth = 0") fastforce+
  next
    case comma
    with "2.prems"(1) obtain qs where "choices 0 [] cs = Some (qs, rest)" "ps = cur # qs" by auto
    with "2.IH"(3) comma choices_rest [of 0 "[]" cs qs rest] "2.prems"(2) show ?thesis by fastforce
  next
    case other
    with "2.prems"(1) have "choices depth (cur @ [c]) cs = Some (ps, rest)" by auto
    from "2.IH"(4) [OF other this "2.prems"(2)] show ?thesis by simp
  qed
qed simp

text \<open>The loop over the choices, which stops at the first error and when there are too many.\<close>

fun each_choice :: "(rtext \<Rightarrow> glob_error + rtext list) \<Rightarrow> rtext list \<Rightarrow> rtext list \<Rightarrow> glob_error + rtext list" where
  "each_choice f [] out = Inr out"
| "each_choice f (p # ps) out =
     (case f p of
        Inl e \<Rightarrow> Inl e
      | Inr xs \<Rightarrow>
          if MAX_ALTERNATIVES < length out + length xs then Inl Too_Many_Alternatives
          else each_choice f ps (out @ xs))"

lemma each_choice_cong [fundef_cong]:
  "ps = qs \<Longrightarrow> out = out' \<Longrightarrow> (\<And>p. p \<in> set qs \<Longrightarrow> f p = g p) \<Longrightarrow> each_choice f ps out = each_choice g qs out'"
proof -
  have "(\<And>p. p \<in> set qs \<Longrightarrow> f p = g p) \<Longrightarrow> each_choice f qs out' = each_choice g qs out'"
    by (induction g qs out' rule: each_choice.induct) (auto split: sum.splits)
  then show "ps = qs \<Longrightarrow> out = out' \<Longrightarrow> (\<And>p. p \<in> set qs \<Longrightarrow> f p = g p) \<Longrightarrow> each_choice f ps out = each_choice g qs out'"
    by simp
qed

function expand :: "rtext \<Rightarrow> glob_error + rtext list" where
  "expand text =
     (case split_once (ch CHR ''{'') text of
        None \<Rightarrow> if ch CHR ''}'' \<in> set text then Inl Unopened_Brace else Inr [text]
      | Some (head, rest) \<Rightarrow>
          (case choices 0 [] rest of
             None \<Rightarrow> Inl Unclosed_Brace
           | Some (ps, tail) \<Rightarrow> each_choice (\<lambda>p. expand (head @ p @ tail)) ps []))"
  by auto
termination
proof (relation "measure length")
  fix s x head rest y ps tail p
  assume "split_once (ch CHR ''{'') s = Some x" "(head, rest) = x" "choices 0 [] rest = Some y" "(ps, tail) = y" "p \<in> set ps"
  then have "s = head @ ch CHR ''{'' # rest" "length p + length tail < length rest"
    using choices_length [of 0 "[]" rest ps tail p] split_once_Some [of _ s head rest] by auto
  then show "(head @ p @ tail, s) \<in> measure length" by simp
qed simp

declare expand.simps [simp del]

subsection \<open>Segments\<close>

text \<open>The inside of a class, to its closing bracket: the ranges, and what follows.\<close>

fun class_ranges :: "rtext \<Rightarrow> (nat \<times> nat) list \<Rightarrow> glob_error + (nat \<times> nat) list \<times> rtext" where
  "class_ranges [] ranges = Inl Unclosed_Class"
| "class_ranges (c # cs) ranges =
     (if c = ch CHR '']'' \<and> ranges \<noteq> [] then Inr (ranges, cs)
      else (case cs of
        d # ds \<Rightarrow>
          if d = ch CHR ''-'' then
            (case ds of
               [] \<Rightarrow> Inl Unclosed_Class
             | e # es \<Rightarrow>
                 if e = ch CHR '']'' then Inr (ranges @ [(c, c), (ch CHR ''-'', ch CHR ''-'')], es)
                 else if c \<le> e then class_ranges es (ranges @ [(c, e)])
                 else Inl (Reversed_Range c e))
          else class_ranges (d # ds) (ranges @ [(c, c)])
      | [] \<Rightarrow> class_ranges [] (ranges @ [(c, c)])))"

lemma class_ranges_length: "class_ranges cs ranges = Inr (rs, rest) \<Longrightarrow> length rest < length cs"
proof (induction cs ranges arbitrary: rs rest rule: class_ranges.induct)
  case (2 c cs ranges)
  show ?case
  proof (cases cs)
    case Nil
    with "2.prems" show ?thesis by (simp split: if_splits)
  next
    case (Cons d ds)
    show ?thesis
    proof (cases ds)
      case Nil
      with "2.prems" "2.IH" Cons show ?thesis by (force split: if_splits)
    next
      case (Cons e es)
      with "2.prems" "2.IH" \<open>cs = d # ds\<close> show ?thesis by (force split: if_splits)
    qed
  qed
qed simp

definition is_negation :: "nat \<Rightarrow> bool" where
  "is_negation c \<longleftrightarrow> c = ch CHR ''!'' \<or> c = ch CHR ''^''"

function glob_tokens :: "rtext \<Rightarrow> glob_error + glob_token list" where
  "glob_tokens [] = Inr []"
| "glob_tokens (c # cs) =
     (if c = ch CHR ''*'' then map_sum id (Cons G_Any) (glob_tokens cs)
      else if c = ch CHR ''?'' then map_sum id (Cons G_One) (glob_tokens cs)
      else if c = ch CHR ''['' then
        (let negated = (cs \<noteq> [] \<and> is_negation (hd cs));
             body = (if negated then tl cs else cs)
         in (case class_ranges body [] of
               Inl e \<Rightarrow> Inl e
             | Inr (ranges, rest) \<Rightarrow> map_sum id (Cons (G_Class negated ranges)) (glob_tokens rest)))
      else map_sum id (Cons (G_Char c)) (glob_tokens cs))"
  by pat_completeness auto
termination
  by (relation "measure length") (auto dest!: class_ranges_length split: if_splits)

declare glob_tokens.simps(2) [simp del]

definition is_pattern :: "rtext \<Rightarrow> bool" where
  "is_pattern s \<longleftrightarrow> (\<exists>c \<in> set s. c \<in> {ch CHR ''*'', ch CHR ''?'', ch CHR ''['', ch CHR ''{''})"

definition parse_segment :: "rtext \<Rightarrow> glob_error + segment" where
  "parse_segment s =
     (if s = [] then Inl Empty_Segment
      else if s = str ''**'' then Inr Directories
      else if contains s (str ''**'') then Inl Stars_In_Segment
      else map_sum id Name (glob_tokens s))"

fun parse_segments :: "rtext list \<Rightarrow> glob_error + segment list" where
  "parse_segments [] = Inr []"
| "parse_segments (s # ss) =
     (case parse_segment s of
        Inl e \<Rightarrow> Inl e
      | Inr x \<Rightarrow> map_sum id (Cons x) (parse_segments ss))"

definition parse_alternative :: "rtext \<Rightarrow> glob_error + segment list" where
  "parse_alternative expanded =
     (case parse_segments (split_at (\<lambda>c. c = ch CHR ''/'') expanded) of
        Inl e \<Rightarrow> Inl e
      | Inr parsed \<Rightarrow> if parsed \<noteq> [] \<and> last parsed = Directories then Inl Ends_With_Stars else Inr parsed)"

fun parse_alternatives :: "rtext list \<Rightarrow> glob_error + segment list list" where
  "parse_alternatives [] = Inr []"
| "parse_alternatives (x # xs) =
     (case parse_alternative x of
        Inl e \<Rightarrow> Inl e
      | Inr a \<Rightarrow> map_sum id (Cons a) (parse_alternatives xs))"

definition glob_parse :: "rtext \<Rightarrow> glob_error + glob" where
  "glob_parse pattern =
     (if trim pattern = [] then Inl Empty_Pattern
      else if last pattern = ch CHR ''/'' then Inl Names_A_Directory
      else if contains pattern (str ''//'') then Inl Empty_Segment
      else if 0 \<in> set pattern then Inl Holds_Nul
      else
        let segments = split_at (\<lambda>c. c = ch CHR ''/'') pattern;
            written = length (takeWhile (\<lambda>s. \<not> is_pattern s) (butlast segments));
            b = join_with (str ''/'') (take written segments);
            base = (if b = [] \<and> hd pattern = ch CHR ''/'' then str ''/'' else if b = [] then str ''.'' else b);
            rest = join_with (str ''/'') (drop written segments)
        in (case expand rest of
              Inl e \<Rightarrow> Inl e
            | Inr xs \<Rightarrow> map_sum id (\<lambda>as. \<lparr>gl_pattern = pattern, gl_base = base, gl_alternatives = as\<rparr>) (parse_alternatives xs)))"

subsection \<open>Matching\<close>

definition token_fits :: "glob_token \<Rightarrow> nat \<Rightarrow> bool" where
  "token_fits token c = (case token of
     G_Char x \<Rightarrow> x = c
   | G_One \<Rightarrow> True
   | G_Any \<Rightarrow> False
   | G_Class negated ranges \<Rightarrow> (\<exists>(lo, hi) \<in> set ranges. lo \<le> c \<and> c \<le> hi) \<noteq> negated)"

text \<open>
  The loop of \<open>matches_name\<close>, over the positions \<open>t\<close> in the tokens and \<open>n\<close> in the name, and the
  last star met with the position it was tried at. The star's position only moves forward.
\<close>

function name_loop :: "glob_token list \<Rightarrow> rtext \<Rightarrow> nat \<Rightarrow> nat \<Rightarrow> (nat \<times> nat) option \<Rightarrow> bool" where
  "name_loop tokens name t n star =
     (if n < length name then
        (if t < length tokens \<and> tokens ! t = G_Any then name_loop tokens name (t + 1) n (Some (t, n))
         else if t < length tokens \<and> token_fits (tokens ! t) (name ! n) then name_loop tokens name (t + 1) (n + 1) star
         else (case star of
                 Some (st, sn) \<Rightarrow> name_loop tokens name (st + 1) (sn + 1) (Some (st, sn + 1))
               | None \<Rightarrow> False))
      else list_all (\<lambda>token. token = G_Any) (drop t tokens))"
  by auto
termination
  by (relation "measures [
      \<lambda>(tokens, name, t, n, star). if n < length name
        then 1 + length name - (case star of None \<Rightarrow> 0 | Some (st, sn) \<Rightarrow> min sn n) else 0,
      \<lambda>(tokens, name, t, n, star). length name - n,
      \<lambda>(tokens, name, t, n, star). length tokens - t]")
    (auto split: option.splits)

declare name_loop.simps [simp del]

definition name_matches :: "glob_token list \<Rightarrow> rtext \<Rightarrow> bool" where
  "name_matches tokens name = name_loop tokens name 0 0 None"

definition hidden :: "rtext \<Rightarrow> bool" where
  "hidden name \<longleftrightarrow> starts_with name (str ''.'')"

definition hidden_ok :: "glob_token list \<Rightarrow> rtext \<Rightarrow> bool" where
  "hidden_ok tokens name \<longleftrightarrow> \<not> hidden name \<or> (tokens \<noteq> [] \<and> hd tokens = G_Char (ch CHR ''.''))"

fun matches_from :: "segment list \<Rightarrow> rtext list \<Rightarrow> bool" where
  "matches_from [] names \<longleftrightarrow> names = []"
| "matches_from (Directories # ss) [] \<longleftrightarrow> matches_from ss []"
| "matches_from (Directories # ss) [n] \<longleftrightarrow> matches_from ss [n]"
| "matches_from (Directories # ss) (n # m # ns) \<longleftrightarrow>
     matches_from ss (n # m # ns) \<or> (\<not> hidden n \<and> matches_from (Directories # ss) (m # ns))"
| "matches_from (Name tokens # ss) [] \<longleftrightarrow> False"
| "matches_from (Name tokens # ss) (n # ns) \<longleftrightarrow>
     hidden_ok tokens n \<and> name_matches tokens n \<and> matches_from ss ns"

fun enters :: "segment list \<Rightarrow> rtext list \<Rightarrow> bool" where
  "enters segments [] \<longleftrightarrow> segments \<noteq> []"
| "enters [] (n # ns) \<longleftrightarrow> False"
| "enters (Directories # ss) (n # ns) \<longleftrightarrow>
     enters ss (n # ns) \<or> (\<not> hidden n \<and> enters (Directories # ss) ns)"
| "enters (Name tokens # ss) (n # ns) \<longleftrightarrow>
     hidden_ok tokens n \<and> name_matches tokens n \<and> enters ss ns"

definition glob_depth :: "glob \<Rightarrow> nat option" where
  "glob_depth g =
     (if \<exists>a \<in> set (gl_alternatives g). Directories \<in> set a then None
      else Some (foldl max 0 (map length (gl_alternatives g))))"

definition matches_names :: "glob \<Rightarrow> rtext list \<Rightarrow> bool" where
  "matches_names g relative \<longleftrightarrow> (\<exists>a \<in> set (gl_alternatives g). matches_from a relative)"

definition may_enter :: "glob \<Rightarrow> rtext list \<Rightarrow> bool" where
  "may_enter g relative \<longleftrightarrow> (\<exists>a \<in> set (gl_alternatives g). enters a relative)"

definition below_base :: "rtext \<Rightarrow> rtext \<Rightarrow> rtext option" where
  "below_base base path =
     (if base = str ''.'' then Some (case strip_prefix (str ''./'') path of None \<Rightarrow> path | Some rest \<Rightarrow> rest)
      else if base = str ''/'' then strip_prefix (str ''/'') path
      else (case strip_prefix base path of None \<Rightarrow> None | Some r \<Rightarrow> strip_prefix (str ''/'') r))"

definition glob_matches :: "glob \<Rightarrow> rtext \<Rightarrow> bool" where
  "glob_matches g path =
     (case below_base (gl_base g) path of
        None \<Rightarrow> False
      | Some rest \<Rightarrow>
          let names = split_at (\<lambda>c. c = ch CHR ''/'') rest
          in \<not> (\<exists>n \<in> set names. n = [] \<or> n = str ''.'' \<or> n = str ''..'') \<and> matches_names g names)"

end
