(* ===== verification/Glob_Props.thy ===== *)
theory Glob_Props
  imports Glob
begin

text \<open>
  Properties of file patterns: the matcher with its last star is the specification of
  wildcards, a scan enters every directory that holds a matching file, hidden names need a
  written dot, and alternatives are few and free of braces.
\<close>

subsection \<open>Names\<close>

abbreviation is_any :: "glob_token \<Rightarrow> bool" where
  "is_any t \<equiv> t = G_Any"

abbreviation name_spec :: "glob_token list \<Rightarrow> rtext \<Rightarrow> bool" where
  "name_spec \<equiv> wild is_any token_fits"

text \<open>
  The state of the loop: what it still has to find is a match of the tokens from \<open>t\<close> with the
  name from \<open>n\<close>, or a later place for the star. Since the star, every token took one character.
\<close>

definition star_ok :: "glob_token list \<Rightarrow> rtext \<Rightarrow> nat \<Rightarrow> nat \<Rightarrow> (nat \<times> nat) option \<Rightarrow> bool" where
  "star_ok tokens name t n star \<longleftrightarrow> n \<le> length name \<and> t \<le> length tokens \<and>
     (case star of None \<Rightarrow> True
      | Some (st, sn) \<Rightarrow> st < t \<and> n - sn = t - (st + 1) \<and> sn \<le> n \<and>
          list_all (\<lambda>x. \<not> is_any x) (take (t - (st + 1)) (drop (st + 1) tokens)))"

definition later_star :: "glob_token list \<Rightarrow> rtext \<Rightarrow> (nat \<times> nat) option \<Rightarrow> bool" where
  "later_star tokens name star = (case star of None \<Rightarrow> False
     | Some (st, sn) \<Rightarrow> \<exists>k. sn < k \<and> k \<le> length name \<and> name_spec (drop (st + 1) tokens) (drop k name))"

text \<open>What a later place of the star gives, when the tokens since the star are done.\<close>

lemma later_star_done:
  assumes ok: "star_ok tokens name t n star" and later: "later_star tokens name star"
  shows "\<exists>k. n < k \<and> k \<le> length name \<and> name_spec (drop t tokens) (drop k name)"
proof -
  from later obtain st sn k where s: "star = Some (st, sn)" and k: "sn < k" "k \<le> length name"
    "name_spec (drop (st + 1) tokens) (drop k name)" by (auto simp: later_star_def split: option.splits)
  define l where "l = t - (st + 1)"
  from ok s have l: "st < t" "n = sn + l" "list_all (\<lambda>x. \<not> is_any x) (take l (drop (st + 1) tokens))" "t \<le> length tokens"
    by (auto simp: star_ok_def l_def)
  have "drop (st + 1) tokens = take l (drop (st + 1) tokens) @ drop t tokens"
    using l(1) by (metis append_take_drop_id drop_drop l_def Suc_eq_plus1 Suc_leI le_add_diff_inverse2)
  from wild_singles [OF l(3)] k(3) this
  have w: "length (take l (drop (st + 1) tokens)) \<le> length (drop k name)"
    "name_spec (drop t tokens) (drop (length (take l (drop (st + 1) tokens))) (drop k name))" by metis+
  have len: "length (take l (drop (st + 1) tokens)) = l" using l(1,4) by (simp add: l_def)
  show ?thesis
    using w k l unfolding len by (intro exI [of _ "k + l"]) (auto simp: add.commute)
qed

lemma drop_nth: "i < length xs \<Longrightarrow> drop i xs = xs ! i # drop (Suc i) xs"
  by (simp add: Cons_nth_drop_Suc)

lemma drop_choice_at:
  "n \<le> length s \<Longrightarrow> (\<exists>j \<le> length (drop n s). P (drop j (drop n s))) \<longleftrightarrow>
     P (drop n s) \<or> (\<exists>k. n < k \<and> k \<le> length s \<and> P (drop k s))"
proof -
  assume n: "n \<le> length s"
  have "(\<exists>j \<le> length s - n. Q (j + n)) \<longleftrightarrow> Q n \<or> (\<exists>k. n < k \<and> k \<le> length s \<and> Q k)" for Q
    using n by (metis add.commute add_0 diff_le_mono le_add_diff_inverse le_add_diff_inverse2 le_diff_conv2
        less_or_eq_imp_le linorder_neqE_nat not_add_less2 zero_le)
  from this [of "\<lambda>k. P (drop k s)"] show ?thesis by simp
qed

lemma next_place:
  fixes l i :: nat
  assumes "i < l"
  shows "P (i + 1) \<or> (\<exists>k. i + 1 < k \<and> k \<le> l \<and> P k) \<longleftrightarrow> (\<exists>k. i < k \<and> k \<le> l \<and> P k)"
proof -
  have "i < k \<longleftrightarrow> k = i + 1 \<or> i + 1 < k" for k by auto
  with assms show ?thesis by (metis Suc_eq_plus1 Suc_leI)
qed

lemma name_loop_spec:
  "star_ok tokens name t n star \<Longrightarrow>
     name_loop tokens name t n star \<longleftrightarrow> name_spec (drop t tokens) (drop n name) \<or> later_star tokens name star"
proof (induction tokens name t n star rule: name_loop.induct)
  case (1 tokens name t n star)
  note ok = "1.prems"
  show ?case
  proof (cases "n < length name")
    case False
    with ok have n: "n = length name" by (simp add: star_ok_def)
    have "\<not> later_star tokens name star" using later_star_done [OF ok] n by auto
    then show ?thesis by (subst name_loop.simps) (simp add: n wild_end)
  next
    case n: True
    consider (any) "t < length tokens" "tokens ! t = G_Any"
      | (fits) "t < length tokens" "tokens ! t \<noteq> G_Any" "token_fits (tokens ! t) (name ! n)"
      | (stuck) "\<not> (t < length tokens \<and> tokens ! t = G_Any)" "\<not> (t < length tokens \<and> token_fits (tokens ! t) (name ! n))"
      by blast
    then show ?thesis
    proof cases
      case any
      have spec: "name_spec (drop t tokens) (drop i name) \<longleftrightarrow>
          name_spec (drop (t + 1) tokens) (drop i name) \<or>
          (\<exists>k. i < k \<and> k \<le> length name \<and> name_spec (drop (t + 1) tokens) (drop k name))" if "i \<le> length name" for i
        using drop_choice_at [OF that, of "name_spec (drop (t + 1) tokens)"] any by (simp add: drop_nth)
      have "star_ok tokens name (t + 1) n (Some (t, n))" using ok any n by (auto simp: star_ok_def)
      from "1.IH"(1) [OF n _ this] any n
      have "name_loop tokens name t n star \<longleftrightarrow>
          name_spec (drop (t + 1) tokens) (drop n name) \<or> later_star tokens name (Some (t, n))"
        by (subst name_loop.simps) simp
      also have "\<dots> \<longleftrightarrow> name_spec (drop t tokens) (drop n name)"
        using n by (simp add: spec [of n] later_star_def)
      also have "\<dots> \<longleftrightarrow> name_spec (drop t tokens) (drop n name) \<or> later_star tokens name star"
      proof -
        have "name_spec (drop t tokens) (drop n name)" if "later_star tokens name star"
        proof -
          from later_star_done [OF ok that] obtain k where k: "n < k" "k \<le> length name" "name_spec (drop t tokens) (drop k name)"
            by blast
          then obtain k' where "k \<le> k'" "k' \<le> length name" "name_spec (drop (t + 1) tokens) (drop k' name)"
            using spec [OF k(2)] less_imp_le by blast
          with k(1) show ?thesis unfolding spec [OF less_imp_le [OF n]] by (auto intro!: exI [of _ k'])
        qed
        then show ?thesis by blast
      qed
      finally show ?thesis .
    next
      case fits
      have "star_ok tokens name (t + 1) (n + 1) star"
      proof (cases star)
        case (Some s)
        obtain st sn where s: "s = (st, sn)" by (cases s)
        have "t - st = Suc (t - Suc st)" using ok Some s by (auto simp: star_ok_def)
        with ok fits n Some s show ?thesis by (auto simp: star_ok_def take_Suc_conv_app_nth)
      qed (use ok fits n in \<open>simp add: star_ok_def\<close>)
      from "1.IH"(2) [OF n _ _ this] fits n show ?thesis
        by (subst name_loop.simps) (simp add: drop_nth)
    next
      case stuck
      have no: "\<not> name_spec (drop t tokens) (drop n name)"
        using stuck n by (cases "t < length tokens") (auto simp: drop_nth)
      show ?thesis
      proof (cases star)
        case None
        with stuck n no show ?thesis by (subst name_loop.simps) (auto simp: later_star_def)
      next
        case (Some s)
        obtain st sn where s: "s = (st, sn)" by (cases s)
        have "star_ok tokens name (st + 1) (sn + 1) (Some (st, sn + 1))" using ok n Some s by (auto simp: star_ok_def)
        note ih = "1.IH"(3) [OF n stuck Some [unfolded s] refl this]
        have "name_loop tokens name t n star = name_loop tokens name (st + 1) (sn + 1) (Some (st, sn + 1))"
          unfolding Some s
          by (subst name_loop.simps, subst if_P [OF n], subst if_not_P [OF stuck(1)], subst if_not_P [OF stuck(2)]) simp
        also have "\<dots> \<longleftrightarrow> name_spec (drop (st + 1) tokens) (drop (sn + 1) name) \<or> later_star tokens name (Some (st, sn + 1))"
          by (rule ih)
        also have "\<dots> \<longleftrightarrow> later_star tokens name star"
          unfolding later_star_def Some s option.case prod.case by (rule next_place) (use ok n Some s in \<open>auto simp: star_ok_def\<close>)
        finally show ?thesis using no by simp
      qed
    qed
  qed
qed

theorem name_matches_wild: "name_matches tokens name \<longleftrightarrow> name_spec tokens name"
proof -
  have "star_ok tokens name 0 0 None" by (simp add: star_ok_def)
  from name_loop_spec [OF this] show ?thesis by (simp add: name_matches_def later_star_def)
qed

interpretation names: wildcard_matcher is_any token_fits name_matches
proof
  show "name_matches [] s \<longleftrightarrow> s = []" for s by (simp add: name_matches_wild)
  show "is_any t \<Longrightarrow> name_matches (t # ts) s \<longleftrightarrow> name_matches ts s \<or> s \<noteq> [] \<and> name_matches (t # ts) (tl s)" for t ts s
    using wild_any [of is_any t token_fits ts s] by (simp add: name_matches_wild)
  show "\<not> is_any t \<Longrightarrow> name_matches (t # ts) s \<longleftrightarrow> s \<noteq> [] \<and> token_fits t (hd s) \<and> name_matches ts (tl s)" for t ts s
    by (auto simp: name_matches_wild split: list.splits)
qed

text \<open>
  C14: The matcher of names, a loop that goes back to its last star only, finds a match whenever
  there is one: it agrees with the specification of wildcards, where a star stands for any run
  of characters and every other token for one character it fits.
\<close>

theorem name_matches_spec:
  "name_matches tokens name \<longleftrightarrow> wild (\<lambda>t. t = G_Any) token_fits tokens name"
  by (rule names.matcher_wild)

subsection \<open>Directories\<close>

text \<open>Whatever the segments match below a directory, the directory is entered.\<close>

lemma enters_on_the_way:
  "matches_from segments (ds @ f # fs) \<Longrightarrow> enters segments ds"
proof (induction segments ds rule: enters.induct)
  case (1 segments)
  then show ?case by auto
next
  case (3 ss n ns)
  obtain m ms where "ns @ f # fs = m # ms" by (cases ns) auto
  with "3.prems" consider "matches_from ss ((n # ns) @ f # fs)"
    | "\<not> hidden n" "matches_from (Directories # ss) (ns @ f # fs)" by auto
  then show ?case using "3.IH" by cases auto
qed auto

lemma depth_of_match: "matches_from segments names \<Longrightarrow> Directories \<notin> set segments \<Longrightarrow> length names = length segments"
  by (induction segments names rule: matches_from.induct) auto

lemma foldl_max_ge: "x \<in> set xs \<Longrightarrow> x \<le> foldl max (a :: nat) xs" "a \<le> foldl max a xs"
proof (induction xs arbitrary: a)
  case (Cons y ys)
  { case 1 then show ?case using Cons.IH(2) [of "max a y"] Cons.IH(1) [of "max a y"] by auto }
  { case 2 then show ?case using Cons.IH(2) [of "max a y"] by auto }
qed simp_all

text \<open>
  C15: A scan loses no file: every directory on the way to a file that matches may be entered,
  and no file that matches is deeper than \<open>depth\<close> says.
\<close>

theorem scan_reaches_matches:
  assumes "matches_names g (ds @ f # fs)"
  shows "may_enter g ds \<and> (case glob_depth g of None \<Rightarrow> True | Some d \<Rightarrow> length (ds @ f # fs) \<le> d)"
proof
  from assms obtain a where a: "a \<in> set (gl_alternatives g)" "matches_from a (ds @ f # fs)" by (auto simp: matches_names_def)
  with enters_on_the_way [OF a(2)] show "may_enter g ds" by (auto simp: may_enter_def)
  show "case glob_depth g of None \<Rightarrow> True | Some d \<Rightarrow> length (ds @ f # fs) \<le> d"
  proof (cases "\<exists>a \<in> set (gl_alternatives g). Directories \<in> set a")
    case False
    with a depth_of_match have "length (ds @ f # fs) = length a" by blast
    also have "\<dots> \<le> foldl max 0 (map length (gl_alternatives g))" using a(1) by (intro foldl_max_ge) simp
    finally show ?thesis using False by (simp add: glob_depth_def)
  qed (simp add: glob_depth_def)
qed

subsection \<open>Hidden names\<close>

lemma hidden_needs_dot:
  "matches_from segments names \<Longrightarrow> n \<in> set names \<Longrightarrow> hidden n \<Longrightarrow>
     \<exists>ts. Name (G_Char (ch CHR ''.'') # ts) \<in> set segments \<and> name_spec (G_Char (ch CHR ''.'') # ts) n"
proof (induction segments names rule: matches_from.induct)
  case (6 tokens ss m ns)
  show ?case
  proof (cases "n \<in> set ns")
    case True
    with 6 show ?thesis by auto
  next
    case False
    with 6 have "n = m" by simp
    with "6.prems" have "tokens \<noteq> []" "hd tokens = G_Char (ch CHR ''.'')" "name_matches tokens n" by (auto simp: hidden_ok_def)
    then show ?thesis by (cases tokens) (auto simp: name_matches_wild)
  qed
qed auto

text \<open>
  A file that matches is below the base by real names only: no name on its way is empty,
  \<open>.\<close> or \<open>..\<close>, and one that starts with a dot is matched by a segment written with a dot, never
  by a wildcard or by \<open>**\<close>.
\<close>

theorem hidden_names_left_out:
  assumes "glob_matches g path" "below_base (gl_base g) path = Some rest"
    and "n \<in> set (split_at (\<lambda>c. c = ch CHR ''/'') rest)"
  shows "n \<noteq> [] \<and> n \<noteq> str ''.'' \<and> n \<noteq> str ''..'' \<and>
    (\<not> hidden n \<or> (\<exists>a \<in> set (gl_alternatives g). \<exists>ts.
       Name (G_Char (ch CHR ''.'') # ts) \<in> set a \<and> name_spec (G_Char (ch CHR ''.'') # ts) n))"
proof -
  from assms(1,2) have "n \<noteq> [] \<and> n \<noteq> str ''.'' \<and> n \<noteq> str ''..''"
    and "matches_names g (split_at (\<lambda>c. c = ch CHR ''/'') rest)"
    using assms(3) by (auto simp: glob_matches_def Let_def simp del: str_simps)
  moreover from this(2) obtain a where "a \<in> set (gl_alternatives g)" "matches_from a (split_at (\<lambda>c. c = ch CHR ''/'') rest)"
    by (auto simp: matches_names_def)
  ultimately show ?thesis using hidden_needs_dot [OF _ assms(3)] by blast
qed

subsection \<open>Alternatives\<close>

lemma each_choice_ok:
  assumes "\<And>p xs. p \<in> set ps \<Longrightarrow> f p = Inr xs \<Longrightarrow> xs \<noteq> [] \<and> list_all P xs"
  shows "each_choice f ps out = Inr ys \<Longrightarrow> list_all P out \<Longrightarrow> length out \<le> MAX_ALTERNATIVES \<Longrightarrow>
     list_all P ys \<and> length ys \<le> MAX_ALTERNATIVES \<and> (ps \<noteq> [] \<or> out \<noteq> [] \<longrightarrow> ys \<noteq> [])"
  using assms
proof (induction f ps out rule: each_choice.induct)
  case (2 f p ps out)
  from "2.prems"(1) obtain xs where xs: "f p = Inr xs" "\<not> MAX_ALTERNATIVES < length out + length xs"
    and rest: "each_choice f ps (out @ xs) = Inr ys" by (auto split: sum.splits if_splits)
  have p: "xs \<noteq> []" "list_all P xs" using "2.prems"(4) [of p xs] xs(1) by simp_all
  have "list_all P ys \<and> length ys \<le> MAX_ALTERNATIVES \<and> (ps \<noteq> [] \<or> out @ xs \<noteq> [] \<longrightarrow> ys \<noteq> [])"
    by (rule "2.IH" [OF xs(1,2) rest]) (use "2.prems"(2,4) p xs(2) in auto)
  with p show ?case by simp
qed simp

lemma choices_some: "choices depth cur cs = Some (ps, rest) \<Longrightarrow> ps \<noteq> []"
  by (induction depth cur cs arbitrary: ps rest rule: choices.induct) (auto split: if_splits)

definition no_braces :: "rtext \<Rightarrow> bool" where
  "no_braces s \<longleftrightarrow> ch CHR ''{'' \<notin> set s \<and> ch CHR ''}'' \<notin> set s"

lemma split_once_None: "split_once c s = None \<longleftrightarrow> c \<notin> set s"
  by (induction s) auto

lemma expand_ok:
  "expand s = Inr xs \<Longrightarrow> xs \<noteq> [] \<and> length xs \<le> MAX_ALTERNATIVES \<and> list_all no_braces xs"
proof (induction s arbitrary: xs rule: expand.induct)
  case (1 s)
  show ?case
  proof (cases "split_once (ch CHR ''{'') s")
    case None
    with "1.prems" have "ch CHR ''}'' \<notin> set s \<and> xs = [s]" by (simp add: expand.simps [of s] split: if_splits)
    with None show ?thesis by (simp add: no_braces_def split_once_None MAX_ALTERNATIVES_def)
  next
    case (Some hr)
    obtain head rest where hr: "hr = (head, rest)" by (cases hr)
    from "1.prems" Some hr obtain ps tail where c: "choices 0 [] rest = Some (ps, tail)"
      and e: "each_choice (\<lambda>p. expand (head @ p @ tail)) ps [] = Inr xs"
      by (auto simp: expand.simps [of s] split: option.splits)
    have "zs \<noteq> [] \<and> list_all no_braces zs" if "p \<in> set ps" "expand (head @ p @ tail) = Inr zs" for p zs
      using "1.IH" [OF Some hr [symmetric] c refl that] by simp
    from each_choice_ok [OF this e] choices_some [OF c] show ?thesis by simp
  qed
qed

definition alternative_ok :: "segment list \<Rightarrow> bool" where
  "alternative_ok a \<longleftrightarrow> a \<noteq> [] \<and> last a \<noteq> Directories"

lemma parse_segments_length: "parse_segments ss = Inr xs \<Longrightarrow> length xs = length ss"
  by (induction ss arbitrary: xs) (auto split: sum.splits)

lemma parse_alternatives_ok:
  "parse_alternatives xs = Inr as \<Longrightarrow> length as = length xs \<and> list_all alternative_ok as"
proof (induction xs arbitrary: as)
  case (Cons x xs)
  then obtain a bs where a: "parse_alternative x = Inr a" "parse_alternatives xs = Inr bs" "as = a # bs"
    by (auto split: sum.splits)
  from a(1) have "alternative_ok a"
    using parse_segments_length [of "split_at (\<lambda>c. c = ch CHR ''/'') x" a]
    by (auto simp: parse_alternative_def alternative_ok_def split: sum.splits if_splits)
  with Cons.IH [OF a(2)] a(3) show ?case by simp
qed simp

text \<open>
  Every pattern is read to an end: braces are expanded to between one and 64 alternatives
  or refused, and what is accepted ends with a name in every alternative, so that a pattern
  always says which files.
\<close>

theorem glob_parse_ok:
  assumes "glob_parse pattern = Inr g"
  shows "1 \<le> length (gl_alternatives g) \<and> length (gl_alternatives g) \<le> 64 \<and>
    list_all (\<lambda>a. a \<noteq> [] \<and> last a \<noteq> Directories) (gl_alternatives g) \<and> gl_pattern g = pattern"
proof -
  from assms obtain rest xs where x: "expand rest = Inr xs" "parse_alternatives xs = Inr (gl_alternatives g)" "gl_pattern g = pattern"
    by (auto simp: glob_parse_def Let_def split: if_splits sum.splits)
  from expand_ok [OF x(1)] parse_alternatives_ok [OF x(2)] x(3) show ?thesis
    by (auto simp: MAX_ALTERNATIVES_def alternative_ok_def [abs_def] Suc_le_eq)
qed

text \<open>Witnesses: \<open>drive/**/*.{pdf,PDF}\<close>.\<close>

definition drive :: glob where
  "drive = \<lparr>gl_pattern = str ''drive/**/*.{pdf,PDF}'', gl_base = str ''drive'', gl_alternatives =
     [[Directories, Name (G_Any # map G_Char (str ''.pdf''))], [Directories, Name (G_Any # map G_Char (str ''.PDF''))]]\<rparr>"

lemma drive_parsed: "glob_parse (str ''drive/**/*.{pdf,PDF}'') = Inr drive"
proof -
  have "trim (str ''drive/**/*.{pdf,PDF}'') \<noteq> []" by (simp add: trim_def trim_start_def is_whitespace_def)
  moreover have "split_at (\<lambda>c. c = ch CHR ''/'') (str ''drive/**/*.{pdf,PDF}'') = [str ''drive'', str ''**'', str ''*.{pdf,PDF}'']"
    by code_simp
  moreover have "expand (str ''**/*.{pdf,PDF}'') = Inr [str ''**/*.pdf'', str ''**/*.PDF'']" by code_simp
  moreover have "parse_alternatives [str ''**/*.pdf'', str ''**/*.PDF''] = Inr (gl_alternatives drive)" by code_simp
  moreover have "is_pattern (str ''**'')" "\<not> is_pattern (str ''drive'')" by (simp_all add: is_pattern_def)
  moreover have "\<not> contains (str ''drive/**/*.{pdf,PDF}'') (str ''//'')" by code_simp
  ultimately show ?thesis by (simp add: glob_parse_def Let_def drive_def)
qed

lemma glob_parse_ok_witness:
  "1 \<le> length (gl_alternatives drive) \<and> length (gl_alternatives drive) \<le> 64 \<and>
    list_all (\<lambda>a. a \<noteq> [] \<and> last a \<noteq> Directories) (gl_alternatives drive) \<and> gl_pattern drive = str ''drive/**/*.{pdf,PDF}''"
  by (rule glob_parse_ok [OF drive_parsed])

lemma scan_reaches_matches_witness: "may_enter drive [str ''2026'', str ''03''] \<and> glob_depth drive = None"
proof -
  have "matches_names drive ([str ''2026'', str ''03''] @ str ''a.PDF'' # [])" by code_simp
  from scan_reaches_matches [OF this] show ?thesis by (simp add: glob_depth_def drive_def)
qed

definition dotted :: glob where
  "dotted = \<lparr>gl_pattern = str ''inbox/.*'', gl_base = str ''inbox'', gl_alternatives = [[Name [G_Char (ch CHR ''.''), G_Any]]]\<rparr>"

lemma hidden_names_left_out_witness:
  "\<exists>a \<in> set (gl_alternatives dotted). \<exists>ts. Name (G_Char (ch CHR ''.'') # ts) \<in> set a \<and> name_spec (G_Char (ch CHR ''.'') # ts) (str ''.hidden'')"
proof -
  have "glob_matches dotted (str ''inbox/.hidden'')" by code_simp
  moreover have "below_base (gl_base dotted) (str ''inbox/.hidden'') = Some (str ''.hidden'')" by code_simp
  moreover have "str ''.hidden'' \<in> set (split_at (\<lambda>c. c = ch CHR ''/'') (str ''.hidden''))" by simp
  moreover have "hidden (str ''.hidden'')" by (simp add: hidden_def starts_with_def)
  ultimately show ?thesis using hidden_names_left_out [of dotted "str ''inbox/.hidden''" "str ''.hidden''" "str ''.hidden''"] by blast
qed

end
