(* ===== verification/Shell_Quote.thy ===== *)
theory Shell_Quote
  imports Rust_Split
begin

text \<open>
  Remote commands (grenat\_ssh: src/quote.rs): an argument vector written as one line for the
  POSIX shell of the server. The shell's own reading of a line is specified beside it.
\<close>

subsection \<open>Quoting\<close>

datatype command_error =
  Empty_Command
| Nul_Argument

definition is_ascii_alphanumeric :: "nat \<Rightarrow> bool" where
  "is_ascii_alphanumeric c \<longleftrightarrow>
     is_ascii_digit c \<or> is_ascii_uppercase c \<or> ch CHR ''a'' \<le> c \<and> c \<le> ch CHR ''z''"

definition is_plain :: "nat \<Rightarrow> bool" where
  "is_plain c \<longleftrightarrow> is_ascii_alphanumeric c \<or> c \<in> set (str ''_-./,:@%+'')"

definition squote :: nat where
  "squote = 39"

definition backslash :: nat where
  "backslash = 92"

text \<open>\<open>str::replace\<close> of a character by a text.\<close>

definition replace_char :: "nat \<Rightarrow> rtext \<Rightarrow> rtext \<Rightarrow> rtext" where
  "replace_char x y s = concat (map (\<lambda>c. if c = x then y else [c]) s)"

definition shell_quote :: "rtext \<Rightarrow> rtext" where
  "shell_quote arg =
     (if arg \<noteq> [] \<and> list_all is_plain arg then arg
      else [squote] @ replace_char squote [squote, backslash, squote, squote] arg @ [squote])"

fun quote_all :: "rtext list \<Rightarrow> command_error + rtext list" where
  "quote_all [] = Inr []"
| "quote_all (arg # args) =
     (if 0 \<in> set arg then Inl Nul_Argument else map_sum id (Cons (shell_quote arg)) (quote_all args))"

definition command_line :: "rtext list \<Rightarrow> command_error + rtext" where
  "command_line argv =
     (if argv = [] then Inl Empty_Command else map_sum id (join_with (str '' '')) (quote_all argv))"

subsection \<open>What a POSIX shell reads\<close>

text \<open>
  The words of a line: blanks end a word, single quotes and the backslash take what they quote
  as it is, and any other character the shell treats specially (an expansion, a redirection, a
  second command, a comment, an assignment) makes the line more than words: \<open>None\<close>.
\<close>

definition is_blank :: "nat \<Rightarrow> bool" where
  "is_blank c \<longleftrightarrow> c = 32 \<or> c = 9"

definition shell_special :: "nat \<Rightarrow> bool" where
  "shell_special c \<longleftrightarrow> c \<in> {0, 10} \<or> c \<in> set (str ''|&;<>()$`*?[]#~=!{}^'') \<or> c = 34"

function shell_words :: "rtext \<Rightarrow> rtext option \<Rightarrow> rtext list option" where
  "shell_words [] word = Some (case word of None \<Rightarrow> [] | Some w \<Rightarrow> [w])"
| "shell_words (c # cs) word =
     (let w = (case word of None \<Rightarrow> [] | Some w \<Rightarrow> w)
      in if is_blank c then
           (case word of None \<Rightarrow> shell_words cs None | Some w \<Rightarrow> map_option (Cons w) (shell_words cs None))
         else if c = squote then
           (case split_once squote cs of
              None \<Rightarrow> None
            | Some (inside, rest) \<Rightarrow> shell_words rest (Some (w @ inside)))
         else if c = backslash then
           (case cs of
              [] \<Rightarrow> None
            | d # ds \<Rightarrow> if d = 10 then None else shell_words ds (Some (w @ [d])))
         else if shell_special c then None
         else shell_words cs (Some (w @ [c])))"
  by pat_completeness auto
termination
  by (relation "measure (\<lambda>(s, w). length s)") (auto dest: split_once_Some)

declare shell_words.simps(2) [simp del]

text \<open>
  The words POSIX reserves where a command's name is expected, when no part of them is quoted.
\<close>

definition RESERVED :: "string list" where
  "RESERVED = [''case'', ''do'', ''done'', ''elif'', ''else'', ''esac'', ''fi'', ''for'', ''if'', ''in'', ''then'', ''until'', ''while'']"

definition shell_command :: "rtext \<Rightarrow> rtext list option" where
  "shell_command s = (case shell_words s None of
     Some (w # ws) \<Rightarrow> if w \<in> set (map str RESERVED) \<and> starts_with s w then None else Some (w # ws)
   | _ \<Rightarrow> None)"

subsection \<open>Words survive\<close>

lemma plain_not_special:
  "is_plain c \<Longrightarrow> \<not> is_blank c \<and> c \<noteq> squote \<and> c \<noteq> backslash \<and> \<not> shell_special c"
  by (auto simp: is_plain_def is_ascii_alphanumeric_def is_ascii_digit_def is_ascii_uppercase_def
      is_blank_def squote_def backslash_def shell_special_def)

lemma words_plain:
  "list_all is_plain arg \<Longrightarrow> arg \<noteq> [] \<Longrightarrow>
     shell_words (arg @ rest) word = shell_words rest (Some ((case word of None \<Rightarrow> [] | Some w \<Rightarrow> w) @ arg))"
proof (induction arg arbitrary: word)
  case (Cons c arg)
  then have "shell_words ((c # arg) @ rest) word = shell_words (arg @ rest) (Some ((case word of None \<Rightarrow> [] | Some w \<Rightarrow> w) @ [c]))"
    using plain_not_special [of c] by (simp add: shell_words.simps(2) Let_def)
  with Cons show ?case by (cases "arg = []") auto
qed simp

lemma replace_char_simps [simp]:
  "replace_char x y [] = []" "replace_char x y (c # s) = (if c = x then y else [c]) @ replace_char x y s"
  "replace_char x y (s @ t) = replace_char x y s @ replace_char x y t"
  by (simp_all add: replace_char_def)

lemma replace_char_none: "x \<notin> set s \<Longrightarrow> replace_char x y s = s"
  by (induction s) auto

lemma words_inside:
  "squote \<notin> set a \<Longrightarrow> shell_words (squote # a @ squote # rest) word =
     shell_words rest (Some ((case word of None \<Rightarrow> [] | Some w \<Rightarrow> w) @ a))"
  using split_once_append [of squote a rest] by (simp add: shell_words.simps(2) is_blank_def squote_def)

lemma words_escaped: "shell_words (backslash # squote # rest) (Some w) = shell_words rest (Some (w @ [squote]))"
  by (simp add: shell_words.simps(2) is_blank_def squote_def backslash_def)

lemma words_quoted:
  "shell_words ([squote] @ replace_char squote [squote, backslash, squote, squote] arg @ squote # rest) word =
     shell_words rest (Some ((case word of None \<Rightarrow> [] | Some w \<Rightarrow> w) @ arg))"
proof (induction arg arbitrary: word rule: length_induct)
  case (1 arg)
  let ?w = "case word of None \<Rightarrow> [] | Some w \<Rightarrow> w"
  show ?case
  proof (cases "split_once squote arg")
    case None
    then have "squote \<notin> set arg" by (induction arg) (auto split: if_splits)
    then show ?thesis
      using words_inside [of arg rest word] by (simp add: replace_char_none)
  next
    case (Some ab)
    obtain a b where ab: "ab = (a, b)" by (cases ab)
    from split_once_Some [OF Some [unfolded ab]] have arg: "arg = a @ squote # b" "squote \<notin> set a" by simp_all
    then have "length b < length arg" by simp
    with 1 have ih: "shell_words ([squote] @ replace_char squote [squote, backslash, squote, squote] b @ squote # rest) word' =
        shell_words rest (Some ((case word' of None \<Rightarrow> [] | Some w \<Rightarrow> w) @ b))" for word' by blast
    let ?rest = "[squote] @ replace_char squote [squote, backslash, squote, squote] b @ squote # rest"
    have "[squote] @ replace_char squote [squote, backslash, squote, squote] arg @ squote # rest =
        squote # a @ squote # backslash # squote # ?rest"
      by (simp add: arg replace_char_none)
    then have "shell_words ([squote] @ replace_char squote [squote, backslash, squote, squote] arg @ squote # rest) word =
        shell_words (backslash # squote # ?rest) (Some (?w @ a))"
      by (simp only: words_inside [OF arg(2)])
    also have "\<dots> = shell_words ?rest (Some ((?w @ a) @ [squote]))" by (rule words_escaped)
    also have "\<dots> = shell_words rest (Some (((?w @ a) @ [squote]) @ b))" unfolding ih by simp
    finally show ?thesis by (simp add: arg(1))
  qed
qed

lemma words_quote: "shell_words (shell_quote arg @ rest) None = shell_words rest (Some arg)"
  using words_plain [of arg rest None] words_quoted [of arg rest None] by (auto simp: shell_quote_def)

lemma words_join:
  "quote_all argv = Inr qs \<Longrightarrow> argv \<noteq> [] \<Longrightarrow> shell_words (join_with (str '' '') qs) None = Some argv"
proof (induction argv arbitrary: qs)
  case (Cons arg argv)
  from Cons.prems(1) obtain rs where qs: "quote_all argv = Inr rs" "qs = shell_quote arg # rs" by (auto split: if_splits)
  show ?case
  proof (cases argv)
    case Nil
    with qs words_quote [of arg "[]"] show ?thesis by simp
  next
    case Cons
    with qs(1) obtain r rs' where rs: "rs = r # rs'" by (auto split: if_splits)
    have "shell_words (join_with (str '' '') qs) None = shell_words (str '' '' @ join_with (str '' '') rs) (Some arg)"
      unfolding qs(2) rs by (simp add: words_quote)
    also have "\<dots> = map_option (Cons arg) (shell_words (join_with (str '' '') rs) None)"
      by (simp add: shell_words.simps(2) is_blank_def)
    finally show ?thesis using Cons.IH [OF qs(1)] Cons by simp
  qed
qed simp

lemma quoted_start:
  assumes "is_plain c"
  shows "shell_quote arg @ s \<noteq> [] \<and> hd (shell_quote arg @ s) = c \<Longrightarrow> shell_quote arg = arg"
  using plain_not_special [OF assms] by (auto simp: shell_quote_def split: if_splits)

lemma reserved_plain: "w \<in> set (map str RESERVED) \<Longrightarrow> w \<noteq> [] \<and> list_all is_plain w"
  by (auto simp: RESERVED_def is_plain_def is_ascii_alphanumeric_def)

text \<open>
  C12: The line sent to a remote shell is read back as exactly the arguments given, whatever
  they hold: no expansion, no second command, no splitting. One case is no command of that
  name: a first argument that is a word the shell reserves is left bare, and read as such.
\<close>

theorem remote_command_exact:
  assumes "command_line argv = Inr s"
  shows "shell_words s None = Some argv \<and>
    shell_command s = (if hd argv \<in> set (map str RESERVED) then None else Some argv)"
proof -
  from assms obtain qs where qs: "argv \<noteq> []" "quote_all argv = Inr qs" "s = join_with (str '' '') qs"
    by (auto simp: command_line_def split: if_splits)
  from words_join [OF qs(2,1)] have w: "shell_words s None = Some argv" by (simp add: qs(3))
  obtain arg args where argv: "argv = arg # args" using qs(1) by (cases argv) auto
  have "starts_with s arg" if "arg \<in> set (map str RESERVED)"
  proof -
    have "shell_quote arg = arg" using reserved_plain [OF that] by (simp add: shell_quote_def)
    moreover from qs(2) obtain rs where "qs = shell_quote arg # rs" by (auto simp: argv split: if_splits)
    ultimately have "\<exists>t. s = arg @ t" unfolding qs(3) by (cases rs) auto
    then show ?thesis by (auto simp: starts_with_def)
  qed
  with w show ?thesis by (simp add: shell_command_def argv)
qed

lemma remote_command_exact_witness:
  "\<exists>s. command_line [str ''echo'', str ''; rm -rf /'', [39], []] = Inr s \<and>
     shell_command s = Some [str ''echo'', str ''; rm -rf /'', [39], []]"
proof -
  let ?argv = "[str ''echo'', str ''; rm -rf /'', [39], []]"
  have "\<exists>s. command_line ?argv = Inr s" by (simp add: command_line_def)
  then obtain s where s: "command_line ?argv = Inr s" ..
  have "hd ?argv \<notin> set (map str RESERVED)" by (simp add: RESERVED_def)
  with remote_command_exact [OF s] s show ?thesis by auto
qed

end
