(* ===== verification/Host_Pattern.thy ===== *)
theory Host_Pattern
  imports Wildcards
begin

text \<open>
  Whether a host name matches the host field of a known\_hosts line (grenat\_ssh:
  src/host\_pattern.rs). The patterns come parsed from a library, as one hashed name or a list of
  texts; HMAC-SHA1 is a library too, the parameter \<open>hmac\<close>: \<open>None\<close> when the key is refused.
\<close>

datatype host_patterns =
  Hashed_Name bytes bytes
| Patterns "rtext list"

definition to_ascii_lowercase :: "rtext \<Rightarrow> rtext" where
  "to_ascii_lowercase s = map ascii_lower s"

definition host_name :: "rtext \<Rightarrow> nat \<Rightarrow> rtext" where
  "host_name host port =
     (let host = to_ascii_lowercase host
      in if port = 22 then host else str ''['' @ host @ str '']:'' @ nat_digits port)"

fun byte_glob :: "bytes \<Rightarrow> bytes \<Rightarrow> bool" where
  "byte_glob [] s \<longleftrightarrow> s = []"
| "byte_glob (p # ps) s \<longleftrightarrow>
     (if p = ch CHR ''*'' then \<exists>skip \<le> length s. byte_glob ps (drop skip s)
      else if p = ch CHR ''?'' then s \<noteq> [] \<and> byte_glob ps (tl s)
      else s \<noteq> [] \<and> hd s = p \<and> byte_glob ps (tl s))"

definition hashed_matches :: "(bytes \<Rightarrow> bytes \<Rightarrow> bytes option) \<Rightarrow> bytes \<Rightarrow> bytes \<Rightarrow> rtext \<Rightarrow> bool" where
  "hashed_matches hmac salt hash name =
     (case hmac salt (as_bytes name) of None \<Rightarrow> False | Some mac \<Rightarrow> mac = hash)"

text \<open>The loop over the patterns: \<open>matched\<close> so far, and a negation that matches ends it.\<close>

fun pattern_loop :: "rtext list \<Rightarrow> rtext \<Rightarrow> bool \<Rightarrow> bool" where
  "pattern_loop [] name matched = matched"
| "pattern_loop (p # ps) name matched =
     (let pattern = to_ascii_lowercase p
      in case strip_prefix (str ''!'') pattern of
           Some negated \<Rightarrow>
             if byte_glob (as_bytes negated) (as_bytes name) then False else pattern_loop ps name matched
         | None \<Rightarrow> pattern_loop ps name (matched \<or> byte_glob (as_bytes pattern) (as_bytes name)))"

definition host_matches :: "(bytes \<Rightarrow> bytes \<Rightarrow> bytes option) \<Rightarrow> host_patterns \<Rightarrow> rtext \<Rightarrow> bool" where
  "host_matches hmac patterns name = (case patterns of
     Hashed_Name salt hash \<Rightarrow> hashed_matches hmac salt hash name
   | Patterns ps \<Rightarrow> pattern_loop ps name False)"

subsection \<open>The matcher\<close>

abbreviation is_star :: "nat \<Rightarrow> bool" where
  "is_star p \<equiv> p = ch CHR ''*''"

definition byte_fits :: "nat \<Rightarrow> nat \<Rightarrow> bool" where
  "byte_fits p c \<longleftrightarrow> p = ch CHR ''?'' \<or> c = p"

interpretation hosts: wildcard_matcher is_star byte_fits byte_glob
proof
  show "is_star t \<Longrightarrow> byte_glob (t # ts) s \<longleftrightarrow> byte_glob ts s \<or> s \<noteq> [] \<and> byte_glob (t # ts) (tl s)" for t ts s
    using drop_choice [of s "byte_glob ts"] by simp
qed (auto simp: byte_fits_def)

definition positive :: "rtext \<Rightarrow> rtext \<Rightarrow> bool" where
  "positive name p \<longleftrightarrow> (let p = to_ascii_lowercase p in strip_prefix (str ''!'') p = None \<and>
     wild is_star byte_fits (as_bytes p) (as_bytes name))"

definition negation :: "rtext \<Rightarrow> rtext \<Rightarrow> bool" where
  "negation name p \<longleftrightarrow> (case strip_prefix (str ''!'') (to_ascii_lowercase p) of
     None \<Rightarrow> False | Some q \<Rightarrow> wild is_star byte_fits (as_bytes q) (as_bytes name))"

lemma pattern_loop_spec:
  "pattern_loop ps name matched \<longleftrightarrow> (matched \<or> list_ex (positive name) ps) \<and> \<not> list_ex (negation name) ps"
  by (induction ps name matched rule: pattern_loop.induct)
    (auto simp: Let_def positive_def negation_def hosts.matcher_wild split: option.splits)

text \<open>
  A host is known by a list of patterns when a positive one matches it and no negated one
  does, wherever the negation stands in the list, with \<open>*\<close> and \<open>?\<close> as wildcards.
\<close>

theorem negation_wins:
  "host_matches hmac (Patterns ps) name \<longleftrightarrow>
     list_ex (\<lambda>p. positive name p) ps \<and> \<not> list_ex (\<lambda>p. negation name p) ps"
  by (simp add: host_matches_def pattern_loop_spec)

end
