(* ===== verification/Files.thy ===== *)
theory Files
  imports Rust_Split
begin

text \<open>
  Text files, as \<open>read_to_string\<close> and \<open>str::lines\<close> read them: what stands at a path, and the lines
  of a text.
\<close>

datatype file_state =
  Missing
| Holds rtext
| Unreadable

text \<open>\<open>str::lines\<close>: without the line feed and a carriage return before it; no empty last line.\<close>

definition strip_cr :: "rtext \<Rightarrow> rtext" where
  "strip_cr l = (if l \<noteq> [] \<and> last l = 13 then butlast l else l)"

definition text_lines :: "rtext \<Rightarrow> rtext list" where
  "text_lines s =
     (let ls = split_at (\<lambda>c. c = newline_char) s
      in map strip_cr (butlast ls) @ (if last ls = [] then [] else [last ls]))"

text \<open>Lines written one after the other, each ended by a line feed.\<close>

definition unlines :: "rtext list \<Rightarrow> rtext" where
  "unlines ls = concat (map (\<lambda>l. l @ [newline_char]) ls)"

lemma unlines_simps [simp]:
  "unlines [] = []" "unlines (l # ls) = l @ newline_char # unlines ls" "unlines (ls @ ms) = unlines ls @ unlines ms"
  by (simp_all add: unlines_def)

lemma split_unlines:
  "\<forall>l \<in> set ls. newline_char \<notin> set l \<Longrightarrow>
     split_at (\<lambda>c. c = newline_char) (unlines ls @ r) = ls @ split_at (\<lambda>c. c = newline_char) r"
  by (induction ls) auto

lemma text_lines_unlines:
  assumes "\<forall>l \<in> set ls. newline_char \<notin> set l" and "newline_char \<notin> set r"
  shows "text_lines (unlines ls @ r) = map strip_cr ls @ (if r = [] then [] else [r])"
proof -
  have "split_at (\<lambda>c. c = newline_char) r = [r]" using assms(2) by (intro split_at_none) auto
  then show ?thesis using split_unlines [OF assms(1), of r] by (simp add: text_lines_def Let_def butlast_append)
qed

end
