(* ===== verification/Known_Hosts.thy ===== *)
theory Known_Hosts
  imports Host_Pattern Files
begin

text \<open>
  Host keys (grenat\_ssh: src/known\_hosts.rs, src/host\_key.rs): what a known\_hosts file says of a
  key, and whether a key is trusted under a policy. The keys, the parser of an entry, the text
  of a key and HMAC-SHA1 are libraries: the parameter \<open>ssh_lib\<close>.
\<close>

subsection \<open>The file\<close>

datatype marker =
  Revoked_Marker
| Cert_Authority

record 'k entry =
  en_marker :: "marker option"
  en_patterns :: host_patterns
  en_key :: 'k

record 'k ssh_lib =
  parse_entry :: "rtext \<Rightarrow> 'k entry option"
  openssh_text :: "'k \<Rightarrow> rtext"
  algorithm :: "'k \<Rightarrow> rtext"
  fingerprint :: "'k \<Rightarrow> rtext"
  lib_hmac :: "bytes \<Rightarrow> bytes \<Rightarrow> bytes option"

datatype lookup_result =
  Known
| Unknown
| Changed nat
| Revoked nat

definition parse_line :: "'k ssh_lib \<Rightarrow> rtext \<Rightarrow> 'k entry option" where
  "parse_line lib line =
     (let line = trim line
      in if line = [] \<or> starts_with line (str ''#'') then None
         else parse_entry lib (join_with (str '' '') (split_whitespace line)))"

text \<open>The loop of \<open>lookup\<close>: from line \<open>n\<close> (from 1), whether the key is known and where it changed.\<close>

fun lookup_loop :: "'k ssh_lib \<Rightarrow> rtext \<Rightarrow> 'k \<Rightarrow> nat \<Rightarrow> rtext list \<Rightarrow> bool \<Rightarrow> nat option \<Rightarrow> lookup_result" where
  "lookup_loop lib name key n [] known changed =
     (if known then Known else case changed of Some line \<Rightarrow> Changed line | None \<Rightarrow> Unknown)"
| "lookup_loop lib name key n (l # ls) known changed =
     (case parse_line lib l of
        None \<Rightarrow> lookup_loop lib name key (n + 1) ls known changed
      | Some entry \<Rightarrow>
          (case en_marker entry of
             Some m \<Rightarrow>
               if m = Revoked_Marker \<and> en_key entry = key then Revoked n
               else lookup_loop lib name key (n + 1) ls known changed
           | None \<Rightarrow>
               if host_matches (lib_hmac lib) (en_patterns entry) name then
                 (if en_key entry = key then lookup_loop lib name key (n + 1) ls True changed
                  else lookup_loop lib name key (n + 1) ls known (Some (case changed of None \<Rightarrow> n | Some c \<Rightarrow> c)))
               else lookup_loop lib name key (n + 1) ls known changed))"

definition lookup :: "'k ssh_lib \<Rightarrow> rtext \<Rightarrow> rtext \<Rightarrow> 'k \<Rightarrow> lookup_result" where
  "lookup lib s name key = lookup_loop lib name key 1 (text_lines s) False None"

text \<open>\<open>line\<close> and \<open>append\<close>.\<close>

definition append_line :: "rtext \<Rightarrow> rtext \<Rightarrow> rtext" where
  "append_line s line = s @ (if s \<noteq> [] \<and> last s \<noteq> newline_char then [newline_char] else []) @ line @ [newline_char]"

definition known_line :: "'k ssh_lib \<Rightarrow> rtext \<Rightarrow> 'k \<Rightarrow> rtext" where
  "known_line lib name key = name @ str '' '' @ rev (dropWhile is_whitespace (rev (openssh_text lib key)))"

subsection \<open>Policies\<close>

text \<open>A path is a text; what stands there, and whether a file there can be written.\<close>

datatype known_hosts_policy =
  Fingerprint rtext
| In_File rtext
| Record_Into rtext

record store =
  st_files :: "rtext \<Rightarrow> file_state"
  st_writable :: "rtext \<Rightarrow> bool"

datatype refusal =
  Other_Fingerprint
| No_File
| Cannot_Read
| Key_Changed nat
| Key_Revoked nat
| Key_Unknown
| Cannot_Record

record host_key =
  hk_algorithm :: rtext
  hk_fingerprint :: rtext
  hk_recorded :: bool

definition read_known :: "store \<Rightarrow> rtext \<Rightarrow> refusal + rtext" where
  "read_known st path = (case st_files st path of Holds s \<Rightarrow> Inr s | Missing \<Rightarrow> Inr [] | Unreadable \<Rightarrow> Inl Cannot_Read)"

definition normalize_fingerprint :: "rtext \<Rightarrow> rtext" where
  "normalize_fingerprint f =
     (let f = trim f;
          f = (case strip_prefix (str ''SHA256:'') f of None \<Rightarrow> f | Some g \<Rightarrow> g)
      in rev (dropWhile (\<lambda>c. c = ch CHR ''='') (rev f)))"

definition same_fingerprint :: "rtext \<Rightarrow> rtext \<Rightarrow> bool" where
  "same_fingerprint expected offered =
     (let expected = normalize_fingerprint expected
      in expected \<noteq> [] \<and> expected = normalize_fingerprint offered)"

definition verify_in_file :: "'k ssh_lib \<Rightarrow> bool \<Rightarrow> rtext \<Rightarrow> rtext \<Rightarrow> nat \<Rightarrow> 'k \<Rightarrow> store \<Rightarrow> (refusal + host_key) \<times> store" where
  "verify_in_file lib record path host port key st =
     (let offered = \<lparr>hk_algorithm = algorithm lib key, hk_fingerprint = fingerprint lib key, hk_recorded = False\<rparr>
      in if path = [] then (Inl No_File, st)
         else let name = host_name host port
         in case read_known st path of
              Inl e \<Rightarrow> (Inl e, st)
            | Inr s \<Rightarrow>
                (case lookup lib s name key of
                   Known \<Rightarrow> (Inr offered, st)
                 | Changed line \<Rightarrow> (Inl (Key_Changed line), st)
                 | Revoked line \<Rightarrow> (Inl (Key_Revoked line), st)
                 | Unknown \<Rightarrow>
                     if record then
                       (if st_writable st path then
                          (Inr (offered\<lparr>hk_recorded := True\<rparr>),
                           st\<lparr>st_files := (st_files st)(path := Holds (append_line s (known_line lib name key)))\<rparr>)
                        else (Inl Cannot_Record, st))
                     else (Inl Key_Unknown, st)))"

definition verify :: "'k ssh_lib \<Rightarrow> known_hosts_policy \<Rightarrow> rtext \<Rightarrow> nat \<Rightarrow> 'k \<Rightarrow> store \<Rightarrow> (refusal + host_key) \<times> store" where
  "verify lib policy host port key st = (case policy of
     Fingerprint expected \<Rightarrow>
       (if same_fingerprint expected (fingerprint lib key)
        then (Inr \<lparr>hk_algorithm = algorithm lib key, hk_fingerprint = fingerprint lib key, hk_recorded = False\<rparr>, st)
        else (Inl Other_Fingerprint, st))
   | In_File path \<Rightarrow> verify_in_file lib False path host port key st
   | Record_Into path \<Rightarrow> verify_in_file lib True path host port key st)"

subsection \<open>What the file says\<close>

text \<open>
  The entry of each line, and the verdict they give together: a revocation of the key before all,
  then a line for the host with this key, then the first line for the host with another one.
\<close>

definition revokes :: "'k \<Rightarrow> 'k entry \<Rightarrow> bool" where
  "revokes key e \<longleftrightarrow> en_marker e = Some Revoked_Marker \<and> en_key e = key"

definition says :: "'k ssh_lib \<Rightarrow> rtext \<Rightarrow> ('k \<Rightarrow> bool) \<Rightarrow> 'k entry \<Rightarrow> bool" where
  "says lib name P e \<longleftrightarrow> en_marker e = None \<and> host_matches (lib_hmac lib) (en_patterns e) name \<and> P (en_key e)"

definition entry_is :: "('k entry \<Rightarrow> bool) \<Rightarrow> 'k entry option \<Rightarrow> bool" where
  "entry_is P e = (case e of None \<Rightarrow> False | Some e \<Rightarrow> P e)"

lemma entry_is_simps [simp]: "\<not> entry_is P None" "entry_is P (Some e) = P e"
  by (simp_all add: entry_is_def)

definition entries :: "'k ssh_lib \<Rightarrow> rtext \<Rightarrow> 'k entry option list" where
  "entries lib s = map (parse_line lib) (text_lines s)"

definition verdict :: "'k ssh_lib \<Rightarrow> rtext \<Rightarrow> 'k \<Rightarrow> 'k entry option list \<Rightarrow> lookup_result" where
  "verdict lib name key es =
     (case position_of (entry_is (revokes key)) es of
        Some i \<Rightarrow> Revoked (i + 1)
      | None \<Rightarrow>
          if list_ex (entry_is (says lib name (\<lambda>k. k = key))) es then Known
          else case position_of (entry_is (says lib name (\<lambda>k. k \<noteq> key))) es of
                 Some i \<Rightarrow> Changed (i + 1)
               | None \<Rightarrow> Unknown)"

lemma lookup_loop_verdict:
  "lookup_loop lib name key n ls known changed =
     (let es = map (parse_line lib) ls
      in case position_of (entry_is (revokes key)) es of
           Some i \<Rightarrow> Revoked (n + i)
         | None \<Rightarrow>
             if known \<or> list_ex (entry_is (says lib name (\<lambda>k. k = key))) es then Known
             else case changed of Some c \<Rightarrow> Changed c
                | None \<Rightarrow> (case position_of (entry_is (says lib name (\<lambda>k. k \<noteq> key))) es of
                    Some i \<Rightarrow> Changed (n + i) | None \<Rightarrow> Unknown))"
proof (induction ls arbitrary: n known changed)
  case (Cons l ls)
  show ?case
  proof (cases "parse_line lib l")
    case None
    then show ?thesis by (simp add: Cons.IH Let_def split: option.split)
  next
    case (Some e)
    then show ?thesis
      by (cases "en_marker e"; cases changed)
        (auto simp: Cons.IH Let_def revokes_def says_def split: option.split)
  qed
qed (auto split: option.split)

lemma lookup_verdict: "lookup lib s name key = verdict lib name key (entries lib s)"
  by (simp add: lookup_def lookup_loop_verdict verdict_def entries_def Let_def split: option.split)

subsection \<open>A line appended\<close>

lemma trim_snoc: "is_whitespace c \<Longrightarrow> trim (s @ [c]) = trim s"
  by (cases "dropWhile is_whitespace s = []")
    (auto simp: trim_def trim_start_def dropWhile_append dropWhile_eq_Nil_conv dest: set_dropWhileD)

lemma parse_line_cr [simp]: "parse_line lib (strip_cr l) = parse_line lib l"
proof -
  have "is_whitespace 13" by (simp add: is_whitespace_def)
  then have "trim (strip_cr l) = trim l"
    using trim_snoc [of 13 "butlast l"] append_butlast_last_id [of l] by (metis strip_cr_def)
  then show ?thesis by (simp add: parse_line_def)
qed

lemma entries_split_at: "entries lib s = map (parse_line lib)
    (let ls = split_at (\<lambda>c. c = newline_char) s in if last ls = [] then butlast ls else ls)"
proof -
  let ?ls = "split_at (\<lambda>c. c = newline_char) s"
  have "map (parse_line lib) ?ls = map (parse_line lib) (butlast ?ls) @ [parse_line lib (last ?ls)]"
    by (metis append_butlast_last_id list.simps(8,9) map_append split_at_not_Nil)
  then show ?thesis by (simp add: entries_def text_lines_def Let_def comp_def)
qed

lemma entries_append_line:
  assumes "newline_char \<notin> set l"
  shows "entries lib (append_line s l) = entries lib s @ [parse_line lib l]"
proof -
  let ?P = "\<lambda>c. c = newline_char"
  have one: "split_at ?P (l @ [newline_char]) = [l, []]" using assms by simp
  show ?thesis
  proof (cases "s = [] \<or> last s \<noteq> newline_char")
    case True
    then have new: "split_at ?P (append_line s l) = (if s = [] then [] else split_at ?P s) @ [l, []]"
      using one split_at_at [of ?P newline_char s "l @ [newline_char]"] by (auto simp: append_line_def)
    show ?thesis
      using True split_at_last [of ?P s] by (auto simp: entries_split_at new Let_def butlast_append)
  next
    case False
    then obtain t where s: "s = t @ [newline_char]" by (metis append_butlast_last_id)
    have "split_at ?P s = split_at ?P t @ [[]]"
      using split_at_at [of ?P newline_char t "[]"] by (simp add: s)
    moreover have "split_at ?P (append_line s l) = split_at ?P t @ [l, []]"
      using one split_at_at [of ?P newline_char t "l @ [newline_char]"] by (simp add: s append_line_def)
    ultimately show ?thesis by (simp add: entries_split_at Let_def butlast_append)
  qed
qed

subsection \<open>Trust\<close>

definition offered_key :: "'k ssh_lib \<Rightarrow> 'k \<Rightarrow> host_key" where
  "offered_key lib key = \<lparr>hk_algorithm = algorithm lib key, hk_fingerprint = fingerprint lib key, hk_recorded = False\<rparr>"

lemma verify_in_file_cases:
  "verify_in_file lib record path host port key st = (r, st') \<longleftrightarrow>
     (if path = [] then (r, st') = (Inl No_File, st)
      else case read_known st path of
        Inl e \<Rightarrow> (r, st') = (Inl e, st)
      | Inr s \<Rightarrow>
          (case verdict lib (host_name host port) key (entries lib s) of
             Known \<Rightarrow> (r, st') = (Inr (offered_key lib key), st)
           | Changed line \<Rightarrow> (r, st') = (Inl (Key_Changed line), st)
           | Revoked line \<Rightarrow> (r, st') = (Inl (Key_Revoked line), st)
           | Unknown \<Rightarrow>
               if \<not> record then (r, st') = (Inl Key_Unknown, st)
               else if \<not> st_writable st path then (r, st') = (Inl Cannot_Record, st)
               else r = Inr (offered_key lib key\<lparr>hk_recorded := True\<rparr>) \<and>
                 st' = st\<lparr>st_files := (st_files st)(path :=
                   Holds (append_line s (known_line lib (host_name host port) key)))\<rparr>))"
  by (auto simp: verify_in_file_def offered_key_def lookup_verdict Let_def split: sum.split lookup_result.split)

lemma position_of_None: "position_of P xs = None \<longleftrightarrow> \<not> list_ex P xs"
  by (induction xs) auto

lemma list_ex_says: "list_ex (entry_is (says lib name (\<lambda>k. True))) es \<longleftrightarrow>
    list_ex (entry_is (says lib name (\<lambda>k. k = key))) es \<or> list_ex (entry_is (says lib name (\<lambda>k. k \<noteq> key))) es"
  by (induction es) (auto simp: entry_is_def says_def split: option.splits)

lemma verdict_Unknown:
  "verdict lib name key es = Unknown \<longleftrightarrow>
     \<not> list_ex (entry_is (revokes key)) es \<and> \<not> list_ex (entry_is (says lib name (\<lambda>k. True))) es"
  using position_of_None [of "entry_is (revokes key)" es]
    position_of_None [of "entry_is (says lib name (\<lambda>k. k \<noteq> key))" es]
  by (auto simp: verdict_def list_ex_says [of lib name es key] split: option.split)

lemma verdict_Known:
  "verdict lib name key es = Known \<longleftrightarrow>
     \<not> list_ex (entry_is (revokes key)) es \<and> list_ex (entry_is (says lib name (\<lambda>k. k = key))) es"
  by (auto simp: verdict_def position_of_None [symmetric] split: option.split)

text \<open>After the line of a new host is added, its key is known and every other is refused.\<close>

lemma verdict_snoc:
  assumes "verdict lib name key es = Unknown" "says lib name (\<lambda>k. k = key) e"
  shows "verdict lib name key (es @ [Some e]) = Known"
    and "other \<noteq> key \<Longrightarrow> \<exists>n. verdict lib name other (es @ [Some e]) \<in> {Changed n, Revoked n}"
proof -
  show "verdict lib name key (es @ [Some e]) = Known"
    using assms by (auto simp: verdict_Known verdict_Unknown says_def revokes_def)
next
  assume other: "other \<noteq> key"
  have "verdict lib name other (es @ [Some e]) \<noteq> Known" "verdict lib name other (es @ [Some e]) \<noteq> Unknown"
    using assms other list_ex_says [of lib name es other]
    by (auto simp: verdict_Known verdict_Unknown says_def)
  then show "\<exists>n. verdict lib name other (es @ [Some e]) \<in> {Changed n, Revoked n}"
    by (cases "verdict lib name other (es @ [Some e])") auto
qed

text \<open>
  C36: A key is accepted for a host exactly when its fingerprint is the expected one, or the
  known\_hosts file does not revoke it and either has a line for the host with this key, or, when
  new keys are recorded, has no line for the host at all and can be written.
\<close>

theorem accepted_keys:
  "(\<exists>hk st'. verify lib policy host port key st = (Inr hk, st')) \<longleftrightarrow>
     (let name = host_name host port;
          file_accepts = \<lambda>record path. path \<noteq> [] \<and> (\<exists>s. read_known st path = Inr s \<and>
            \<not> list_ex (entry_is (revokes key)) (entries lib s) \<and>
            (list_ex (entry_is (says lib name (\<lambda>k. k = key))) (entries lib s) \<or>
             record \<and> st_writable st path \<and> \<not> list_ex (entry_is (says lib name (\<lambda>k. True))) (entries lib s)))
      in case policy of
           Fingerprint expected \<Rightarrow> same_fingerprint expected (fingerprint lib key)
         | In_File path \<Rightarrow> file_accepts False path
         | Record_Into path \<Rightarrow> file_accepts True path)"
proof -
  have in_file: "(\<exists>hk st'. verify_in_file lib rc path host port key st = (Inr hk, st')) \<longleftrightarrow>
     path \<noteq> [] \<and> (\<exists>s. read_known st path = Inr s \<and>
       (verdict lib (host_name host port) key (entries lib s) = Known \<or>
        rc \<and> st_writable st path \<and> verdict lib (host_name host port) key (entries lib s) = Unknown))" for rc path
  proof (cases "read_known st path")
    case (Inr s)
    then show ?thesis
      by (cases "verdict lib (host_name host port) key (entries lib s)") (auto simp: verify_in_file_cases)
  qed (auto simp: verify_in_file_cases)
  show ?thesis
    by (cases policy) (auto simp: verify_def in_file verdict_Known verdict_Unknown Let_def)
qed

text \<open>
  C16: Trust on first use: once a connection has recorded a host's key, the same key is accepted
  without being recorded again, and every other key is refused as changed (or revoked), whatever
  the rest of the file says, as long as the line written reads back as this key for this host.
\<close>

theorem first_use_pins:
  assumes first: "verify lib (Record_Into path) host port key st = (Inr hk, st')" "hk_recorded hk"
    and one_line: "newline_char \<notin> set (known_line lib (host_name host port) key)"
    and reads_back: "parse_line lib (known_line lib (host_name host port) key) = Some entry"
      "says lib (host_name host port) (\<lambda>k. k = key) entry"
    and other: "other \<noteq> key"
  shows "verify lib (Record_Into path) host port key st' = (Inr (hk\<lparr>hk_recorded := False\<rparr>), st') \<and>
    (\<exists>n. verify lib (Record_Into path) host port other st' \<in>
       {(Inl (Key_Changed n), st'), (Inl (Key_Revoked n), st')})"
proof -
  let ?name = "host_name host port"
  from first obtain s where s: "path \<noteq> []" "read_known st path = Inr s"
      "verdict lib ?name key (entries lib s) = Unknown"
      "hk = offered_key lib key\<lparr>hk_recorded := True\<rparr>"
      "st_files st' path = Holds (append_line s (known_line lib ?name key))"
    by (auto simp: verify_def verify_in_file_cases offered_key_def split: if_splits sum.splits lookup_result.splits)
  have "read_known st' path = Inr (append_line s (known_line lib ?name key))"
    by (simp add: read_known_def s)
  moreover have "entries lib (append_line s (known_line lib ?name key)) = entries lib s @ [Some entry]"
    by (simp add: entries_append_line one_line reads_back)
  moreover note verdict_snoc(1) [OF s(3) reads_back(2)] verdict_snoc(2) [OF s(3) reads_back(2) other]
  ultimately show ?thesis
    using s(1,4)
    by (auto simp: verify_def verify_in_file_cases offered_key_def split: lookup_result.splits)
qed

definition sample_lib :: "rtext ssh_lib" where
  "sample_lib = \<lparr>
     parse_entry = (\<lambda>t. case split_whitespace t of
       [name, k] \<Rightarrow> Some \<lparr>en_marker = None, en_patterns = Patterns [name], en_key = k\<rparr> | _ \<Rightarrow> None),
     openssh_text = (\<lambda>k. k), algorithm = (\<lambda>k. str ''k''), fingerprint = (\<lambda>k. k),
     lib_hmac = (\<lambda>_ _. None)\<rparr>"

definition sample_store :: store where
  "sample_store = \<lparr>st_files = (\<lambda>_. Missing), st_writable = (\<lambda>_. True)\<rparr>"

lemma sample_line:
  "known_line sample_lib (host_name (str ''H'') 22) (str ''a'') = str ''h a''"
  "parse_line sample_lib (str ''h a'') = Some \<lparr>en_marker = None, en_patterns = Patterns [str ''h''], en_key = str ''a''\<rparr>"
  by (simp_all add: known_line_def sample_lib_def host_name_def to_ascii_lowercase_def ascii_lower_def
      is_ascii_uppercase_def parse_line_def trim_def trim_start_def is_whitespace_def split_whitespace_def
      starts_with_def Let_def)

lemma sample_says:
  "says sample_lib (host_name (str ''H'') 22) (\<lambda>k. k = str ''a'')
     \<lparr>en_marker = None, en_patterns = Patterns [str ''h''], en_key = str ''a''\<rparr>"
  by (simp add: says_def sample_lib_def host_name_def to_ascii_lowercase_def ascii_lower_def
      is_ascii_uppercase_def host_matches_def Let_def strip_prefix_def starts_with_def as_bytes_def utf8_char_def)

lemma first_use_pins_witness:
  "\<exists>n. verify sample_lib (Record_Into (str ''f'')) (str ''H'') 22 (str ''b'')
      (snd (verify sample_lib (Record_Into (str ''f'')) (str ''H'') 22 (str ''a'') sample_store))
    \<in> {(Inl (Key_Changed n), snd (verify sample_lib (Record_Into (str ''f'')) (str ''H'') 22 (str ''a'') sample_store)),
       (Inl (Key_Revoked n), snd (verify sample_lib (Record_Into (str ''f'')) (str ''H'') 22 (str ''a'') sample_store))}"
proof -
  let ?r = "verify sample_lib (Record_Into (str ''f'')) (str ''H'') 22 (str ''a'') sample_store"
  have "?r = (Inr (offered_key sample_lib (str ''a'')\<lparr>hk_recorded := True\<rparr>), snd ?r)"
    by (simp add: verify_def verify_in_file_def offered_key_def sample_lib_def sample_store_def lookup_def
        text_lines_def read_known_def)
  from first_use_pins [OF this, of "\<lparr>en_marker = None, en_patterns = Patterns [str ''h''], en_key = str ''a''\<rparr>" "str ''b''"]
  show ?thesis by (simp only: sample_line sample_says) (simp add: offered_key_def)
qed

end
