(* ===== verification/Effects.thy ===== *)
theory Effects
  imports Rust_Split
begin

text \<open>
  Effects as the checker compares them (grenat\_types: src/effects.rs): a path like \<open>fs.read\<close> with an
  optional restriction, what a declaration covers, and the host of a URL or SSH target. The place
  an effect comes from is only for messages and left out.
\<close>

subsection \<open>Texts\<close>

text \<open>\<open>trim_start_matches\<close> and \<open>trim_end_matches\<close>, \<open>rsplit(c).next()\<close>, \<open>split(..).next()\<close>.\<close>

function trim_start_matches :: "rtext \<Rightarrow> rtext \<Rightarrow> rtext" where
  "trim_start_matches p s =
     (if p \<noteq> [] \<and> starts_with s p then trim_start_matches p (drop (length p) s) else s)"
  by pat_completeness auto
termination
proof (relation "measure (\<lambda>(p, s). length s)")
  fix p s :: rtext
  assume "p \<noteq> [] \<and> starts_with s p"
  moreover from this have "s \<noteq> []" by (auto simp: starts_with_def)
  ultimately show "((p, drop (length p) s), p, s) \<in> measure (\<lambda>(p, s). length s)" by simp
qed simp

declare trim_start_matches.simps [simp del]

definition trim_end_char :: "nat \<Rightarrow> rtext \<Rightarrow> rtext" where
  "trim_end_char c s = rev (dropWhile (\<lambda>x. x = c) (rev s))"

definition first_piece :: "(nat \<Rightarrow> bool) \<Rightarrow> rtext \<Rightarrow> rtext" where
  "first_piece P s = takeWhile (\<lambda>c. \<not> P c) s"

definition last_piece :: "nat \<Rightarrow> rtext \<Rightarrow> rtext" where
  "last_piece c s = rev (takeWhile (\<lambda>x. x \<noteq> c) (rev s))"

lemma first_piece_split: "first_piece P s = hd (split_at P s)"
proof (induction s)
  case (Cons c s)
  then show ?case by (cases "split_at P s") (auto simp: first_piece_def)
qed (simp add: first_piece_def)

lemma first_piece_stop: "\<forall>x \<in> set a. \<not> P x \<Longrightarrow> b = [] \<or> P (hd b) \<Longrightarrow> first_piece P (a @ b) = a"
  by (cases b) (auto simp: first_piece_def takeWhile_eq_all_conv)

lemma takeWhile_not: "c \<notin> set s \<Longrightarrow> takeWhile (\<lambda>x. x \<noteq> c) s = s"
  by (induction s) auto

lemma last_piece_none: "c \<notin> set s \<Longrightarrow> last_piece c s = s"
  by (simp add: last_piece_def takeWhile_not)

lemma last_piece_append: "c \<notin> set b \<Longrightarrow> last_piece c (a @ c # b) = b"
  using takeWhile_append2 [of "rev b" "\<lambda>x. x \<noteq> c" "c # rev a"] by (fastforce simp: last_piece_def)

subsection \<open>Effects\<close>

record eff =
  eff_path :: rtext
  eff_arg :: "rtext option"

definition normalize_path :: "rtext \<Rightarrow> rtext" where
  "normalize_path p =
     (let trimmed = trim_end_char (ch CHR ''/'') (trim_start_matches (str ''./'') p)
      in if trimmed = [] then str ''.'' else trimmed)"

text \<open>Whether the path of a declared effect is this one or above it.\<close>

definition covers_path :: "rtext \<Rightarrow> rtext \<Rightarrow> bool" where
  "covers_path declared used \<longleftrightarrow> declared = used \<or> starts_with used (declared @ str ''.'')"

definition covers :: "eff \<Rightarrow> eff \<Rightarrow> bool" where
  "covers declared used \<longleftrightarrow>
     covers_path (eff_path declared) (eff_path used) \<and>
     (case (eff_arg declared, eff_arg used) of
        (Some d, Some u) \<Rightarrow>
          if eff_path used = str ''net'' \<or> eff_path used = str ''ssh'' then d = u
          else let d = normalize_path d; u = normalize_path u
               in d = str ''.'' \<or> u = d \<or> starts_with u (d @ str ''/'')
      | _ \<Rightarrow> True)"

subsection \<open>Hosts\<close>

definition nonempty :: "rtext \<Rightarrow> rtext option" where
  "nonempty s = (if s = [] then None else Some s)"

definition url_host :: "rtext \<Rightarrow> rtext option" where
  "url_host url =
     (case (case strip_prefix (str ''https://'') url of
              Some r \<Rightarrow> Some r | None \<Rightarrow> strip_prefix (str ''http://'') url) of
        None \<Rightarrow> None
      | Some r \<Rightarrow>
          nonempty (first_piece (\<lambda>c. c = ch CHR '':'')
            (last_piece (ch CHR ''@'') (first_piece (\<lambda>c. c \<in> set (str ''/?#'')) r))))"

text \<open>\<open>split_once("://")\<close>.\<close>

fun after_scheme :: "rtext \<Rightarrow> rtext option" where
  "after_scheme [] = None"
| "after_scheme (c # cs) =
     (case strip_prefix (str ''://'') (c # cs) of Some r \<Rightarrow> Some r | None \<Rightarrow> after_scheme cs)"

definition bracketed_or :: "(rtext \<Rightarrow> rtext) \<Rightarrow> rtext \<Rightarrow> rtext option" where
  "bracketed_or f address =
     nonempty (case strip_prefix (str ''['') address of
       Some bracketed \<Rightarrow> first_piece (\<lambda>c. c = ch CHR '']'') bracketed | None \<Rightarrow> f address)"

definition server_host :: "rtext \<Rightarrow> rtext option" where
  "server_host url =
     (case after_scheme url of
        None \<Rightarrow> None
      | Some r \<Rightarrow> bracketed_or (first_piece (\<lambda>c. c \<in> set (str '':/?#''))) (last_piece (ch CHR ''@'') r))"

text \<open>
  The host of \<open>Mail.connect\<close> (grenat\_interp: src/builtins/mail.rs): the piece after the first
  \<open>://\<close>, up to the next one.
\<close>

fun until_scheme :: "rtext \<Rightarrow> rtext" where
  "until_scheme [] = []"
| "until_scheme (c # cs) = (if starts_with (c # cs) (str ''://'') then [] else c # until_scheme cs)"

definition mail_host :: "rtext \<Rightarrow> rtext option" where
  "mail_host url =
     map_option (\<lambda>r. first_piece (\<lambda>c. c \<in> set (str '':/'')) (last_piece (ch CHR ''@'') (until_scheme r)))
       (after_scheme url)"

definition ssh_host :: "rtext \<Rightarrow> rtext option" where
  "ssh_host target =
     (if ch CHR ''@'' \<notin> set target then None
      else bracketed_or
        (\<lambda>a. if length (filter (\<lambda>c. c = ch CHR '':'') a) > 1 then a else first_piece (\<lambda>c. c = ch CHR '':'') a)
        (last_piece (ch CHR ''@'') target))"

end
