(* ===== verification/Capabilities.thy ===== *)
theory Capabilities
  imports Effects
begin

text \<open>
  Capabilities at run time (grenat\_interp: src/eval/capabilities.rs): each function on the stack that
  declares its effects holds the accesses of everything it calls to its declarations. The stack
  is the list of the owners and their evaluated declarations, oldest first; the restrictions are
  texts, since \<open>declared_capabilities\<close> evaluates them before the call.
\<close>

type_synonym caps = "(rtext \<times> rtext option) list"

type_synonym cap_stack = "(rtext \<times> caps) list"

text \<open>The data of the \<open>CapabilityError\<close> raised: what, the owner that refuses, its declarations.\<close>

record denial =
  dn_effect :: rtext
  dn_target :: "rtext option"
  dn_owner :: rtext
  dn_declared :: caps

text \<open>A loop over the parts of the path: the parts kept so far.\<close>

fun path_step :: "rtext list \<Rightarrow> rtext \<Rightarrow> rtext list" where
  "path_step parts part =
     (if part = [] \<or> part = str ''.'' then parts
      else if part = str ''..'' \<and> parts \<noteq> [] \<and> last parts \<noteq> str ''..'' then butlast parts
      else parts @ [part])"

definition path_components :: "rtext \<Rightarrow> bool \<times> rtext list" where
  "path_components path =
     (starts_with path (str ''/''), foldl path_step [] (split_at (\<lambda>c. c = ch CHR ''/'') path))"

definition path_allowed :: "rtext \<Rightarrow> rtext \<Rightarrow> bool" where
  "path_allowed declared path =
     (let (d_abs, d) = path_components declared; (p_abs, p) = path_components path
      in d_abs = p_abs \<and> \<not> (p \<noteq> [] \<and> hd p = str ''..'') \<and> take (length d) p = d)"

definition arg_is_none_or :: "(rtext \<Rightarrow> bool) \<Rightarrow> rtext option \<Rightarrow> bool" where
  "arg_is_none_or P arg = (case arg of None \<Rightarrow> True | Some a \<Rightarrow> P a)"

text \<open>The loop of every check: the first owner none of whose declarations allows the access.\<close>

fun check_stack :: "(rtext \<times> rtext option \<Rightarrow> bool) \<Rightarrow> rtext \<Rightarrow> rtext option \<Rightarrow> cap_stack \<Rightarrow> denial + unit" where
  "check_stack allows effect target [] = Inr ()"
| "check_stack allows effect target ((owner, caps) # rest) =
     (if list_ex allows caps then check_stack allows effect target rest
      else Inl \<lparr>dn_effect = effect, dn_target = target, dn_owner = owner, dn_declared = caps\<rparr>)"

definition check_fs :: "rtext \<Rightarrow> rtext \<Rightarrow> cap_stack \<Rightarrow> denial + unit" where
  "check_fs effect path = check_stack
     (\<lambda>(declared, arg). covers_path declared effect \<and> arg_is_none_or (\<lambda>prefix. path_allowed prefix path) arg)
     effect (Some path)"

definition check_net :: "rtext \<Rightarrow> rtext \<Rightarrow> cap_stack \<Rightarrow> denial + unit" where
  "check_net host url = check_stack
     (\<lambda>(declared, arg). declared = str ''net'' \<and> arg_is_none_or (\<lambda>h. h = host) arg) (str ''net'') (Some url)"

definition check_ssh :: "rtext \<Rightarrow> cap_stack \<Rightarrow> denial + unit" where
  "check_ssh host = check_stack
     (\<lambda>(declared, arg). declared = str ''ssh'' \<and> arg_is_none_or (\<lambda>h. h = host) arg) (str ''ssh'') (Some host)"

definition check_effect :: "rtext \<Rightarrow> cap_stack \<Rightarrow> denial + unit" where
  "check_effect effect = check_stack (\<lambda>(declared, _). covers_path declared effect) effect None"

definition check_program :: "rtext \<Rightarrow> cap_stack \<Rightarrow> denial + unit" where
  "check_program program = check_stack
     (\<lambda>(declared, arg). declared = str ''shell'' \<and> arg_is_none_or (\<lambda>p. p = program) arg)
     (str ''shell'') (Some program)"

definition check_mcp :: "rtext \<Rightarrow> cap_stack \<Rightarrow> denial + unit" where
  "check_mcp name = check_stack
     (\<lambda>(declared, arg). declared = str ''mcp'' \<and> arg_is_none_or (\<lambda>s. s = name) arg) (str ''mcp'') (Some name)"

lemma check_stack_Inr [simp]:
  "check_stack allows effect target stack = Inr () \<longleftrightarrow> (\<forall>(owner, caps) \<in> set stack. list_ex allows caps)"
  by (induction stack) (auto split: if_splits)

end
