(* ===== verification/Capability_Props.thy ===== *)
theory Capability_Props
  imports Capabilities "HOL-Library.Sublist"
begin

text \<open>
  What the capability checks promise: an allowed path stays under the directory declared, however
  it is written, for every function on the stack; where the checker and the runtime agree; and
  the host that a URL names.
\<close>

subsection \<open>Where a path leads\<close>

abbreviation slash :: nat where
  "slash \<equiv> ch CHR ''/''"

text \<open>The directory a path leads to from \<open>cwd\<close>, one part after the other; the root is its own parent.\<close>

fun walk_step :: "rtext list \<Rightarrow> rtext \<Rightarrow> rtext list" where
  "walk_step here part =
     (if part = [] \<or> part = str ''.'' then here
      else if part = str ''..'' then butlast here
      else here @ [part])"

definition path_parts :: "rtext \<Rightarrow> rtext list" where
  "path_parts path = split_at (\<lambda>c. c = slash) path"

definition resolve :: "rtext list \<Rightarrow> rtext \<Rightarrow> rtext list" where
  "resolve cwd path = foldl walk_step (if starts_with path [slash] then [] else cwd) (path_parts path)"

text \<open>Whether the parts ever climb above the place they start from, \<open>depth\<close> levels down.\<close>

fun climbs_from :: "nat \<Rightarrow> rtext list \<Rightarrow> bool" where
  "climbs_from depth [] = False"
| "climbs_from depth (part # parts) =
     (if part = [] \<or> part = str ''.'' then climbs_from depth parts
      else if part = str ''..'' then depth = 0 \<or> climbs_from (depth - 1) parts
      else climbs_from (depth + 1) parts)"

definition climbs :: "rtext \<Rightarrow> bool" where
  "climbs path = climbs_from 0 (path_parts path)"

lemma path_step_escaped:
  "acc \<noteq> [] \<Longrightarrow> hd acc = str ''..'' \<Longrightarrow>
     foldl path_step acc parts \<noteq> [] \<and> hd (foldl path_step acc parts) = str ''..''"
proof (induction parts arbitrary: acc)
  case (Cons part parts)
  then obtain rest where "acc = str ''..'' # rest" by (cases acc) auto
  then have "path_step acc part \<noteq> [] \<and> hd (path_step acc part) = str ''..''" by (cases rest) auto
  with Cons.IH show ?case by simp
qed simp

lemma path_step_climbs:
  "str ''..'' \<notin> set acc \<Longrightarrow> climbs_from (length acc) parts \<Longrightarrow>
     foldl path_step acc parts \<noteq> [] \<and> hd (foldl path_step acc parts) = str ''..''"
proof (induction parts arbitrary: acc)
  case (Cons part parts)
  show ?case
  proof (cases "part = str ''..''")
    case True
    show ?thesis
    proof (cases "acc = []")
      case True
      then have "path_step acc part = [str ''..'']" using \<open>part = str ''..''\<close> by simp
      with path_step_escaped [of "[str ''..'']" parts] show ?thesis by (simp del: path_step.simps)
    next
      case False
      with Cons.prems have last: "last acc \<noteq> str ''..''" by (metis last_in_set)
      then have "path_step acc part = butlast acc" using False True by simp
      with Cons.IH [of "butlast acc"] Cons.prems False True show ?thesis
        by (auto dest: in_set_butlastD)
    qed
  qed (use Cons in \<open>auto split: if_splits\<close>)
qed simp

lemma path_step_stays:
  "str ''..'' \<notin> set acc \<Longrightarrow> \<not> climbs_from (length acc) parts \<Longrightarrow>
     foldl walk_step (cwd @ acc) parts = cwd @ foldl path_step acc parts \<and>
     str ''..'' \<notin> set (foldl path_step acc parts)"
proof (induction parts arbitrary: acc)
  case (Cons part parts)
  show ?case
  proof (cases "part = str ''..''")
    case True
    with Cons.prems have acc: "acc \<noteq> []" by (auto split: if_splits)
    with Cons.prems have "last acc \<noteq> str ''..''" by (metis last_in_set)
    then have "path_step acc part = butlast acc" "walk_step (cwd @ acc) part = cwd @ butlast acc"
      using acc True by (simp_all add: butlast_append)
    with Cons.IH [of "butlast acc"] Cons.prems acc True show ?thesis by (auto dest: in_set_butlastD)
  qed (use Cons in \<open>auto split: if_splits\<close>)
qed simp

lemma components_climb:
  "climbs path \<Longrightarrow> snd (path_components path) \<noteq> [] \<and> hd (snd (path_components path)) = str ''..''"
  using path_step_climbs [of "[]" "path_parts path"] by (simp add: climbs_def path_components_def path_parts_def)

lemma components_resolve:
  assumes "\<not> climbs path"
  shows "resolve cwd path = (if starts_with path [slash] then [] else cwd) @ snd (path_components path)"
    and "str ''..'' \<notin> set (snd (path_components path))"
  using path_step_stays [of "[]" "path_parts path"] assms
  by (simp_all add: climbs_def path_components_def path_parts_def resolve_def)

lemma allowed_under:
  "path_allowed declared path \<longleftrightarrow>
     starts_with declared [slash] = starts_with path [slash] \<and>
     \<not> climbs declared \<and> \<not> climbs path \<and> (\<exists>below. resolve cwd path = resolve cwd declared @ below)"
proof (cases "climbs declared \<or> climbs path")
  case True
  then have "\<not> path_allowed declared path"
  proof
    assume "climbs declared"
    note d = components_climb [OF this]
    show ?thesis
    proof
      assume "path_allowed declared path"
      then have "take (length (snd (path_components declared))) (snd (path_components path)) = snd (path_components declared)"
        "\<not> (snd (path_components path) \<noteq> [] \<and> hd (snd (path_components path)) = str ''..'')"
        by (auto simp: path_allowed_def Let_def split: prod.splits)
      with d show False by (metis hd_take length_greater_0_conv take_Nil)
    qed
  next
    assume "climbs path"
    from components_climb [OF this] show ?thesis by (auto simp: path_allowed_def Let_def split: prod.splits)
  qed
  with True show ?thesis by blast
next
  case False
  have hd: "\<not> (snd (path_components path) \<noteq> [] \<and> hd (snd (path_components path)) = str ''..'')"
    using components_resolve(2) [of path] False by (metis list.set_sel(1))
  have "path_allowed declared path \<longleftrightarrow> starts_with declared [slash] = starts_with path [slash] \<and>
      take (length (snd (path_components declared))) (snd (path_components path)) = snd (path_components declared)"
    using hd by (auto simp: path_allowed_def path_components_def Let_def)
  moreover have "take (length d) p = d \<longleftrightarrow> (\<exists>below. p = d @ below)" for d p :: "rtext list"
    by (metis append_eq_conv_conj)
  ultimately show ?thesis
    using False components_resolve(1) [of declared cwd] components_resolve(1) [of path cwd] by auto
qed

text \<open>
  C6: A path is allowed under a declared directory exactly when both are absolute or both
  relative, neither climbs above its start, and the place it leads to, from any working
  directory, lies in the declared directory: dots, doubled slashes and \<open>..\<close> never lead out of it.
\<close>

theorem allowed_paths_stay_under:
  "path_allowed declared path \<longleftrightarrow>
     starts_with declared [slash] = starts_with path [slash] \<and>
     \<not> climbs declared \<and> \<not> climbs path \<and> (\<exists>below. resolve cwd path = resolve cwd declared @ below)"
  by (rule allowed_under)

text \<open>
  A file access that \<open>check_fs\<close> lets through is one that every function on the stack with a
  declaration declares: by an effect that covers it, without a restriction or with one that leads
  to a directory above the file, from any working directory.
\<close>

theorem file_access_confined:
  assumes "check_fs effect path stack = Inr ()" and "(owner, caps) \<in> set stack"
  shows "\<exists>(declared, arg) \<in> set caps. covers_path declared effect \<and>
    (arg = None \<or> (\<exists>root below. arg = Some root \<and> resolve cwd path = resolve cwd root @ below))"
proof -
  from assms obtain declared arg where c: "(declared, arg) \<in> set caps" "covers_path declared effect"
      "arg_is_none_or (\<lambda>root. path_allowed root path) arg"
    by (fastforce simp: check_fs_def list_ex_iff)
  then have "arg = None \<or> (\<exists>root below. arg = Some root \<and> resolve cwd path = resolve cwd root @ below)"
    by (cases arg) (auto simp: arg_is_none_or_def allowed_under [of _ _ cwd])
  with c show ?thesis by blast
qed

lemma file_access_confined_witness:
  "\<exists>(declared, arg) \<in> set [(str ''fs'', Some (str ''docs''))]. covers_path declared (str ''fs.read'') \<and>
    (arg = None \<or> (\<exists>root below. arg = Some root \<and>
       resolve [str ''home''] (str ''docs/../docs/a'') = resolve [str ''home''] root @ below))"
proof (rule file_access_confined)
  show "check_fs (str ''fs.read'') (str ''docs/../docs/a'') [(str ''main'', [(str ''fs'', Some (str ''docs''))])] = Inr ()"
    by (simp add: check_fs_def covers_path_def starts_with_def arg_is_none_or_def path_allowed_def
        path_components_def)
qed simp

subsection \<open>The checker and the runtime\<close>

definition plain_part :: "rtext \<Rightarrow> bool" where
  "plain_part p \<longleftrightarrow> p \<noteq> [] \<and> slash \<notin> set p \<and> p \<noteq> str ''.'' \<and> p \<noteq> str ''..''"

definition plain_path :: "rtext list \<Rightarrow> rtext" where
  "plain_path ps = join_with [slash] ps"

lemma plain_walk: "\<forall>p \<in> set ps. plain_part p \<Longrightarrow> foldl path_step acc ps = acc @ ps"
  by (induction ps arbitrary: acc) (auto simp: plain_part_def)

lemma plain_split: "\<forall>p \<in> set ps. plain_part p \<Longrightarrow> path_parts (plain_path ps) = (if ps = [] then [[]] else ps)"
  by (simp add: path_parts_def plain_path_def split_join plain_part_def)

lemma plain_first:
  assumes "\<forall>p \<in> set ps. plain_part p"
  shows "\<not> starts_with (plain_path ps) [slash]" "\<not> starts_with (plain_path ps) (str ''./'')"
    "ps \<noteq> [] \<Longrightarrow> last (plain_path ps) \<noteq> slash" "plain_path ps = [] \<longleftrightarrow> ps = []" "plain_path ps \<noteq> str ''.''"
proof -
  have split: "path_parts (plain_path ps) = (if ps = [] then [[]] else ps)" by (rule plain_split [OF assms])
  have hd: "starts_with (plain_path ps) (q @ [slash]) \<Longrightarrow> slash \<notin> set q \<Longrightarrow> ps \<noteq> [] \<and> hd ps = q" for q
  proof -
    assume "starts_with (plain_path ps) (q @ [slash])" "slash \<notin> set q"
    then obtain r where "plain_path ps = q @ slash # r"
      by (metis append.assoc append_Cons append_Nil append_take_drop_id starts_with_def)
    with \<open>slash \<notin> set q\<close> split have "(if ps = [] then [[]] else ps) = q # path_parts r"
      by (simp add: path_parts_def)
    then show ?thesis
      by (cases "split_at (\<lambda>c. c = slash) r") (auto simp: path_parts_def split: if_splits)
  qed
  show "\<not> starts_with (plain_path ps) [slash]"
    using hd [of "[]"] assms by (auto simp: plain_part_def dest: hd_in_set)
  show "\<not> starts_with (plain_path ps) (str ''./'')"
    using hd [of "str ''.''"] assms by (auto simp: plain_part_def dest: hd_in_set)
  have parts: "ps \<noteq> [] \<Longrightarrow> path_parts (plain_path ps) = ps" using split by simp
  have ne: "[] \<notin> set ps" "str ''.'' \<notin> set ps" using assms by (auto simp: plain_part_def)
  show empty: "plain_path ps = [] \<longleftrightarrow> ps = []"
    using parts ne by (metis join_with.simps(1) list.set_intros(1) path_parts_def plain_path_def split_at.simps(1))
  show "ps \<noteq> [] \<Longrightarrow> last (plain_path ps) \<noteq> slash"
    using parts ne split_at_last [of "\<lambda>c. c = slash" "plain_path ps"] by (metis last_in_set path_parts_def)
  show "plain_path ps \<noteq> str ''.''"
  proof
    assume dot: "plain_path ps = str ''.''"
    with empty have "ps \<noteq> []" by auto
    with parts dot have "path_parts (str ''.'') = ps" by metis
    then have "ps = [str ''.'']" by (simp add: path_parts_def)
    with ne show False by simp
  qed
qed

lemma plain_normalize:
  assumes "\<forall>p \<in> set ps. plain_part p"
  shows "normalize_path (plain_path ps) = (if ps = [] then str ''.'' else plain_path ps)"
proof -
  have "trim_start_matches (str ''./'') (plain_path ps) = plain_path ps"
    using plain_first(2) [OF assms] by (subst trim_start_matches.simps) simp
  moreover have "trim_end_char slash (plain_path ps) = plain_path ps"
  proof -
    have "dropWhile (\<lambda>x. x = slash) (rev (plain_path ps)) = rev (plain_path ps)"
      using plain_first(3,4) [OF assms] by (cases "ps = []") (simp_all add: dropWhile_eq_self_iff hd_rev)
    then show ?thesis by (simp only: trim_end_char_def rev_rev_ident)
  qed
  ultimately show ?thesis using plain_first(4) [OF assms] by (simp add: normalize_path_def)
qed

lemma plain_components:
  "\<forall>p \<in> set ps. plain_part p \<Longrightarrow> path_components (plain_path ps) = (False, ps)"
  using plain_first(1) [of ps] plain_split [of ps] plain_walk [of ps "[]"]
  by (simp add: path_components_def path_parts_def split: if_splits)

lemma plain_prefix:
  assumes ds: "\<forall>p \<in> set ds. plain_part p" and ps: "\<forall>p \<in> set ps. plain_part p" and "ds \<noteq> []"
  shows "plain_path ps = plain_path ds \<or> starts_with (plain_path ps) (plain_path ds @ [slash]) \<longleftrightarrow>
     take (length ds) ps = ds"
proof
  assume "plain_path ps = plain_path ds \<or> starts_with (plain_path ps) (plain_path ds @ [slash])"
  then obtain r where r: "plain_path ps = plain_path ds \<or> plain_path ps = plain_path ds @ slash # r"
    by (metis append.assoc append_Cons append_Nil append_take_drop_id starts_with_def)
  then have "path_parts (plain_path ps) = ds \<or> path_parts (plain_path ps) = ds @ path_parts r"
  proof
    assume "plain_path ps = plain_path ds"
    with plain_split [OF ds] \<open>ds \<noteq> []\<close> show ?thesis by metis
  next
    assume "plain_path ps = plain_path ds @ slash # r"
    then have "path_parts (plain_path ps) = path_parts (plain_path ds) @ path_parts r"
      by (simp add: path_parts_def split_at_at)
    with plain_split [OF ds] \<open>ds \<noteq> []\<close> show ?thesis by metis
  qed
  moreover have "path_parts (plain_path ps) = ps \<or> path_parts (plain_path ps) = [[]] \<and> ps = []"
    using plain_split [OF ps] by metis
  moreover have "ds \<noteq> [[]]" "ds @ path_parts r \<noteq> [[]]"
    using ds \<open>ds \<noteq> []\<close> by (cases ds; auto simp: plain_part_def)+
  ultimately have "ps = ds \<or> ps = ds @ path_parts r" by metis
  then show "take (length ds) ps = ds" by auto
next
  assume "take (length ds) ps = ds"
  then obtain qs where qs: "ps = ds @ qs" by (metis append_take_drop_id)
  have "qs \<noteq> [] \<Longrightarrow> plain_path (ds @ qs) = plain_path ds @ slash # plain_path qs"
    using \<open>ds \<noteq> []\<close>
  proof (induction ds)
    case (Cons d ds)
    then show ?case by (cases ds; cases qs) (auto simp: plain_path_def)
  qed simp
  then show "plain_path ps = plain_path ds \<or> starts_with (plain_path ps) (plain_path ds @ [slash])"
    by (cases "qs = []") (auto simp: qs starts_with_def)
qed

text \<open>
  C38: On paths of plain parts (no empty part, dot or \<open>..\<close>) the checker and the runtime decide
  alike: a literal access that the type checker finds covered is one the runtime allows.
\<close>

theorem checker_agrees_with_runtime:
  assumes "\<forall>p \<in> set ds. plain_part p" and "\<forall>p \<in> set ps. plain_part p"
    and "effect \<noteq> str ''net''" and "effect \<noteq> str ''ssh''"
  shows "covers \<lparr>eff_path = declared, eff_arg = Some (plain_path ds)\<rparr> \<lparr>eff_path = effect, eff_arg = Some (plain_path ps)\<rparr>
    \<longleftrightarrow> check_fs effect (plain_path ps) [(owner, [(declared, Some (plain_path ds))])] = Inr ()"
proof -
  have allowed: "path_allowed (plain_path ds) (plain_path ps) \<longleftrightarrow> take (length ds) ps = ds"
    using assms plain_components [of ds] plain_components [of ps]
    by (auto simp: path_allowed_def plain_part_def dest: hd_in_set)
  have "covers \<lparr>eff_path = declared, eff_arg = Some (plain_path ds)\<rparr> \<lparr>eff_path = effect, eff_arg = Some (plain_path ps)\<rparr>
      \<longleftrightarrow> covers_path declared effect \<and> take (length ds) ps = ds"
  proof (cases "ds = []")
    case True
    with assms show ?thesis by (simp add: covers_def plain_normalize)
  next
    case False
    have "(normalize_path (plain_path ps) = plain_path ds \<or> starts_with (normalize_path (plain_path ps)) (plain_path ds @ [slash]))
        \<longleftrightarrow> take (length ds) ps = ds"
    proof (cases "ps = []")
      case True
      have "\<not> starts_with (str ''.'') (plain_path ds @ [slash])"
        using False plain_first(4) [OF assms(1)] by (cases "plain_path ds") (auto simp: starts_with_def)
      with True False plain_first(5) [OF assms(1)] assms show ?thesis by (auto simp: plain_normalize)
    next
      case ps: False
      with plain_prefix [OF assms(1,2) False] assms show ?thesis by (simp add: plain_normalize)
    qed
    with False assms plain_first(5) [OF assms(1)] show ?thesis
      by (simp add: covers_def plain_normalize Let_def)
  qed
  with allowed show ?thesis by (simp add: check_fs_def arg_is_none_or_def)
qed

lemma checker_agrees_with_runtime_witness:
  "covers \<lparr>eff_path = str ''fs'', eff_arg = Some (plain_path [str ''docs''])\<rparr>
     \<lparr>eff_path = str ''fs.read'', eff_arg = Some (plain_path [str ''docs'', str ''a''])\<rparr> \<longleftrightarrow>
   check_fs (str ''fs.read'') (plain_path [str ''docs'', str ''a'']) [(str ''f'', [(str ''fs'', Some (plain_path [str ''docs'']))])]
     = Inr ()"
  by (rule checker_agrees_with_runtime) (simp_all add: plain_part_def)

text \<open>Elsewhere the checker lets through what the runtime then refuses.\<close>

lemma checker_lets_paths_out:
  "covers \<lparr>eff_path = str ''fs'', eff_arg = Some (str ''.'')\<rparr> \<lparr>eff_path = str ''fs.read'', eff_arg = Some (str ''/etc/passwd'')\<rparr>"
  "covers \<lparr>eff_path = str ''fs'', eff_arg = Some (str ''docs'')\<rparr> \<lparr>eff_path = str ''fs.read'', eff_arg = Some (str ''docs/../secret'')\<rparr>"
  "\<not> path_allowed (str ''.'') (str ''/etc/passwd'')" "\<not> path_allowed (str ''docs'') (str ''docs/../secret'')"
  by (simp_all add: covers_def covers_path_def normalize_path_def trim_end_char_def starts_with_def
      trim_start_matches.simps path_allowed_def path_components_def Let_def)

subsection \<open>Hosts\<close>

text \<open>A text of a host name: none of the characters that end one.\<close>

definition plain_host :: "rtext \<Rightarrow> bool" where
  "plain_host h \<longleftrightarrow> h \<noteq> [] \<and> (\<forall>c \<in> set h. c \<notin> set (str '':/?#@[]''))"

lemma after_scheme_append: "ch CHR '':'' \<notin> set s \<Longrightarrow> after_scheme (s @ str ''://'' @ r) = Some r"
  by (induction s) (auto simp: strip_prefix_def starts_with_def)

lemma until_scheme_none: "ch CHR '':'' \<notin> set s \<Longrightarrow> until_scheme s = s"
  by (induction s) (auto simp: starts_with_def)

text \<open>The host of a request is the one between the credentials and the port or path.\<close>

lemma url_host_reads:
  assumes "plain_host h" and "\<forall>c \<in> set user. c \<notin> set (str ''/?#'')" and "\<forall>c \<in> set port. c \<notin> set (str ''/?#@'')"
    and "after = [] \<or> hd after \<in> set (str ''/?#'')"
  shows "url_host (str ''https://'' @ user @ str ''@'' @ h @ str '':'' @ port @ after) = Some h"
proof -
  let ?authority = "user @ str ''@'' @ h @ str '':'' @ port"
  have "first_piece (\<lambda>c. c \<in> set (str ''/?#'')) (?authority @ after) = ?authority"
    by (rule first_piece_stop) (use assms in \<open>auto simp: plain_host_def\<close>)
  moreover have "last_piece (ch CHR ''@'') ?authority = h @ str '':'' @ port"
    using assms last_piece_append [of "ch CHR ''@''" "h @ str '':'' @ port" user] by (auto simp: plain_host_def)
  moreover have "first_piece (\<lambda>c. c = ch CHR '':'') (h @ str '':'' @ port) = h"
    by (rule first_piece_stop) (use assms in \<open>auto simp: plain_host_def\<close>)
  moreover have "h \<noteq> []" using assms by (simp add: plain_host_def)
  ultimately show ?thesis by (simp add: url_host_def strip_prefix_def starts_with_def nonempty_def)
qed

lemma until_scheme_id: "\<not> sublist (str ''://'') s \<Longrightarrow> until_scheme s = s"
proof (induction s)
  case (Cons c s)
  then have "\<not> prefix (str ''://'') (c # s)" "\<not> sublist (str ''://'') s"
    by (auto simp: sublist_Cons_right)
  moreover have "starts_with (c # s) (str ''://'') \<Longrightarrow> prefix (str ''://'') (c # s)"
    unfolding starts_with_def by (metis take_is_prefix)
  ultimately show ?case using Cons.IH by auto
qed simp

lemma last_piece_after: "pre = [] \<or> last pre = c \<Longrightarrow> c \<notin> set s \<Longrightarrow> last_piece c (pre @ s) = s"
  using last_piece_append [of c s "butlast pre"] last_piece_append [of c s "[]"]
  by (cases pre rule: rev_cases) (auto simp: last_piece_none)

text \<open>
  C39: The host that an SMTP URL is checked for, by the checker and by the runtime, is what follows
  the last \<open>@\<close> of everything after its scheme, up to a port or a path; without an \<open>@\<close> it is what comes
  first. What precedes that \<open>@\<close> may hold others, and a slash: the text read is then not the host of
  the URL's authority, so that a declared host can stand for any other.
\<close>

theorem mail_host_after_last_at:
  assumes "ch CHR '':'' \<notin> set scheme" and "plain_host h" and "pre = [] \<or> last pre = ch CHR ''@''"
    and "tail = [] \<or> hd tail \<in> set (str '':/'')" and "ch CHR ''@'' \<notin> set tail"
    and "\<not> sublist (str ''://'') (pre @ h @ tail)"
  shows "mail_host (scheme @ str ''://'' @ pre @ h @ tail) = Some h \<and>
    server_host (scheme @ str ''://'' @ pre @ h @ tail) = Some h"
proof -
  let ?r = "pre @ h @ tail"
  have "after_scheme (scheme @ str ''://'' @ ?r) = Some ?r" using after_scheme_append [OF assms(1)] by simp
  moreover have "until_scheme ?r = ?r" by (rule until_scheme_id [OF assms(6)])
  moreover have "last_piece (ch CHR ''@'') ?r = h @ tail"
    by (rule last_piece_after) (use assms in \<open>auto simp: plain_host_def\<close>)
  moreover have "first_piece (\<lambda>c. c \<in> set (str '':/'')) (h @ tail) = h"
    "first_piece (\<lambda>c. c \<in> set (str '':/?#'')) (h @ tail) = h"
    by (rule first_piece_stop; use assms in \<open>auto simp: plain_host_def\<close>)+
  moreover have "strip_prefix (str ''['') (h @ tail) = None" "h \<noteq> []"
    using assms by (cases h; auto simp: plain_host_def strip_prefix_def starts_with_def)+
  ultimately show ?thesis by (simp add: mail_host_def server_host_def bracketed_or_def nonempty_def)
qed

text \<open>A password with an \<open>@\<close>; and a path with one, where another host is reached.\<close>

lemma mail_host_after_last_at_witness:
  "server_host (str ''smtp://bot:p@w@acme.io:25'') = Some (str ''acme.io'') \<and>
   mail_host (str ''smtp://evil.com/@acme.io'') = Some (str ''acme.io'')"
  using mail_host_after_last_at [of "str ''smtp''" "str ''acme.io''" "str ''bot:p@w@''" "str '':25''"]
    mail_host_after_last_at [of "str ''smtp''" "str ''acme.io''" "str ''evil.com/@''" "[]"]
  by (simp add: plain_host_def sublist_Cons_right)

text \<open>
  On an address in brackets the two differ: the checker takes the address, the runtime a bracket.
\<close>

lemma mail_host_of_brackets:
  "server_host (str ''smtp://[::1]:25'') = Some (str ''::1'') \<and> mail_host (str ''smtp://[::1]:25'') = Some (str ''['')"
  by code_simp

end
