(* ===== verification/Values.thy ===== *)
theory Values
  imports Rust_Split Floats
begin

text \<open>
  The values of the interpreter (grenat\_interp: src/value/mod.rs, equality.rs, and the comparison
  of src/eval/ops.rs): the datatype, taint and secrets inside a value, equality.

  A value is read as a whole here: the items of an array or hash, which other values may share
  and a program may change, are those it holds at the time, under the address that identifies it
  (a self-containing array, on which the code waits for its own lock forever, is not a value of
  the model). Objects, agents, pools, budgets, blocks and event streams are only their address
  and type.
\<close>

type_synonym address = nat

datatype val =
  VNil
| VBool bool
| VInt int
| VFloat f64
| VMoney f64
| VDuration f64
| VStr rtext
| VSymbol rtext
| VArray address "val list"
| VHash address "(val \<times> val) list"
| VRange int int bool
| VRecord rtext "(rtext \<times> val) list"
| VObject address rtext
| VVariant rtext rtext "(rtext \<times> val) list"
| VClosure address
| VType rtext
| VError rtext rtext "(rtext \<times> val) list"
| VBudget address
| VAgent address rtext
| VPool address "(address \<times> rtext) list"
| VTainted val
| VEvents address
| VSecret rtext

type_synonym fields = "(rtext \<times> val) list"

subsection \<open>Taint and secrets\<close>

definition field_of :: "fields \<Rightarrow> rtext \<Rightarrow> val option" where
  "field_of fs name = map_option snd (find (\<lambda>(n, _). n = name) fs)"

fun truthy :: "val \<Rightarrow> bool" where
  "truthy VNil = False"
| "truthy (VBool b) = b"
| "truthy (VTainted inner) = truthy inner"
| "truthy _ = True"

fun is_tainted :: "val \<Rightarrow> bool" where
  "is_tainted (VTainted _) = True"
| "is_tainted _ = False"

fun contains_taint :: "val \<Rightarrow> bool" where
  "contains_taint (VTainted _) = True"
| "contains_taint (VArray _ items) = list_ex contains_taint items"
| "contains_taint (VHash _ entries) = list_ex (\<lambda>(k, v). contains_taint k \<or> contains_taint v) entries"
| "contains_taint (VRecord _ fs) = list_ex (\<lambda>(_, v). contains_taint v) fs"
| "contains_taint (VVariant _ _ fs) = list_ex (\<lambda>(_, v). contains_taint v) fs"
| "contains_taint _ = False"

fun contains_secret :: "val \<Rightarrow> bool" where
  "contains_secret (VSecret _) = True"
| "contains_secret (VTainted inner) = contains_secret inner"
| "contains_secret (VArray _ items) = list_ex contains_secret items"
| "contains_secret (VHash _ entries) = list_ex (\<lambda>(k, v). contains_secret k \<or> contains_secret v) entries"
| "contains_secret (VRecord _ fs) = list_ex (\<lambda>(_, v). contains_secret v) fs"
| "contains_secret (VVariant _ _ fs) = list_ex (\<lambda>(_, v). contains_secret v) fs"
| "contains_secret _ = False"

fun untainted :: "val \<Rightarrow> val" where
  "untainted (VTainted inner) = untainted inner"
| "untainted other = other"

fun taint :: "val \<Rightarrow> val" where
  "taint (VTainted inner) = VTainted inner"
| "taint VNil = VNil"
| "taint other = VTainted other"

text \<open>The name of a type, for messages and \<open>is_a?\<close>.\<close>

fun type_name :: "val \<Rightarrow> rtext" where
  "type_name VNil = str ''Nil''"
| "type_name (VBool _) = str ''Bool''"
| "type_name (VInt _) = str ''Int''"
| "type_name (VFloat _) = str ''Float''"
| "type_name (VMoney _) = str ''Money''"
| "type_name (VDuration _) = str ''Duration''"
| "type_name (VStr _) = str ''String''"
| "type_name (VSymbol _) = str ''Symbol''"
| "type_name (VArray _ _) = str ''Array''"
| "type_name (VHash _ _) = str ''Hash''"
| "type_name (VRange _ _ _) = str ''Range''"
| "type_name (VRecord ty _) = ty"
| "type_name (VObject _ ty) = ty"
| "type_name (VVariant enum _ _) = enum"
| "type_name (VClosure _) = str ''Block''"
| "type_name (VType _) = str ''Type''"
| "type_name (VError ty _ _) = ty"
| "type_name (VBudget _) = str ''Budget''"
| "type_name (VEvents _) = str ''EventStream''"
| "type_name (VAgent _ ty) = ty"
| "type_name (VPool _ agents) = (case agents of [] \<Rightarrow> str ''Pool'' | (_, ty) # _ \<Rightarrow> ty)"
| "type_name (VTainted inner) = str ''~'' @ type_name inner"
| "type_name (VSecret _) = str ''Secret''"

subsection \<open>Equality and comparison\<close>

text \<open>The bytes of a secret and of what it is compared with, each pair folded into one accumulator.\<close>

definition same_secret :: "rtext \<Rightarrow> rtext \<Rightarrow> bool" where
  "same_secret x y \<longleftrightarrow> length (as_bytes x) = length (as_bytes y) \<and>
     fold (\<lambda>(a, b) acc. or acc (xor a b)) (zip (as_bytes x) (as_bytes y)) 0 = 0"

lemma size_untainted: "w = untainted v \<Longrightarrow> size w \<le> size v"
  by (induction v rule: untainted.induct) auto

lemma in_size_list: "x \<in> set xs \<Longrightarrow> f x < Suc (size_list f xs)"
  by (induction xs) auto

lemma size_array: "VArray p xs = untainted v \<Longrightarrow> (x, y) \<in> set (zip xs ys) \<Longrightarrow> size x < size v"
  using in_size_list [of x xs size] by (auto dest!: size_untainted set_zip_leftD)

lemma size_hash:
  assumes "VHash p es = untainted v" "(x, y) \<in> set es"
  shows "size x < size v" "size y < size v"
  using in_size_list [of "(x, y)" es "size_prod size size"] assms by (auto dest!: size_untainted)

lemma size_fields:
  assumes "(x, g) \<in> set (zip fs gs)" "VRecord t fs = untainted v \<or> VVariant t n fs = untainted v"
  shows "size (snd x) < size v"
  using in_size_list [of x fs "size_prod (\<lambda>_. 0) size"] set_zip_leftD [of x g fs gs] assms
  by (cases x) (auto dest!: size_untainted)

function equal :: "val \<Rightarrow> val \<Rightarrow> bool" where
  "equal a b = (case (untainted a, untainted b) of
     (VNil, VNil) \<Rightarrow> True
   | (VBool x, VBool y) \<Rightarrow> x = y
   | (VInt x, VInt y) \<Rightarrow> x = y
   | (VFloat x, VFloat y) \<Rightarrow> f64_eq x y
   | (VMoney x, VMoney y) \<Rightarrow> f64_eq x y
   | (VDuration x, VDuration y) \<Rightarrow> f64_eq x y
   | (VInt x, VFloat y) \<Rightarrow> f64_eq (f64_of_int x) y
   | (VFloat y, VInt x) \<Rightarrow> f64_eq (f64_of_int x) y
   | (VDuration x, VFloat y) \<Rightarrow> f64_eq x y
   | (VFloat y, VDuration x) \<Rightarrow> f64_eq x y
   | (VDuration x, VInt y) \<Rightarrow> f64_eq x (f64_of_int y)
   | (VInt y, VDuration x) \<Rightarrow> f64_eq x (f64_of_int y)
   | (VStr x, VStr y) \<Rightarrow> x = y
   | (VSymbol x, VSymbol y) \<Rightarrow> x = y
   | (VType x, VType y) \<Rightarrow> x = y
   | (VSecret x, VSecret y) \<Rightarrow> same_secret x y
   | (VSecret x, VStr y) \<Rightarrow> same_secret x y
   | (VStr y, VSecret x) \<Rightarrow> same_secret x y
   | (VArray p xs, VArray q ys) \<Rightarrow>
       p = q \<or> length xs = length ys \<and> list_all (\<lambda>(x, y). equal x y) (zip xs ys)
   | (VHash p xs, VHash q ys) \<Rightarrow>
       p = q \<or> length xs = length ys \<and>
         list_all (\<lambda>(k, v). list_ex (\<lambda>(k2, v2). equal k k2 \<and> equal v v2) ys) xs
   | (VRange a b c, VRange x y z) \<Rightarrow> a = x \<and> b = y \<and> c = z
   | (VRecord t fs, VRecord u gs) \<Rightarrow>
       t = u \<and> length fs = length gs \<and> list_all (\<lambda>((m, v), (n, w)). m = n \<and> equal v w) (zip fs gs)
   | (VVariant t m fs, VVariant u n gs) \<Rightarrow>
       t = u \<and> m = n \<and> length fs = length gs \<and> list_all (\<lambda>((m, v), (n, w)). m = n \<and> equal v w) (zip fs gs)
   | (VObject p _, VObject q _) \<Rightarrow> p = q
   | (VClosure p, VClosure q) \<Rightarrow> p = q
   | (VError t m _, VError u n _) \<Rightarrow> t = u \<and> m = n
   | (VBudget p, VBudget q) \<Rightarrow> p = q
   | (VAgent p _, VAgent q _) \<Rightarrow> p = q
   | (VPool p _, VPool q _) \<Rightarrow> p = q
   | _ \<Rightarrow> False)"
  by pat_completeness auto

termination
  by (relation "measure (\<lambda>(a, b). size a)") (auto dest: size_array size_hash size_fields)

end
