(* ===== verification/Codec.thy ===== *)
theory Codec
  imports Values
begin

text \<open>
  Values as JSON (grenat\_interp: src/value/codec.rs), as a workflow's journal and a job's arguments
  are stored. A JSON object lists its members in the order of their keys, as serde\_json's map
  does; a number is an integer or a finite double. A decoded array or hash is a new one, whose
  address is left at 0.
\<close>

datatype json =
  JNull
| JBool bool
| JInt int
| JFloat f64
| JString rtext
| JArray "json list"
| JObject "(rtext \<times> json) list"

text \<open>Why a value is not decoded: a message, or a panic (an object indexed by a key it lacks).\<close>

datatype codec_fault =
  Refused rtext
| Panicked

subsection \<open>JSON values\<close>

text \<open>\<open>json!(f)\<close>: null for a double that JSON cannot write.\<close>

definition json_float :: "f64 \<Rightarrow> json" where
  "json_float f = (if f64_is_finite f then JFloat f else JNull)"

definition as_f64 :: "json \<Rightarrow> f64 option" where
  "as_f64 j = (case j of JInt n \<Rightarrow> Some (f64_of_int n) | JFloat f \<Rightarrow> Some f | _ \<Rightarrow> None)"

definition as_i64 :: "json \<Rightarrow> int option" where
  "as_i64 j = (case j of JInt n \<Rightarrow> if in_i64 n then Some n else None | _ \<Rightarrow> None)"

definition as_str :: "json \<Rightarrow> rtext option" where
  "as_str j = (case j of JString s \<Rightarrow> Some s | _ \<Rightarrow> None)"

definition as_bool :: "json \<Rightarrow> bool option" where
  "as_bool j = (case j of JBool b \<Rightarrow> Some b | _ \<Rightarrow> None)"

definition as_array :: "json \<Rightarrow> json list option" where
  "as_array j = (case j of JArray xs \<Rightarrow> Some xs | _ \<Rightarrow> None)"

text \<open>\<open>j[i]\<close>, null where there is no such item.\<close>

definition json_at :: "json \<Rightarrow> nat \<Rightarrow> json" where
  "json_at j i = (case j of JArray xs \<Rightarrow> if i < length xs then xs ! i else JNull | _ \<Rightarrow> JNull)"

text \<open>Collecting results: the values, or the first error.\<close>

fun collect :: "('e + 'a) list \<Rightarrow> 'e + 'a list" where
  "collect [] = Inr []"
| "collect (r # rs) = (case r of Inl e \<Rightarrow> Inl e | Inr x \<Rightarrow> map_sum id ((#) x) (collect rs))"

definition ok_or :: "'e \<Rightarrow> 'a option \<Rightarrow> 'e + 'a" where
  "ok_or e x = (case x of None \<Rightarrow> Inl e | Some y \<Rightarrow> Inr y)"

subsection \<open>Encoding\<close>

definition encode_pair :: "rtext + json \<Rightarrow> rtext + json \<Rightarrow> rtext + json" where
  "encode_pair k v = (case k of Inl e \<Rightarrow> Inl e | Inr k \<Rightarrow> map_sum id (\<lambda>v. JArray [k, v]) v)"

definition SECRET_REFUSED :: rtext where
  "SECRET_REFUSED = str ''a secret is never journaled nor queued: fetch it where it is used''"

definition not_data :: "val \<Rightarrow> rtext" where
  "not_data v = type_name v @ str '' is not data''"

fun encode :: "val \<Rightarrow> rtext + json" where
  "encode VNil = Inr JNull"
| "encode (VBool b) = Inr (JBool b)"
| "encode (VInt n) = Inr (JInt n)"
| "encode (VStr s) = Inr (JString s)"
| "encode (VArray _ items) = map_sum id JArray (collect (map encode items))"
| "encode (VFloat f) = Inr (JObject [(str ''$float'', json_float f)])"
| "encode (VMoney f) = Inr (JObject [(str ''$money'', json_float f)])"
| "encode (VDuration f) = Inr (JObject [(str ''$duration'', json_float f)])"
| "encode (VSymbol s) = Inr (JObject [(str ''$symbol'', JString s)])"
| "encode (VType s) = Inr (JObject [(str ''$type'', JString s)])"
| "encode (VRange lo hi inclusive) = Inr (JObject [(str ''$range'', JArray [JInt lo, JInt hi, JBool inclusive])])"
| "encode (VHash _ entries) =
     map_sum id (\<lambda>pairs. JObject [(str ''$hash'', JArray pairs)])
       (collect (map (\<lambda>(k, v). encode_pair (encode k) (encode v)) entries))"
| "encode (VRecord ty fs) =
     map_sum id (\<lambda>given. JObject [(str ''$record'', JString ty), (str ''fields'', JArray given)])
       (collect (map (\<lambda>(n, v). encode_pair (Inr (JString n)) (encode v)) fs))"
| "encode (VVariant enum name fs) =
     map_sum id (\<lambda>given. JObject [(str ''$variant'', JArray [JString enum, JString name]), (str ''fields'', JArray given)])
       (collect (map (\<lambda>(n, v). encode_pair (Inr (JString n)) (encode v)) fs))"
| "encode (VError ty message fs) =
     map_sum id (\<lambda>given. JObject [(str ''$error'', JString ty), (str ''fields'', JArray given), (str ''message'', JString message)])
       (collect (map (\<lambda>(n, v). encode_pair (Inr (JString n)) (encode v)) fs))"
| "encode (VTainted inner) = map_sum id (\<lambda>j. JObject [(str ''$tainted'', j)]) (encode inner)"
| "encode (VSecret _) = Inl SECRET_REFUSED"
| "encode other = Inl (not_data other)"

subsection \<open>Decoding\<close>

definition expects_number :: "rtext \<Rightarrow> codec_fault" where
  "expects_number tag = Refused (str ''`'' @ tag @ str ''` expects a number'')"

definition expects_string :: "rtext \<Rightarrow> codec_fault" where
  "expects_string tag = Refused (str ''`'' @ tag @ str ''` expects a string'')"

definition range_bound :: "json \<Rightarrow> codec_fault + int" where
  "range_bound j = ok_or (Refused (str ''a range bound'')) (as_i64 j)"

text \<open>A member of an object, which the code indexes by its key.\<close>

definition member_of :: "(rtext \<times> json) list \<Rightarrow> rtext \<Rightarrow> codec_fault + json" where
  "member_of ms key = ok_or Panicked (map_of ms key)"

definition decode_pair :: "(codec_fault + 'a) \<Rightarrow> (codec_fault + val) \<Rightarrow> codec_fault + ('a \<times> val)" where
  "decode_pair k v = (case k of Inl e \<Rightarrow> Inl e | Inr k \<Rightarrow> map_sum id (Pair k) v)"

definition field_name :: "json \<Rightarrow> codec_fault + rtext" where
  "field_name pair = ok_or (Refused (str ''a field name'')) (as_str (json_at pair 0))"

text \<open>
  The parts of a value are decoded by \<open>dec\<close>, given the parts that the code passes on: the fields
  of a record, variant or error, the pairs of a hash.
\<close>

definition decode_fields :: "(json \<Rightarrow> codec_fault + val) \<Rightarrow> json \<Rightarrow> codec_fault + fields" where
  "decode_fields dec j =
     (case as_array j of
        None \<Rightarrow> Inl (Refused (str ''fields expected''))
      | Some pairs \<Rightarrow> collect (map (\<lambda>pair. decode_pair (field_name pair) (dec (json_at pair 1))) pairs))"

definition decode_hash :: "(json \<Rightarrow> codec_fault + val) \<Rightarrow> json \<Rightarrow> codec_fault + (val \<times> val) list" where
  "decode_hash dec j =
     (case as_array j of
        None \<Rightarrow> Inl (Refused (str ''`$hash` expects pairs''))
      | Some pairs \<Rightarrow> collect (map (\<lambda>p. decode_pair (dec (json_at p 0)) (dec (json_at p 1))) pairs))"

lemma decode_fields_cong [fundef_cong]:
  "j = j' \<Longrightarrow> (\<And>pairs p. j' = JArray pairs \<Longrightarrow> p \<in> set pairs \<Longrightarrow> dec (json_at p 1) = dec' (json_at p 1)) \<Longrightarrow>
     decode_fields dec j = decode_fields dec' j'"
  by (cases j) (auto simp: decode_fields_def as_array_def intro!: arg_cong [of _ _ collect])

lemma decode_hash_cong [fundef_cong]:
  "j = j' \<Longrightarrow> (\<And>pairs p i. j' = JArray pairs \<Longrightarrow> p \<in> set pairs \<Longrightarrow> dec (json_at p i) = dec' (json_at p i)) \<Longrightarrow>
     decode_hash dec j = decode_hash dec' j'"
  by (cases j) (auto simp: decode_hash_def as_array_def intro!: arg_cong [of _ _ collect])

lemma size_json_at: "size (json_at j i) \<le> size j"
  using in_size_list [of _ _ size] by (cases j) (fastforce simp: json_at_def less_Suc_eq_le dest: nth_mem)+

lemma size_member:
  assumes "member_of ms key = Inr j" shows "size j < Suc (size_list (size_prod (\<lambda>_. 0) size) ms)"
  using assms in_size_list [of "(key, j)" ms "size_prod (\<lambda>_. 0) size"]
  by (auto simp: member_of_def ok_or_def split: option.splits dest: map_of_SomeD)

lemma size_items: "p \<in> set pairs \<Longrightarrow> size (json_at p i) \<le> size_list size pairs"
  using in_size_list [of p pairs size] size_json_at [of p i] by simp

function decode :: "json \<Rightarrow> codec_fault + val" where
  "decode JNull = Inr VNil"
| "decode (JBool b) = Inr (VBool b)"
| "decode (JInt n) = map_sum id VInt (ok_or (Refused (str ''an integer out of range'')) (as_i64 (JInt n)))"
| "decode (JFloat f) = Inl (Refused (str ''an integer out of range''))"
| "decode (JString s) = Inr (VStr s)"
| "decode (JArray items) = map_sum id (VArray 0) (collect (map decode items))"
| "decode (JObject ms) =
     (case ms of
        [] \<Rightarrow> Inl (Refused (str ''an empty object''))
      | (tag, payload) # _ \<Rightarrow>
          let number = ok_or (expects_number tag) (as_f64 payload);
              text_of = ok_or (expects_string tag) (as_str payload)
          in if tag = str ''$float'' then map_sum id VFloat number
             else if tag = str ''$money'' then map_sum id VMoney number
             else if tag = str ''$duration'' then map_sum id VDuration number
             else if tag = str ''$symbol'' then map_sum id VSymbol text_of
             else if tag = str ''$type'' then map_sum id VType text_of
             else if tag = str ''$range'' then
               (case range_bound (json_at payload 0) of
                  Inl e \<Rightarrow> Inl e
                | Inr lo \<Rightarrow> map_sum id (\<lambda>hi. VRange lo hi (as_bool (json_at payload 2) = Some True))
                    (range_bound (json_at payload 1)))
             else if tag = str ''$hash'' then map_sum id (VHash 0) (decode_hash decode payload)
             else if tag = str ''$record'' then
               (case text_of of
                  Inl e \<Rightarrow> Inl e
                | Inr ty \<Rightarrow>
                    (case member_of ms (str ''fields'') of
                       Inl e \<Rightarrow> Inl e
                     | Inr given \<Rightarrow> map_sum id (VRecord ty) (decode_fields decode given)))
             else if tag = str ''$variant'' then
               (case ok_or (Refused (str ''a variant's enum'')) (as_str (json_at payload 0)) of
                  Inl e \<Rightarrow> Inl e
                | Inr enum \<Rightarrow>
                    (case ok_or (Refused (str ''a variant's name'')) (as_str (json_at payload 1)) of
                       Inl e \<Rightarrow> Inl e
                     | Inr name \<Rightarrow>
                         (case member_of ms (str ''fields'') of
                            Inl e \<Rightarrow> Inl e
                          | Inr given \<Rightarrow> map_sum id (VVariant enum name) (decode_fields decode given))))
             else if tag = str ''$error'' then
               (case text_of of
                  Inl e \<Rightarrow> Inl e
                | Inr ty \<Rightarrow>
                    (case member_of ms (str ''message'') of
                       Inl e \<Rightarrow> Inl e
                     | Inr message \<Rightarrow>
                         (case member_of ms (str ''fields'') of
                            Inl e \<Rightarrow> Inl e
                          | Inr given \<Rightarrow>
                              map_sum id (VError ty (case as_str message of None \<Rightarrow> [] | Some m \<Rightarrow> m))
                                (decode_fields decode given))))
             else if tag = str ''$tainted'' then map_sum id taint (decode payload)
             else Inl (Refused (str ''unknown tag `'' @ tag @ str ''`'')))"
  by pat_completeness auto

termination
proof (relation "measure size", goal_cases)
  case (2 items j)
  then show ?case using in_size_list [of j items size] by simp
qed (auto dest!: size_member simp: less_Suc_eq_le intro!: order_trans [OF size_items])

end
