(* ===== verification/Codec_Props.thy ===== *)
theory Codec_Props
  imports Codec
begin

text \<open>
  Storing values: a stored value is read back as it was, up to the addresses of its arrays and
  hashes, exactly when every double in it is finite, and no secret is ever stored.
\<close>

subsection \<open>The values in question\<close>

text \<open>A value without the identity of its arrays and hashes.\<close>

fun erase :: "val \<Rightarrow> val" where
  "erase (VArray _ items) = VArray 0 (map erase items)"
| "erase (VHash _ entries) = VHash 0 (map (\<lambda>(k, v). (erase k, erase v)) entries)"
| "erase (VRecord ty fs) = VRecord ty (map (\<lambda>(n, v). (n, erase v)) fs)"
| "erase (VVariant enum name fs) = VVariant enum name (map (\<lambda>(n, v). (n, erase v)) fs)"
| "erase (VError ty m fs) = VError ty m (map (\<lambda>(n, v). (n, erase v)) fs)"
| "erase (VTainted inner) = VTainted (erase inner)"
| "erase other = other"

text \<open>The values the interpreter builds: integers of 64 bits, taint as \<open>taint\<close> adds it.\<close>

fun well_formed :: "val \<Rightarrow> bool" where
  "well_formed (VInt n) = in_i64 n"
| "well_formed (VRange lo hi _) = (in_i64 lo \<and> in_i64 hi)"
| "well_formed (VArray _ items) = list_all well_formed items"
| "well_formed (VHash _ entries) = list_all (\<lambda>(k, v). well_formed k \<and> well_formed v) entries"
| "well_formed (VRecord _ fs) = list_all (\<lambda>(_, v). well_formed v) fs"
| "well_formed (VVariant _ _ fs) = list_all (\<lambda>(_, v). well_formed v) fs"
| "well_formed (VError _ _ fs) = list_all (\<lambda>(_, v). well_formed v) fs"
| "well_formed (VTainted inner) = (well_formed inner \<and> inner \<noteq> VNil \<and> \<not> is_tainted inner)"
| "well_formed _ = True"

fun finite_floats :: "val \<Rightarrow> bool" where
  "finite_floats (VFloat f) = f64_is_finite f"
| "finite_floats (VMoney f) = f64_is_finite f"
| "finite_floats (VDuration f) = f64_is_finite f"
| "finite_floats (VArray _ items) = list_all finite_floats items"
| "finite_floats (VHash _ entries) = list_all (\<lambda>(k, v). finite_floats k \<and> finite_floats v) entries"
| "finite_floats (VRecord _ fs) = list_all (\<lambda>(_, v). finite_floats v) fs"
| "finite_floats (VVariant _ _ fs) = list_all (\<lambda>(_, v). finite_floats v) fs"
| "finite_floats (VError _ _ fs) = list_all (\<lambda>(_, v). finite_floats v) fs"
| "finite_floats (VTainted inner) = finite_floats inner"
| "finite_floats _ = True"

text \<open>A secret anywhere inside, the fields of an error included.\<close>

fun holds_secret :: "val \<Rightarrow> bool" where
  "holds_secret (VSecret _) = True"
| "holds_secret (VTainted inner) = holds_secret inner"
| "holds_secret (VArray _ items) = list_ex holds_secret items"
| "holds_secret (VHash _ entries) = list_ex (\<lambda>(k, v). holds_secret k \<or> holds_secret v) entries"
| "holds_secret (VRecord _ fs) = list_ex (\<lambda>(_, v). holds_secret v) fs"
| "holds_secret (VVariant _ _ fs) = list_ex (\<lambda>(_, v). holds_secret v) fs"
| "holds_secret (VError _ _ fs) = list_ex (\<lambda>(_, v). holds_secret v) fs"
| "holds_secret _ = False"

subsection \<open>Collecting results\<close>

lemma collect_Inr: "collect (map f xs) = Inr ys \<longleftrightarrow> list_all2 (\<lambda>x y. f x = Inr y) xs ys"
  by (induction xs arbitrary: ys) (auto simp: list_all2_Cons1 split: sum.splits)

text \<open>The parts of a stored value, read back one by one.\<close>

definition reads_back :: "('a \<Rightarrow> bool) \<Rightarrow> ('a \<Rightarrow> 'b) \<Rightarrow> ('e + 'b) \<Rightarrow> 'a \<Rightarrow> bool" where
  "reads_back fin er r x \<longleftrightarrow> (if fin x then r = Inr (er x) else \<exists>e. r = Inl e)"

lemma collect_reads_back:
  "list_all2 (\<lambda>x y. f x = Inr y) xs ys \<Longrightarrow> (\<And>x y. x \<in> set xs \<Longrightarrow> f x = Inr y \<Longrightarrow> reads_back fin er (g y) x) \<Longrightarrow>
     reads_back (list_all fin) (map er) (collect (map g ys)) xs"
proof (induction rule: list_all2_induct)
  case (Cons x xs y ys)
  then have "reads_back fin er (g y) x" "reads_back (list_all fin) (map er) (collect (map g ys)) xs" by auto
  then show ?case by (auto simp: reads_back_def split: if_splits)
qed (simp add: reads_back_def)

lemma reads_back_map:
  "reads_back fin er r x \<Longrightarrow> fin' y = fin x \<Longrightarrow> er' y = h (er x) \<Longrightarrow> reads_back fin' er' (map_sum id h r) y"
  by (auto simp: reads_back_def split: if_splits)

abbreviation value_back :: "codec_fault + val \<Rightarrow> val \<Rightarrow> bool" where
  "value_back \<equiv> reads_back finite_floats erase"

lemma pair_back:
  assumes "encode_pair (encode k) (encode v) = Inr j"
    and "\<And>j. encode k = Inr j \<Longrightarrow> value_back (decode j) k" "\<And>j. encode v = Inr j \<Longrightarrow> value_back (decode j) v"
  shows "reads_back (\<lambda>(k, v). finite_floats k \<and> finite_floats v) (\<lambda>(k, v). (erase k, erase v))
    (decode_pair (decode (json_at j 0)) (decode (json_at j 1))) (k, v)"
proof -
  from assms(1) obtain jk jv where "encode k = Inr jk" "encode v = Inr jv" "j = JArray [jk, jv]"
    by (auto simp: encode_pair_def split: sum.splits)
  with assms(2,3) show ?thesis by (fastforce simp: reads_back_def json_at_def decode_pair_def split: if_splits sum.splits)
qed

lemma field_back:
  assumes "encode_pair (Inr (JString n)) (encode v) = Inr j" and "\<And>j. encode v = Inr j \<Longrightarrow> value_back (decode j) v"
  shows "reads_back (\<lambda>(n, v). finite_floats v) (\<lambda>(n, v). (n, erase v))
    (decode_pair (field_name j) (decode (json_at j 1))) (n, v)"
proof -
  from assms(1) obtain jv where "encode v = Inr jv" "j = JArray [JString n, jv]"
    by (auto simp: encode_pair_def)
  with assms(2) show ?thesis
    by (auto simp: reads_back_def json_at_def decode_pair_def field_name_def as_str_def ok_or_def split: if_splits)
qed

lemma fields_back:
  assumes "collect (map (\<lambda>(n, v). encode_pair (Inr (JString n)) (encode v)) fs) = Inr js"
    and "\<And>n v j. (n, v) \<in> set fs \<Longrightarrow> encode v = Inr j \<Longrightarrow> value_back (decode j) v"
  shows "reads_back (list_all (\<lambda>(n, v). finite_floats v)) (map (\<lambda>(n, v). (n, erase v))) (decode_fields decode (JArray js)) fs"
proof -
  let ?f = "\<lambda>(n, v). encode_pair (Inr (JString n)) (encode v)"
  from assms(1) have "list_all2 (\<lambda>p j. ?f p = Inr j) fs js" by (simp only: collect_Inr)
  then have "reads_back (list_all (\<lambda>(n, v). finite_floats v)) (map (\<lambda>(n, v). (n, erase v)))
      (collect (map (\<lambda>pair. decode_pair (field_name pair) (decode (json_at pair 1))) js)) fs"
    using assms(2) by (rule_tac collect_reads_back [where f = ?f]) (auto simp del: One_nat_def intro: field_back)
  then show ?thesis by (simp add: decode_fields_def as_array_def)
qed

lemma hash_back:
  assumes "collect (map (\<lambda>(k, v). encode_pair (encode k) (encode v)) es) = Inr js"
    and "\<And>k v j. (k, v) \<in> set es \<Longrightarrow> encode k = Inr j \<Longrightarrow> value_back (decode j) k"
    and "\<And>k v j. (k, v) \<in> set es \<Longrightarrow> encode v = Inr j \<Longrightarrow> value_back (decode j) v"
  shows "reads_back (list_all (\<lambda>(k, v). finite_floats k \<and> finite_floats v)) (map (\<lambda>(k, v). (erase k, erase v)))
    (decode_hash decode (JArray js)) es"
proof -
  let ?f = "\<lambda>(k, v). encode_pair (encode k) (encode v)"
  from assms(1) have "list_all2 (\<lambda>p j. ?f p = Inr j) es js" by (simp only: collect_Inr)
  then have "reads_back (list_all (\<lambda>(k, v). finite_floats k \<and> finite_floats v)) (map (\<lambda>(k, v). (erase k, erase v)))
      (collect (map (\<lambda>p. decode_pair (decode (json_at p 0)) (decode (json_at p 1))) js)) es"
    using assms(2,3) by (rule_tac collect_reads_back [where f = ?f]) (auto simp del: One_nat_def intro: pair_back)
  then show ?thesis by (simp add: decode_hash_def as_array_def)
qed

lemma float_back:
  "as_f64 (json_float f) = (if f64_is_finite f then Some f else None)"
  by (simp add: json_float_def as_f64_def)

lemma taint_erase: "v \<noteq> VNil \<Longrightarrow> \<not> is_tainted v \<Longrightarrow> taint (erase v) = VTainted (erase v)"
  by (cases v) auto

lemma stored_reads_back: "encode v = Inr j \<Longrightarrow> well_formed v \<Longrightarrow> value_back (decode j) v"
proof (induction v arbitrary: j)
  case (VArray p items)
  then obtain js where js: "collect (map encode items) = Inr js" "j = JArray js" by auto
  then have "list_all2 (\<lambda>x y. encode x = Inr y) items js" by (simp only: collect_Inr)
  then have "reads_back (list_all finite_floats) (map erase) (collect (map decode js)) items"
    using VArray by (rule_tac collect_reads_back [where f = encode]) (auto simp: list_all_iff)
  then show ?case by (auto simp: js intro: reads_back_map)
next
  case (VHash p es)
  then obtain js where js: "collect (map (\<lambda>(k, v). encode_pair (encode k) (encode v)) es) = Inr js"
      "j = JObject [(str ''$hash'', JArray js)]" by auto
  have "reads_back (list_all (\<lambda>(k, v). finite_floats k \<and> finite_floats v)) (map (\<lambda>(k, v). (erase k, erase v)))
      (decode_hash decode (JArray js)) es"
    by (rule hash_back [OF js(1)]) (use VHash in \<open>fastforce simp: list_all_iff\<close>)+
  then show ?case by (auto simp: js intro: reads_back_map)
next
  case (VRecord ty fs)
  then obtain js where js: "collect (map (\<lambda>(n, v). encode_pair (Inr (JString n)) (encode v)) fs) = Inr js"
      "j = JObject [(str ''$record'', JString ty), (str ''fields'', JArray js)]" by auto
  have "reads_back (list_all (\<lambda>(n, v). finite_floats v)) (map (\<lambda>(n, v). (n, erase v))) (decode_fields decode (JArray js)) fs"
    by (rule fields_back [OF js(1)]) (use VRecord in \<open>fastforce simp: list_all_iff\<close>)
  then show ?case by (auto simp: js member_of_def ok_or_def as_str_def intro: reads_back_map)
next
  case (VVariant enum name fs)
  then obtain js where js: "collect (map (\<lambda>(n, v). encode_pair (Inr (JString n)) (encode v)) fs) = Inr js"
      "j = JObject [(str ''$variant'', JArray [JString enum, JString name]), (str ''fields'', JArray js)]" by auto
  have "reads_back (list_all (\<lambda>(n, v). finite_floats v)) (map (\<lambda>(n, v). (n, erase v))) (decode_fields decode (JArray js)) fs"
    by (rule fields_back [OF js(1)]) (use VVariant in \<open>fastforce simp: list_all_iff\<close>)
  then show ?case by (auto simp: js member_of_def ok_or_def as_str_def json_at_def intro: reads_back_map)
next
  case (VError ty m fs)
  then obtain js where js: "collect (map (\<lambda>(n, v). encode_pair (Inr (JString n)) (encode v)) fs) = Inr js"
      "j = JObject [(str ''$error'', JString ty), (str ''fields'', JArray js), (str ''message'', JString m)]" by auto
  have "reads_back (list_all (\<lambda>(n, v). finite_floats v)) (map (\<lambda>(n, v). (n, erase v))) (decode_fields decode (JArray js)) fs"
    by (rule fields_back [OF js(1)]) (use VError in \<open>fastforce simp: list_all_iff\<close>)
  then show ?case by (auto simp: js member_of_def ok_or_def as_str_def intro: reads_back_map)
next
  case (VTainted inner)
  then obtain ji where ji: "encode inner = Inr ji" "j = JObject [(str ''$tainted'', ji)]" by auto
  with VTainted have "value_back (decode ji) inner" by simp
  with VTainted.prems show ?case
    by (auto simp: ji taint_erase intro: reads_back_map)
qed (auto simp: reads_back_def as_i64_def ok_or_def as_str_def float_back range_bound_def json_at_def as_bool_def)

text \<open>
  C13: A stored value is read back as it was, with its types, its fields in their order and its
  taint, if every double in it is finite; with an infinity or a NaN anywhere inside, it is stored
  all the same but can never be read back.
\<close>

theorem journal_round_trip:
  assumes "encode v = Inr j" and "well_formed v"
  shows "if finite_floats v then decode j = Inr (erase v) else \<exists>e. decode j = Inl e"
  using stored_reads_back [OF assms] by (simp add: reads_back_def)

lemma journal_round_trip_witness:
  "decode (JObject [(str ''$tainted'', JArray [JInt 1, JObject [(str ''$symbol'', JString (str ''a''))]])]) =
     Inr (VTainted (VArray 0 [VInt 1, VSymbol (str ''a'')]))"
proof -
  have "encode (VTainted (VArray 7 [VInt 1, VSymbol (str ''a'')])) =
      Inr (JObject [(str ''$tainted'', JArray [JInt 1, JObject [(str ''$symbol'', JString (str ''a''))]])])"
    by simp
  from journal_round_trip [OF this] show ?thesis by (simp add: in_i64_def)
qed

lemma collect_part: "collect (map f xs) = Inr ys \<Longrightarrow> x \<in> set xs \<Longrightarrow> \<exists>y. f x = Inr y"
  by (induction xs arbitrary: ys) (auto split: sum.splits)

text \<open>
  No secret is ever stored: a value that is encoded holds none, however deep, not even in the
  fields of an error, where \<open>contains_secret\<close> does not look.
\<close>

theorem no_secret_stored:
  assumes "encode v = Inr j"
  shows "\<not> holds_secret v"
  using assms
proof (induction v arbitrary: j)
  case (VArray p items)
  then show ?case by (fastforce simp: list_ex_iff dest: collect_part)
next
  case (VHash p es)
  then show ?case by (fastforce simp: list_ex_iff encode_pair_def dest: collect_part split: sum.splits)
next
  case (VRecord ty fs)
  then show ?case by (fastforce simp: list_ex_iff encode_pair_def dest: collect_part)
next
  case (VVariant enum name fs)
  then show ?case by (fastforce simp: list_ex_iff encode_pair_def dest: collect_part)
next
  case (VError ty m fs)
  then show ?case by (fastforce simp: list_ex_iff encode_pair_def dest: collect_part)
qed auto

lemma no_secret_stored_witness: "\<not> holds_secret (VArray 1 [VStr (str ''a'')])"
  using no_secret_stored [of "VArray 1 [VStr (str ''a'')]" "JArray [JString (str ''a'')]"] by simp

end
