(* ===== verification/Journal.thy ===== *)
theory Journal
  imports Codec Files
begin

text \<open>
  Workflow journals (grenat\_ops: src/journal.rs): a file of one JSON entry per line. The text of a
  JSON value and its parser are a library's, the parameter \<open>json_lib\<close>. A file is its text: a line
  cut by a crash is cut between two characters.
\<close>

record json_lib =
  json_text :: "json \<Rightarrow> rtext"
  json_parse :: "rtext \<Rightarrow> json option"

record step =
  st_name :: rtext
  st_n :: nat
  st_value :: json

record journal =
  jn_steps :: "step list"
  jn_result :: "json option"

text \<open>\<open>entry["key"]\<close>, null for what is not an object with that key, and \<open>entry.get("key")\<close>.\<close>

definition json_get :: "json \<Rightarrow> rtext \<Rightarrow> json option" where
  "json_get j key = (case j of JObject ms \<Rightarrow> map_of ms key | _ \<Rightarrow> None)"

definition json_key :: "json \<Rightarrow> rtext \<Rightarrow> json" where
  "json_key j key = (case json_get j key of None \<Rightarrow> JNull | Some v \<Rightarrow> v)"

definition as_u64 :: "json \<Rightarrow> nat option" where
  "as_u64 j = (case j of JInt n \<Rightarrow> if 0 \<le> n \<and> n < 2 ^ 64 then Some (nat n) else None | _ \<Rightarrow> None)"

definition read_entry :: "json \<Rightarrow> journal \<Rightarrow> journal" where
  "read_entry entry journal =
     (case as_str (json_key entry (str ''step'')) of
        Some name \<Rightarrow>
          journal\<lparr>jn_steps := jn_steps journal @
            [\<lparr>st_name = name,
              st_n = (case as_u64 (json_key entry (str ''n'')) of None \<Rightarrow> 0 | Some n \<Rightarrow> n),
              st_value = json_key entry (str ''value'')\<rparr>]\<rparr>
      | None \<Rightarrow>
          (case json_get entry (str ''result'') of
             Some r \<Rightarrow> journal\<lparr>jn_result := Some r\<rparr>
           | None \<Rightarrow> journal))"

definition empty_journal :: journal where
  "empty_journal = \<lparr>jn_steps = [], jn_result = None\<rparr>"

definition read_journal :: "json_lib \<Rightarrow> file_state \<Rightarrow> (unit + journal)" where
  "read_journal lib f =
     (case f of
        Unreadable \<Rightarrow> Inl ()
      | Missing \<Rightarrow> Inr empty_journal
      | Holds s \<Rightarrow> Inr (fold read_entry (List.map_filter (json_parse lib) (text_lines s)) empty_journal))"

text \<open>The text that an append adds: the entry and a line feed.\<close>

definition journal_line :: "json_lib \<Rightarrow> json \<Rightarrow> rtext" where
  "journal_line lib entry = json_text lib entry @ [newline_char]"

definition step_entry :: "rtext \<Rightarrow> nat \<Rightarrow> json \<Rightarrow> json" where
  "step_entry name n v = JObject [(str ''n'', JInt (int n)), (str ''step'', JString name), (str ''value'', v)]"

definition result_entry :: "json \<Rightarrow> json" where
  "result_entry r = JObject [(str ''result'', r)]"

subsection \<open>The name of a journal\<close>

text \<open>FNV-1a, on 64 bits.\<close>

definition fingerprint :: "rtext \<Rightarrow> u64" where
  "fingerprint s = fold (\<lambda>b h. xor h (of_nat b) * 0x100000001b3) (as_bytes s) 0xcbf29ce484222325"

definition hex_digit_of :: "nat \<Rightarrow> nat" where
  "hex_digit_of d = (if d < 10 then 48 + d else 87 + d)"

text \<open>\<open>{:016x}\<close>.\<close>

definition hex16 :: "u64 \<Rightarrow> rtext" where
  "hex16 w = map (\<lambda>i. hex_digit_of (unat (drop_bit (4 * (15 - i)) w) mod 16)) [0..<16]"

definition journal_run :: "json_lib \<Rightarrow> rtext \<Rightarrow> json list \<Rightarrow> rtext list \<Rightarrow> rtext" where
  "journal_run lib workflow args names =
     workflow @ str ''-'' @
     hex16 (fingerprint (json_text lib (JArray [JArray args, JArray (map JString names)])))"

definition is_hex_digit :: "nat \<Rightarrow> bool" where
  "is_hex_digit c \<longleftrightarrow> 48 \<le> c \<and> c \<le> 57 \<or> 65 \<le> c \<and> c \<le> 70 \<or> 97 \<le> c \<and> c \<le> 102"

text \<open>\<open>rsplit_once\<close>, and the workflow of a journal named \<open><workflow>-<16 hex digits>\<close>.\<close>

definition rsplit_once :: "nat \<Rightarrow> rtext \<Rightarrow> (rtext \<times> rtext) option" where
  "rsplit_once c s = map_option (\<lambda>(a, b). (rev b, rev a)) (split_once c (rev s))"

definition journal_workflow :: "rtext \<Rightarrow> rtext option" where
  "journal_workflow run =
     (case rsplit_once (ch CHR ''-'') run of
        None \<Rightarrow> None
      | Some (workflow, hash) \<Rightarrow>
          if length (as_bytes hash) \<noteq> 16 \<or> \<not> list_all is_hex_digit (as_bytes hash) then None else Some workflow)"

end
