(* ===== verification/Journal_Props.thy ===== *)
theory Journal_Props
  imports Journal
begin

text \<open>
  What a journal gives back: the steps written in it, in their order; what a line cut by a crash
  does to it; and that the listing recognises the file of a run.

  What the development relies on for the JSON library: the text of an entry is one line, and is
  parsed back to the entry (\<open>one_line\<close>).
\<close>

definition one_line :: "json_lib \<Rightarrow> json \<Rightarrow> bool" where
  "one_line lib j \<longleftrightarrow> (\<forall>c \<in> set (json_text lib j). c \<noteq> newline_char \<and> c \<noteq> 13) \<and> json_parse lib (json_text lib j) = Some j"

definition entry_of :: "step \<Rightarrow> json" where
  "entry_of s = step_entry (st_name s) (st_n s) (st_value s)"

text \<open>The text of a journal of these steps.\<close>

definition journal_text :: "json_lib \<Rightarrow> step list \<Rightarrow> rtext" where
  "journal_text lib ss = unlines (map (\<lambda>s. json_text lib (entry_of s)) ss)"

definition step_writes :: "json_lib \<Rightarrow> step \<Rightarrow> bool" where
  "step_writes lib s \<longleftrightarrow> st_n s < 2 ^ 64 \<and> one_line lib (entry_of s)"

lemma journal_text_snoc [simp]:
  "journal_text lib [] = []"
  "journal_text lib (ss @ ts) = journal_text lib ss @ journal_text lib ts"
  "journal_text lib [s] = journal_line lib (entry_of s)"
  by (simp_all add: journal_text_def journal_line_def)

lemma read_step [simp]:
  "st_n s < 2 ^ 64 \<Longrightarrow> read_entry (entry_of s) j = j\<lparr>jn_steps := jn_steps j @ [s]\<rparr>"
  by (simp add: read_entry_def entry_of_def step_entry_def json_key_def json_get_def as_str_def as_u64_def)

lemma read_result [simp]: "read_entry (result_entry r) j = j\<lparr>jn_result := Some r\<rparr>"
  by (simp add: read_entry_def result_entry_def json_key_def json_get_def as_str_def)

lemma read_steps:
  "\<forall>s \<in> set ss. st_n s < 2 ^ 64 \<Longrightarrow> fold read_entry (map entry_of ss) j = j\<lparr>jn_steps := jn_steps j @ ss\<rparr>"
  by (induction ss arbitrary: j) auto

lemma strip_cr_id: "\<forall>c \<in> set l. c \<noteq> 13 \<Longrightarrow> strip_cr l = l"
  by (auto simp: strip_cr_def dest: last_in_set)

lemma parse_lines:
  "\<forall>s \<in> set ss. step_writes lib s \<Longrightarrow>
     List.map_filter (json_parse lib) (map strip_cr (map (\<lambda>s. json_text lib (entry_of s)) ss)) = map entry_of ss"
  by (induction ss) (auto simp: step_writes_def one_line_def strip_cr_id List.map_filter_simps)

lemma map_filter_append: "List.map_filter f (xs @ ys) = List.map_filter f xs @ List.map_filter f ys"
  by (simp add: List.map_filter_def)

text \<open>Reading a journal whose last line \<open>r\<close> is not ended.\<close>

lemma read_journal_cut:
  assumes "\<forall>s \<in> set ss. step_writes lib s" and "newline_char \<notin> set r"
  shows "read_journal lib (Holds (journal_text lib ss @ r)) =
    Inr (fold read_entry (if r = [] then [] else case json_parse lib r of None \<Rightarrow> [] | Some e \<Rightarrow> [e])
      \<lparr>jn_steps = ss, jn_result = None\<rparr>)"
proof -
  have "text_lines (journal_text lib ss @ r) =
      map strip_cr (map (\<lambda>s. json_text lib (entry_of s)) ss) @ (if r = [] then [] else [r])"
    unfolding journal_text_def
    by (rule text_lines_unlines) (use assms in \<open>auto simp: step_writes_def one_line_def\<close>)
  moreover have "\<forall>s \<in> set ss. st_n s < 2 ^ 64" using assms(1) by (simp add: step_writes_def)
  ultimately show ?thesis
    using assms by (auto simp: read_journal_def map_filter_append parse_lines read_steps empty_journal_def
        List.map_filter_simps simp del: map_map split: option.splits)
qed

text \<open>Reading a journal with a line that is no entry after the others.\<close>

lemma read_journal_spoilt:
  assumes "\<forall>s \<in> set ss. step_writes lib s" and "\<forall>c \<in> set l. c \<noteq> newline_char \<and> c \<noteq> 13" and "json_parse lib l = None"
  shows "read_journal lib (Holds (journal_text lib ss @ l @ [newline_char])) = Inr \<lparr>jn_steps = ss, jn_result = None\<rparr>"
proof -
  have "\<forall>m \<in> set (map (\<lambda>s. json_text lib (entry_of s)) ss @ [l]). newline_char \<notin> set m"
    using assms by (auto simp: step_writes_def one_line_def)
  from text_lines_unlines [OF this, of "[]"]
  have "text_lines (unlines (map (\<lambda>s. json_text lib (entry_of s)) ss) @ l @ [newline_char]) =
      map strip_cr (map (\<lambda>s. json_text lib (entry_of s)) ss) @ [strip_cr l]"
    by simp
  moreover have "\<forall>s \<in> set ss. st_n s < 2 ^ 64" using assms(1) by (simp add: step_writes_def)
  ultimately show ?thesis
    using assms by (simp add: read_journal_def map_filter_append parse_lines read_steps empty_journal_def
        List.map_filter_simps strip_cr_id journal_text_def del: map_map)
qed

text \<open>
  C27: A journal gives back its steps, in order, and ignores a line cut by a crash; but the
  line appended next goes on the cut one, and if the two together are no JSON value, that step,
  though it completed and was journaled, is not given back either: it runs again on every resume.
\<close>

theorem cut_line_takes_the_next:
  assumes steps: "\<forall>s \<in> set ss. step_writes lib s" and next_step: "step_writes lib later"
    and cut: "cut_text = take k (json_text lib (entry_of cut_step))" "step_writes lib cut_step"
    and no_value: "json_parse lib cut_text = None" "json_parse lib (cut_text @ json_text lib (entry_of later)) = None"
  shows "read_journal lib (Holds (journal_text lib ss @ cut_text)) = Inr \<lparr>jn_steps = ss, jn_result = None\<rparr> \<and>
    read_journal lib (Holds ((journal_text lib ss @ cut_text) @ journal_line lib (entry_of later))) =
      Inr \<lparr>jn_steps = ss, jn_result = None\<rparr>"
proof
  have clean: "\<forall>c \<in> set cut_text. c \<noteq> newline_char \<and> c \<noteq> 13"
    using cut by (auto simp: step_writes_def one_line_def dest: in_set_takeD)
  then show "read_journal lib (Holds (journal_text lib ss @ cut_text)) = Inr \<lparr>jn_steps = ss, jn_result = None\<rparr>"
    using read_journal_cut [OF steps, of cut_text] no_value(1) by auto
  have "\<forall>c \<in> set (cut_text @ json_text lib (entry_of later)). c \<noteq> newline_char \<and> c \<noteq> 13"
    using clean next_step by (auto simp: step_writes_def one_line_def)
  from read_journal_spoilt [OF steps this no_value(2)]
  show "read_journal lib (Holds ((journal_text lib ss @ cut_text) @ journal_line lib (entry_of later))) =
      Inr \<lparr>jn_steps = ss, jn_result = None\<rparr>"
    by (simp add: journal_line_def)
qed

definition sample_step :: "rtext \<Rightarrow> step" where
  "sample_step name = \<lparr>st_name = name, st_n = 0, st_value = JNull\<rparr>"

definition sample_json :: json_lib where
  "sample_json = \<lparr>json_text = (\<lambda>j. if j = entry_of (sample_step (str ''a'')) then str ''[1]'' else str ''[2]''),
     json_parse = (\<lambda>t. if t = str ''[1]'' then Some (entry_of (sample_step (str ''a'')))
       else if t = str ''[2]'' then Some (entry_of (sample_step (str ''b''))) else None)\<rparr>"

lemma cut_line_takes_the_next_witness:
  "read_journal sample_json (Holds (str ''[1'')) = Inr \<lparr>jn_steps = [], jn_result = None\<rparr> \<and>
   read_journal sample_json (Holds (str ''[1'' @ str ''[2]'' @ [newline_char])) = Inr \<lparr>jn_steps = [], jn_result = None\<rparr>"
proof -
  have ne: "entry_of (sample_step (str ''b'')) \<noteq> entry_of (sample_step (str ''a''))"
    by (simp add: entry_of_def sample_step_def step_entry_def)
  have w: "step_writes sample_json (sample_step (str ''a''))" "step_writes sample_json (sample_step (str ''b''))"
    using ne by (auto simp: step_writes_def one_line_def sample_json_def) (simp_all add: sample_step_def)
  have t: "str ''[1'' = take 2 (json_text sample_json (entry_of (sample_step (str ''a''))))"
    by (simp add: sample_json_def)
  from cut_line_takes_the_next [OF _ w(2) t w(1), of "[]"] show ?thesis
    using ne by (simp add: sample_json_def journal_line_def)
qed

subsection \<open>The file of a run\<close>

lemma hex16_digits: "list_all (\<lambda>c. is_hex_digit c \<and> c < 128) (hex16 w)"
  by (auto simp: hex16_def hex_digit_of_def is_hex_digit_def list_all_iff)

lemma ascii_bytes: "list_all (\<lambda>c. c < 128) s \<Longrightarrow> as_bytes s = s"
  by (induction s) (auto simp: as_bytes_def utf8_char_def)

text \<open>
  The listing of journals recognises the file that any run of a workflow writes, whatever its
  arguments, and as one of that workflow, even when the workflow's name holds a dash.
\<close>

theorem journal_is_listed: "journal_workflow (journal_run lib workflow args names) = Some workflow"
proof -
  let ?h = "hex16 (fingerprint (json_text lib (JArray [JArray args, JArray (map JString names)])))"
  have h: "list_all is_hex_digit ?h" "as_bytes ?h = ?h" "ch CHR ''-'' \<notin> set (rev ?h)" "length ?h = 16"
    using hex16_digits [of "fingerprint (json_text lib (JArray [JArray args, JArray (map JString names)]))"] ascii_bytes [of ?h]
    by (auto simp: list_all_iff is_hex_digit_def hex16_def)
  have "split_once (ch CHR ''-'') (rev ?h @ ch CHR ''-'' # rev workflow) = Some (rev ?h, rev workflow)"
    by (rule split_once_append [OF h(3)])
  with h show ?thesis by (simp add: journal_workflow_def rsplit_once_def journal_run_def)
qed

end
