(* ===== verification/Workflow.thy ===== *)
theory Workflow
  imports Journal
begin

text \<open>
  Durable workflows (grenat\_interp: src/eval/workflow.rs): what identifies a run, and how a run
  journals its steps and replays those that earlier runs journaled. The program of a workflow is
  the parameter: a tree of what it asks of the world and of its steps, whose blocks are such trees
  too and share the run and its counters. It is the same on every run, since the checker holds what
  may differ to steps (E_WORKFLOW). What the world answers, and where the process dies or the disk
  refuses a line, is the input of a run. The steps run one after another: tasks that a workflow
  starts and that run steps at the same time are not modelled, nor is a workflow that calls another
  (a run of its own, with its own journal).
\<close>

subsection \<open>What identifies a run\<close>

record call_args =
  ar_pos :: "val list"
  ar_named :: "(rtext \<times> val) list"

text \<open>
  The loop over the parameters: the positional values left, which named ones are used, the values
  and names so far, and whether a parameter was left to its default.
\<close>

fun key_loop :: "(rtext \<times> val) list \<Rightarrow> rtext list \<Rightarrow> val list \<Rightarrow> bool list \<Rightarrow> val list \<Rightarrow> rtext list \<Rightarrow> bool \<Rightarrow>
    val list \<times> bool list \<times> val list \<times> rtext list" where
  "key_loop named [] pos used values names gap = (pos, used, values, names)"
| "key_loop named (param # params) pos used values names gap =
     (let (value_opt, pos, used) =
        (case position_of (\<lambda>(n, _). n = param) named of
           Some i \<Rightarrow> (Some (snd (named ! i)), pos, used[i := True])
         | None \<Rightarrow> (case pos of [] \<Rightarrow> (None, [], used) | v # pos \<Rightarrow> (Some v, pos, used)))
      in case value_opt of
           Some v \<Rightarrow> key_loop named params pos used (values @ [v]) (if gap then names @ [param] else names) gap
         | None \<Rightarrow> key_loop named params pos used values names True)"

definition run_key :: "rtext list \<Rightarrow> call_args \<Rightarrow> val list \<times> rtext list" where
  "run_key params args =
     (let (pos, used, values, names) =
        key_loop (ar_named args) params (ar_pos args) (replicate (length (ar_named args)) False) [] [] False;
        unused = map snd (filter (\<lambda>(u, _). \<not> u) (zip used (ar_named args)))
      in (values @ pos @ map snd unused, names @ map fst unused))"

text \<open>The arguments encoded, or why they cannot be.\<close>

definition encode_args :: "val list \<Rightarrow> rtext + json list" where
  "encode_args vs = collect (map encode vs)"

subsection \<open>Running the body\<close>

text \<open>The errors: of the program, a value that is no data, the journal.\<close>

datatype fault =
  Raised rtext
| Not_Data rtext
| Journal_Error codec_fault
| Journal_Unreadable
| Journal_Refused

text \<open>What leaves an evaluation other than a value (\<open>Ctrl\<close>).\<close>

datatype ctrl =
  Raise fault
| Return_Ctrl val
| Break_Ctrl val
| Next_Ctrl val
| Exit_Ctrl int

type_synonym result = "ctrl + val"

text \<open>
  A program: it ends, it asks something of the world (a model, the network, the clock) and goes on
  with what that gives, or it calls \<open>step\<close> and goes on with the value or with what left it. It sees
  a \<open>return\<close> in a block as it does an error, so that \<open>ensure\<close> and \<open>rescue\<close> are part of the tree.
\<close>

datatype body =
  Ends result
| Ask "result \<Rightarrow> body"
| Run_Step rtext body "result \<Rightarrow> body"

text \<open>
  What happens to a line that is appended: it is written, or the process dies or the disk refuses
  after some characters. With no answer or no line left, the process dies there.
\<close>

datatype line_fate = Whole | Dies nat | Disk_Refuses nat

record running =
  rn_counts :: "rtext \<Rightarrow> nat"
  rn_answers :: "result list"
  rn_writes :: "line_fate list"

text \<open>What a run did, in order: blocks begun, steps and results journaled, pieces of lines.\<close>

datatype act =
  Began rtext nat
| Kept rtext nat val
| Gave val
| Cut rtext

text \<open>A run: how it ended, if the process did not die before, its state then, and what it did.\<close>

type_synonym 'r ran = "'r option \<times> running \<times> act list"

definition also_did :: "act list \<Rightarrow> 'r ran \<Rightarrow> 'r ran" where
  "also_did as r = (case r of (out, s, bs) \<Rightarrow> (out, s, as @ bs))"

definition bind_ran :: "'a ran \<Rightarrow> ('a \<Rightarrow> running \<Rightarrow> 'b ran) \<Rightarrow> 'b ran" where
  "bind_ran r f = (case r of
     (None, s, as) \<Rightarrow> (None, s, as)
   | (Some x, s, as) \<Rightarrow> also_did as (f x s))"

text \<open>\<open>append\<close>: the line of an entry and the act that it is when written whole.\<close>

definition append_entry :: "json_lib \<Rightarrow> json \<Rightarrow> act \<Rightarrow> running \<Rightarrow> (fault + unit) ran" where
  "append_entry lib entry whole s = (case rn_writes s of
     [] \<Rightarrow> (None, s, [])
   | Whole # ws \<Rightarrow> (Some (Inr ()), s\<lparr>rn_writes := ws\<rparr>, [whole])
   | Dies k # ws \<Rightarrow> (None, s\<lparr>rn_writes := ws\<rparr>, [Cut (take k (json_text lib entry))])
   | Disk_Refuses k # ws \<Rightarrow> (Some (Inl Journal_Refused), s\<lparr>rn_writes := ws\<rparr>, [Cut (take k (json_text lib entry))]))"

text \<open>\<open>call_block\<close>: a \<open>next\<close> gives the block its value, all else goes through.\<close>

definition block_result :: "result \<Rightarrow> result" where
  "block_result r = (case r of Inl (Next_Ctrl v) \<Rightarrow> Inr v | _ \<Rightarrow> r)"

text \<open>The steps of the journal by name and occurrence; of two with the same key, the last.\<close>

definition done_of :: "step list \<Rightarrow> rtext \<times> nat \<Rightarrow> json option" where
  "done_of ss = map_of (rev (map (\<lambda>s. ((st_name s, st_n s), st_value s)) ss))"

definition replay_value :: "json \<Rightarrow> result" where
  "replay_value j = map_sum (\<lambda>e. Raise (Journal_Error e)) id (decode j)"

text \<open>What a block gave, journaled (the end of \<open>run_step\<close>).\<close>

definition keep_step :: "json_lib \<Rightarrow> rtext \<Rightarrow> nat \<Rightarrow> result \<Rightarrow> running \<Rightarrow> result ran" where
  "keep_step lib name n r s = (case block_result r of
     Inl c \<Rightarrow> (Some (Inl c), s, [])
   | Inr v \<Rightarrow>
       (case encode v of
          Inl why \<Rightarrow> (Some (Inl (Raise (Not_Data why))), s, [])
        | Inr j \<Rightarrow> bind_ran (append_entry lib (step_entry name n j) (Kept name n v) s) (\<lambda>w s.
            (Some (map_sum Raise (\<lambda>_. v) w), s, []))))"

primrec exec :: "json_lib \<Rightarrow> (rtext \<times> nat \<Rightarrow> json option) \<Rightarrow> body \<Rightarrow> running \<Rightarrow> result ran" where
  "exec lib finished (Ends r) = (\<lambda>s. (Some r, s, []))"
| "exec lib finished (Ask rest) = (\<lambda>s.
     case rn_answers s of
       [] \<Rightarrow> (None, s, [])
     | r # rs \<Rightarrow> exec lib finished (rest r) (s\<lparr>rn_answers := rs\<rparr>))"
| "exec lib finished (Run_Step name block rest) = (\<lambda>s.
     let n = rn_counts s name; s = s\<lparr>rn_counts := (rn_counts s)(name := n + 1)\<rparr>
     in case finished (name, n) of
          Some j \<Rightarrow> exec lib finished (rest (replay_value j)) s
        | None \<Rightarrow>
            also_did [Began name n]
              (bind_ran (bind_ran (exec lib finished block s) (keep_step lib name n)) (\<lambda>r. exec lib finished (rest r))))"

text \<open>The end of \<open>run_workflow_body\<close>: a \<open>return\<close>, in the body or in a block, gives the result.\<close>

definition give_result :: "json_lib \<Rightarrow> result \<Rightarrow> running \<Rightarrow> result ran" where
  "give_result lib r s = (case (case r of Inl (Return_Ctrl v) \<Rightarrow> Inr v | _ \<Rightarrow> r) of
     Inl c \<Rightarrow> (Some (Inl c), s, [])
   | Inr v \<Rightarrow>
       (case encode v of
          Inl why \<Rightarrow> (Some (Inl (Raise (Not_Data why))), s, [])
        | Inr j \<Rightarrow> bind_ran (append_entry lib (result_entry j) (Gave v) s) (\<lambda>w s.
            (Some (map_sum Raise (\<lambda>_. v) w), s, []))))"

text \<open>How a run of the workflow against a journal file ends, if the process does not die, and what it does.\<close>

definition run_workflow :: "json_lib \<Rightarrow> file_state \<Rightarrow> body \<Rightarrow> result list \<Rightarrow> line_fate list \<Rightarrow> result option \<times> act list" where
  "run_workflow lib f body answers writes =
     (case read_journal lib f of
        Inl _ \<Rightarrow> (Some (Inl (Raise Journal_Unreadable)), [])
      | Inr journal \<Rightarrow>
          (case jn_result journal of
             Some r \<Rightarrow> (Some (replay_value r), [])
           | None \<Rightarrow>
               (case bind_ran (exec lib (done_of (jn_steps journal)) body
                    \<lparr>rn_counts = (\<lambda>_. 0), rn_answers = answers, rn_writes = writes\<rparr>) (give_result lib) of
                  (out, s, acts) \<Rightarrow> (out, acts))))"

text \<open>The text that a run appended, and the file after it.\<close>

definition act_text :: "json_lib \<Rightarrow> act \<Rightarrow> rtext" where
  "act_text lib a = (case a of
     Began name n \<Rightarrow> []
   | Kept name n v \<Rightarrow> (case encode v of Inl _ \<Rightarrow> [] | Inr j \<Rightarrow> journal_line lib (step_entry name n j))
   | Gave v \<Rightarrow> (case encode v of Inl _ \<Rightarrow> [] | Inr j \<Rightarrow> journal_line lib (result_entry j))
   | Cut t \<Rightarrow> t)"

definition appended :: "json_lib \<Rightarrow> file_state \<Rightarrow> act list \<Rightarrow> file_state" where
  "appended lib f acts =
     (let t = concat (map (act_text lib) acts)
      in if t = [] then f else Holds ((case f of Holds s \<Rightarrow> s | _ \<Rightarrow> []) @ t))"

end
