(* ===== verification/Workflow_Props.thy ===== *)
theory Workflow_Props
  imports Workflow Journal_Props Codec_Props "HOL-Library.Multiset" "HOL-Library.Sublist"
begin

text \<open>
  What durability means: a run that a crash interrupts goes on where it stopped, without running
  again a step that completed, and a run that completed gives its result without running anything;
  and a run is the same however its arguments are written.
\<close>

subsection \<open>Replaying\<close>

text \<open>A block's answer that the journal gives back as it is.\<close>

definition storable :: "val \<Rightarrow> bool" where
  "storable v \<longleftrightarrow> (\<exists>j. encode v = Inr j) \<and> well_formed v \<and> finite_floats v \<and> erase v = v"

lemma storable_decode: "storable v \<Longrightarrow> encode v = Inr j \<Longrightarrow> decode j = Inr v"
  using stored_reads_back [of v j] by (auto simp: storable_def reads_back_def)



lemma also_did_simps [simp]:
  "also_did as (out, s, bs) = (out, s, as @ bs)"
  "also_did [] r = r"
  by (cases r; simp add: also_did_def)+

lemma bind_ran_simps [simp]:
  "bind_ran (None, s, as) f = (None, s, as)"
  "bind_ran (Some x, s, as) f = also_did as (f x s)"
  by (simp_all add: bind_ran_def)

lemma also_did_eq: "also_did as r = (out, s, bs) \<longleftrightarrow> (\<exists>cs. r = (out, s, cs) \<and> bs = as @ cs)"
  by (cases r) auto

lemma bind_ran_eq: "bind_ran r f = (out, s, as) \<longleftrightarrow>
    r = (None, s, as) \<and> out = None \<or>
    (\<exists>x s1 as1 as2. r = (Some x, s1, as1) \<and> f x s1 = (out, s, as2) \<and> as = as1 @ as2)"
proof -
  obtain o1 s1 as1 where r: "r = (o1, s1, as1)" by (cases r)
  then show ?thesis by (cases o1) (auto simp: also_did_eq)
qed

lemma updates_swap [simp]:
  "s\<lparr>rn_writes := ws, rn_answers := as\<rparr> = s\<lparr>rn_answers := as, rn_writes := ws\<rparr>"
  "s\<lparr>rn_answers := as, rn_counts := cs\<rparr> = s\<lparr>rn_counts := cs, rn_answers := as\<rparr>"
  "s\<lparr>rn_writes := ws, rn_counts := cs\<rparr> = s\<lparr>rn_counts := cs, rn_writes := ws\<rparr>"
  by simp_all









subsection \<open>Workflows that the checker accepts\<close>





subsection \<open>Resuming a run\<close>


text \<open>The steps that completed and were journaled, with their values; the entries; what their run did.\<close>

type_synonym kept = "rtext \<times> nat \<times> val"

fun step_of :: "kept \<Rightarrow> step" where
  "step_of (name, n, v) = \<lparr>st_name = name, st_n = n, st_value = projr (encode v)\<rparr>"










lemma run_unread: "run_workflow lib Missing body answers writes =
    (case bind_ran (exec lib (done_of []) body \<lparr>rn_counts = (\<lambda>_. 0), rn_answers = answers, rn_writes = writes\<rparr>) (give_result lib) of
       (out, s, acts) \<Rightarrow> (out, acts))"
  by (simp add: run_workflow_def read_journal_def empty_journal_def)









text \<open>
  A step in the block of another: the run died in the second \<open>b\<close>, once \<open>a\<close> and the \<open>b\<close> in its block were
  journaled. When it resumes, \<open>a\<close> is replayed, so that the \<open>b\<close> after it is counted as the first one: it
  gets the value of the other, and never runs.
\<close>

definition nested_body :: body where
  "nested_body = Run_Step (str ''a'') (Run_Step (str ''b'') (Ask Ends) Ends) (\<lambda>_. Run_Step (str ''b'') (Ask Ends) Ends)"

lemma nested_step_shifts:
  defines "start \<equiv> \<lambda>as. \<lparr>rn_counts = (\<lambda>_. 0), rn_answers = as, rn_writes = [Whole, Whole, Whole]\<rparr>"
    and "js \<equiv> [(str ''b'', 0, VBool True), (str ''a'', 0, VBool True)]"
  shows "snd (snd (exec lib (done_of []) nested_body (start [Inr (VBool True)]))) =
      [Began (str ''a'') 0, Began (str ''b'') 0, Kept (str ''b'') 0 (VBool True), Kept (str ''a'') 0 (VBool True), Began (str ''b'') 1]"
    and "fst (exec lib (done_of []) nested_body (start [Inr (VBool True), Inr (VBool False)])) = Some (Inr (VBool False))"
    and "fst (exec lib (done_of (map step_of js)) nested_body (start [Inr (VBool False)])) = Some (Inr (VBool True))"
  by (simp_all add: start_def js_def nested_body_def done_of_def keep_step_def block_result_def append_entry_def replay_value_def)

subsection \<open>A run that completed\<close>

lemma read_lines:
  "\<forall>e \<in> set es. one_line lib e \<Longrightarrow> read_journal lib (Holds (unlines (map (json_text lib) es))) = Inr (fold read_entry es empty_journal)"
proof -
  assume lines: "\<forall>e \<in> set es. one_line lib e"
  then have "text_lines (unlines (map (json_text lib) es) @ []) = map strip_cr (map (json_text lib) es) @ []"
    by (subst text_lines_unlines) (auto simp: one_line_def)
  moreover have "List.map_filter (json_parse lib) (map strip_cr (map (json_text lib) es)) = es"
    using lines by (induction es) (auto simp: one_line_def strip_cr_id List.map_filter_simps)
  ultimately show ?thesis by (simp add: read_journal_def del: map_map)
qed

text \<open>The entries of the lines that a run wrote whole.\<close>

definition act_entries :: "act \<Rightarrow> json list" where
  "act_entries a = (case a of
     Kept name n v \<Rightarrow> (case encode v of Inl _ \<Rightarrow> [] | Inr j \<Rightarrow> [step_entry name n j])
   | Gave v \<Rightarrow> (case encode v of Inl _ \<Rightarrow> [] | Inr j \<Rightarrow> [result_entry j])
   | _ \<Rightarrow> [])"

lemma acts_text: "\<forall>t. Cut t \<in> set acts \<longrightarrow> t = [] \<Longrightarrow>
    concat (map (act_text lib) acts) = unlines (map (json_text lib) (concat (map act_entries acts)))"
proof (induction acts)
  case (Cons a acts)
  have "act_text lib a = unlines (map (json_text lib) (act_entries a))"
    using Cons.prems by (cases a) (auto simp: act_text_def act_entries_def journal_line_def unlines_def split: sum.splits)
  with Cons show ?case by (simp add: unlines_def)
qed (simp add: unlines_def)

lemma give_result_gives: "give_result lib r s = (Some (Inr v), s', acts) \<Longrightarrow> acts = [Gave v] \<and> (\<exists>j. encode v = Inr j)"
  by (auto simp: give_result_def append_entry_def bind_ran_eq also_did_eq split: sum.splits list.splits line_fate.splits)

text \<open>
  A workflow that completed gives its result again without running anything, whatever its
  blocks would do now.
\<close>

theorem completed_run_replays:
  assumes run: "run_workflow lib Missing body answers writes = (Some (Inr v), acts)" and "storable v"
    and lines: "\<forall>e \<in> set (concat (map act_entries acts)). one_line lib e" "\<forall>t. Cut t \<in> set acts \<longrightarrow> t = []"
  shows "run_workflow lib (appended lib Missing acts) body later more_writes = (Some (Inr v), [])"
proof -
  from run obtain x s1 as1 s2 as2 where "give_result lib x s1 = (Some (Inr v), s2, as2)" "acts = as1 @ as2"
    by (auto simp: run_unread bind_ran_eq split: prod.splits)
  with give_result_gives obtain j where j: "acts = as1 @ [Gave v]" "encode v = Inr j" by blast
  then have es: "concat (map act_entries acts) = concat (map act_entries as1) @ [result_entry j]"
    by (simp add: act_entries_def)
  have "concat (map (act_text lib) acts) \<noteq> []" unfolding acts_text [OF lines(2)] es by (simp add: unlines_def)
  then have "\<exists>jn. read_journal lib (appended lib Missing acts) = Inr jn \<and> jn_result jn = Some j"
    unfolding appended_def Let_def acts_text [OF lines(2)] using read_lines [OF lines(1)] by (simp add: es)
  with storable_decode [OF assms(2) j(2)] show ?thesis by (auto simp: run_workflow_def replay_value_def)
qed

lemma completed_run_replays_witness:
  "run_workflow \<lparr>json_text = (\<lambda>_. str ''[1]''), json_parse = (\<lambda>_. Some (result_entry JNull))\<rparr>
     (Holds (str ''[1]'' @ [newline_char])) (Ends (Inr VNil)) [] [] = (Some (Inr VNil), [])"
proof -
  let ?lib = "\<lparr>json_text = (\<lambda>_. str ''[1]''), json_parse = (\<lambda>_. Some (result_entry JNull))\<rparr>"
  have "run_workflow ?lib Missing (Ends (Inr VNil)) [] [Whole] = (Some (Inr VNil), [Gave VNil])"
    by (simp add: run_unread give_result_def append_entry_def)
  from completed_run_replays [OF this, of "[]" "[]"] show ?thesis
    by (simp add: storable_def one_line_def appended_def act_text_def act_entries_def journal_line_def)
qed

subsection \<open>One run however it is called\<close>

lemma position_of_named:
  "distinct (map fst named) \<Longrightarrow> i < length named \<Longrightarrow> fst (named ! i) = p \<Longrightarrow>
     position_of (\<lambda>(n, _). n = p) named = Some i"
proof (induction named arbitrary: i)
  case (Cons x named)
  then show ?case by (cases i) (auto simp: case_prod_beta)
qed simp

lemma position_of_unnamed: "p \<notin> fst ` set named \<Longrightarrow> position_of (\<lambda>(n, _). n = p) named = None"
  by (induction named) auto

text \<open>The loop, where each parameter is given: the ones in \<open>S\<close> by name, the others in order.\<close>

lemma key_loop_given:
  assumes names: "distinct (map fst named)"
  shows "length params = length vs \<Longrightarrow>
    (\<And>p v. (p, v) \<in> set (zip params vs) \<Longrightarrow> if p \<in> S then (p, v) \<in> set named else p \<notin> fst ` set named) \<Longrightarrow>
    length used = length named \<Longrightarrow>
    \<exists>used'. key_loop named params (map snd (filter (\<lambda>(p, _). p \<notin> S) (zip params vs)) @ rest) used vals names False
        = (rest, used', vals @ vs, names) \<and> length used' = length named \<and>
      (\<forall>i < length named. used' ! i \<longleftrightarrow> used ! i \<or> fst (named ! i) \<in> set params)"
proof (induction params vs arbitrary: used vals rule: list_induct2')
  case (4 p params v vs)
  show ?case
  proof (cases "p \<in> S")
    case True
    with 4(3) [of p v] have "(p, v) \<in> set named" by simp
    then obtain i where i: "i < length named" "named ! i = (p, v)" by (auto simp: in_set_conv_nth)
    then have pos: "position_of (\<lambda>(n, _). n = p) named = Some i" using position_of_named [OF names i(1)] by simp
    from 4(1) [of "used[i := True]" "vals @ [v]"] 4(2-4) obtain used' where
      "key_loop named params (map snd (filter (\<lambda>(p, _). p \<notin> S) (zip params vs)) @ rest) (used[i := True]) (vals @ [v]) names False
        = (rest, used', (vals @ [v]) @ vs, names)" "length used' = length named"
      "\<forall>k < length named. used' ! k \<longleftrightarrow> used[i := True] ! k \<or> fst (named ! k) \<in> set params"
      by auto
    moreover have "fst (named ! k) = p \<longleftrightarrow> k = i" if "k < length named" for k
      using position_of_named [OF names that] pos i by force
    ultimately show ?thesis using True pos i 4(4) by (auto simp: nth_list_update)
  next
    case False
    with 4(3) [of p v] have none: "p \<notin> fst ` set named" by simp
    from 4(1) [of used "vals @ [v]"] 4(2-4) obtain used' where
      "key_loop named params (map snd (filter (\<lambda>(p, _). p \<notin> S) (zip params vs)) @ rest) used (vals @ [v]) names False
        = (rest, used', (vals @ [v]) @ vs, names)" "length used' = length named"
      "\<forall>k < length named. used' ! k \<longleftrightarrow> used ! k \<or> fst (named ! k) \<in> set params"
      by auto
    moreover have "fst (named ! k) \<noteq> p" if "k < length named" for k using none that by (metis imageI nth_mem)
    ultimately show ?thesis using False position_of_unnamed [OF none] by auto
  qed
qed auto

text \<open>
  C37: A run is identified by the values its parameters take, however they are written: some by
  position and the others by name, in any order, give the same run.
\<close>

theorem run_key_of_values:
  assumes "distinct params" and "length params = length vs"
    and "mset named = mset (filter (\<lambda>(p, _). p \<in> S) (zip params vs))"
    and "pos = map snd (filter (\<lambda>(p, _). p \<notin> S) (zip params vs))"
  shows "run_key params \<lparr>ar_pos = pos, ar_named = named\<rparr> = (vs, [])"
proof -
  have set_named: "set named = set (filter (\<lambda>(p, _). p \<in> S) (zip params vs))"
    using assms(3) by (metis set_mset_mset)
  have "distinct (map fst (filter (\<lambda>(p, _). p \<in> S) (zip params vs)))"
    by (rule distinct_map_filter) (use assms(1,2) in simp)
  then have names: "distinct (map fst named)"
    using assms(3) by (metis mset_eq_imp_distinct_iff mset_map)
  have unique: "(p, v) \<in> set (zip params vs) \<Longrightarrow> if p \<in> S then (p, v) \<in> set named else p \<notin> fst ` set named" for p v
    by (auto simp: set_named)
  have "\<exists>used'. key_loop named params pos (replicate (length named) False) [] [] False = ([], used', [] @ vs, []) \<and>
      length used' = length named \<and>
      (\<forall>i < length named. used' ! i \<longleftrightarrow> replicate (length named) False ! i \<or> fst (named ! i) \<in> set params)"
    using key_loop_given [OF names assms(2), of S "replicate (length named) False" "[]" "[]" "[]"] unique
    by (simp add: assms(4))
  then obtain used' where u: "key_loop named params pos (replicate (length named) False) [] [] False = ([], used', vs, [])"
      "length used' = length named" "\<forall>i < length named. used' ! i \<longleftrightarrow> fst (named ! i) \<in> set params"
    by auto
  have "\<forall>i < length named. used' ! i"
  proof (intro allI impI)
    fix i
    assume i: "i < length named"
    then have "named ! i \<in> set (zip params vs)" using set_named nth_mem [OF i] by auto
    then have "fst (named ! i) \<in> set params" by (metis prod.collapse set_zip_leftD)
    with u(3) i show "used' ! i" by simp
  qed
  then have "filter (\<lambda>(u, _). \<not> u) (zip used' named) = []"
    using u(2) by (auto simp: filter_empty_conv in_set_zip)
  with u show ?thesis by (simp add: run_key_def)
qed

lemma run_key_of_values_witness:
  "run_key [str ''a'', str ''b'', str ''c''] \<lparr>ar_pos = [VInt 2], ar_named = [(str ''c'', VInt 3), (str ''a'', VInt 1)]\<rparr> =
     ([VInt 1, VInt 2, VInt 3], [])"
  by (rule run_key_of_values [where S = "{str ''a'', str ''c''}"]) (simp_all add: add_mset_commute)

end
