(* ===== verification/Operators.thy ===== *)
theory Operators
  imports Values Ast
begin

text \<open>
  Operators on values (grenat\_interp: src/eval/ops.rs, and the sets of src/builtins/sets.rs). Double
  arithmetic, \<open>format\<close> and the sending of an event are parameters, the record \<open>op_env\<close>. A new array is
  at the address given; an array that \<open><<\<close> changes is returned with the items it then holds.
\<close>

text \<open>An error: its type and message.\<close>

type_synonym error = "rtext \<times> rtext"

record op_env =
  fl_add :: "f64 \<Rightarrow> f64 \<Rightarrow> f64"
  fl_sub :: "f64 \<Rightarrow> f64 \<Rightarrow> f64"
  fl_mul :: "f64 \<Rightarrow> f64 \<Rightarrow> f64"
  fl_div :: "f64 \<Rightarrow> f64 \<Rightarrow> f64"
  fl_rem_euclid :: "f64 \<Rightarrow> f64 \<Rightarrow> f64"
  fl_powf :: "f64 \<Rightarrow> f64 \<Rightarrow> f64"
  format_values :: "val \<Rightarrow> val list \<Rightarrow> error + val"
  send_event :: "address \<Rightarrow> val \<Rightarrow> error + unit"

fun op_str :: "binop \<Rightarrow> rtext" where
  "op_str OpAdd = str ''+''"
| "op_str OpSub = str ''-''"
| "op_str OpMul = str ''*''"
| "op_str OpDiv = str ''/''"
| "op_str OpRem = str ''%''"
| "op_str OpPow = str ''**''"
| "op_str OpEq = str ''==''"
| "op_str OpNotEq = str ''!=''"
| "op_str OpLt = str ''<''"
| "op_str OpLe = str ''<=''"
| "op_str OpGt = str ''>''"
| "op_str OpGe = str ''>=''"
| "op_str OpCmp = str ''<=>''"
| "op_str OpMatch = str ''=~''"
| "op_str OpAnd = str ''&&''"
| "op_str OpOr = str ''||''"
| "op_str OpBitAnd = str ''&''"
| "op_str OpBitOr = str ''|''"
| "op_str OpBitXor = str ''^''"
| "op_str OpShl = str ''<<''"
| "op_str OpShr = str ''>>''"

subsection \<open>Comparison\<close>

text \<open>The order of texts: of their bytes.\<close>

fun bytes_cmp :: "bytes \<Rightarrow> bytes \<Rightarrow> ordering" where
  "bytes_cmp [] [] = Equal"
| "bytes_cmp [] (y # ys) = Less"
| "bytes_cmp (x # xs) [] = Greater"
| "bytes_cmp (x # xs) (y # ys) = (if x < y then Less else if y < x then Greater else bytes_cmp xs ys)"

definition compare :: "val \<Rightarrow> val \<Rightarrow> ordering option" where
  "compare a b = (case untainted a of
     VInt x \<Rightarrow>
       (case untainted b of
          VInt y \<Rightarrow> Some (int_cmp x y)
        | VFloat y \<Rightarrow> f64_partial_cmp (f64_of_int x) y
        | VDuration y \<Rightarrow> f64_partial_cmp (f64_of_int x) y
        | _ \<Rightarrow> None)
   | VFloat x \<Rightarrow>
       (case untainted b of
          VInt y \<Rightarrow> f64_partial_cmp x (f64_of_int y)
        | VFloat y \<Rightarrow> f64_partial_cmp x y
        | VDuration y \<Rightarrow> f64_partial_cmp x y
        | _ \<Rightarrow> None)
   | VMoney x \<Rightarrow>
       (case untainted b of VMoney y \<Rightarrow> f64_partial_cmp x y | VFloat y \<Rightarrow> f64_partial_cmp x y | _ \<Rightarrow> None)
   | VDuration x \<Rightarrow>
       (case untainted b of
          VDuration y \<Rightarrow> f64_partial_cmp x y
        | VFloat y \<Rightarrow> f64_partial_cmp x y
        | VInt y \<Rightarrow> f64_partial_cmp x (f64_of_int y)
        | _ \<Rightarrow> None)
   | VStr x \<Rightarrow> (case untainted b of VStr y \<Rightarrow> Some (bytes_cmp (as_bytes x) (as_bytes y)) | _ \<Rightarrow> None)
   | VSymbol x \<Rightarrow> (case untainted b of VSymbol y \<Rightarrow> Some (bytes_cmp (as_bytes x) (as_bytes y)) | _ \<Rightarrow> None)
   | _ \<Rightarrow> None)"

definition ordering_int :: "ordering \<Rightarrow> int" where
  "ordering_int o' = (case o' of Less \<Rightarrow> - 1 | Equal \<Rightarrow> 0 | Greater \<Rightarrow> 1)"

subsection \<open>Integers\<close>

text \<open>Rust's division and remainder, toward zero, and a value wrapped to 64 bits.\<close>

definition trunc_div :: "int \<Rightarrow> int \<Rightarrow> int" where
  "trunc_div a b = sgn a * sgn b * (\<bar>a\<bar> div \<bar>b\<bar>)"

definition trunc_rem :: "int \<Rightarrow> int \<Rightarrow> int" where
  "trunc_rem a b = a - b * trunc_div a b"

definition wrap_i64 :: "int \<Rightarrow> int" where
  "wrap_i64 n = (n + 2 ^ 63) mod 2 ^ 64 - 2 ^ 63"

definition overflow :: "error + val" where
  "overflow = Inl (str ''OverflowError'', str ''integer overflow'')"

definition checked :: "int \<Rightarrow> error + val" where
  "checked n = (if in_i64 n then Inr (VInt n) else overflow)"

definition int_op :: "op_env \<Rightarrow> binop \<Rightarrow> int \<Rightarrow> int \<Rightarrow> (error + val) option" where
  "int_op env op a b = (case op of
     OpAdd \<Rightarrow> Some (checked (a + b))
   | OpSub \<Rightarrow> Some (checked (a - b))
   | OpMul \<Rightarrow> Some (checked (a * b))
   | OpDiv \<Rightarrow>
       if b = 0 then Some (Inl (str ''ZeroDivisionError'', str ''division by zero''))
       else if \<not> in_i64 (trunc_div a b) then Some overflow
       else Some (Inr (VInt (if trunc_rem a b \<noteq> 0 \<and> (a < 0) \<noteq> (b < 0) then trunc_div a b - 1 else trunc_div a b)))
   | OpRem \<Rightarrow>
       if b = 0 then Some (Inl (str ''ZeroDivisionError'', str ''division by zero''))
       else let r = trunc_rem a b
            in Some (Inr (VInt (if r \<noteq> 0 \<and> (r < 0) \<noteq> (b < 0) then r + b else r)))
   | OpPow \<Rightarrow>
       if 0 \<le> b then Some (if b < 2 ^ 32 then checked (a ^ nat b) else overflow)
       else Some (Inr (VFloat (fl_powf env (f64_of_int a) (f64_of_int b))))
   | OpLt \<Rightarrow> Some (Inr (VBool (a < b)))
   | OpLe \<Rightarrow> Some (Inr (VBool (a \<le> b)))
   | OpGt \<Rightarrow> Some (Inr (VBool (a > b)))
   | OpGe \<Rightarrow> Some (Inr (VBool (a \<ge> b)))
   | OpCmp \<Rightarrow> Some (Inr (VInt (ordering_int (int_cmp a b))))
   | OpBitAnd \<Rightarrow> Some (Inr (VInt (and a b)))
   | OpBitOr \<Rightarrow> Some (Inr (VInt (or a b)))
   | OpBitXor \<Rightarrow> Some (Inr (VInt (xor a b)))
   | OpShl \<Rightarrow> Some (if 0 \<le> b \<and> b < 64 then Inr (VInt (wrap_i64 (a * 2 ^ nat b))) else overflow)
   | OpShr \<Rightarrow> Some (if 0 \<le> b \<and> b < 64 then Inr (VInt (a div 2 ^ nat b)) else overflow)
   | _ \<Rightarrow> None)"

definition float_op :: "op_env \<Rightarrow> binop \<Rightarrow> f64 \<Rightarrow> f64 \<Rightarrow> (error + val) option" where
  "float_op env op a b = map_option Inr (case op of
     OpAdd \<Rightarrow> Some (VFloat (fl_add env a b))
   | OpSub \<Rightarrow> Some (VFloat (fl_sub env a b))
   | OpMul \<Rightarrow> Some (VFloat (fl_mul env a b))
   | OpDiv \<Rightarrow> Some (VFloat (fl_div env a b))
   | OpRem \<Rightarrow> Some (VFloat (fl_rem_euclid env a b))
   | OpPow \<Rightarrow> Some (VFloat (fl_powf env a b))
   | OpLt \<Rightarrow> Some (VBool (f64_partial_cmp a b = Some Less))
   | OpLe \<Rightarrow> Some (VBool (f64_partial_cmp a b \<in> {Some Less, Some Equal}))
   | OpGt \<Rightarrow> Some (VBool (f64_partial_cmp a b = Some Greater))
   | OpGe \<Rightarrow> Some (VBool (f64_partial_cmp a b \<in> {Some Greater, Some Equal}))
   | OpCmp \<Rightarrow> Some (VInt (case f64_partial_cmp a b of None \<Rightarrow> 0 | Some o' \<Rightarrow> ordering_int o'))
   | _ \<Rightarrow> None)"

subsection \<open>Arrays as sets\<close>

definition holds_equal :: "val list \<Rightarrow> val \<Rightarrow> bool" where
  "holds_equal items x \<longleftrightarrow> list_ex (\<lambda>y. equal x y) items"

definition distinct_items :: "val list \<Rightarrow> val list" where
  "distinct_items items = fold (\<lambda>item out. if holds_equal out item then out else out @ [item]) items []"

definition set_intersection :: "val list \<Rightarrow> val list \<Rightarrow> val list" where
  "set_intersection a b = distinct_items (filter (holds_equal b) a)"

definition set_union :: "val list \<Rightarrow> val list \<Rightarrow> val list" where
  "set_union a b = distinct_items (a @ b)"

definition set_difference :: "val list \<Rightarrow> val list \<Rightarrow> val list" where
  "set_difference a b = filter (\<lambda>x. \<not> holds_equal b x) a"

subsection \<open>Binary operators\<close>

definition type_error :: "binop \<Rightarrow> val \<Rightarrow> val \<Rightarrow> error + val" where
  "type_error op l r = Inl (str ''TypeError'',
     str ''operator `'' @ op_str op @ str ''` is not defined between '' @ type_name l @ str '' and '' @ type_name r)"

definition or_type_error :: "binop \<Rightarrow> val \<Rightarrow> val \<Rightarrow> (error + val) option \<Rightarrow> error + val" where
  "or_type_error op l r x = (case x of None \<Rightarrow> type_error op l r | Some y \<Rightarrow> y)"

definition compare_op :: "binop \<Rightarrow> val \<Rightarrow> val \<Rightarrow> error + val" where
  "compare_op op l r = (case compare l r of
     None \<Rightarrow> type_error op l r
   | Some o' \<Rightarrow> Inr (case op of
       OpLt \<Rightarrow> VBool (o' = Less)
     | OpLe \<Rightarrow> VBool (o' \<noteq> Greater)
     | OpGt \<Rightarrow> VBool (o' = Greater)
     | OpGe \<Rightarrow> VBool (o' \<noteq> Less)
     | _ \<Rightarrow> VInt (ordering_int o')))"

definition number :: "val \<Rightarrow> f64 option" where
  "number v = (case untainted v of
     VInt n \<Rightarrow> Some (f64_of_int n)
   | VFloat f \<Rightarrow> Some f
   | VMoney f \<Rightarrow> Some f
   | VDuration f \<Rightarrow> Some f
   | _ \<Rightarrow> None)"

text \<open>Two numbers, integers or doubles.\<close>

definition numeric :: "op_env \<Rightarrow> binop \<Rightarrow> val \<Rightarrow> val \<Rightarrow> (error + val) option" where
  "numeric env op l r = (case l of
     VInt a \<Rightarrow>
       (case r of
          VInt b \<Rightarrow> Some (or_type_error op l r (int_op env op a b))
        | VFloat b \<Rightarrow> Some (or_type_error op l r (float_op env op (f64_of_int a) b))
        | _ \<Rightarrow> None)
   | VFloat a \<Rightarrow>
       (case r of
          VInt b \<Rightarrow> Some (or_type_error op l r (float_op env op a (f64_of_int b)))
        | VFloat b \<Rightarrow> Some (or_type_error op l r (float_op env op a b))
        | _ \<Rightarrow> None)
   | _ \<Rightarrow> None)"

definition add_values :: "op_env \<Rightarrow> address \<Rightarrow> val \<Rightarrow> val \<Rightarrow> error + val" where
  "add_values env at l r = (case l of
     VStr a \<Rightarrow>
       (case r of
          VStr b \<Rightarrow> Inr (VStr (a @ b))
        | VSecret b \<Rightarrow> Inr (VSecret (a @ b))
        | _ \<Rightarrow> Inl (str ''TypeError'', str ''cannot add '' @ type_name r @ str '' to a string: use interpolation \"#{'' @ [0x2026] @ str ''}\"''))
   | VSecret a \<Rightarrow>
       (case r of
          VSecret b \<Rightarrow> Inr (VSecret (a @ b))
        | VStr b \<Rightarrow> Inr (VSecret (a @ b))
        | _ \<Rightarrow> type_error OpAdd l r)
   | VArray _ a \<Rightarrow> (case r of VArray _ b \<Rightarrow> Inr (VArray at (a @ b)) | _ \<Rightarrow> type_error OpAdd l r)
   | VMoney a \<Rightarrow> (case r of VMoney b \<Rightarrow> Inr (VMoney (fl_add env a b)) | _ \<Rightarrow> type_error OpAdd l r)
   | VDuration d \<Rightarrow>
       (case r of
          VDuration b \<Rightarrow> Inr (VDuration (fl_add env d b))
        | VInt n \<Rightarrow> Inr (VFloat (fl_add env d (f64_of_int n)))
        | VFloat f \<Rightarrow> Inr (VFloat (fl_add env d f))
        | _ \<Rightarrow> type_error OpAdd l r)
   | VInt n \<Rightarrow>
       (case r of
          VDuration d \<Rightarrow> Inr (VFloat (fl_add env (f64_of_int n) d))
        | _ \<Rightarrow> (case numeric env OpAdd l r of None \<Rightarrow> type_error OpAdd l r | Some x \<Rightarrow> x))
   | VFloat f \<Rightarrow>
       (case r of
          VDuration d \<Rightarrow> Inr (VFloat (fl_add env f d))
        | _ \<Rightarrow> (case numeric env OpAdd l r of None \<Rightarrow> type_error OpAdd l r | Some x \<Rightarrow> x))
   | _ \<Rightarrow> type_error OpAdd l r)"

definition sub_values :: "op_env \<Rightarrow> address \<Rightarrow> val \<Rightarrow> val \<Rightarrow> error + val" where
  "sub_values env at l r = (case l of
     VArray _ a \<Rightarrow> (case r of VArray _ b \<Rightarrow> Inr (VArray at (set_difference a b)) | _ \<Rightarrow> type_error OpSub l r)
   | VMoney a \<Rightarrow> (case r of VMoney b \<Rightarrow> Inr (VMoney (fl_sub env a b)) | _ \<Rightarrow> type_error OpSub l r)
   | VDuration a \<Rightarrow> (case r of VDuration b \<Rightarrow> Inr (VDuration (fl_sub env a b)) | _ \<Rightarrow> type_error OpSub l r)
   | VInt n \<Rightarrow>
       (case r of
          VDuration d \<Rightarrow> Inr (VFloat (fl_sub env (f64_of_int n) d))
        | _ \<Rightarrow> (case numeric env OpSub l r of None \<Rightarrow> type_error OpSub l r | Some x \<Rightarrow> x))
   | VFloat f \<Rightarrow>
       (case r of
          VDuration d \<Rightarrow> Inr (VFloat (fl_sub env f d))
        | _ \<Rightarrow> (case numeric env OpSub l r of None \<Rightarrow> type_error OpSub l r | Some x \<Rightarrow> x))
   | _ \<Rightarrow> type_error OpSub l r)"

definition mul_values :: "op_env \<Rightarrow> val \<Rightarrow> val \<Rightarrow> error + val" where
  "mul_values env l r = (case l of
     VStr s \<Rightarrow>
       (case r of
          VInt n \<Rightarrow> if 0 \<le> n then Inr (VStr (concat (replicate (nat n) s))) else type_error OpMul l r
        | _ \<Rightarrow> type_error OpMul l r)
   | VDuration a \<Rightarrow> (case r of VInt n \<Rightarrow> Inr (VDuration (fl_mul env a (f64_of_int n))) | _ \<Rightarrow> type_error OpMul l r)
   | VInt n \<Rightarrow>
       (case r of
          VDuration a \<Rightarrow> Inr (VDuration (fl_mul env a (f64_of_int n)))
        | _ \<Rightarrow> (case numeric env OpMul l r of None \<Rightarrow> type_error OpMul l r | Some x \<Rightarrow> x))
   | _ \<Rightarrow> (case numeric env OpMul l r of None \<Rightarrow> type_error OpMul l r | Some x \<Rightarrow> x))"

text \<open>The operators of arrays as sets, on two arrays.\<close>

definition set_values :: "op_env \<Rightarrow> address \<Rightarrow> binop \<Rightarrow> (val list \<Rightarrow> val list \<Rightarrow> val list) \<Rightarrow> val \<Rightarrow> val \<Rightarrow> error + val" where
  "set_values env at op f l r = (case l of
     VArray _ a \<Rightarrow> (case r of VArray _ b \<Rightarrow> Inr (VArray at (f a b)) | _ \<Rightarrow> type_error op l r)
   | _ \<Rightarrow> (case numeric env op l r of None \<Rightarrow> type_error op l r | Some x \<Rightarrow> x))"

text \<open>The operators on values that are not tainted.\<close>

definition plain_binop :: "op_env \<Rightarrow> address \<Rightarrow> binop \<Rightarrow> val \<Rightarrow> val \<Rightarrow> error + val" where
  "plain_binop env at op l r =
     (if op = OpEq then Inr (VBool (equal l r))
      else if op = OpNotEq then Inr (VBool (\<not> equal l r))
      else if op = OpShl then
        (case l of
           VEvents e \<Rightarrow> map_sum id (\<lambda>_. l) (send_event env e r)
         | VArray p items \<Rightarrow> Inr (VArray p (items @ [r]))
         | _ \<Rightarrow> (case numeric env op l r of None \<Rightarrow> type_error op l r | Some x \<Rightarrow> x))
      else if op = OpAdd then add_values env at l r
      else if op = OpSub then sub_values env at l r
      else if op = OpMul then mul_values env l r
      else if op = OpRem then
        (case l of
           VStr _ \<Rightarrow> format_values env l (case r of VArray _ items \<Rightarrow> items | _ \<Rightarrow> [r])
         | _ \<Rightarrow> (case numeric env op l r of None \<Rightarrow> type_error op l r | Some x \<Rightarrow> x))
      else if op = OpBitAnd then set_values env at op set_intersection l r
      else if op = OpBitOr then set_values env at op set_union l r
      else
        (case numeric env op l r of
           Some x \<Rightarrow> x
         | None \<Rightarrow> if op \<in> {OpLt, OpLe, OpGt, OpGe, OpCmp} then compare_op op l r else type_error op l r))"

definition binop :: "op_env \<Rightarrow> address \<Rightarrow> binop \<Rightarrow> val \<Rightarrow> val \<Rightarrow> error + val" where
  "binop env at op l r =
     (if is_tainted l \<or> is_tainted r then map_sum id taint (plain_binop env at op (untainted l) (untainted r))
      else plain_binop env at op l r)"

end
