(* ===== verification/Operator_Props.thy ===== *)
theory Operator_Props
  imports Operators
begin

text \<open>
  Operators: integer arithmetic is exact or an error, and divides toward minus infinity; which
  shifts lose bits; taint stays on the result of an operator, but not on what \<open><<\<close> stores.
\<close>

subsection \<open>Division\<close>

lemma trunc_div_floor:
  assumes "b \<noteq> 0"
  shows "a div b = (if trunc_rem a b \<noteq> 0 \<and> (a < 0) \<noteq> (b < 0) then trunc_div a b - 1 else trunc_div a b)"
proof -
  have id: "x - y * (x div y) = x mod y" for x y :: int by (metis minus_mult_div_eq_mod)
  consider (pp) "0 \<le> a" "0 < b" | (pn) "0 \<le> a" "b < 0" | (np) "a < 0" "0 < b" | (nn) "a < 0" "b < 0"
    using assms by linarith
  then show ?thesis
  proof cases
    case pp
    then show ?thesis by (cases "a = 0") (simp_all add: trunc_div_def trunc_rem_def)
  next
    case pn
    then have t: "trunc_div a b = - (a div - b)" by (cases "a = 0") (simp_all add: trunc_div_def sgn_if)
    then have "trunc_rem a b = a mod - b" using id [of a "- b"] by (simp add: trunc_rem_def)
    with pn t show ?thesis using zdiv_zminus2_eq_if [of "- b" a] by (cases "a = 0") auto
  next
    case np
    then have t: "trunc_div a b = - (- a div b)" by (simp add: trunc_div_def sgn_if)
    then have "trunc_rem a b = - (- a mod b)" using id [of "- a" b] by (simp add: trunc_rem_def)
    with np t show ?thesis using zdiv_zminus1_eq_if [of b "- a"] by auto
  next
    case nn
    then have t: "trunc_div a b = a div b" by (simp add: trunc_div_def sgn_if)
    with nn show ?thesis by simp
  qed
qed

lemma trunc_rem_floor:
  assumes "b \<noteq> 0"
  shows "a mod b = (let r = trunc_rem a b in if r \<noteq> 0 \<and> (r < 0) \<noteq> (b < 0) then r + b else r)"
proof -
  have "a mod b = a - b * (a div b)" by (metis minus_mult_div_eq_mod)
  then have m: "a mod b = (if trunc_rem a b \<noteq> 0 \<and> (a < 0) \<noteq> (b < 0) then trunc_rem a b + b else trunc_rem a b)"
    using trunc_div_floor [OF assms, of a] by (auto simp: trunc_rem_def algebra_simps)
  have sign: "trunc_rem a b \<noteq> 0 \<Longrightarrow> (trunc_rem a b < 0) = (a < 0)"
  proof -
    assume r: "trunc_rem a b \<noteq> 0"
    show ?thesis
    proof (cases "(a < 0) \<noteq> (b < 0)")
      case True
      with r m have e: "trunc_rem a b = a mod b - b" by simp
      from True assms show ?thesis
      proof (cases "0 < b")
        case True
        with pos_mod_bound [OF True, of a] \<open>(a < 0) \<noteq> (b < 0)\<close> show ?thesis by (simp add: e)
      next
        case False
        with assms have "b < 0" by simp
        with neg_mod_bound [OF \<open>b < 0\<close>, of a] \<open>(a < 0) \<noteq> (b < 0)\<close> show ?thesis
          by (simp add: e not_less less_imp_le)
      qed
    next
      case False
      with r m have e: "trunc_rem a b = a mod b" by simp
      from assms consider (pos) "0 < b" | (neg) "b < 0" by linarith
      then show ?thesis
      proof cases
        case pos
        with False r e pos_mod_sign [OF pos, of a] show ?thesis by (simp add: not_less)
      next
        case neg
        with False r e neg_mod_sign [OF neg, of a] show ?thesis by (simp add: less_le)
      qed
    qed
  qed
  show ?thesis using m sign by (auto simp: Let_def)
qed

lemma in_i64_div:
  assumes "in_i64 a" "b \<noteq> 0"
  shows "in_i64 (trunc_div a b) \<longleftrightarrow> in_i64 (a div b)"
proof (cases "\<bar>b\<bar> = 1")
  case True
  then have "trunc_rem a b = 0" by (auto simp: trunc_rem_def trunc_div_def sgn_if)
  with trunc_div_floor [OF assms(2), of a] show ?thesis by simp
next
  case False
  with assms(2) have b: "2 \<le> \<bar>b\<bar>" by linarith
  have "\<bar>a\<bar> div \<bar>b\<bar> \<le> \<bar>a\<bar> div 2" using b by (intro zdiv_mono2) simp_all
  moreover have "\<bar>a\<bar> div 2 \<le> 2 ^ 63 div 2" using assms(1) by (intro zdiv_mono1) (auto simp: in_i64_def)
  ultimately have "\<bar>a\<bar> div \<bar>b\<bar> \<le> 2 ^ 62" by simp
  moreover have "\<bar>trunc_div a b\<bar> \<le> \<bar>a\<bar> div \<bar>b\<bar>"
    by (auto simp: trunc_div_def abs_mult sgn_if pos_imp_zdiv_nonneg_iff)
  ultimately have "\<bar>trunc_div a b\<bar> \<le> 2 ^ 62" by linarith
  then show ?thesis using trunc_div_floor [OF assms(2), of a] by (auto simp: in_i64_def abs_le_iff)
qed

lemma floor_division:
  assumes "in_i64 a" and "b \<noteq> 0"
  shows "int_op env OpDiv a b = Some (checked (a div b))" "int_op env OpRem a b = Some (Inr (VInt (a mod b)))"
  using in_i64_div [OF assms] trunc_div_floor [OF assms(2), of a] trunc_rem_floor [OF assms(2), of a] assms(2)
  by (auto simp: int_op_def checked_def Let_def)

text \<open>
  C33: Integer division rounds toward minus infinity and the remainder has the sign of the divisor,
  on the whole range: it is an error only to divide by zero, or when the quotient is no 64-bit
  integer; the remainder always is one.
\<close>

theorem integer_division_floors:
  assumes "in_i64 a" and "b \<noteq> 0"
  shows "int_op env OpDiv a b = Some (checked (a div b)) \<and> int_op env OpRem a b = Some (Inr (VInt (a mod b)))"
  by (simp add: floor_division assms)

text \<open>An environment for witnesses: no arithmetic on doubles, no format, events that are accepted.\<close>

definition sample_env :: op_env where
  "sample_env = \<lparr>fl_add = (\<lambda>a b. a), fl_sub = (\<lambda>a b. a), fl_mul = (\<lambda>a b. a), fl_div = (\<lambda>a b. a),
     fl_rem_euclid = (\<lambda>a b. a), fl_powf = (\<lambda>a b. a), format_values = (\<lambda>v vs. Inr VNil), send_event = (\<lambda>e v. Inr ())\<rparr>"

lemma integer_division_floors_witness:
  "int_op sample_env OpDiv (- 7) 2 = Some (checked (- 7 div 2)) \<and>
   int_op sample_env OpRem (- 7) 2 = Some (Inr (VInt (- 7 mod 2)))"
  by (rule integer_division_floors) (simp_all add: in_i64_def)

subsection \<open>The range of results\<close>

lemma in_i64_drop_bit: "in_i64 n \<longleftrightarrow> drop_bit 63 n \<in> {0, - 1}"
proof -
  have "drop_bit 63 n = n div 2 ^ 63" by (simp only: drop_bit_eq_div)
  moreover have "n div 2 ^ 63 = 0 \<longleftrightarrow> 0 \<le> n \<and> n < 2 ^ 63" by (auto simp: zdiv_eq_0_iff)
  moreover have "n div 2 ^ 63 = - 1 \<longleftrightarrow> - (2 ^ 63) \<le> n \<and> n < 0"
  proof -
    have "(n + 2 ^ 63) div 2 ^ 63 = n div 2 ^ 63 + 1" by (rule div_add_self2) simp
    then have "n div 2 ^ 63 = - 1 \<longleftrightarrow> (n + 2 ^ 63) div 2 ^ 63 = 0" by linarith
    then show ?thesis by (auto simp: zdiv_eq_0_iff)
  qed
  ultimately show ?thesis by (auto simp: in_i64_def)
qed

lemma in_i64_bits:
  assumes "in_i64 a" "in_i64 b"
  shows "in_i64 (and a b)" "in_i64 (or a b)" "in_i64 (xor a b)"
  using assms by (auto simp: in_i64_drop_bit drop_bit_and drop_bit_or drop_bit_xor)

lemma in_i64_wrap: "in_i64 (wrap_i64 n)"
proof -
  have range: "0 \<le> m \<Longrightarrow> m < 2 ^ 64 \<Longrightarrow> in_i64 (m - 2 ^ 63)" for m by (simp add: in_i64_def)
  show ?thesis unfolding wrap_i64_def by (rule range) simp_all
qed

lemma wrap_in_i64: "in_i64 n \<Longrightarrow> wrap_i64 n = n"
proof -
  assume "in_i64 n"
  then have "0 \<le> n + 2 ^ 63" "n + 2 ^ 63 < 2 ^ 64" by (simp_all add: in_i64_def)
  then have "(n + 2 ^ 63) mod 2 ^ 64 = n + 2 ^ 63" by (rule mod_pos_pos_trivial)
  then show ?thesis by (simp only: wrap_i64_def)
qed

lemma in_i64_shr:
  assumes "in_i64 a" shows "in_i64 (a div 2 ^ k)"
proof -
  have eq: "drop_bit 63 (drop_bit k a) = drop_bit k (drop_bit 63 a)" by (metis add.commute drop_bit_drop_bit)
  have "drop_bit 63 a = 0 \<or> drop_bit 63 a = - 1" using assms by (simp add: in_i64_drop_bit)
  then have "in_i64 (drop_bit k a)"
    unfolding in_i64_drop_bit eq by (elim disjE) (simp_all only: drop_bit_of_0 drop_bit_minus_one insert_iff simp_thms)
  then show ?thesis by (simp add: drop_bit_eq_div)
qed

text \<open>
  Every integer that an operator gives for two integers is a 64-bit one: addition, subtraction,
  multiplication and powers that would not fit are errors, and never wrap around.
\<close>

theorem integer_results_fit:
  assumes "in_i64 a" and "in_i64 b" and "int_op env op a b = Some (Inr (VInt n))"
  shows "in_i64 n"
  using assms(3)
proof (cases op)
  case OpDiv
  then have "b \<noteq> 0" using assms(3) by (auto simp: int_op_def)
  with OpDiv assms floor_division(1) [OF assms(1), of b env] show ?thesis
    by (auto simp: checked_def overflow_def split: if_splits)
next
  case OpRem
  then have b: "b \<noteq> 0" using assms(3) by (auto simp: int_op_def)
  with OpRem assms floor_division(2) [OF assms(1), of b env] have n: "n = a mod b" by simp
  from b consider "0 < b" | "b < 0" by linarith
  then show ?thesis
  proof cases
    assume "0 < b"
    then have "0 \<le> n" "n < b" by (simp_all add: n)
    with assms(2) show ?thesis by (simp add: in_i64_def)
  next
    assume "b < 0"
    then have "n \<le> 0" "b < n" by (simp_all add: n)
    with assms(2) show ?thesis by (simp add: in_i64_def)
  qed
qed (use assms in_i64_bits [OF assms(1,2)] in_i64_wrap in_i64_shr [OF assms(1)] in
  \<open>auto simp: int_op_def checked_def overflow_def int_cmp_def ordering_int_def in_i64_def split: if_splits\<close>)

lemma integer_results_fit_witness: "in_i64 (3 * 5)"
  by (rule integer_results_fit [of 3 5 sample_env OpMul]) (simp_all add: in_i64_def int_op_def checked_def)

text \<open>
  A shift to the left is the multiplication by a power of two exactly when the product is a
  64-bit integer; when it is not, the lost bits raise no error, unlike every other operator.
\<close>

theorem shift_left_loses_bits:
  assumes "in_i64 a" and "0 \<le> b" and "b < 64"
  shows "(int_op env OpShl a b = Some (Inr (VInt (a * 2 ^ nat b))) \<longleftrightarrow> in_i64 (a * 2 ^ nat b)) \<and>
    int_op env OpShl a b \<noteq> Some overflow"
  using assms wrap_in_i64 [of "a * 2 ^ nat b"] in_i64_wrap [of "a * 2 ^ nat b"]
  by (auto simp: int_op_def overflow_def)

lemma shift_left_loses_bits_witness:
  "int_op sample_env OpShl 1 63 \<noteq> Some overflow \<and> int_op sample_env OpShl 1 63 \<noteq> Some (Inr (VInt (2 ^ 63)))"
  using shift_left_loses_bits [of 1 63 sample_env] by (simp add: in_i64_def)

subsection \<open>Taint\<close>

lemma untainted_not [simp]: "\<not> is_tainted (untainted v)"
  by (induction v rule: untainted.induct) auto

lemma untainted_id [simp]: "\<not> is_tainted v \<Longrightarrow> untainted v = v"
  by (cases v) auto

lemma taint_tainted: "is_tainted (taint v) \<or> taint v = VNil"
  by (cases v) auto

text \<open>
  What an operator gives is untrusted whenever one of its operands is (\<open>nil\<close> apart, which
  carries no taint).
\<close>

theorem operators_keep_taint:
  assumes "binop env at op l r = Inr v" and "is_tainted l \<or> is_tainted r"
  shows "is_tainted v \<or> v = VNil"
  using assms taint_tainted by (auto simp: binop_def)

lemma operators_keep_taint_witness:
  "is_tainted (VTainted (VBool True)) \<or> VTainted (VBool True) = VNil"
  by (rule operators_keep_taint [of sample_env 0 OpEq "VTainted (VInt 1)" "VInt 1"]) (simp_all add: binop_def plain_binop_def)

text \<open>
  The array that \<open>xs << item\<close> changes holds the item without its taint: the expression's value
  is untrusted, but the array, read later through any other name, shows nothing untrusted.
\<close>

theorem push_drops_taint:
  assumes "\<not> contains_taint (VArray p items)" and "\<not> contains_taint (untainted item)"
  shows "\<exists>items'. binop env at OpShl (VArray p items) (VTainted item) = Inr (VTainted (VArray p items')) \<and>
    items' = items @ [untainted item] \<and> \<not> contains_taint (VArray p items')"
  using assms by (auto simp: binop_def plain_binop_def list_ex_iff)

lemma push_drops_taint_witness:
  "\<exists>items'. binop sample_env 9 OpShl (VArray 1 []) (VTainted (VStr (str ''x''))) = Inr (VTainted (VArray 1 items')) \<and>
    items' = [] @ [untainted (VStr (str ''x''))] \<and> \<not> contains_taint (VArray 1 items')"
  by (rule push_drops_taint) simp_all

end
