(* ===== verification/Indexing.thy ===== *)
theory Indexing
  imports Operators
begin

text \<open>
  Indexes and slices (grenat\_interp: src/eval/assign.rs, src/builtins/slicing.rs), on arrays, strings
  and hashes. A length is at most \<open>2 ^ 63 - 1\<close>, as Rust's lengths are; the addition that may overflow
  is the one of a release build, which wraps.
\<close>

subsection \<open>The bounds of a slice\<close>

definition start_of :: "nat \<Rightarrow> int \<Rightarrow> nat option" where
  "start_of len start =
     (let start = (if start < 0 then start + int len else start)
      in if 0 \<le> start \<and> start \<le> int len then Some (nat start) else None)"

text \<open>\<open>from.saturating_add(length).min(len)\<close>.\<close>

definition start_length :: "nat \<Rightarrow> int \<Rightarrow> int \<Rightarrow> (nat \<times> nat) option" where
  "start_length len start n =
     (case start_of len start of
        None \<Rightarrow> None
      | Some from' \<Rightarrow> if n < 0 then None else Some (from', min (min (from' + nat n) (2 ^ 64 - 1)) len))"

definition clamp :: "int \<Rightarrow> int \<Rightarrow> int \<Rightarrow> int" where
  "clamp n lo hi = (if n < lo then lo else if hi < n then hi else n)"

definition range_bounds :: "nat \<Rightarrow> int \<Rightarrow> int \<Rightarrow> bool \<Rightarrow> (nat \<times> nat) option" where
  "range_bounds len lo hi inclusive =
     (case start_of len lo of
        None \<Rightarrow> None
      | Some from' \<Rightarrow>
          let hi = (if hi < 0 then hi + int len else hi);
              end' = clamp (wrap_i64 (hi + of_bool inclusive)) (int from') (int len)
          in Some (from', nat end'))"

text \<open>What selects a slice: nothing for a single index.\<close>

definition slice_type_error :: "val \<Rightarrow> val \<Rightarrow> error" where
  "slice_type_error start n = (str ''TypeError'',
     str ''a slice `[start, length]` takes two integers, got '' @ type_name start @ str '' and '' @ type_name n)"

definition single_index :: "nat \<Rightarrow> val \<Rightarrow> (nat \<times> nat) option option" where
  "single_index len v = (case untainted v of VRange lo hi inclusive \<Rightarrow> Some (range_bounds len lo hi inclusive) | _ \<Rightarrow> None)"

definition slice_bounds :: "val list \<Rightarrow> nat \<Rightarrow> error + (nat \<times> nat) option option" where
  "slice_bounds index len =
     (case index of
        [start, count] \<Rightarrow>
          (case untainted start of
             VInt s \<Rightarrow>
               (case untainted count of
                  VInt n \<Rightarrow> Inr (Some (start_length len s n))
                | n \<Rightarrow> Inl (slice_type_error (VInt s) n))
           | s \<Rightarrow> Inl (slice_type_error s (untainted count)))
      | [single] \<Rightarrow> Inr (single_index len single)
      | _ \<Rightarrow> Inl (str ''ArgumentError'', str ''an index takes one or two values, got '' @ nat_digits (length index)))"

definition slice_str :: "rtext \<Rightarrow> (nat \<times> nat) option \<Rightarrow> val" where
  "slice_str s bounds = (case bounds of None \<Rightarrow> VNil | Some (from', to') \<Rightarrow> VStr (take (to' - from') (drop from' s)))"

text \<open>\<open>items[from..to]\<close> panics out of bounds: None.\<close>

definition slice_array :: "address \<Rightarrow> val list \<Rightarrow> (nat \<times> nat) option \<Rightarrow> val option" where
  "slice_array at items bounds = (case bounds of
     None \<Rightarrow> Some VNil
   | Some (from', to') \<Rightarrow>
       if from' \<le> to' \<and> to' \<le> length items then Some (VArray at (take (to' - from') (drop from' items))) else None)"

subsection \<open>Reading at an index\<close>

definition resolve_index :: "int \<Rightarrow> nat \<Rightarrow> nat option" where
  "resolve_index i len =
     (let i = (if i < 0 then i + int len else i) in if 0 \<le> i \<and> i < int len then Some (nat i) else None)"

definition hash_get :: "(val \<times> val) list \<Rightarrow> val \<Rightarrow> val option" where
  "hash_get entries key = map_option snd (find (\<lambda>(k, _). equal k key) entries)"

text \<open>\<open>entries.iter_mut().find\<close>, changed, or a new entry pushed.\<close>

fun hash_set :: "(val \<times> val) list \<Rightarrow> val \<Rightarrow> val \<Rightarrow> (val \<times> val) list" where
  "hash_set [] key v = [(key, v)]"
| "hash_set ((k, w) # entries) key v =
     (if equal k key then (k, v) # entries else (k, w) # hash_set entries key v)"

definition nil_or :: "val option \<Rightarrow> val" where
  "nil_or x = (case x of None \<Rightarrow> VNil | Some v \<Rightarrow> v)"

text \<open>An array with an item changed: past the end it grows.\<close>

definition array_set :: "val list \<Rightarrow> int \<Rightarrow> val \<Rightarrow> val list option" where
  "array_set items i v =
     (let room = (if 0 \<le> i then max (length items) (nat i + 1) else length items)
      in case resolve_index i room of
           None \<Rightarrow> None
         | Some i \<Rightarrow> Some ((items @ replicate (i + 1 - length items) VNil)[i := v]))"

text \<open>The child of a supervisor, which the interpreter looks up, is a parameter.\<close>

definition index_plain :: "address \<Rightarrow> (rtext \<Rightarrow> rtext \<Rightarrow> error + val) \<Rightarrow> val \<Rightarrow> val list \<Rightarrow> (error + val) option" where
  "index_plain at child target index =
     (let single = (\<lambda>f. case index of
          [key] \<Rightarrow> f (untainted key)
        | _ \<Rightarrow> Inl (str ''ArgumentError'', str ''expected a single index''));
        refused = (\<lambda>key. Inl (str ''TypeError'', type_name target @ str '' cannot be indexed by '' @ type_name key))
      in case target of
           VStr s \<Rightarrow>
             (case slice_bounds index (length s) of
                Inl e \<Rightarrow> Some (Inl e)
              | Inr (Some bounds) \<Rightarrow> Some (Inr (slice_str s bounds))
              | Inr None \<Rightarrow> Some (single (\<lambda>key. case key of
                    VInt i \<Rightarrow> Inr (case resolve_index i (length s) of None \<Rightarrow> VNil | Some i \<Rightarrow> VStr [s ! i])
                  | _ \<Rightarrow> refused key)))
         | VArray _ items \<Rightarrow>
             (case slice_bounds index (length items) of
                Inl e \<Rightarrow> Some (Inl e)
              | Inr (Some bounds) \<Rightarrow> map_option Inr (slice_array at items bounds)
              | Inr None \<Rightarrow> Some (single (\<lambda>key. case key of
                    VInt i \<Rightarrow> Inr (case resolve_index i (length items) of None \<Rightarrow> VNil | Some i \<Rightarrow> items ! i)
                  | _ \<Rightarrow> refused key)))
         | VHash _ entries \<Rightarrow> Some (single (\<lambda>key. Inr (nil_or (hash_get entries key))))
         | VType supervisor \<Rightarrow> Some (single (\<lambda>key. case key of VType agent \<Rightarrow> child supervisor agent | _ \<Rightarrow> refused key))
         | _ \<Rightarrow> Some (single refused))"

fun index_value :: "address \<Rightarrow> (rtext \<Rightarrow> rtext \<Rightarrow> error + val) \<Rightarrow> val \<Rightarrow> val list \<Rightarrow> (error + val) option" where
  "index_value at child (VTainted inner) index = map_option (map_sum id taint) (index_value at child inner index)"
| "index_value at child (VSecret _) index =
     Some (Inl (str ''SecretError'', str ''a secret cannot be indexed nor sliced: it serves whole (a header, a URL, a connection)''))"
| "index_value at child target index = index_plain at child target index"

subsection \<open>Writing at an index\<close>

definition int_digits :: "int \<Rightarrow> rtext" where
  "int_digits i = (if i < 0 then str ''-'' @ nat_digits (nat (- i)) else nat_digits (nat i))"

definition string_fixed :: error where
  "string_fixed = (str ''TypeError'',
     str ''a string cannot be changed in place: build a new one (`s = \"#{s[0]}z\"`)'')"

definition slice_fixed :: error where
  "slice_fixed = (str ''TypeError'', str ''a slice cannot be assigned: build a new array (`xs = [9] + xs[2..]`)'')"

text \<open>The target as it is after the assignment, at the same address.\<close>

definition index_set :: "val \<Rightarrow> val list \<Rightarrow> val \<Rightarrow> error + val" where
  "index_set target index v =
     (let slice = (length index = 2 \<or> (case index of [k] \<Rightarrow> (case untainted k of VRange _ _ _ \<Rightarrow> True | _ \<Rightarrow> False) | _ \<Rightarrow> False));
          refused = Inl (str ''TypeError'', str ''cannot assign an index on '' @ type_name target);
          assigned = (case index of
            [k] \<Rightarrow>
              (case target of
                 VArray p items \<Rightarrow>
                   (case untainted k of
                      VInt i \<Rightarrow>
                        (case array_set items i v of
                           None \<Rightarrow> Inl (str ''IndexError'', str ''index '' @ int_digits i @ str '' out of bounds'')
                         | Some items \<Rightarrow> Inr (VArray p items))
                    | _ \<Rightarrow> refused)
               | VHash p entries \<Rightarrow> Inr (VHash p (hash_set entries (untainted k) v))
               | _ \<Rightarrow> refused)
          | _ \<Rightarrow> Inl (str ''ArgumentError'', str ''expected a single index''))
      in case untainted target of
           VStr _ \<Rightarrow> Inl string_fixed
         | VArray _ _ \<Rightarrow> if slice then Inl slice_fixed else assigned
         | _ \<Rightarrow> assigned)"

end
