(* ===== verification/Index_Props.thy ===== *)
theory Index_Props
  imports Indexing Operator_Props
begin

text \<open>
  Slices stay within what they slice, what they are, and the one bound at which they go wrong; what
  is read back after an assignment.
\<close>

lemma start_of_le: "start_of len start = Some i \<Longrightarrow> i \<le> len"
  by (auto simp: start_of_def Let_def split: if_splits)

lemma clamp_between: "lo \<le> hi \<Longrightarrow> lo \<le> clamp n lo hi \<and> clamp n lo hi \<le> hi"
  by (simp add: clamp_def)

lemma range_bounds_within: "range_bounds len lo hi inclusive = Some (from', to') \<Longrightarrow> from' \<le> to' \<and> to' \<le> len"
proof -
  assume r: "range_bounds len lo hi inclusive = Some (from', to')"
  then obtain n where "start_of len lo = Some from'" "to' = nat (clamp n (int from') (int len))"
    by (auto simp: range_bounds_def Let_def split: option.splits)
  with start_of_le [of len lo from'] clamp_between [of "int from'" "int len" n] show ?thesis by auto
qed

lemma start_length_within: "start_length len start n = Some (from', to') \<Longrightarrow> len < 2 ^ 63 \<Longrightarrow> from' \<le> to' \<and> to' \<le> len"
  using start_of_le [of len start from'] by (auto simp: start_length_def split: option.splits if_splits)

text \<open>
  A slice of an array never panics, whatever integers select it, the extreme ones included:
  its bounds are in order and within the array.
\<close>

theorem slices_never_panic:
  assumes "length items < 2 ^ 63"
  shows "index_value at child (VArray p items) index \<noteq> None"
proof -
  have "slice_array at items bounds \<noteq> None" if "slice_bounds index (length items) = Inr (Some bounds)" for bounds
    using that range_bounds_within start_length_within assms
    by (fastforce simp: slice_bounds_def single_index_def slice_array_def
        split: list.splits val.splits option.splits)
  then show ?thesis by (auto simp: index_plain_def Let_def split: sum.splits option.splits)
qed

lemma slices_never_panic_witness:
  "index_value 9 (\<lambda>_ _. Inr VNil) (VArray 1 [VInt 1]) [VRange 0 (2 ^ 63 - 1) True] \<noteq> None"
  by (rule slices_never_panic) simp

text \<open>
  C34: A range selects from its start up to its end, clipped to the sequence, as in Ruby, except the
  inclusive range up to the greatest integer, which selects nothing instead of all the rest.
\<close>

theorem range_slices:
  assumes "in_i64 hi" and "len < 2 ^ 63" and "start_of len lo = Some from'"
  shows "range_bounds len lo hi inclusive =
    Some (from', if inclusive \<and> hi = i64_max then from'
                 else max from' (min len (nat ((if hi < 0 then hi + int len else hi) + of_bool inclusive))))"
proof -
  let ?hi = "if hi < 0 then hi + int len else hi"
  have from_le: "from' \<le> len" by (rule start_of_le [OF assms(3)])
  show ?thesis
  proof (cases "inclusive \<and> hi = i64_max")
    case True
    then have "wrap_i64 (?hi + of_bool inclusive) = - (2 ^ 63)" by (simp add: wrap_i64_def)
    with True from_le show ?thesis by (simp add: range_bounds_def assms(3) clamp_def)
  next
    case False
    have "in_i64 (?hi + of_bool inclusive)"
      using False assms(1,2) by (auto simp: in_i64_def of_bool_def)
    then have "wrap_i64 (?hi + of_bool inclusive) = ?hi + of_bool inclusive" by (rule wrap_in_i64)
    then have "range_bounds len lo hi inclusive = Some (from', nat (clamp (?hi + of_bool inclusive) (int from') (int len)))"
      by (simp add: range_bounds_def assms(3))
    moreover have "nat (clamp n (int from') (int len)) = max from' (min len (nat n))" for n
      using from_le by (auto simp: clamp_def)
    ultimately show ?thesis using False by auto
  qed
qed

lemma range_slices_witness:
  "range_bounds 3 0 (2 ^ 63 - 1) True = Some (0, 0) \<and> range_bounds 3 0 (2 ^ 63 - 2) True = Some (0, 3)"
proof -
  have start: "start_of 3 0 = Some 0" by (simp add: start_of_def)
  from range_slices [OF _ _ start, of "2 ^ 63 - 1" True] range_slices [OF _ _ start, of "2 ^ 63 - 2" True]
  show ?thesis by (simp add: in_i64_def)
qed

lemma hash_get_set: "equal key key \<Longrightarrow> hash_get (hash_set entries key v) key = Some v"
  by (induction entries key v rule: hash_set.induct) (auto simp: hash_get_def simp del: equal.simps)

lemma array_get_set:
  "array_set items i v = Some items' \<Longrightarrow> \<exists>j. resolve_index i (length items') = Some j \<and> items' ! j = v"
  by (auto simp: array_set_def resolve_index_def Let_def nth_append split: if_splits)

text \<open>
  What is assigned at an index of an array or at a key of a hash is what is read there next,
  also past the end of the array and from its end, for any key that equals itself.
\<close>

theorem assigned_is_read:
  assumes "index_set target [key] v = Inr target'" and "equal (untainted key) (untainted key)"
  shows "index_value at child target' [key] = Some (Inr v)"
proof -
  from assms(1) consider
    (array) p items i items' where "target = VArray p items" "untainted key = VInt i" "array_set items i v = Some items'"
      "target' = VArray p items'"
  | (hash) p entries where "target = VHash p entries" "target' = VHash p (hash_set entries (untainted key) v)"
  proof (cases target)
    case (VArray p items)
    with assms(1) array [of p items] show ?thesis
      by (cases "untainted key") (auto simp: index_set_def Let_def split: option.splits)
  next
    case (VHash p entries)
    with assms(1) hash [of p entries] show ?thesis by (simp add: index_set_def Let_def)
  next
    case (VTainted inner)
    with assms(1) show ?thesis by (auto simp: index_set_def Let_def split: val.splits if_splits)
  qed (use assms(1) in \<open>simp_all add: index_set_def Let_def\<close>)
  then show ?thesis
  proof cases
    case array
    from array_get_set [OF array(3)] obtain j where "resolve_index i (length items') = Some j" "items' ! j = v" by blast
    with array show ?thesis
      by (simp add: index_plain_def slice_bounds_def single_index_def Let_def)
  next
    case hash
    with assms(2) show ?thesis
      by (simp add: index_plain_def hash_get_set nil_or_def Let_def del: equal.simps)
  qed
qed

lemma assigned_is_read_witness:
  "index_value 0 (\<lambda>_ _. Inr VNil) (VArray 1 [VNil, VNil, VBool True]) [VInt (- 1)] = Some (Inr (VBool True))"
proof -
  have "index_set (VArray 1 [VNil, VNil, VInt 7]) [VInt (- 1)] (VBool True) = Inr (VArray 1 [VNil, VNil, VBool True])"
    by (simp add: index_set_def array_set_def resolve_index_def Let_def)
  from assigned_is_read [OF this] show ?thesis by simp
qed

end
