(* ===== verification/Native_Types.thy ===== *)
theory Native_Types
  imports Ast Rust_Split
begin

text \<open>
  The types of native code (grenat\_codegen: src/ty.rs, src/structs.rs), the walk over the expressions
  of a body (src/walk.rs) and the addresses by which the compiler's tables are keyed. A pointer to an
  expression is its address in the tree: the numbers of the children on the way to it, innermost
  first. Two nodes of a body have different addresses, as they have different pointers.
\<close>

subsection \<open>Types\<close>

datatype nelem = LInt | LFloat | LBool | LStr | LStruct nat | LUnknown

datatype nty = NInt | NFloat | NBool | NStr | NArray nelem | NStruct nat

fun is_heap :: "nty \<Rightarrow> bool" where
  "is_heap NStr = True"
| "is_heap (NArray e) = True"
| "is_heap (NStruct s) = True"
| "is_heap _ = False"

fun is_number :: "nty \<Rightarrow> bool" where
  "is_number NInt = True"
| "is_number NFloat = True"
| "is_number _ = False"

definition is_unknown :: "nty \<Rightarrow> bool" where
  "is_unknown t \<longleftrightarrow> t = NArray LUnknown"

fun elem_of :: "nty \<Rightarrow> nelem option" where
  "elem_of NInt = Some LInt"
| "elem_of NFloat = Some LFloat"
| "elem_of NBool = Some LBool"
| "elem_of NStr = Some LStr"
| "elem_of (NStruct s) = Some (LStruct s)"
| "elem_of (NArray e) = None"

fun elem_ty :: "nelem \<Rightarrow> nty option" where
  "elem_ty LInt = Some NInt"
| "elem_ty LFloat = Some NFloat"
| "elem_ty LBool = Some NBool"
| "elem_ty LStr = Some NStr"
| "elem_ty (LStruct s) = Some (NStruct s)"
| "elem_ty LUnknown = None"

fun is_array :: "nty \<Rightarrow> bool" where
  "is_array (NArray e) = True"
| "is_array _ = False"

subsection \<open>Structs\<close>

record struct_def =
  sd_name :: rtext
  sd_fields :: "(rtext \<times> nty) list"
  sd_methods :: "rtext set"

definition field_index :: "struct_def \<Rightarrow> rtext \<Rightarrow> nat option" where
  "field_index d name = position_of (\<lambda>(n, _). n = name) (sd_fields d)"

record structs =
  ss_defs :: "struct_def list"
  ss_by_name :: "rtext \<Rightarrow> nat option"

text \<open>The native type of an annotation.\<close>

fun native_ty :: "(rtext \<Rightarrow> nat option) \<Rightarrow> ty \<Rightarrow> nty option" where
  "native_ty by_name (TyNamed [name] args s) =
     (let n = id_name name
      in if args = [] then
           (if n = str ''Int'' then Some NInt
            else if n = str ''Float'' then Some NFloat
            else if n = str ''Bool'' then Some NBool
            else if n = str ''String'' then Some NStr
            else map_option NStruct (by_name n))
         else (case args of
                 [arg] \<Rightarrow>
                   if n = str ''Array'' then map_option NArray (Option.bind (native_ty by_name arg) elem_of) else None
               | _ \<Rightarrow> None))"
| "native_ty by_name _ = None"

definition show_ty :: "structs \<Rightarrow> nty \<Rightarrow> rtext" where
  "show_ty ss t =
     (let show_plain = (\<lambda>t. case t of
          NInt \<Rightarrow> str ''Int'' | NFloat \<Rightarrow> str ''Float'' | NBool \<Rightarrow> str ''Bool'' | NStr \<Rightarrow> str ''String''
        | NStruct i \<Rightarrow> sd_name (ss_defs ss ! i) | NArray _ \<Rightarrow> str ''Array'')
      in case t of
           NArray e \<Rightarrow>
             (case elem_ty e of Some t \<Rightarrow> str ''Array('' @ show_plain t @ str '')'' | None \<Rightarrow> str ''Array'')
         | t \<Rightarrow> show_plain t)"

definition show_elem :: "structs \<Rightarrow> nelem \<Rightarrow> rtext" where
  "show_elem ss e = (case elem_ty e of None \<Rightarrow> str ''?'' | Some t \<Rightarrow> show_ty ss t)"

subsection \<open>Addresses and children\<close>

type_synonym addr = "nat list"

text \<open>The children of a node at an address, each with its own: the lists of statements have one too.\<close>

definition numbered :: "addr \<Rightarrow> 'e list \<Rightarrow> (addr \<times> 'e) list" where
  "numbered a es = zip (map (\<lambda>i. i # a) [0..<length es]) es"

subsection \<open>The walk over the expressions of a body\<close>

text \<open>The expressions directly below one, as \<open>each\<close> goes through them.\<close>

fun seg_exprs :: "'e str_seg list \<Rightarrow> 'e list" where
  "seg_exprs [] = []"
| "seg_exprs (SegLit t # segs) = seg_exprs segs"
| "seg_exprs (SegInterp e # segs) = e # seg_exprs segs"

fun arg_exprs :: "'e arg list \<Rightarrow> 'e list" where
  "arg_exprs [] = []"
| "arg_exprs (APos e # args) = e # arg_exprs args"
| "arg_exprs (ABlockPass e # args) = e # arg_exprs args"
| "arg_exprs (ANamed n (Some e) # args) = e # arg_exprs args"
| "arg_exprs (ANamed n None # args) = arg_exprs args"

definition option_list :: "'a option \<Rightarrow> 'a list" where
  "option_list x = (case x of None \<Rightarrow> [] | Some y \<Rightarrow> [y])"

definition below :: "expr_kind \<Rightarrow> expr list" where
  "below k = (case k of
     EStr segs \<Rightarrow> seg_exprs segs
   | EArray items \<Rightarrow> items
   | EAssign target value \<Rightarrow> [target, value]
   | EOpAssign _ target value \<Rightarrow> [target, value]
   | EBinary _ l r \<Rightarrow> [l, r]
   | EUnary _ e \<Rightarrow> [e]
   | EIf cond thn els \<Rightarrow> cond # thn @ (case els of None \<Rightarrow> [] | Some es \<Rightarrow> es)
   | EWhile cond body \<Rightarrow> cond # body
   | EReturn value \<Rightarrow> option_list value
   | EIndex recv args \<Rightarrow> recv # args
   | ECall recv _ args blk _ _ \<Rightarrow>
       option_list recv @ arg_exprs args @ (case blk of None \<Rightarrow> [] | Some b \<Rightarrow> bd_stmts (bk_body b))
   | _ \<Rightarrow> [])"

lemma size_seg: "e \<in> set (seg_exprs segs) \<Longrightarrow> size e < Suc (size_list (size_str_seg size) segs)"
  by (induction segs rule: seg_exprs.induct) auto

lemma size_arg: "e \<in> set (arg_exprs args) \<Longrightarrow> size e < Suc (size_list (size_arg size) args)"
  by (induction args rule: arg_exprs.induct) auto

lemma size_item: "e \<in> set es \<Longrightarrow> size e < Suc (size_list size es)"
  by (induction es) auto

lemma size_block: "e \<in> set (bd_stmts (bk_body b)) \<Longrightarrow> size e < size_block size b"
proof -
  obtain ps stmts rs en s s' where "b = Block ps (Body stmts rs en s) s'"
    by (metis block.exhaust body.exhaust)
  then show "e \<in> set (bd_stmts (bk_body b)) \<Longrightarrow> size e < size_block size b"
    using size_item [of e stmts] by simp
qed

lemma size_ex_kind: "size (ex_kind e) < size e"
  by (cases e) simp

lemma size_below: "x \<in> set (below (ex_kind e)) \<Longrightarrow> size x < size e"
proof -
  have "x \<in> set (below k) \<Longrightarrow> size x < Suc (size k)" for k
    by (cases k)
      (auto simp: below_def option_list_def less_Suc_eq_le split: option.splits
        dest: size_seg size_arg size_item size_block)
  then show "x \<in> set (below (ex_kind e)) \<Longrightarrow> size x < size e"
    using size_ex_kind [of e] by fastforce
qed

text \<open>\<open>e\<close> reads or assigns the variable.\<close>

function mentions :: "expr \<Rightarrow> rtext \<Rightarrow> bool" where
  "mentions e name \<longleftrightarrow>
     (case ex_kind e of
        EVar n \<Rightarrow> n = name
      | ECall _ _ args _ _ _ \<Rightarrow> list_ex (\<lambda>a. case a of ANamed n None \<Rightarrow> id_name n = name | _ \<Rightarrow> False) args
      | _ \<Rightarrow> False) \<or> (\<exists>x \<in> set (below (ex_kind e)). mentions x name)"
  by auto
termination
  by (relation "measure (size \<circ> fst)") (auto dest: size_below)

declare mentions.simps [simp del]

text \<open>The literal pieces of the strings in a body.\<close>

fun seg_texts :: "'e str_seg list \<Rightarrow> rtext list" where
  "seg_texts [] = []"
| "seg_texts (SegLit t # segs) = t # seg_texts segs"
| "seg_texts (SegInterp e # segs) = seg_texts segs"

function expr_literals :: "expr \<Rightarrow> rtext list" where
  "expr_literals e =
     (case ex_kind e of EStr segs \<Rightarrow> seg_texts segs | _ \<Rightarrow> []) @
     concat (map expr_literals (below (ex_kind e)))"
  by auto
termination
  by (relation "measure size") (auto dest: size_below)

declare expr_literals.simps [simp del]

definition string_literals :: "expr list \<Rightarrow> rtext list" where
  "string_literals stmts = concat (map expr_literals stmts)"

end
