(* ===== verification/Infer.thy ===== *)
theory Infer
  imports Native_Types "HOL-Library.AList"
begin

text \<open>
  The typing of a function's body for native compilation (grenat\_codegen: src/infer/mod.rs, calls.rs,
  methods.rs, ops.rs). The state of \<open>Infer\<close> is passed along and a rejection ends it, with its
  reason. A node is typed with the typing of each of its children at hand (a \<open>child\<close>), in the order
  and as often as the code types them.
\<close>

subsection \<open>What typing finds\<close>

record signature =
  sg_params :: "nty list"
  sg_ret :: "nty option"

datatype target = Hosted | Standalone

datatype flow = FValue nty | FUnit | FNever

record construct =
  ct_id :: nat
  ct_fields :: "nat list"

datatype str_op =
  Upcase | Downcase | Reverse | Strip | Includes | Starts_With | Ends_With | To_I | To_F

datatype meth =
    MSame | MIntToF | MFloatToI | MIntAbs | MFloatAbs | MIntZero | MFloatZero | MEven | MOdd | MFloor
  | MCeil | MSqrt | MToS | MStrLength | MStrEmpty | MStr str_op | MCharAt | MLength | MEmpty | MFirst
  | MLast | MPop | MPush | MSum | MCopy | MAt | MTimes | MUpto | MEach | MEachWithIndex | MField nat
  | MPuts | MPrint | MInspect | MExit

record typed =
  tp_vars :: "rtext \<Rightarrow> nty option"
  tp_locals :: "(rtext \<times> nty) list"
  tp_types :: "(addr \<times> flow) list"
  tp_methods :: "addr \<Rightarrow> meth option"
  tp_constructs :: "addr \<Rightarrow> construct option"
  tp_blocks :: "addr \<Rightarrow> rtext list option"
  tp_mutates :: bool
  tp_calls :: "rtext set"

definition typed_default :: typed where
  "typed_default = \<lparr>tp_vars = Map.empty, tp_locals = [], tp_types = [], tp_methods = Map.empty,
     tp_constructs = Map.empty, tp_blocks = Map.empty, tp_mutates = False, tp_calls = {}\<rparr>"

text \<open>The type of an expression, from a table that is searched by address.\<close>

definition flow_at :: "typed \<Rightarrow> addr \<Rightarrow> flow option" where
  "flow_at tp a = map_of (tp_types tp) a"

definition ty_at :: "typed \<Rightarrow> addr \<Rightarrow> nty option" where
  "ty_at tp a = (case flow_at tp a of Some (FValue t) \<Rightarrow> Some t | _ \<Rightarrow> None)"

definition is_heap_var :: "typed \<Rightarrow> rtext \<Rightarrow> bool" where
  "is_heap_var tp name \<longleftrightarrow> (case tp_vars tp name of None \<Rightarrow> False | Some t \<Rightarrow> is_heap t)"

text \<open>What stays the same while a body is typed, and what changes.\<close>

record infer_cx =
  ix_sigs :: "rtext \<Rightarrow> signature option"
  ix_structs :: structs
  ix_ret :: "nty option"
  ix_target :: target
  ix_seed :: "rtext \<Rightarrow> nty option"
  ix_env :: std_env

record infer_st =
  is_assigned :: "rtext set"
  is_outer :: "rtext set"
  is_typed :: typed

type_synonym reject = rtext

type_synonym 'a inf = "infer_st \<Rightarrow> reject + ('a \<times> infer_st)"

type_synonym child = "expr \<times> addr \<times> (nty option \<Rightarrow> flow inf)"

definition accept :: "'a \<Rightarrow> 'a inf" where
  "accept x st = Inr (x, st)"

definition refuse :: "reject \<Rightarrow> 'a inf" where
  "refuse why st = Inl why"

definition bindI :: "'a inf \<Rightarrow> ('a \<Rightarrow> 'b inf) \<Rightarrow> 'b inf" where
  "bindI m f st = (case m st of Inl why \<Rightarrow> Inl why | Inr (x, st') \<Rightarrow> f x st')"

definition map_typed :: "(typed \<Rightarrow> typed) \<Rightarrow> unit inf" where
  "map_typed f st = Inr ((), st\<lparr>is_typed := f (is_typed st)\<rparr>)"

definition set_type :: "addr \<Rightarrow> flow \<Rightarrow> unit inf" where
  "set_type a fl = map_typed (\<lambda>tp. tp\<lparr>tp_types := AList.update a fl (tp_types tp)\<rparr>)"

definition set_method :: "addr \<Rightarrow> meth \<Rightarrow> unit inf" where
  "set_method a m = map_typed (\<lambda>tp. tp\<lparr>tp_methods := (tp_methods tp)(a \<mapsto> m)\<rparr>)"

definition set_mutates :: "unit inf" where
  "set_mutates = map_typed (\<lambda>tp. tp\<lparr>tp_mutates := True\<rparr>)"

fun eachI :: "('a \<Rightarrow> unit inf) \<Rightarrow> 'a list \<Rightarrow> unit inf" where
  "eachI f [] = accept ()"
| "eachI f (x # xs) = bindI (f x) (\<lambda>_. eachI f xs)"

definition cx_show :: "infer_cx \<Rightarrow> nty \<Rightarrow> rtext" where
  "cx_show cx t = show_ty (ix_structs cx) t"

definition tick :: "rtext \<Rightarrow> rtext" where
  "tick s = str ''`'' @ s @ str ''`''"

subsection \<open>Values and statements\<close>

fun stmts_from :: "flow \<Rightarrow> child list \<Rightarrow> nty option \<Rightarrow> flow inf" where
  "stmts_from prev [] expected = accept prev"
| "stmts_from prev ((e, a, run) # cs) expected =
     (if prev = FNever then refuse (str ''has unreachable code after `return`'')
      else bindI (run (if cs = [] then expected else None)) (\<lambda>fl. stmts_from fl cs expected))"

definition infer_stmts :: "child list \<Rightarrow> nty option \<Rightarrow> flow inf" where
  "infer_stmts = stmts_from FUnit"

definition value_of :: "child \<Rightarrow> nty option \<Rightarrow> nty inf" where
  "value_of c expected = (case c of (e, a, run) \<Rightarrow>
     bindI (run expected) (\<lambda>fl. case fl of
       FValue t \<Rightarrow> accept t
     | _ \<Rightarrow> refuse (str ''uses a statement where a value is expected'')))"

subsection \<open>Locals\<close>

definition bind_local :: "infer_cx \<Rightarrow> rtext \<Rightarrow> nty \<Rightarrow> unit inf" where
  "bind_local cx name t = (\<lambda>st.
     let tp = is_typed st;
         assigned = (\<lambda>tp. Inr ((), st\<lparr>is_assigned := insert name (is_assigned st), is_typed := tp\<rparr>))
     in case tp_vars tp name of
          None \<Rightarrow> assigned (tp\<lparr>tp_vars := (tp_vars tp)(name \<mapsto> t), tp_locals := tp_locals tp @ [(name, t)]\<rparr>)
        | Some existing \<Rightarrow>
            if existing = t \<or> is_unknown t \<and> is_array existing then assigned tp
            else if is_unknown existing \<and> is_array t then
              assigned (tp\<lparr>tp_vars := (tp_vars tp)(name \<mapsto> t),
                tp_locals := (case position_of (\<lambda>(n, _). n = name) (tp_locals tp) of
                   None \<Rightarrow> tp_locals tp | Some i \<Rightarrow> (tp_locals tp)[i := (name, t)])\<rparr>)
            else Inl (str ''changes the type of '' @ tick name @ str '' from '' @ tick (cx_show cx existing) @
                   str '' to '' @ tick (cx_show cx t)))"

definition define_local :: "infer_cx \<Rightarrow> rtext \<Rightarrow> nty \<Rightarrow> unit inf" where
  "define_local cx name t st = bind_local cx name t (st\<lparr>is_outer := insert name (is_outer st)\<rparr>)"

definition read_local :: "infer_cx \<Rightarrow> rtext \<Rightarrow> nty inf" where
  "read_local cx name = (\<lambda>st.
     case tp_vars (is_typed st) name of
       Some t \<Rightarrow> if name \<in> is_assigned st then Inr (t, st)
                else Inl (str ''may read '' @ tick name @ str '' before assigning it'')
     | None \<Rightarrow> if ix_sigs cx name \<noteq> None then Inl (str ''calls '' @ tick name @ str '' without parentheses'')
               else Inl (str ''reads '' @ tick name @ str '', which is not a local variable''))"

definition declared :: "infer_cx \<Rightarrow> rtext \<Rightarrow> infer_st \<Rightarrow> nty option" where
  "declared cx name st = (case tp_vars (is_typed st) name of Some t \<Rightarrow> Some t | None \<Rightarrow> ix_seed cx name)"

definition expect_ty :: "infer_cx \<Rightarrow> expr \<Rightarrow> nty \<Rightarrow> nty \<Rightarrow> rtext \<Rightarrow> unit inf" where
  "expect_ty cx e actual expected what =
     (if actual = expected then accept ()
      else if is_unknown actual \<and> is_array expected then
        (case ex_kind e of EVar name \<Rightarrow> define_local cx name expected | _ \<Rightarrow> accept ())
      else refuse (what @ str '' '' @ tick (cx_show cx actual) @ str '' instead of '' @ tick (cx_show cx expected)))"

definition store_elem :: "infer_cx \<Rightarrow> expr \<Rightarrow> nelem \<Rightarrow> nty \<Rightarrow> unit inf" where
  "store_elem cx recv array item = (case elem_of item of
     None \<Rightarrow> refuse (str ''puts an array inside an array'')
   | Some e \<Rightarrow>
       if array = LUnknown then expect_ty cx recv (NArray LUnknown) (NArray e) (str ''stores'')
       else if array = e then accept ()
       else refuse (str ''stores '' @ tick (cx_show cx item) @ str '' in an array of '' @
              tick (show_elem (ix_structs cx) array)))"

definition condition :: "infer_cx \<Rightarrow> child \<Rightarrow> unit inf" where
  "condition cx c = bindI (value_of c None) (\<lambda>t.
     if t = NBool then accept () else refuse (str ''uses '' @ tick (cx_show cx t) @ str '' as a condition''))"

text \<open>What a loop's body assigns is not certain afterwards.\<close>

definition loop_body :: "unit inf \<Rightarrow> unit inf" where
  "loop_body body st = (case body st of
     Inl why \<Rightarrow> Inl why
   | Inr (_, st') \<Rightarrow> Inr ((), st'\<lparr>is_assigned := is_assigned st\<rparr>))"

definition if_flow :: "flow \<Rightarrow> flow \<Rightarrow> bool \<Rightarrow> flow" where
  "if_flow thn els both =
     (if \<not> both then FUnit
      else case (thn, els) of
        (FValue a, FValue b) \<Rightarrow>
          if a = b then FValue a
          else if is_unknown a \<and> is_array b then FValue b
          else if is_unknown b \<and> is_array a then FValue a
          else FUnit
      | (FValue a, FNever) \<Rightarrow> FValue a
      | (FNever, FValue a) \<Rightarrow> FValue a
      | (FNever, FNever) \<Rightarrow> FNever
      | _ \<Rightarrow> FUnit)"

definition if_assigned :: "flow \<Rightarrow> flow \<Rightarrow> rtext set \<Rightarrow> rtext set \<Rightarrow> rtext set" where
  "if_assigned thn els after_then after_else =
     (if thn = FNever then (if els = FNever then after_then else after_else)
      else if els = FNever then after_then else after_then \<inter> after_else)"

definition infer_if :: "infer_cx \<Rightarrow> child \<Rightarrow> child list \<Rightarrow> child list option \<Rightarrow> nty option \<Rightarrow> flow inf" where
  "infer_if cx cond thn els expected = bindI (condition cx cond) (\<lambda>_ st.
     case infer_stmts thn expected st of
       Inl why \<Rightarrow> Inl why
     | Inr (then_flow, st1) \<Rightarrow>
         (case (case els of
                  None \<Rightarrow> accept FUnit
                | Some cs \<Rightarrow> infer_stmts cs expected) (st1\<lparr>is_assigned := is_assigned st\<rparr>) of
            Inl why \<Rightarrow> Inl why
          | Inr (else_flow, st2) \<Rightarrow>
              Inr (if_flow then_flow else_flow (els \<noteq> None),
                   st2\<lparr>is_assigned := if_assigned then_flow else_flow (is_assigned st1) (is_assigned st2)\<rparr>)))"

subsection \<open>Blocks\<close>

definition bind_params :: "infer_cx \<Rightarrow> (rtext \<times> nty) list \<Rightarrow> unit inf" where
  "bind_params cx ps = eachI (\<lambda>(name, t) st.
     if name \<in> is_outer st
     then Inl (str ''names a block parameter '' @ tick name @ str '' like a variable of the function'')
     else bind_local cx name t st) ps"

text \<open>An inlined block, with the typing of its statements.\<close>

definition infer_block :: "infer_cx \<Rightarrow> addr \<Rightarrow> expr block \<Rightarrow> child list \<Rightarrow> nty list \<Rightarrow> unit inf" where
  "infer_block cx a b cs params =
     (let names = map (\<lambda>p. id_name (pm_name p)) (bk_params b)
      in if bd_rescues (bk_body b) \<noteq> [] \<or> bd_ensure (bk_body b) \<noteq> None then
           refuse (str ''uses `rescue`/`ensure` in a block'')
         else if length names \<noteq> length params then
           refuse (str ''gives a block '' @ nat_digits (length names) @ str '' parameter(s) instead of '' @
             nat_digits (length params))
         else bindI (bind_params cx (zip names params)) (\<lambda>_.
              bindI (loop_body (bindI (infer_stmts cs None) (\<lambda>fl.
                if fl = FNever then refuse (str ''returns from inside a block'') else accept ()))) (\<lambda>_ st.
              Inr ((), st\<lparr>is_assigned := is_assigned st - set names,
                is_typed := (is_typed st)\<lparr>tp_blocks := (tp_blocks (is_typed st))(a \<mapsto> names)\<rparr>\<rparr>))))"


subsection \<open>Literals, assignments and operators\<close>

definition infer_string :: "infer_cx \<Rightarrow> child list \<Rightarrow> nty inf" where
  "infer_string cx pieces = bindI (eachI (\<lambda>c. bindI (value_of c None) (\<lambda>t.
     if t \<in> {NInt, NFloat, NBool, NStr} then accept ()
     else refuse (str ''interpolates a '' @ tick (cx_show cx t)))) pieces) (\<lambda>_. accept NStr)"

definition infer_array :: "infer_cx \<Rightarrow> child list \<Rightarrow> nty option \<Rightarrow> nty inf" where
  "infer_array cx items expected =
     (let wanted = (case expected of Some (NArray e) \<Rightarrow> Some e | _ \<Rightarrow> None)
      in case items of
           [] \<Rightarrow> accept (NArray (case wanted of None \<Rightarrow> LUnknown | Some e \<Rightarrow> e))
         | first # rest \<Rightarrow>
             bindI (value_of first (Option.bind wanted elem_ty)) (\<lambda>t.
             case elem_of t of
               None \<Rightarrow> refuse (str ''puts an array inside an array'')
             | Some e \<Rightarrow>
                 bindI (eachI (\<lambda>c. bindI (value_of c (Some t)) (\<lambda>other.
                   if other = t then accept ()
                   else refuse (str ''mixes '' @ tick (cx_show cx t) @ str '' and '' @ tick (cx_show cx other) @
                          str '' in an array''))) rest) (\<lambda>_. accept (NArray e))))"

definition element_target :: "infer_cx \<Rightarrow> child \<Rightarrow> child list \<Rightarrow> nelem inf" where
  "element_target cx recv args = bindI (value_of recv None) (\<lambda>t.
     case t of
       NArray e \<Rightarrow>
         (case args of
            [index] \<Rightarrow> bindI (value_of index None) (\<lambda>i.
              if i = NInt then accept e else refuse (str ''indexes an array with a '' @ tick (cx_show cx i)))
          | _ \<Rightarrow> refuse (str ''indexes with several values''))
     | t \<Rightarrow> refuse (str ''assigns an element of a '' @ tick (cx_show cx t)))"

text \<open>The target of an assignment, taken apart: a variable, an element, or neither.\<close>

datatype target_of =
  Var_Target rtext
| Index_Target child "child list"
| Call_Target
| Other_Target

definition assigned_flow :: "nty \<Rightarrow> flow" where
  "assigned_flow t = (if is_heap t then FUnit else FValue t)"

definition infer_assign :: "infer_cx \<Rightarrow> target_of \<Rightarrow> child \<Rightarrow> flow inf" where
  "infer_assign cx tg v = (case tg of
     Var_Target name \<Rightarrow> (\<lambda>st.
       bindI (value_of v (declared cx name st)) (\<lambda>t.
       bindI (define_local cx name t) (\<lambda>_. accept (assigned_flow t))) st)
   | Index_Target recv args \<Rightarrow>
       bindI (value_of v None) (\<lambda>item.
       bindI (element_target cx recv args) (\<lambda>e.
       bindI (store_elem cx (fst recv) e item) (\<lambda>_.
       bindI set_mutates (\<lambda>_. accept FUnit))))
   | Call_Target \<Rightarrow> refuse (str ''assigns an attribute'')
   | Other_Target \<Rightarrow> refuse (str ''assigns something other than a variable or an element''))"

definition binary_types :: "infer_cx \<Rightarrow> binop \<Rightarrow> nty \<Rightarrow> nty \<Rightarrow> nty inf" where
  "binary_types cx op l r =
     (let numbers = is_number l \<and> is_number r;
          other = (if op = OpPow then refuse (str ''uses `**`'')
            else if op \<in> {OpShl, OpShr} then refuse (str ''uses a bit shift'')
            else if op \<in> {OpEq, OpNotEq} \<and> is_heap l \<and> is_heap r then
              refuse (str ''compares a '' @ tick (cx_show cx l) @ str '' and a '' @ tick (cx_show cx r))
            else refuse (str ''applies an operator to '' @ tick (cx_show cx l) @ str '' and '' @ tick (cx_show cx r)))
      in if op \<in> {OpAdd, OpSub, OpMul, OpDiv, OpRem} \<and> l = NInt \<and> r = NInt then accept NInt
         else if op = OpRem \<and> numbers then refuse (str ''uses `%` on a `Float`'')
         else if op \<in> {OpAdd, OpSub, OpMul, OpDiv} \<and> numbers then accept NFloat
         else if op \<in> {OpLt, OpLe, OpGt, OpGe, OpEq, OpNotEq} \<and> numbers then accept NBool
         else if op = OpCmp \<and> numbers then accept NInt
         else if op \<in> {OpEq, OpNotEq, OpAnd, OpOr} \<and> l = NBool \<and> r = NBool then accept NBool
         else if op \<in> {OpBitAnd, OpBitOr, OpBitXor} \<and> l = NInt \<and> r = NInt then accept NInt
         else if op = OpAdd \<and> l = NStr \<and> r = NStr then accept NStr
         else if op = OpMul \<and> l = NStr \<and> r = NInt then accept NStr
         else if op \<in> {OpEq, OpNotEq, OpLt, OpLe, OpGt, OpGe} \<and> l = NStr \<and> r = NStr then accept NBool
         else if op = OpCmp \<and> l = NStr \<and> r = NStr then accept NInt
         else if op = OpAdd \<and> is_array l \<and> is_array r \<and> (l = r \<or> is_unknown r) then accept l
         else if op = OpAdd \<and> is_unknown l \<and> is_array r then accept r
         else other)"

fun is_pure :: "expr \<Rightarrow> bool" where
  "is_pure (Expr k s) = (case k of
     EInt _ \<Rightarrow> True
   | EFloat _ \<Rightarrow> True
   | EBool _ \<Rightarrow> True
   | EVar _ \<Rightarrow> True
   | EUnary _ e \<Rightarrow> is_pure e
   | EBinary _ l r \<Rightarrow> is_pure l \<and> is_pure r
   | _ \<Rightarrow> False)"

definition is_var_expr :: "expr \<Rightarrow> bool" where
  "is_var_expr e = (case ex_kind e of EVar _ \<Rightarrow> True | _ \<Rightarrow> False)"

text \<open>\<open>ta\<close>: the address of the target.\<close>

definition infer_op_assign :: "infer_cx \<Rightarrow> binop \<Rightarrow> addr \<Rightarrow> target_of \<Rightarrow> child \<Rightarrow> flow inf" where
  "infer_op_assign cx op ta tg v =
     (if op \<in> {OpAnd, OpOr} then refuse (str ''uses `||=` or `&&=`'')
      else case tg of
        Var_Target name \<Rightarrow>
          bindI (read_local cx name) (\<lambda>current.
          bindI (set_type ta (FValue current)) (\<lambda>_.
          bindI (value_of v None) (\<lambda>rhs.
          bindI (binary_types cx op current rhs) (\<lambda>t.
          bindI (define_local cx name t) (\<lambda>_. accept (assigned_flow t))))))
      | Index_Target recv args \<Rightarrow>
          (if \<not> is_var_expr (fst recv) \<or> \<not> list_all (\<lambda>c. is_pure (fst c)) args then
             refuse (str ''updates an element whose array or index is computed'')
           else
             bindI (element_target cx recv args) (\<lambda>e.
             case elem_ty e of
               None \<Rightarrow> refuse (str ''updates an element of `[]`'')
             | Some current \<Rightarrow>
                 bindI (set_type ta (FValue current)) (\<lambda>_.
                 bindI (value_of v None) (\<lambda>rhs.
                 bindI (binary_types cx op current rhs) (\<lambda>t.
                 bindI (store_elem cx (fst recv) e t) (\<lambda>_.
                 bindI set_mutates (\<lambda>_. accept FUnit)))))))
      | _ \<Rightarrow> refuse (str ''updates something other than a variable or an element''))"

definition infer_binary :: "infer_cx \<Rightarrow> binop \<Rightarrow> child \<Rightarrow> child \<Rightarrow> flow inf" where
  "infer_binary cx op lhs rhs = bindI (value_of lhs None) (\<lambda>l.
     case (op, l) of
       (OpShl, NArray e) \<Rightarrow>
         bindI (value_of rhs (elem_ty e)) (\<lambda>item.
         bindI (store_elem cx (fst lhs) e item) (\<lambda>_.
         bindI set_mutates (\<lambda>_. accept FUnit)))
     | _ \<Rightarrow>
         bindI (value_of rhs (if is_array l then Some l else None)) (\<lambda>r.
         bindI (binary_types cx op l r) (\<lambda>t. accept (FValue t))))"

definition infer_unary :: "infer_cx \<Rightarrow> unop \<Rightarrow> child \<Rightarrow> nty inf" where
  "infer_unary cx op c = bindI (value_of c None) (\<lambda>t.
     if op = UNeg \<and> is_number t \<or> op = UNot \<and> t = NBool then accept t
     else if op = UNot then refuse (str ''applies `!` to a '' @ tick (cx_show cx t))
     else refuse (str ''negates a '' @ tick (cx_show cx t)))"

definition infer_return :: "infer_cx \<Rightarrow> child option \<Rightarrow> flow inf" where
  "infer_return cx v = bindI
     (case (v, ix_ret cx) of
        (Some c, Some r) \<Rightarrow> bindI (value_of c (Some r)) (\<lambda>t. expect_ty cx (fst c) t r (str ''returns''))
      | (None, Some _) \<Rightarrow> refuse (str ''returns nothing'')
      | (Some (e, a, run), None) \<Rightarrow> bindI (run None) (\<lambda>_. accept ())
      | (None, None) \<Rightarrow> accept ())
     (\<lambda>_. accept FNever)"


subsection \<open>Methods\<close>

text \<open>Positional arguments only.\<close>

fun positional :: "rtext \<Rightarrow> 'c arg list \<Rightarrow> reject + 'c list" where
  "positional what [] = Inr []"
| "positional what (APos c # args) = map_sum id ((#) c) (positional what args)"
| "positional what (_ # args) = Inl (str ''calls '' @ tick what @ str '' with named or block arguments'')"

definition lift_inf :: "reject + 'a \<Rightarrow> 'a inf" where
  "lift_inf r = (case r of Inl why \<Rightarrow> refuse why | Inr x \<Rightarrow> accept x)"

text \<open>A method without arguments whose resolution needs nothing but the type and the name.\<close>

definition simple_methods :: "nty \<Rightarrow> (rtext list \<times> meth \<times> nty) list" where
  "simple_methods t = (case t of
     NInt \<Rightarrow>
       [(map str [''to_i'', ''round'', ''floor'', ''ceil''], MSame, NInt), ([str ''to_f''], MIntToF, NFloat),
        ([str ''abs''], MIntAbs, NInt), ([str ''zero?''], MIntZero, NBool), ([str ''even?''], MEven, NBool),
        ([str ''odd?''], MOdd, NBool), ([str ''to_s''], MToS, NStr)]
   | NFloat \<Rightarrow>
       [([str ''to_f''], MSame, NFloat), ([str ''to_i''], MFloatToI, NInt), ([str ''abs''], MFloatAbs, NFloat),
        ([str ''zero?''], MFloatZero, NBool), ([str ''floor''], MFloor, NInt), ([str ''ceil''], MCeil, NInt),
        ([str ''to_s''], MToS, NStr)]
   | NBool \<Rightarrow> [([str ''to_s''], MToS, NStr)]
   | NStr \<Rightarrow>
       [([str ''to_s''], MSame, NStr), (map str [''length'', ''size''], MStrLength, NInt),
        ([str ''empty?''], MStrEmpty, NBool), ([str ''upcase''], MStr Upcase, NStr),
        ([str ''downcase''], MStr Downcase, NStr), ([str ''reverse''], MStr Reverse, NStr),
        ([str ''strip''], MStr Strip, NStr), ([str ''to_i''], MStr To_I, NInt), ([str ''to_f''], MStr To_F, NFloat)]
   | NArray e \<Rightarrow>
       [(map str [''length'', ''size'', ''count''], MLength, NInt), ([str ''empty?''], MEmpty, NBool)] @
       (if e = LInt then [([str ''sum''], MSum, NInt)] else if e = LFloat then [([str ''sum''], MSum, NFloat)] else []) @
       [(map str [''dup'', ''to_a''], MCopy, NArray e)]
   | NStruct _ \<Rightarrow> [])"

definition element_method :: "rtext \<Rightarrow> meth option" where
  "element_method name =
     (if name = str ''first'' then Some MFirst
      else if name = str ''last'' then Some MLast
      else if name = str ''pop'' then Some MPop
      else None)"

definition not_called :: "infer_cx \<Rightarrow> nty \<Rightarrow> rtext \<Rightarrow> rtext \<Rightarrow> reject" where
  "not_called cx t name rest = str ''calls '' @ tick (cx_show cx t @ str ''.'' @ name) @ rest"

definition method_with_arg :: "infer_cx \<Rightarrow> expr \<Rightarrow> nty \<Rightarrow> rtext \<Rightarrow> child \<Rightarrow> (meth \<times> nty option) inf" where
  "method_with_arg cx recv t name arg =
     (let with_text = (\<lambda>op. bindI (value_of arg None) (\<lambda>other.
            if other = NStr then accept (MStr op, Some NBool)
            else refuse (str ''calls `String.'' @ name @ str ''` with a '' @ tick (cx_show cx other))))
      in if t = NStr \<and> name = str ''include?'' then with_text Includes
         else if t = NStr \<and> name = str ''start_with?'' then with_text Starts_With
         else if t = NStr \<and> name = str ''end_with?'' then with_text Ends_With
         else case t of
           NArray e \<Rightarrow>
             if name = str ''push'' \<or> name = str ''append'' then
               bindI (value_of arg (elem_ty e)) (\<lambda>item.
               bindI (store_elem cx recv e item) (\<lambda>_.
               bindI set_mutates (\<lambda>_. accept (MPush, None))))
             else refuse (not_called cx t name (str '' with an argument''))
         | _ \<Rightarrow> refuse (not_called cx t name (str '' with an argument'')))"

definition method_alone :: "infer_cx \<Rightarrow> nty \<Rightarrow> rtext \<Rightarrow> (meth \<times> nty option) inf" where
  "method_alone cx t name =
     (case find (\<lambda>(names, _). name \<in> set names) (simple_methods t) of
        Some (_, m, r) \<Rightarrow> accept (m, Some r)
      | None \<Rightarrow>
          (case t of
             NArray e \<Rightarrow>
               (case element_method name of
                  None \<Rightarrow> refuse (not_called cx t name [])
                | Some m \<Rightarrow>
                    bindI (if m = MPop then set_mutates else accept ()) (\<lambda>_.
                    case elem_ty e of
                      None \<Rightarrow> refuse (str ''calls '' @ tick name @ str '' on `[]`'')
                    | Some r \<Rightarrow> accept (m, Some r)))
           | NStruct i \<Rightarrow>
               (let d = ss_defs (ix_structs cx) ! i
                in case field_index d name of
                     Some f \<Rightarrow>
                       if name \<in> sd_methods d then refuse (str ''calls '' @ tick (sd_name d @ str ''.'' @ name))
                       else accept (MField f, Some (snd (sd_fields d ! f)))
                   | None \<Rightarrow> refuse (str ''calls '' @ tick (sd_name d @ str ''.'' @ name)))
           | _ \<Rightarrow> refuse (not_called cx t name [])))"

definition plain_method :: "infer_cx \<Rightarrow> expr \<Rightarrow> nty \<Rightarrow> rtext \<Rightarrow> child list \<Rightarrow> (meth \<times> nty option) inf" where
  "plain_method cx recv t name args = (case args of
     [arg] \<Rightarrow> method_with_arg cx recv t name arg
   | [] \<Rightarrow> method_alone cx t name
   | _ \<Rightarrow> refuse (str ''calls '' @ tick name @ str '' with '' @ nat_digits (length args) @ str '' arguments''))"

text \<open>The parameters that a looping method gives its block.\<close>

definition loop_params :: "infer_cx \<Rightarrow> nty \<Rightarrow> rtext \<Rightarrow> child list \<Rightarrow> (meth \<times> nty list) inf" where
  "loop_params cx t name args =
     (let unknown = refuse (not_called cx t name (str '' with a block''));
          items = (\<lambda>m e rest. case elem_ty e of
            None \<Rightarrow> refuse (str ''iterates over `[]`'')
          | Some x \<Rightarrow> accept (m, x # rest))
      in case (t, args) of
           (NInt, []) \<Rightarrow> if name = str ''times'' then accept (MTimes, [NInt]) else unknown
         | (NInt, [bound]) \<Rightarrow>
             if name = str ''upto'' then
               bindI (value_of bound None) (\<lambda>b.
                 if b = NInt then accept (MUpto, [NInt]) else refuse (str ''calls `upto` with a non-`Int` bound''))
             else unknown
         | (NArray e, []) \<Rightarrow>
             if name = str ''each'' then items MEach e []
             else if name = str ''each_with_index'' then items MEachWithIndex e [NInt]
             else unknown
         | _ \<Rightarrow> unknown)"

definition block_method :: "infer_cx \<Rightarrow> addr \<Rightarrow> nty \<Rightarrow> rtext \<Rightarrow> child arg list \<Rightarrow> expr block \<Rightarrow> child list \<Rightarrow> meth inf" where
  "block_method cx a t name args b cs =
     bindI (lift_inf (positional name args)) (\<lambda>args.
     bindI (loop_params cx t name args) (\<lambda>(m, params).
     bindI (infer_block cx a b cs params) (\<lambda>_. accept m)))"

definition infer_method ::
  "infer_cx \<Rightarrow> addr \<Rightarrow> child \<Rightarrow> rtext \<Rightarrow> child arg list \<Rightarrow> (expr block \<times> child list) option \<Rightarrow> flow inf" where
  "infer_method cx a recv name args blk =
     bindI (value_of recv None) (\<lambda>t.
     bindI (case blk of
         Some (b, cs) \<Rightarrow> bindI (block_method cx a t name args b cs) (\<lambda>m. accept (m, FUnit))
       | None \<Rightarrow>
           bindI (lift_inf (positional name args)) (\<lambda>args.
           bindI (plain_method cx (fst recv) t name args) (\<lambda>(m, r).
           accept (m, case r of None \<Rightarrow> FUnit | Some r \<Rightarrow> FValue r)))) (\<lambda>(m, fl).
     bindI (set_method a m) (\<lambda>_. accept fl)))"

definition infer_index :: "infer_cx \<Rightarrow> addr \<Rightarrow> child \<Rightarrow> child list \<Rightarrow> nty inf" where
  "infer_index cx a recv args =
     bindI (value_of recv None) (\<lambda>t.
     case args of
       [index] \<Rightarrow>
         bindI (value_of index None) (\<lambda>i.
         if i \<noteq> NInt then refuse (str ''indexes with a '' @ tick (cx_show cx i))
         else bindI (case t of
                NArray e \<Rightarrow> (case elem_ty e of None \<Rightarrow> refuse (str ''indexes `[]`'') | Some r \<Rightarrow> accept (MAt, r))
              | NStr \<Rightarrow> accept (MCharAt, NStr)
              | t \<Rightarrow> refuse (str ''indexes a '' @ tick (cx_show cx t))) (\<lambda>(m, r).
              bindI (set_method a m) (\<lambda>_. accept r)))
     | _ \<Rightarrow> refuse (str ''indexes with several values''))"

definition infer_sqrt :: "infer_cx \<Rightarrow> addr \<Rightarrow> addr \<Rightarrow> child arg list \<Rightarrow> flow inf" where
  "infer_sqrt cx a recv_at args = (case args of
     [APos arg] \<Rightarrow>
       bindI (value_of arg None) (\<lambda>t.
       if \<not> is_number t then refuse (str ''takes the square root of a '' @ tick (cx_show cx t))
       else bindI (set_type recv_at FUnit) (\<lambda>_.
            bindI (set_method a MSqrt) (\<lambda>_. accept (FValue NFloat))))
   | _ \<Rightarrow> refuse (str ''calls `Math.sqrt` with bad arguments''))"

definition constant_name :: "expr \<Rightarrow> rtext option" where
  "constant_name e = (case ex_kind e of EConst [name] \<Rightarrow> Some (id_name name) | _ \<Rightarrow> None)"


subsection \<open>Calls\<close>

definition infer_function :: "infer_cx \<Rightarrow> rtext \<Rightarrow> child arg list \<Rightarrow> flow inf" where
  "infer_function cx name args = (case ix_sigs cx name of
     None \<Rightarrow> refuse (str ''calls '' @ tick name @ str '', which is not compiled'')
   | Some sg \<Rightarrow>
       bindI (map_typed (\<lambda>tp. tp\<lparr>tp_calls := insert name (tp_calls tp)\<rparr>)) (\<lambda>_.
       if length args \<noteq> length (sg_params sg) then
         refuse (str ''calls '' @ tick name @ str '' with default or missing arguments'')
       else
         bindI (lift_inf (positional name args)) (\<lambda>cs.
         bindI (eachI (\<lambda>(c, expected). bindI (value_of c (Some expected)) (\<lambda>t st.
           case expect_ty cx (fst c) t expected (str ''passes'') st of
             Inl _ \<Rightarrow> Inl (str ''passes '' @ tick (cx_show cx t) @ str '' where '' @ tick name @ str '' expects '' @
               tick (cx_show cx expected))
           | Inr r \<Rightarrow> Inr r)) (zip cs (sg_params sg))) (\<lambda>_.
         accept (case sg_ret sg of None \<Rightarrow> FUnit | Some r \<Rightarrow> FValue r)))))"

definition is_builtin :: "infer_cx \<Rightarrow> typed \<Rightarrow> rtext \<Rightarrow> bool" where
  "is_builtin cx tp name \<longleftrightarrow>
     ix_target cx = Standalone \<and> name \<in> set (map str [''puts'', ''print'', ''p'', ''exit'']) \<and>
     ix_sigs cx name = None \<and> tp_vars tp name = None"

text \<open>
  Whether a type is printed as the interpreter prints it. Structs do not contain themselves
  (\<open>is_native\<close>), so that the depth is at most their number.
\<close>

fun printable :: "nat \<Rightarrow> infer_cx \<Rightarrow> nty \<Rightarrow> rtext \<Rightarrow> unit inf" where
  "printable 0 cx t name = accept ()"
| "printable (Suc depth) cx t name =
     (let struct = (\<lambda>i. let d = ss_defs (ix_structs cx) ! i
         in if str ''to_s'' \<in> sd_methods d then
              refuse (str ''calls '' @ tick name @ str '' on a '' @ tick (cx_show cx (NStruct i)) @
                str '', which defines `to_s`'')
            else eachI (\<lambda>(n, f). printable depth cx f name) (sd_fields d))
      in case t of
           NStruct i \<Rightarrow> struct i
         | NArray LUnknown \<Rightarrow> refuse (str ''calls '' @ tick name @ str '' on `[]`'')
         | NArray (LStruct i) \<Rightarrow> struct i
         | _ \<Rightarrow> accept ())"

definition infer_builtin :: "infer_cx \<Rightarrow> addr \<Rightarrow> rtext \<Rightarrow> child arg list \<Rightarrow> flow inf" where
  "infer_builtin cx a name args =
     bindI (lift_inf (positional name args)) (\<lambda>cs.
     if name = str ''exit'' then
       bindI (case cs of
           [] \<Rightarrow> accept ()
         | [code] \<Rightarrow> bindI (value_of code None) (\<lambda>t.
             if t = NInt then accept () else refuse (str ''calls `exit` with a non-`Int` code''))
         | _ \<Rightarrow> refuse (str ''calls `exit` with several codes'')) (\<lambda>_.
       bindI (set_method a MExit) (\<lambda>_. accept FNever))
     else
       (let m = (if name = str ''puts'' then Some MPuts else if name = str ''print'' then Some MPrint
                 else if name = str ''p'' then Some MInspect else None)
        in case m of
             None \<Rightarrow> refuse (str ''calls '' @ tick name @ str '', which is not compiled'')
           | Some m \<Rightarrow>
               bindI (eachI (\<lambda>c. bindI (value_of c None) (\<lambda>t.
                 printable (length (ss_defs (ix_structs cx)) + 1) cx t name)) cs) (\<lambda>_.
               bindI (set_method a m) (\<lambda>_. accept FUnit))))"

text \<open>The loop over the arguments of a construction: the fds still free, those given, the slots.\<close>

fun construct_args :: "infer_cx \<Rightarrow> rtext \<Rightarrow> (rtext \<times> nty) list \<Rightarrow> nat list \<Rightarrow> bool list \<Rightarrow> nat list \<Rightarrow>
    child arg list \<Rightarrow> (bool list \<times> nat list) inf" where
  "construct_args cx name fds free given slots [] = accept (given, slots)"
| "construct_args cx name fds free given slots (arg # args) =
     (let put = (\<lambda>i c free.
          if given ! i then refuse (str ''gives field '' @ tick (fst (fds ! i)) @ str '' twice'')
          else bindI (value_of c (Some (snd (fds ! i)))) (\<lambda>t.
               if t \<noteq> snd (fds ! i) then
                 refuse (str ''gives '' @ tick (cx_show cx t) @ str '' to field '' @ tick (fst (fds ! i)) @
                   str '' of type '' @ tick (cx_show cx (snd (fds ! i))))
               else construct_args cx name fds free (given[i := True]) (slots @ [i]) args))
      in case arg of
           ANamed n (Some c) \<Rightarrow>
             (case position_of (\<lambda>(f, _). f = id_name n) fds of
                None \<Rightarrow> refuse (str ''gives '' @ tick name @ str '' an unknown field '' @ tick (id_name n))
              | Some i \<Rightarrow> put i c free)
         | ANamed n None \<Rightarrow> refuse (str ''uses the shorthand '' @ tick (id_name n @ str '':'') @ str '' for a field'')
         | APos c \<Rightarrow>
             (case free of
                [] \<Rightarrow> refuse (str ''gives '' @ tick name @ str '' too many values'')
              | i # free \<Rightarrow> put i c free)
         | ABlockPass c \<Rightarrow> refuse (str ''passes a block to '' @ tick name))"

fun named_args :: "'c arg list \<Rightarrow> rtext list" where
  "named_args [] = []"
| "named_args (ANamed n v # args) = id_name n # named_args args"
| "named_args (_ # args) = named_args args"

definition infer_construct :: "infer_cx \<Rightarrow> addr \<Rightarrow> rtext \<Rightarrow> child arg list \<Rightarrow> flow inf" where
  "infer_construct cx a name args = (case ss_by_name (ix_structs cx) name of
     None \<Rightarrow> refuse (str ''builds a '' @ tick name @ str '', which is not a native struct'')
   | Some i \<Rightarrow>
       (let fds = sd_fields (ss_defs (ix_structs cx) ! i);
            free = filter (\<lambda>f. fst (fds ! f) \<notin> set (named_args args)) [0..<length fds]
        in bindI (construct_args cx name fds free (replicate (length fds) False) [] args) (\<lambda>(given, slots).
           case position_of (\<lambda>g. \<not> g) given of
             Some missing \<Rightarrow>
               refuse (str ''leaves field '' @ tick (fst (fds ! missing)) @ str '' of '' @ tick name @ str '' to its default'')
           | None \<Rightarrow>
               bindI (map_typed (\<lambda>tp. tp\<lparr>tp_constructs := (tp_constructs tp)(a \<mapsto> \<lparr>ct_id = i, ct_fields = slots\<rparr>)\<rparr>))
                 (\<lambda>_. accept (FValue (NStruct i))))))"

definition starts_uppercase :: "std_env \<Rightarrow> rtext \<Rightarrow> bool" where
  "starts_uppercase u name = (case name of [] \<Rightarrow> False | c # _ \<Rightarrow> is_uppercase u c)"

definition infer_call ::
  "infer_cx \<Rightarrow> addr \<Rightarrow> child option \<Rightarrow> rtext \<Rightarrow> child arg list \<Rightarrow> (expr block \<times> child list) option \<Rightarrow> flow inf" where
  "infer_call cx a recv name args blk = (case recv of
     Some c \<Rightarrow>
       (case constant_name (fst c) of
          None \<Rightarrow> infer_method cx a c name args blk
        | Some ty \<Rightarrow>
            if ty = str ''Math'' \<and> name = str ''sqrt'' then infer_sqrt cx a (fst (snd c)) args
            else if name = str ''new'' \<and> Option.is_none blk then
              bindI (set_type (fst (snd c)) FUnit) (\<lambda>_. infer_construct cx a ty args)
            else refuse (str ''calls '' @ tick (ty @ str ''.'' @ name)))
   | None \<Rightarrow>
       if \<not> Option.is_none blk then refuse (str ''calls '' @ tick name @ str '' with a block'')
       else if starts_uppercase (ix_env cx) name then infer_construct cx a name args
       else (\<lambda>st. if is_builtin cx (is_typed st) name then infer_builtin cx a name args st
                   else infer_function cx name args st))"

subsection \<open>Expressions\<close>

definition describe_kind :: "expr_kind \<Rightarrow> rtext" where
  "describe_kind k = (case k of
     ESymbol _ \<Rightarrow> str ''symbols''
   | ENil \<Rightarrow> str ''`nil`''
   | EHash _ \<Rightarrow> str ''hashes''
   | ERange _ _ _ \<Rightarrow> str ''ranges''
   | EIVar _ \<Rightarrow> str ''object state''
   | ESelfRef \<Rightarrow> str ''object state''
   | EConst _ \<Rightarrow> str ''constants''
   | ECall _ _ _ _ safe _ \<Rightarrow> (if safe then str ''`&.`'' else str ''an unsupported construct'')
   | ECase _ _ _ \<Rightarrow> str ''`case`''
   | EBegin _ \<Rightarrow> str ''`begin`''
   | ETry _ \<Rightarrow> str ''`?`''
   | EMultiAssign _ _ \<Rightarrow> str ''multiple assignment''
   | EBreak _ \<Rightarrow> str ''`break`/`next`''
   | ENext _ \<Rightarrow> str ''`break`/`next`''
   | _ \<Rightarrow> str ''an unsupported construct'')"

text \<open>
  The children at an address, each with its typing. \<open>kids\<close> are the expressions of a list, \<open>arg_kids\<close>
  those of a list of arguments; both number their members from 0.
\<close>

type_synonym typer = "expr \<Rightarrow> addr \<Rightarrow> nty option \<Rightarrow> flow inf"

definition kid :: "typer \<Rightarrow> addr \<Rightarrow> expr \<Rightarrow> child" where
  "kid f a e = (e, a, f e a)"

definition kids :: "typer \<Rightarrow> addr \<Rightarrow> expr list \<Rightarrow> child list" where
  "kids f a es = map (\<lambda>(b, e). kid f b e) (numbered a es)"

definition arg_kids :: "typer \<Rightarrow> addr \<Rightarrow> expr arg list \<Rightarrow> child arg list" where
  "arg_kids f a args = map (\<lambda>(b, arg). map_arg (kid f b) arg) (numbered a args)"

lemma set_numbered: "(b, x) \<in> set (numbered a xs) \<Longrightarrow> x \<in> set xs"
  by (auto simp: numbered_def dest: set_zip_rightD)

lemma kid_cong [fundef_cong]:
  "a = a' \<Longrightarrow> e = e' \<Longrightarrow> (\<And>b ex. f e' b ex = g e' b ex) \<Longrightarrow> kid f a e = kid g a' e'"
  by (auto simp: kid_def)

lemma kids_cong [fundef_cong]:
  "a = a' \<Longrightarrow> es = es' \<Longrightarrow> (\<And>e b ex. e \<in> set es' \<Longrightarrow> f e b ex = g e b ex) \<Longrightarrow> kids f a es = kids g a' es'"
  by (auto simp: kids_def kid_def fun_eq_iff dest: set_numbered)

lemma arg_kids_cong [fundef_cong]:
  assumes "a = a'" "args = args'" "\<And>e b ex. e \<in> set (arg_exprs args') \<Longrightarrow> f e b ex = g e b ex"
  shows "arg_kids f a args = arg_kids g a' args'"
proof -
  have *: "e \<in> set_arg x \<Longrightarrow> x \<in> set xs \<Longrightarrow> e \<in> set (arg_exprs xs)" for e :: expr and x xs
    by (induction xs rule: arg_exprs.induct) auto
  show ?thesis
    using assms by (auto simp: arg_kids_def kid_def fun_eq_iff intro!: arg.map_cong0 dest!: set_numbered *)
qed

text \<open>An assignment's target, at its address.\<close>

definition target_kids :: "typer \<Rightarrow> addr \<Rightarrow> expr \<Rightarrow> target_of" where
  "target_kids f a target = (case ex_kind target of
     EVar name \<Rightarrow> Var_Target name
   | EIndex recv args \<Rightarrow> Index_Target (kid f (0 # a) recv) (kids f (1 # a) args)
   | ECall _ _ _ _ _ _ \<Rightarrow> Call_Target
   | _ \<Rightarrow> Other_Target)"

lemma target_kids_cong [fundef_cong]:
  assumes "a = a'" "t = t'" "\<And>e b ex. size e < size t' \<Longrightarrow> f e b ex = g e b ex"
  shows "target_kids f a t = target_kids g a' t'"
proof -
  have "e \<in> set (below (ex_kind t')) \<Longrightarrow> f e b ex = g e b ex" for e b ex
    using assms(3) size_below by blast
  then show ?thesis
    using assms(1,2) by (auto simp: target_kids_def below_def intro!: kid_cong kids_cong split: expr_kind.splits)
qed

lemma size_target:
  "ex_kind e = EAssign t v \<Longrightarrow> size x < size t \<Longrightarrow> size x < size e"
  "ex_kind e = EOpAssign op t v \<Longrightarrow> size x < size t \<Longrightarrow> size x < size e"
  using size_below [of t e] by (auto simp: below_def)

function infer_expr :: "infer_cx \<Rightarrow> expr \<Rightarrow> addr \<Rightarrow> nty option \<Rightarrow> flow inf" where
  "infer_expr cx e a expected = bindI
     (case ex_kind e of
        EInt _ \<Rightarrow> accept (FValue NInt)
      | EFloat _ \<Rightarrow> accept (FValue NFloat)
      | EBool _ \<Rightarrow> accept (FValue NBool)
      | EStr segs \<Rightarrow> bindI (infer_string cx (kids (infer_expr cx) a (seg_exprs segs))) (\<lambda>t. accept (FValue t))
      | EArray items \<Rightarrow> bindI (infer_array cx (kids (infer_expr cx) a items) expected) (\<lambda>t. accept (FValue t))
      | EVar name \<Rightarrow>
          (\<lambda>st. if is_builtin cx (is_typed st) name then infer_builtin cx a name [] st
                else bindI (read_local cx name) (\<lambda>t. accept (FValue t)) st)
      | EAssign target v \<Rightarrow>
          infer_assign cx (target_kids (infer_expr cx) (0 # a) target) (kid (infer_expr cx) (1 # a) v)
      | EOpAssign op target v \<Rightarrow>
          infer_op_assign cx op (0 # a) (target_kids (infer_expr cx) (0 # a) target) (kid (infer_expr cx) (1 # a) v)
      | EBinary op l r \<Rightarrow> infer_binary cx op (kid (infer_expr cx) (0 # a) l) (kid (infer_expr cx) (1 # a) r)
      | EUnary op x \<Rightarrow> bindI (infer_unary cx op (kid (infer_expr cx) (0 # a) x)) (\<lambda>t. accept (FValue t))
      | EIf cond thn els \<Rightarrow>
          infer_if cx (kid (infer_expr cx) (0 # a) cond) (kids (infer_expr cx) (1 # a) thn)
            (map_option (\<lambda>es. kids (infer_expr cx) (2 # a) es) els) expected
      | EWhile cond body \<Rightarrow>
          bindI (condition cx (kid (infer_expr cx) (0 # a) cond)) (\<lambda>_.
          bindI (loop_body (bindI (infer_stmts (kids (infer_expr cx) (1 # a) body) None) (\<lambda>_. accept ()))) (\<lambda>_.
          accept FUnit))
      | EReturn v \<Rightarrow> infer_return cx (map_option (\<lambda>x. kid (infer_expr cx) (0 # a) x) v)
      | EIndex recv args \<Rightarrow>
          bindI (infer_index cx a (kid (infer_expr cx) (0 # a) recv) (kids (infer_expr cx) (1 # a) args))
            (\<lambda>t. accept (FValue t))
      | ECall recv name args blk safe parens \<Rightarrow>
          (if safe then refuse (str ''uses '' @ describe_kind (ex_kind e))
           else infer_call cx a (map_option (\<lambda>x. kid (infer_expr cx) (0 # a) x) recv) (id_name name)
             (arg_kids (infer_expr cx) (1 # a) args)
             (map_option (\<lambda>b. (b, kids (infer_expr cx) (2 # a) (bd_stmts (bk_body b)))) blk))
      | k \<Rightarrow> refuse (str ''uses '' @ describe_kind k))
     (\<lambda>fl. bindI (set_type a fl) (\<lambda>_. accept fl))"
  by auto
termination
proof (relation "measure (\<lambda>(cx, e, a, expected). size e)", goal_cases)
  case 1
  then show ?case by simp
qed (auto dest: size_target intro: size_below simp: below_def option_list_def)

declare infer_expr.simps [simp del]

subsection \<open>Functions\<close>

definition start_typed :: "(rtext \<times> nty) list \<Rightarrow> typed" where
  "start_typed ps = fold (\<lambda>(n, t) tp. tp\<lparr>tp_vars := (tp_vars tp)(n \<mapsto> t)\<rparr>) ps typed_default"

definition param_names :: "fn_def \<Rightarrow> rtext list" where
  "param_names d = map (\<lambda>p. id_name (pm_name p)) (fn_params d)"

definition body_kids :: "infer_cx \<Rightarrow> fn_def \<Rightarrow> child list" where
  "body_kids cx d = kids (infer_expr cx) [] (bd_stmts (fn_body d))"

definition infer_run :: "infer_cx \<Rightarrow> fn_def \<Rightarrow> signature \<Rightarrow> reject + typed" where
  "infer_run cx d sg =
     (let ps = zip (param_names d) (sg_params sg);
          st = \<lparr>is_assigned = set (map fst ps), is_outer = set (map fst ps), is_typed = start_typed ps\<rparr>
      in case bindI (infer_stmts (body_kids cx d) (sg_ret sg)) (\<lambda>body.
             case (body, sg_ret sg) of
               (FValue t, Some ret) \<Rightarrow> expect_ty cx (last (bd_stmts (fn_body d))) t ret (str ''returns'')
             | (FUnit, Some _) \<Rightarrow> refuse (str ''its last statement has no value'')
             | _ \<Rightarrow> accept ()) st of
           Inl why \<Rightarrow> Inl why
         | Inr (_, st) \<Rightarrow> Inr (is_typed st))"

definition unknown_flow :: "flow \<Rightarrow> bool" where
  "unknown_flow fl \<longleftrightarrow> fl = FValue (NArray LUnknown)"

text \<open>The first pass, and the second when the first met an empty array whose elements are unknown.\<close>

definition infer ::
  "std_env \<Rightarrow> fn_def \<Rightarrow> signature \<Rightarrow> (rtext \<Rightarrow> signature option) \<Rightarrow> structs \<Rightarrow> target \<Rightarrow> reject + typed" where
  "infer u d sg sigs ss tg =
     (if bd_rescues (fn_body d) \<noteq> [] \<or> bd_ensure (fn_body d) \<noteq> None then Inl (str ''uses `rescue`/`ensure`'')
      else
        let cx = \<lparr>ix_sigs = sigs, ix_structs = ss, ix_ret = sg_ret sg, ix_target = tg, ix_seed = Map.empty, ix_env = u\<rparr>
        in case infer_run cx d sg of
             Inl why \<Rightarrow> Inl why
           | Inr first \<Rightarrow>
               if \<not> list_ex (\<lambda>(_, fl). unknown_flow fl) (tp_types first) then Inr first
               else case infer_run (cx\<lparr>ix_seed := tp_vars first\<rparr>) d sg of
                 Inl why \<Rightarrow> Inl why
               | Inr second \<Rightarrow>
                   if list_ex (\<lambda>(_, fl). unknown_flow fl) (tp_types second) \<or>
                      list_ex (\<lambda>n. tp_vars second n = Some (NArray LUnknown))
                        (param_names d @ map fst (tp_locals second))
                   then Inl (str ''uses an empty array `[]` whose element type is unknown'')
                   else Inr second)"

end
