(* ===== verification/Number_Methods.thy ===== *)
theory Number_Methods
  imports Operators
begin

text \<open>
  The methods of \<open>Int\<close> and \<open>Float\<close> in the interpreter (grenat\_interp: src/builtins/numbers.rs), except
  those that run a block (\<open>times\<close>, \<open>upto\<close>) or make a rate (\<open>per\_second\<close> and the like). Rounding a
  double and converting it are a parameter, the record \<open>float_env\<close>. The program is built without
  overflow checks (the release profile), so that the plain additions wrap.
\<close>

record float_env =
  fv_round :: "f64 \<Rightarrow> f64"
  fv_floor :: "f64 \<Rightarrow> f64"
  fv_ceil :: "f64 \<Rightarrow> f64"
  fv_sqrt :: "f64 \<Rightarrow> f64"
  fv_to_i64 :: "f64 \<Rightarrow> int"
  fv_powi :: "f64 \<Rightarrow> int \<Rightarrow> f64"

text \<open>\<open>abs\<close> of a double clears its sign.\<close>

definition f64_abs :: "f64 \<Rightarrow> f64" where
  "f64_abs f = (if f64_sign f then f - 2 ^ 63 else f)"

definition f64_is_zero :: "f64 \<Rightarrow> bool" where
  "f64_is_zero f \<longleftrightarrow> f64_eq f 0"

text \<open>The argument at a position, and \<open>between?\<close> of its two.\<close>

definition arg_at :: "val list \<Rightarrow> nat \<Rightarrow> rtext \<Rightarrow> error + val" where
  "arg_at args i name =
     (if i < length args then Inr (args ! i)
      else Inl (str ''ArgumentError'',
        str ''`'' @ name @ str ''` expects at least '' @ nat_digits (i + 1) @ str '' argument(s)''))"

definition between :: "val \<Rightarrow> val list \<Rightarrow> rtext \<Rightarrow> error + val" where
  "between v args name = (case arg_at args 0 name of
     Inl e \<Rightarrow> Inl e
   | Inr lo \<Rightarrow>
       (case arg_at args 1 name of
          Inl e \<Rightarrow> Inl e
        | Inr hi \<Rightarrow>
            Inr (VBool (compare v lo \<in> {Some Greater, Some Equal} \<and> compare v hi \<in> {Some Less, Some Equal}))))"

definition int_method :: "op_env \<Rightarrow> rtext \<Rightarrow> int \<Rightarrow> val list \<Rightarrow> (error + val) option" where
  "int_method env name n args =
     (let is = (\<lambda>names. name \<in> set (map str names));
          duration = (\<lambda>unit. Some (Inr (VDuration (fl_mul env (f64_of_int n) (f64_of_int unit)))))
      in if is [''to_i'', ''round'', ''floor'', ''ceil''] then Some (Inr (VInt n))
         else if is [''to_f''] then Some (Inr (VFloat (f64_of_int n)))
         else if is [''abs''] then Some (checked \<bar>n\<bar>)
         else if is [''zero?''] then Some (Inr (VBool (n = 0)))
         else if is [''even?''] then Some (Inr (VBool (trunc_rem n 2 = 0)))
         else if is [''odd?''] then Some (Inr (VBool (trunc_rem n 2 \<noteq> 0)))
         else if is [''succ''] then Some (Inr (VInt (wrap_i64 (n + 1))))
         else if is [''pred''] then Some (Inr (VInt (wrap_i64 (n - 1))))
         else if is [''between?''] then Some (between (VInt n) args name)
         else if is [''s'', ''sec'', ''second'', ''seconds''] then duration 1
         else if is [''min'', ''minute'', ''minutes''] then duration 60
         else if is [''h'', ''hour'', ''hours''] then duration 3600
         else if is [''day'', ''days''] then duration 86400
         else None)"

definition float_method :: "op_env \<Rightarrow> float_env \<Rightarrow> rtext \<Rightarrow> f64 \<Rightarrow> val list \<Rightarrow> (error + val) option" where
  "float_method env fv name f args =
     (let is = (\<lambda>name'. name = str name')
      in if is ''round'' then
           (case args of
              VInt digits # _ \<Rightarrow>
                let factor = fv_powi fv (f64_of_int 10) ((digits + 2 ^ 31) mod 2 ^ 32 - 2 ^ 31)
                in Some (Inr (VFloat (fl_div env (fv_round fv (fl_mul env f factor)) factor)))
            | _ \<Rightarrow> Some (Inr (VInt (fv_to_i64 fv (fv_round fv f)))))
         else if is ''floor'' then Some (Inr (VInt (fv_to_i64 fv (fv_floor fv f))))
         else if is ''ceil'' then Some (Inr (VInt (fv_to_i64 fv (fv_ceil fv f))))
         else if is ''to_i'' then Some (Inr (VInt (fv_to_i64 fv f)))
         else if is ''to_f'' then Some (Inr (VFloat f))
         else if is ''abs'' then Some (Inr (VFloat (f64_abs f)))
         else if is ''zero?'' then Some (Inr (VBool (f64_is_zero f)))
         else if is ''between?'' then Some (between (VFloat f) args name)
         else None)"

subsection \<open>Unary operators\<close>

text \<open>The negation of a double changes its sign bit (src/eval/expr.rs).\<close>

definition f64_neg :: "f64 \<Rightarrow> f64" where
  "f64_neg f = xor f (2 ^ 63)"

definition unary_value :: "unop \<Rightarrow> val \<Rightarrow> error + val" where
  "unary_value op v = (case op of
     UNot \<Rightarrow> Inr (VBool (\<not> truthy v))
   | UNeg \<Rightarrow>
       map_sum id (\<lambda>r. if is_tainted v then taint r else r)
         (case untainted v of
            VInt n \<Rightarrow> checked (- n)
          | VFloat f \<Rightarrow> Inr (VFloat (f64_neg f))
          | VMoney m \<Rightarrow> Inr (VMoney (f64_neg m))
          | other \<Rightarrow> Inl (str ''TypeError'', str ''`-` is not defined for '' @ type_name other)))"

end
