(* ===== verification/Native_Numbers.thy ===== *)
theory Native_Numbers
  imports Infer Number_Methods
begin

text \<open>
  The code that native compilation emits for numbers and booleans (grenat\_codegen:
  src/translate/numbers.rs, the operators of src/translate/calls.rs, and the statuses of
  grenat\_runtime: src/status.rs), as the value that running it gives. Cranelift's instructions are a
  parameter, the record \<open>clif\<close>; a boolean is a byte, as it is in the code. A trap leaves the function
  with its status.
\<close>

type_synonym i64 = "64 word"

type_synonym i8 = "8 word"

subsection \<open>Instructions\<close>

datatype int_cc = Int_Eq | Int_Ne | Int_Lt | Int_Le | Int_Gt | Int_Ge

datatype float_cc = Float_Eq | Float_Ne | Float_Lt | Float_Le | Float_Gt | Float_Ge

record clif =
  icmp :: "int_cc \<Rightarrow> i64 \<Rightarrow> i64 \<Rightarrow> i8"
  icmp8 :: "int_cc \<Rightarrow> i8 \<Rightarrow> i8 \<Rightarrow> i8"
  fcmp :: "float_cc \<Rightarrow> f64 \<Rightarrow> f64 \<Rightarrow> i8"
  sadd_overflow :: "i64 \<Rightarrow> i64 \<Rightarrow> i64 \<times> i8"
  ssub_overflow :: "i64 \<Rightarrow> i64 \<Rightarrow> i64 \<times> i8"
  smul_overflow :: "i64 \<Rightarrow> i64 \<Rightarrow> i64 \<times> i8"
  sdiv :: "i64 \<Rightarrow> i64 \<Rightarrow> i64"
  srem :: "i64 \<Rightarrow> i64 \<Rightarrow> i64"
  iadd :: "i64 \<Rightarrow> i64 \<Rightarrow> i64"
  ineg :: "i64 \<Rightarrow> i64"
  iabs :: "i64 \<Rightarrow> i64"
  band :: "i64 \<Rightarrow> i64 \<Rightarrow> i64"
  bor :: "i64 \<Rightarrow> i64 \<Rightarrow> i64"
  bxor :: "i64 \<Rightarrow> i64 \<Rightarrow> i64"
  band8 :: "i8 \<Rightarrow> i8 \<Rightarrow> i8"
  select :: "i8 \<Rightarrow> i64 \<Rightarrow> i64 \<Rightarrow> i64"
  fadd :: "f64 \<Rightarrow> f64 \<Rightarrow> f64"
  fsub :: "f64 \<Rightarrow> f64 \<Rightarrow> f64"
  fmul :: "f64 \<Rightarrow> f64 \<Rightarrow> f64"
  fdiv :: "f64 \<Rightarrow> f64 \<Rightarrow> f64"
  fneg :: "f64 \<Rightarrow> f64"
  fabs :: "f64 \<Rightarrow> f64"
  ffloor :: "f64 \<Rightarrow> f64"
  fceil :: "f64 \<Rightarrow> f64"
  fsqrt :: "f64 \<Rightarrow> f64"
  fcvt_from_sint :: "i64 \<Rightarrow> f64"
  fcvt_to_sint_sat :: "f64 \<Rightarrow> i64"

subsection \<open>Traps\<close>

datatype trap = Trap_Overflow | Trap_Division_By_Zero | Trap_Stack_Overflow | Trap_Cancelled

fun status_of :: "trap \<Rightarrow> int" where
  "status_of Trap_Overflow = 1"
| "status_of Trap_Division_By_Zero = 2"
| "status_of Trap_Stack_Overflow = 3"
| "status_of Trap_Cancelled = 5"

definition status_error :: "int \<Rightarrow> error option" where
  "status_error s =
     (if s = 1 then Some (str ''OverflowError'', str ''integer overflow'')
      else if s = 2 then Some (str ''ZeroDivisionError'', str ''division by zero'')
      else if s = 3 then Some (str ''StackOverflow'', str ''recursion too deep'')
      else if s = 5 then Some (str ''Cancelled'', str ''task cancelled'')
      else None)"

definition trap_error :: "trap \<Rightarrow> error" where
  "trap_error t = the (status_error (status_of t))"

definition trap_from_status :: "int \<Rightarrow> trap" where
  "trap_from_status s =
     (if s = 1 then Trap_Overflow else if s = 2 then Trap_Division_By_Zero
      else if s = 5 then Trap_Cancelled else Trap_Stack_Overflow)"

definition trap_if :: "i8 \<Rightarrow> trap \<Rightarrow> (trap + 'a) \<Rightarrow> trap + 'a" where
  "trap_if cond t rest = (if cond \<noteq> 0 then Inl t else rest)"

subsection \<open>Values\<close>

datatype nval = NI i64 | NB i8 | NF f64

definition icmp_imm :: "clif \<Rightarrow> int_cc \<Rightarrow> i64 \<Rightarrow> int \<Rightarrow> i8" where
  "icmp_imm c cc v n = icmp c cc v (word_of_int n)"

definition iadd_imm :: "clif \<Rightarrow> i64 \<Rightarrow> int \<Rightarrow> i64" where
  "iadd_imm c v n = iadd c v (word_of_int n)"

definition emit_unary :: "clif \<Rightarrow> unop \<Rightarrow> nval \<Rightarrow> trap + nval" where
  "emit_unary c op v = (case (op, v) of
     (UNeg, NI n) \<Rightarrow> trap_if (icmp_imm c Int_Eq n i64_min) Trap_Overflow (Inr (NI (ineg c n)))
   | (UNeg, NF f) \<Rightarrow> Inr (NF (fneg c f))
   | (_, NB b) \<Rightarrow> Inr (NB (icmp8 c Int_Eq b 0))
   | _ \<Rightarrow> Inr v)"

definition emit_as_float :: "clif \<Rightarrow> nval \<Rightarrow> f64" where
  "emit_as_float c v = (case v of NI n \<Rightarrow> fcvt_from_sint c n | NF f \<Rightarrow> f | NB b \<Rightarrow> 0)"

definition emit_ordering :: "clif \<Rightarrow> i8 \<Rightarrow> i8 \<Rightarrow> i64" where
  "emit_ordering c lt gt = select c lt (word_of_int (- 1)) (select c gt 1 0)"

definition emit_check_divisor :: "clif \<Rightarrow> i64 \<Rightarrow> (trap + 'a) \<Rightarrow> trap + 'a" where
  "emit_check_divisor c r rest = trap_if (icmp_imm c Int_Eq r 0) Trap_Division_By_Zero rest"

definition emit_int_div :: "clif \<Rightarrow> i64 \<Rightarrow> i64 \<Rightarrow> trap + nval" where
  "emit_int_div c l r = emit_check_divisor c r
     (trap_if (band8 c (icmp_imm c Int_Eq l i64_min) (icmp_imm c Int_Eq r (- 1))) Trap_Overflow
       (let q = sdiv c l r;
            inexact = icmp_imm c Int_Ne (srem c l r) 0;
            opposite = icmp_imm c Int_Lt (bxor c l r) 0
        in Inr (NI (select c (band8 c inexact opposite) (iadd_imm c q (- 1)) q))))"

definition emit_int_rem :: "clif \<Rightarrow> i64 \<Rightarrow> i64 \<Rightarrow> trap + nval" where
  "emit_int_rem c l r = emit_check_divisor c r
     (let divisor = select c (icmp_imm c Int_Eq r (- 1)) 1 r;
          m = srem c l divisor;
          nonzero = icmp_imm c Int_Ne m 0;
          opposite = icmp_imm c Int_Lt (bxor c m r) 0
      in Inr (NI (select c (band8 c nonzero opposite) (iadd c m r) m)))"

text \<open>The results that the code rules out (\<open>unreachable!\<close>) are \<open>None\<close>.\<close>

definition emit_int_binary :: "clif \<Rightarrow> binop \<Rightarrow> i64 \<Rightarrow> i64 \<Rightarrow> (trap + nval) option" where
  "emit_int_binary c op l r =
     (let checked = (\<lambda>(v, overflow). Some (trap_if overflow Trap_Overflow (Inr (NI v))));
          compared = (\<lambda>cc. Some (Inr (NB (icmp c cc l r))))
      in case op of
           OpAdd \<Rightarrow> checked (sadd_overflow c l r)
         | OpSub \<Rightarrow> checked (ssub_overflow c l r)
         | OpMul \<Rightarrow> checked (smul_overflow c l r)
         | OpDiv \<Rightarrow> Some (emit_int_div c l r)
         | OpRem \<Rightarrow> Some (emit_int_rem c l r)
         | OpLt \<Rightarrow> compared Int_Lt
         | OpLe \<Rightarrow> compared Int_Le
         | OpGt \<Rightarrow> compared Int_Gt
         | OpGe \<Rightarrow> compared Int_Ge
         | OpEq \<Rightarrow> compared Int_Eq
         | OpNotEq \<Rightarrow> compared Int_Ne
         | OpCmp \<Rightarrow> Some (Inr (NI (emit_ordering c (icmp c Int_Lt l r) (icmp c Int_Gt l r))))
         | OpBitAnd \<Rightarrow> Some (Inr (NI (band c l r)))
         | OpBitOr \<Rightarrow> Some (Inr (NI (bor c l r)))
         | OpBitXor \<Rightarrow> Some (Inr (NI (bxor c l r)))
         | _ \<Rightarrow> None)"

definition emit_float_binary :: "clif \<Rightarrow> binop \<Rightarrow> f64 \<Rightarrow> f64 \<Rightarrow> nval option" where
  "emit_float_binary c op l r =
     (let compared = (\<lambda>cc. Some (NB (fcmp c cc l r)))
      in case op of
           OpAdd \<Rightarrow> Some (NF (fadd c l r))
         | OpSub \<Rightarrow> Some (NF (fsub c l r))
         | OpMul \<Rightarrow> Some (NF (fmul c l r))
         | OpDiv \<Rightarrow> Some (NF (fdiv c l r))
         | OpLt \<Rightarrow> compared Float_Lt
         | OpLe \<Rightarrow> compared Float_Le
         | OpGt \<Rightarrow> compared Float_Gt
         | OpGe \<Rightarrow> compared Float_Ge
         | OpEq \<Rightarrow> compared Float_Eq
         | OpNotEq \<Rightarrow> compared Float_Ne
         | OpCmp \<Rightarrow> Some (NI (emit_ordering c (fcmp c Float_Lt l r) (fcmp c Float_Gt l r)))
         | _ \<Rightarrow> None)"

definition emit_scalar_binary :: "clif \<Rightarrow> binop \<Rightarrow> nval \<Rightarrow> nval \<Rightarrow> (trap + nval) option" where
  "emit_scalar_binary c op l r = (case (l, r) of
     (NI a, NI b) \<Rightarrow> emit_int_binary c op a b
   | (NB a, NB b) \<Rightarrow>
       (if op = OpEq then Some (Inr (NB (icmp8 c Int_Eq a b)))
        else if op = OpNotEq then Some (Inr (NB (icmp8 c Int_Ne a b)))
        else None)
   | _ \<Rightarrow> map_option Inr (emit_float_binary c op (emit_as_float c l) (emit_as_float c r)))"

text \<open>The type of the result, and a method of a number.\<close>

definition scalar_result :: "binop \<Rightarrow> nty \<Rightarrow> nty \<Rightarrow> nty" where
  "scalar_result op l r =
     (if op \<in> {OpLt, OpLe, OpGt, OpGe, OpEq, OpNotEq, OpAnd, OpOr} then NBool
      else if op \<in> {OpCmp, OpRem, OpBitAnd, OpBitOr, OpBitXor} then NInt
      else if l = NInt \<and> r = NInt then NInt else NFloat)"

definition emit_number_method :: "clif \<Rightarrow> meth \<Rightarrow> nval \<Rightarrow> (trap + nval) option" where
  "emit_number_method c m v = (case (m, v) of
     (MSame, _) \<Rightarrow> Some (Inr v)
   | (MIntToF, NI n) \<Rightarrow> Some (Inr (NF (fcvt_from_sint c n)))
   | (MFloatToI, NF f) \<Rightarrow> Some (Inr (NI (fcvt_to_sint_sat c f)))
   | (MIntAbs, NI n) \<Rightarrow> Some (trap_if (icmp_imm c Int_Eq n i64_min) Trap_Overflow (Inr (NI (iabs c n))))
   | (MFloatAbs, NF f) \<Rightarrow> Some (Inr (NF (fabs c f)))
   | (MIntZero, NI n) \<Rightarrow> Some (Inr (NB (icmp_imm c Int_Eq n 0)))
   | (MFloatZero, NF f) \<Rightarrow> Some (Inr (NB (fcmp c Float_Eq f 0)))
   | (MEven, NI n) \<Rightarrow> Some (Inr (NB (icmp_imm c Int_Eq (band c n 1) 0)))
   | (MOdd, NI n) \<Rightarrow> Some (Inr (NB (icmp_imm c Int_Ne (band c n 1) 0)))
   | (MFloor, NF f) \<Rightarrow> Some (Inr (NI (fcvt_to_sint_sat c (ffloor c f))))
   | (MCeil, NF f) \<Rightarrow> Some (Inr (NI (fcvt_to_sint_sat c (fceil c f))))
   | (MSqrt, _) \<Rightarrow> Some (Inr (NF (fsqrt c (emit_as_float c v))))
   | _ \<Rightarrow> None)"

end
