(* ===== verification/Native_Number_Props.thy ===== *)
theory Native_Number_Props
  imports Native_Numbers Operator_Props
begin

text \<open>
  Numbers in native code: with instructions that do what Cranelift documents, every operator and
  every method of a number that \<open>infer\<close> accepts gives what the interpreter gives, errors included.
\<close>

subsection \<open>What the instructions do\<close>

definition bit_of :: "bool \<Rightarrow> i8" where
  "bit_of b = (if b then 1 else 0)"

fun int_holds :: "int_cc \<Rightarrow> int \<Rightarrow> int \<Rightarrow> bool" where
  "int_holds Int_Eq a b \<longleftrightarrow> a = b"
| "int_holds Int_Ne a b \<longleftrightarrow> a \<noteq> b"
| "int_holds Int_Lt a b \<longleftrightarrow> a < b"
| "int_holds Int_Le a b \<longleftrightarrow> a \<le> b"
| "int_holds Int_Gt a b \<longleftrightarrow> a > b"
| "int_holds Int_Ge a b \<longleftrightarrow> a \<ge> b"

fun float_holds :: "float_cc \<Rightarrow> ordering option \<Rightarrow> bool" where
  "float_holds Float_Eq o' \<longleftrightarrow> o' = Some Equal"
| "float_holds Float_Ne o' \<longleftrightarrow> o' \<noteq> Some Equal"
| "float_holds Float_Lt o' \<longleftrightarrow> o' = Some Less"
| "float_holds Float_Le o' \<longleftrightarrow> o' \<in> {Some Less, Some Equal}"
| "float_holds Float_Gt o' \<longleftrightarrow> o' = Some Greater"
| "float_holds Float_Ge o' \<longleftrightarrow> o' \<in> {Some Greater, Some Equal}"

text \<open>A division is only specified where the processor does not trap.\<close>

definition divides :: "i64 \<Rightarrow> i64 \<Rightarrow> bool" where
  "divides l r \<longleftrightarrow> r \<noteq> 0 \<and> \<not> (sint l = i64_min \<and> sint r = - 1)"

definition clif_ints :: "clif \<Rightarrow> bool" where
  "clif_ints c \<longleftrightarrow>
     (\<forall>cc l r. icmp c cc l r = bit_of (int_holds cc (sint l) (sint r))) \<and>
     (\<forall>cc l r. icmp8 c cc l r = bit_of (int_holds cc (sint l) (sint r))) \<and>
     (\<forall>l r. sadd_overflow c l r = (l + r, bit_of (\<not> in_i64 (sint l + sint r)))) \<and>
     (\<forall>l r. ssub_overflow c l r = (l - r, bit_of (\<not> in_i64 (sint l - sint r)))) \<and>
     (\<forall>l r. smul_overflow c l r = (l * r, bit_of (\<not> in_i64 (sint l * sint r)))) \<and>
     (\<forall>l r. divides l r \<longrightarrow> sint (sdiv c l r) = trunc_div (sint l) (sint r)) \<and>
     (\<forall>l r. divides l r \<longrightarrow> sint (srem c l r) = trunc_rem (sint l) (sint r)) \<and>
     (\<forall>l r. iadd c l r = l + r) \<and> (\<forall>n. ineg c n = - n) \<and>
     (\<forall>n. sint n \<noteq> i64_min \<longrightarrow> sint (iabs c n) = \<bar>sint n\<bar>) \<and>
     (\<forall>l r. band c l r = and l r) \<and> (\<forall>l r. bor c l r = or l r) \<and> (\<forall>l r. bxor c l r = xor l r) \<and>
     (\<forall>l r. band8 c l r = and l r) \<and>
     (\<forall>b x y. select c b x y = (if b \<noteq> 0 then x else y))"

text \<open>Doubles: the same IEEE operations as the host's.\<close>

definition clif_floats :: "clif \<Rightarrow> op_env \<Rightarrow> float_env \<Rightarrow> bool" where
  "clif_floats c env fv \<longleftrightarrow>
     (\<forall>cc l r. fcmp c cc l r = bit_of (float_holds cc (f64_partial_cmp l r))) \<and>
     fadd c = fl_add env \<and> fsub c = fl_sub env \<and> fmul c = fl_mul env \<and> fdiv c = fl_div env \<and>
     fneg c = f64_neg \<and> fabs c = f64_abs \<and>
     ffloor c = fv_floor fv \<and> fceil c = fv_ceil fv \<and> fsqrt c = fv_sqrt fv \<and>
     (\<forall>n. fcvt_from_sint c n = f64_of_int (sint n)) \<and> (\<forall>f. sint (fcvt_to_sint_sat c f) = fv_to_i64 fv f)"

subsection \<open>Values on both sides\<close>

fun repr :: "nval \<Rightarrow> val" where
  "repr (NI n) = VInt (sint n)"
| "repr (NB b) = VBool (b \<noteq> 0)"
| "repr (NF f) = VFloat f"

fun nval_of :: "nty \<Rightarrow> nval \<Rightarrow> bool" where
  "nval_of NInt (NI n) = True"
| "nval_of NBool (NB b) \<longleftrightarrow> b = 0 \<or> b = 1"
| "nval_of NFloat (NF f) = True"
| "nval_of _ _ = False"

definition native_result :: "trap + nval \<Rightarrow> error + val" where
  "native_result r = map_sum trap_error repr r"

lemma native_result_simps [simp]:
  "native_result (Inr v) = Inr (repr v)" "native_result (Inl t) = Inl (trap_error t)"
  by (simp_all add: native_result_def)

lemma trap_errors [simp]:
  "trap_error Trap_Overflow = (str ''OverflowError'', str ''integer overflow'')"
  "trap_error Trap_Division_By_Zero = (str ''ZeroDivisionError'', str ''division by zero'')"
  by (simp_all add: trap_error_def status_error_def)

lemma bit_of_eq [simp]: "bit_of b = 0 \<longleftrightarrow> \<not> b" "bit_of b = 1 \<longleftrightarrow> b"
  by (simp_all add: bit_of_def)

lemma and_bit_of [simp]: "and (bit_of a) (bit_of b) = bit_of (a \<and> b)"
  by (simp add: bit_of_def)

subsection \<open>Integers of 64 bits\<close>

lemma sint_in_i64 [simp]: "in_i64 (sint (n :: i64))"
  using sint_ge [of n] sint_lt [of n] by (auto simp: in_i64_def)

lemma sint_word_of_int [simp]: "in_i64 n \<Longrightarrow> sint (word_of_int n :: i64) = n"
  by (simp add: in_i64_def sint_sbintrunc' signed_take_bit_int_eq_self)

lemma sint_small:
  "in_i64 (sint l + sint r) \<Longrightarrow> sint (l + r :: i64) = sint l + sint r"
  "in_i64 (sint l - sint r) \<Longrightarrow> sint (l - r :: i64) = sint l - sint r"
  "in_i64 (sint l * sint r) \<Longrightarrow> sint (l * r :: i64) = sint l * sint r"
  by (simp_all add: in_i64_def sint_word_ariths signed_take_bit_int_eq_self)

lemma sint_bits:
  "sint (and l r :: i64) = and (sint l) (sint r)"
  "sint (or l r :: i64) = or (sint l) (sint r)"
  "sint (xor l r :: i64) = xor (sint l) (sint r)"
  by (simp_all add: signed_and_eq signed_or_eq signed_xor_eq)

lemma xor_sign: "(xor a b :: int) < 0 \<longleftrightarrow> (a < 0) \<noteq> (b < 0)"
  by (simp add: xor_negative_int_iff)

lemma sint_eq_0: "sint (n :: i64) = 0 \<longleftrightarrow> n = 0"
  by (simp add: signed_eq_0_iff)

subsection \<open>Operators on integers\<close>

lemma in_i64_neg1 [simp]: "in_i64 (- 1)" "in_i64 0" "in_i64 1" "in_i64 (- 9223372036854775808)"
  by (simp_all add: in_i64_def)

lemma icmp_imm_ok: "clif_ints c \<Longrightarrow> in_i64 k \<Longrightarrow> icmp_imm c cc n k = bit_of (int_holds cc (sint n) k)"
  by (simp add: clif_ints_def icmp_imm_def)

lemma ordering_ok:
  "clif_ints c \<Longrightarrow> sint (emit_ordering c (bit_of (a < b)) (bit_of (a > b))) = ordering_int (int_cmp a b)"
  by (auto simp: clif_ints_def emit_ordering_def ordering_int_def int_cmp_def)

lemma sint_int_cmp: "sint (emit_ordering c (icmp c Int_Lt l r) (icmp c Int_Gt l r)) =
    ordering_int (int_cmp (sint l) (sint r))" if "clif_ints c"
  using ordering_ok [OF that, of "sint l" "sint r"] that by (simp add: clif_ints_def)

lemma trap_result [simp]:
  "native_result (trap_if b t r) = (if b \<noteq> 0 then Inl (trap_error t) else native_result r)"
  by (simp add: trap_if_def)

lemma native_div:
  assumes c: "clif_ints c"
  shows "native_result (emit_int_div c l r) = the (int_op env OpDiv (sint l) (sint r))"
proof (cases "divides l r")
  case True
  let ?q = "trunc_div (sint l) (sint r)" and ?m = "trunc_rem (sint l) (sint r)"
  have r: "sint r \<noteq> 0" using True by (simp add: divides_def sint_eq_0)
  have q: "sint (sdiv c l r) = ?q" "sint (srem c l r) = ?m" using c True by (auto simp: clif_ints_def)
  have fits: "in_i64 ?q" using q(1) sint_in_i64 [of "sdiv c l r"] by simp
  then have "in_i64 (sint l div sint r)" using in_i64_div [OF sint_in_i64 r] by simp
  then have "?m \<noteq> 0 \<Longrightarrow> (sint l < 0) \<noteq> (sint r < 0) \<Longrightarrow> in_i64 (?q - 1)"
    using trunc_div_floor [OF r, of "sint l"] by simp
  then have "?m \<noteq> 0 \<Longrightarrow> (sint l < 0) \<noteq> (sint r < 0) \<Longrightarrow> sint (iadd_imm c (sdiv c l r) (- 1)) = ?q - 1"
    using c sint_small(1) [of "sdiv c l r" "- 1"] by (simp add: clif_ints_def iadd_imm_def q)
  moreover have "bxor c l r = xor l r" "band8 c = and" "\<And>b x y. select c b x y = (if b \<noteq> 0 then x else y)"
    using c by (auto simp: clif_ints_def fun_eq_iff)
  ultimately show ?thesis
    using c r fits True
    by (auto simp: emit_int_div_def emit_check_divisor_def icmp_imm_ok Let_def int_op_def divides_def q sint_bits xor_sign)
next
  case False
  have "in_i64 (sint l) \<Longrightarrow> sint l = i64_min \<Longrightarrow> sint r = - 1 \<Longrightarrow> \<not> in_i64 (trunc_div (sint l) (sint r))"
    by (simp add: trunc_div_def in_i64_def)
  moreover have "band8 c = and" using c by (auto simp: clif_ints_def fun_eq_iff)
  ultimately show ?thesis
    using c False
    by (auto simp: emit_int_div_def emit_check_divisor_def icmp_imm_ok int_op_def divides_def overflow_def sint_eq_0)
qed

lemma native_rem:
  assumes c: "clif_ints c"
  shows "native_result (emit_int_rem c l r) = the (int_op env OpRem (sint l) (sint r))"
proof (cases "r = 0")
  case True
  then show ?thesis
    using c by (simp add: emit_int_rem_def emit_check_divisor_def icmp_imm_ok int_op_def)
next
  case False
  define d where "d = (if sint r = - 1 then 1 else r)"
  let ?m = "trunc_rem (sint l) (sint r)"
  have r: "sint r \<noteq> 0" using False by (simp add: sint_eq_0)
  have "divides l d" using False by (auto simp: d_def divides_def)
  then have "sint (srem c l d) = trunc_rem (sint l) (sint d)" using c by (auto simp: clif_ints_def)
  also have "\<dots> = ?m" by (auto simp: d_def trunc_rem_def trunc_div_def sgn_if)
  finally have m: "sint (srem c l d) = ?m" .
  have "?m \<noteq> 0 \<Longrightarrow> (?m < 0) \<noteq> (sint r < 0) \<Longrightarrow> in_i64 (?m + sint r)"
    using sint_in_i64 [of "srem c l d"] sint_in_i64 [of r] by (auto simp: m in_i64_def)
  then have "?m \<noteq> 0 \<Longrightarrow> (?m < 0) \<noteq> (sint r < 0) \<Longrightarrow> sint (srem c l d + r) = ?m + sint r"
    by (simp add: sint_small(1) m)
  moreover have sel: "\<And>b x y. select c b x y = (if b \<noteq> 0 then x else y)" "iadd c = (+)" "bxor c = xor" "band8 c = and"
    using c by (auto simp: clif_ints_def fun_eq_iff)
  moreover have "select c (icmp_imm c Int_Eq r (- 1)) 1 r = d"
    using c by (auto simp: sel icmp_imm_ok d_def)
  ultimately show ?thesis
    using c False r
    by (auto simp: emit_int_rem_def emit_check_divisor_def icmp_imm_ok Let_def int_op_def m sint_bits xor_sign)
qed

definition int_operators :: "binop set" where
  "int_operators = {OpAdd, OpSub, OpMul, OpDiv, OpRem, OpLt, OpLe, OpGt, OpGe, OpCmp, OpBitAnd, OpBitOr, OpBitXor}"

lemma native_int_op:
  assumes c: "clif_ints c" and op: "op \<in> int_operators"
  shows "map_option native_result (emit_int_binary c op l r) = int_op env op (sint l) (sint r)"
proof -
  have "sadd_overflow c l r = (l + r, bit_of (\<not> in_i64 (sint l + sint r)))"
    "ssub_overflow c l r = (l - r, bit_of (\<not> in_i64 (sint l - sint r)))"
    "smul_overflow c l r = (l * r, bit_of (\<not> in_i64 (sint l * sint r)))"
    "\<And>cc. icmp c cc l r = bit_of (int_holds cc (sint l) (sint r))"
    "band c = and" "bor c = or" "bxor c = xor"
    using c by (auto simp: clif_ints_def fun_eq_iff)
  note laws = this native_div [OF c, of l r env] native_rem [OF c, of l r env] sint_int_cmp [OF c, of l r]
  show ?thesis
    using op unfolding int_operators_def
    by (elim insertE emptyE; simp only: emit_int_binary_def binop.case)
      (simp_all add: laws Let_def ordering_ok [OF c] int_op_def checked_def overflow_def sint_small sint_bits)
qed

subsection \<open>Operators on numbers and booleans\<close>

definition float_operators :: "binop set" where
  "float_operators = {OpAdd, OpSub, OpMul, OpDiv, OpLt, OpLe, OpGt, OpGe, OpCmp}"

lemma partial_cmp_eq: "f64_partial_cmp l r = Some Equal \<longleftrightarrow> f64_eq l r"
  by (auto simp: f64_partial_cmp_def f64_eq_def int_cmp_def)

lemma native_float_op:
  assumes c: "clif_ints c" "clif_floats c env fv" and op: "op \<in> float_operators"
  shows "map_option (native_result \<circ> Inr) (emit_float_binary c op l r) = float_op env op l r"
proof -
  have laws: "\<And>cc. fcmp c cc l r = bit_of (float_holds cc (f64_partial_cmp l r))"
    "fadd c = fl_add env" "fsub c = fl_sub env" "fmul c = fl_mul env" "fdiv c = fl_div env"
    using c by (auto simp: clif_floats_def)
  have "\<And>b x y. select c b x y = (if b \<noteq> 0 then x else y)" using c by (auto simp: clif_ints_def)
  then have "sint (emit_ordering c (fcmp c Float_Lt l r) (fcmp c Float_Gt l r)) =
    (case f64_partial_cmp l r of None \<Rightarrow> 0 | Some o' \<Rightarrow> ordering_int o')"
    by (auto simp: emit_ordering_def laws ordering_int_def split: option.split ordering.split)
  then show ?thesis
    using op unfolding float_operators_def
    by (elim insertE emptyE; simp only: emit_float_binary_def float_op_def binop.case) (simp_all add: laws)
qed

lemma accept_not_refuse [simp]: "refuse why \<noteq> accept t" "accept t \<noteq> refuse why"
  by (auto simp: accept_def refuse_def fun_eq_iff)

lemma accept_eq [simp]: "accept t = accept u \<longleftrightarrow> t = u"
  by (auto simp: accept_def fun_eq_iff)

lemma if_accept: "(if b then m else n) = accept u \<longleftrightarrow> (b \<and> m = accept u) \<or> (\<not> b \<and> n = accept u)"
  by simp

lemma scalar_types: "\<not> is_heap t \<Longrightarrow> t \<in> {NInt, NFloat, NBool}"
  by (cases t) auto

definition equalities :: "binop set" where
  "equalities = {OpEq, OpNotEq}"

text \<open>The operators on scalars that \<open>infer\<close> types, apart from \<open>&&\<close> and \<open>||\<close>.\<close>

lemma typed_scalars:
  assumes "binary_types cx op l r = accept t" "\<not> is_heap l" "\<not> is_heap r" "op \<noteq> OpAnd" "op \<noteq> OpOr"
  shows "l = NInt \<and> r = NInt \<and> op \<in> int_operators \<union> equalities \<or>
         is_number l \<and> is_number r \<and> (l = NFloat \<or> r = NFloat) \<and> op \<in> float_operators \<union> equalities \<or>
         l = NBool \<and> r = NBool \<and> op \<in> equalities"
  using assms scalar_types [OF assms(2)] scalar_types [OF assms(3)]
  unfolding binary_types_def int_operators_def float_operators_def equalities_def
  by (cases op) (auto simp: Let_def is_unknown_def if_accept split: if_splits)

text \<open>The type of the result, as translation computes it (\<open>scalar_result\<close>), is the one \<open>infer\<close> gives.\<close>

lemma scalar_result_typed:
  assumes "binary_types cx op l r = accept t" "\<not> is_heap l" "\<not> is_heap r"
  shows "scalar_result op l r = t"
  using assms scalar_types [OF assms(2)] scalar_types [OF assms(3)]
  unfolding binary_types_def scalar_result_def
  by (cases op) (auto simp: Let_def is_unknown_def if_accept split: if_splits)

lemma plain_numeric:
  assumes "op \<in> int_operators \<union> float_operators" "numeric env op l r = Some x"
  shows "binop env at op l r = x"
proof -
  obtain "(\<exists>a. l = VInt a) \<or> (\<exists>f. l = VFloat f)" "(\<exists>a. r = VInt a) \<or> (\<exists>f. r = VFloat f)"
    using assms(2) by (auto simp: numeric_def split: val.splits)
  then show ?thesis
    using assms(1,2) unfolding int_operators_def float_operators_def
    by (elim disjE exE; hypsubst)
      (auto simp: binop_def plain_binop_def add_values_def sub_values_def mul_values_def set_values_def numeric_def)
qed

lemma equal_scalars:
  "equal (VInt a) (VInt b) \<longleftrightarrow> a = b"
  "equal (VBool p) (VBool q) \<longleftrightarrow> p = q"
  "equal (VFloat x) (VFloat y) \<longleftrightarrow> f64_eq x y"
  "equal (VInt a) (VFloat y) \<longleftrightarrow> f64_eq (f64_of_int a) y"
  "equal (VFloat x) (VInt b) \<longleftrightarrow> f64_eq x (f64_of_int b)"
  by (subst equal.simps, simp add: f64_eq_sym)+

declare equal.simps [simp del]

lemma binop_equalities:
  assumes "\<not> is_tainted l" "\<not> is_tainted r"
  shows "binop env at OpEq l r = Inr (VBool (equal l r))" "binop env at OpNotEq l r = Inr (VBool (\<not> equal l r))"
  using assms by (simp_all add: binop_def plain_binop_def)

lemma repr_plain [simp]: "\<not> is_tainted (repr v)" "repr v \<noteq> VDuration d"
  by (cases v; simp)+

lemma native_int_some:
  assumes "clif_ints c" "op \<in> int_operators"
  shows "\<exists>x. emit_int_binary c op a b = Some x \<and> int_op env op (sint a) (sint b) = Some (native_result x)"
proof -
  have "int_op env op (sint a) (sint b) \<noteq> None"
    using assms(2) unfolding int_operators_def int_op_def Let_def
    by (elim insertE emptyE; simp only: binop.case) simp_all
  with native_int_op [OF assms, of a b env] show ?thesis by (cases "emit_int_binary c op a b") simp_all
qed

lemma native_float_some:
  assumes "clif_ints c" "clif_floats c env fv" "op \<in> float_operators"
  shows "\<exists>v. emit_float_binary c op x y = Some v \<and> float_op env op x y = Some (Inr (repr v))"
proof -
  have "float_op env op x y \<noteq> None" using assms(3) by (auto simp: float_operators_def float_op_def)
  with native_float_op [OF assms, of x y] show ?thesis by (cases "emit_float_binary c op x y") simp_all
qed

lemma number_values:
  "nval_of NInt v \<Longrightarrow> \<exists>n. v = NI n" "nval_of NFloat v \<Longrightarrow> \<exists>f. v = NF f"
  "nval_of NBool v \<Longrightarrow> \<exists>b. v = NB b \<and> (b = 0 \<or> b = 1)"
  by (cases v; simp)+

text \<open>The numbers on either side of an operator on doubles.\<close>

definition double_of :: "val \<Rightarrow> f64" where
  "double_of v = (case v of VInt n \<Rightarrow> f64_of_int n | VFloat f \<Rightarrow> f | _ \<Rightarrow> 0)"

lemma native_doubles:
  assumes c: "clif_floats c env fv" and n: "nval_of lt l" "nval_of rt r" "is_number lt" "is_number rt"
    and mixed: "lt = NFloat \<or> rt = NFloat"
  shows "emit_scalar_binary c op l r =
           map_option Inr (emit_float_binary c op (double_of (repr l)) (double_of (repr r)))"
    and "numeric env op (repr l) (repr r) =
           Some (or_type_error op (repr l) (repr r) (float_op env op (double_of (repr l)) (double_of (repr r))))"
    and "equal (repr l) (repr r) \<longleftrightarrow> f64_eq (double_of (repr l)) (double_of (repr r))"
proof -
  have "\<And>n. fcvt_from_sint c n = f64_of_int (sint n)" using c by (auto simp: clif_floats_def)
  moreover have "(\<exists>n. l = NI n) \<and> lt = NInt \<or> (\<exists>f. l = NF f) \<and> lt = NFloat"
    "(\<exists>n. r = NI n) \<and> rt = NInt \<or> (\<exists>f. r = NF f) \<and> rt = NFloat"
    using n by (cases l; cases lt; simp)(use n in \<open>cases r; cases rt; simp\<close>)
  ultimately show "emit_scalar_binary c op l r =
      map_option Inr (emit_float_binary c op (double_of (repr l)) (double_of (repr r)))"
    and "numeric env op (repr l) (repr r) =
      Some (or_type_error op (repr l) (repr r) (float_op env op (double_of (repr l)) (double_of (repr r))))"
    and "equal (repr l) (repr r) \<longleftrightarrow> f64_eq (double_of (repr l)) (double_of (repr r))"
    using mixed by (auto simp: emit_scalar_binary_def emit_as_float_def double_of_def numeric_def equal_scalars)
qed

lemma native_operator:
  assumes c: "clif_ints c" "clif_floats c env fv" and n: "nval_of lt l" "nval_of rt r"
    and t: "binary_types cx op lt rt = accept t" "\<not> is_heap lt" "\<not> is_heap rt" "op \<noteq> OpAnd" "op \<noteq> OpOr"
  shows "map_option native_result (emit_scalar_binary c op l r) = Some (binop env at op (repr l) (repr r))"
proof -
  consider (ints) "lt = NInt" "rt = NInt" "op \<in> int_operators \<union> equalities"
    | (num) "is_number lt" "is_number rt" "lt = NFloat \<or> rt = NFloat" "op \<in> float_operators \<union> equalities"
    | (bools) "lt = NBool" "rt = NBool" "op \<in> equalities"
    using typed_scalars [OF t] by blast
  then show ?thesis
  proof cases
  case ints
  then obtain a b where ab: "l = NI a" "r = NI b" using n number_values by blast
  from ints(3) show ?thesis
  proof
    assume op: "op \<in> int_operators"
    with native_int_some [OF c(1) op, of a b env] plain_numeric [of op env "VInt (sint a)" "VInt (sint b)"]
    show ?thesis by (auto simp: ab emit_scalar_binary_def numeric_def or_type_error_def)
  next
    assume "op \<in> equalities"
    moreover have "\<And>cc. icmp c cc a b = bit_of (int_holds cc (sint a) (sint b))" using c by (auto simp: clif_ints_def)
    ultimately show ?thesis
      by (auto simp: ab emit_scalar_binary_def emit_int_binary_def equalities_def binop_equalities equal_scalars)
  qed
next
  case bools
  then obtain a b where ab: "l = NB a" "r = NB b" "a = 0 \<or> a = 1" "b = 0 \<or> b = 1" using n number_values by blast
  moreover have "\<And>cc. icmp8 c cc a b = bit_of (int_holds cc (sint a) (sint b))" using c by (auto simp: clif_ints_def)
  ultimately show ?thesis
    using bools(3) by (auto simp: emit_scalar_binary_def equalities_def binop_equalities equal_scalars)
next
  case num
  note d = native_doubles [OF c(2) n num(1-3)]
  let ?x = "double_of (repr l)" and ?y = "double_of (repr r)"
  from num(4) show ?thesis
  proof
    assume op: "op \<in> float_operators"
    obtain v where "emit_float_binary c op ?x ?y = Some v" "float_op env op ?x ?y = Some (Inr (repr v))"
      using native_float_some [OF c op] by blast
    with op plain_numeric [of op env "repr l" "repr r"] show ?thesis by (simp add: d or_type_error_def)
  next
    assume "op \<in> equalities"
    moreover have "\<And>cc. fcmp c cc ?x ?y = bit_of (float_holds cc (f64_partial_cmp ?x ?y))"
      using c by (auto simp: clif_floats_def)
    ultimately show ?thesis
      by (auto simp: d emit_float_binary_def equalities_def binop_equalities partial_cmp_eq)
  qed
  qed
qed

text \<open>
  C28: A number's operator that the typing accepts gives in native code what it gives interpreted:
  the same number or boolean, or the same error.
\<close>

theorem native_operators_agree:
  assumes "clif_ints c" and "clif_floats c env fv"
    and "binary_types cx op lt rt = accept t" and "\<not> is_heap lt" and "\<not> is_heap rt"
    and "op \<noteq> OpAnd" and "op \<noteq> OpOr" and "nval_of lt l" and "nval_of rt r"
  shows "map_option native_result (emit_scalar_binary c op l r) = Some (binop env at op (repr l) (repr r)) \<and>
         scalar_result op lt rt = t"
  by (intro conjI native_operator scalar_result_typed) (fact assms)+

subsection \<open>Unary operators and methods\<close>

lemma sint_neg: "sint (n :: i64) \<noteq> i64_min \<Longrightarrow> sint (- n) = - sint n"
proof -
  assume "sint n \<noteq> i64_min"
  with sint_in_i64 [of n] have "in_i64 (- sint n)" by (auto simp: in_i64_def)
  then show "sint (- n) = - sint n"
    by (simp add: in_i64_def sint_word_ariths signed_take_bit_int_eq_self)
qed

lemma in_i64_neg: "in_i64 n \<Longrightarrow> in_i64 (- n) \<longleftrightarrow> n \<noteq> i64_min"
  by (auto simp: in_i64_def)

lemma native_unary:
  assumes c: "clif_ints c" "clif_floats c env fv" and v: "nval_of t v"
    and t: "op = UNeg \<and> is_number t \<or> op = UNot \<and> t = NBool"
  shows "native_result (emit_unary c op v) = unary_value op (repr v)"
proof -
  have laws: "ineg c = uminus" "fneg c = f64_neg" "\<And>b. icmp8 c Int_Eq b 0 = bit_of (b = 0)"
    using c by (auto simp: clif_ints_def clif_floats_def fun_eq_iff signed_eq_0_iff)
  show ?thesis
    using t v c sint_neg
    by (cases v; cases t)
      (auto simp: emit_unary_def unary_value_def laws icmp_imm_ok checked_def in_i64_neg overflow_def)
qed

text \<open>The name of a method of a number without arguments, as \<open>infer\<close> resolves it.\<close>

lemma rem_2: "trunc_rem n 2 = 0 \<longleftrightarrow> even n"
  by (auto simp: trunc_rem_def trunc_div_def sgn_if even_iff_mod_2_eq_zero) presburger+

lemma band_1: "sint (and n 1 :: i64) = 0 \<longleftrightarrow> even (sint n)"
proof -
  have "sint (and n 1) = and (sint n) 1" by (simp only: sint_bits) simp
  then show ?thesis by (simp add: and_one_eq even_iff_mod_2_eq_zero)
qed

definition number_method :: "op_env \<Rightarrow> float_env \<Rightarrow> rtext \<Rightarrow> val \<Rightarrow> (error + val) option" where
  "number_method env fv name v = (case v of
     VInt n \<Rightarrow> int_method env name n []
   | VFloat f \<Rightarrow> float_method env fv name f []
   | _ \<Rightarrow> None)"

lemma method_alone_scalar:
  assumes "method_alone cx t name = accept (m, Some r)" "is_number t"
  shows "\<exists>names. (names, m, r) \<in> set (simple_methods t) \<and> name \<in> set names"
proof (cases "find (\<lambda>(names, _). name \<in> set names) (simple_methods t)")
  case None
  with assms show ?thesis by (cases t) (simp_all add: method_alone_def)
next
  case (Some x)
  then have "x \<in> set (simple_methods t)" "name \<in> set (fst x)" by (auto dest: find_SomeD)
  with Some assms(1) show ?thesis by (cases x) (auto simp: method_alone_def)
qed

lemma in_i64_abs: "in_i64 n \<Longrightarrow> in_i64 \<bar>n\<bar> \<longleftrightarrow> n \<noteq> i64_min"
  by (auto simp: in_i64_def)

lemma simple_number_methods:
  assumes "(names, m, r) \<in> set (simple_methods t)" "name \<in> set names" "m \<noteq> MToS" "is_number t"
  shows "t = NInt \<and> (m, name, r) \<in> {(MSame, str ''to_i'', NInt), (MSame, str ''round'', NInt), (MSame, str ''floor'', NInt),
           (MSame, str ''ceil'', NInt), (MIntToF, str ''to_f'', NFloat), (MIntAbs, str ''abs'', NInt),
           (MIntZero, str ''zero?'', NBool), (MEven, str ''even?'', NBool), (MOdd, str ''odd?'', NBool)} \<or>
         t = NFloat \<and> (m, name, r) \<in> {(MSame, str ''to_f'', NFloat), (MFloatToI, str ''to_i'', NInt),
           (MFloatAbs, str ''abs'', NFloat), (MFloatZero, str ''zero?'', NBool), (MFloor, str ''floor'', NInt),
           (MCeil, str ''ceil'', NInt)}"
proof (cases t)
  case NInt
  from assms(1) show ?thesis
    unfolding NInt simple_methods_def nty.case list.set insert_iff empty_iff
    using assms(2,3) by (elim disjE Pair_inject FalseE; hypsubst) auto
next
  case NFloat
  from assms(1) show ?thesis
    unfolding NFloat simple_methods_def nty.case list.set insert_iff empty_iff
    using assms(2,3) by (elim disjE Pair_inject FalseE; hypsubst) auto
qed (use assms(4) in simp_all)

text \<open>An outcome of a type: a value of it, or an error.\<close>

fun outcome_of :: "nty \<Rightarrow> trap + nval \<Rightarrow> bool" where
  "outcome_of t (Inl e) = True"
| "outcome_of t (Inr v) = nval_of t v"

lemma outcome_trap_if [simp]: "outcome_of t r \<Longrightarrow> outcome_of t (trap_if b e r)"
  by (simp add: trap_if_def)

lemma bit_of_nval [simp]: "nval_of NBool (NB (bit_of b))"
  by (simp add: bit_of_def)

lemma native_method:
  assumes c: "clif_ints c" "clif_floats c env fv" and v: "nval_of t v" "is_number t"
    and m: "(names, m, r) \<in> set (simple_methods t)" "name \<in> set names" "m \<noteq> MToS"
  shows "map_option native_result (emit_number_method c m v) = number_method env fv name (repr v) \<and>
    (\<exists>res. emit_number_method c m v = Some res \<and> outcome_of r res)"
proof -
  have laws: "\<And>n. sint n \<noteq> i64_min \<Longrightarrow> sint (iabs c n) = \<bar>sint n\<bar>" "\<And>n. band c n 1 = and n 1"
    "\<And>cc l r. fcmp c cc l r = bit_of (float_holds cc (f64_partial_cmp l r))"
    "fabs c = f64_abs" "ffloor c = fv_floor fv" "fceil c = fv_ceil fv"
    "\<And>n. fcvt_from_sint c n = f64_of_int (sint n)" "\<And>f. sint (fcvt_to_sint_sat c f) = fv_to_i64 fv f"
    using c by (auto simp: clif_ints_def clif_floats_def)
  note defs = number_method_def emit_number_method_def laws icmp_imm_ok [OF c(1)]
  show ?thesis
    using simple_number_methods [OF m v(2)]
  proof (elim disjE conjE)
    assume t: "t = NInt" and names: "(m, name, r) \<in> {(MSame, str ''to_i'', NInt), (MSame, str ''round'', NInt),
      (MSame, str ''floor'', NInt), (MSame, str ''ceil'', NInt), (MIntToF, str ''to_f'', NFloat), (MIntAbs, str ''abs'', NInt),
      (MIntZero, str ''zero?'', NBool), (MEven, str ''even?'', NBool), (MOdd, str ''odd?'', NBool)}"
    obtain n where n: "v = NI n" using v t number_values by blast
    show ?thesis
      using names unfolding n
      by (elim insertE emptyE Pair_inject; hypsubst)
        (simp_all add: defs int_method_def checked_def overflow_def in_i64_abs rem_2 band_1)
  next
    assume t: "t = NFloat" and names: "(m, name, r) \<in> {(MSame, str ''to_f'', NFloat), (MFloatToI, str ''to_i'', NInt),
      (MFloatAbs, str ''abs'', NFloat), (MFloatZero, str ''zero?'', NBool), (MFloor, str ''floor'', NInt),
      (MCeil, str ''ceil'', NInt)}"
    obtain f where f: "v = NF f" using v t number_values by blast
    show ?thesis
      using names unfolding f
      by (elim insertE emptyE Pair_inject; hypsubst)
        (simp_all add: defs float_method_def partial_cmp_eq f64_is_zero_def)
  qed
qed

lemma native_unary_typed: "nval_of t v \<Longrightarrow> is_number t \<Longrightarrow> outcome_of t (emit_unary c UNeg v)"
  by (cases v; cases t) (auto simp: emit_unary_def)

text \<open>
  C30: The negation of a number, or a method without arguments on one, gives in native code what it gives
  interpreted, the value or the error, wherever the typing accepts it (other than \<open>to_s\<close>, which makes a
  string); and the value is of the type that the typing announces.
\<close>

theorem native_methods_agree:
  assumes "clif_ints c" and "clif_floats c env fv" and "nval_of t v" and "is_number t"
    and "method_alone cx t name = accept (m, Some r)" and "m \<noteq> MToS"
  shows "map_option native_result (emit_number_method c m v) = number_method env fv name (repr v) \<and>
         (\<exists>res. emit_number_method c m v = Some res \<and> outcome_of r res) \<and>
         native_result (emit_unary c UNeg v) = unary_value UNeg (repr v) \<and> outcome_of t (emit_unary c UNeg v)"
proof -
  obtain names where "(names, m, r) \<in> set (simple_methods t)" "name \<in> set names"
    using method_alone_scalar [OF assms(5,4)] by blast
  from native_method [OF assms(1-4) this assms(6)] native_unary [OF assms(1-3)] native_unary_typed [OF assms(3,4)] assms(4)
  show ?thesis by blast
qed

subsection \<open>Instructions that do this\<close>

lemma trunc_div_fits:
  assumes "divides l r"
  shows "in_i64 (trunc_div (sint l) (sint r))"
proof (cases "\<bar>sint r\<bar> = 1")
  case True
  then have "sint r = 1 \<or> sint r = - 1" by linarith
  with assms sint_in_i64 [of l] show ?thesis by (auto simp: trunc_div_def divides_def sgn_if in_i64_def)
next
  case False
  moreover have "sint r \<noteq> 0" using assms by (simp add: divides_def sint_eq_0)
  ultimately have "2 \<le> \<bar>sint r\<bar>" by linarith
  then have "\<bar>sint l\<bar> div \<bar>sint r\<bar> \<le> \<bar>sint l\<bar> div 2" by (intro zdiv_mono2) simp_all
  moreover have "\<bar>sint l\<bar> div 2 \<le> 2 ^ 63 div 2"
    using sint_in_i64 [of l] by (intro zdiv_mono1) (auto simp: in_i64_def)
  moreover have "\<bar>trunc_div (sint l) (sint r)\<bar> \<le> \<bar>sint l\<bar> div \<bar>sint r\<bar>"
    by (auto simp: trunc_div_def abs_mult sgn_if pos_imp_zdiv_nonneg_iff)
  ultimately have "\<bar>trunc_div (sint l) (sint r)\<bar> \<le> 2 ^ 62" by simp
  then show ?thesis by (auto simp: in_i64_def abs_le_iff)
qed

lemma trunc_rem_mod: "trunc_rem a b = sgn a * (\<bar>a\<bar> mod \<bar>b\<bar>)"
proof -
  have "trunc_rem a b = sgn a * (\<bar>a\<bar> - \<bar>b\<bar> * (\<bar>a\<bar> div \<bar>b\<bar>))"
    by (simp add: trunc_rem_def trunc_div_def sgn_if algebra_simps)
  then show ?thesis by (simp add: minus_mult_div_eq_mod)
qed

lemma trunc_rem_fits: "r \<noteq> 0 \<Longrightarrow> in_i64 (trunc_rem (sint l) (sint (r :: i64)))"
proof -
  assume "r \<noteq> 0"
  then have "sint r \<noteq> 0" by (simp add: sint_eq_0)
  then have "0 \<le> \<bar>sint l\<bar> mod \<bar>sint r\<bar>" "\<bar>sint l\<bar> mod \<bar>sint r\<bar> < \<bar>sint r\<bar>" by simp_all
  moreover have "\<bar>sint r\<bar> \<le> 2 ^ 63" using sint_in_i64 [of r] by (auto simp: in_i64_def)
  moreover have "\<bar>trunc_rem (sint l) (sint r)\<bar> \<le> \<bar>sint l\<bar> mod \<bar>sint r\<bar>"
    using calculation(1) by (simp add: trunc_rem_mod abs_mult abs_sgn_eq)
  ultimately have "\<bar>trunc_rem (sint l) (sint r)\<bar> < 2 ^ 63" by linarith
  then show ?thesis by (simp add: in_i64_def abs_less_iff)
qed

definition ideal_clif :: "op_env \<Rightarrow> float_env \<Rightarrow> clif" where
  "ideal_clif env fv =
     \<lparr>icmp = (\<lambda>cc l r. bit_of (int_holds cc (sint l) (sint r))),
      icmp8 = (\<lambda>cc l r. bit_of (int_holds cc (sint l) (sint r))),
      fcmp = (\<lambda>cc l r. bit_of (float_holds cc (f64_partial_cmp l r))),
      sadd_overflow = (\<lambda>l r. (l + r, bit_of (\<not> in_i64 (sint l + sint r)))),
      ssub_overflow = (\<lambda>l r. (l - r, bit_of (\<not> in_i64 (sint l - sint r)))),
      smul_overflow = (\<lambda>l r. (l * r, bit_of (\<not> in_i64 (sint l * sint r)))),
      sdiv = (\<lambda>l r. word_of_int (trunc_div (sint l) (sint r))),
      srem = (\<lambda>l r. word_of_int (trunc_rem (sint l) (sint r))),
      iadd = (+), ineg = uminus, iabs = (\<lambda>n. word_of_int \<bar>sint n\<bar>),
      band = and, bor = or, bxor = xor, band8 = and, select = (\<lambda>b x y. if b \<noteq> 0 then x else y),
      fadd = fl_add env, fsub = fl_sub env, fmul = fl_mul env, fdiv = fl_div env,
      fneg = f64_neg, fabs = f64_abs, ffloor = fv_floor fv, fceil = fv_ceil fv, fsqrt = fv_sqrt fv,
      fcvt_from_sint = (\<lambda>n. f64_of_int (sint n)), fcvt_to_sint_sat = (\<lambda>f. word_of_int (fv_to_i64 fv f))\<rparr>"

lemma ideal_ints: "clif_ints (ideal_clif env fv)"
  by (auto simp: clif_ints_def ideal_clif_def trunc_div_fits trunc_rem_fits in_i64_abs divides_def)

definition sample_floats :: float_env where
  "sample_floats = \<lparr>fv_round = id, fv_floor = id, fv_ceil = id, fv_sqrt = id, fv_to_i64 = (\<lambda>f. 0), fv_powi = (\<lambda>f n. f)\<rparr>"

lemma ideal_floats: "clif_floats (ideal_clif env sample_floats) env sample_floats"
  by (auto simp: clif_floats_def ideal_clif_def sample_floats_def)

definition sample_cx :: infer_cx where
  "sample_cx = \<lparr>ix_sigs = Map.empty, ix_structs = \<lparr>ss_defs = [], ss_by_name = Map.empty\<rparr>, ix_ret = Some NInt,
     ix_target = Hosted, ix_seed = Map.empty,
     ix_env = \<lparr>is_alphabetic = (\<lambda>c. False), is_numeric = (\<lambda>c. False), is_uppercase = (\<lambda>c. False), parse_f64 = (\<lambda>s. None)\<rparr>\<rparr>"

lemma native_operators_agree_witness:
  "map_option native_result (emit_scalar_binary (ideal_clif sample_env sample_floats) OpDiv (NI (- 7)) (NI 2)) =
     Some (binop sample_env 0 OpDiv (VInt (- 7)) (VInt 2)) \<and> scalar_result OpDiv NInt NInt = NInt"
  using native_operators_agree [OF ideal_ints ideal_floats, of sample_cx OpDiv NInt NInt NInt "NI (- 7)" "NI 2" sample_env 0]
  by (simp add: binary_types_def)

lemma native_methods_agree_witness:
  "let c = ideal_clif sample_env sample_floats in
   map_option native_result (emit_number_method c MIntAbs (NI (- 5))) =
     number_method sample_env sample_floats (str ''abs'') (VInt (- 5)) \<and>
   (\<exists>res. emit_number_method c MIntAbs (NI (- 5)) = Some res \<and> outcome_of NInt res) \<and>
   native_result (emit_unary c UNeg (NI (- 5))) = unary_value UNeg (VInt (- 5)) \<and> outcome_of NInt (emit_unary c UNeg (NI (- 5)))"
  using native_methods_agree [OF ideal_ints ideal_floats, of NInt "NI (- 5)" sample_cx "str ''abs''" MIntAbs NInt sample_env]
  by (simp add: method_alone_def simple_methods_def)

subsection \<open>The successor of the greatest integer\<close>

text \<open>\<open>succ\<close> and \<open>pred\<close> wrap at the bounds, where every other operation reports the overflow.\<close>

lemma succ_wraps: "int_method env (str ''succ'') i64_max [] = Some (Inr (VInt i64_min))"
  by (simp add: int_method_def wrap_i64_def)

end
