(* ===== verification/Liveness.thy ===== *)
theory Liveness
  imports Infer
begin

text \<open>
  Liveness of the variables that hold objects (grenat\_codegen: src/liveness.rs): the plan of where a
  reference moves and where it is dropped. The four tables of a plan are one map here, from a key that
  says which table; what a function writes to it is returned, later writes over earlier ones. A panic
  (a construct that typing should have rejected) and a loop that does not end are \<open>None\<close>.
\<close>

subsection \<open>Plans\<close>

datatype edge = Edge_Then | Edge_Else | Edge_Rhs | Edge_Skip | Edge_Body | Edge_Exit

type_synonym live = "rtext set"

datatype plan_key = Key_Move addr | Key_Dead_Def addr | Key_Edge addr edge | Key_Dead_Params addr

datatype plan_entry = Flag bool | Dying live | Dead_Params "rtext list"

type_synonym plan = "plan_key \<Rightarrow> plan_entry option"

definition plan_moves :: "plan \<Rightarrow> addr \<Rightarrow> bool" where
  "plan_moves pl a \<longleftrightarrow> pl (Key_Move a) = Some (Flag True)"

definition plan_dead_after :: "plan \<Rightarrow> addr \<Rightarrow> bool" where
  "plan_dead_after pl a \<longleftrightarrow> pl (Key_Dead_Def a) = Some (Flag True)"

definition plan_drops :: "plan \<Rightarrow> addr \<Rightarrow> edge \<Rightarrow> live" where
  "plan_drops pl a ed = (case pl (Key_Edge a ed) of Some (Dying vs) \<Rightarrow> vs | _ \<Rightarrow> {})"

definition plan_dead_params :: "plan \<Rightarrow> addr \<Rightarrow> rtext list" where
  "plan_dead_params pl a = (case pl (Key_Dead_Params a) of Some (Dead_Params vs) \<Rightarrow> vs | _ \<Rightarrow> [])"

subsection \<open>The analysis\<close>

text \<open>What is live before a point, and what was written to the plan on the way.\<close>

type_synonym 'a planned = "('a \<times> plan) option"

definition bindP :: "'a planned \<Rightarrow> ('a \<Rightarrow> 'b planned) \<Rightarrow> 'b planned" where
  "bindP m f = (case m of
     None \<Rightarrow> None
   | Some (x, w) \<Rightarrow> (case f x of None \<Rightarrow> None | Some (y, w') \<Rightarrow> Some (y, w ++ w')))"

definition live_read :: "typed \<Rightarrow> addr \<Rightarrow> rtext \<Rightarrow> live \<Rightarrow> live planned" where
  "live_read tp a name live =
     Some (if is_heap_var tp name then (insert name live, [Key_Move a \<mapsto> Flag (name \<notin> live)])
           else (live, Map.empty))"

definition live_define :: "typed \<Rightarrow> addr \<Rightarrow> rtext \<Rightarrow> live \<Rightarrow> live planned" where
  "live_define tp a name live =
     Some (if is_heap_var tp name then (live - {name}, [Key_Dead_Def a \<mapsto> Flag (name \<notin> live)])
           else (live, Map.empty))"

definition live_edges :: "addr \<Rightarrow> edge \<Rightarrow> edge \<Rightarrow> live \<Rightarrow> live \<Rightarrow> live planned" where
  "live_edges a ed1 ed2 live1 live2 =
     (let decided = live1 \<union> live2
      in Some (decided, [Key_Edge a ed1 \<mapsto> Dying (decided - live1), Key_Edge a ed2 \<mapsto> Dying (decided - live2)]))"

text \<open>Expressions evaluated from left to right, analysed from right to left.\<close>

type_synonym analysis = "expr \<Rightarrow> addr \<Rightarrow> live \<Rightarrow> live planned"

fun live_seq :: "analysis \<Rightarrow> (addr \<times> expr) list \<Rightarrow> live \<Rightarrow> live planned" where
  "live_seq f [] live = Some (live, Map.empty)"
| "live_seq f ((b, e) # es) live = bindP (live_seq f es live) (f e b)"

text \<open>The live set at a loop's header: from the one after the loop until it no longer changes.\<close>

partial_function (option) fixed_point :: "(live \<Rightarrow> live planned) \<Rightarrow> live \<Rightarrow> live planned" where
  "fixed_point step header = (case step header of
     None \<Rightarrow> None
   | Some (next, w) \<Rightarrow>
       if next = header then Some (header, w)
       else Option.bind (fixed_point step next) (\<lambda>(l, w'). Some (l, w ++ w')))"

declare fixed_point.simps [code]

definition live_inlined ::
  "typed \<Rightarrow> addr \<Rightarrow> (live \<Rightarrow> live planned) \<Rightarrow> live \<Rightarrow> live planned" where
  "live_inlined tp a body after = (case (tp_blocks tp a, tp_methods tp a) of
     (Some params, Some m) \<Rightarrow>
       if m \<notin> {MTimes, MUpto, MEach, MEachWithIndex} then None
       else fixed_point (\<lambda>header.
         bindP (body header) (\<lambda>body_live.
         bindP (Some ((), [Key_Dead_Params a \<mapsto>
           Dead_Params (filter (\<lambda>p. is_heap_var tp p \<and> p \<notin> body_live) params)])) (\<lambda>_.
         live_edges a Edge_Body Edge_Exit (body_live - set params) after))) after
   | _ \<Rightarrow> None)"

text \<open>The values of a call's arguments, at their addresses; \<open>None\<close> if one is given in another way.\<close>

fun arg_value :: "expr arg \<Rightarrow> expr option" where
  "arg_value (APos e) = Some e"
| "arg_value (ANamed n v) = v"
| "arg_value (ABlockPass e) = None"

definition arg_values :: "addr \<Rightarrow> expr arg list \<Rightarrow> (addr \<times> expr) list option" where
  "arg_values a args =
     (if list_all (\<lambda>x. arg_value x \<noteq> None) args
      then Some (map (\<lambda>(b, x). (b, the (arg_value x))) (numbered a args)) else None)"

lemma arg_values_in:
  assumes "arg_values a args = Some ys" "(b, e) \<in> set ys"
  shows "e \<in> set (arg_exprs args)"
proof -
  obtain x where x: "x \<in> set args" "arg_value x = Some e"
    using assms by (fastforce simp: arg_values_def list_all_iff dest: set_numbered split: if_splits)
  then show ?thesis by (induction args rule: arg_exprs.induct) auto
qed

lemma live_seq_cong [fundef_cong]:
  assumes "es = es'" "live = live'" "\<And>b e l. (b, e) \<in> set es' \<Longrightarrow> f e b l = g e b l"
  shows "live_seq f es live = live_seq g es' live'"
  using assms(3) unfolding assms(1,2) by (induction es') (auto simp: bindP_def split: option.splits)

lemma bindP_cong [fundef_cong]:
  "m = m' \<Longrightarrow> (\<And>x. f x = g x) \<Longrightarrow> bindP m f = bindP m' g"
  by (simp add: bindP_def split: option.split)

lemma fixed_point_cong [fundef_cong]:
  "(\<And>h. step h = step' h) \<Longrightarrow> l = l' \<Longrightarrow> fixed_point step l = fixed_point step' l'"
  by (metis ext)

lemma live_inlined_cong [fundef_cong]:
  "(\<And>h. body h = body' h) \<Longrightarrow> l = l' \<Longrightarrow> live_inlined tp a body l = live_inlined tp a body' l'"
  by (metis ext)

lemma size_numbered:
  "(b, x) \<in> set (numbered a xs) \<Longrightarrow> set xs \<subseteq> set (below (ex_kind e)) \<Longrightarrow> size x < size e"
  using set_numbered [of b x a xs] by (auto intro: size_below)

lemma size_arg_values:
  "arg_values a args = Some ys \<Longrightarrow> (b, x) \<in> set ys \<Longrightarrow> ex_kind e = ECall r n args blk s p \<Longrightarrow> size x < size e"
  by (auto dest!: arg_values_in intro: size_below simp: below_def)

lemma size_index:
  assumes "ex_kind t = EIndex r args"
  shows "size r < size t" "(b, x) \<in> set (numbered a args) \<Longrightarrow> size x < size t"
  using assms size_below [of r t] size_numbered [of b x a args t] by (auto simp: below_def)

lemma size_target_index:
  "ex_kind e = EAssign t v \<Longrightarrow> ex_kind t = EIndex r args \<Longrightarrow> size r < size e"
  "ex_kind e = EOpAssign op t v \<Longrightarrow> ex_kind t = EIndex r args \<Longrightarrow> size r < size e"
  "ex_kind e = EAssign t v \<Longrightarrow> ex_kind t = EIndex r args \<Longrightarrow> (b, x) \<in> set (numbered a args) \<Longrightarrow> size x < size e"
  "ex_kind e = EOpAssign op t v \<Longrightarrow> ex_kind t = EIndex r args \<Longrightarrow> (b, x) \<in> set (numbered a args) \<Longrightarrow> size x < size e"
  by (meson size_target size_index)+

function live_expr :: "typed \<Rightarrow> expr \<Rightarrow> addr \<Rightarrow> live \<Rightarrow> live planned" where
  "live_expr tp e a after = (case ex_kind e of
     EInt _ \<Rightarrow> Some (after, Map.empty)
   | EFloat _ \<Rightarrow> Some (after, Map.empty)
   | EBool _ \<Rightarrow> Some (after, Map.empty)
   | EConst _ \<Rightarrow> Some (after, Map.empty)
   | EStr segs \<Rightarrow> live_seq (live_expr tp) (numbered a (seg_exprs segs)) after
   | EArray items \<Rightarrow> live_seq (live_expr tp) (numbered a items) after
   | EVar name \<Rightarrow> live_read tp a name after
   | EAssign target v \<Rightarrow>
       (case ex_kind target of
          EVar name \<Rightarrow> bindP (live_define tp a name after) (\<lambda>l. live_expr tp v (1 # a) l)
        | EIndex recv args \<Rightarrow>
            bindP (live_seq (live_expr tp) (numbered (1 # 0 # a) args) after) (\<lambda>l.
            bindP (live_expr tp recv (0 # 0 # a) l) (\<lambda>l. live_expr tp v (1 # a) l))
        | _ \<Rightarrow> None)
   | EOpAssign op target v \<Rightarrow>
       (case ex_kind target of
          EVar name \<Rightarrow>
            bindP (live_define tp a name after) (\<lambda>l.
            bindP (live_expr tp v (1 # a) l) (live_read tp (0 # a) name))
        | EIndex recv args \<Rightarrow>
            bindP (live_expr tp v (1 # a) after) (\<lambda>l.
            bindP (live_seq (live_expr tp) (numbered (1 # 0 # a) args) l) (\<lambda>l. live_expr tp recv (0 # 0 # a) l))
        | _ \<Rightarrow> None)
   | EBinary op l r \<Rightarrow>
       if op \<in> {OpAnd, OpOr} then
         bindP (live_expr tp r (1 # a) after) (\<lambda>rhs_live.
         bindP (live_edges a Edge_Rhs Edge_Skip rhs_live after) (\<lambda>decided. live_expr tp l (0 # a) decided))
       else bindP (live_expr tp r (1 # a) after) (\<lambda>live. live_expr tp l (0 # a) live)
   | EUnary op x \<Rightarrow> live_expr tp x (0 # a) after
   | EIf cond thn els \<Rightarrow>
       bindP (live_seq (live_expr tp) (numbered (1 # a) thn) after) (\<lambda>then_live.
       bindP (case els of
           None \<Rightarrow> Some (after, Map.empty)
         | Some es \<Rightarrow> live_seq (live_expr tp) (numbered (2 # a) es) after) (\<lambda>else_live.
       bindP (live_edges a Edge_Then Edge_Else then_live else_live) (\<lambda>decided. live_expr tp cond (0 # a) decided)))
   | EWhile cond body \<Rightarrow>
       fixed_point (\<lambda>header.
         bindP (live_seq (live_expr tp) (numbered (1 # a) body) header) (\<lambda>body_live.
         bindP (live_edges a Edge_Body Edge_Exit body_live after) (\<lambda>decided. live_expr tp cond (0 # a) decided))) after
   | EReturn v \<Rightarrow> (case v of None \<Rightarrow> None | Some x \<Rightarrow> live_expr tp x (0 # a) {})
   | EIndex recv args \<Rightarrow>
       bindP (live_seq (live_expr tp) (numbered (1 # a) args) after) (\<lambda>l. live_expr tp recv (0 # a) l)
   | ECall recv name args blk safe parens \<Rightarrow>
       bindP (case blk of
           None \<Rightarrow> Some (after, Map.empty)
         | Some b \<Rightarrow>
             live_inlined tp a (\<lambda>l. live_seq (live_expr tp) (numbered (2 # a) (bd_stmts (bk_body b))) l) after) (\<lambda>l.
       bindP (case arg_values (1 # a) args of
           None \<Rightarrow> None
         | Some xs \<Rightarrow> live_seq (live_expr tp) xs l) (\<lambda>l.
       case recv of None \<Rightarrow> Some (l, Map.empty) | Some x \<Rightarrow> live_expr tp x (0 # a) l))
   | _ \<Rightarrow> None)"
  by auto
termination
proof (relation "measure (\<lambda>(tp, e, a, l). size e)", goal_cases)
  case 1
  then show ?case by simp
qed (auto dest: size_target_index size_arg_values intro: size_below size_numbered simp: below_def option_list_def)

declare live_expr.simps [simp del]

end
