(* ===== verification/Ownership.thy ===== *)
theory Ownership
  imports Liveness
begin

text \<open>
  Which variables own a reference while a body is translated (grenat\_codegen: src/translate/mod.rs,
  arrays.rs, calls.rs, structs.rs, strings.rs, io.rs, ownership.rs). The translator walks the body in
  the order in which it runs, with the set \<open>owned\<close>: a move takes a variable out, an assignment puts it
  in, the plan's drops take out those that die. What is modelled is that walk: the order in which
  subexpressions are translated, every change of \<open>owned\<close> and every check on it. A check that fails
  (a \<open>debug\_assert!\<close>, which a release build leaves out and then drops or leaks a reference) and a panic
  are \<open>None\<close>; of the value held, what is kept is whether there is one.
\<close>

record own_cx =
  oc_typed :: typed
  oc_plan :: plan
  oc_vars :: "rtext \<Rightarrow> nty option"

type_synonym 'a own = "live \<Rightarrow> ('a \<times> live) option"

definition doneO :: "'a \<Rightarrow> 'a own" where
  "doneO x owned = Some (x, owned)"

definition failed :: "'a own" where
  "failed owned = None"

definition bindO :: "'a own \<Rightarrow> ('a \<Rightarrow> 'b own) \<Rightarrow> 'b own" where
  "bindO m f owned = Option.bind (m owned) (\<lambda>(x, owned'). f x owned')"

definition checkO :: "bool \<Rightarrow> unit own" where
  "checkO b = (if b then doneO () else failed)"

subsection \<open>Variables\<close>

definition drop_var :: "rtext \<Rightarrow> unit own" where
  "drop_var name owned = (if name \<in> owned then Some ((), owned - {name}) else None)"

fun drop_vars :: "rtext list \<Rightarrow> unit own" where
  "drop_vars [] = doneO ()"
| "drop_vars (n # ns) = bindO (drop_var n) (\<lambda>_. drop_vars ns)"

text \<open>The variables that die on an edge, one after the other.\<close>

definition drop_edge :: "own_cx \<Rightarrow> addr \<Rightarrow> edge \<Rightarrow> unit own" where
  "drop_edge cx a ed owned =
     (if plan_drops (oc_plan cx) a ed \<subseteq> owned then Some ((), owned - plan_drops (oc_plan cx) a ed) else None)"

definition is_heap_local :: "own_cx \<Rightarrow> rtext \<Rightarrow> bool" where
  "is_heap_local cx name \<longleftrightarrow> (case oc_vars cx name of Some t \<Rightarrow> is_heap t | None \<Rightarrow> False)"

definition read_var :: "own_cx \<Rightarrow> addr \<Rightarrow> rtext \<Rightarrow> bool own" where
  "read_var cx a name =
     (if oc_vars cx name = None then failed
      else if is_heap_local cx name \<and> plan_moves (oc_plan cx) a then bindO (drop_var name) (\<lambda>_. doneO True)
      else doneO True)"

definition define_var :: "own_cx \<Rightarrow> rtext \<Rightarrow> addr option \<Rightarrow> unit own" where
  "define_var cx name assign owned =
     (if oc_vars cx name = None then None
      else if \<not> is_heap_local cx name then Some ((), owned)
      else if name \<in> owned then None
      else if (case assign of None \<Rightarrow> False | Some a \<Rightarrow> plan_dead_after (oc_plan cx) a)
           then drop_var name (insert name owned)
           else Some ((), insert name owned))"

fun define_vars :: "own_cx \<Rightarrow> rtext list \<Rightarrow> unit own" where
  "define_vars cx [] = doneO ()"
| "define_vars cx (n # ns) = bindO (define_var cx n None) (\<lambda>_. define_vars cx ns)"

subsection \<open>Sequences\<close>

type_synonym translation = "expr \<Rightarrow> addr \<Rightarrow> bool own"

text \<open>An operand, which must have a value, and operands from left to right.\<close>

definition operand :: "bool own \<Rightarrow> unit own" where
  "operand m = bindO m checkO"

fun operands :: "translation \<Rightarrow> (addr \<times> expr) list \<Rightarrow> unit own" where
  "operands f [] = doneO ()"
| "operands f ((b, e) # es) = bindO (operand (f e b)) (\<lambda>_. operands f es)"

fun statements :: "translation \<Rightarrow> (addr \<times> expr) list \<Rightarrow> bool own" where
  "statements f [] = doneO False"
| "statements f [(b, e)] = f e b"
| "statements f ((b, e) # es) = bindO (f e b) (\<lambda>_. statements f es)"

definition never_ends :: "typed \<Rightarrow> (addr \<times> expr) list \<Rightarrow> bool" where
  "never_ends tp es \<longleftrightarrow> es \<noteq> [] \<and> flow_at tp (fst (last es)) = Some FNever"

definition has_value :: "typed \<Rightarrow> addr \<Rightarrow> bool" where
  "has_value tp a \<longleftrightarrow> ty_at tp a \<noteq> None"

subsection \<open>Control flow\<close>

text \<open>One branch: the edge into it, its statements; the result is where it leaves \<open>owned\<close>, if it ends.\<close>

definition own_branch ::
  "own_cx \<Rightarrow> addr \<Rightarrow> edge \<Rightarrow> (addr \<times> expr) list \<Rightarrow> bool own \<Rightarrow> live \<Rightarrow> live option option" where
  "own_branch cx a ed es run owned =
     map_option (\<lambda>(_, owned'). if never_ends (oc_typed cx) es then None else Some owned')
       (bindO (drop_edge cx a ed) (\<lambda>_. run) owned)"

definition own_if ::
  "own_cx \<Rightarrow> addr \<Rightarrow> bool own \<Rightarrow> (live \<Rightarrow> live option option) \<Rightarrow> (live \<Rightarrow> live option option) \<Rightarrow> bool own" where
  "own_if cx a cond thn els = bindO (operand cond) (\<lambda>_ owned.
     case (thn owned, els owned) of
       (Some t, Some e) \<Rightarrow>
         let merged = (case (t, e) of
             (Some x, Some y) \<Rightarrow> if x = y then Some x else None
           | (Some x, None) \<Rightarrow> Some x
           | (None, Some y) \<Rightarrow> Some y
           | (None, None) \<Rightarrow> Some owned)
         in map_option (\<lambda>owned. (has_value (oc_typed cx) a, owned)) merged
     | _ \<Rightarrow> None)"

definition own_while :: "own_cx \<Rightarrow> addr \<Rightarrow> bool own \<Rightarrow> (addr \<times> expr) list \<Rightarrow> bool own \<Rightarrow> bool own" where
  "own_while cx a cond es body at_header =
     bindO (operand cond) (\<lambda>_ decided.
     case bindO (drop_edge cx a Edge_Body) (\<lambda>_. body) decided of
       None \<Rightarrow> None
     | Some (_, owned) \<Rightarrow>
         if never_ends (oc_typed cx) es \<or> owned = at_header
         then bindO (drop_edge cx a Edge_Exit) (\<lambda>_. doneO False) decided else None) at_header"

definition own_return :: "bool own \<Rightarrow> bool own" where
  "own_return m = bindO m (\<lambda>_ owned. if owned = {} then Some (False, owned) else None)"

definition own_short_circuit :: "own_cx \<Rightarrow> addr \<Rightarrow> bool own \<Rightarrow> bool own \<Rightarrow> bool own" where
  "own_short_circuit cx a lhs rhs = bindO (operand lhs) (\<lambda>_ decided.
     case bindO (drop_edge cx a Edge_Rhs) (\<lambda>_. operand rhs) decided of
       None \<Rightarrow> None
     | Some (_, after_rhs) \<Rightarrow>
         (case drop_edge cx a Edge_Skip decided of
            None \<Rightarrow> None
          | Some (_, owned) \<Rightarrow> if owned = after_rhs then Some (True, owned) else None))"

text \<open>A counted loop, over \<open>n\<close> values bound to the block's first parameters.\<close>

definition own_loop :: "own_cx \<Rightarrow> addr \<Rightarrow> nat \<Rightarrow> bool own \<Rightarrow> bool own" where
  "own_loop cx a n body at_header = (case tp_blocks (oc_typed cx) a of
     None \<Rightarrow> None
   | Some params \<Rightarrow>
       (case bindO (drop_edge cx a Edge_Body) (\<lambda>_.
             bindO (define_vars cx (take n params)) (\<lambda>_.
             bindO (drop_vars (plan_dead_params (oc_plan cx) a)) (\<lambda>_. body))) at_header of
          None \<Rightarrow> None
        | Some (_, owned) \<Rightarrow>
            if owned = at_header then bindO (drop_edge cx a Edge_Exit) (\<lambda>_. doneO False) at_header else None))"

subsection \<open>Assignments, calls, expressions\<close>

text \<open>The value of an assignment to a variable, unless it is an object.\<close>

definition assigned_value :: "own_cx \<Rightarrow> nty option \<Rightarrow> bool own" where
  "assigned_value cx t = (case t of None \<Rightarrow> failed | Some t \<Rightarrow> doneO (\<not> is_heap t))"

definition own_call ::
  "own_cx \<Rightarrow> addr \<Rightarrow> bool own option \<Rightarrow> (addr \<times> expr) list \<Rightarrow> translation \<Rightarrow> bool own option \<Rightarrow> bool own" where
  "own_call cx a recv args f block =
     (let tp = oc_typed cx
      in if tp_constructs tp a \<noteq> None then bindO (operands f args) (\<lambda>_. doneO True)
         else case (recv, tp_methods tp a) of
           (None, None) \<Rightarrow> bindO (operands f args) (\<lambda>_. doneO (has_value tp a))
         | (None, Some MExit) \<Rightarrow> bindO (operands f (take 1 args)) (\<lambda>_. doneO False)
         | (None, Some _) \<Rightarrow> bindO (operands f args) (\<lambda>_. doneO False)
         | (Some _, None) \<Rightarrow> failed
         | (Some r, Some m) \<Rightarrow>
             if m = MSqrt then
               (case args of [] \<Rightarrow> failed | x # _ \<Rightarrow> bindO (operands f [x]) (\<lambda>_. doneO True))
             else if m = MPush then
               (case args of
                  [] \<Rightarrow> failed
                | x # _ \<Rightarrow> bindO (operand r) (\<lambda>_. bindO (operands f [x]) (\<lambda>_. doneO False)))
             else if m = MTimes \<or> m = MUpto then
               bindO (operand r) (\<lambda>_. bindO (operands f (take 1 args)) (\<lambda>_.
                 case block of None \<Rightarrow> failed | Some body \<Rightarrow> own_loop cx a 1 body))
             else if m = MEach \<or> m = MEachWithIndex then
               bindO (operand r) (\<lambda>_.
                 case block of
                   None \<Rightarrow> failed
                 | Some body \<Rightarrow> own_loop cx a (if m = MEachWithIndex then 2 else 1) body)
             else bindO (operand r) (\<lambda>_. bindO (operands f (take 1 args)) (\<lambda>_. doneO True)))"

lemma operands_cong [fundef_cong]:
  assumes "es = es'" "\<And>b e. (b, e) \<in> set es' \<Longrightarrow> f e b = g e b"
  shows "operands f es = operands g es'"
  using assms(2) unfolding assms(1) by (induction es') auto

lemma statements_cong [fundef_cong]:
  assumes "es = es'" "\<And>b e. (b, e) \<in> set es' \<Longrightarrow> f e b = g e b"
  shows "statements f es = statements g es'"
  using assms(2) unfolding assms(1) by (induction g es' rule: statements.induct) auto

lemma own_call_cong [fundef_cong]:
  assumes "recv = recv'" "args = args'" "\<And>b e. (b, e) \<in> set args' \<Longrightarrow> f e b = g e b" "block = block'"
  shows "own_call cx a recv args f block = own_call cx a recv' args' g block'"
proof -
  have "operands f es = operands g es" if "set es \<subseteq> set args'" for es
    using that assms(3) by (intro operands_cong) auto
  from this [of args'] this [of "take 1 args'"] this [of "[hd args']"] show ?thesis
    unfolding assms(1,2,4) own_call_def
    by (cases args') (auto simp: Let_def split: option.split meth.split)
qed

function own_expr :: "own_cx \<Rightarrow> expr \<Rightarrow> addr \<Rightarrow> bool own" where
  "own_expr cx e a = (case ex_kind e of
     EInt _ \<Rightarrow> doneO True
   | EFloat _ \<Rightarrow> doneO True
   | EBool _ \<Rightarrow> doneO True
   | EStr segs \<Rightarrow> bindO (operands (own_expr cx) (numbered a (seg_exprs segs))) (\<lambda>_. doneO True)
   | EArray items \<Rightarrow> bindO (operands (own_expr cx) (numbered a items)) (\<lambda>_. doneO True)
   | EVar name \<Rightarrow>
       if tp_methods (oc_typed cx) a \<noteq> None then own_call cx a None [] (\<lambda>_ _. failed) None
       else read_var cx a name
   | EAssign target v \<Rightarrow>
       (case ex_kind target of
          EVar name \<Rightarrow>
            bindO (operand (own_expr cx v (1 # a))) (\<lambda>_.
            bindO (define_var cx name (Some a)) (\<lambda>_. assigned_value cx (ty_at (oc_typed cx) (1 # a))))
        | EIndex recv args \<Rightarrow>
            bindO (operand (own_expr cx v (1 # a))) (\<lambda>_.
            bindO (operand (own_expr cx recv (0 # 0 # a))) (\<lambda>_.
            if args = [] then failed
            else bindO (operands (own_expr cx) (take 1 (numbered (1 # 0 # a) args))) (\<lambda>_. doneO False)))
        | _ \<Rightarrow> failed)
   | EOpAssign op target v \<Rightarrow>
       (case ex_kind target of
          EVar name \<Rightarrow>
            bindO (operand (read_var cx (0 # a) name)) (\<lambda>_.
            bindO (operand (own_expr cx v (1 # a))) (\<lambda>_.
            bindO (define_var cx name (Some a)) (\<lambda>_. doneO (\<not> is_heap_local cx name))))
        | EIndex recv args \<Rightarrow>
            bindO (operand (own_expr cx recv (0 # 0 # a))) (\<lambda>_.
            if args = [] then failed
            else bindO (operands (own_expr cx) (take 1 (numbered (1 # 0 # a) args))) (\<lambda>_.
                 bindO (operand (own_expr cx v (1 # a))) (\<lambda>_. doneO False)))
        | _ \<Rightarrow> failed)
   | EBinary op l r \<Rightarrow>
       if op \<in> {OpAnd, OpOr} then own_short_circuit cx a (own_expr cx l (0 # a)) (own_expr cx r (1 # a))
       else bindO (operand (own_expr cx l (0 # a))) (\<lambda>_.
            bindO (operand (own_expr cx r (1 # a))) (\<lambda>_.
            doneO (\<not> (op = OpShl \<and> (case ty_at (oc_typed cx) (0 # a) of Some t \<Rightarrow> is_array t | None \<Rightarrow> False)))))
   | EUnary op x \<Rightarrow> bindO (operand (own_expr cx x (0 # a))) (\<lambda>_. doneO True)
   | EIf cond thn els \<Rightarrow>
       own_if cx a (own_expr cx cond (0 # a))
         (own_branch cx a Edge_Then (numbered (1 # a) thn) (statements (own_expr cx) (numbered (1 # a) thn)))
         (case els of
            None \<Rightarrow> own_branch cx a Edge_Else [] (doneO False)
          | Some es \<Rightarrow>
              own_branch cx a Edge_Else (numbered (2 # a) es) (statements (own_expr cx) (numbered (2 # a) es)))
   | EWhile cond body \<Rightarrow>
       own_while cx a (own_expr cx cond (0 # a)) (numbered (1 # a) body)
         (statements (own_expr cx) (numbered (1 # a) body))
   | EReturn v \<Rightarrow> own_return (case v of None \<Rightarrow> doneO False | Some x \<Rightarrow> own_expr cx x (0 # a))
   | EIndex recv args \<Rightarrow>
       bindO (operand (own_expr cx recv (0 # a))) (\<lambda>_.
       if args = [] then failed
       else bindO (operands (own_expr cx) (take 1 (numbered (1 # a) args))) (\<lambda>_. doneO True))
   | ECall recv name args blk safe parens \<Rightarrow>
       (case arg_values (1 # a) args of
          None \<Rightarrow> failed
        | Some xs \<Rightarrow>
            own_call cx a (map_option (\<lambda>x. own_expr cx x (0 # a)) recv) xs (own_expr cx)
              (map_option (\<lambda>b. statements (own_expr cx) (numbered (2 # a) (bd_stmts (bk_body b)))) blk))
   | _ \<Rightarrow> failed)"
  by auto
termination
proof (relation "measure (\<lambda>(cx, e, a). size e)", goal_cases)
  case 1
  then show ?case by simp
qed (auto dest: size_target_index size_arg_values in_set_takeD intro: size_below size_numbered
  simp: below_def option_list_def)

declare own_expr.simps [simp del]

subsection \<open>Functions\<close>

definition own_vars :: "fn_def \<Rightarrow> signature \<Rightarrow> typed \<Rightarrow> rtext \<Rightarrow> nty option" where
  "own_vars d sg tp = map_of (rev (zip (param_names d) (sg_params sg) @ tp_locals tp))"

definition live_body :: "typed \<Rightarrow> fn_def \<Rightarrow> live planned" where
  "live_body tp d = live_seq (live_expr tp) (numbered [] (bd_stmts (fn_body d))) {}"

text \<open>The plan of a function and its parameters that are never read (\<open>plan\<close>).\<close>

definition plan_of :: "typed \<Rightarrow> fn_def \<Rightarrow> (plan \<times> rtext list) option" where
  "plan_of tp d = map_option
     (\<lambda>(live, w). (w, filter (\<lambda>p. is_heap_var tp p \<and> p \<notin> live) (param_names d))) (live_body tp d)"

definition own_function :: "fn_def \<Rightarrow> signature \<Rightarrow> typed \<Rightarrow> plan \<Rightarrow> rtext list \<Rightarrow> bool own" where
  "own_function d sg tp pl entry =
     (let cx = \<lparr>oc_typed = tp, oc_plan = pl, oc_vars = own_vars d sg tp\<rparr>
      in bindO (drop_vars entry) (\<lambda>_.
         bindO (statements (own_expr cx) (numbered [] (bd_stmts (fn_body d)))) (\<lambda>held owned.
         if held \<and> owned \<noteq> {} then None else Some (held, owned))))"

definition owned_params :: "fn_def \<Rightarrow> signature \<Rightarrow> live" where
  "owned_params d sg = set (map fst (filter (\<lambda>(n, t). is_heap t) (zip (param_names d) (sg_params sg))))"

definition translate_ownership :: "fn_def \<Rightarrow> signature \<Rightarrow> typed \<Rightarrow> (bool \<times> live) option" where
  "translate_ownership d sg tp = (case plan_of tp d of
     None \<Rightarrow> None
   | Some (pl, entry) \<Rightarrow> own_function d sg tp pl entry (owned_params d sg))"

end
