(* ===== verification/Liveness_Props.thy ===== *)
theory Liveness_Props
  imports Ownership "HOL-Library.Sublist"
begin

text \<open>
  The liveness analysis of an accepted body: it always ends, every loop being stable after two rounds,
  because what it computes for a piece of code keeps some variables, adds some and takes some away,
  whatever is live after it. Where it writes to the plan, and that the last round of a loop is the one
  the plan keeps.
\<close>

subsection \<open>What typing guarantees\<close>

text \<open>
  What the typing of a body guarantees to the passes after it: \<open>accepted\<close> says, node by node, which
  shapes are left and what the tables of \<open>typed\<close> hold for them, for a function that the interpreter
  hosts and that returns a value. It is the contract between \<open>infer\<close> and liveness and translation.
\<close>

definition not_never :: "typed \<Rightarrow> addr \<Rightarrow> bool" where
  "not_never tp a \<longleftrightarrow> flow_at tp a \<noteq> Some FNever"

definition values_ok :: "typed \<Rightarrow> (expr \<Rightarrow> addr \<Rightarrow> bool) \<Rightarrow> (addr \<times> expr) list \<Rightarrow> bool" where
  "values_ok tp f es \<longleftrightarrow> list_all (\<lambda>(b, x). f x b \<and> has_value tp b) es"

text \<open>Statements: only the last one may never end.\<close>

definition statements_ok :: "typed \<Rightarrow> (expr \<Rightarrow> addr \<Rightarrow> bool) \<Rightarrow> (addr \<times> expr) list \<Rightarrow> bool" where
  "statements_ok tp f es \<longleftrightarrow>
     list_all (\<lambda>(b, x). f x b) es \<and> list_all (\<lambda>(b, x). not_never tp b) (butlast es)"

definition is_const :: "expr \<Rightarrow> bool" where
  "is_const e \<longleftrightarrow> (case ex_kind e of EConst _ \<Rightarrow> True | _ \<Rightarrow> False)"

definition known_var :: "typed \<Rightarrow> rtext \<Rightarrow> bool" where
  "known_var tp name \<longleftrightarrow> tp_vars tp name \<noteq> None"

definition loops :: "meth \<Rightarrow> bool" where
  "loops m \<longleftrightarrow> m \<in> {MTimes, MUpto, MEach, MEachWithIndex}"

definition block_ok :: "typed \<Rightarrow> addr \<Rightarrow> meth \<Rightarrow> bool" where
  "block_ok tp a m \<longleftrightarrow> (case tp_blocks tp a of
     None \<Rightarrow> False
   | Some params \<Rightarrow>
       length params = (if m = MEachWithIndex then 2 else 1) \<and> list_all (known_var tp) params \<and>
       distinct (filter (is_heap_var tp) params))"

text \<open>A call whose receiver and arguments, given as their number, are accepted.\<close>

definition method_ok :: "typed \<Rightarrow> addr \<Rightarrow> meth \<Rightarrow> nat \<Rightarrow> bool \<Rightarrow> bool" where
  "method_ok tp a m n block \<longleftrightarrow>
     (if block then loops m \<and> \<not> has_value tp a \<and> n = (if m = MUpto then 1 else 0) \<and> block_ok tp a m
      else if m = MPush then n = 1 \<and> \<not> has_value tp a
      else \<not> loops m \<and> n \<le> 1 \<and> has_value tp a)"

lemma values_ok_cong [fundef_cong]:
  "tp = tp' \<Longrightarrow> es = es' \<Longrightarrow> (\<And>b x. (b, x) \<in> set es' \<Longrightarrow> f x b = g x b) \<Longrightarrow> values_ok tp f es = values_ok tp' g es'"
  by (auto simp: values_ok_def list_all_iff)

lemma statements_ok_cong [fundef_cong]:
  "tp = tp' \<Longrightarrow> es = es' \<Longrightarrow> (\<And>b x. (b, x) \<in> set es' \<Longrightarrow> f x b = g x b) \<Longrightarrow>
   statements_ok tp f es = statements_ok tp' g es'"
  by (auto simp: statements_ok_def list_all_iff)

function accepted :: "typed \<Rightarrow> expr \<Rightarrow> addr \<Rightarrow> bool" where
  "accepted tp e a = (case ex_kind e of
     EInt _ \<Rightarrow> has_value tp a
   | EFloat _ \<Rightarrow> has_value tp a
   | EBool _ \<Rightarrow> has_value tp a
   | EStr segs \<Rightarrow> has_value tp a \<and> values_ok tp (accepted tp) (numbered a (seg_exprs segs))
   | EArray items \<Rightarrow> has_value tp a \<and> values_ok tp (accepted tp) (numbered a items)
   | EVar name \<Rightarrow> has_value tp a \<and> known_var tp name \<and> tp_methods tp a = None
   | EAssign target v \<Rightarrow>
       not_never tp a \<and> accepted tp v (1 # a) \<and> has_value tp (1 # a) \<and>
       (case ex_kind target of
          EVar name \<Rightarrow>
            known_var tp name \<and> (has_value tp a \<longleftrightarrow> \<not> is_heap (the (ty_at tp (1 # a))))
        | EIndex recv args \<Rightarrow>
            \<not> has_value tp a \<and> accepted tp recv (0 # 0 # a) \<and> has_value tp (0 # 0 # a) \<and>
            length args = 1 \<and> values_ok tp (accepted tp) (numbered (1 # 0 # a) args)
        | _ \<Rightarrow> False)
   | EOpAssign op target v \<Rightarrow>
       not_never tp a \<and> accepted tp v (1 # a) \<and> has_value tp (1 # a) \<and>
       (case ex_kind target of
          EVar name \<Rightarrow> known_var tp name \<and> (has_value tp a \<longleftrightarrow> \<not> is_heap_var tp name)
        | EIndex recv args \<Rightarrow>
            \<not> has_value tp a \<and> accepted tp recv (0 # 0 # a) \<and> has_value tp (0 # 0 # a) \<and>
            length args = 1 \<and> values_ok tp (accepted tp) (numbered (1 # 0 # a) args)
        | _ \<Rightarrow> False)
   | EBinary op l r \<Rightarrow>
       not_never tp a \<and> accepted tp l (0 # a) \<and> accepted tp r (1 # a) \<and> has_value tp (0 # a) \<and> has_value tp (1 # a) \<and>
       (has_value tp a \<longleftrightarrow> \<not> (op = OpShl \<and> is_array (the (ty_at tp (0 # a)))))
   | EUnary op x \<Rightarrow> has_value tp a \<and> accepted tp x (0 # a) \<and> has_value tp (0 # a)
   | EIf cond thn els \<Rightarrow>
       accepted tp cond (0 # a) \<and> has_value tp (0 # a) \<and>
       statements_ok tp (accepted tp) (numbered (1 # a) thn) \<and>
       (case els of
          None \<Rightarrow> not_never tp a
        | Some es \<Rightarrow>
            statements_ok tp (accepted tp) (numbered (2 # a) es) \<and>
            (never_ends tp (numbered (1 # a) thn) \<and> never_ends tp (numbered (2 # a) es) \<longrightarrow>
               flow_at tp a = Some FNever))
   | EWhile cond body \<Rightarrow>
       not_never tp a \<and> \<not> has_value tp a \<and> accepted tp cond (0 # a) \<and> has_value tp (0 # a) \<and>
       statements_ok tp (accepted tp) (numbered (1 # a) body)
   | EReturn v \<Rightarrow>
       flow_at tp a = Some FNever \<and>
       (case v of None \<Rightarrow> False | Some x \<Rightarrow> accepted tp x (0 # a) \<and> has_value tp (0 # a))
   | EIndex recv args \<Rightarrow>
       has_value tp a \<and> accepted tp recv (0 # a) \<and> has_value tp (0 # a) \<and>
       length args = 1 \<and> values_ok tp (accepted tp) (numbered (1 # a) args)
   | ECall recv name args blk safe parens \<Rightarrow>
       not_never tp a \<and>
       (case arg_values (1 # a) args of
          None \<Rightarrow> False
        | Some xs \<Rightarrow>
            values_ok tp (accepted tp) xs \<and>
            (if tp_constructs tp a \<noteq> None then
               has_value tp a \<and> blk = None \<and> (case recv of None \<Rightarrow> True | Some r \<Rightarrow> is_const r)
             else case recv of
                 None \<Rightarrow> tp_methods tp a = None \<and> blk = None
               | Some r \<Rightarrow>
                   (case tp_methods tp a of
                      None \<Rightarrow> False
                    | Some m \<Rightarrow>
                        if m = MSqrt then is_const r \<and> length xs = 1 \<and> has_value tp a \<and> blk = None
                        else accepted tp r (0 # a) \<and> has_value tp (0 # a) \<and>
                             method_ok tp a m (length xs) (\<not> Option.is_none blk) \<and>
                             (case blk of
                                None \<Rightarrow> True
                              | Some b \<Rightarrow>
                                  statements_ok tp (accepted tp) (numbered (2 # a) (bd_stmts (bk_body b))) \<and>
                                  \<not> never_ends tp (numbered (2 # a) (bd_stmts (bk_body b)))))))
   | _ \<Rightarrow> False)"
  by auto
termination
proof (relation "measure (\<lambda>(tp, e, a). size e)", goal_cases)
  case 1
  then show ?case by simp
qed (auto dest: size_target_index size_arg_values intro: size_below size_numbered simp: below_def option_list_def)

declare accepted.simps [simp del]

subsection \<open>Shape of the analysis\<close>

definition genkill :: "(live \<Rightarrow> live planned) \<Rightarrow> bool" where
  "genkill F \<longleftrightarrow> (\<exists>g k. \<forall>live. \<exists>w. F live = Some (g \<union> (live - k), w))"

lemma genkillI: "(\<And>live. \<exists>w. F live = Some (g \<union> (live - k), w)) \<Longrightarrow> genkill F"
  unfolding genkill_def by blast

lemma bindP_Some:
  "bindP (Some (x, w)) f = (case f x of None \<Rightarrow> None | Some (y, w') \<Rightarrow> Some (y, w ++ w'))"
  by (simp add: bindP_def)

lemma bindP_empty [simp]: "bindP (Some (x, Map.empty)) f = f x"
  by (auto simp: bindP_def split: option.split)

lemma bindP_SomeE:
  assumes "bindP m f = Some (y, w)"
  obtains x w1 w2 where "m = Some (x, w1)" "f x = Some (y, w2)" "w = w1 ++ w2"
  using assms by (auto simp: bindP_def split: option.splits)

lemma genkill_id: "genkill (\<lambda>live. Some (live, w))"
  by (rule genkillI [of _ "{}" "{}"]) simp

lemma genkill_const:
  assumes "genkill F'"
  shows "genkill (\<lambda>live. F' {})"
proof -
  obtain g k where "\<And>live. \<exists>w. F' live = Some (g \<union> (live - k), w)" using assms unfolding genkill_def by blast
  from this [of "{}"] have "\<exists>w. F' {} = Some (g \<union> (live - UNIV), w)" for live by simp
  then show ?thesis by (rule genkillI)
qed

lemma genkill_bind:
  assumes "genkill F" "genkill G"
  shows "genkill (\<lambda>live. bindP (F live) G)"
proof -
  obtain g k h j where F: "\<And>l. \<exists>w. F l = Some (g \<union> (l - k), w)" and G: "\<And>l. \<exists>w. G l = Some (h \<union> (l - j), w)"
    using assms unfolding genkill_def by blast
  have "\<exists>w. bindP (F l) G = Some (h \<union> (g - j) \<union> (l - (k \<union> j)), w)" for l
  proof -
    obtain w where "F l = Some (g \<union> (l - k), w)" using F by blast
    moreover obtain w' where "G (g \<union> (l - k)) = Some (h \<union> ((g \<union> (l - k)) - j), w')" using G by blast
    ultimately show ?thesis by (auto simp: bindP_def)
  qed
  then show ?thesis by (rule genkillI)
qed

lemma genkill_read: "genkill (live_read tp a name)"
  unfolding live_read_def
  by (cases "is_heap_var tp name") (auto intro: genkillI [of _ "{name}" "{}"] genkillI [of _ "{}" "{}"])

lemma genkill_define: "genkill (live_define tp a name)"
  unfolding live_define_def
  by (cases "is_heap_var tp name") (auto intro: genkillI [of _ "{}" "{name}"] genkillI [of _ "{}" "{}"])

lemma genkill_seq: "(\<And>b x. (b, x) \<in> set es \<Longrightarrow> genkill (f x b)) \<Longrightarrow> genkill (live_seq f es)"
proof (induction es)
  case Nil
  then show ?case by (simp add: genkill_id [of Map.empty])
next
  case (Cons y es)
  obtain b x where y: "y = (b, x)" by force
  have "genkill (live_seq f es)" "genkill (f x b)" using Cons by (auto simp: y)
  then show ?case unfolding y live_seq.simps by (rule genkill_bind)
qed

text \<open>Two ways on from one point.\<close>

lemma genkill_join:
  assumes "genkill F" "genkill G"
  shows "genkill (\<lambda>live. bindP (F live) (\<lambda>l1. bindP (G live) (\<lambda>l2. live_edges a ed1 ed2 l1 l2)))"
proof -
  obtain g k h j where F: "\<And>l. \<exists>w. F l = Some (g \<union> (l - k), w)" and G: "\<And>l. \<exists>w. G l = Some (h \<union> (l - j), w)"
    using assms unfolding genkill_def by blast
  have "\<exists>w. bindP (F l) (\<lambda>l1. bindP (G l) (\<lambda>l2. live_edges a ed1 ed2 l1 l2)) = Some ((g \<union> h) \<union> (l - (k \<inter> j)), w)" for l
  proof -
    obtain w w' where "F l = Some (g \<union> (l - k), w)" "G l = Some (h \<union> (l - j), w')" using F G by blast
    moreover have "(g \<union> (l - k)) \<union> (h \<union> (l - j)) = (g \<union> h) \<union> (l - (k \<inter> j))" by blast
    ultimately show ?thesis by (auto simp: live_edges_def Let_def bindP_Some)
  qed
  then show ?thesis by (rule genkillI)
qed

lemma bindP_assoc: "bindP (bindP m f) g = bindP m (\<lambda>x. bindP (f x) g)"
  by (auto simp: bindP_def split: option.splits)

lemma genkill_if:
  assumes "genkill F" "genkill G" "genkill C"
  shows "genkill (\<lambda>l. bindP (F l) (\<lambda>l1. bindP (G l) (\<lambda>l2. bindP (live_edges a ed1 ed2 l1 l2) C)))"
  using genkill_bind [OF genkill_join [OF assms(1,2)] assms(3)] by (simp add: bindP_assoc)

lemma genkill_skip:
  assumes "genkill F" "genkill C"
  shows "genkill (\<lambda>l. bindP (F l) (\<lambda>l1. bindP (live_edges a ed1 ed2 l1 l) C))"
  using genkill_if [OF assms(1) genkill_id [of Map.empty] assms(2)] by simp

subsection \<open>Loops\<close>

text \<open>A loop's step on its header: stable from the second round on.\<close>

lemma fixed_point_two_rounds:
  assumes step: "\<And>h. \<exists>w. step h = Some (g \<union> (after - k) \<union> (h - j), w)" and "k \<subseteq> j"
  shows "\<exists>w. fixed_point step after = Some (g \<union> (after - k), w)"
proof -
  let ?l = "g \<union> (after - k)"
  have stable: "?l \<union> (after - j) = ?l" "?l \<union> (?l - j) = ?l" using \<open>k \<subseteq> j\<close> by blast+
  obtain w1 where 1: "step after = Some (?l, w1)" using step [of after] unfolding stable by blast
  obtain w2 where 2: "step ?l = Some (?l, w2)" using step [of ?l] unfolding stable by blast
  have "\<exists>w. fixed_point step ?l = Some (?l, w)" by (subst fixed_point.simps) (simp add: 2)
  then show ?thesis by (subst fixed_point.simps) (auto simp: 1)
qed

lemma genkill_while:
  assumes "genkill B" "genkill C"
  shows "genkill (\<lambda>after. fixed_point (\<lambda>h. bindP (B h) (\<lambda>bl. bindP (live_edges a ed1 ed2 bl after) C)) after)"
proof -
  obtain b k c j where B: "\<And>l. \<exists>w. B l = Some (b \<union> (l - k), w)" and C: "\<And>l. \<exists>w. C l = Some (c \<union> (l - j), w)"
    using assms unfolding genkill_def by blast
  have "\<exists>w. bindP (B h) (\<lambda>bl. bindP (live_edges a ed1 ed2 bl after) C) =
      Some ((c \<union> (b - j)) \<union> (after - j) \<union> (h - (k \<union> j)), w)" for h after
  proof -
    obtain w where 1: "B h = Some (b \<union> (h - k), w)" using B by blast
    obtain w' where 2: "C (b \<union> (h - k) \<union> after) = Some (c \<union> (b \<union> (h - k) \<union> after - j), w')" using C by blast
    have "c \<union> (b \<union> (h - k) \<union> after - j) = (c \<union> (b - j)) \<union> (after - j) \<union> (h - (k \<union> j))" by blast
    with 1 2 show ?thesis by (auto simp: live_edges_def Let_def bindP_Some)
  qed
  from fixed_point_two_rounds [OF this] have
    "\<exists>w. fixed_point (\<lambda>h. bindP (B h) (\<lambda>bl. bindP (live_edges a ed1 ed2 bl after) C)) after =
      Some ((c \<union> (b - j)) \<union> (after - j), w)" for after by blast
  then show ?thesis by (rule genkillI)
qed

lemma genkill_inlined:
  assumes "genkill B" "block_ok tp a m" "tp_methods tp a = Some m" "loops m"
  shows "genkill (live_inlined tp a B)"
proof -
  obtain params where params: "tp_blocks tp a = Some params" using assms(2) by (auto simp: block_ok_def split: option.splits)
  obtain b k where B: "\<And>l. \<exists>w. B l = Some (b \<union> (l - k), w)" using assms(1) unfolding genkill_def by blast
  define step where "step = (\<lambda>after header.
         bindP (B header) (\<lambda>body_live.
         bindP (Some ((), [Key_Dead_Params a \<mapsto>
           Dead_Params (filter (\<lambda>p. is_heap_var tp p \<and> p \<notin> body_live) params)])) (\<lambda>_.
         live_edges a Edge_Body Edge_Exit (body_live - set params) after)))"
  have "\<exists>w. step after h = Some ((b - set params) \<union> (after - {}) \<union> (h - (k \<union> set params)), w)" for h after
  proof -
    obtain w where 1: "B h = Some (b \<union> (h - k), w)" using B by blast
    have "b \<union> (h - k) - set params \<union> after = (b - set params) \<union> (after - {}) \<union> (h - (k \<union> set params))" by blast
    with 1 show ?thesis by (auto simp: step_def live_edges_def Let_def bindP_Some)
  qed
  from fixed_point_two_rounds [OF this] have
    "\<exists>w. fixed_point (step after) after = Some ((b - set params) \<union> (after - {}), w)" for after by blast
  moreover have "live_inlined tp a B after = fixed_point (step after) after" for after
    using assms(3,4) by (simp add: live_inlined_def params loops_def step_def)
  ultimately show ?thesis by (intro genkillI [of _ "b - set params" "{}"]) simp
qed

subsection \<open>Every accepted expression\<close>

lemma values_okD: "values_ok tp f es \<Longrightarrow> (b, x) \<in> set es \<Longrightarrow> f x b \<and> has_value tp b"
  by (auto simp: values_ok_def list_all_iff)

lemma statements_okD: "statements_ok tp f es \<Longrightarrow> (b, x) \<in> set es \<Longrightarrow> f x b"
  by (auto simp: statements_ok_def list_all_iff)

text \<open>The analysis of each kind of expression, as a function of what is live after it.\<close>

lemma live_kinds:
  "ex_kind e = EInt n \<Longrightarrow> live_expr tp e a = (\<lambda>l. Some (l, Map.empty))"
  "ex_kind e = EFloat f \<Longrightarrow> live_expr tp e a = (\<lambda>l. Some (l, Map.empty))"
  "ex_kind e = EBool b \<Longrightarrow> live_expr tp e a = (\<lambda>l. Some (l, Map.empty))"
  "ex_kind e = EConst ids \<Longrightarrow> live_expr tp e a = (\<lambda>l. Some (l, Map.empty))"
  "ex_kind e = EStr segs \<Longrightarrow> live_expr tp e a = live_seq (live_expr tp) (numbered a (seg_exprs segs))"
  "ex_kind e = EArray items \<Longrightarrow> live_expr tp e a = live_seq (live_expr tp) (numbered a items)"
  "ex_kind e = EVar name \<Longrightarrow> live_expr tp e a = live_read tp a name"
  "ex_kind e = EAssign t v \<Longrightarrow> ex_kind t = EVar name \<Longrightarrow>
     live_expr tp e a = (\<lambda>l. bindP (live_define tp a name l) (live_expr tp v (1 # a)))"
  "ex_kind e = EAssign t v \<Longrightarrow> ex_kind t = EIndex recv args \<Longrightarrow>
     live_expr tp e a = (\<lambda>l. bindP (live_seq (live_expr tp) (numbered (1 # 0 # a) args) l) (\<lambda>l.
       bindP (live_expr tp recv (0 # 0 # a) l) (live_expr tp v (1 # a))))"
  "ex_kind e = EOpAssign op t v \<Longrightarrow> ex_kind t = EVar name \<Longrightarrow>
     live_expr tp e a = (\<lambda>l. bindP (live_define tp a name l) (\<lambda>l.
       bindP (live_expr tp v (1 # a) l) (live_read tp (0 # a) name)))"
  "ex_kind e = EOpAssign op t v \<Longrightarrow> ex_kind t = EIndex recv args \<Longrightarrow>
     live_expr tp e a = (\<lambda>l. bindP (live_expr tp v (1 # a) l) (\<lambda>l.
       bindP (live_seq (live_expr tp) (numbered (1 # 0 # a) args) l) (live_expr tp recv (0 # 0 # a))))"
  "ex_kind e = EBinary op x y \<Longrightarrow> op \<in> {OpAnd, OpOr} \<Longrightarrow>
     live_expr tp e a = (\<lambda>l. bindP (live_expr tp y (1 # a) l) (\<lambda>r.
       bindP (live_edges a Edge_Rhs Edge_Skip r l) (live_expr tp x (0 # a))))"
  "ex_kind e = EBinary op x y \<Longrightarrow> op \<notin> {OpAnd, OpOr} \<Longrightarrow>
     live_expr tp e a = (\<lambda>l. bindP (live_expr tp y (1 # a) l) (live_expr tp x (0 # a)))"
  "ex_kind e = EUnary uop x \<Longrightarrow> live_expr tp e a = live_expr tp x (0 # a)"
  "ex_kind e = EIf cond thn els \<Longrightarrow>
     live_expr tp e a = (\<lambda>l. bindP (live_seq (live_expr tp) (numbered (1 # a) thn) l) (\<lambda>l1.
       bindP ((case els of None \<Rightarrow> (\<lambda>l. Some (l, Map.empty))
         | Some es \<Rightarrow> live_seq (live_expr tp) (numbered (2 # a) es)) l) (\<lambda>l2.
       bindP (live_edges a Edge_Then Edge_Else l1 l2) (live_expr tp cond (0 # a)))))"
  "ex_kind e = EWhile cond body \<Longrightarrow>
     live_expr tp e a = (\<lambda>l. fixed_point (\<lambda>h.
       bindP (live_seq (live_expr tp) (numbered (1 # a) body) h) (\<lambda>bl.
       bindP (live_edges a Edge_Body Edge_Exit bl l) (live_expr tp cond (0 # a)))) l)"
  "ex_kind e = EReturn (Some x) \<Longrightarrow> live_expr tp e a = (\<lambda>l. live_expr tp x (0 # a) {})"
  "ex_kind e = EIndex recv args \<Longrightarrow>
     live_expr tp e a = (\<lambda>l. bindP (live_seq (live_expr tp) (numbered (1 # a) args) l) (live_expr tp recv (0 # a)))"
  "ex_kind e = ECall rc nm xs blk safe parens \<Longrightarrow>
     live_expr tp e a = (\<lambda>l. bindP ((case blk of None \<Rightarrow> (\<lambda>l. Some (l, Map.empty))
         | Some b \<Rightarrow> live_inlined tp a (live_seq (live_expr tp) (numbered (2 # a) (bd_stmts (bk_body b))))) l) (\<lambda>l.
       bindP ((case arg_values (1 # a) xs of None \<Rightarrow> (\<lambda>l. None) | Some ys \<Rightarrow> live_seq (live_expr tp) ys) l)
         (case rc of None \<Rightarrow> (\<lambda>l. Some (l, Map.empty)) | Some x \<Rightarrow> live_expr tp x (0 # a))))"
  by (auto simp: live_expr.simps [of tp e a] fun_eq_iff split: option.split)

lemma live_const: "is_const e \<Longrightarrow> live_expr tp e a = (\<lambda>l. Some (l, Map.empty))"
  by (auto simp: is_const_def live_kinds split: expr_kind.splits)

lemma genkill_id': "genkill (\<lambda>l. Some (l, Map.empty))"
  by (rule genkill_id)

lemmas genkill_rules = genkill_id' genkill_bind genkill_read genkill_define genkill_seq

lemma genkill_numbered:
  assumes "values_ok tp (accepted tp) (numbered c es) \<or> statements_ok tp (accepted tp) (numbered c es)"
    and "\<And>x b. x \<in> set es \<Longrightarrow> accepted tp x b \<Longrightarrow> genkill (live_expr tp x b)"
  shows "genkill (live_seq (live_expr tp) (numbered c es))"
  using assms by (intro genkill_seq) (auto dest: values_okD statements_okD set_numbered)

lemma live_genkill: "accepted tp e a \<Longrightarrow> genkill (live_expr tp e a)"
proof (induction e arbitrary: a rule: measure_induct_rule [of size])
  case (less e)
  have below: "x \<in> set (below (ex_kind e)) \<Longrightarrow> accepted tp x b \<Longrightarrow> genkill (live_expr tp x b)" for x b
    using less.IH size_below by blast
  have target: "ex_kind e = EAssign t v \<or> ex_kind e = EOpAssign op t v \<Longrightarrow> x \<in> set (below (ex_kind t)) \<Longrightarrow>
      accepted tp x b \<Longrightarrow> genkill (live_expr tp x b)" for op t v x b
    using less.IH size_below size_target by meson
  note acc = less.prems [unfolded accepted.simps [of tp e a]]
  show ?case
  proof (cases "ex_kind e")
    case (EStr segs)
    then show ?thesis using acc below by (simp add: live_kinds below_def genkill_numbered)
  next
    case (EArray items)
    then show ?thesis using acc below by (simp add: live_kinds below_def genkill_numbered)
  next
    case (EAssign t v)
    then show ?thesis using acc below target [of t v]
      by (cases "ex_kind t") (simp_all add: live_kinds below_def genkill_numbered genkill_rules)
  next
    case (EOpAssign op t v)
    then show ?thesis using acc below target [of t v op]
      by (cases "ex_kind t") (simp_all add: live_kinds below_def genkill_numbered genkill_rules)
  next
    case (EBinary op l r)
    with acc below have "genkill (live_expr tp l (0 # a))" "genkill (live_expr tp r (1 # a))"
      by (simp_all add: below_def)
    with EBinary show ?thesis
      by (cases "op \<in> {OpAnd, OpOr}") (simp_all add: live_kinds genkill_skip genkill_bind)
  next
    case (EIf cond thn els)
    with acc below have "genkill (live_expr tp cond (0 # a))" "genkill (live_seq (live_expr tp) (numbered (1 # a) thn))"
      by (simp_all add: below_def genkill_numbered)
    moreover have "genkill (case els of None \<Rightarrow> \<lambda>l. Some (l, Map.empty)
        | Some es \<Rightarrow> live_seq (live_expr tp) (numbered (2 # a) es))"
      using acc below EIf by (cases els) (simp_all add: below_def genkill_numbered genkill_id')
    ultimately show ?thesis using EIf by (simp add: live_kinds genkill_if)
  next
    case (EWhile cond body)
    with acc below show ?thesis by (simp add: live_kinds below_def genkill_while genkill_numbered)
  next
    case (EReturn v)
    with acc below show ?thesis by (cases v) (simp_all add: live_kinds below_def option_list_def genkill_const)
  next
    case (EIndex recv args)
    with acc below show ?thesis by (simp add: live_kinds below_def genkill_numbered genkill_bind)
  next
    case (ECall rc nm args blk safe parens)
    then obtain xs where xs: "arg_values (1 # a) args = Some xs" "values_ok tp (accepted tp) xs"
      using acc by (auto split: option.splits)
    have "genkill (live_seq (live_expr tp) xs)"
      using xs below ECall by (intro genkill_seq) (auto dest: values_okD arg_values_in simp: below_def)
    moreover have "genkill (case blk of None \<Rightarrow> \<lambda>l. Some (l, Map.empty)
        | Some b \<Rightarrow> live_inlined tp a (live_seq (live_expr tp) (numbered (2 # a) (bd_stmts (bk_body b)))))"
    proof (cases blk)
      case (Some b)
      with acc ECall xs obtain m where m: "tp_methods tp a = Some m" "loops m" "block_ok tp a m"
        "statements_ok tp (accepted tp) (numbered (2 # a) (bd_stmts (bk_body b)))"
        by (auto simp: method_ok_def split: option.splits if_splits)
      have "genkill (live_seq (live_expr tp) (numbered (2 # a) (bd_stmts (bk_body b))))"
        using m(4) below ECall Some by (intro genkill_numbered) (auto simp: below_def)
      with m Some show ?thesis by (simp add: genkill_inlined)
    qed (simp add: genkill_id')
    moreover have "genkill (case rc of None \<Rightarrow> \<lambda>l. Some (l, Map.empty) | Some x \<Rightarrow> live_expr tp x (0 # a))"
    proof (cases rc)
      case (Some r)
      with acc ECall xs have "is_const r \<or> accepted tp r (0 # a)" by (auto split: option.splits if_splits)
      with below ECall Some show ?thesis
        by (auto simp: live_const genkill_id' below_def option_list_def)
    qed (simp add: genkill_id')
    ultimately show ?thesis using ECall xs by (simp add: live_kinds genkill_bind)
  qed (use acc below in \<open>simp_all add: live_kinds genkill_rules below_def\<close>)
qed

subsection \<open>Where the plan is written\<close>

fun key_addr :: "plan_key \<Rightarrow> addr" where
  "key_addr (Key_Move a) = a"
| "key_addr (Key_Dead_Def a) = a"
| "key_addr (Key_Edge a ed) = a"
| "key_addr (Key_Dead_Params a) = a"

definition subtree :: "addr \<Rightarrow> addr set" where
  "subtree a = {b. suffix a b}"

lemma subtree_refl [simp, intro]: "a \<in> subtree a"
  by (simp add: subtree_def)

lemma subtree_child: "subtree (i # a) \<subseteq> subtree a"
  by (auto simp: subtree_def suffix_def)

lemma subtree_disjoint: "i \<noteq> j \<Longrightarrow> subtree (i # a) \<inter> subtree (j # a) = {}"
  by (auto simp: subtree_def suffix_def)

lemma not_in_child [simp]: "a \<notin> subtree (i # a)"
  by (auto simp: subtree_def suffix_def)

definition heap_vars :: "typed \<Rightarrow> live" where
  "heap_vars tp = {n. is_heap_var tp n}"

text \<open>What an analysis writes is at these addresses, and it only adds variables that hold objects.\<close>

definition writes :: "typed \<Rightarrow> addr set \<Rightarrow> (live \<Rightarrow> live planned) \<Rightarrow> bool" where
  "writes tp A F \<longleftrightarrow> (\<forall>l l' w. F l = Some (l', w) \<longrightarrow>
     key_addr ` dom w \<subseteq> A \<and> (l \<subseteq> heap_vars tp \<longrightarrow> l' \<subseteq> heap_vars tp))"

lemma writesI:
  "(\<And>l l' w. F l = Some (l', w) \<Longrightarrow> key_addr ` dom w \<subseteq> A \<and> (l \<subseteq> heap_vars tp \<longrightarrow> l' \<subseteq> heap_vars tp)) \<Longrightarrow> writes tp A F"
  by (simp add: writes_def)

lemma writesD:
  assumes "writes tp A F" "F l = Some (l', w)"
  shows "key_addr ` dom w \<subseteq> A" "l \<subseteq> heap_vars tp \<Longrightarrow> l' \<subseteq> heap_vars tp"
  using assms by (auto simp: writes_def)

lemma writes_mono: "writes tp A F \<Longrightarrow> A \<subseteq> B \<Longrightarrow> writes tp B F"
  unfolding writes_def by blast

lemma writes_id [simp]: "writes tp A (\<lambda>l. Some (l, Map.empty))" "writes tp A (\<lambda>l. None)"
  by (simp_all add: writes_def)

lemma writes_bind:
  assumes "writes tp A F" "writes tp A G"
  shows "writes tp A (\<lambda>l. bindP (F l) G)"
proof (rule writesI)
  fix l l' w
  assume "bindP (F l) G = Some (l', w)"
  then obtain x w1 w2 where "F l = Some (x, w1)" "G x = Some (l', w2)" "w = w1 ++ w2" by (rule bindP_SomeE)
  with writesD [OF assms(1)] writesD [OF assms(2)]
  show "key_addr ` dom w \<subseteq> A \<and> (l \<subseteq> heap_vars tp \<longrightarrow> l' \<subseteq> heap_vars tp)" by (auto simp: image_Un)
qed

lemma writes_read: "writes tp (subtree a) (live_read tp a name)"
  by (auto simp: writes_def live_read_def heap_vars_def split: if_splits)

lemma writes_define: "writes tp (subtree a) (live_define tp a name)"
  by (auto simp: writes_def live_define_def split: if_splits)

lemma writes_seq: "(\<And>b x. (b, x) \<in> set es \<Longrightarrow> writes tp A (f x b)) \<Longrightarrow> writes tp A (live_seq f es)"
proof (induction es)
  case Nil
  then show ?case by (simp add: writes_def)
next
  case (Cons y es)
  obtain b x where "y = (b, x)" by force
  with Cons show ?case by (simp add: writes_bind)
qed

lemma edges_domain: "live_edges a ed1 ed2 l1 l2 = Some (l', w) \<Longrightarrow> key_addr ` dom w \<subseteq> {a} \<and> l' = l1 \<union> l2"
  by (auto simp: live_edges_def Let_def split: if_splits)

lemma writes_if:
  assumes "writes tp A F" "writes tp A G" "writes tp A C" "a \<in> A"
  shows "writes tp A (\<lambda>l. bindP (F l) (\<lambda>l1. bindP (G l) (\<lambda>l2. bindP (live_edges a ed1 ed2 l1 l2) C)))"
proof (rule writesI)
  fix l l' w
  assume "bindP (F l) (\<lambda>l1. bindP (G l) (\<lambda>l2. bindP (live_edges a ed1 ed2 l1 l2) C)) = Some (l', w)"
  then obtain l1 l2 d w1 w2 w3 w4 where *: "F l = Some (l1, w1)" "G l = Some (l2, w2)"
    "live_edges a ed1 ed2 l1 l2 = Some (d, w3)" "C d = Some (l', w4)" "w = w1 ++ (w2 ++ (w3 ++ w4))"
    by (elim bindP_SomeE) blast
  from writesD [OF assms(1) *(1)] writesD [OF assms(2) *(2)] edges_domain [OF *(3)] writesD [OF assms(3) *(4)] assms(4)
  show "key_addr ` dom w \<subseteq> A \<and> (l \<subseteq> heap_vars tp \<longrightarrow> l' \<subseteq> heap_vars tp)"
    unfolding *(5) by (simp add: image_Un) blast
qed

lemma writes_skip:
  assumes "writes tp A F" "writes tp A C" "a \<in> A"
  shows "writes tp A (\<lambda>l. bindP (F l) (\<lambda>l1. bindP (live_edges a ed1 ed2 l1 l) C))"
  using writes_if [OF assms(1) writes_id(1) assms(2,3)] by simp

text \<open>The last round of a loop is at its own result, and is what the plan keeps.\<close>

lemma fixed_point_rounds:
  assumes "fixed_point step l = Some r"
    and last_round: "\<And>h w. step h = Some (h, w) \<Longrightarrow> P h h w"
    and round: "\<And>h next w r w'. step h = Some (next, w) \<Longrightarrow> P next r w' \<Longrightarrow> P h r (w ++ w')"
  shows "P l (fst r) (snd r)"
proof -
  define Q where "Q = (\<lambda>s h (x :: live \<times> plan). (\<forall>h w. s h = Some (h, w) \<longrightarrow> P h h w) \<longrightarrow>
      (\<forall>h next w r w'. s h = Some (next, w) \<longrightarrow> P next r w' \<longrightarrow> P h r (w ++ w')) \<longrightarrow> P h (fst x) (snd x))"
  have "Q step l r"
  proof (rule fixed_point.raw_induct [where P = Q, OF _ assms(1)])
    fix fp s h x
    assume IH: "\<And>s h y. fp s h = Some y \<Longrightarrow> Q s h y"
      and run: "(case s h of None \<Rightarrow> None | Some (next, w) \<Rightarrow> if next = h then Some (h, w)
        else Option.bind (fp s next) (\<lambda>(l, w'). Some (l, w ++ w'))) = Some x"
    obtain n w where s: "s h = Some (n, w)" using run by (auto split: option.splits)
    show "Q s h x"
    proof (cases "n = h")
      case True
      with run s show ?thesis by (auto simp: Q_def)
    next
      case False
      with run s obtain l' w' where fp: "fp s n = Some (l', w')" "x = (l', w ++ w')"
        by (auto split: Option.bind_splits)
      with IH [OF fp(1)] s show ?thesis by (auto simp: Q_def)
    qed
  qed
  with last_round round show ?thesis unfolding Q_def by blast
qed

lemma fixed_point_last:
  assumes "fixed_point step l = Some (l', w)"
  shows "\<exists>w1 w2. step l' = Some (l', w2) \<and> w = w1 ++ w2"
proof -
  have "\<exists>w1 w2. step (fst (l', w)) = Some (fst (l', w), w2) \<and> snd (l', w) = w1 ++ w2"
  proof (rule fixed_point_rounds [OF assms, of "\<lambda>h r w. \<exists>w1 w2. step r = Some (r, w2) \<and> w = w1 ++ w2"])
    show "step h = Some (h, w) \<Longrightarrow> \<exists>w1 w2. step h = Some (h, w2) \<and> w = w1 ++ w2" for h w
      by (metis map_add_empty empty_map_add)
    show "\<exists>w1 w2. step r = Some (r, w2) \<and> w' = w1 ++ w2 \<Longrightarrow> \<exists>w1 w2. step r = Some (r, w2) \<and> w ++ w' = w1 ++ w2" for r w w'
      by (metis map_add_assoc)
  qed
  then show ?thesis by simp
qed

lemma writes_fixed_point:
  assumes step: "\<And>after h h' w. step after h = Some (h', w) \<Longrightarrow>
      key_addr ` dom w \<subseteq> A \<and> (after \<subseteq> heap_vars tp \<longrightarrow> h \<subseteq> heap_vars tp \<longrightarrow> h' \<subseteq> heap_vars tp)"
  shows "writes tp A (\<lambda>after. fixed_point (step after) after)"
proof (rule writesI)
  fix l l' w
  assume fp: "fixed_point (step l) l = Some (l', w)"
  have "key_addr ` dom (snd (l', w)) \<subseteq> A \<and> (l \<subseteq> heap_vars tp \<longrightarrow> l \<subseteq> heap_vars tp \<longrightarrow> fst (l', w) \<subseteq> heap_vars tp)"
  proof (rule fixed_point_rounds [OF fp, of "\<lambda>h r w. key_addr ` dom w \<subseteq> A \<and> (l \<subseteq> heap_vars tp \<longrightarrow> h \<subseteq> heap_vars tp \<longrightarrow> r \<subseteq> heap_vars tp)"])
    fix h "next" r and w w' :: plan
    assume "step l h = Some (next, w)"
      and "key_addr ` dom w' \<subseteq> A \<and> (l \<subseteq> heap_vars tp \<longrightarrow> next \<subseteq> heap_vars tp \<longrightarrow> r \<subseteq> heap_vars tp)"
    with step show "key_addr ` dom (w ++ w') \<subseteq> A \<and> (l \<subseteq> heap_vars tp \<longrightarrow> h \<subseteq> heap_vars tp \<longrightarrow> r \<subseteq> heap_vars tp)"
      by (simp add: image_Un)
  next
    fix h w
    assume "step l h = Some (h, w)"
    with step show "key_addr ` dom w \<subseteq> A \<and> (l \<subseteq> heap_vars tp \<longrightarrow> h \<subseteq> heap_vars tp \<longrightarrow> h \<subseteq> heap_vars tp)"
      by blast
  qed
  then show "key_addr ` dom w \<subseteq> A \<and> (l \<subseteq> heap_vars tp \<longrightarrow> l' \<subseteq> heap_vars tp)" by simp
qed

lemma writes_while:
  assumes "writes tp A B" "writes tp A C" "a \<in> A"
  shows "writes tp A (\<lambda>after. fixed_point (\<lambda>h. bindP (B h) (\<lambda>bl. bindP (live_edges a ed1 ed2 bl after) C)) after)"
proof (rule writes_fixed_point)
  fix after h h' w
  assume "bindP (B h) (\<lambda>bl. bindP (live_edges a ed1 ed2 bl after) C) = Some (h', w)"
  then obtain l1 d w1 w2 w3 where *: "B h = Some (l1, w1)" "live_edges a ed1 ed2 l1 after = Some (d, w2)"
    "C d = Some (h', w3)" "w = w1 ++ (w2 ++ w3)" by (elim bindP_SomeE) blast
  from writesD [OF assms(1) *(1)] edges_domain [OF *(2)] writesD [OF assms(2) *(3)] assms(3)
  show "key_addr ` dom w \<subseteq> A \<and> (after \<subseteq> heap_vars tp \<longrightarrow> h \<subseteq> heap_vars tp \<longrightarrow> h' \<subseteq> heap_vars tp)"
    unfolding *(4) by (simp add: image_Un) blast
qed

lemma writes_inlined:
  assumes "writes tp A B" "a \<in> A"
  shows "writes tp A (live_inlined tp a B)"
proof (cases "\<exists>params m. tp_blocks tp a = Some params \<and> tp_methods tp a = Some m \<and> m \<in> {MTimes, MUpto, MEach, MEachWithIndex}")
  case True
  then obtain params m where m: "tp_blocks tp a = Some params" "tp_methods tp a = Some m"
    "m \<in> {MTimes, MUpto, MEach, MEachWithIndex}" by blast
  define step where "step = (\<lambda>after header.
         bindP (B header) (\<lambda>body_live.
         bindP (Some ((), [Key_Dead_Params a \<mapsto>
           Dead_Params (filter (\<lambda>p. is_heap_var tp p \<and> p \<notin> body_live) params)])) (\<lambda>_.
         live_edges a Edge_Body Edge_Exit (body_live - set params) after)))"
  have "writes tp A (\<lambda>after. fixed_point (step after) after)"
  proof (rule writes_fixed_point)
    fix after h h' w
    assume "step after h = Some (h', w)"
    then obtain l1 w1 w2 where *: "B h = Some (l1, w1)"
      "live_edges a Edge_Body Edge_Exit (l1 - set params) after = Some (h', w2)"
      "w = w1 ++ ([Key_Dead_Params a \<mapsto> Dead_Params (filter (\<lambda>p. is_heap_var tp p \<and> p \<notin> l1) params)] ++ w2)"
      unfolding step_def by (elim bindP_SomeE) auto
    from writesD [OF assms(1) *(1)] edges_domain [OF *(2)] assms(2)
    show "key_addr ` dom w \<subseteq> A \<and> (after \<subseteq> heap_vars tp \<longrightarrow> h \<subseteq> heap_vars tp \<longrightarrow> h' \<subseteq> heap_vars tp)"
      unfolding *(3) by (simp add: image_Un) blast
  qed
  moreover have "live_inlined tp a B = (\<lambda>after. fixed_point (step after) after)"
    using m by (auto simp: live_inlined_def step_def fun_eq_iff)
  ultimately show ?thesis by simp
next
  case False
  then have "live_inlined tp a B = (\<lambda>after. None)"
    by (auto simp: live_inlined_def fun_eq_iff split: option.splits)
  then show ?thesis by simp
qed

lemma numbered_addr: "(b, x) \<in> set (numbered c es) \<Longrightarrow> \<exists>i. b = i # c"
  by (auto simp: numbered_def set_zip)

lemma writes_child: "writes tp (subtree (i # a)) F \<Longrightarrow> writes tp (subtree a) F"
  using writes_mono [OF _ subtree_child] .

lemma writes_numbered:
  assumes "\<And>x b. x \<in> set es \<Longrightarrow> writes tp (subtree b) (live_expr tp x b)" "subtree c \<subseteq> A"
  shows "writes tp A (live_seq (live_expr tp) (numbered c es))"
proof (rule writes_seq)
  fix b x
  assume b: "(b, x) \<in> set (numbered c es)"
  obtain i where i: "b = i # c" using numbered_addr [OF b] by blast
  have "writes tp (subtree (i # c)) (live_expr tp x b)" using assms(1) [OF set_numbered [OF b], of b] by (simp add: i)
  then have "writes tp (subtree c) (live_expr tp x b)" by (rule writes_child)
  then show "writes tp A (live_expr tp x b)" using assms(2) by (rule writes_mono)
qed

lemma arg_values_addr:
  "arg_values c args = Some xs \<Longrightarrow> (b, x) \<in> set xs \<Longrightarrow> \<exists>i. b = i # c"
  by (fastforce simp: arg_values_def numbered_def dest: set_zip_leftD split: if_splits)

lemma subtree_grandchild: "subtree (j # i # a) \<subseteq> subtree a"
  using subtree_child by (meson order_trans)

lemma writes_return: "writes tp A F \<Longrightarrow> writes tp A (\<lambda>l. F {})"
  unfolding writes_def by blast

lemma live_writes: "writes tp (subtree a) (live_expr tp e a)"
proof (induction e arbitrary: a rule: measure_induct_rule [of size])
  case (less e)
  have small: "size x < size e \<Longrightarrow> writes tp (subtree (i # a)) (live_expr tp x (i # a))
      \<and> writes tp (subtree a) (live_expr tp x (i # a)) \<and> writes tp (subtree a) (live_expr tp x (j # i # a))" for x i j
    using less.IH writes_child by metis
  have child: "x \<in> set (below (ex_kind e)) \<Longrightarrow> writes tp (subtree a) (live_expr tp x (i # a))" for x i
    using small size_below by blast
  have list: "(\<And>x. x \<in> set es \<Longrightarrow> size x < size e) \<Longrightarrow> subtree c \<subseteq> subtree a \<Longrightarrow>
      writes tp (subtree a) (live_seq (live_expr tp) (numbered c es))" for es c
    using less.IH by (intro writes_numbered) auto
  note sizes = size_below subtree_child subtree_grandchild
  show ?case
  proof (cases "ex_kind e")
    case (EStr segs)
    then show ?thesis using list sizes by (simp add: live_kinds below_def)
  next
    case (EArray items)
    then show ?thesis using list sizes by (simp add: live_kinds below_def)
  next
    case (EVar name)
    then show ?thesis by (simp add: live_kinds writes_read)
  next
    case (EAssign t v)
    show ?thesis
    proof (cases "ex_kind t")
      case (EVar name)
      with EAssign child show ?thesis by (simp add: live_kinds below_def writes_bind writes_define)
    next
      case (EIndex recv args)
      have "writes tp (subtree a) (live_expr tp recv (0 # 0 # a))"
        using small size_target_index(1) [OF EAssign EIndex] by blast
      moreover have "writes tp (subtree a) (live_seq (live_expr tp) (numbered (1 # 0 # a) args))"
        using size_target(1) [OF EAssign] size_below [of _ t] EIndex
        by (intro list subtree_grandchild) (auto simp: below_def)
      ultimately show ?thesis using EAssign EIndex child by (simp add: live_kinds below_def writes_bind)
    qed (simp_all add: EAssign live_expr.simps [of tp e a] writes_def)
  next
    case (EOpAssign op t v)
    show ?thesis
    proof (cases "ex_kind t")
      case (EVar name)
      moreover have "writes tp (subtree a) (live_read tp (0 # a) name)"
        by (rule writes_child [OF writes_read])
      ultimately show ?thesis using EOpAssign child by (simp add: live_kinds below_def writes_bind writes_define)
    next
      case (EIndex recv args)
      have "writes tp (subtree a) (live_expr tp recv (0 # 0 # a))"
        using small size_target_index(2) [OF EOpAssign EIndex] by blast
      moreover have "writes tp (subtree a) (live_seq (live_expr tp) (numbered (1 # 0 # a) args))"
        using size_target(2) [OF EOpAssign] size_below [of _ t] EIndex
        by (intro list subtree_grandchild) (auto simp: below_def)
      ultimately show ?thesis using EOpAssign EIndex child by (simp add: live_kinds below_def writes_bind)
    qed (simp_all add: EOpAssign live_expr.simps [of tp e a] writes_def)
  next
    case (EBinary op l r)
    with child have "writes tp (subtree a) (live_expr tp l (0 # a))" "writes tp (subtree a) (live_expr tp r (1 # a))"
      by (simp_all add: below_def)
    with EBinary show ?thesis
      by (cases "op \<in> {OpAnd, OpOr}") (simp_all add: live_kinds writes_bind writes_skip)
  next
    case (EUnary op x)
    with child show ?thesis by (simp add: live_kinds below_def)
  next
    case (EIf cond thn els)
    have "writes tp (subtree a) (live_seq (live_expr tp) (numbered (1 # a) thn))"
      using EIf sizes by (intro list) (auto simp: below_def)
    moreover have "writes tp (subtree a) (case els of None \<Rightarrow> \<lambda>l. Some (l, Map.empty)
        | Some es \<Rightarrow> live_seq (live_expr tp) (numbered (2 # a) es))"
      using EIf size_below by (cases els) (auto simp: below_def intro!: list [OF _ subtree_child])
    ultimately show ?thesis using EIf child by (simp add: live_kinds below_def writes_if)
  next
    case (EWhile cond body)
    have "writes tp (subtree a) (live_seq (live_expr tp) (numbered (1 # a) body))"
      using EWhile sizes by (intro list) (auto simp: below_def)
    then show ?thesis using EWhile child by (simp add: live_kinds below_def writes_while)
  next
    case (EReturn v)
    with child show ?thesis
      by (cases v) (simp_all add: live_kinds below_def option_list_def writes_return, simp add: live_expr.simps writes_def)
  next
    case (EIndex recv args)
    have "writes tp (subtree a) (live_seq (live_expr tp) (numbered (1 # a) args))"
      using EIndex sizes by (intro list) (auto simp: below_def)
    then show ?thesis using EIndex child by (simp add: live_kinds below_def writes_bind)
  next
    case (ECall rc nm args blk safe parens)
    have "writes tp (subtree a) (case blk of None \<Rightarrow> \<lambda>l. Some (l, Map.empty)
        | Some b \<Rightarrow> live_inlined tp a (live_seq (live_expr tp) (numbered (2 # a) (bd_stmts (bk_body b)))))"
      using ECall size_below by (cases blk) (auto simp: below_def intro!: list [OF _ subtree_child] writes_inlined)
    moreover have "writes tp (subtree a) (case arg_values (1 # a) args of None \<Rightarrow> \<lambda>l. None
        | Some xs \<Rightarrow> live_seq (live_expr tp) xs)"
    proof (cases "arg_values (1 # a) args")
      case (Some xs)
      have "writes tp (subtree a) (live_seq (live_expr tp) xs)"
        using arg_values_addr [OF Some] size_arg_values [OF Some _ ECall] small by (intro writes_seq) blast
      with Some show ?thesis by simp
    qed simp
    moreover have "writes tp (subtree a) (case rc of None \<Rightarrow> \<lambda>l. Some (l, Map.empty) | Some x \<Rightarrow> live_expr tp x (0 # a))"
      using ECall child by (cases rc) (simp_all add: below_def option_list_def)
    ultimately show ?thesis using ECall by (simp add: live_kinds writes_bind)
  qed (simp_all add: live_expr.simps [of tp e a] writes_def)
qed

end
