(* ===== verification/Ownership_Props.thy ===== *)
theory Ownership_Props
  imports Liveness_Props
begin

text \<open>
  The variables that own a reference are, all along the translation of an accepted body, exactly those
  that liveness finds live: no check of the translator fails, and what is owned at the end is what is
  live there.
\<close>

subsection \<open>Translation follows an analysis\<close>

text \<open>
  The code \<open>m\<close> follows the analysis \<open>F\<close>: started with what \<open>F\<close> finds live before it, and the plan that
  \<open>F\<close> writes, it ends with what is live after it, and the given result.
\<close>

definition agrees :: "own_cx \<Rightarrow> (live \<Rightarrow> live planned) \<Rightarrow> 'a own \<Rightarrow> 'a \<Rightarrow> bool \<Rightarrow> bool" where
  "agrees cx F m x ends \<longleftrightarrow> (\<forall>l l0 w. l \<subseteq> heap_vars (oc_typed cx) \<longrightarrow> F l = Some (l0, w) \<longrightarrow> w \<subseteq>\<^sub>m oc_plan cx \<longrightarrow>
     (\<exists>owned. m l0 = Some (x, owned) \<and> (ends \<longrightarrow> owned = l)))"

lemma agreesI:
  "(\<And>l l0 w. l \<subseteq> heap_vars (oc_typed cx) \<Longrightarrow> F l = Some (l0, w) \<Longrightarrow> w \<subseteq>\<^sub>m oc_plan cx \<Longrightarrow>
     \<exists>owned. m l0 = Some (x, owned) \<and> (ends \<longrightarrow> owned = l)) \<Longrightarrow> agrees cx F m x ends"
  by (auto simp: agrees_def)

lemma agreesD:
  assumes "agrees cx F m x ends" "l \<subseteq> heap_vars (oc_typed cx)" "F l = Some (l0, w)" "w \<subseteq>\<^sub>m oc_plan cx"
  obtains owned where "m l0 = Some (x, owned)" "ends \<Longrightarrow> owned = l"
  using assms unfolding agrees_def by blast

lemma agrees_ends:
  assumes "agrees cx F m x True" "l \<subseteq> heap_vars (oc_typed cx)" "F l = Some (l0, w)" "w \<subseteq>\<^sub>m oc_plan cx"
  shows "m l0 = Some (x, l)"
  using assms unfolding agrees_def by blast

lemma map_le_addD: "w1 ++ w2 \<subseteq>\<^sub>m p \<Longrightarrow> w2 \<subseteq>\<^sub>m p"
  by (metis map_le_map_add map_le_trans)

lemma map_le_addD1: "w1 ++ w2 \<subseteq>\<^sub>m p \<Longrightarrow> dom w1 \<inter> dom w2 = {} \<Longrightarrow> w1 \<subseteq>\<^sub>m p"
  by (metis map_add_comm map_le_addD)

lemma keys_disjoint:
  "key_addr ` dom w1 \<subseteq> A \<Longrightarrow> key_addr ` dom w2 \<subseteq> B \<Longrightarrow> A \<inter> B = {} \<Longrightarrow> dom w1 \<inter> dom w2 = {}"
  by blast

subsection \<open>Sequences\<close>

lemma agrees_bind:
  assumes m: "agrees cx F m y True" and n: "agrees cx G (n y) x ends"
    and F: "writes (oc_typed cx) A F" and G: "writes (oc_typed cx) B G" and AB: "A \<inter> B = {}"
  shows "agrees cx (\<lambda>l. bindP (G l) F) (bindO m n) x ends"
proof (rule agreesI)
  fix l l0 w
  assume l: "l \<subseteq> heap_vars (oc_typed cx)" and FG: "bindP (G l) F = Some (l0, w)" and w: "w \<subseteq>\<^sub>m oc_plan cx"
  from FG obtain l1 w1 w2 where *: "G l = Some (l1, w1)" "F l1 = Some (l0, w2)" "w = w1 ++ w2" by (rule bindP_SomeE)
  have "dom w1 \<inter> dom w2 = {}"
    using keys_disjoint [OF writesD(1) [OF G *(1)] writesD(1) [OF F *(2)]] AB by blast
  with w *(3) have "w1 \<subseteq>\<^sub>m oc_plan cx" "w2 \<subseteq>\<^sub>m oc_plan cx" using map_le_addD map_le_addD1 by blast+
  moreover have "m l0 = Some (y, l1)"
    using agrees_ends [OF m writesD(2) [OF G *(1) l] *(2)] calculation by blast
  ultimately show "\<exists>owned. bindO m n l0 = Some (x, owned) \<and> (ends \<longrightarrow> owned = l)"
    using n l *(1) by (auto simp: bindO_def agrees_def)
qed

lemma agrees_done: "agrees cx (\<lambda>l. Some (l, Map.empty)) (doneO x) x ends"
  by (simp add: agrees_def doneO_def)

lemma agrees_then_done:
  assumes "agrees cx F m y True"
  shows "agrees cx F (bindO m (\<lambda>_. doneO x)) x ends"
proof (rule agreesI)
  fix l l0 w
  assume "l \<subseteq> heap_vars (oc_typed cx)" "F l = Some (l0, w)" "w \<subseteq>\<^sub>m oc_plan cx"
  from agrees_ends [OF assms this] show "\<exists>owned. bindO m (\<lambda>_. doneO x) l0 = Some (x, owned) \<and> (ends \<longrightarrow> owned = l)"
    by (simp add: bindO_def doneO_def)
qed

lemma agrees_operand: "agrees cx F m True True \<Longrightarrow> agrees cx F (operand m) () True"
  unfolding agrees_def operand_def bindO_def checkO_def doneO_def by fastforce

lemma agrees_weaken: "agrees cx F m x True \<Longrightarrow> agrees cx F m x ends"
  unfolding agrees_def by blast

lemma bindO_assoc: "bindO (bindO m f) g = bindO m (\<lambda>x. bindO (f x) g)"
  by (auto simp: bindO_def fun_eq_iff split: Option.bind_splits)

text \<open>Lists of expressions whose addresses are different children of one node.\<close>

definition siblings :: "addr \<Rightarrow> (addr \<times> expr) list \<Rightarrow> bool" where
  "siblings c es \<longleftrightarrow> distinct (map fst es) \<and> (\<forall>(b, x) \<in> set es. \<exists>i. b = i # c)"

lemma siblings_numbered: "siblings c (numbered c es)"
proof -
  have "map fst (numbered c es) = map (\<lambda>i. i # c) [0..<length es]" by (simp add: numbered_def)
  then have "distinct (map fst (numbered c es))" by (simp add: distinct_map inj_on_def)
  then show ?thesis using numbered_addr by (fastforce simp: siblings_def)
qed

lemma siblings_arg_values:
  assumes "arg_values c args = Some xs"
  shows "siblings c xs"
proof -
  have "map fst xs = map (\<lambda>i. i # c) [0..<length args]"
    using assms by (auto simp: arg_values_def numbered_def comp_def case_prod_beta map_fst_zip split: if_splits)
  then have "distinct (map fst xs)" by (simp add: distinct_map inj_on_def)
  then show ?thesis using arg_values_addr [OF assms] by (fastforce simp: siblings_def)
qed

lemma siblings_Cons:
  assumes "siblings c ((b, x) # es)"
  shows "siblings c es" "(b', x') \<in> set es \<Longrightarrow> subtree b \<inter> subtree b' = {}" "subtree b \<subseteq> subtree c"
proof -
  show "siblings c es" using assms by (auto simp: siblings_def)
  obtain i where b: "b = i # c" using assms by (auto simp: siblings_def)
  then show "subtree b \<subseteq> subtree c" by (simp add: subtree_child)
  assume in': "(b', x') \<in> set es"
  then obtain j where "b' = j # c" using assms by (fastforce simp: siblings_def)
  moreover have "b \<noteq> b'" using assms in' by (force simp: siblings_def)
  ultimately show "subtree b \<inter> subtree b' = {}" using b subtree_disjoint by simp
qed

lemma writes_siblings:
  assumes "\<And>b x. (b, x) \<in> set es \<Longrightarrow> writes tp (subtree b) (f x b)"
  shows "writes tp (\<Union> (subtree ` fst ` set es)) (live_seq f es)"
proof (rule writes_seq)
  fix b x
  assume b: "(b, x) \<in> set es"
  then have "subtree b \<subseteq> \<Union> (subtree ` fst ` set es)" by force
  with assms [OF b] show "writes tp (\<Union> (subtree ` fst ` set es)) (f x b)" by (rule writes_mono)
qed

lemma siblings_apart:
  assumes "siblings c ((b, x) # es)"
  shows "subtree b \<inter> \<Union> (subtree ` fst ` set es) = {}"
  using siblings_Cons(2) [OF assms] by fastforce

lemma agrees_operands:
  assumes "siblings c es" "\<And>b x. (b, x) \<in> set es \<Longrightarrow> agrees cx (f x b) (g x b) True True"
    and "\<And>b x. (b, x) \<in> set es \<Longrightarrow> writes (oc_typed cx) (subtree b) (f x b)"
  shows "agrees cx (live_seq f es) (operands g es) () True"
  using assms
proof (induction es)
  case Nil
  then show ?case by (simp add: agrees_done)
next
  case (Cons y es)
  obtain b x where y: "y = (b, x)" by force
  have "agrees cx (f x b) (operand (g x b)) () True" using Cons.prems(2) y by (simp add: agrees_operand)
  moreover have "agrees cx (live_seq f es) (operands g es) () True"
    using Cons y by (simp add: siblings_Cons(1))
  moreover have "writes (oc_typed cx) (subtree b) (f x b)" using Cons.prems(3) y by simp
  moreover have "writes (oc_typed cx) (\<Union> (subtree ` fst ` set es)) (live_seq f es)"
    by (rule writes_siblings) (simp add: Cons.prems(3))
  ultimately show ?case
    unfolding y operands.simps live_seq.simps by (rule agrees_bind [OF _ _ _ _ siblings_apart [OF Cons.prems(1) [unfolded y]]])
qed

lemma agrees_statements:
  assumes "siblings c es" "\<And>b x. (b, x) \<in> set es \<Longrightarrow> agrees cx (f x b) (g x b) (v b) (not_never (oc_typed cx) b)"
    and "\<And>b x. (b, x) \<in> set es \<Longrightarrow> writes (oc_typed cx) (subtree b) (f x b)"
    and "list_all (\<lambda>(b, x). not_never (oc_typed cx) b) (butlast es)"
  shows "agrees cx (live_seq f es) (statements g es) (es \<noteq> [] \<and> v (fst (last es))) (\<not> never_ends (oc_typed cx) es)"
  using assms
proof (induction es)
  case Nil
  then show ?case by (simp add: agrees_done)
next
  case (Cons y es)
  obtain b x where y: "y = (b, x)" by force
  show ?case
  proof (cases es)
    case Nil
    have "agrees cx (f x b) (g x b) (v b) (not_never (oc_typed cx) b)" using Cons.prems(2) y by simp
    moreover have "bindP (live_seq f [] l) (f x b) = f x b l" for l by simp
    ultimately show ?thesis using y Nil by (simp add: never_ends_def not_never_def)
  next
    case (Cons z zs)
    then have sts: "statements g ((b, x) # es) = bindO (g x b) (\<lambda>_. statements g es)" by simp
    have "agrees cx (f x b) (g x b) (v b) True"
      using Cons.prems(2) [of b x] Cons.prems(4) y Cons by (simp add: not_never_def)
    moreover have "agrees cx (live_seq f es) (statements g es) (es \<noteq> [] \<and> v (fst (last es))) (\<not> never_ends (oc_typed cx) es)"
      using Cons.IH Cons.prems y Cons by (auto simp: siblings_Cons(1))
    moreover have "writes (oc_typed cx) (subtree b) (f x b)" using Cons.prems(3) y by simp
    moreover have "writes (oc_typed cx) (\<Union> (subtree ` fst ` set es)) (live_seq f es)"
      by (rule writes_siblings) (simp add: Cons.prems(3))
    ultimately have "agrees cx (\<lambda>l. bindP (live_seq f es l) (f x b)) (bindO (g x b) (\<lambda>_. statements g es))
        (es \<noteq> [] \<and> v (fst (last es))) (\<not> never_ends (oc_typed cx) es)"
      by (rule agrees_bind [OF _ _ _ _ siblings_apart [OF Cons.prems(1) [unfolded y]]])
    then show ?thesis using y Cons sts by (simp add: never_ends_def)
  qed
qed

subsection \<open>Variables\<close>

definition same_vars :: "own_cx \<Rightarrow> bool" where
  "same_vars cx \<longleftrightarrow> (\<forall>n. oc_vars cx n = tp_vars (oc_typed cx) n)"

lemma same_vars_heap: "same_vars cx \<Longrightarrow> is_heap_local cx n = is_heap_var (oc_typed cx) n"
  by (simp add: same_vars_def is_heap_local_def is_heap_var_def split: option.split)

lemma agrees_read:
  assumes "same_vars cx" "known_var (oc_typed cx) name"
  shows "agrees cx (live_read (oc_typed cx) a name) (read_var cx a name) True True"
proof (rule agreesI)
  fix l l0 w
  assume r: "live_read (oc_typed cx) a name l = Some (l0, w)" and w: "w \<subseteq>\<^sub>m oc_plan cx"
  have known: "oc_vars cx name \<noteq> None" using assms by (simp add: same_vars_def known_var_def)
  show "\<exists>owned. read_var cx a name l0 = Some (True, owned) \<and> (True \<longrightarrow> owned = l)"
  proof (cases "is_heap_var (oc_typed cx) name")
    case True
    with r w have "oc_plan cx (Key_Move a) = Some (Flag (name \<notin> l))" and l0: "l0 = insert name l"
      by (auto simp: live_read_def map_le_def)
    then have "plan_moves (oc_plan cx) a \<longleftrightarrow> name \<notin> l" by (auto simp: plan_moves_def)
    with True l0 known assms(1) show ?thesis
      by (auto simp: read_var_def same_vars_heap bindO_def drop_var_def doneO_def insert_absorb)
  next
    case False
    with r known assms(1) show ?thesis
      by (auto simp: live_read_def read_var_def same_vars_heap doneO_def)
  qed
qed

lemma agrees_define:
  assumes "same_vars cx" "known_var (oc_typed cx) name"
  shows "agrees cx (live_define (oc_typed cx) a name) (define_var cx name (Some a)) () True"
proof (rule agreesI)
  fix l l0 w
  assume r: "live_define (oc_typed cx) a name l = Some (l0, w)" and w: "w \<subseteq>\<^sub>m oc_plan cx"
  have known: "oc_vars cx name \<noteq> None" using assms by (simp add: same_vars_def known_var_def)
  show "\<exists>owned. define_var cx name (Some a) l0 = Some ((), owned) \<and> (True \<longrightarrow> owned = l)"
  proof (cases "is_heap_var (oc_typed cx) name")
    case True
    with r w have "oc_plan cx (Key_Dead_Def a) = Some (Flag (name \<notin> l))" and l0: "l0 = l - {name}"
      by (auto simp: live_define_def map_le_def)
    then have "plan_dead_after (oc_plan cx) a \<longleftrightarrow> name \<notin> l" by (auto simp: plan_dead_after_def)
    with True l0 known assms(1) show ?thesis
      by (auto simp: define_var_def same_vars_heap drop_var_def)
  next
    case False
    with r known assms(1) show ?thesis
      by (auto simp: live_define_def define_var_def same_vars_heap)
  qed
qed

subsection \<open>Branches\<close>

lemma edges_drops:
  assumes "live_edges a ed1 ed2 l1 l2 = Some (d, w)" "w \<subseteq>\<^sub>m oc_plan cx" "ed1 \<noteq> ed2"
  shows "drop_edge cx a ed1 d = Some ((), l1)" "drop_edge cx a ed2 d = Some ((), l2)" "d = l1 \<union> l2"
proof -
  have d: "d = l1 \<union> l2" and w: "w = [Key_Edge a ed1 \<mapsto> Dying (d - l1), Key_Edge a ed2 \<mapsto> Dying (d - l2)]"
    using assms(1) by (auto simp: live_edges_def Let_def)
  have "oc_plan cx (Key_Edge a ed1) = Some (Dying (d - l1))" "oc_plan cx (Key_Edge a ed2) = Some (Dying (d - l2))"
    using assms(2,3) by (auto simp: w map_le_def)
  then have "plan_drops (oc_plan cx) a ed1 = d - l1" "plan_drops (oc_plan cx) a ed2 = d - l2"
    by (simp_all add: plan_drops_def)
  then show "drop_edge cx a ed1 d = Some ((), l1)" "drop_edge cx a ed2 d = Some ((), l2)" "d = l1 \<union> l2"
    by (auto simp: drop_edge_def d)
qed

lemma map_le_parts:
  assumes "w1 ++ (w2 ++ (w3 ++ w4)) \<subseteq>\<^sub>m p"
    and "key_addr ` dom w1 \<subseteq> A1" "key_addr ` dom w2 \<subseteq> A2" "key_addr ` dom w3 \<subseteq> A3" "key_addr ` dom w4 \<subseteq> A4"
    and "A1 \<inter> A2 = {}" "A1 \<inter> A3 = {}" "A1 \<inter> A4 = {}" "A2 \<inter> A3 = {}" "A2 \<inter> A4 = {}" "A3 \<inter> A4 = {}"
  shows "w1 \<subseteq>\<^sub>m p" "w2 \<subseteq>\<^sub>m p" "w3 \<subseteq>\<^sub>m p" "w4 \<subseteq>\<^sub>m p"
proof -
  have d: "dom w1 \<inter> dom (w2 ++ (w3 ++ w4)) = {}" "dom w2 \<inter> dom (w3 ++ w4) = {}" "dom w3 \<inter> dom w4 = {}"
    using keys_disjoint [OF assms(2,3,6)] keys_disjoint [OF assms(2,4,7)] keys_disjoint [OF assms(2,5,8)]
      keys_disjoint [OF assms(3,4,9)] keys_disjoint [OF assms(3,5,10)] keys_disjoint [OF assms(4,5,11)]
    by (simp_all add: Int_Un_distrib)
  have 2: "w2 ++ (w3 ++ w4) \<subseteq>\<^sub>m p" using assms(1) by (rule map_le_addD)
  then have 3: "w3 ++ w4 \<subseteq>\<^sub>m p" by (rule map_le_addD)
  then show "w4 \<subseteq>\<^sub>m p" by (rule map_le_addD)
  show "w1 \<subseteq>\<^sub>m p" "w2 \<subseteq>\<^sub>m p" "w3 \<subseteq>\<^sub>m p"
    using map_le_addD1 [OF assms(1) d(1)] map_le_addD1 [OF 2 d(2)] map_le_addD1 [OF 3 d(3)] by blast+
qed

lemma agrees_if:
  assumes cond: "agrees cx C (operand c) () True" "writes (oc_typed cx) (subtree (0 # a)) C"
    and thn: "agrees cx F m v1 (\<not> never_ends (oc_typed cx) es1)" "writes (oc_typed cx) (subtree (1 # a)) F"
    and els: "agrees cx G n v2 (\<not> never_ends (oc_typed cx) es2)" "writes (oc_typed cx) (subtree (2 # a)) G"
    and ends: "ends \<Longrightarrow> \<not> (never_ends (oc_typed cx) es1 \<and> never_ends (oc_typed cx) es2)"
  shows "agrees cx (\<lambda>l. bindP (F l) (\<lambda>l1. bindP (G l) (\<lambda>l2. bindP (live_edges a Edge_Then Edge_Else l1 l2) C)))
    (own_if cx a c (own_branch cx a Edge_Then es1 m) (own_branch cx a Edge_Else es2 n))
    (has_value (oc_typed cx) a) ends"
proof (rule agreesI)
  fix l l0 w
  assume l: "l \<subseteq> heap_vars (oc_typed cx)" and w: "w \<subseteq>\<^sub>m oc_plan cx"
    and "bindP (F l) (\<lambda>l1. bindP (G l) (\<lambda>l2. bindP (live_edges a Edge_Then Edge_Else l1 l2) C)) = Some (l0, w)"
  then obtain l1 l2 d w1 w2 w3 w4 where *: "F l = Some (l1, w1)" "G l = Some (l2, w2)"
    "live_edges a Edge_Then Edge_Else l1 l2 = Some (d, w3)" "C d = Some (l0, w4)" "w = w1 ++ (w2 ++ (w3 ++ w4))"
    by (elim bindP_SomeE) blast
  note F = writesD [OF thn(2) *(1)] and G = writesD [OF els(2) *(2)] and E = edges_domain [OF *(3)] and C = writesD [OF cond(2) *(4)]
  have parts: "w1 \<subseteq>\<^sub>m oc_plan cx" "w2 \<subseteq>\<^sub>m oc_plan cx" "w3 \<subseteq>\<^sub>m oc_plan cx" "w4 \<subseteq>\<^sub>m oc_plan cx"
    using map_le_parts [OF w [unfolded *(5)] F(1) G(1) conjunct1 [OF E] C(1)] by (simp_all add: subtree_disjoint)
  note drops = edges_drops [OF *(3) parts(3)]
  have d: "d \<subseteq> heap_vars (oc_typed cx)" using F(2) G(2) l drops(3) by auto
  obtain o1 where 1: "m l1 = Some (v1, o1)" "\<not> never_ends (oc_typed cx) es1 \<Longrightarrow> o1 = l"
    using agreesD [OF thn(1) l *(1) parts(1)] by blast
  obtain o2 where 2: "n l2 = Some (v2, o2)" "\<not> never_ends (oc_typed cx) es2 \<Longrightarrow> o2 = l"
    using agreesD [OF els(1) l *(2) parts(2)] by blast
  have "operand c l0 = Some ((), d)" using agrees_ends [OF cond(1) d *(4) parts(4)] .
  moreover have "own_branch cx a Edge_Then es1 m d = Some (if never_ends (oc_typed cx) es1 then None else Some l)"
    "own_branch cx a Edge_Else es2 n d = Some (if never_ends (oc_typed cx) es2 then None else Some l)"
    using drops 1 2 by (simp_all add: own_branch_def bindO_def)
  ultimately show "\<exists>owned. own_if cx a c (own_branch cx a Edge_Then es1 m) (own_branch cx a Edge_Else es2 n) l0 =
      Some (has_value (oc_typed cx) a, owned) \<and> (ends \<longrightarrow> owned = l)"
    using ends by (auto simp: own_if_def bindO_def)
qed

lemma agrees_short_circuit:
  assumes lhs: "agrees cx C c True True" "writes (oc_typed cx) (subtree (0 # a)) C"
    and rhs: "agrees cx F m True True" "writes (oc_typed cx) (subtree (1 # a)) F"
  shows "agrees cx (\<lambda>l. bindP (F l) (\<lambda>l1. bindP (live_edges a Edge_Rhs Edge_Skip l1 l) C))
    (own_short_circuit cx a c m) True ends"
proof (rule agreesI)
  fix l l0 w
  assume l: "l \<subseteq> heap_vars (oc_typed cx)" and w: "w \<subseteq>\<^sub>m oc_plan cx"
    and "bindP (F l) (\<lambda>l1. bindP (live_edges a Edge_Rhs Edge_Skip l1 l) C) = Some (l0, w)"
  then obtain l1 d w1 w3 w4 where *: "F l = Some (l1, w1)"
    "live_edges a Edge_Rhs Edge_Skip l1 l = Some (d, w3)" "C d = Some (l0, w4)" "w = w1 ++ (Map.empty ++ (w3 ++ w4))"
    by (elim bindP_SomeE) auto
  note F = writesD [OF rhs(2) *(1)] and E = edges_domain [OF *(2)] and C = writesD [OF lhs(2) *(3)]
  have parts: "w1 \<subseteq>\<^sub>m oc_plan cx" "w3 \<subseteq>\<^sub>m oc_plan cx" "w4 \<subseteq>\<^sub>m oc_plan cx"
    using map_le_parts [OF w [unfolded *(4)] F(1) _ conjunct1 [OF E] C(1), of "{}"] by (simp_all add: subtree_disjoint)
  note drops = edges_drops [OF *(2) parts(2)]
  have d: "d \<subseteq> heap_vars (oc_typed cx)" using F(2) l drops(3) by auto
  have "operand m l1 = Some ((), l)" using agrees_ends [OF agrees_operand [OF rhs(1)] l *(1) parts(1)] .
  moreover have "operand c l0 = Some ((), d)" using agrees_ends [OF agrees_operand [OF lhs(1)] d *(3) parts(3)] .
  ultimately show "\<exists>owned. own_short_circuit cx a c m l0 = Some (True, owned) \<and> (ends \<longrightarrow> owned = l)"
    using drops by (simp add: own_short_circuit_def bindO_def)
qed

subsection \<open>Loops\<close>

lemma agrees_while:
  assumes cond: "agrees cx C c True True" "writes (oc_typed cx) (subtree (0 # a)) C"
    and body: "agrees cx B m v (\<not> never_ends (oc_typed cx) es)" "writes (oc_typed cx) (subtree (1 # a)) B"
  shows "agrees cx (\<lambda>l. fixed_point (\<lambda>h. bindP (B h) (\<lambda>bl. bindP (live_edges a Edge_Body Edge_Exit bl l) C)) l)
    (own_while cx a c es m) False ends"
proof (rule agreesI)
  fix l l0 w
  let ?step = "\<lambda>h. bindP (B h) (\<lambda>bl. bindP (live_edges a Edge_Body Edge_Exit bl l) C)"
  assume l: "l \<subseteq> heap_vars (oc_typed cx)" and w: "w \<subseteq>\<^sub>m oc_plan cx" and fp: "fixed_point ?step l = Some (l0, w)"
  have "writes (oc_typed cx) (subtree a)
      (\<lambda>l. fixed_point (\<lambda>h. bindP (B h) (\<lambda>bl. bindP (live_edges a Edge_Body Edge_Exit bl l) C)) l)"
    by (intro writes_while writes_child [OF body(2)] writes_child [OF cond(2)]) simp
  then have l0: "l0 \<subseteq> heap_vars (oc_typed cx)" using writesD(2) fp l by blast
  obtain w1 w2 where "?step l0 = Some (l0, w2)" and w12: "w = w1 ++ w2" using fixed_point_last [OF fp] by blast
  then obtain bl d u1 u2 u3 where *: "B l0 = Some (bl, u1)" "live_edges a Edge_Body Edge_Exit bl l = Some (d, u2)"
    "C d = Some (l0, u3)" "w2 = u1 ++ (Map.empty ++ (u2 ++ u3))" by (elim bindP_SomeE) auto
  note B = writesD [OF body(2) *(1)] and E = edges_domain [OF *(2)] and C = writesD [OF cond(2) *(3)]
  have parts: "u1 \<subseteq>\<^sub>m oc_plan cx" "u2 \<subseteq>\<^sub>m oc_plan cx" "u3 \<subseteq>\<^sub>m oc_plan cx"
    using map_le_parts [OF map_le_addD [OF w [unfolded w12 *(4)]] B(1) _ conjunct1 [OF E] C(1), of "{}"]
    by (simp_all add: subtree_disjoint)
  note drops = edges_drops [OF *(2) parts(2)]
  have d: "d \<subseteq> heap_vars (oc_typed cx)" using B(2) l0 l drops(3) by auto
  obtain o1 where 1: "m bl = Some (v, o1)" "\<not> never_ends (oc_typed cx) es \<Longrightarrow> o1 = l0"
    using agreesD [OF body(1) l0 *(1) parts(1)] by blast
  have "operand c l0 = Some ((), d)" using agrees_ends [OF agrees_operand [OF cond(1)] d *(3) parts(3)] .
  with 1 drops show "\<exists>owned. own_while cx a c es m l0 = Some (False, owned) \<and> (ends \<longrightarrow> owned = l)"
    by (auto simp: own_while_def bindO_def doneO_def)
qed

text \<open>Entering a block: its parameters that hold objects are owned, those never read are dropped.\<close>

lemma define_vars_owned:
  assumes "same_vars cx" "list_all (known_var (oc_typed cx)) ps" "distinct (filter (is_heap_var (oc_typed cx)) ps)"
    and "owned \<inter> set (filter (is_heap_var (oc_typed cx)) ps) = {}"
  shows "define_vars cx ps owned = Some ((), owned \<union> set (filter (is_heap_var (oc_typed cx)) ps))"
  using assms
proof (induction ps arbitrary: owned)
  case Nil
  then show ?case by (simp add: doneO_def)
next
  case (Cons p ps)
  have known: "oc_vars cx p \<noteq> None" using Cons.prems by (simp add: same_vars_def known_var_def)
  show ?case
  proof (cases "is_heap_var (oc_typed cx) p")
    case True
    then have "define_var cx p None owned = Some ((), insert p owned)"
      using known Cons.prems by (auto simp: define_var_def same_vars_heap)
    moreover have "define_vars cx ps (insert p owned) =
        Some ((), insert p owned \<union> set (filter (is_heap_var (oc_typed cx)) ps))"
      using Cons.prems True by (intro Cons.IH) auto
    ultimately show ?thesis using True by (simp add: bindO_def)
  next
    case False
    then have "define_var cx p None owned = Some ((), owned)"
      using known Cons.prems by (auto simp: define_var_def same_vars_heap)
    moreover have "define_vars cx ps owned = Some ((), owned \<union> set (filter (is_heap_var (oc_typed cx)) ps))"
      using Cons.prems False by (intro Cons.IH) auto
    ultimately show ?thesis using False by (simp add: bindO_def)
  qed
qed

lemma drop_vars_owned:
  "distinct ps \<Longrightarrow> set ps \<subseteq> owned \<Longrightarrow> drop_vars ps owned = Some ((), owned - set ps)"
proof (induction ps arbitrary: owned)
  case Nil
  then show ?case by (simp add: doneO_def)
next
  case (Cons p ps)
  then have "drop_vars ps (owned - {p}) = Some ((), owned - {p} - set ps)" by (intro Cons.IH) auto
  with Cons.prems show ?case by (auto simp: bindO_def drop_var_def insert_Diff_if)
qed

lemma agrees_loop:
  assumes body: "agrees cx B m v True" "writes (oc_typed cx) (subtree (2 # a)) B"
    and block: "block_ok (oc_typed cx) a meth" "tp_methods (oc_typed cx) a = Some meth" "loops meth"
    and vars: "same_vars cx"
  shows "agrees cx (live_inlined (oc_typed cx) a B) (own_loop cx a (if meth = MEachWithIndex then 2 else 1) m) False ends"
proof (rule agreesI)
  fix l l0 w
  let ?tp = "oc_typed cx"
  assume l: "l \<subseteq> heap_vars ?tp" and w: "w \<subseteq>\<^sub>m oc_plan cx" and run: "live_inlined ?tp a B l = Some (l0, w)"
  obtain ps where ps: "tp_blocks ?tp a = Some ps" "length ps = (if meth = MEachWithIndex then 2 else 1)"
    "list_all (known_var ?tp) ps" "distinct (filter (is_heap_var ?tp) ps)"
    using block(1) by (auto simp: block_ok_def split: option.splits)
  have "writes ?tp (subtree a) (live_inlined ?tp a B)" by (intro writes_inlined writes_child [OF body(2)]) simp
  then have l0: "l0 \<subseteq> heap_vars ?tp" using writesD(2) run l by blast
  let ?dead = "\<lambda>bl. filter (\<lambda>p. is_heap_var ?tp p \<and> p \<notin> bl) ps"
  let ?step = "\<lambda>h. bindP (B h) (\<lambda>bl. bindP (Some ((), [Key_Dead_Params a \<mapsto> Dead_Params (?dead bl)])) (\<lambda>_.
    live_edges a Edge_Body Edge_Exit (bl - set ps) l))"
  have "fixed_point ?step l = Some (l0, w)"
    using run block(2,3) by (auto simp: live_inlined_def ps(1) loops_def)
  then obtain w1 w2 where "?step l0 = Some (l0, w2)" and w12: "w = w1 ++ w2" using fixed_point_last by blast
  then obtain bl u1 u2 where *: "B l0 = Some (bl, u1)"
    "live_edges a Edge_Body Edge_Exit (bl - set ps) l = Some (l0, u2)"
    "w2 = u1 ++ ([Key_Dead_Params a \<mapsto> Dead_Params (?dead bl)] ++ u2)" by (elim bindP_SomeE) auto
  have w2: "w2 \<subseteq>\<^sub>m oc_plan cx" using w w12 map_le_addD by blast
  have "Key_Dead_Params a \<notin> dom u2" using *(2) by (auto simp: live_edges_def Let_def)
  then have "w2 (Key_Dead_Params a) = Some (Dead_Params (?dead bl))" by (auto simp: *(3) map_add_def split: option.split)
  then have dead: "plan_dead_params (oc_plan cx) a = ?dead bl"
    using w2 by (force simp: plan_dead_params_def map_le_def)
  have u2: "u2 \<subseteq>\<^sub>m oc_plan cx" using w2 map_le_addD unfolding *(3) by blast
  have "dom u1 \<inter> dom ([Key_Dead_Params a \<mapsto> Dead_Params (?dead bl)] ++ u2) = {}"
    using writesD(1) [OF body(2) *(1)] edges_domain [OF *(2)]
    by (intro keys_disjoint [of _ "subtree (2 # a)" _ "{a}"]) (auto simp: image_Un)
  then have u1: "u1 \<subseteq>\<^sub>m oc_plan cx" using w2 map_le_addD1 unfolding *(3) by blast
  note drops = edges_drops [OF *(2) u2]
  let ?heap = "set (filter (is_heap_var ?tp) ps)"
  have bl: "bl \<subseteq> heap_vars ?tp" using writesD(2) [OF body(2) *(1) l0] .
  have "define_vars cx ps (bl - set ps) = Some ((), (bl - set ps) \<union> ?heap)"
    by (rule define_vars_owned [OF vars ps(3,4)]) auto
  moreover have "drop_vars (?dead bl) ((bl - set ps) \<union> ?heap) = Some ((), ((bl - set ps) \<union> ?heap) - set (?dead bl))"
    using ps(4) by (intro drop_vars_owned) (auto simp: distinct_filter simp flip: filter_filter)
  moreover have "((bl - set ps) \<union> ?heap) - set (?dead bl) = bl"
    using bl by (auto simp: heap_vars_def)
  moreover have "m bl = Some (v, l0)" using agrees_ends [OF body(1) l0 *(1) u1] .
  ultimately show "\<exists>owned. own_loop cx a (if meth = MEachWithIndex then 2 else 1) m l0 = Some (False, owned) \<and>
      (ends \<longrightarrow> owned = l)"
    using drops ps(1,2) by (auto simp: own_loop_def bindO_def doneO_def dead)
qed

subsection \<open>Expressions\<close>

lemma own_kinds:
  "ex_kind e = EInt n \<Longrightarrow> own_expr cx e a = doneO True"
  "ex_kind e = EFloat f \<Longrightarrow> own_expr cx e a = doneO True"
  "ex_kind e = EBool b \<Longrightarrow> own_expr cx e a = doneO True"
  "ex_kind e = EStr segs \<Longrightarrow>
     own_expr cx e a = bindO (operands (own_expr cx) (numbered a (seg_exprs segs))) (\<lambda>_. doneO True)"
  "ex_kind e = EArray items \<Longrightarrow>
     own_expr cx e a = bindO (operands (own_expr cx) (numbered a items)) (\<lambda>_. doneO True)"
  "ex_kind e = EVar name \<Longrightarrow> tp_methods (oc_typed cx) a = None \<Longrightarrow> own_expr cx e a = read_var cx a name"
  "ex_kind e = EAssign t v \<Longrightarrow> ex_kind t = EVar name \<Longrightarrow>
     own_expr cx e a = bindO (operand (own_expr cx v (1 # a))) (\<lambda>_.
       bindO (define_var cx name (Some a)) (\<lambda>_. assigned_value cx (ty_at (oc_typed cx) (1 # a))))"
  "ex_kind e = EAssign t v \<Longrightarrow> ex_kind t = EIndex recv [i] \<Longrightarrow>
     own_expr cx e a = bindO (operand (own_expr cx v (1 # a))) (\<lambda>_.
       bindO (operand (own_expr cx recv (0 # 0 # a))) (\<lambda>_.
       bindO (operands (own_expr cx) (numbered (1 # 0 # a) [i])) (\<lambda>_. doneO False)))"
  "ex_kind e = EOpAssign op t v \<Longrightarrow> ex_kind t = EVar name \<Longrightarrow>
     own_expr cx e a = bindO (operand (read_var cx (0 # a) name)) (\<lambda>_.
       bindO (operand (own_expr cx v (1 # a))) (\<lambda>_.
       bindO (define_var cx name (Some a)) (\<lambda>_. doneO (\<not> is_heap_local cx name))))"
  "ex_kind e = EOpAssign op t v \<Longrightarrow> ex_kind t = EIndex recv [i] \<Longrightarrow>
     own_expr cx e a = bindO (operand (own_expr cx recv (0 # 0 # a))) (\<lambda>_.
       bindO (operands (own_expr cx) (numbered (1 # 0 # a) [i])) (\<lambda>_.
       bindO (operand (own_expr cx v (1 # a))) (\<lambda>_. doneO False)))"
  "ex_kind e = EBinary op x y \<Longrightarrow> op \<in> {OpAnd, OpOr} \<Longrightarrow>
     own_expr cx e a = own_short_circuit cx a (own_expr cx x (0 # a)) (own_expr cx y (1 # a))"
  "ex_kind e = EBinary op x y \<Longrightarrow> op \<notin> {OpAnd, OpOr} \<Longrightarrow>
     own_expr cx e a = bindO (operand (own_expr cx x (0 # a))) (\<lambda>_.
       bindO (operand (own_expr cx y (1 # a))) (\<lambda>_.
       doneO (\<not> (op = OpShl \<and> (case ty_at (oc_typed cx) (0 # a) of Some t \<Rightarrow> is_array t | None \<Rightarrow> False)))))"
  "ex_kind e = EUnary uop x \<Longrightarrow> own_expr cx e a = bindO (operand (own_expr cx x (0 # a))) (\<lambda>_. doneO True)"
  "ex_kind e = EIf cond thn els \<Longrightarrow>
     own_expr cx e a = own_if cx a (own_expr cx cond (0 # a))
       (own_branch cx a Edge_Then (numbered (1 # a) thn) (statements (own_expr cx) (numbered (1 # a) thn)))
       (own_branch cx a Edge_Else (case els of None \<Rightarrow> [] | Some es \<Rightarrow> numbered (2 # a) es)
         (case els of None \<Rightarrow> doneO False | Some es \<Rightarrow> statements (own_expr cx) (numbered (2 # a) es)))"
  "ex_kind e = EWhile cond body \<Longrightarrow>
     own_expr cx e a = own_while cx a (own_expr cx cond (0 # a)) (numbered (1 # a) body)
       (statements (own_expr cx) (numbered (1 # a) body))"
  "ex_kind e = EReturn (Some x) \<Longrightarrow> own_expr cx e a = own_return (own_expr cx x (0 # a))"
  "ex_kind e = EIndex recv [i] \<Longrightarrow>
     own_expr cx e a = bindO (operand (own_expr cx recv (0 # a))) (\<lambda>_.
       bindO (operands (own_expr cx) (numbered (1 # a) [i])) (\<lambda>_. doneO True))"
  "ex_kind e = ECall rc nm args blk safe parens \<Longrightarrow> arg_values (1 # a) args = Some xs \<Longrightarrow>
     own_expr cx e a = own_call cx a (map_option (\<lambda>x. own_expr cx x (0 # a)) rc) xs (own_expr cx)
       (map_option (\<lambda>b. statements (own_expr cx) (numbered (2 # a) (bd_stmts (bk_body b)))) blk)"
  by (simp_all add: own_expr.simps [of cx e a] numbered_def split: option.split)

definition follows :: "own_cx \<Rightarrow> expr \<Rightarrow> addr \<Rightarrow> bool" where
  "follows cx e a \<longleftrightarrow> agrees cx (live_expr (oc_typed cx) e a) (own_expr cx e a) (has_value (oc_typed cx) a)
     (not_never (oc_typed cx) a)"

lemma has_value_ends: "has_value tp a \<Longrightarrow> not_never tp a"
  by (auto simp: has_value_def ty_at_def not_never_def split: option.splits flow.splits)

lemma follows_value:
  "follows cx e a \<Longrightarrow> has_value (oc_typed cx) a \<Longrightarrow> agrees cx (live_expr (oc_typed cx) e a) (own_expr cx e a) True True"
  by (simp add: follows_def has_value_ends)

lemma follows_operand:
  "follows cx e a \<Longrightarrow> has_value (oc_typed cx) a \<Longrightarrow> agrees cx (live_expr (oc_typed cx) e a) (operand (own_expr cx e a)) () True"
  by (intro agrees_operand follows_value)

lemma follows_operands:
  assumes "siblings c es" "values_ok (oc_typed cx) (accepted (oc_typed cx)) es"
    and "\<And>b x. (b, x) \<in> set es \<Longrightarrow> accepted (oc_typed cx) x b \<Longrightarrow> follows cx x b"
  shows "agrees cx (live_seq (live_expr (oc_typed cx)) es) (operands (own_expr cx) es) () True"
  using assms by (intro agrees_operands) (auto dest: values_okD intro: follows_value live_writes)

lemma follows_statements:
  assumes "siblings c es" "statements_ok (oc_typed cx) (accepted (oc_typed cx)) es"
    and "\<And>b x. (b, x) \<in> set es \<Longrightarrow> accepted (oc_typed cx) x b \<Longrightarrow> follows cx x b"
  shows "agrees cx (live_seq (live_expr (oc_typed cx)) es) (statements (own_expr cx) es)
    (es \<noteq> [] \<and> has_value (oc_typed cx) (fst (last es))) (\<not> never_ends (oc_typed cx) es)"
  using assms
  by (intro agrees_statements) (auto simp: statements_ok_def list_all_iff follows_def [symmetric] intro: live_writes)

lemma numbered_in: "(b, x) \<in> set (numbered c es) \<Longrightarrow> x \<in> set es"
  by (rule set_numbered)

lemma follows_return:
  assumes "agrees cx F m True True"
  shows "agrees cx (\<lambda>l. F {}) (own_return m) False False"
proof (rule agreesI)
  fix l l0 w
  assume "F {} = Some (l0, w)" "w \<subseteq>\<^sub>m oc_plan cx"
  with agrees_ends [OF assms, of "{}" l0 w] have "m l0 = Some (True, {})" by simp
  then show "\<exists>owned. own_return m l0 = Some (False, owned) \<and> (False \<longrightarrow> owned = l)"
    by (simp add: own_return_def bindO_def)
qed

lemma writes_seq_child:
  "siblings c es \<Longrightarrow> writes tp (subtree c) (live_seq (live_expr tp) es)"
proof (rule writes_seq)
  fix b x
  assume s: "siblings c es" and b: "(b, x) \<in> set es"
  then obtain i where "b = i # c" by (auto simp: siblings_def)
  then show "writes tp (subtree c) (live_expr tp x b)" using writes_child [OF live_writes] by simp
qed

lemmas writes_numbered_child = writes_seq_child [OF siblings_numbered]

lemma writes_define_at: "writes tp {a} (live_define tp a name)"
  by (auto simp: writes_def live_define_def split: if_splits)

lemma follows_assign:
  assumes "same_vars cx" "ex_kind e = EAssign t v" "accepted (oc_typed cx) e a"
    and IH: "\<And>x b. size x < size e \<Longrightarrow> accepted (oc_typed cx) x b \<Longrightarrow> follows cx x b"
  shows "follows cx e a"
proof -
  let ?tp = "oc_typed cx"
  note acc = assms(3) [unfolded accepted.simps [of ?tp e a] assms(2) expr_kind.case]
  have "size v < size e" using size_below [of v e] assms(2) by (simp add: below_def)
  with IH acc have v: "agrees cx (live_expr ?tp v (1 # a)) (operand (own_expr cx v (1 # a))) () True"
    by (intro follows_operand) auto
  consider (var) name where "ex_kind t = EVar name" | (index) recv args where "ex_kind t = EIndex recv args"
    using acc by (auto split: expr_kind.splits)
  then show ?thesis
  proof cases
    case var
    have "agrees cx (live_define ?tp a name)
        (bindO (define_var cx name (Some a)) (\<lambda>_. assigned_value cx (ty_at ?tp (1 # a)))) (has_value ?tp a) True"
      using agrees_then_done [OF agrees_define [OF assms(1)], of name a] acc var
      by (auto simp: assigned_value_def has_value_def split: option.splits)
    then have "agrees cx (\<lambda>l. bindP (live_define ?tp a name l) (live_expr ?tp v (1 # a)))
        (bindO (operand (own_expr cx v (1 # a))) (\<lambda>_.
         bindO (define_var cx name (Some a)) (\<lambda>_. assigned_value cx (ty_at ?tp (1 # a))))) (has_value ?tp a) True"
      by (rule agrees_bind [OF v _ live_writes writes_define_at]) simp_all
    then show ?thesis using assms(2) var by (simp add: follows_def live_kinds own_kinds agrees_weaken)
  next
    case index
    then obtain i where args: "args = [i]" using acc by (auto simp: length_Suc_conv)
    have size: "size recv < size e" "size i < size e"
      using size_target_index(1) [OF assms(2) index] size_target_index(3) [OF assms(2) index, of _ i "[]"]
      by (auto simp: args numbered_def)
    have "agrees cx (live_expr ?tp recv (0 # 0 # a)) (operand (own_expr cx recv (0 # 0 # a))) () True"
      using IH [OF size(1)] acc index by (intro follows_operand) auto
    moreover have "agrees cx (live_seq (live_expr ?tp) (numbered (1 # 0 # a) [i]))
        (operands (own_expr cx) (numbered (1 # 0 # a) [i])) () True"
      by (rule follows_operands [OF siblings_numbered]) (use IH [OF size(2)] acc index args in \<open>auto dest!: numbered_in\<close>)
    then have "agrees cx (live_seq (live_expr ?tp) (numbered (1 # 0 # a) [i]))
        (bindO (operands (own_expr cx) (numbered (1 # 0 # a) [i])) (\<lambda>_. doneO False)) False True"
      by (rule agrees_then_done)
    ultimately have "agrees cx
        (\<lambda>l. bindP (live_seq (live_expr ?tp) (numbered (1 # 0 # a) [i]) l) (live_expr ?tp recv (0 # 0 # a)))
        (bindO (operand (own_expr cx recv (0 # 0 # a))) (\<lambda>_.
          bindO (operands (own_expr cx) (numbered (1 # 0 # a) [i])) (\<lambda>_. doneO False))) False True"
      by (rule agrees_bind [OF _ _ live_writes writes_numbered_child]) (simp add: subtree_disjoint)
    moreover have "writes ?tp (subtree (0 # a))
        (\<lambda>l. bindP (live_seq (live_expr ?tp) (numbered (1 # 0 # a) [i]) l) (live_expr ?tp recv (0 # 0 # a)))"
      by (rule writes_bind [OF writes_child [OF writes_numbered_child] writes_child [OF live_writes]])
    ultimately have "agrees cx
        (\<lambda>l. bindP (bindP (live_seq (live_expr ?tp) (numbered (1 # 0 # a) [i]) l) (live_expr ?tp recv (0 # 0 # a)))
          (live_expr ?tp v (1 # a)))
        (bindO (operand (own_expr cx v (1 # a))) (\<lambda>_.
          bindO (operand (own_expr cx recv (0 # 0 # a))) (\<lambda>_.
          bindO (operands (own_expr cx) (numbered (1 # 0 # a) [i])) (\<lambda>_. doneO False)))) False True"
      by (intro agrees_bind [OF v _ live_writes, where B = "subtree (0 # a)"]) (simp_all add: subtree_disjoint)
    moreover have "\<not> has_value ?tp a" using acc index by simp
    ultimately show ?thesis
      using live_kinds(9) [OF assms(2) index, of ?tp a] own_kinds(8) [OF assms(2), of recv i] index
      by (simp add: follows_def args bindP_assoc agrees_weaken)
  qed
qed

lemma writes_read_at: "writes tp {a} (live_read tp a name)"
  by (auto simp: writes_def live_read_def heap_vars_def split: if_splits)

lemma follows_numbered:
  assumes "values_ok (oc_typed cx) (accepted (oc_typed cx)) (numbered c es)"
    and "\<And>x b. x \<in> set es \<Longrightarrow> accepted (oc_typed cx) x b \<Longrightarrow> follows cx x b"
  shows "agrees cx (live_seq (live_expr (oc_typed cx)) (numbered c es)) (operands (own_expr cx) (numbered c es)) () True"
  by (rule follows_operands [OF siblings_numbered assms(1)]) (use assms(2) in \<open>auto dest!: numbered_in\<close>)

lemma follows_body:
  assumes "statements_ok (oc_typed cx) (accepted (oc_typed cx)) (numbered c es)"
    and "\<And>x b. x \<in> set es \<Longrightarrow> accepted (oc_typed cx) x b \<Longrightarrow> follows cx x b"
  shows "agrees cx (live_seq (live_expr (oc_typed cx)) (numbered c es)) (statements (own_expr cx) (numbered c es))
    (numbered c es \<noteq> [] \<and> has_value (oc_typed cx) (fst (last (numbered c es))))
    (\<not> never_ends (oc_typed cx) (numbered c es))"
  by (rule follows_statements [OF siblings_numbered assms(1)]) (use assms(2) in \<open>auto dest!: numbered_in\<close>)

lemma follows_op_assign:
  assumes "same_vars cx" "ex_kind e = EOpAssign op t v" "accepted (oc_typed cx) e a"
    and IH: "\<And>x b. size x < size e \<Longrightarrow> accepted (oc_typed cx) x b \<Longrightarrow> follows cx x b"
  shows "follows cx e a"
proof -
  let ?tp = "oc_typed cx"
  note acc = assms(3) [unfolded accepted.simps [of ?tp e a] assms(2) expr_kind.case]
  have "size v < size e" using size_below [of v e] assms(2) by (simp add: below_def)
  with IH acc have v: "agrees cx (live_expr ?tp v (1 # a)) (operand (own_expr cx v (1 # a))) () True"
    by (intro follows_operand) auto
  consider (var) name where "ex_kind t = EVar name" | (index) recv args where "ex_kind t = EIndex recv args"
    using acc by (auto split: expr_kind.splits)
  then show ?thesis
  proof cases
    case var
    have "agrees cx (live_define ?tp a name)
        (bindO (define_var cx name (Some a)) (\<lambda>_. doneO (\<not> is_heap_local cx name))) (has_value ?tp a) True"
      using agrees_then_done [OF agrees_define [OF assms(1)], of name a] acc var
      by (simp add: same_vars_heap [OF assms(1)])
    then have "agrees cx (\<lambda>l. bindP (live_define ?tp a name l) (live_expr ?tp v (1 # a)))
        (bindO (operand (own_expr cx v (1 # a))) (\<lambda>_.
         bindO (define_var cx name (Some a)) (\<lambda>_. doneO (\<not> is_heap_local cx name)))) (has_value ?tp a) True"
      by (rule agrees_bind [OF v _ live_writes writes_define_at]) simp_all
    moreover have "writes ?tp ({a} \<union> subtree (1 # a))
        (\<lambda>l. bindP (live_define ?tp a name l) (live_expr ?tp v (1 # a)))"
      by (rule writes_bind [OF writes_mono [OF writes_define_at] writes_mono [OF live_writes]]) auto
    moreover have "agrees cx (live_read ?tp (0 # a) name) (operand (read_var cx (0 # a) name)) () True"
      using agrees_operand [OF agrees_read [OF assms(1)]] acc var by simp
    ultimately have "agrees cx (\<lambda>l. bindP (bindP (live_define ?tp a name l) (live_expr ?tp v (1 # a))) (live_read ?tp (0 # a) name))
        (bindO (operand (read_var cx (0 # a) name)) (\<lambda>_. bindO (operand (own_expr cx v (1 # a))) (\<lambda>_.
         bindO (define_var cx name (Some a)) (\<lambda>_. doneO (\<not> is_heap_local cx name))))) (has_value ?tp a) True"
      by (intro agrees_bind [OF _ _ writes_read_at, where B = "{a} \<union> subtree (1 # a)"]) (auto simp: subtree_def suffix_def)
    then show ?thesis using assms(2) var by (simp add: follows_def live_kinds own_kinds agrees_weaken bindP_assoc)
  next
    case index
    then obtain i where args: "args = [i]" using acc by (auto simp: length_Suc_conv)
    have size: "size recv < size e" "size i < size e"
      using size_target_index(2) [OF assms(2) index] size_target_index(4) [OF assms(2) index, of _ i "[]"]
      by (auto simp: args numbered_def)
    have recv: "agrees cx (live_expr ?tp recv (0 # 0 # a)) (operand (own_expr cx recv (0 # 0 # a))) () True"
      using IH [OF size(1)] acc index by (intro follows_operand) auto
    have i: "agrees cx (live_seq (live_expr ?tp) (numbered (1 # 0 # a) [i]))
        (operands (own_expr cx) (numbered (1 # 0 # a) [i])) () True"
      using IH [OF size(2)] acc index args by (intro follows_numbered) auto
    have "agrees cx (\<lambda>l. bindP (live_expr ?tp v (1 # a) l) (live_seq (live_expr ?tp) (numbered (1 # 0 # a) [i])))
        (bindO (operands (own_expr cx) (numbered (1 # 0 # a) [i])) (\<lambda>_.
          bindO (operand (own_expr cx v (1 # a))) (\<lambda>_. doneO False))) False True"
      by (rule agrees_bind [OF i agrees_then_done [OF v] writes_child [OF writes_numbered_child] live_writes])
        (simp add: subtree_disjoint)
    moreover have "writes ?tp (subtree (1 # 0 # a) \<union> subtree (1 # a))
        (\<lambda>l. bindP (live_expr ?tp v (1 # a) l) (live_seq (live_expr ?tp) (numbered (1 # 0 # a) [i])))"
      by (rule writes_bind [OF writes_mono [OF live_writes] writes_mono [OF writes_numbered_child]]) auto
    ultimately have "agrees cx
        (\<lambda>l. bindP (bindP (live_expr ?tp v (1 # a) l) (live_seq (live_expr ?tp) (numbered (1 # 0 # a) [i])))
          (live_expr ?tp recv (0 # 0 # a)))
        (bindO (operand (own_expr cx recv (0 # 0 # a))) (\<lambda>_.
          bindO (operands (own_expr cx) (numbered (1 # 0 # a) [i])) (\<lambda>_.
          bindO (operand (own_expr cx v (1 # a))) (\<lambda>_. doneO False)))) False True"
      by (intro agrees_bind [OF recv _ live_writes, where B = "subtree (1 # 0 # a) \<union> subtree (1 # a)"])
        (auto simp: subtree_def suffix_def)
    moreover have "\<not> has_value ?tp a" using acc index by simp
    ultimately show ?thesis
      using live_kinds(11) [OF assms(2) index, of ?tp a] own_kinds(10) [OF assms(2), of recv i] index
      by (simp add: follows_def args bindP_assoc agrees_weaken)
  qed
qed

lemma bindP_id [simp]: "bindP m (\<lambda>l. Some (l, Map.empty)) = m"
  by (auto simp: bindP_def split: option.split)

lemma take_all_one: "length xs \<le> 1 \<Longrightarrow> take 1 xs = xs"
  by simp

lemma follows_call:
  assumes "same_vars cx" "ex_kind e = ECall rc nm args blk safe parens" "accepted (oc_typed cx) e a"
    and IH: "\<And>x b. size x < size e \<Longrightarrow> accepted (oc_typed cx) x b \<Longrightarrow> follows cx x b"
  shows "follows cx e a"
proof -
  let ?tp = "oc_typed cx" and ?own = "own_expr cx"
  obtain xs where xs: "arg_values (1 # a) args = Some xs"
    using assms(3) assms(2) by (auto simp: accepted.simps [of ?tp e a] split: option.splits)
  note acc = assms(3) [unfolded accepted.simps [of ?tp e a] assms(2) expr_kind.case xs option.case]
  have ends: "not_never ?tp a" and vals: "values_ok ?tp (accepted ?tp) xs" using acc by auto
  have sib: "siblings (1 # a) xs" using xs by (rule siblings_arg_values)
  have ops: "agrees cx (live_seq (live_expr ?tp) xs) (operands ?own xs) () True"
    by (rule follows_operands [OF sib vals]) (use IH size_arg_values [OF xs _ assms(2)] in blast)
  have ops_writes: "writes ?tp (subtree (1 # a)) (live_seq (live_expr ?tp) xs)" by (rule writes_seq_child [OF sib])
  note live = live_kinds(19) [OF assms(2), of ?tp a, unfolded xs option.case]
  note own = own_kinds(18) [OF assms(2) xs, of cx]
  show ?thesis
  proof (cases "tp_constructs ?tp a = None")
    case False
    then have "blk = None" "has_value ?tp a" "live_expr ?tp e a = live_seq (live_expr ?tp) xs"
      using acc live by (auto simp: live_const split: option.splits)
    with False own agrees_then_done [OF ops, of True] show ?thesis
      by (simp add: follows_def own_call_def agrees_weaken)
  next
    case constructs: True
    show ?thesis
    proof (cases rc)
      case None
      then have "tp_methods ?tp a = None" "blk = None" using acc constructs by auto
      with None constructs live own agrees_then_done [OF ops, of "has_value ?tp a"] show ?thesis
        by (simp add: follows_def own_call_def agrees_weaken)
    next
      case (Some r)
      then obtain m where m: "tp_methods ?tp a = Some m" using acc constructs by (auto split: option.splits)
      show ?thesis
      proof (cases "m = MSqrt")
        case True
        with acc constructs Some m obtain x where *: "blk = None" "is_const r" "has_value ?tp a" "xs = [x]"
          by (auto simp: length_Suc_conv)
        then have "live_expr ?tp e a = live_seq (live_expr ?tp) xs" using live Some by (simp add: live_const)
        with * True m constructs Some own agrees_then_done [OF ops, of True] show ?thesis
          by (simp add: follows_def own_call_def agrees_weaken)
      next
        case False
        then have r: "accepted ?tp r (0 # a)" "has_value ?tp (0 # a)"
          and ok: "method_ok ?tp a m (length xs) (\<not> Option.is_none blk)"
          using acc constructs Some m by auto
        have "size r < size e" using size_below [of r e] assms(2) Some by (simp add: below_def option_list_def)
        then have recv: "agrees cx (live_expr ?tp r (0 # a)) (operand (?own r (0 # a))) () True"
          using IH r by (intro follows_operand) auto
        show ?thesis
        proof (cases blk)
          case None
          have "agrees cx (\<lambda>l. bindP (live_seq (live_expr ?tp) xs l) (live_expr ?tp r (0 # a)))
              (bindO (operand (?own r (0 # a))) (\<lambda>_. bindO (operands ?own xs) (\<lambda>_. doneO (has_value ?tp a))))
              (has_value ?tp a) True"
            by (rule agrees_bind [OF recv agrees_then_done [OF ops] live_writes ops_writes]) (simp add: subtree_disjoint)
          moreover have "live_expr ?tp e a = (\<lambda>l. bindP (live_seq (live_expr ?tp) xs l) (live_expr ?tp r (0 # a)))"
            using live None Some by simp
          moreover have "own_expr cx e a =
              bindO (operand (?own r (0 # a))) (\<lambda>_. bindO (operands ?own xs) (\<lambda>_. doneO (has_value ?tp a)))"
          proof (cases "m = MPush")
            case True
            with ok None obtain x where "xs = [x]" "\<not> has_value ?tp a" by (auto simp: method_ok_def length_Suc_conv)
            with True m constructs Some own show ?thesis by (simp add: own_call_def)
          next
            case False
            with ok None have "take 1 xs = xs" "has_value ?tp a" "\<not> loops m" by (auto simp: method_ok_def)
            with False \<open>m \<noteq> MSqrt\<close> m constructs Some own show ?thesis by (simp add: own_call_def loops_def)
          qed
          ultimately show ?thesis by (simp add: follows_def agrees_weaken)
        next
          case (Some b)
          let ?body = "numbered (2 # a) (bd_stmts (bk_body b))"
          have sts: "statements_ok ?tp (accepted ?tp) ?body" "\<not> never_ends ?tp ?body"
            using acc constructs \<open>rc = Some r\<close> m False Some by auto
          have lp: "loops m" "\<not> has_value ?tp a" "length xs = (if m = MUpto then 1 else 0)" "block_ok ?tp a m"
            using ok Some by (auto simp: method_ok_def)
          have "size x < size e" if "x \<in> set (bd_stmts (bk_body b))" for x
            using that size_below [of x e] assms(2) Some by (simp add: below_def)
          then have "agrees cx (live_seq (live_expr ?tp) ?body) (statements ?own ?body)
              (?body \<noteq> [] \<and> has_value ?tp (fst (last ?body))) (\<not> never_ends ?tp ?body)"
            using IH by (intro follows_body [OF sts(1)]) blast
          then have loop: "agrees cx (live_inlined ?tp a (live_seq (live_expr ?tp) ?body))
              (own_loop cx a (if m = MEachWithIndex then 2 else 1) (statements ?own ?body)) False True"
            using agrees_loop [OF _ writes_numbered_child lp(4) m lp(1) assms(1)] sts(2) by simp
          have loop_writes: "writes ?tp ({a} \<union> subtree (2 # a)) (live_inlined ?tp a (live_seq (live_expr ?tp) ?body))"
            by (rule writes_inlined [OF writes_mono [OF writes_numbered_child]]) auto
          have 1: "agrees cx (\<lambda>l. bindP (live_inlined ?tp a (live_seq (live_expr ?tp) ?body) l) (live_seq (live_expr ?tp) xs))
              (bindO (operands ?own xs) (\<lambda>_. own_loop cx a (if m = MEachWithIndex then 2 else 1) (statements ?own ?body)))
              False True"
            by (rule agrees_bind [OF ops loop ops_writes loop_writes]) (simp add: subtree_disjoint)
          have 2: "writes ?tp ({a} \<union> subtree (2 # a) \<union> subtree (1 # a))
              (\<lambda>l. bindP (live_inlined ?tp a (live_seq (live_expr ?tp) ?body) l) (live_seq (live_expr ?tp) xs))"
            by (rule writes_bind [OF writes_mono [OF loop_writes] writes_mono [OF ops_writes]]) auto
          have "agrees cx (\<lambda>l. bindP (bindP (live_inlined ?tp a (live_seq (live_expr ?tp) ?body) l)
                (live_seq (live_expr ?tp) xs)) (live_expr ?tp r (0 # a)))
              (bindO (operand (?own r (0 # a))) (\<lambda>_. bindO (operands ?own xs) (\<lambda>_.
                own_loop cx a (if m = MEachWithIndex then 2 else 1) (statements ?own ?body)))) False True"
            by (rule agrees_bind [OF recv 1 live_writes 2]) (auto simp: subtree_def suffix_def)
          moreover have "own_expr cx e a = bindO (operand (?own r (0 # a))) (\<lambda>_. bindO (operands ?own xs) (\<lambda>_.
                own_loop cx a (if m = MEachWithIndex then 2 else 1) (statements ?own ?body)))"
            using own m constructs \<open>rc = Some r\<close> Some lp(1,3) \<open>m \<noteq> MSqrt\<close>
            by (auto simp: own_call_def loops_def bindO_def doneO_def fun_eq_iff)
          ultimately show ?thesis
            using live \<open>rc = Some r\<close> Some lp(2) by (simp add: follows_def agrees_weaken bindP_assoc)
        qed
      qed
    qed
  qed
qed

lemma follows_all: "same_vars cx \<Longrightarrow> accepted (oc_typed cx) e a \<Longrightarrow> follows cx e a"
proof (induction e arbitrary: a rule: measure_induct_rule [of size])
  case (less e)
  let ?tp = "oc_typed cx"
  have IH: "size x < size e \<Longrightarrow> accepted ?tp x b \<Longrightarrow> follows cx x b" for x b
    using less.IH less.prems(1) by blast
  have below: "x \<in> set (below (ex_kind e)) \<Longrightarrow> accepted ?tp x b \<Longrightarrow> follows cx x b" for x b
    using IH size_below by blast
  note acc = less.prems(2) [unfolded accepted.simps [of ?tp e a]]
  show ?case
  proof (cases "ex_kind e")
    case (EStr segs)
    with acc have v: "has_value ?tp a" by simp
    have "agrees cx (live_seq (live_expr ?tp) (numbered a (seg_exprs segs)))
        (operands (own_expr cx) (numbered a (seg_exprs segs))) () True"
      using acc below EStr by (intro follows_numbered) (auto simp: below_def)
    from agrees_then_done [OF this, of True] show ?thesis
      using EStr v by (simp add: follows_def live_kinds own_kinds agrees_weaken)
  next
    case (EArray items)
    with acc have v: "has_value ?tp a" by simp
    have "agrees cx (live_seq (live_expr ?tp) (numbered a items)) (operands (own_expr cx) (numbered a items)) () True"
      using acc below EArray by (intro follows_numbered) (auto simp: below_def)
    from agrees_then_done [OF this, of True] show ?thesis
      using EArray v by (simp add: follows_def live_kinds own_kinds agrees_weaken)
  next
    case (EVar name)
    with acc less.prems(1) agrees_read [of cx name a] show ?thesis
      by (simp add: follows_def live_kinds own_kinds agrees_weaken)
  next
    case (EAssign t v)
    show ?thesis by (rule follows_assign [OF less.prems(1) EAssign less.prems(2) IH])
  next
    case (EOpAssign op t v)
    show ?thesis by (rule follows_op_assign [OF less.prems(1) EOpAssign less.prems(2) IH])
  next
    case (EBinary op x y)
    with acc have v: "has_value ?tp (0 # a)" "has_value ?tp (1 # a)" and ends: "not_never ?tp a"
      and val: "has_value ?tp a \<longleftrightarrow> \<not> (op = OpShl \<and> is_array (the (ty_at ?tp (0 # a))))" by auto
    have x: "follows cx x (0 # a)" "follows cx y (1 # a)" using acc below EBinary by (simp_all add: below_def)
    show ?thesis
    proof (cases "op \<in> {OpAnd, OpOr}")
      case True
      with val have "has_value ?tp a" by auto
      with True EBinary x v agrees_short_circuit [OF follows_value live_writes follows_value live_writes] show ?thesis
        by (simp add: follows_def live_kinds own_kinds)
    next
      case False
      have "(case ty_at ?tp (0 # a) of Some t \<Rightarrow> is_array t | None \<Rightarrow> False) = is_array (the (ty_at ?tp (0 # a)))"
        using v(1) by (auto simp: has_value_def)
      moreover have "agrees cx (\<lambda>l. bindP (live_expr ?tp y (1 # a) l) (live_expr ?tp x (0 # a)))
          (bindO (operand (own_expr cx x (0 # a))) (\<lambda>_. bindO (operand (own_expr cx y (1 # a))) (\<lambda>_.
            doneO (has_value ?tp a)))) (has_value ?tp a) True"
        by (rule agrees_bind [OF follows_operand [OF x(1) v(1)] agrees_then_done [OF follows_operand [OF x(2) v(2)]]
          live_writes live_writes]) (simp add: subtree_disjoint)
      ultimately show ?thesis
        using False EBinary val by (simp add: follows_def live_kinds own_kinds agrees_weaken)
    qed
  next
    case (EUnary op x)
    with acc have v: "has_value ?tp a" "accepted ?tp x (0 # a)" "has_value ?tp (0 # a)" by simp_all
    have "follows cx x (0 # a)" by (rule below [OF _ v(2)]) (simp add: EUnary below_def)
    from agrees_then_done [OF follows_operand [OF this v(3)], of True] show ?thesis
      using EUnary v(1) by (simp add: follows_def live_kinds own_kinds agrees_weaken)
  next
    case (EIf cond thn els)
    let ?t = "numbered (1 # a) thn"
    from acc EIf have cond: "accepted ?tp cond (0 # a)" "has_value ?tp (0 # a)"
      and thn: "statements_ok ?tp (accepted ?tp) ?t" by simp_all
    have in_if: "cond \<in> set (below (ex_kind e))" "set thn \<subseteq> set (below (ex_kind e))"
      "els = Some es \<Longrightarrow> set es \<subseteq> set (below (ex_kind e))" for es
      by (auto simp: EIf below_def)
    have c: "agrees cx (live_expr ?tp cond (0 # a)) (operand (own_expr cx cond (0 # a))) () True"
      by (rule follows_operand [OF below [OF in_if(1) cond(1)] cond(2)])
    have t: "agrees cx (live_seq (live_expr ?tp) ?t) (statements (own_expr cx) ?t)
        (?t \<noteq> [] \<and> has_value ?tp (fst (last ?t))) (\<not> never_ends ?tp ?t)"
      by (rule follows_body [OF thn]) (use below in_if(2) in blast)
    show ?thesis
    proof (cases els)
      case None
      have "agrees cx (\<lambda>l. Some (l, Map.empty)) (doneO False) False (\<not> never_ends ?tp [])" by (rule agrees_done)
      from agrees_if [OF c live_writes t writes_numbered_child this writes_id(1), of "not_never ?tp a"]
      show ?thesis using EIf None by (simp add: follows_def live_kinds own_kinds never_ends_def)
    next
      case (Some es)
      let ?e = "numbered (2 # a) es"
      have el: "agrees cx (live_seq (live_expr ?tp) ?e) (statements (own_expr cx) ?e)
          (?e \<noteq> [] \<and> has_value ?tp (fst (last ?e))) (\<not> never_ends ?tp ?e)"
        by (rule follows_body) (use acc EIf Some below in_if(3) in auto)
      have "not_never ?tp a \<Longrightarrow> \<not> (never_ends ?tp ?t \<and> never_ends ?tp ?e)"
        using acc EIf Some by (auto simp: not_never_def)
      from agrees_if [OF c live_writes t writes_numbered_child el writes_numbered_child this]
      show ?thesis using EIf Some by (simp add: follows_def live_kinds own_kinds)
    qed
  next
    case (EWhile cond body)
    let ?b = "numbered (1 # a) body"
    have c: "agrees cx (live_expr ?tp cond (0 # a)) (own_expr cx cond (0 # a)) True True"
      using acc below EWhile by (intro follows_value) (simp_all add: below_def)
    have b: "agrees cx (live_seq (live_expr ?tp) ?b) (statements (own_expr cx) ?b)
        (?b \<noteq> [] \<and> has_value ?tp (fst (last ?b))) (\<not> never_ends ?tp ?b)"
      using acc below EWhile by (intro follows_body) (simp_all add: below_def)
    from agrees_while [OF c live_writes b writes_numbered_child] show ?thesis
      using acc EWhile by (simp add: follows_def live_kinds own_kinds)
  next
    case (EReturn v)
    then obtain x where x: "v = Some x" "accepted ?tp x (0 # a)" "has_value ?tp (0 # a)" "flow_at ?tp a = Some FNever"
      using acc by (auto split: option.splits)
    then have "follows cx x (0 # a)" using below EReturn by (simp add: below_def option_list_def)
    from follows_return [OF follows_value [OF this x(3)]] show ?thesis
      using EReturn x by (simp add: follows_def live_kinds own_kinds has_value_def ty_at_def not_never_def)
  next
    case (EIndex recv args)
    then obtain i where args: "args = [i]" and v: "has_value ?tp a" "has_value ?tp (0 # a)"
      using acc by (auto simp: length_Suc_conv)
    have recv: "agrees cx (live_expr ?tp recv (0 # a)) (operand (own_expr cx recv (0 # a))) () True"
      using acc below EIndex by (intro follows_operand) (simp_all add: below_def)
    have "agrees cx (live_seq (live_expr ?tp) (numbered (1 # a) args)) (operands (own_expr cx) (numbered (1 # a) args)) () True"
      using acc below EIndex by (intro follows_numbered) (auto simp: below_def)
    from agrees_bind [OF recv agrees_then_done [OF this, of True] live_writes writes_numbered_child]
    show ?thesis using EIndex v args by (simp add: follows_def live_kinds own_kinds agrees_weaken subtree_disjoint)
  next
    case (ECall rc nm args blk safe parens)
    show ?thesis by (rule follows_call [OF less.prems(1) ECall less.prems(2) IH])
  qed (use acc in \<open>simp_all add: follows_def live_kinds own_kinds agrees_done\<close>)
qed

text \<open>
  A whole function: what is owned on entry, the plan and the walk of its body put together.
\<close>

lemma own_entry:
  assumes names: "distinct (param_names d)" "length (param_names d) = length (sg_params sg)"
    and vars: "own_vars d sg tp = tp_vars tp" "fst ` set (tp_locals tp) \<inter> set (param_names d) = {}"
  shows "owned_params d sg = {p \<in> set (param_names d). is_heap_var tp p}"
proof -
  let ?ps = "zip (param_names d) (sg_params sg)"
  have ps: "distinct (map fst ?ps)" "map fst ?ps = param_names d" using names by simp_all
  have "tp_vars tp n = Some t" if "(n, t) \<in> set ?ps" for n t
  proof -
    have n: "n \<in> set (param_names d)" using that by (auto dest: set_zip_leftD)
    have "map_of (rev ?ps) n = Some t" using ps(1) that by (simp add: map_of_eq_Some_iff rev_map [symmetric])
    moreover have "map_of (rev (tp_locals tp)) n = None"
      using n vars(2) by (auto simp: map_of_eq_None_iff)
    ultimately show ?thesis
      using vars(1) [symmetric] by (simp add: own_vars_def map_add_def)
  qed
  then have *: "is_heap_var tp n = is_heap t" if "(n, t) \<in> set ?ps" for n t
    using that by (simp add: is_heap_var_def)
  show ?thesis
  proof (intro set_eqI iffI)
    fix p assume "p \<in> owned_params d sg"
    then obtain t where "(p, t) \<in> set ?ps" "is_heap t" by (auto simp: owned_params_def)
    with * show "p \<in> {p \<in> set (param_names d). is_heap_var tp p}" by (auto dest: set_zip_leftD)
  next
    fix p assume p: "p \<in> {p \<in> set (param_names d). is_heap_var tp p}"
    then have "p \<in> fst ` set ?ps" using ps(2) by (metis (no_types, lifting) list.set_map mem_Collect_eq)
    then obtain t where t: "(p, t) \<in> set ?ps" by auto
    with p * have "is_heap t" by simp
    with t show "p \<in> owned_params d sg" by (force simp: owned_params_def)
  qed
qed

text \<open>
  A function whose body is accepted, whose variables are those of its typing and of which only parameters
  are live on entry: the plan is found, every check of the walk holds, and nothing is owned where its
  body ends.
\<close>

lemma function_translates:
  assumes names: "distinct (param_names d)" "length (param_names d) = length (sg_params sg)"
    and vars: "own_vars d sg tp = tp_vars tp" "fst ` set (tp_locals tp) \<inter> set (param_names d) = {}"
    and body: "statements_ok tp (accepted tp) (numbered [] (bd_stmts (fn_body d)))"
    and live: "live_body tp d = Some (l0, w)" "l0 \<subseteq> set (param_names d)"
  shows "\<exists>held owned. translate_ownership d sg tp = Some (held, owned) \<and>
    (\<not> never_ends tp (numbered [] (bd_stmts (fn_body d))) \<longrightarrow> owned = {})"
proof -
  let ?es = "numbered [] (bd_stmts (fn_body d))"
  let ?cx = "\<lparr>oc_typed = tp, oc_plan = w, oc_vars = own_vars d sg tp\<rparr>"
  let ?entry = "filter (\<lambda>p. is_heap_var tp p \<and> p \<notin> l0) (param_names d)"
  have same: "same_vars ?cx" using vars(1) by (simp add: same_vars_def)
  have F: "live_seq (live_expr tp) ?es {} = Some (l0, w)" using live(1) by (simp add: live_body_def)
  have "l0 \<subseteq> heap_vars tp"
    using writesD(2) [OF writes_numbered_child F] by simp
  then have l0: "l0 \<subseteq> owned_params d sg" "owned_params d sg - set ?entry = l0" "set ?entry \<subseteq> owned_params d sg"
    using live(2) own_entry [OF names vars] by (auto simp: heap_vars_def)
  have "agrees ?cx (live_seq (live_expr tp) ?es) (statements (own_expr ?cx) ?es)
      (?es \<noteq> [] \<and> has_value tp (fst (last ?es))) (\<not> never_ends tp ?es)"
    using follows_body [of ?cx "[]" "bd_stmts (fn_body d)"] body follows_all [OF same] by simp
  from agreesD [OF this _ F] obtain owned where
    run: "statements (own_expr ?cx) ?es l0 = Some (?es \<noteq> [] \<and> has_value tp (fst (last ?es)), owned)"
    and ends: "\<not> never_ends tp ?es \<Longrightarrow> owned = {}" by auto
  have "\<not> ((?es \<noteq> [] \<and> has_value tp (fst (last ?es))) \<and> owned \<noteq> {})"
    using ends has_value_ends [of tp "fst (last ?es)"] by (auto simp: never_ends_def not_never_def)
  moreover have "drop_vars ?entry (owned_params d sg) = Some ((), l0)"
    using drop_vars_owned [of ?entry "owned_params d sg"] names(1) l0 by simp
  ultimately have "translate_ownership d sg tp = Some (?es \<noteq> [] \<and> has_value tp (fst (last ?es)), owned)"
    using run live(1) by (auto simp: translate_ownership_def plan_of_def own_function_def bindO_def Let_def)
  then show ?thesis using ends by blast
qed

end
