(* ===== verification/Infer_Props.thy ===== *)
theory Infer_Props
  imports Ownership_Props
begin

text \<open>
  What \<open>infer\<close> guarantees: a body that it accepts, for a function that the interpreter hosts, is
  \<open>accepted\<close> node by node with the tables it returns, and every variable that is live on entry is a
  parameter. With that, no check of the translator's ownership can fail.
\<close>

subsection \<open>Runs of the typing\<close>

lemma bindI_Inr [simp]:
  "bindI m f st = Inr r \<longleftrightarrow> (\<exists>x st1. m st = Inr (x, st1) \<and> f x st1 = Inr r)"
  by (auto simp: bindI_def split: sum.splits prod.splits)

lemma accept_Inr [simp]: "accept x st = Inr r \<longleftrightarrow> r = (x, st)"
  by (auto simp: accept_def)

lemma refuse_Inr [simp]: "refuse why st \<noteq> Inr r"
  by (simp add: refuse_def)

lemma map_typed_Inr [simp]: "map_typed f st = Inr r \<longleftrightarrow> r = ((), st\<lparr>is_typed := f (is_typed st)\<rparr>)"
  by (auto simp: map_typed_def)

lemma if_refuse [simp]: "(if b then m else refuse why) st = Inr r \<longleftrightarrow> b \<and> m st = Inr r"
  "(if b then refuse why else m) st = Inr r \<longleftrightarrow> \<not> b \<and> m st = Inr r"
  by (simp_all add: refuse_def)

lemma value_of_Inr [simp]: "value_of (e, a, run) ex st = Inr (t, st') \<longleftrightarrow> run ex st = Inr (FValue t, st')"
  unfolding value_of_def bindI_def case_prod_conv
  by (cases "run ex st") (auto simp: accept_def refuse_def split: flow.splits)

subsection \<open>What a run may change\<close>

text \<open>The variables: parameters keep their type, the list of locals is that of the other variables.\<close>

definition vars_inv :: "(rtext \<times> nty) list \<Rightarrow> typed \<Rightarrow> bool" where
  "vars_inv ps tp \<longleftrightarrow> (\<forall>n t. map_of ps n = Some t \<longrightarrow> \<not> is_unknown t) \<and>
     distinct (map fst (tp_locals tp)) \<and> fst ` set ps \<inter> fst ` set (tp_locals tp) = {} \<and>
     tp_vars tp = map_of ps ++ map_of (tp_locals tp)"

definition tables :: "typed \<Rightarrow> addr \<Rightarrow> flow option \<times> meth option \<times> construct option \<times> rtext list option" where
  "tables tp b = (flow_at tp b, tp_methods tp b, tp_constructs tp b, tp_blocks tp b)"

definition vars_grow :: "typed \<Rightarrow> typed \<Rightarrow> bool" where
  "vars_grow tp tp' \<longleftrightarrow>
     (\<forall>n t. tp_vars tp n = Some t \<longrightarrow>
        (\<exists>t'. tp_vars tp' n = Some t' \<and> is_heap t' = is_heap t \<and> is_array t' = is_array t)) \<and>
     (\<forall>ps. vars_inv ps tp \<longrightarrow> vars_inv ps tp')"

definition extends :: "addr set \<Rightarrow> typed \<Rightarrow> typed \<Rightarrow> bool" where
  "extends A tp tp' \<longleftrightarrow> (\<forall>b. b \<notin> A \<longrightarrow> tables tp' b = tables tp b) \<and> vars_grow tp tp'"

lemma vars_grow_refl: "vars_grow tp tp"
  by (simp add: vars_grow_def)

lemma extends_refl: "extends A tp tp"
  by (simp add: extends_def vars_grow_refl)

lemma vars_grow_trans: "vars_grow t1 t2 \<Longrightarrow> vars_grow t2 t3 \<Longrightarrow> vars_grow t1 t3"
  unfolding vars_grow_def by metis

lemma extends_trans: "extends A t1 t2 \<Longrightarrow> extends B t2 t3 \<Longrightarrow> extends (A \<union> B) t1 t3"
  using vars_grow_trans by (auto simp: extends_def)

lemma extends_mono: "extends A t1 t2 \<Longrightarrow> A \<subseteq> B \<Longrightarrow> extends B t1 t2"
  by (auto simp: extends_def)

lemma extends_var:
  assumes "extends A t1 t2" "tp_vars t1 n = Some t"
  obtains t' where "tp_vars t2 n = Some t'" "is_heap t' = is_heap t" "is_array t' = is_array t"
  using assms unfolding extends_def vars_grow_def by blast

lemma extends_known:
  assumes "extends A t1 t2" "tp_vars t1 n = Some t"
  shows "known_var t2 n" "is_heap_var t2 n = is_heap t"
  using extends_var [OF assms] unfolding known_var_def is_heap_var_def by fastforce+

lemma extends_table: "extends A t1 t2 \<Longrightarrow> b \<notin> A \<Longrightarrow>
    flow_at t2 b = flow_at t1 b \<and> tp_methods t2 b = tp_methods t1 b \<and> tp_constructs t2 b = tp_constructs t1 b \<and>
    tp_blocks t2 b = tp_blocks t1 b"
  by (simp add: extends_def tables_def)

lemma same_vars_grow:
  "tp_vars tp' = tp_vars tp \<Longrightarrow> tp_locals tp' = tp_locals tp \<Longrightarrow> vars_grow tp tp'"
  by (simp add: vars_grow_def vars_inv_def)

text \<open>
  What an analysis then finds of a variable that holds an object: if it is live before and not assigned
  before, it is live after and not assigned after.
\<close>

definition flows :: "typed \<Rightarrow> live \<Rightarrow> live \<Rightarrow> live \<Rightarrow> live \<Rightarrow> bool" where
  "flows tp as l0 as' l \<longleftrightarrow> (\<forall>n. is_heap_var tp n \<longrightarrow> n \<in> l0 \<longrightarrow> n \<notin> as \<longrightarrow> n \<in> l \<and> n \<notin> as')"

lemma flows_trans: "flows tp as l0 as1 l1 \<Longrightarrow> flows tp as1 l1 as2 l2 \<Longrightarrow> flows tp as l0 as2 l2"
  by (auto simp: flows_def)

text \<open>Array variables stay assigned: no block has a parameter of their names.\<close>

definition keeps :: "infer_st \<Rightarrow> infer_st \<Rightarrow> bool" where
  "keeps st st' \<longleftrightarrow> (\<forall>n t. n \<in> is_assigned st \<longrightarrow> tp_vars (is_typed st) n = Some t \<longrightarrow> is_array t \<longrightarrow> n \<in> is_assigned st')"

lemma keeps_trans:
  assumes "keeps st st1" "extends A (is_typed st) (is_typed st1)" "keeps st1 st2"
  shows "keeps st st2"
  unfolding keeps_def
proof (intro allI impI)
  fix n t assume n: "n \<in> is_assigned st" "tp_vars (is_typed st) n = Some t" "is_array t"
  obtain t' where "tp_vars (is_typed st1) n = Some t'" "is_array t' = is_array t" by (rule extends_var [OF assms(2) n(2)])
  with n assms(1,3) show "n \<in> is_assigned st2" unfolding keeps_def by blast
qed

text \<open>
  A run from \<open>st\<close> to \<open>st'\<close> for code at the addresses \<open>A\<close>: it changes the tables there only and assigns
  only \<open>asg\<close>. Whatever is typed later, \<open>P\<close> holds of the tables, and the analysis \<open>F\<close> is as above with
  \<open>after\<close> assigned at the end, if the code is \<open>S\<close> (its operands that may be skipped assign nothing).
\<close>

definition good :: "infer_st \<Rightarrow> infer_st \<Rightarrow> addr set \<Rightarrow> rtext set \<Rightarrow> bool \<Rightarrow> (typed \<Rightarrow> bool) \<Rightarrow>
    (typed \<Rightarrow> live \<Rightarrow> live planned) \<Rightarrow> rtext set \<Rightarrow> bool" where
  "good st st' A asg S P F after \<longleftrightarrow>
     extends A (is_typed st) (is_typed st') \<and> is_assigned st' \<subseteq> is_assigned st \<union> asg \<and> keeps st st' \<and>
     (\<forall>tp. extends (- A) (is_typed st') tp \<longrightarrow>
        P tp \<and> (S \<longrightarrow> (\<forall>l l0 w. F tp l = Some (l0, w) \<longrightarrow> flows tp (is_assigned st) l0 after l)))"

lemma goodI:
  assumes "extends A (is_typed st) (is_typed st')" "is_assigned st' \<subseteq> is_assigned st \<union> asg" "keeps st st'"
    and "\<And>tp. extends (- A) (is_typed st') tp \<Longrightarrow> P tp"
    and "\<And>tp l l0 w. extends (- A) (is_typed st') tp \<Longrightarrow> S \<Longrightarrow> F tp l = Some (l0, w) \<Longrightarrow>
      flows tp (is_assigned st) l0 after l"
  shows "good st st' A asg S P F after"
  using assms by (simp add: good_def)

lemma good_parts:
  assumes "good st st' A asg S P F after"
  shows "extends A (is_typed st) (is_typed st')" "is_assigned st' \<subseteq> is_assigned st \<union> asg" "keeps st st'"
  using assms by (simp_all add: good_def)

lemma good_holds:
  assumes "good st st' A asg S P F after" "extends (- A) (is_typed st') tp"
  shows "P tp" "S \<Longrightarrow> F tp l = Some (l0, w) \<Longrightarrow> flows tp (is_assigned st) l0 after l"
  using assms unfolding good_def by blast+

lemma good_seq:
  assumes 1: "good st st1 A asg1 S1 P F (is_assigned st1)" and 2: "good st1 st2 B asg2 S2 Q G after"
    and AB: "A \<inter> B = {}"
  shows "good st st2 (A \<union> B) (asg1 \<union> asg2) (S1 \<and> S2) (\<lambda>tp. P tp \<and> Q tp) (\<lambda>tp l. bindP (G tp l) (F tp)) after"
proof -
  have e1: "extends (- A) (is_typed st1) tp" and e2: "extends (- B) (is_typed st2) tp"
    if "extends (- (A \<union> B)) (is_typed st2) tp" for tp
  proof -
    show "extends (- A) (is_typed st1) tp"
      using extends_trans [OF good_parts(1) [OF 2] that] AB by (rule_tac extends_mono) auto
    show "extends (- B) (is_typed st2) tp" using that by (rule extends_mono) auto
  qed
  show ?thesis
  proof (rule goodI)
    show "extends (A \<union> B) (is_typed st) (is_typed st2)"
      using extends_trans [OF good_parts(1) [OF 1] good_parts(1) [OF 2]] .
    show "is_assigned st2 \<subseteq> is_assigned st \<union> (asg1 \<union> asg2)" using good_parts(2) [OF 1] good_parts(2) [OF 2] by blast
    show "keeps st st2" using keeps_trans good_parts(1,3) [OF 1] good_parts(3) [OF 2] by blast
  next
    fix tp assume "extends (- (A \<union> B)) (is_typed st2) tp"
    then show "P tp \<and> Q tp" using e1 e2 good_holds(1) [OF 1] good_holds(1) [OF 2] by blast
  next
    fix tp l l0 w assume *: "extends (- (A \<union> B)) (is_typed st2) tp" "S1 \<and> S2" "bindP (G tp l) (F tp) = Some (l0, w)"
    from *(3) obtain l1 w1 w2 where "G tp l = Some (l1, w1)" "F tp l1 = Some (l0, w2)" by (rule bindP_SomeE)
    with * e1 e2 show "flows tp (is_assigned st) l0 after l"
      using good_holds(2) [OF 1] good_holds(2) [OF 2] flows_trans by blast
  qed
qed

lemma good_weaken:
  assumes g: "good st st' A asg S P F after" and "A \<subseteq> B" "asg \<subseteq> asg'" "S' \<Longrightarrow> S"
    and Q: "\<And>tp. extends (- B) (is_typed st') tp \<Longrightarrow> P tp \<Longrightarrow> Q tp"
    and F: "\<And>tp. P tp \<Longrightarrow> F' tp = F tp"
  shows "good st st' B asg' S' Q F' after"
proof -
  have e: "extends (- A) (is_typed st') tp" if "extends (- B) (is_typed st') tp" for tp
    using that by (rule extends_mono) (use assms(2) in auto)
  show ?thesis
  proof (rule goodI)
    show "extends B (is_typed st) (is_typed st')" using good_parts(1) [OF g] assms(2) by (rule extends_mono)
    show "is_assigned st' \<subseteq> is_assigned st \<union> asg'" using good_parts(2) [OF g] assms(3) by blast
    show "keeps st st'" by (rule good_parts(3) [OF g])
  next
    fix tp assume tp: "extends (- B) (is_typed st') tp"
    then show "Q tp" using Q good_holds(1) [OF g] e by blast
    fix l l0 w assume "S'" "F' tp l = Some (l0, w)"
    then show "flows tp (is_assigned st) l0 after l"
      using F good_holds [OF g e [OF tp]] assms(4) by metis
  qed
qed

abbreviation noop :: "typed \<Rightarrow> live \<Rightarrow> live planned" where
  "noop tp l \<equiv> Some (l, Map.empty)"

lemma good_still:
  assumes "extends A (is_typed st) (is_typed st')" "is_assigned st' = is_assigned st"
    and "\<And>tp. extends (- A) (is_typed st') tp \<Longrightarrow> P tp"
  shows "good st st' A {} True P noop (is_assigned st')"
  by (rule goodI) (use assms in \<open>auto simp: keeps_def flows_def\<close>)

lemma good_refl: "good st st {} {} True (\<lambda>tp. True) noop (is_assigned st)"
  by (rule good_still) (simp_all add: extends_refl)

text \<open>Afterwards, something that touches the types of variables only.\<close>

lemma good_then:
  assumes g: "good st st' A asg S P F (is_assigned st')" and "extends {} (is_typed st') (is_typed st'')"
    and "is_assigned st'' = is_assigned st'"
  shows "good st st'' A asg S P F (is_assigned st'')"
proof -
  have "good st' st'' {} {} True (\<lambda>tp. True) noop (is_assigned st'')"
    by (rule good_still) (use assms in auto)
  from good_seq [OF g this] show ?thesis by simp
qed

subsection \<open>Assignments inside an expression\<close>

text \<open>The variables that an expression assigns, block parameters apart.\<close>

function assigns :: "expr \<Rightarrow> live" where
  "assigns e =
     (case ex_kind e of
        EAssign t v \<Rightarrow> (case ex_kind t of EVar n \<Rightarrow> {n} | _ \<Rightarrow> {})
      | EOpAssign op t v \<Rightarrow> (case ex_kind t of EVar n \<Rightarrow> {n} | _ \<Rightarrow> {})
      | _ \<Rightarrow> {}) \<union> \<Union> (assigns ` set (below (ex_kind e)))"
  by auto
termination
  by (relation "measure size") (auto dest: size_below)

declare assigns.simps [simp del]

text \<open>No operand that may be skipped, on the right of \<open>&&\<close> or \<open>||\<close>, assigns a variable.\<close>

function sure :: "expr \<Rightarrow> bool" where
  "sure e \<longleftrightarrow>
     (case ex_kind e of EBinary op l r \<Rightarrow> op \<in> {OpAnd, OpOr} \<longrightarrow> assigns r = {} | _ \<Rightarrow> True) \<and>
     (\<forall>x \<in> set (below (ex_kind e)). sure x)"
  by auto
termination
  by (relation "measure size") (auto dest: size_below)

declare sure.simps [simp del]

lemma assigns_below: "x \<in> set (below (ex_kind e)) \<Longrightarrow> assigns x \<subseteq> assigns e"
  by (subst (2) assigns.simps) auto

lemma sure_below: "sure e \<Longrightarrow> x \<in> set (below (ex_kind e)) \<Longrightarrow> sure x"
  by (subst (asm) sure.simps) auto

definition assigns_all :: "expr list \<Rightarrow> live" where
  "assigns_all es = \<Union> (assigns ` set es)"

definition sure_all :: "expr list \<Rightarrow> bool" where
  "sure_all es \<longleftrightarrow> list_all sure es"

subsection \<open>Children\<close>

definition fresh :: "addr set \<Rightarrow> infer_st \<Rightarrow> bool" where
  "fresh A st \<longleftrightarrow> (\<forall>b \<in> A. tp_methods (is_typed st) b = None \<and> tp_constructs (is_typed st) b = None)"

lemma fresh_sub: "fresh A st \<Longrightarrow> B \<subseteq> A \<Longrightarrow> fresh B st"
  by (auto simp: fresh_def)

lemma fresh_good:
  assumes "fresh B st" "good st st' A asg S P F after" "A \<inter> B = {}"
  shows "fresh B st'"
  unfolding fresh_def
proof
  fix b assume "b \<in> B"
  with assms(3) have "b \<notin> A" by auto
  from extends_table [OF good_parts(1) [OF assms(2)] this] show
    "tp_methods (is_typed st') b = None \<and> tp_constructs (is_typed st') b = None"
    using assms(1) \<open>b \<in> B\<close> by (simp add: fresh_def)
qed

text \<open>What is assigned after code that ends like this: everything, after code that never ends.\<close>

definition assigned_after :: "flow \<Rightarrow> infer_st \<Rightarrow> rtext set" where
  "assigned_after fl st = (if fl = FNever then UNIV else is_assigned st)"

lemma assigned_after_simps [simp]:
  "assigned_after (FValue t) st = is_assigned st" "assigned_after FUnit st = is_assigned st" "assigned_after FNever st = UNIV"
  by (simp_all add: assigned_after_def)

text \<open>A typed node: what its flow says of it. A variable that was read is assigned.\<close>

definition node_ok :: "expr \<Rightarrow> addr \<Rightarrow> flow \<Rightarrow> typed \<Rightarrow> bool" where
  "node_ok e a fl tp \<longleftrightarrow> flow_at tp a = Some fl \<and> accepted tp e a"

definition was_read :: "expr \<Rightarrow> flow \<Rightarrow> infer_st \<Rightarrow> bool" where
  "was_read e fl st \<longleftrightarrow> (\<forall>n t. ex_kind e = EVar n \<longrightarrow> fl = FValue t \<longrightarrow>
     n \<in> is_assigned st \<and> tp_vars (is_typed st) n = Some t)"

definition typed_node :: "expr \<Rightarrow> addr \<Rightarrow> infer_st \<Rightarrow> flow \<Rightarrow> infer_st \<Rightarrow> bool" where
  "typed_node e a st fl st' \<longleftrightarrow>
     good st st' (subtree a) (assigns e) (sure e) (node_ok e a fl) (\<lambda>tp. live_expr tp e a) (assigned_after fl st') \<and>
     was_read e fl st'"

definition sound_run :: "(nty option \<Rightarrow> flow inf) \<Rightarrow> expr \<Rightarrow> addr \<Rightarrow> bool" where
  "sound_run run e a \<longleftrightarrow> (\<forall>ex st fl st'. fresh (subtree a) st \<longrightarrow> run ex st = Inr (fl, st') \<longrightarrow> typed_node e a st fl st')"

lemma value_has: "flow_at tp a = Some (FValue t) \<Longrightarrow> has_value tp a \<and> ty_at tp a = Some t"
  by (simp add: has_value_def ty_at_def)

text \<open>A child that must have a value.\<close>

definition value_ok :: "expr \<Rightarrow> addr \<Rightarrow> nty \<Rightarrow> typed \<Rightarrow> bool" where
  "value_ok e a t tp \<longleftrightarrow> accepted tp e a \<and> has_value tp a \<and> ty_at tp a = Some t"

lemma sound_value:
  assumes "sound_run run e a" "run ex st = Inr (FValue t, st')" "fresh (subtree a) st"
  shows "good st st' (subtree a) (assigns e) (sure e) (value_ok e a t) (\<lambda>tp. live_expr tp e a) (is_assigned st')"
    and "was_read e (FValue t) st'"
proof -
  have n: "typed_node e a st (FValue t) st'" using assms by (auto simp: sound_run_def)
  then show "was_read e (FValue t) st'" by (simp add: typed_node_def)
  from n have "good st st' (subtree a) (assigns e) (sure e) (node_ok e a (FValue t)) (\<lambda>tp. live_expr tp e a) (is_assigned st')"
    by (simp add: typed_node_def)
  then show "good st st' (subtree a) (assigns e) (sure e) (value_ok e a t) (\<lambda>tp. live_expr tp e a) (is_assigned st')"
    by (rule good_weaken) (auto simp: node_ok_def value_ok_def value_has)
qed

text \<open>What was read stays so, for an array.\<close>

definition array_read :: "expr \<Rightarrow> nty \<Rightarrow> infer_st \<Rightarrow> bool" where
  "array_read e t st \<longleftrightarrow> (\<forall>n. ex_kind e = EVar n \<longrightarrow> is_array t \<longrightarrow>
     n \<in> is_assigned st \<and> (\<exists>t'. tp_vars (is_typed st) n = Some t' \<and> is_array t'))"

lemma was_read_array: "was_read e (FValue t) st \<Longrightarrow> array_read e t st"
  by (simp add: was_read_def array_read_def)

lemma array_read_later:
  assumes "array_read e t st" "good st st' A asg S P F after"
  shows "array_read e t st'"
  unfolding array_read_def
proof (intro allI impI)
  fix n assume "ex_kind e = EVar n" "is_array t"
  with assms(1) obtain t' where n: "n \<in> is_assigned st" "tp_vars (is_typed st) n = Some t'" "is_array t'"
    unfolding array_read_def by blast
  obtain t2 where "tp_vars (is_typed st') n = Some t2" "is_array t2 = is_array t'"
    by (rule extends_var [OF good_parts(1) [OF assms(2)] n(2)])
  with n show "n \<in> is_assigned st' \<and> (\<exists>t'. tp_vars (is_typed st') n = Some t' \<and> is_array t')"
    using good_parts(3) [OF assms(2)] unfolding keeps_def by blast
qed

lemmas was_read_later = array_read_later [OF was_read_array]

subsection \<open>Variables\<close>

lemma position_first:
  "distinct (map fst xs) \<Longrightarrow> map_of xs n = Some t \<Longrightarrow>
   \<exists>i. position_of (\<lambda>(m, _). m = n) xs = Some i \<and> i < length xs \<and> fst (xs ! i) = n"
  by (induction xs) (fastforce split: if_splits)+

lemma map_of_update:
  "distinct (map fst xs) \<Longrightarrow> i < length xs \<Longrightarrow> fst (xs ! i) = n \<Longrightarrow> map_of (xs[i := (n, t)]) = (map_of xs)(n \<mapsto> t)"
proof (induction xs arbitrary: i)
  case Nil
  then show ?case by simp
next
  case (Cons x xs)
  show ?case
  proof (cases i)
    case 0
    with Cons.prems show ?thesis by (cases x) (auto simp: fun_eq_iff)
  next
    case (Suc j)
    with Cons.prems have "fst x \<noteq> n" by (cases x) (force simp: in_set_conv_nth)
    with Suc Cons show ?thesis by (cases x) (auto simp: fun_eq_iff)
  qed
qed

lemma fst_update: "i < length xs \<Longrightarrow> fst (xs ! i) = n \<Longrightarrow> map fst (xs[i := (n, t)]) = map fst xs"
  by (metis fst_conv list_update_id map_update)

lemma array_heap: "is_array t \<Longrightarrow> is_heap t" "is_unknown t \<Longrightarrow> is_array t"
  by (cases t; simp add: is_unknown_def)+

text \<open>A variable is added, or one with an empty array gets the type of its elements.\<close>

lemma grow_new:
  assumes "tp_vars tp n = None" "tp' = tp\<lparr>tp_vars := (tp_vars tp)(n \<mapsto> t), tp_locals := tp_locals tp @ [(n, t)]\<rparr>"
  shows "extends {} tp tp'"
proof -
  have "vars_inv ps tp'" if inv: "vars_inv ps tp" for ps
  proof -
    have vars: "tp_vars tp = map_of ps ++ map_of (tp_locals tp)" using inv by (simp add: vars_inv_def)
    have "map_of (tp_locals tp) n = None" "map_of ps n = None" using assms(1) vars by (auto simp: map_add_def split: option.splits)
    then have "n \<notin> fst ` set (tp_locals tp)" "n \<notin> fst ` set ps" by (simp_all add: map_of_eq_None_iff)
    moreover have "tp_vars tp' = map_of ps ++ map_of (tp_locals tp')"
      using vars \<open>map_of (tp_locals tp) n = None\<close> by (auto simp: assms(2) fun_eq_iff map_add_def split: option.splits)
    ultimately show ?thesis using inv by (auto simp: vars_inv_def assms(2))
  qed
  then show ?thesis using assms(1) by (auto simp: extends_def vars_grow_def tables_def flow_at_def assms(2))
qed

lemma grow_elements:
  assumes old: "tp_vars tp n = Some t0" "is_unknown t0" and t: "is_array t"
    and tp': "tp' = tp\<lparr>tp_vars := (tp_vars tp)(n \<mapsto> t),
      tp_locals := (case position_of (\<lambda>(m, _). m = n) (tp_locals tp) of
        None \<Rightarrow> tp_locals tp | Some i \<Rightarrow> (tp_locals tp)[i := (n, t)])\<rparr>"
  shows "extends {} tp tp'"
proof -
  have "vars_inv ps tp'" if inv: "vars_inv ps tp" for ps
  proof -
    have vars: "tp_vars tp = map_of ps ++ map_of (tp_locals tp)" and d: "distinct (map fst (tp_locals tp))"
      using inv by (simp_all add: vars_inv_def)
    have "map_of (tp_locals tp) n = Some t0"
      using old vars inv by (auto simp: vars_inv_def map_add_def split: option.splits)
    then obtain i where i: "position_of (\<lambda>(m, _). m = n) (tp_locals tp) = Some i" "i < length (tp_locals tp)"
        "fst (tp_locals tp ! i) = n"
      using position_first [OF d] by blast
    then have l: "tp_locals tp' = (tp_locals tp)[i := (n, t)]" by (simp add: tp')
    have "map fst (tp_locals tp') = map fst (tp_locals tp)" using fst_update [OF i(2,3)] l by simp
    moreover from this have "fst ` set (tp_locals tp') = fst ` set (tp_locals tp)" by (metis list.set_map)
    moreover have "tp_vars tp' = map_of ps ++ map_of (tp_locals tp')"
      using vars map_of_update [OF d i(2,3)] l by (simp add: tp')
    ultimately show ?thesis using inv by (auto simp: vars_inv_def)
  qed
  moreover have "is_heap t = is_heap t0" "is_array t = is_array t0" using old(2) t array_heap by blast+
  ultimately show ?thesis using old by (auto simp: extends_def vars_grow_def tables_def flow_at_def tp')
qed

lemma bind_local_run:
  assumes run: "bind_local cx n t st = Inr ((), st')"
  shows "extends {} (is_typed st) (is_typed st')" "is_assigned st' = insert n (is_assigned st)"
    and "\<exists>t'. tp_vars (is_typed st') n = Some t' \<and> is_heap t' = is_heap t \<and> is_array t' = is_array t \<and>
      (is_array t \<or> t' = t)"
    and "tp_vars (is_typed st) n = Some t0 \<Longrightarrow> is_array t0 = is_array t"
proof -
  let ?tp = "is_typed st"
  consider (unseen) "tp_vars ?tp n = None"
      "is_typed st' = ?tp\<lparr>tp_vars := (tp_vars ?tp)(n \<mapsto> t), tp_locals := tp_locals ?tp @ [(n, t)]\<rparr>"
    | (same) t1 where "tp_vars ?tp n = Some t1" "t1 = t \<or> is_unknown t \<and> is_array t1" "is_typed st' = ?tp"
    | (elements) t1 where "tp_vars ?tp n = Some t1" "is_unknown t1" "is_array t"
      "is_typed st' = ?tp\<lparr>tp_vars := (tp_vars ?tp)(n \<mapsto> t), tp_locals := (case position_of (\<lambda>(m, _). m = n) (tp_locals ?tp) of
         None \<Rightarrow> tp_locals ?tp | Some i \<Rightarrow> (tp_locals ?tp)[i := (n, t)])\<rparr>"
    using run by (auto simp: bind_local_def Let_def split: option.splits if_splits)
  note split = this
  show "is_assigned st' = insert n (is_assigned st)"
    using run by (auto simp: bind_local_def Let_def split: option.splits if_splits)
  show "extends {} ?tp (is_typed st')"
    using split by cases (auto intro: grow_new grow_elements extends_refl)
  show "\<exists>t'. tp_vars (is_typed st') n = Some t' \<and> is_heap t' = is_heap t \<and> is_array t' = is_array t \<and>
      (is_array t \<or> t' = t)"
    using split by cases (use array_heap in auto)
  show "is_array t0 = is_array t" if "tp_vars ?tp n = Some t0"
    using split that by cases (use array_heap in auto)
qed

lemma define_local_run:
  assumes "define_local cx n t st = Inr ((), st')"
  shows "extends {} (is_typed st) (is_typed st')" "is_assigned st' = insert n (is_assigned st)"
    and "\<exists>t'. tp_vars (is_typed st') n = Some t' \<and> is_heap t' = is_heap t"
  using bind_local_run [OF assms [unfolded define_local_def]] by auto

lemma expect_ty_run:
  assumes "expect_ty cx e t want what st = Inr ((), st')"
  shows "extends {} (is_typed st) (is_typed st')" and "array_read e t st \<Longrightarrow> is_assigned st' = is_assigned st"
proof -
  consider (same) "st' = st" | (widened) n where "is_unknown t" "ex_kind e = EVar n" "define_local cx n want st = Inr ((), st')"
    using assms by (auto simp: expect_ty_def split: if_splits expr_kind.splits)
  note split = this
  show "extends {} (is_typed st) (is_typed st')"
    using split by cases (auto simp: extends_refl dest: define_local_run)
  show "is_assigned st' = is_assigned st" if "array_read e t st"
    using split that
    by cases (auto simp: array_read_def array_heap dest!: define_local_run(2))
qed

lemma store_elem_run:
  assumes "store_elem cx recv el item st = Inr ((), st')"
  shows "extends {} (is_typed st) (is_typed st')" and "array_read recv (NArray el) st \<Longrightarrow> is_assigned st' = is_assigned st"
  using assms expect_ty_run
  by (auto simp: store_elem_def extends_refl split: option.splits if_splits)

text \<open>An assignment.\<close>

lemma good_define:
  assumes "define_local cx n t st = Inr ((), st')"
  shows "good st st' {} {n} True (\<lambda>tp. known_var tp n \<and> is_heap_var tp n = is_heap t)
    (\<lambda>tp. live_define tp a n) (is_assigned st')"
proof -
  note run = define_local_run [OF assms]
  show ?thesis
  proof (rule goodI)
    show "extends {} (is_typed st) (is_typed st')" by (rule run(1))
    show "is_assigned st' \<subseteq> is_assigned st \<union> {n}" "keeps st st'" using run(2) by (auto simp: keeps_def)
    fix tp assume "extends (- {}) (is_typed st') tp"
    then show "known_var tp n \<and> is_heap_var tp n = is_heap t" using run(3) extends_known by blast
    fix l l0 w assume "live_define tp a n l = Some (l0, w)"
    then show "flows tp (is_assigned st) l0 (is_assigned st') l"
      using run(2) by (auto simp: flows_def live_define_def split: if_splits)
  qed
qed

lemma good_read:
  assumes "read_local cx n st = Inr (t, st')"
  shows "st' = st" "n \<in> is_assigned st" "tp_vars (is_typed st) n = Some t"
    and "good st st {} {} True (\<lambda>tp. known_var tp n \<and> is_heap_var tp n = is_heap t) (\<lambda>tp. live_read tp a n) (is_assigned st)"
proof -
  show *: "st' = st" "n \<in> is_assigned st" "tp_vars (is_typed st) n = Some t"
    using assms by (auto simp: read_local_def split: option.splits if_splits)
  show "good st st {} {} True (\<lambda>tp. known_var tp n \<and> is_heap_var tp n = is_heap t) (\<lambda>tp. live_read tp a n) (is_assigned st)"
  proof (rule goodI)
    fix tp assume "extends (- {}) (is_typed st) tp"
    then show "known_var tp n \<and> is_heap_var tp n = is_heap t" using *(3) extends_known by blast
    fix l l0 w assume "live_read tp a n l = Some (l0, w)"
    then show "flows tp (is_assigned st) l0 (is_assigned st) l"
      using *(2) by (auto simp: flows_def live_read_def split: if_splits)
  qed (simp_all add: extends_refl keeps_def)
qed

text \<open>
  The typing of lists: values one after the other (operands, elements, arguments) and statements.
\<close>

definition places :: "(addr \<times> expr) list \<Rightarrow> addr set" where
  "places es = \<Union> (subtree ` fst ` set es)"

lemma places_simps [simp]:
  "places [] = {}" "places ((b, x) # es) = subtree b \<union> places es"
  by (auto simp: places_def)

lemma places_siblings: "siblings c es \<Longrightarrow> places es \<subseteq> subtree c"
  using subtree_child by (fastforce simp: siblings_def places_def)

lemma places_apart: "siblings c ((b, x) # es) \<Longrightarrow> subtree b \<inter> places es = {}"
  unfolding places_def by (rule siblings_apart)

definition all_assigns :: "(addr \<times> expr) list \<Rightarrow> live" where
  "all_assigns es = \<Union> (assigns ` snd ` set es)"

definition all_sure :: "(addr \<times> expr) list \<Rightarrow> bool" where
  "all_sure es \<longleftrightarrow> list_all (\<lambda>(b, x). sure x) es"

lemma all_simps [simp]:
  "all_assigns [] = {}" "all_assigns ((b, x) # es) = assigns x \<union> all_assigns es"
  "all_sure []" "all_sure ((b, x) # es) \<longleftrightarrow> sure x \<and> all_sure es"
  by (auto simp: all_assigns_def all_sure_def)

lemma all_below:
  assumes "snd ` set es \<subseteq> set (below (ex_kind e))"
  shows "all_assigns es \<subseteq> assigns e" "sure e \<Longrightarrow> all_sure es"
  using assms assigns_below sure_below
  by (fastforce simp: all_assigns_def, fastforce simp: all_sure_def list_all_iff)

subsection \<open>Values\<close>

text \<open>One value: typed from one state to the next.\<close>

definition valued :: "addr \<Rightarrow> expr \<Rightarrow> infer_st \<Rightarrow> infer_st \<Rightarrow> bool" where
  "valued b x st st' \<longleftrightarrow> (fresh (subtree b) st \<longrightarrow>
     good st st' (subtree b) (assigns x) (sure x) (\<lambda>tp. accepted tp x b \<and> has_value tp b) (\<lambda>tp. live_expr tp x b)
       (is_assigned st'))"

fun all_valued :: "(addr \<times> expr) list \<Rightarrow> infer_st \<Rightarrow> infer_st \<Rightarrow> bool" where
  "all_valued [] st st' \<longleftrightarrow> st' = st"
| "all_valued ((b, x) # es) st st' \<longleftrightarrow> (\<exists>st1. valued b x st st1 \<and> all_valued es st1 st')"

lemma good_values:
  assumes "siblings c es" "all_valued es st st'" "fresh (places es) st"
  shows "good st st' (places es) (all_assigns es) (all_sure es) (\<lambda>tp. values_ok tp (accepted tp) es)
    (\<lambda>tp. live_seq (live_expr tp) es) (is_assigned st')"
  using assms
proof (induction es arbitrary: st)
  case Nil
  then have "st' = st" by simp
  with good_refl show ?case by (simp add: values_ok_def good_weaken [OF good_refl])
next
  case (Cons y es)
  obtain b x where y: "y = (b, x)" by force
  from Cons.prems obtain st1 where v: "valued b x st st1" and vs: "all_valued es st1 st'" by (auto simp: y)
  have "fresh (subtree b) st" "fresh (places es) st" using Cons.prems(3) by (auto simp: y fresh_def)
  moreover have apart: "subtree b \<inter> places es = {}" using Cons.prems(1) places_apart by (simp add: y)
  ultimately have g: "good st st1 (subtree b) (assigns x) (sure x) (\<lambda>tp. accepted tp x b \<and> has_value tp b)
      (\<lambda>tp. live_expr tp x b) (is_assigned st1)" and "fresh (places es) st1"
    using v fresh_good by (auto simp: valued_def)
  with Cons.IH [OF _ vs] Cons.prems(1) have gs: "good st1 st' (places es) (all_assigns es) (all_sure es)
      (\<lambda>tp. values_ok tp (accepted tp) es) (\<lambda>tp. live_seq (live_expr tp) es) (is_assigned st')"
    using siblings_Cons(1) by (simp add: y)
  show ?case unfolding y
    by (rule good_weaken [OF good_seq [OF g gs apart]]) (auto simp: values_ok_def fun_eq_iff)
qed

lemma valued_run:
  "sound_run run x b \<Longrightarrow> run ex st = Inr (FValue t, st') \<Longrightarrow> valued b x st st'"
  unfolding valued_def by (auto intro: good_weaken [OF sound_value(1)] simp: value_ok_def)

lemma valued_then:
  "valued b x st st' \<Longrightarrow> extends {} (is_typed st') (is_typed st'') \<Longrightarrow> is_assigned st'' = is_assigned st' \<Longrightarrow> valued b x st st''"
  unfolding valued_def using good_then by blast

text \<open>The children of a list, each with a sound run.\<close>

definition sound_kids :: "typer \<Rightarrow> (addr \<times> expr) list \<Rightarrow> bool" where
  "sound_kids f es \<longleftrightarrow> list_all (\<lambda>(b, x). sound_run (f x b) x b) es"

lemma sound_kids_simps [simp]:
  "sound_kids f []" "sound_kids f ((b, x) # es) \<longleftrightarrow> sound_run (f x b) x b \<and> sound_kids f es"
  by (simp_all add: sound_kids_def)

definition kids_of :: "typer \<Rightarrow> (addr \<times> expr) list \<Rightarrow> child list" where
  "kids_of f es = map (\<lambda>(b, e). kid f b e) es"

lemma kids_of_simps [simp]: "kids_of f [] = []" "kids_of f ((b, x) # es) = (x, b, f x b) # kids_of f es"
  by (simp_all add: kids_of_def kid_def)

lemma kids_eq: "kids f a es = kids_of f (numbered a es)"
  by (simp add: kids_def kids_of_def)

lemma value_of_kid [simp]: "value_of (kid f b x) ex st = Inr (t, st') \<longleftrightarrow> f x b ex st = Inr (FValue t, st')"
  by (simp add: kid_def)

lemma each_valued:
  assumes "eachI g (kids_of f es) st = Inr ((), st')" "sound_kids f es"
    and g: "\<And>b x st st'. sound_run (f x b) x b \<Longrightarrow> g (x, b, f x b) st = Inr ((), st') \<Longrightarrow> valued b x st st'"
  shows "all_valued es st st'"
  using assms(1,2)
proof (induction es arbitrary: st)
  case (Cons y es)
  obtain b x where y: "y = (b, x)" by force
  from Cons.prems obtain st1 where "g (x, b, f x b) st = Inr ((), st1)" "eachI g (kids_of f es) st1 = Inr ((), st')"
      "sound_run (f x b) x b" "sound_kids f es" by (auto simp: y)
  then have "valued b x st st1" "all_valued es st1 st'" using g Cons.IH by blast+
  then show ?case by (auto simp: y)
qed auto

subsection \<open>Statements\<close>

definition last_flow :: "(addr \<times> expr) list \<Rightarrow> flow \<Rightarrow> typed \<Rightarrow> bool" where
  "last_flow es fl tp \<longleftrightarrow> (if es = [] then fl = FUnit else flow_at tp (fst (last es)) = Some fl)"

lemma good_stmts_from:
  assumes "siblings c es" "stmts_from prev (kids_of f es) expected st = Inr (fl, st')" "sound_kids f es"
    and "fresh (places es) st" "es \<noteq> []"
  shows "good st st' (places es) (all_assigns es) (all_sure es)
    (\<lambda>tp. statements_ok tp (accepted tp) es \<and> last_flow es fl tp)
    (\<lambda>tp. live_seq (live_expr tp) es) (assigned_after fl st')"
  using assms
proof (induction es arbitrary: st prev)
  case Nil
  then show ?case by simp
next
  case (Cons y es)
  obtain b x where y: "y = (b, x)" by force
  from Cons.prems(2) obtain fl1 st1 ex where run: "f x b ex st = Inr (fl1, st1)"
      and rest: "stmts_from fl1 (kids_of f es) expected st1 = Inr (fl, st')"
    by (auto simp: y)
  have "fresh (subtree b) st" "fresh (places es) st" using Cons.prems(4) by (auto simp: y fresh_def)
  with Cons.prems(3) run have g: "good st st1 (subtree b) (assigns x) (sure x) (node_ok x b fl1)
      (\<lambda>tp. live_expr tp x b) (assigned_after fl1 st1)"
    by (auto simp: y sound_run_def typed_node_def)
  show ?case
  proof (cases "es = []")
    case True
    with rest have same: "fl1 = fl" "st1 = st'" by auto
    show ?thesis unfolding y True
      by (rule good_weaken [OF g [unfolded same]]) (auto simp: statements_ok_def node_ok_def last_flow_def fun_eq_iff)
  next
    case False
    have ends: "fl1 \<noteq> FNever" using rest False by (cases es) auto
    have apart: "subtree b \<inter> places es = {}" using Cons.prems(1) places_apart by (simp add: y)
    have gs: "good st1 st' (places es) (all_assigns es) (all_sure es)
        (\<lambda>tp. statements_ok tp (accepted tp) es \<and> last_flow es fl tp) (\<lambda>tp. live_seq (live_expr tp) es) (assigned_after fl st')"
      using Cons.IH [OF _ rest _ _ False] Cons.prems(1,3) siblings_Cons(1) fresh_good [OF \<open>fresh (places es) st\<close> g apart]
      by (simp add: y)
    from g ends have g': "good st st1 (subtree b) (assigns x) (sure x) (node_ok x b fl1)
        (\<lambda>tp. live_expr tp x b) (is_assigned st1)" by (simp add: assigned_after_def)
    show ?thesis unfolding y
      by (rule good_weaken [OF good_seq [OF g' gs apart]])
        (use ends False in \<open>auto simp: statements_ok_def node_ok_def last_flow_def not_never_def fun_eq_iff\<close>)
  qed
qed

lemma good_stmts:
  assumes "infer_stmts (kids_of f es) expected st = Inr (fl, st')" "siblings c es" "sound_kids f es" "fresh (places es) st"
  shows "good st st' (places es) (all_assigns es) (all_sure es)
    (\<lambda>tp. statements_ok tp (accepted tp) es \<and> last_flow es fl tp)
    (\<lambda>tp. live_seq (live_expr tp) es) (assigned_after fl st')"
proof (cases "es = []")
  case True
  with assms(1) have fl: "fl = FUnit" "st' = st" by (auto simp: infer_stmts_def)
  show ?thesis unfolding True fl assigned_after_simps
    by (rule good_weaken [OF good_refl]) (auto simp: statements_ok_def last_flow_def)
next
  case False
  from good_stmts_from [OF assms(2) _ assms(3,4) this] assms(1) show ?thesis by (simp add: infer_stmts_def)
qed

lemma last_flow_never: "last_flow es fl tp \<Longrightarrow> never_ends tp es \<longleftrightarrow> fl = FNever"
  by (auto simp: last_flow_def never_ends_def split: if_splits)

end
