(* ===== verification/Infer_Nodes.thy ===== *)
theory Infer_Nodes
  imports Infer_Props
begin

text \<open>
  The typing of one node, given that of its children: literals, variables, assignments and operators.
\<close>

subsection \<open>Nodes\<close>

lemma apart: "A \<subseteq> subtree (i # a) \<Longrightarrow> B \<subseteq> subtree (j # a) \<Longrightarrow> i \<noteq> j \<Longrightarrow> A \<inter> B = {}"
  using subtree_disjoint by blast

lemma subtree_below: "subtree (i # a) \<subseteq> subtree a - {a}"
  using subtree_child not_in_child by blast

lemma point_below: "{i # a} \<subseteq> subtree a - {a}"
  using subtree_child [of i a] by auto

lemma places_in: "places (numbered c es) \<subseteq> subtree c"
  by (rule places_siblings [OF siblings_numbered])

text \<open>What lies below a node.\<close>

lemmas below_node = subtree_below point_below order_trans [OF places_in subtree_below]
  order_trans [OF subtree_child subtree_below] order_trans [OF places_in order_trans [OF subtree_child subtree_below]]

lemma places_below:
  assumes "siblings c es"
  shows "places es \<subseteq> subtree c - {c}"
  using places_siblings [OF assms] assms not_in_child by (fastforce simp: places_def siblings_def)

lemma fresh_later:
  assumes "good st st' A asg S P F after" "fresh (subtree a) st" "B \<subseteq> subtree a" "A \<inter> B = {}"
  shows "fresh B st'"
  using fresh_good [OF fresh_sub [OF assms(2,3)] assms(1,4)] .

text \<open>
  The tables at the node's own address are written last: for what \<open>good\<close> says of the children, and the
  entries then found there, the node is accepted and its analysis is that of the children.
\<close>

definition at_node :: "addr \<Rightarrow> flow \<Rightarrow> typed \<Rightarrow> typed \<Rightarrow> bool" where
  "at_node a fl tp tp' \<longleftrightarrow> flow_at tp' a = Some fl \<and> tp_methods tp' a = tp_methods tp a \<and>
     tp_constructs tp' a = tp_constructs tp a \<and> tp_blocks tp' a = tp_blocks tp a"

definition node_typed :: "expr \<Rightarrow> addr \<Rightarrow> infer_st \<Rightarrow> flow \<Rightarrow> infer_st \<Rightarrow> bool" where
  "node_typed e a st fl st2 \<longleftrightarrow> (\<exists>st1 A asg S P F. good st st1 A asg S P F (assigned_after fl st1) \<and>
     A \<subseteq> subtree a - {a} \<and> asg \<subseteq> assigns e \<and> (sure e \<longrightarrow> S) \<and>
     is_assigned st2 = is_assigned st1 \<and> extends {a} (is_typed st1) (is_typed st2) \<and> was_read e fl st2 \<and>
     (\<forall>tp. P tp \<longrightarrow> at_node a fl (is_typed st2) tp \<longrightarrow> accepted tp e a \<and> live_expr tp e a = F tp))"

lemma node_typedI:
  assumes "good st st1 A asg S P F (assigned_after fl st1)" "A \<subseteq> subtree a - {a}" "asg \<subseteq> assigns e" "sure e \<Longrightarrow> S"
    and "is_assigned st2 = is_assigned st1" "extends {a} (is_typed st1) (is_typed st2)" "was_read e fl st2"
    and "\<And>tp. P tp \<Longrightarrow> at_node a fl (is_typed st2) tp \<Longrightarrow> accepted tp e a \<and> live_expr tp e a = F tp"
  shows "node_typed e a st fl st2"
  unfolding node_typed_def using assms by blast

lemma extends_set_type:
  "extends {a} tp (tp\<lparr>tp_types := AList.update a fl (tp_types tp)\<rparr>)"
  unfolding extends_def by (auto simp: tables_def flow_at_def update_conv' intro: same_vars_grow)

definition finish :: "addr \<Rightarrow> flow \<Rightarrow> flow inf" where
  "finish a fl = bindI (set_type a fl) (\<lambda>_. accept fl)"

lemma node_finished:
  assumes pre: "node_typed e a st fl st2" and run: "finish a fl st2 = Inr (fl', st')"
  shows "fl' = fl \<and> typed_node e a st fl st'"
proof -
  obtain st1 A asg S P F where g: "good st st1 A asg S P F (assigned_after fl st1)" and A: "A \<subseteq> subtree a - {a}"
      and asg: "asg \<subseteq> assigns e" "sure e \<longrightarrow> S" and st2: "is_assigned st2 = is_assigned st1"
      "extends {a} (is_typed st1) (is_typed st2)" "was_read e fl st2"
      and acc: "\<forall>tp. P tp \<longrightarrow> at_node a fl (is_typed st2) tp \<longrightarrow> accepted tp e a \<and> live_expr tp e a = F tp"
    using pre unfolding node_typed_def by blast
  let ?tp = "(is_typed st2)\<lparr>tp_types := AList.update a fl (tp_types (is_typed st2))\<rparr>"
  have st': "fl' = fl" "st' = st2\<lparr>is_typed := ?tp\<rparr>" using run by (simp_all add: finish_def set_type_def)
  have e: "extends {a} (is_typed st1) ?tp" using extends_trans [OF st2(2) extends_set_type [of a]] by simp
  have here: "at_node a fl (is_typed st2) tp" if "extends (- {a}) ?tp tp" for tp
    using extends_table [OF that, of a] by (simp add: at_node_def flow_at_def update_conv')
  have own: "good st1 st' {a} {} True (\<lambda>tp. at_node a fl (is_typed st2) tp) noop (is_assigned st')"
    by (rule good_still) (use e st' st2 here in auto)
  have later: "assigned_after fl st' = assigned_after fl st1" using st' st2 by (simp add: assigned_after_def)
  have g': "good st st' (A \<union> {a}) asg S (\<lambda>tp. P tp \<and> at_node a fl (is_typed st2) tp) F (assigned_after fl st')"
  proof (cases "fl = FNever")
    case False
    then have after: "assigned_after fl st1 = is_assigned st1" "assigned_after fl st' = is_assigned st'"
      by (simp_all add: assigned_after_def)
    have "A \<inter> {a} = {}" using A by blast
    from good_seq [OF g [unfolded after] own this] show ?thesis unfolding after by simp
  next
    case True
    have e1: "extends (- A) (is_typed st1) tp" if "extends (- (A \<union> {a})) (is_typed st') tp" for tp
      using extends_trans [OF good_parts(1) [OF own] that] A by (rule_tac extends_mono) auto
    have e2: "extends (- {a}) ?tp tp" if "extends (- (A \<union> {a})) (is_typed st') tp" for tp
      using that st' by (rule_tac extends_mono) auto
    show ?thesis
    proof (rule goodI)
      show "extends (A \<union> {a}) (is_typed st) (is_typed st')"
        using extends_trans [OF good_parts(1) [OF g] good_parts(1) [OF own]] .
      show "is_assigned st' \<subseteq> is_assigned st \<union> asg" using good_parts(2) [OF g] st' st2 by simp
      show "keeps st st'" using good_parts(3) [OF g] st' st2 by (simp add: keeps_def)
      fix tp assume tp: "extends (- (A \<union> {a})) (is_typed st') tp"
      then show "P tp \<and> at_node a fl (is_typed st2) tp" using good_holds(1) [OF g e1] here e2 by blast
      fix l l0 w assume "S" "F tp l = Some (l0, w)"
      then show "flows tp (is_assigned st) l0 (assigned_after fl st') l" using good_holds(2) [OF g e1 [OF tp]] later by simp
    qed
  qed
  have "good st st' (subtree a) (assigns e) (sure e) (node_ok e a fl) (\<lambda>tp. live_expr tp e a) (assigned_after fl st')"
    by (rule good_weaken [OF g']) (use A asg acc in \<open>auto simp: node_ok_def at_node_def\<close>)
  moreover have "was_read e fl st'" using st2(3) st' by (simp add: was_read_def)
  ultimately show ?thesis using st'(1) by (simp add: typed_node_def)
qed

subsection \<open>Literals\<close>

lemma was_read_other: "\<not> is_var_expr e \<Longrightarrow> was_read e fl st"
  by (auto simp: was_read_def is_var_expr_def)

lemma node_plain:
  assumes "good st st1 A asg S P F (assigned_after fl st1)" "A \<subseteq> subtree a - {a}" "asg \<subseteq> assigns e" "sure e \<Longrightarrow> S"
    and "\<not> is_var_expr e"
    and "\<And>tp. P tp \<Longrightarrow> at_node a fl (is_typed st1) tp \<Longrightarrow> accepted tp e a \<and> live_expr tp e a = F tp"
  shows "node_typed e a st fl st1"
  by (rule node_typedI [OF assms(1-4)]) (use assms(5,6) in \<open>auto intro: extends_refl was_read_other\<close>)

lemma node_ends:
  assumes "good st st1 A asg S P F (is_assigned st1)" "fl \<noteq> FNever" "\<not> is_var_expr e" "A \<subseteq> subtree a - {a}"
    and "asg \<subseteq> assigns e" "sure e \<Longrightarrow> S"
    and "\<And>tp. P tp \<Longrightarrow> at_node a fl (is_typed st1) tp \<Longrightarrow> accepted tp e a"
    and "\<And>tp. P tp \<Longrightarrow> at_node a fl (is_typed st1) tp \<Longrightarrow> live_expr tp e a = F tp"
  shows "node_typed e a st fl st1"
  by (rule node_plain [of _ _ A asg S P F]) (use assms in \<open>auto simp: assigned_after_def\<close>)

lemma node_literal:
  assumes "ex_kind e = EInt n \<or> ex_kind e = EFloat x \<or> ex_kind e = EBool b"
  shows "node_typed e a st (FValue t) st"
proof (rule node_plain)
  show "good st st {} {} True (\<lambda>tp. True) noop (assigned_after (FValue t) st)" using good_refl by simp
  show "accepted tp e a \<and> live_expr tp e a = noop tp" if "at_node a (FValue t) (is_typed st) tp" for tp
    using assms that by (auto simp: accepted.simps [of tp e a] live_kinds at_node_def has_value_def ty_at_def)
qed (use assms in \<open>auto simp: is_var_expr_def\<close>)

lemma at_node_value: "at_node a (FValue t) tp tp' \<Longrightarrow> has_value tp' a"
  by (simp add: at_node_def has_value_def ty_at_def)

lemma at_node_unit: "at_node a FUnit tp tp' \<Longrightarrow> \<not> has_value tp' a" "at_node a FUnit tp tp' \<Longrightarrow> not_never tp' a"
  by (simp_all add: at_node_def has_value_def ty_at_def not_never_def)

lemma node_values:
  assumes g: "all_valued (numbered a es) st st1" and "fresh (subtree a) st" and es: "set es \<subseteq> set (below (ex_kind e))"
    and e: "(\<exists>segs. ex_kind e = EStr segs \<and> es = seg_exprs segs) \<or> ex_kind e = EArray es"
  shows "node_typed e a st (FValue t) st1"
proof (rule node_plain)
  have sib: "siblings a (numbered a es)" by (rule siblings_numbered)
  show "good st st1 (places (numbered a es)) (all_assigns (numbered a es)) (all_sure (numbered a es))
      (\<lambda>tp. values_ok tp (accepted tp) (numbered a es)) (\<lambda>tp. live_seq (live_expr tp) (numbered a es))
      (assigned_after (FValue t) st1)"
    using good_values [OF sib g] fresh_sub [OF assms(2) places_siblings [OF sib]] by simp
  show "places (numbered a es) \<subseteq> subtree a - {a}" by (rule places_below [OF sib])
  have "snd ` set (numbered a es) \<subseteq> set (below (ex_kind e))" using es numbered_in by force
  from all_below [OF this] show "all_assigns (numbered a es) \<subseteq> assigns e" "sure e \<Longrightarrow> all_sure (numbered a es)" by blast+
  show "\<not> is_var_expr e" using e by (auto simp: is_var_expr_def)
  fix tp assume "values_ok tp (accepted tp) (numbered a es)" "at_node a (FValue t) (is_typed st1) tp"
  with e show "accepted tp e a \<and> live_expr tp e a = live_seq (live_expr tp) (numbered a es)"
    by (auto simp: accepted.simps [of tp e a] live_kinds at_node_value)
qed

lemma infer_string_valued:
  assumes "infer_string cx (kids f a es) st = Inr (t, st')" "sound_kids f (numbered a es)"
  shows "all_valued (numbered a es) st st'"
proof -
  let ?g = "\<lambda>c. bindI (value_of c None) (\<lambda>t. if t \<in> {NInt, NFloat, NBool, NStr} then accept ()
     else refuse (str ''interpolates a '' @ tick (cx_show cx t)))"
  have "eachI ?g (kids_of f (numbered a es)) st = Inr ((), st')"
    using assms(1) by (auto simp: infer_string_def kids_eq)
  then show ?thesis
    by (rule each_valued [OF _ assms(2)]) (auto intro: valued_run)
qed

lemma infer_array_valued:
  assumes "infer_array cx (kids f a es) expected st = Inr (t, st')" "sound_kids f (numbered a es)"
  shows "all_valued (numbered a es) st st'"
proof (cases "numbered a es")
  case Nil
  with assms(1) show ?thesis by (simp add: infer_array_def kids_eq)
next
  case (Cons y ys)
  obtain b x where y: "y = (b, x)" by force
  obtain ex t1 el st1 where head: "f x b ex st = Inr (FValue t1, st1)" "elem_of t1 = Some el"
      and rest: "eachI (\<lambda>c. bindI (value_of c (Some t1)) (\<lambda>other. if other = t1 then accept ()
        else refuse (str ''mixes '' @ tick (cx_show cx t1) @ str '' and '' @ tick (cx_show cx other) @ str '' in an array'')))
        (kids_of f ys) st1 = Inr ((), st')"
    using assms(1) by (auto simp: infer_array_def kids_eq Cons y Let_def split: option.splits)
  have "all_valued ys st1 st'"
    by (rule each_valued [OF rest]) (use assms(2) in \<open>auto simp: Cons y intro: valued_run\<close>)
  then show ?thesis using head assms(2) by (auto simp: Cons y intro: valued_run)
qed

lemma node_var:
  assumes e: "ex_kind e = EVar n" and run: "read_local cx n st = Inr (t, st1)" and "fresh (subtree a) st"
  shows "node_typed e a st (FValue t) st1"
proof -
  note r = good_read [OF run]
  show ?thesis
  proof (rule node_typedI)
    show "good st st {} {} True (\<lambda>tp. known_var tp n \<and> is_heap_var tp n = is_heap t) (\<lambda>tp. live_read tp a n)
        (assigned_after (FValue t) st)"
      using r(4) by simp
    show "is_assigned st1 = is_assigned st" "extends {a} (is_typed st) (is_typed st1)" using r(1) extends_refl by simp_all
    show "was_read e (FValue t) st1" using e r by (auto simp: was_read_def)
    fix tp assume "known_var tp n \<and> is_heap_var tp n = is_heap t" "at_node a (FValue t) (is_typed st1) tp"
    moreover from this have "tp_methods tp a = None" using assms(3) r(1) by (simp add: at_node_def fresh_def)
    ultimately show "accepted tp e a \<and> live_expr tp e a = live_read tp a n"
      using e by (simp add: accepted.simps [of tp e a] live_kinds at_node_value)
  qed simp_all
qed

subsection \<open>Assignments\<close>

lemma assigned_after_flow [simp]: "assigned_after (assigned_flow t) st = is_assigned st"
  by (simp add: assigned_flow_def)

lemma at_node_assigned:
  "at_node a (assigned_flow t) tp tp' \<Longrightarrow> not_never tp' a \<and> (has_value tp' a \<longleftrightarrow> \<not> is_heap t)"
  by (auto simp: at_node_def assigned_flow_def not_never_def has_value_def ty_at_def split: if_splits)

text \<open>An element: the array, then the index.\<close>

lemma element_run:
  assumes run: "element_target cx (kid f b r) (kids f c args) st = Inr (el, st')"
    and sound: "sound_run (f r b) r b" "sound_kids f (numbered c args)"
    and fresh: "fresh (subtree b) st" "fresh (subtree c) st" "subtree b \<inter> subtree c = {}"
  shows "length args = 1" "array_read r (NArray el) st'"
    and "good st st' (subtree b \<union> places (numbered c args)) (assigns r \<union> all_assigns (numbered c args))
      (sure r \<and> all_sure (numbered c args))
      (\<lambda>tp. value_ok r b (NArray el) tp \<and> values_ok tp (accepted tp) (numbered c args))
      (\<lambda>tp l. bindP (live_seq (live_expr tp) (numbered c args) l) (live_expr tp r b)) (is_assigned st')"
proof -
  obtain t st1 where r: "f r b None st = Inr (FValue t, st1)"
    using run by (auto simp: element_target_def)
  have "length (kids f c args) = 1"
    using run r by (cases t) (auto simp: element_target_def split: list.splits)
  then obtain i where args: "args = [i]"
    by (cases args; cases "tl args") (auto simp: kids_def numbered_def)
  have t: "t = NArray el" and i: "f i (0 # c) None st1 = Inr (FValue NInt, st')"
    using run r by (cases t; simp add: element_target_def kids_eq args numbered_def)+
  show "length args = 1" by (simp add: args)
  note v = sound_value [OF sound(1) r fresh(1)]
  have sib: "siblings c (numbered c args)" by (rule siblings_numbered)
  have vs: "all_valued (numbered c args) st1 st'"
    using i sound(2) by (auto simp: args numbered_def intro: valued_run)
  have disj: "subtree b \<inter> places (numbered c args) = {}" using places_siblings [OF sib] fresh(3) by blast
  have "fresh (places (numbered c args)) st1"
    by (rule fresh_good [OF fresh_sub [OF fresh(2) places_siblings [OF sib]] v(1) disj])
  from good_values [OF sib vs this] have gs: "good st1 st' (places (numbered c args)) (all_assigns (numbered c args))
      (all_sure (numbered c args)) (\<lambda>tp. values_ok tp (accepted tp) (numbered c args))
      (\<lambda>tp. live_seq (live_expr tp) (numbered c args)) (is_assigned st')" .
  from was_read_later [OF v(2) this] show "array_read r (NArray el) st'" by (simp add: t)
  from good_seq [OF v(1) gs disj] show "good st st' (subtree b \<union> places (numbered c args))
      (assigns r \<union> all_assigns (numbered c args)) (sure r \<and> all_sure (numbered c args))
      (\<lambda>tp. value_ok r b (NArray el) tp \<and> values_ok tp (accepted tp) (numbered c args))
      (\<lambda>tp l. bindP (live_seq (live_expr tp) (numbered c args) l) (live_expr tp r b)) (is_assigned st')"
    by (simp add: t)
qed

lemma good_store:
  assumes "store_elem cx r el item st = Inr ((), st')" "array_read r (NArray el) st"
  shows "good st st' {} {} True (\<lambda>tp. True) noop (is_assigned st')"
  by (rule good_still) (use store_elem_run [OF assms(1)] assms(2) in auto)

lemma good_expect:
  assumes "expect_ty cx e t want what st = Inr ((), st')" "array_read e t st"
  shows "good st st' {} {} True (\<lambda>tp. True) noop (is_assigned st')"
  by (rule good_still) (use expect_ty_run [OF assms(1)] assms(2) in auto)

lemma good_mutates:
  assumes "set_mutates st = Inr ((), st')"
  shows "good st st' {} {} True (\<lambda>tp. True) noop (is_assigned st')"
proof (rule good_still)
  show "extends {} (is_typed st) (is_typed st')"
    using assms by (auto simp: set_mutates_def extends_def tables_def flow_at_def intro: same_vars_grow)
qed (use assms in \<open>auto simp: set_mutates_def\<close>)

lemma assigns_parts:
  "ex_kind e = EAssign t v \<Longrightarrow> ex_kind t = EVar n \<Longrightarrow> n \<in> assigns e"
  "ex_kind e = EOpAssign op t v \<Longrightarrow> ex_kind t = EVar n \<Longrightarrow> n \<in> assigns e"
  by (simp_all add: assigns.simps [of e])

lemma target_below:
  assumes "ex_kind e = EAssign t v \<or> ex_kind e = EOpAssign op t v" "ex_kind t = EIndex r args"
  shows "assigns r \<subseteq> assigns e" "all_assigns (numbered c args) \<subseteq> assigns e" "sure e \<Longrightarrow> sure r"
    "sure e \<Longrightarrow> all_sure (numbered c args)"
proof -
  have "t \<in> set (below (ex_kind e))" "r \<in> set (below (ex_kind t))" using assms by (auto simp: below_def)
  then have t: "assigns t \<subseteq> assigns e" "sure e \<Longrightarrow> sure t" and r: "assigns r \<subseteq> assigns t" "sure t \<Longrightarrow> sure r"
    using assigns_below sure_below by blast+
  have "snd ` set (numbered c args) \<subseteq> set (below (ex_kind t))"
    using assms(2) numbered_in by (fastforce simp: below_def)
  from all_below [OF this] t r show "assigns r \<subseteq> assigns e" "all_assigns (numbered c args) \<subseteq> assigns e" "sure e \<Longrightarrow> sure r"
    "sure e \<Longrightarrow> all_sure (numbered c args)" by blast+
qed

lemma value_below:
  assumes "ex_kind e = EAssign t v \<or> ex_kind e = EOpAssign op t v"
  shows "assigns v \<subseteq> assigns e" "sure e \<Longrightarrow> sure v"
proof -
  have "v \<in> set (below (ex_kind e))" using assms by (auto simp: below_def)
  then show "assigns v \<subseteq> assigns e" "sure e \<Longrightarrow> sure v" using assigns_below sure_below by blast+
qed

lemma node_assign_var:
  assumes e: "ex_kind e = EAssign tg v" "ex_kind tg = EVar n"
    and v: "f v (1 # a) ex st = Inr (FValue t, st1)" "sound_run (f v (1 # a)) v (1 # a)"
    and d: "define_local cx n t st1 = Inr ((), st2)" and fresh: "fresh (subtree a) st"
  shows "node_typed e a st (assigned_flow t) st2"
proof -
  have "fresh (subtree (1 # a)) st" using fresh subtree_child by (rule fresh_sub)
  note g = good_seq [OF sound_value(1) [OF v(2,1) this] good_define [OF d, of a]]
  show ?thesis
  proof (rule node_plain)
    show "good st st2 (subtree (1 # a) \<union> {}) (assigns v \<union> {n}) (sure v \<and> True)
        (\<lambda>tp. value_ok v (1 # a) t tp \<and> known_var tp n \<and> is_heap_var tp n = is_heap t)
        (\<lambda>tp l. bindP (live_define tp a n l) (live_expr tp v (1 # a))) (assigned_after (assigned_flow t) st2)"
      using g by simp
    show "subtree (1 # a) \<union> {} \<subseteq> subtree a - {a}" using subtree_below by simp
    show "assigns v \<union> {n} \<subseteq> assigns e" "sure e \<Longrightarrow> sure v \<and> True"
      using assigns_parts(1) [OF e] value_below [of e tg v] e(1) by auto
    show "\<not> is_var_expr e" using e by (simp add: is_var_expr_def)
    fix tp assume "value_ok v (1 # a) t tp \<and> known_var tp n \<and> is_heap_var tp n = is_heap t"
      and "at_node a (assigned_flow t) (is_typed st2) tp"
    with e show "accepted tp e a \<and> live_expr tp e a = (\<lambda>l. bindP (live_define tp a n l) (live_expr tp v (1 # a)))"
      by (auto simp: accepted.simps [of tp e a] live_kinds value_ok_def dest: at_node_assigned)
  qed
qed

lemma node_assign_index:
  assumes e: "ex_kind e = EAssign tg v" "ex_kind tg = EIndex r args"
    and v: "f v (1 # a) None st = Inr (FValue item, st1)" "sound_run (f v (1 # a)) v (1 # a)"
    and el: "element_target cx (kid f (0 # 0 # a) r) (kids f (1 # 0 # a) args) st1 = Inr (el, st2)"
    and sound: "sound_run (f r (0 # 0 # a)) r (0 # 0 # a)" "sound_kids f (numbered (1 # 0 # a) args)"
    and store: "store_elem cx r el item st2 = Inr ((), st3)" "set_mutates st3 = Inr ((), st4)"
    and fresh: "fresh (subtree a) st"
  shows "node_typed e a st FUnit st4"
proof -
  have "fresh (subtree (1 # a)) st" using fresh subtree_child by (rule fresh_sub)
  note g = sound_value(1) [OF v(2,1) this]
  have sub: "subtree (0 # 0 # a) \<subseteq> subtree (0 # a)" "subtree (1 # 0 # a) \<subseteq> subtree (0 # a)" by (rule subtree_child)+
  have f1: "fresh (subtree (0 # a)) st1"
    by (rule fresh_later [OF g fresh subtree_child]) (simp add: subtree_disjoint)
  have "subtree (0 # 0 # a) \<inter> subtree (1 # 0 # a) = {}" by (simp add: subtree_disjoint)
  note el_run = element_run [OF el sound fresh_sub [OF f1 sub(1)] fresh_sub [OF f1 sub(2)] this]
  note g2 = good_seq [OF good_seq [OF el_run(3) good_store [OF store(1) el_run(2)]] good_mutates [OF store(2)]]
  let ?A = "subtree (0 # 0 # a) \<union> places (numbered (1 # 0 # a) args)"
  have A: "?A \<subseteq> subtree (0 # a)" using sub places_siblings [OF siblings_numbered] by blast
  then have disj: "subtree (1 # a) \<inter> ?A = {}" using subtree_disjoint [of 1 0 a] by auto
  show ?thesis
  proof (rule node_plain)
    show "good st st4 (subtree (1 # a) \<union> ?A) (assigns v \<union> (assigns r \<union> all_assigns (numbered (1 # 0 # a) args)))
        (sure v \<and> (sure r \<and> all_sure (numbered (1 # 0 # a) args)))
        (\<lambda>tp. value_ok v (1 # a) item tp \<and> value_ok r (0 # 0 # a) (NArray el) tp \<and>
          values_ok tp (accepted tp) (numbered (1 # 0 # a) args))
        (\<lambda>tp l. bindP (bindP (live_seq (live_expr tp) (numbered (1 # 0 # a) args) l) (live_expr tp r (0 # 0 # a)))
          (live_expr tp v (1 # a))) (assigned_after FUnit st4)"
      using good_seq [OF g g2] disj by simp
    show "subtree (1 # a) \<union> ?A \<subseteq> subtree a - {a}" using A subtree_below by blast
    show "assigns v \<union> (assigns r \<union> all_assigns (numbered (1 # 0 # a) args)) \<subseteq> assigns e"
      "sure e \<Longrightarrow> sure v \<and> (sure r \<and> all_sure (numbered (1 # 0 # a) args))"
      using target_below [of e tg v _ r args] value_below [of e tg v] e by simp_all
    show "\<not> is_var_expr e" using e by (simp add: is_var_expr_def)
    fix tp assume "value_ok v (1 # a) item tp \<and> value_ok r (0 # 0 # a) (NArray el) tp \<and>
        values_ok tp (accepted tp) (numbered (1 # 0 # a) args)" and "at_node a FUnit (is_typed st4) tp"
    with e el_run(1) show "accepted tp e a \<and> live_expr tp e a =
        (\<lambda>l. bindP (bindP (live_seq (live_expr tp) (numbered (1 # 0 # a) args) l) (live_expr tp r (0 # 0 # a)))
          (live_expr tp v (1 # a)))"
      by (auto simp: accepted.simps [of tp e a] live_kinds value_ok_def bindP_assoc dest: at_node_unit)
  qed
qed

lemma binary_types_run: "binary_types cx op l r st = Inr (t, st') \<Longrightarrow> st' = st"
  by (auto simp: binary_types_def Let_def split: if_splits)

lemma good_set_type:
  assumes "set_type b fl st = Inr ((), st')"
  shows "good st st' {b} {} True (\<lambda>tp. True) noop (is_assigned st')"
  by (rule good_still) (use assms extends_set_type in \<open>auto simp: set_type_def\<close>)

lemma fresh_set_type: "set_type b fl st = Inr ((), st') \<Longrightarrow> fresh A st \<Longrightarrow> fresh A st'"
  by (auto simp: set_type_def fresh_def)

lemma node_op_assign_var:
  assumes e: "ex_kind e = EOpAssign op tg v" "ex_kind tg = EVar n"
    and r: "read_local cx n st = Inr (cur, st1)" "set_type (0 # a) (FValue cur) st1 = Inr ((), st2)"
    and v: "f v (1 # a) None st2 = Inr (FValue rhs, st3)" "sound_run (f v (1 # a)) v (1 # a)"
    and d: "define_local cx n t st3 = Inr ((), st4)" and fresh: "fresh (subtree a) st"
  shows "node_typed e a st (assigned_flow t) st4"
proof -
  note read = good_read(1,4) [OF r(1)]
  have "fresh (subtree a) st2" using fresh_set_type [OF r(2)] fresh read(1) by simp
  then have "fresh (subtree (1 # a)) st2" using subtree_child by (rule fresh_sub)
  note gv = good_seq [OF sound_value(1) [OF v(2,1) this] good_define [OF d, of a] Int_empty_right]
  have disj: "({} \<union> {0 # a}) \<inter> (subtree (1 # a) \<union> {}) = {}" using subtree_disjoint [of 0 1 a] by auto
  note g = good_seq [OF good_seq [OF read(2) [of "0 # a"] good_set_type [OF r(2) [unfolded read(1)]] Int_empty_left] gv disj]
  show ?thesis
  proof (rule node_ends [OF g], goal_cases)
    case 3
    show ?case by (intro Un_least below_node) simp_all
  next
    case 4
    show ?case using assigns_parts(2) [OF e] value_below [of e tg v op] e(1) by simp
  next
    case 5
    then show ?case using value_below [of e tg v op] e(1) by simp
  next
    case (6 tp)
    then show ?case using e by (auto simp: accepted.simps [of tp e a] value_ok_def dest: at_node_assigned)
  qed (use e in \<open>simp_all add: is_var_expr_def assigned_flow_def live_kinds bindP_assoc\<close>)
qed

lemma node_op_assign_index:
  assumes e: "ex_kind e = EOpAssign op tg v" "ex_kind tg = EIndex r args"
    and el: "element_target cx (kid f (0 # 0 # a) r) (kids f (1 # 0 # a) args) st = Inr (el, st1)"
    and sound: "sound_run (f r (0 # 0 # a)) r (0 # 0 # a)" "sound_kids f (numbered (1 # 0 # a) args)"
    and ty: "set_type (0 # a) (FValue cur) st1 = Inr ((), st2)"
    and v: "f v (1 # a) None st2 = Inr (FValue rhs, st3)" "sound_run (f v (1 # a)) v (1 # a)"
    and store: "store_elem cx r el t st3 = Inr ((), st4)" "set_mutates st4 = Inr ((), st5)"
    and fresh: "fresh (subtree a) st"
  shows "node_typed e a st FUnit st5"
proof -
  let ?A = "subtree (0 # 0 # a) \<union> places (numbered (1 # 0 # a) args)"
  have sub: "subtree (0 # 0 # a) \<subseteq> subtree a" "subtree (1 # 0 # a) \<subseteq> subtree a" by (rule subtree_grandchild)+
  have "subtree (0 # 0 # a) \<inter> subtree (1 # 0 # a) = {}" by (simp add: subtree_disjoint)
  note el_run = element_run [OF el sound fresh_sub [OF fresh sub(1)] fresh_sub [OF fresh sub(2)] this]
  have A: "?A \<subseteq> subtree (0 # a) - {0 # a}"
    using subtree_below [of 0 "0 # a"] subtree_below [of 1 "0 # a"] places_siblings [OF siblings_numbered] by blast
  then have disj: "?A \<inter> {0 # a} = {}" "(?A \<union> {0 # a}) \<inter> subtree (1 # a) = {}" "?A \<inter> subtree (1 # a) = {}"
    using subtree_disjoint [of 0 1 a] by auto
  have "fresh (subtree (1 # a)) st1" by (rule fresh_later [OF el_run(3) fresh subtree_child disj(3)])
  then have f: "fresh (subtree (1 # a)) st2" by (rule fresh_set_type [OF ty])
  note gv = sound_value(1) [OF v(2,1) f]
  have reads: "array_read r (NArray el) st3"
    by (rule array_read_later [OF array_read_later [OF el_run(2) good_set_type [OF ty]] gv])
  have disj0: "subtree (1 # a) \<inter> ({} \<union> {}) = {}" by simp
  have disj': "(?A \<union> {0 # a}) \<inter> (subtree (1 # a) \<union> ({} \<union> {})) = {}" using disj(2) by blast
  note g = good_seq [OF good_seq [OF el_run(3) good_set_type [OF ty] disj(1)]
    good_seq [OF gv good_seq [OF good_store [OF store(1) reads] good_mutates [OF store(2)] Int_empty_left] disj0] disj']
  show ?thesis
  proof (rule node_ends [OF g], goal_cases)
    case 3
    show ?case by (intro Un_least below_node) simp_all
  next
    case 4
    show ?case using target_below [of e tg v op r args] value_below [of e tg v op] e by simp
  next
    case 5
    then show ?case using target_below [of e tg v op r args] value_below [of e tg v op] e by simp
  next
    case (6 tp)
    then show ?case using e el_run(1) by (simp add: accepted.simps [of tp e a] value_ok_def at_node_unit)
  qed (use e in \<open>simp_all add: is_var_expr_def live_kinds\<close>)
qed

end
