(* ===== verification/Infer_Flow.thy ===== *)
theory Infer_Flow
  imports Infer_Nodes
begin

text \<open>
  The typing of operators and of control flow: what a branch or a loop assigns is not certain after it.
\<close>

subsection \<open>Two runs and an analysis that joins theirs\<close>

definition flowing :: "typed \<Rightarrow> rtext set \<Rightarrow> (live \<Rightarrow> live planned) \<Rightarrow> rtext set \<Rightarrow> bool" where
  "flowing tp as F after \<longleftrightarrow> (\<forall>l l0 w. F l = Some (l0, w) \<longrightarrow> flows tp as l0 after l)"

lemma flowingI:
  "(\<And>l l0 w. F l = Some (l0, w) \<Longrightarrow> flows tp as l0 after l) \<Longrightarrow> flowing tp as F after"
  by (simp add: flowing_def)

lemma flowingD: "flowing tp as F after \<Longrightarrow> F l = Some (l0, w) \<Longrightarrow> flows tp as l0 after l"
  by (simp add: flowing_def)

lemma good_flowing:
  "good st st' A asg S P F after \<Longrightarrow> extends (- A) (is_typed st') tp \<Longrightarrow> S \<Longrightarrow> flowing tp (is_assigned st) (F tp) after"
  by (rule flowingI) (rule good_holds(2))

text \<open>A run, then the variables assigned are set to what they were at some point, and another run.\<close>

lemma good_join:
  assumes 1: "good st st1 A asg1 S1 P F after1" and 2: "good st1' st2 B asg2 S2 Q G after2"
    and st1': "is_typed st1' = is_typed st1" "is_assigned st1' \<subseteq> is_assigned st \<union> asg" and AB: "A \<inter> B = {}"
    and st3: "is_typed st3 = is_typed st2" "is_assigned st3 \<subseteq> is_assigned st \<union> asg" "keeps st st3"
    and H: "\<And>tp. S \<Longrightarrow> Q tp \<Longrightarrow> flowing tp (is_assigned st) (F tp) after1 \<Longrightarrow> flowing tp (is_assigned st1') (G tp) after2 \<Longrightarrow>
      flowing tp (is_assigned st) (H tp) after"
    and S: "S \<Longrightarrow> S1 \<and> S2"
  shows "good st st3 (A \<union> B) asg S (\<lambda>tp. P tp \<and> Q tp) H after"
proof -
  have e1: "extends (- A) (is_typed st1) tp" and e2: "extends (- B) (is_typed st2) tp"
    if "extends (- (A \<union> B)) (is_typed st3) tp" for tp
  proof -
    show "extends (- A) (is_typed st1) tp"
      using extends_trans [OF good_parts(1) [OF 2]] that AB st1' st3 by (rule_tac extends_mono) auto
    show "extends (- B) (is_typed st2) tp" using that st3 by (rule_tac extends_mono) auto
  qed
  show ?thesis
  proof (rule goodI)
    show "extends (A \<union> B) (is_typed st) (is_typed st3)"
      using extends_trans [OF good_parts(1) [OF 1]] good_parts(1) [OF 2] st1' st3 by simp
    fix tp assume tp: "extends (- (A \<union> B)) (is_typed st3) tp"
    then show Q: "P tp \<and> Q tp" using e1 e2 good_holds(1) [OF 1] good_holds(1) [OF 2] by blast
    fix l l0 w assume *: "S" "H tp l = Some (l0, w)"
    have "flowing tp (is_assigned st) (H tp) after"
      using H [OF *(1)] Q good_flowing [OF 1 e1 [OF tp]] good_flowing [OF 2 e2 [OF tp]] S *(1) by blast
    then show "flows tp (is_assigned st) l0 after l" using *(2) by (rule flowingD)
  qed (use st3 in simp_all)
qed

lemma edges_live: "live_edges a ed1 ed2 l1 l2 = Some (l, w) \<Longrightarrow> l = l1 \<union> l2"
  by (auto simp: live_edges_def Let_def)

subsection \<open>Operators\<close>

text \<open>An operand that may be skipped and assigns nothing.\<close>

lemma flowing_skip:
  assumes "flowing tp as F as1" "flowing tp as1 G as2" "as2 \<subseteq> as1"
  shows "flowing tp as (\<lambda>l. bindP (G l) (\<lambda>r. bindP (live_edges a ed1 ed2 r l) F)) as2"
proof (rule flowingI)
  fix l l0 w assume "bindP (G l) (\<lambda>r. bindP (live_edges a ed1 ed2 r l) F) = Some (l0, w)"
  then obtain r w1 w2 where 1: "G l = Some (r, w1)" "bindP (live_edges a ed1 ed2 r l) F = Some (l0, w2)"
    by (rule bindP_SomeE)
  from 1(2) obtain d w3 w4 where 2: "live_edges a ed1 ed2 r l = Some (d, w3)" "F d = Some (l0, w4)"
    by (rule bindP_SomeE)
  have "flows tp as l0 as1 d" "flows tp as1 r as2 l" using flowingD [OF assms(1) 2(2)] flowingD [OF assms(2) 1(1)] .
  then show "flows tp as l0 as2 l" using edges_live [OF 2(1)] assms(3) unfolding flows_def by blast
qed

lemma node_binary:
  assumes e: "ex_kind e = EBinary op l r"
    and run: "infer_binary cx op (kid f (0 # a) l) (kid f (1 # a) r) st = Inr (fl, st')"
    and sound: "sound_run (f l (0 # a)) l (0 # a)" "sound_run (f r (1 # a)) r (1 # a)" and fresh: "fresh (subtree a) st"
  shows "node_typed e a st fl st'"
proof -
  obtain lt st1 where l: "f l (0 # a) None st = Inr (FValue lt, st1)"
    using run unfolding infer_binary_def bindI_Inr value_of_kid by blast
  note gl = sound_value [OF sound(1) l fresh_sub [OF fresh subtree_child]]
  have disj: "subtree (0 # a) \<inter> subtree (1 # a) = {}" by (simp add: subtree_disjoint)
  note fr = fresh_later [OF gl(1) fresh subtree_child disj]
  have in_e: "l \<in> set (below (ex_kind e))" "r \<in> set (below (ex_kind e))" using e by (simp_all add: below_def)
  have "sure e \<Longrightarrow> op \<in> {OpAnd, OpOr} \<Longrightarrow> assigns r = {}" using e by (subst (asm) sure.simps) auto
  with in_e have parts: "assigns l \<subseteq> assigns e" "assigns r \<subseteq> assigns e" "sure e \<Longrightarrow> sure l \<and> sure r"
    "sure e \<Longrightarrow> op \<in> {OpAnd, OpOr} \<Longrightarrow> assigns r = {}"
    using assigns_below sure_below by blast+
  have not_var: "\<not> is_var_expr e" using e by (simp add: is_var_expr_def)
  show ?thesis
  proof (cases "op = OpShl \<and> is_array lt")
    case True
    then obtain el where el: "lt = NArray el" by (cases lt) auto
    with run l True obtain item st2 st3 where r: "f r (1 # a) (elem_ty el) st1 = Inr (FValue item, st2)"
        and store: "store_elem cx l el item st2 = Inr ((), st3)" "set_mutates st3 = Inr ((), st')" and fl: "fl = FUnit"
      by (auto simp: infer_binary_def) (auto simp: kid_def)
    note gr = sound_value(1) [OF sound(2) r fr]
    have "array_read l (NArray el) st2" using was_read_later [OF gl(2) gr] by (simp add: el)
    note gs = good_seq [OF good_store [OF store(1) this] good_mutates [OF store(2)] Int_empty_left]
    have d: "(subtree (0 # a) \<union> subtree (1 # a)) \<inter> ({} \<union> {}) = {}" by simp
    show ?thesis
    proof (rule node_ends [OF good_seq [OF good_seq [OF gl(1) gr disj] gs d]], goal_cases)
      case 3
      show ?case by (intro Un_least below_node) simp_all
    next
      case (6 tp)
      then show ?case using e True el fl by (simp add: accepted.simps [of tp e a] value_ok_def at_node_unit)
    qed (use fl not_var parts e True in \<open>simp_all add: live_kinds\<close>)
  next
    case False
    with run l obtain t r_ty ex st2 where r: "f r (1 # a) ex st1 = Inr (FValue r_ty, st2)"
        and b: "binary_types cx op lt r_ty st2 = Inr (t, st')" and fl: "fl = FValue t"
      by (cases op; cases lt) (auto simp: infer_binary_def)
    have st': "st' = st2" by (rule binary_types_run [OF b])
    note gr = sound_value(1) [OF sound(2) r fr]
    have acc: "accepted tp e a" if "value_ok l (0 # a) lt tp \<and> value_ok r (1 # a) r_ty tp" "at_node a fl (is_typed st') tp" for tp
      using that e False fl has_value_ends by (auto simp: accepted.simps [of tp e a] value_ok_def at_node_value)
    show ?thesis
    proof (cases "op \<in> {OpAnd, OpOr}")
      case logic: True
      let ?H = "\<lambda>tp l'. bindP (live_expr tp r (1 # a) l') (\<lambda>rl.
          bindP (live_edges a Edge_Rhs Edge_Skip rl l') (live_expr tp l (0 # a)))"
      have g: "good st st' (subtree (0 # a) \<union> subtree (1 # a)) (assigns l \<union> assigns r) (sure l \<and> sure r \<and> assigns r = {})
        (\<lambda>tp. value_ok l (0 # a) lt tp \<and> value_ok r (1 # a) r_ty tp) ?H (is_assigned st')"
      proof (rule good_join [OF gl(1) gr refl _ disj])
        show "keeps st st'" using keeps_trans [OF good_parts(3,1) [OF gl(1)] good_parts(3) [OF gr]] st' by simp
        fix tp assume "sure l \<and> sure r \<and> assigns r = {}" "flowing tp (is_assigned st) (live_expr tp l (0 # a)) (is_assigned st1)"
          "flowing tp (is_assigned st1) (live_expr tp r (1 # a)) (is_assigned st2)"
        then show "flowing tp (is_assigned st) (?H tp) (is_assigned st')"
          using flowing_skip good_parts(2) [OF gr] st' by simp
      qed (use good_parts(2) [OF gl(1)] good_parts(2) [OF gr] st' in auto)
      show ?thesis
      proof (rule node_ends [OF g], goal_cases)
        case 3
        show ?case by (intro Un_least below_node)
      qed (use fl not_var parts e logic acc in \<open>simp_all add: live_kinds\<close>)
    next
      case strict: False
      show ?thesis
      proof (rule node_ends [OF good_seq [OF gl(1) gr [folded st'] disj]], goal_cases)
        case 3
        show ?case by (intro Un_least below_node)
      qed (use fl not_var parts e strict acc in \<open>simp_all add: live_kinds\<close>)
    qed
  qed
qed

lemma node_unary:
  assumes e: "ex_kind e = EUnary op x" and run: "infer_unary cx op (kid f (0 # a) x) st = Inr (t, st')"
    and sound: "sound_run (f x (0 # a)) x (0 # a)" and fresh: "fresh (subtree a) st"
  shows "node_typed e a st (FValue t) st'"
proof -
  have x: "f x (0 # a) None st = Inr (FValue t, st')"
    using run by (auto simp: infer_unary_def split: if_splits)
  have "x \<in> set (below (ex_kind e))" using e by (simp add: below_def)
  then have parts: "assigns x \<subseteq> assigns e" "sure e \<Longrightarrow> sure x" using assigns_below sure_below by blast+
  note g = sound_value(1) [OF sound x fresh_sub [OF fresh subtree_child]]
  show ?thesis
  proof (rule node_ends [OF g], goal_cases)
    case (6 tp)
    then show ?case using e by (simp add: accepted.simps [of tp e a] value_ok_def at_node_value)
  qed (use e parts subtree_below in \<open>auto simp: is_var_expr_def live_kinds\<close>)
qed

subsection \<open>Returns, branches and loops\<close>

lemma node_return:
  assumes e: "ex_kind e = EReturn v" and ret: "ix_ret cx = Some r"
    and run: "infer_return cx (map_option (\<lambda>x. kid f (0 # a) x) v) st = Inr (fl, st')"
    and sound: "\<And>x. v = Some x \<Longrightarrow> sound_run (f x (0 # a)) x (0 # a)" and fresh: "fresh (subtree a) st"
  shows "node_typed e a st fl st'"
proof -
  obtain x t st1 where v: "v = Some x" and x: "f x (0 # a) (Some r) st = Inr (FValue t, st1)"
      and ex: "expect_ty cx x t r (str ''returns'') st1 = Inr ((), st')" and fl: "fl = FNever"
    using run ret by (cases v) (auto simp: infer_return_def kid_def)
  note g = sound_value [OF sound [OF v] x fresh_sub [OF fresh subtree_child]]
  note g1 = good_seq [OF g(1) good_expect [OF ex was_read_array [OF g(2)]] Int_empty_right]
  have "x \<in> set (below (ex_kind e))" using e v by (simp add: below_def option_list_def)
  then have parts: "assigns x \<subseteq> assigns e" "sure e \<Longrightarrow> sure x" using assigns_below sure_below by blast+
  have "good st st' (subtree (0 # a)) (assigns x) (sure x) (value_ok x (0 # a) t) (\<lambda>tp l. live_expr tp x (0 # a) {}) UNIV"
  proof (rule goodI)
    fix tp l l0 w assume tp: "extends (- subtree (0 # a)) (is_typed st') tp"
    then show "value_ok x (0 # a) t tp" using good_holds(1) [OF g1] by simp
    assume "sure x" "live_expr tp x (0 # a) {} = Some (l0, w)"
    then have "flows tp (is_assigned st) l0 (is_assigned st') {}" using good_holds(2) [OF g1] tp by simp
    then show "flows tp (is_assigned st) l0 UNIV l" by (auto simp: flows_def)
  qed (use good_parts [OF g1] in simp_all)
  then have g2: "good st st' (subtree (0 # a)) (assigns x) (sure x) (value_ok x (0 # a) t)
      (\<lambda>tp l. live_expr tp x (0 # a) {}) (assigned_after FNever st')" by simp
  show ?thesis unfolding fl
  proof (rule node_plain [OF g2], goal_cases)
    case (5 tp)
    with e v show ?case by (simp add: accepted.simps [of tp e a] live_kinds value_ok_def at_node_def)
  qed (use e parts subtree_below in \<open>simp_all add: is_var_expr_def\<close>)
qed

lemma flowing_if:
  assumes "flowing tp as C asc" "flowing tp asc F (assigned_after t st1)" "flowing tp asc G (assigned_after u st2)"
    and "\<not> both \<Longrightarrow> u = FUnit \<and> is_assigned st2 = asc \<and> G = (\<lambda>l. Some (l, Map.empty))"
    and "is_assigned st3 = if_assigned t u (is_assigned st1) (is_assigned st2)"
  shows "flowing tp as (\<lambda>l. bindP (F l) (\<lambda>l1. bindP (G l) (\<lambda>l2. bindP (live_edges a ed1 ed2 l1 l2) C)))
    (assigned_after (if_flow t u both) st3)"
proof (rule flowingI)
  fix l l0 w assume "bindP (F l) (\<lambda>l1. bindP (G l) (\<lambda>l2. bindP (live_edges a ed1 ed2 l1 l2) C)) = Some (l0, w)"
  then obtain l1 w1 w1' where 1: "F l = Some (l1, w1)" "bindP (G l) (\<lambda>l2. bindP (live_edges a ed1 ed2 l1 l2) C) = Some (l0, w1')"
    by (rule bindP_SomeE)
  from 1(2) obtain l2 w2 w2' where 2: "G l = Some (l2, w2)" "bindP (live_edges a ed1 ed2 l1 l2) C = Some (l0, w2')"
    by (rule bindP_SomeE)
  from 2(2) obtain d w3 w4 where 3: "live_edges a ed1 ed2 l1 l2 = Some (d, w3)" "C d = Some (l0, w4)"
    by (rule bindP_SomeE)
  have c: "flows tp as l0 asc d" using flowingD [OF assms(1) 3(2)] .
  have t: "flows tp asc l1 (assigned_after t st1) l" using flowingD [OF assms(2) 1(1)] .
  have u: "flows tp asc l2 (assigned_after u st2) l" using flowingD [OF assms(3) 2(1)] .
  have d: "d = l1 \<union> l2" by (rule edges_live [OF 3(1)])
  have "if_flow t u both = FNever \<longleftrightarrow> t = FNever \<and> u = FNever"
    using assms(4) by (cases t; cases u) (auto simp: if_flow_def)
  then show "flows tp as l0 (assigned_after (if_flow t u both) st3) l"
    using c t u unfolding d flows_def assigned_after_def assms(5) if_assigned_def by (auto split: if_splits)
qed

text \<open>The branches: the second one starts from what the condition left assigned.\<close>

lemma good_if:
  assumes c: "good st stc A ac Sc Pc Fc (is_assigned stc)" and t: "good stc st1 B at St Pt Ft (assigned_after t st1)"
    and u: "good (st1\<lparr>is_assigned := is_assigned stc\<rparr>) st2 C au Su Pu Fu (assigned_after u st2)"
    and apart: "A \<inter> B = {}" "(A \<union> B) \<inter> C = {}"
    and none: "\<not> both \<Longrightarrow> u = FUnit \<and> is_assigned st2 = is_assigned stc \<and> (\<forall>tp. Fu tp = (\<lambda>l. Some (l, Map.empty)))"
    and st3: "st3 = st2\<lparr>is_assigned := if_assigned t u (is_assigned st1) (is_assigned st2)\<rparr>"
  shows "good st st3 (A \<union> B \<union> C) (ac \<union> at \<union> au) (Sc \<and> St \<and> Su) (\<lambda>tp. (Pc tp \<and> Pt tp) \<and> Pu tp)
    (\<lambda>tp l. bindP (Ft tp l) (\<lambda>l1. bindP (Fu tp l) (\<lambda>l2. bindP (live_edges a ed1 ed2 l1 l2) (Fc tp))))
    (assigned_after (if_flow t u both) st3)"
proof (rule goodI)
  let ?st1' = "st1\<lparr>is_assigned := is_assigned stc\<rparr>"
  have st1': "is_typed ?st1' = is_typed st1" "is_typed st3 = is_typed st2" by (simp_all add: st3)
  have ext: "extends A (is_typed st) (is_typed stc)" "extends B (is_typed stc) (is_typed st1)" "extends C (is_typed st1) (is_typed st3)"
    using good_parts(1) [OF c] good_parts(1) [OF t] good_parts(1) [OF u] by (simp_all add: st3)
  show "extends (A \<union> B \<union> C) (is_typed st) (is_typed st3)" using extends_trans [OF extends_trans [OF ext(1,2)] ext(3)] .
  have asg: "is_assigned stc \<subseteq> is_assigned st \<union> ac" "is_assigned st1 \<subseteq> is_assigned stc \<union> at"
      "is_assigned st2 \<subseteq> is_assigned stc \<union> au"
    using good_parts(2) [OF c] good_parts(2) [OF t] good_parts(2) [OF u] by simp_all
  show "is_assigned st3 \<subseteq> is_assigned st \<union> (ac \<union> at \<union> au)"
    using asg by (auto simp: st3 if_assigned_def split: if_splits)
  have k1: "keeps st st1" using keeps_trans [OF good_parts(3,1) [OF c] good_parts(3) [OF t]] .
  have "keeps stc ?st1'" by (simp add: keeps_def)
  then have "keeps stc st2"
    by (rule keeps_trans) (use good_parts(3) [OF u] ext in auto)
  then have k2: "keeps st st2" using keeps_trans [OF good_parts(3,1) [OF c]] by blast
  show "keeps st st3" using k1 k2 by (auto simp: keeps_def st3 if_assigned_def)
  fix tp assume tp: "extends (- (A \<union> B \<union> C)) (is_typed st3) tp"
  have e3: "extends (- C) (is_typed st2) tp" using tp by (rule_tac extends_mono) (auto simp: st3)
  have e2: "extends (- B) (is_typed st1) tp"
    using extends_trans [OF ext(3) tp] apart by (rule_tac extends_mono) auto
  have e1: "extends (- A) (is_typed stc) tp"
    using extends_trans [OF extends_trans [OF ext(2,3)] tp] apart by (rule_tac extends_mono) auto
  show "(Pc tp \<and> Pt tp) \<and> Pu tp" using good_holds(1) [OF c e1] good_holds(1) [OF t e2] good_holds(1) [OF u e3] by simp
  assume S: "Sc \<and> St \<and> Su"
  have "flowing tp (is_assigned st) (\<lambda>l. bindP (Ft tp l) (\<lambda>l1. bindP (Fu tp l) (\<lambda>l2. bindP (live_edges a ed1 ed2 l1 l2) (Fc tp))))
      (assigned_after (if_flow t u both) st3)"
  proof (rule flowing_if)
    show "flowing tp (is_assigned st) (Fc tp) (is_assigned stc)" using good_flowing [OF c e1] S by blast
    show "flowing tp (is_assigned stc) (Ft tp) (assigned_after t st1)" using good_flowing [OF t e2] S by blast
    show "flowing tp (is_assigned stc) (Fu tp) (assigned_after u st2)" using good_flowing [OF u e3] S by simp
    show "u = FUnit \<and> is_assigned st2 = is_assigned stc \<and> Fu tp = (\<lambda>l. Some (l, Map.empty))" if "\<not> both"
      using none [OF that] by blast
    show "is_assigned st3 = if_assigned t u (is_assigned st1) (is_assigned st2)" by (simp add: st3)
  qed
  then show "bindP (Ft tp l) (\<lambda>l1. bindP (Fu tp l) (\<lambda>l2. bindP (live_edges a ed1 ed2 l1 l2) (Fc tp))) = Some (l0, w) \<Longrightarrow>
      flows tp (is_assigned st) l0 (assigned_after (if_flow t u both) st3) l" for l l0 w
    by (rule flowingD)
qed

lemma condition_run:
  assumes "condition cx (kid f b x) st = Inr ((), st')"
  shows "f x b None st = Inr (FValue NBool, st')"
  using assms by (auto simp: condition_def)

lemma list_below:
  assumes "set es \<subseteq> set (below (ex_kind e))"
  shows "all_assigns (numbered c es) \<subseteq> assigns e" "sure e \<Longrightarrow> all_sure (numbered c es)"
proof -
  have "snd ` set (numbered c es) \<subseteq> set (below (ex_kind e))" using assms numbered_in by force
  from all_below [OF this] show "all_assigns (numbered c es) \<subseteq> assigns e" "sure e \<Longrightarrow> all_sure (numbered c es)" .
qed

lemma kid_below:
  assumes "x \<in> set (below (ex_kind e))"
  shows "assigns x \<subseteq> assigns e" "sure e \<Longrightarrow> sure x"
  using assms assigns_below sure_below by blast+

lemma places_disjoint: "i \<noteq> j \<Longrightarrow> subtree (i # a) \<inter> places (numbered (j # a) es) = {}"
  "i \<noteq> j \<Longrightarrow> places (numbered (i # a) es) \<inter> places (numbered (j # a) es') = {}"
  using apart [OF order_refl places_in] apart [OF places_in places_in] by blast+

text \<open>A list of statements at the \<open>i\<close>-th child.\<close>

lemma good_body:
  assumes "infer_stmts (kids f (i # a) es) expected st = Inr (fl, st')" "sound_kids f (numbered (i # a) es)"
    and "fresh (subtree (i # a)) st"
  shows "good st st' (places (numbered (i # a) es)) (all_assigns (numbered (i # a) es)) (all_sure (numbered (i # a) es))
    (\<lambda>tp. statements_ok tp (accepted tp) (numbered (i # a) es) \<and> last_flow (numbered (i # a) es) fl tp)
    (\<lambda>tp. live_seq (live_expr tp) (numbered (i # a) es)) (assigned_after fl st')"
  by (rule good_stmts [OF assms(1) [unfolded kids_eq] siblings_numbered assms(2) fresh_sub [OF assms(3) places_in]])

definition else_live :: "addr \<Rightarrow> expr list option \<Rightarrow> typed \<Rightarrow> live \<Rightarrow> live planned" where
  "else_live a els tp = (case els of None \<Rightarrow> (\<lambda>l. Some (l, Map.empty))
     | Some es \<Rightarrow> live_seq (live_expr tp) (numbered (2 # a) es))"

definition else_ok :: "addr \<Rightarrow> expr list option \<Rightarrow> flow \<Rightarrow> typed \<Rightarrow> bool" where
  "else_ok a els fl tp \<longleftrightarrow> (case els of None \<Rightarrow> fl = FUnit
     | Some es \<Rightarrow> statements_ok tp (accepted tp) (numbered (2 # a) es) \<and> last_flow (numbered (2 # a) es) fl tp)"

definition else_list :: "expr list option \<Rightarrow> expr list" where
  "else_list els = (case els of None \<Rightarrow> [] | Some es \<Rightarrow> es)"

lemma good_else:
  assumes run: "(case map_option (\<lambda>es. kids f (2 # a) es) els of None \<Rightarrow> accept FUnit | Some cs \<Rightarrow> infer_stmts cs expected) st
      = Inr (fl, st')"
    and sound: "sound_kids f (numbered (2 # a) (else_list els))" "fresh (subtree (2 # a)) st"
  shows "good st st' (places (numbered (2 # a) (else_list els))) (all_assigns (numbered (2 # a) (else_list els)))
      (all_sure (numbered (2 # a) (else_list els))) (else_ok a els fl) (else_live a els) (assigned_after fl st')"
    and "els = None \<Longrightarrow> fl = FUnit \<and> is_assigned st' = is_assigned st \<and> (\<forall>tp. else_live a els tp = (\<lambda>l. Some (l, Map.empty)))"
proof -
  show "good st st' (places (numbered (2 # a) (else_list els))) (all_assigns (numbered (2 # a) (else_list els)))
      (all_sure (numbered (2 # a) (else_list els))) (else_ok a els fl) (else_live a els) (assigned_after fl st')"
  proof (cases els)
    case None
    with run have "fl = FUnit" "st' = st" by auto
    with None good_weaken [OF good_refl, of "{}" "{}" True st "else_ok a els fl" "else_live a els"] show ?thesis
      by (simp add: else_list_def else_ok_def else_live_def numbered_def)
  next
    case (Some es)
    then have "else_ok a els fl = (\<lambda>tp. statements_ok tp (accepted tp) (numbered (2 # a) es) \<and> last_flow (numbered (2 # a) es) fl tp)"
        "else_live a els = (\<lambda>tp. live_seq (live_expr tp) (numbered (2 # a) es))" "else_list els = es"
      by (simp_all add: fun_eq_iff else_ok_def else_live_def else_list_def)
    with good_body [of f 2 a es expected st fl st'] run sound Some show ?thesis by simp
  qed
  show "els = None \<Longrightarrow> fl = FUnit \<and> is_assigned st' = is_assigned st \<and> (\<forall>tp. else_live a els tp = (\<lambda>l. Some (l, Map.empty)))"
    using run by (auto simp: else_live_def)
qed

lemma node_if:
  assumes e: "ex_kind e = EIf cond thn els"
    and run: "infer_if cx (kid f (0 # a) cond) (kids f (1 # a) thn) (map_option (\<lambda>es. kids f (2 # a) es) els) expected st
      = Inr (fl, st')"
    and sound: "sound_run (f cond (0 # a)) cond (0 # a)" "sound_kids f (numbered (1 # a) thn)"
      "sound_kids f (numbered (2 # a) (else_list els))" and fresh: "fresh (subtree a) st"
  shows "node_typed e a st fl st'"
proof -
  obtain stc t st1 u st2 where c: "condition cx (kid f (0 # a) cond) st = Inr ((), stc)"
      and t: "infer_stmts (kids f (1 # a) thn) expected stc = Inr (t, st1)"
      and u: "(case map_option (\<lambda>es. kids f (2 # a) es) els of None \<Rightarrow> accept FUnit | Some cs \<Rightarrow> infer_stmts cs expected)
        (st1\<lparr>is_assigned := is_assigned stc\<rparr>) = Inr (u, st2)"
      and fl: "fl = if_flow t u (els \<noteq> None)"
      and st': "st' = st2\<lparr>is_assigned := if_assigned t u (is_assigned st1) (is_assigned st2)\<rparr>"
  proof -
    let ?els = "case map_option (\<lambda>es. kids f (2 # a) es) els of None \<Rightarrow> accept FUnit | Some cs \<Rightarrow> infer_stmts cs expected"
    obtain stc where c: "condition cx (kid f (0 # a) cond) st = Inr ((), stc)"
      using run unfolding infer_if_def bindI_Inr by auto
    with run obtain t st1 where t: "infer_stmts (kids f (1 # a) thn) expected stc = Inr (t, st1)"
      by (cases "infer_stmts (kids f (1 # a) thn) expected stc") (auto simp: infer_if_def bindI_def)
    with run c obtain u st2 where "?els (st1\<lparr>is_assigned := is_assigned stc\<rparr>) = Inr (u, st2)"
      by (cases "?els (st1\<lparr>is_assigned := is_assigned stc\<rparr>)") (auto simp: infer_if_def bindI_def)
    with run c t that show ?thesis by (auto simp: infer_if_def bindI_def)
  qed
  note gc = sound_value(1) [OF sound(1) condition_run [OF c] fresh_sub [OF fresh subtree_child]]
  have "fresh (subtree (1 # a)) stc" by (rule fresh_later [OF gc fresh subtree_child]) (simp add: subtree_disjoint)
  note gt = good_body [OF t sound(2) this]
  have "fresh (subtree (2 # a)) stc" by (rule fresh_later [OF gc fresh subtree_child]) (simp add: subtree_disjoint)
  then have "fresh (subtree (2 # a)) st1"
    by (rule fresh_good [OF _ gt]) (rule apart [OF places_in order_refl], simp)
  then have "fresh (subtree (2 # a)) (st1\<lparr>is_assigned := is_assigned stc\<rparr>)" by (simp add: fresh_def)
  note gu = good_else [OF u sound(3) this]
  have d1: "subtree (0 # a) \<inter> places (numbered (1 # a) thn) = {}" by (simp add: places_disjoint)
  have d2: "(subtree (0 # a) \<union> places (numbered (1 # a) thn)) \<inter> places (numbered (2 # a) (else_list els)) = {}"
    by (simp add: Int_Un_distrib2 places_disjoint)
  have none: "\<not> (els \<noteq> None) \<Longrightarrow> u = FUnit \<and> is_assigned st2 = is_assigned stc \<and>
      (\<forall>tp. else_live a els tp = (\<lambda>l. Some (l, Map.empty)))"
    using gu(2) by simp
  note g = good_if [OF gc gt gu(1) d1 d2 none st', of "els \<noteq> None" a Edge_Then Edge_Else]
  have "cond \<in> set (below (ex_kind e))" "set thn \<subseteq> set (below (ex_kind e))" "set (else_list els) \<subseteq> set (below (ex_kind e))"
    using e by (auto simp: below_def else_list_def)
  note parts = kid_below [OF this(1)] list_below [OF this(2)] list_below [OF this(3)]
  show ?thesis unfolding fl
  proof (rule node_plain [OF g], goal_cases)
    case 2
    show ?case by (intro Un_least below_node)
  next
    case 3
    show ?case using parts by blast
  next
    case 4
    then show ?case using parts by blast
  next
    case (6 tp)
    then have c: "accepted tp cond (0 # a)" "has_value tp (0 # a)" and t: "statements_ok tp (accepted tp) (numbered (1 # a) thn)"
        "last_flow (numbered (1 # a) thn) t tp" and u: "else_ok a els u tp"
        and fl: "flow_at tp a = Some (if_flow t u (els \<noteq> None))"
      by (simp_all add: value_ok_def at_node_def)
    have "accepted tp e a"
    proof (cases els)
      case None
      with c t fl show ?thesis by (simp add: e accepted.simps [of tp e a] if_flow_def not_never_def)
    next
      case (Some es)
      with u have "statements_ok tp (accepted tp) (numbered (2 # a) es)" "last_flow (numbered (2 # a) es) u tp"
        by (simp_all add: else_ok_def)
      with c t fl Some show ?thesis by (simp add: e accepted.simps [of tp e a] last_flow_never if_flow_def)
    qed
    then show ?case using e by (simp add: live_kinds else_live_def)
  qed (use e in \<open>simp_all add: is_var_expr_def\<close>)
qed

end
