(* ===== verification/Infer_Calls.thy ===== *)
theory Infer_Calls
  imports Infer_Flow
begin

text \<open>
  The typing of loops, blocks and calls.
\<close>

subsection \<open>Loops\<close>

lemma fixed_point_flow:
  assumes "fixed_point step l = Some (h0, w)" "weak l"
    and "\<And>h next w. weak h \<Longrightarrow> step h = Some (next, w) \<Longrightarrow> weak next \<and> strong next"
  shows "strong h0"
proof -
  have "weak l \<longrightarrow> strong (fst (h0, w))"
    by (rule fixed_point_rounds [OF assms(1), of "\<lambda>h r w. weak h \<longrightarrow> strong r"]) (use assms(3) in blast)+
  then show ?thesis using assms(2) by simp
qed

lemma flowing_while:
  assumes "flowing tp as C asc" "flowing tp asc B asb"
  shows "flowing tp as (\<lambda>l. fixed_point (\<lambda>h. bindP (B h) (\<lambda>bl. bindP (live_edges a ed1 ed2 bl l) C)) l) asc"
proof (rule flowingI)
  fix l l0 w
  assume fp: "fixed_point (\<lambda>h. bindP (B h) (\<lambda>bl. bindP (live_edges a ed1 ed2 bl l) C)) l = Some (l0, w)"
  let ?weak = "\<lambda>h. \<forall>n. is_heap_var tp n \<longrightarrow> n \<in> h \<longrightarrow> n \<notin> as \<longrightarrow> n \<notin> asc \<longrightarrow> n \<in> l"
  show "flows tp as l0 asc l"
  proof (rule fixed_point_flow [OF fp, of ?weak])
    fix h "next" w assume weak: "?weak h" and step: "bindP (B h) (\<lambda>bl. bindP (live_edges a ed1 ed2 bl l) C) = Some (next, w)"
    from step obtain bl w1 w2 where 1: "B h = Some (bl, w1)" "bindP (live_edges a ed1 ed2 bl l) C = Some (next, w2)"
      by (rule bindP_SomeE)
    from 1(2) obtain d w3 w4 where 2: "live_edges a ed1 ed2 bl l = Some (d, w3)" "C d = Some (next, w4)"
      by (rule bindP_SomeE)
    have c: "flows tp as next asc d" using flowingD [OF assms(1) 2(2)] .
    have b: "flows tp asc bl asb h" using flowingD [OF assms(2) 1(1)] .
    show "?weak next \<and> flows tp as next asc l"
      using c b weak unfolding edges_live [OF 2(1)] flows_def by blast
  qed simp
qed

lemma node_while:
  assumes e: "ex_kind e = EWhile cond body" and c: "condition cx (kid f (0 # a) cond) st = Inr ((), stc)"
    and b: "infer_stmts (kids f (1 # a) body) None stc = Inr (t, st1)"
    and sound: "sound_run (f cond (0 # a)) cond (0 # a)" "sound_kids f (numbered (1 # a) body)"
    and fresh: "fresh (subtree a) st"
  shows "node_typed e a st FUnit (st1\<lparr>is_assigned := is_assigned stc\<rparr>)"
proof -
  let ?H = "\<lambda>tp l. fixed_point (\<lambda>h. bindP (live_seq (live_expr tp) (numbered (1 # a) body) h) (\<lambda>bl.
    bindP (live_edges a Edge_Body Edge_Exit bl l) (live_expr tp cond (0 # a)))) l"
  note gc = sound_value(1) [OF sound(1) condition_run [OF c] fresh_sub [OF fresh subtree_child]]
  have "fresh (subtree (1 # a)) stc" by (rule fresh_later [OF gc fresh subtree_child]) (simp add: subtree_disjoint)
  note gb = good_body [OF b sound(2) this]
  have d: "subtree (0 # a) \<inter> places (numbered (1 # a) body) = {}" by (simp add: places_disjoint)
  have "cond \<in> set (below (ex_kind e))" "set body \<subseteq> set (below (ex_kind e))" using e by (auto simp: below_def)
  note parts = kid_below [OF this(1)] list_below [OF this(2)]
  let ?st2 = "st1\<lparr>is_assigned := is_assigned stc\<rparr>"
  have g: "good st ?st2 (subtree (0 # a) \<union> places (numbered (1 # a) body)) (assigns e) (sure e)
      (\<lambda>tp. value_ok cond (0 # a) NBool tp \<and> statements_ok tp (accepted tp) (numbered (1 # a) body) \<and>
        last_flow (numbered (1 # a) body) t tp) ?H (is_assigned ?st2)"
  proof (rule good_join [OF gc gb refl _ d])
    show "is_assigned stc \<subseteq> is_assigned st \<union> assigns e" "is_assigned ?st2 \<subseteq> is_assigned st \<union> assigns e"
      using good_parts(2) [OF gc] parts(1) by auto
    show "keeps st ?st2" using good_parts(3) [OF gc] by (simp add: keeps_def)
    show "sure e \<Longrightarrow> sure cond \<and> all_sure (numbered (1 # a) body)" using parts by blast
    fix tp assume "flowing tp (is_assigned st) (live_expr tp cond (0 # a)) (is_assigned stc)"
      and "flowing tp (is_assigned stc) (live_seq (live_expr tp) (numbered (1 # a) body)) (assigned_after t st1)"
    from flowing_while [OF this] show "flowing tp (is_assigned st) (?H tp) (is_assigned ?st2)" by simp
  qed simp
  show ?thesis
  proof (rule node_ends [OF g], goal_cases)
    case 3
    show ?case by (intro Un_least below_node)
  next
    case (6 tp)
    then show ?case using e by (simp add: accepted.simps [of tp e a] value_ok_def at_node_unit)
  qed (use e in \<open>simp_all add: is_var_expr_def live_kinds\<close>)
qed

subsection \<open>Blocks\<close>

lemma bind_params_run:
  assumes "bind_params cx ps st = Inr ((), st')" "list_all (\<lambda>(n, t). \<not> is_array t) ps"
  shows "extends {} (is_typed st) (is_typed st')" "is_assigned st' = is_assigned st \<union> fst ` set ps"
    and "(n, t) \<in> set ps \<Longrightarrow> \<exists>t'. tp_vars (is_typed st') n = Some t' \<and> is_heap t' = is_heap t"
    and "n \<in> fst ` set ps \<Longrightarrow> tp_vars (is_typed st) n = Some t0 \<Longrightarrow> \<not> is_array t0"
proof -
  have "extends {} (is_typed st) (is_typed st') \<and> is_assigned st' = is_assigned st \<union> fst ` set ps \<and>
    (\<forall>(n, t) \<in> set ps. \<exists>t'. tp_vars (is_typed st') n = Some t' \<and> is_heap t' = is_heap t) \<and>
    (\<forall>n t0. n \<in> fst ` set ps \<longrightarrow> tp_vars (is_typed st) n = Some t0 \<longrightarrow> \<not> is_array t0)"
    using assms
  proof (induction ps arbitrary: st)
    case Nil
    then show ?case by (simp add: bind_params_def extends_refl)
  next
    case (Cons y ps)
    obtain n t where y: "y = (n, t)" by force
    from Cons.prems(1) obtain st1 where b: "bind_local cx n t st = Inr ((), st1)" and rest: "bind_params cx ps st1 = Inr ((), st')"
      by (auto simp: bind_params_def y split: if_splits)
    note run = bind_local_run [OF b]
    note IH = Cons.IH [OF rest]
    have ps: "list_all (\<lambda>(n, t). \<not> is_array t) ps" "\<not> is_array t" using Cons.prems(2) by (simp_all add: y)
    have ext: "extends {} (is_typed st1) (is_typed st')" using IH ps by blast
    have e: "extends {} (is_typed st) (is_typed st')" using extends_trans [OF run(1) ext] by simp
    obtain t' where "tp_vars (is_typed st1) n = Some t'" "is_heap t' = is_heap t" using run(3) by blast
    with extends_var [OF ext] have new: "\<exists>t'. tp_vars (is_typed st') n = Some t' \<and> is_heap t' = is_heap t" by metis
    have old: "\<not> is_array t0" if m: "m \<in> fst ` set (y # ps)" "tp_vars (is_typed st) m = Some t0" for m t0
    proof (cases "m \<in> fst ` set ps")
      case True
      obtain t1 where "tp_vars (is_typed st1) m = Some t1" "is_array t1 = is_array t0" by (rule extends_var [OF run(1) m(2)])
      with True IH ps show ?thesis by blast
    next
      case False
      with m run(4) ps show ?thesis by (auto simp: y)
    qed
    show ?case using IH ps e new old run(2) by (auto simp: y)
  qed
  then show "extends {} (is_typed st) (is_typed st')" "is_assigned st' = is_assigned st \<union> fst ` set ps"
    and "(n, t) \<in> set ps \<Longrightarrow> \<exists>t'. tp_vars (is_typed st') n = Some t' \<and> is_heap t' = is_heap t"
    and "n \<in> fst ` set ps \<Longrightarrow> tp_vars (is_typed st) n = Some t0 \<Longrightarrow> \<not> is_array t0" by blast+
qed

definition block_live :: "addr \<Rightarrow> rtext list \<Rightarrow> (typed \<Rightarrow> live \<Rightarrow> live planned) \<Rightarrow> typed \<Rightarrow> live \<Rightarrow> live planned" where
  "block_live a names B tp after = fixed_point (\<lambda>header.
     bindP (B tp header) (\<lambda>body_live.
     bindP (Some ((), [Key_Dead_Params a \<mapsto> Dead_Params (filter (\<lambda>p. is_heap_var tp p \<and> p \<notin> body_live) names)])) (\<lambda>_.
     live_edges a Edge_Body Edge_Exit (body_live - set names) after))) after"

lemma live_inlined_block:
  "tp_blocks tp a = Some names \<Longrightarrow> tp_methods tp a = Some m \<Longrightarrow> loops m \<Longrightarrow>
   live_inlined tp a (B tp) = block_live a names B tp"
  by (auto simp: live_inlined_def block_live_def loops_def fun_eq_iff)

lemma flowing_block:
  assumes "flowing tp (as \<union> set names) (B tp) asb"
  shows "flowing tp as (block_live a names B tp) (as \<union> set names - set names)"
proof (rule flowingI)
  fix l l0 w assume fp: "block_live a names B tp l = Some (l0, w)"
  let ?weak = "\<lambda>h. \<forall>n. is_heap_var tp n \<longrightarrow> n \<in> h \<longrightarrow> n \<notin> as \<longrightarrow> n \<in> l"
  have "?weak l0"
  proof (rule fixed_point_flow [OF fp [unfolded block_live_def], of ?weak])
    fix h "next" w assume weak: "?weak h"
      and "bindP (B tp h) (\<lambda>bl. bindP (Some ((), [Key_Dead_Params a \<mapsto>
        Dead_Params (filter (\<lambda>p. is_heap_var tp p \<and> p \<notin> bl) names)])) (\<lambda>_.
        live_edges a Edge_Body Edge_Exit (bl - set names) l)) = Some (next, w)"
    from this(2) obtain bl w1 w2 where 1: "B tp h = Some (bl, w1)" "bindP (Some ((), [Key_Dead_Params a \<mapsto>
        Dead_Params (filter (\<lambda>p. is_heap_var tp p \<and> p \<notin> bl) names)])) (\<lambda>_.
        live_edges a Edge_Body Edge_Exit (bl - set names) l) = Some (next, w2)"
      by (rule bindP_SomeE)
    from 1(2) obtain u w3 w4 where 2: "live_edges a Edge_Body Edge_Exit (bl - set names) l = Some (next, w4)"
      by (rule bindP_SomeE)
    have "flows tp (as \<union> set names) bl asb h" using flowingD [OF assms 1(1)] .
    then have "?weak next" using weak unfolding edges_live [OF 2] flows_def by blast
    then show "?weak next \<and> ?weak next" by blast
  qed simp
  then show "flows tp as l0 (as \<union> set names - set names) l" by (auto simp: flows_def)
qed

lemma loop_body_run:
  "loop_body m st = Inr ((), st') \<longleftrightarrow> (\<exists>st1. m st = Inr ((), st1) \<and> st' = st1\<lparr>is_assigned := is_assigned st\<rparr>)"
  by (cases "m st") (auto simp: loop_body_def)

lemma good_asg:
  "good st st' A asg S P F after \<Longrightarrow> is_assigned st' \<subseteq> is_assigned st \<union> asg' \<Longrightarrow> good st st' A asg' S P F after"
  by (simp add: good_def)

definition block_names :: "expr block \<Rightarrow> rtext list" where
  "block_names b = map (\<lambda>p. id_name (pm_name p)) (bk_params b)"

definition block_stmts :: "addr \<Rightarrow> expr block \<Rightarrow> (addr \<times> expr) list" where
  "block_stmts a b = numbered (2 # a) (bd_stmts (bk_body b))"

definition bound_as :: "(rtext \<times> nty) list \<Rightarrow> typed \<Rightarrow> bool" where
  "bound_as ps tp \<longleftrightarrow> (\<forall>(n, t) \<in> set ps. known_var tp n \<and> is_heap_var tp n = is_heap t)"

lemma good_bind_params:
  assumes "bind_params cx ps st = Inr ((), st')" "list_all (\<lambda>(n, t). \<not> is_array t) ps"
  shows "good st st' {} (fst ` set ps) True (bound_as ps) (\<lambda>tp l. None) {}"
proof -
  note run = bind_params_run [OF assms]
  show ?thesis
  proof (rule goodI)
    show "extends {} (is_typed st) (is_typed st')" by (rule run(1))
    show "is_assigned st' \<subseteq> is_assigned st \<union> fst ` set ps" "keeps st st'" using run(2) by (auto simp: keeps_def)
    fix tp assume tp: "extends (- {}) (is_typed st') tp"
    show "bound_as ps tp"
      unfolding bound_as_def
    proof (intro ballI, clarify)
      fix n t assume "(n, t) \<in> set ps"
      from run(3) [OF this] obtain t' where "tp_vars (is_typed st') n = Some t'" "is_heap t' = is_heap t" by blast
      with extends_known [OF tp] show "known_var tp n \<and> is_heap_var tp n = is_heap t" by metis
    qed
  qed simp
qed

lemma block_run:
  assumes run: "infer_block cx a b (kids f (2 # a) (bd_stmts (bk_body b))) params st = Inr ((), st2)"
    and params: "list_all (\<lambda>t. \<not> is_array t) params"
    and sound: "sound_kids f (block_stmts a b)" and fresh: "fresh (subtree (2 # a)) st"
  obtains st1 where "good st st1 (places (block_stmts a b)) {} (all_sure (block_stmts a b))
      (\<lambda>tp. bound_as (zip (block_names b) params) tp \<and> statements_ok tp (accepted tp) (block_stmts a b) \<and>
        \<not> never_ends tp (block_stmts a b))
      (block_live a (block_names b) (\<lambda>tp. live_seq (live_expr tp) (block_stmts a b))) (is_assigned st1)"
    and "is_assigned st2 = is_assigned st1"
    and "is_typed st2 = (is_typed st1)\<lparr>tp_blocks := (tp_blocks (is_typed st1))(a \<mapsto> block_names b)\<rparr>"
    and "length (block_names b) = length params"
proof -
  let ?es = "block_stmts a b" and ?names = "block_names b"
  let ?body = "bindI (infer_stmts (kids f (2 # a) (bd_stmts (bk_body b))) None) (\<lambda>fl.
      if fl = FNever then refuse (str ''returns from inside a block'') else accept ())"
  have len: "length ?names = length params"
    using run by (auto simp: infer_block_def block_names_def Let_def refuse_def split: if_splits)
  obtain stp sta where bp: "bind_params cx (zip ?names params) st = Inr ((), stp)" and body: "loop_body ?body stp = Inr ((), sta)"
      and st2: "st2 = sta\<lparr>is_assigned := is_assigned sta - set ?names,
        is_typed := (is_typed sta)\<lparr>tp_blocks := (tp_blocks (is_typed sta))(a \<mapsto> ?names)\<rparr>\<rparr>"
    using run by (auto simp: infer_block_def block_names_def Let_def split: if_splits)
  obtain fl st1 where stmts: "infer_stmts (kids f (2 # a) (bd_stmts (bk_body b))) None stp = Inr (fl, st1)"
      and fl: "fl \<noteq> FNever" and sta: "sta = st1\<lparr>is_assigned := is_assigned stp\<rparr>"
    using body unfolding loop_body_run bindI_Inr by (auto split: if_splits)
  have ps: "list_all (\<lambda>(n, t). \<not> is_array t) (zip ?names params)"
    using params by (auto simp: list_all_iff dest: set_zip_rightD)
  have names: "fst ` set (zip ?names params) = set ?names" using len by (metis list.set_map map_fst_zip)
  note bind = good_bind_params [OF bp ps] and as = bind_params_run(2,4) [OF bp ps]
  have "fresh (subtree (2 # a)) stp" by (rule fresh_good [OF fresh bind]) simp
  from good_body [OF stmts _ this] sound have gb: "good stp st1 (places ?es) (all_assigns ?es) (all_sure ?es)
      (\<lambda>tp. statements_ok tp (accepted tp) ?es \<and> last_flow ?es fl tp) (\<lambda>tp. live_seq (live_expr tp) ?es) (assigned_after fl st1)"
    by (simp add: block_stmts_def)
  let ?st1 = "st1\<lparr>is_assigned := is_assigned stp - set ?names\<rparr>"
  have asg: "is_assigned ?st1 = is_assigned st \<union> set ?names - set ?names" using as(1) names by simp
  have "good st ?st1 ({} \<union> places ?es) (set ?names) (all_sure ?es)
      (\<lambda>tp. bound_as (zip ?names params) tp \<and> statements_ok tp (accepted tp) ?es \<and> last_flow ?es fl tp)
      (block_live a ?names (\<lambda>tp. live_seq (live_expr tp) ?es)) (is_assigned ?st1)"
  proof (rule good_join [OF bind gb refl _ Int_empty_left])
    show "is_assigned stp \<subseteq> is_assigned st \<union> set ?names" using as(1) names by simp
    show "is_assigned ?st1 \<subseteq> is_assigned st \<union> set ?names" using asg by auto
    show "keeps st ?st1"
      unfolding keeps_def asg
    proof (intro allI impI)
      fix n t assume "n \<in> is_assigned st" "tp_vars (is_typed st) n = Some t" "is_array t"
      with as(2) names show "n \<in> is_assigned st \<union> set ?names - set ?names" by auto
    qed
    fix tp assume "flowing tp (is_assigned stp) (live_seq (live_expr tp) ?es) (assigned_after fl st1)"
    then have "flowing tp (is_assigned st \<union> set ?names) (live_seq (live_expr tp) ?es) (assigned_after fl st1)"
      using as(1) names by simp
    from flowing_block [of tp _ ?names "\<lambda>tp. live_seq (live_expr tp) ?es", OF this] show
      "flowing tp (is_assigned st) (block_live a ?names (\<lambda>tp. live_seq (live_expr tp) ?es) tp) (is_assigned ?st1)"
      unfolding asg .
  qed simp_all
  then have "good st ?st1 ({} \<union> places ?es) {} (all_sure ?es)
      (\<lambda>tp. bound_as (zip ?names params) tp \<and> statements_ok tp (accepted tp) ?es \<and> last_flow ?es fl tp)
      (block_live a ?names (\<lambda>tp. live_seq (live_expr tp) ?es)) (is_assigned ?st1)"
    by (rule good_asg) (use asg in auto)
  then have "good st ?st1 (places ?es) {} (all_sure ?es)
      (\<lambda>tp. bound_as (zip ?names params) tp \<and> statements_ok tp (accepted tp) ?es \<and> \<not> never_ends tp ?es)
      (block_live a ?names (\<lambda>tp. live_seq (live_expr tp) ?es)) (is_assigned ?st1)"
    by (rule good_weaken) (use fl in \<open>auto dest: last_flow_never\<close>)
  with that [of ?st1] len st2 sta show ?thesis by simp
qed

subsection \<open>Arguments\<close>

lemma valued_expect:
  assumes "sound_run (f x b) x b" "f x b ex st = Inr (FValue t, st1)" "expect_ty cx x t want what st1 = Inr ((), st2)"
  shows "valued b x st st2"
  unfolding valued_def
proof
  assume fresh: "fresh (subtree b) st"
  note v = sound_value [OF assms(1,2) fresh]
  from valued_then [OF valued_run [of "f x b", OF assms(1,2)] expect_ty_run(1) [OF assms(3)]
      expect_ty_run(2) [OF assms(3) was_read_array [OF v(2)]]] fresh
  show "good st st2 (subtree b) (assigns x) (sure x) (\<lambda>tp. accepted tp x b \<and> has_value tp b) (\<lambda>tp. live_expr tp x b)
      (is_assigned st2)"
    by (simp add: valued_def)
qed

text \<open>Arguments at their addresses, and the values that they give.\<close>

definition placed_kids :: "typer \<Rightarrow> (addr \<times> expr arg) list \<Rightarrow> child arg list" where
  "placed_kids f ys = map (\<lambda>(b, arg). map_arg (kid f b) arg) ys"

definition all_given :: "(addr \<times> expr arg) list \<Rightarrow> bool" where
  "all_given ys \<longleftrightarrow> list_all (\<lambda>(b, x). arg_value x \<noteq> None) ys"

definition given_values :: "(addr \<times> expr arg) list \<Rightarrow> (addr \<times> expr) list" where
  "given_values ys = map (\<lambda>(b, x). (b, the (arg_value x))) ys"

lemma placed_simps [simp]:
  "placed_kids f [] = []" "placed_kids f ((b, x) # ys) = map_arg (kid f b) x # placed_kids f ys"
  "all_given []" "all_given ((b, x) # ys) \<longleftrightarrow> arg_value x \<noteq> None \<and> all_given ys"
  "given_values [] = []" "given_values ((b, x) # ys) = (b, the (arg_value x)) # given_values ys"
  by (simp_all add: placed_kids_def all_given_def given_values_def)

lemma arg_kids_placed: "arg_kids f c args = placed_kids f (numbered c args)"
  by (simp add: arg_kids_def placed_kids_def)

lemma arg_values_given: "all_given (numbered c args) \<Longrightarrow> arg_values c args = Some (given_values (numbered c args))"
proof -
  have "map snd (numbered c args) = args" by (simp add: numbered_def)
  moreover have "all_given ys \<longleftrightarrow> list_all (\<lambda>x. arg_value x \<noteq> None) (map snd ys)" for ys
    by (auto simp: all_given_def list_all_iff)
  ultimately show "all_given (numbered c args) \<Longrightarrow> arg_values c args = Some (given_values (numbered c args))"
    by (metis (no_types, lifting) arg_values_def given_values_def)
qed

lemma positional_given:
  "positional what (placed_kids f ys) = Inr cs \<Longrightarrow> all_given ys \<and> cs = kids_of f (given_values ys)"
proof (induction ys arbitrary: cs)
  case (Cons y ys)
  obtain b x where y: "y = (b, x)" by force
  show ?case
  proof (cases x)
    case (APos e)
    with Cons.prems obtain cs' where "positional what (placed_kids f ys) = Inr cs'" "cs = kid f b e # cs'"
      by (cases "positional what (placed_kids f ys)") (auto simp: y)
    with Cons.IH [of cs'] APos show ?thesis by (simp add: y kid_def)
  qed (use Cons.prems in \<open>auto simp: y\<close>)
qed simp

lemma lift_inf_Inr [simp]: "lift_inf r st = Inr (x, st') \<longleftrightarrow> r = Inr x \<and> st' = st"
  by (cases r) (auto simp: lift_inf_def)

lemma positional_run:
  assumes "lift_inf (positional what (arg_kids f c args)) st = Inr (cs, st')"
  obtains xs where "arg_values c args = Some xs" "cs = kids_of f xs" "st' = st"
  using assms positional_given arg_values_given by (fastforce simp: arg_kids_placed)

lemma relabel_Inr: "(case r of Inl x \<Rightarrow> Inl (g x) | Inr x \<Rightarrow> Inr x) = Inr y \<longleftrightarrow> r = Inr y"
  by (cases r) auto

lemma function_args_valued:
  assumes "eachI (\<lambda>(c, expected). bindI (value_of c (Some expected)) (\<lambda>t st.
      case expect_ty cx (fst c) t expected what st of Inl _ \<Rightarrow> Inl (why t expected) | Inr r \<Rightarrow> Inr r))
      (zip (kids_of f xs) ts) st = Inr ((), st')"
    and "length xs = length ts" "sound_kids f xs"
  shows "all_valued xs st st'"
  using assms
proof (induction xs ts arbitrary: st rule: list_induct2')
  case (4 y xs want ts)
  obtain b x where y: "y = (b, x)" by force
  from 4(2) obtain t st1 st2 where "f x b (Some want) st = Inr (FValue t, st1)"
      "expect_ty cx x t want what st1 = Inr ((), st2)"
      and rest: "eachI (\<lambda>(c, expected). bindI (value_of c (Some expected)) (\<lambda>t st.
        case expect_ty cx (fst c) t expected what st of Inl _ \<Rightarrow> Inl (why t expected) | Inr r \<Rightarrow> Inr r))
        (zip (kids_of f xs) ts) st2 = Inr ((), st')"
    by (auto simp: y relabel_Inr)
  moreover have "sound_run (f x b) x b" "sound_kids f xs" "length xs = length ts" using 4(3,4) by (simp_all add: y)
  ultimately have "valued b x st st2" "all_valued xs st2 st'" using valued_expect 4(1) by blast+
  then show ?case by (auto simp: y)
qed auto

lemma construct_args_valued:
  assumes "construct_args cx name fds free given slots (placed_kids f ys) st = Inr (r, st')"
    and "all_given ys \<longrightarrow> sound_kids f (given_values ys)"
  shows "all_given ys \<and> all_valued (given_values ys) st st'"
  using assms
proof (induction ys arbitrary: free given slots st)
  case Nil
  then show ?case by simp
next
  case (Cons y ys)
  obtain b x where y: "y = (b, x)" by force
  obtain e t ex st1 free' given' slots' where x: "arg_value x = Some e" and v: "f e b ex st = Inr (FValue t, st1)"
      and rest: "construct_args cx name fds free' given' slots' (placed_kids f ys) st1 = Inr (r, st')"
  proof (cases x)
    case (APos e)
    with Cons.prems(1) that show thesis by (auto simp: y Let_def split: list.splits if_splits)
  next
    case (ANamed n v)
    with Cons.prems(1) that show thesis by (cases v) (auto simp: y Let_def split: option.splits if_splits)
  next
    case (ABlockPass e)
    with Cons.prems(1) show thesis by (auto simp: y Let_def)
  qed
  have given: "all_given ys"
  proof (rule ccontr)
    assume no: "\<not> all_given ys"
    then have "all_given ys \<longrightarrow> sound_kids f (given_values ys)" by simp
    from Cons.IH [OF rest this] no show False by simp
  qed
  then have "sound_run (f e b) e b" "sound_kids f (given_values ys)" using Cons.prems(2) x by (simp_all add: y)
  with Cons.IH [OF rest] given have "all_valued (given_values ys) st1 st'" "valued b e st st1"
    using valued_run [of "f e b", OF _ v] by simp_all
  then show ?case using given x by (auto simp: y)
qed

definition sound_below :: "typer \<Rightarrow> expr \<Rightarrow> bool" where
  "sound_below f e \<longleftrightarrow> (\<forall>x \<in> set (below (ex_kind e)). \<forall>b. sound_run (f x b) x b)"

lemma sound_belowD: "sound_below f e \<Longrightarrow> x \<in> set (below (ex_kind e)) \<Longrightarrow> sound_run (f x b) x b"
  by (simp add: sound_below_def)

lemma sound_kids_below: "sound_below f e \<Longrightarrow> set es \<subseteq> set (below (ex_kind e)) \<Longrightarrow> sound_kids f (numbered c es)"
  by (auto simp: sound_kids_def list_all_iff sound_below_def dest!: numbered_in)

text \<open>The arguments of a call: all of them at the second child.\<close>

lemma call_args:
  assumes e: "ex_kind e = ECall recv nm args blk safe parens" and xs: "arg_values (1 # a) args = Some xs"
    and H: "sound_below f e"
  shows "sound_kids f xs" "siblings (1 # a) xs" "places xs \<subseteq> subtree (1 # a)" "all_assigns xs \<subseteq> assigns e"
    "sure e \<Longrightarrow> all_sure xs"
proof -
  have "(b, x) \<in> set xs \<Longrightarrow> x \<in> set (below (ex_kind e))" for b x
    using arg_values_in [OF xs] e by (auto simp: below_def)
  then have in_e: "snd ` set xs \<subseteq> set (below (ex_kind e))" by auto
  then show "sound_kids f xs" using H by (force simp: sound_kids_def list_all_iff sound_below_def)
  show "siblings (1 # a) xs" by (rule siblings_arg_values [OF xs])
  then show "places xs \<subseteq> subtree (1 # a)" by (rule places_siblings)
  show "all_assigns xs \<subseteq> assigns e" "sure e \<Longrightarrow> all_sure xs" using all_below [OF in_e] .
qed

lemma good_args:
  assumes e: "ex_kind e = ECall recv nm args blk safe parens" and xs: "arg_values (1 # a) args = Some xs"
    and run: "all_valued xs st st'" "fresh (subtree (1 # a)) st"
  shows "good st st' (places xs) (all_assigns xs) (all_sure xs) (\<lambda>tp. values_ok tp (accepted tp) xs)
    (\<lambda>tp. live_seq (live_expr tp) xs) (is_assigned st')"
  using good_values [OF siblings_arg_values [OF xs] run(1) fresh_sub [OF run(2) places_siblings [OF siblings_arg_values [OF xs]]]] .

lemma untouched:
  assumes "fresh (subtree a) st" "good st st' A asg S P F after" "A \<subseteq> subtree a - {a}"
  shows "tp_methods (is_typed st') a = None" "tp_constructs (is_typed st') a = None"
proof -
  have "a \<notin> A" using assms(3) by auto
  from extends_table [OF good_parts(1) [OF assms(2)] this] assms(1)
  show "tp_methods (is_typed st') a = None" "tp_constructs (is_typed st') a = None" by (simp_all add: fresh_def)
qed

lemma live_call_args:
  assumes "ex_kind e = ECall recv nm args None safe parens" "arg_values (1 # a) args = Some xs"
    and "recv = None \<or> (\<exists>r. recv = Some r \<and> is_const r)"
  shows "live_expr tp e a = live_seq (live_expr tp) xs"
  using assms(3)
proof
  assume "recv = None"
  with assms(1,2) show ?thesis by (simp add: live_kinds)
next
  assume "\<exists>r. recv = Some r \<and> is_const r"
  then obtain r where "recv = Some r" "is_const r" by blast
  with assms(1,2) live_const [OF this(2)] show ?thesis by (simp add: live_kinds)
qed

text \<open>A receiver that is a constant may be typed first, as nothing.\<close>

definition skips_const :: "addr \<Rightarrow> infer_st \<Rightarrow> infer_st \<Rightarrow> bool" where
  "skips_const a st st' \<longleftrightarrow> st' = st \<or> set_type (0 # a) FUnit st = Inr ((), st')"

lemma good_skips:
  assumes "skips_const a st st'"
  shows "good st st' {0 # a} {} True (\<lambda>tp. True) noop (is_assigned st')" "fresh A st \<Longrightarrow> fresh A st'"
proof -
  show "good st st' {0 # a} {} True (\<lambda>tp. True) noop (is_assigned st')"
  proof (cases "st' = st")
    case True
    show ?thesis unfolding True by (rule good_weaken [OF good_refl]) simp_all
  next
    case False
    with assms show ?thesis by (simp add: skips_const_def good_set_type)
  qed
  show "fresh A st \<Longrightarrow> fresh A st'" using assms fresh_set_type by (auto simp: skips_const_def)
qed

lemma extends_construct: "extends {a} tp (tp\<lparr>tp_constructs := (tp_constructs tp)(a \<mapsto> c)\<rparr>)"
  by (auto simp: extends_def tables_def flow_at_def intro: same_vars_grow)

lemma extends_method: "extends {a} tp (tp\<lparr>tp_methods := (tp_methods tp)(a \<mapsto> m)\<rparr>)"
  by (auto simp: extends_def tables_def flow_at_def intro: same_vars_grow)

lemma extends_calls: "extends {} tp (tp\<lparr>tp_calls := c\<rparr>)"
  by (auto simp: extends_def tables_def flow_at_def intro: same_vars_grow)

lemma extends_block: "extends {a} tp (tp\<lparr>tp_blocks := (tp_blocks tp)(a \<mapsto> ps)\<rparr>)"
  by (auto simp: extends_def tables_def flow_at_def intro: same_vars_grow)

lemma call_not_var: "ex_kind e = ECall recv nm args blk safe parens \<Longrightarrow> \<not> is_var_expr e"
  by (simp add: is_var_expr_def)

lemma point_child: "B \<subseteq> subtree (j # a) \<Longrightarrow> i \<noteq> j \<Longrightarrow> {i # a} \<inter> B = {}"
  using apart [of "{i # a}" i a B j] by simp

lemma node_construct:
  assumes e: "ex_kind e = ECall recv nm args None safe parens" "recv = None \<or> (\<exists>r. recv = Some r \<and> is_const r)"
    and H: "sound_below f e"
    and skip: "skips_const a st st0" and run: "infer_construct cx a name (arg_kids f (1 # a) args) st0 = Inr (fl, st2)"
    and fresh: "fresh (subtree a) st"
  shows "node_typed e a st fl st2"
proof -
  obtain i fds free r st1 c where args: "construct_args cx name fds free (replicate (length fds) False) []
        (placed_kids f (numbered (1 # a) args)) st0 = Inr (r, st1)"
      and st2: "st2 = st1\<lparr>is_typed := (is_typed st1)\<lparr>tp_constructs := (tp_constructs (is_typed st1))(a \<mapsto> c)\<rparr>\<rparr>"
      and fl: "fl = FValue (NStruct i)"
    using run by (auto simp: infer_construct_def arg_kids_placed Let_def split: option.splits)
  let ?xs = "given_values (numbered (1 # a) args)"
  have xs_sound: "all_given (numbered (1 # a) args) \<longrightarrow> sound_kids f ?xs"
    using call_args(1) [OF e(1) arg_values_given H] by blast
  with construct_args_valued [OF args] have given: "all_given (numbered (1 # a) args)" and vs: "all_valued ?xs st0 st1"
    by blast+
  note xs = arg_values_given [OF given]
  note parts = call_args [OF e(1) xs H]
  note g0 = good_skips(1) [OF skip]
  have f1: "fresh (subtree (1 # a)) st0" using good_skips(2) [OF skip fresh_sub [OF fresh subtree_child]] .
  note ga = good_args [OF e(1) xs vs f1]
  note g = good_seq [OF g0 ga point_child [OF parts(3)]]
  show ?thesis
  proof (rule node_typedI)
    show "good st st1 ({0 # a} \<union> places ?xs) ({} \<union> all_assigns ?xs) (True \<and> all_sure ?xs)
        (\<lambda>tp. True \<and> values_ok tp (accepted tp) ?xs) (\<lambda>tp l. bindP (live_seq (live_expr tp) ?xs l) (noop tp))
        (assigned_after fl st1)"
      using g by (simp add: fl)
    show "{0 # a} \<union> places ?xs \<subseteq> subtree a - {a}" using point_below order_trans [OF parts(3) subtree_below] by (intro Un_least)
    show "{} \<union> all_assigns ?xs \<subseteq> assigns e" "sure e \<Longrightarrow> True \<and> all_sure ?xs" using parts by simp_all
    show "is_assigned st2 = is_assigned st1" by (simp add: st2)
    show "extends {a} (is_typed st1) (is_typed st2)" by (simp add: st2 extends_construct)
    show "was_read e fl st2" using call_not_var [OF e(1)] by (rule was_read_other)
    fix tp assume "True \<and> values_ok tp (accepted tp) ?xs" "at_node a fl (is_typed st2) tp"
    moreover from this have "tp_constructs tp a = Some c" by (simp add: at_node_def st2)
    ultimately show "accepted tp e a \<and> live_expr tp e a = (\<lambda>l. bindP (live_seq (live_expr tp) ?xs l) (noop tp))"
      using e xs fl has_value_ends
      by (auto simp: accepted.simps [of tp e a] at_node_value live_call_args [OF e(1) xs e(2)])
  qed
qed

lemma node_function:
  assumes e: "ex_kind e = ECall None nm args None safe parens"
    and H: "sound_below f e"
    and run: "infer_function cx name (arg_kids f (1 # a) args) st = Inr (fl, st')" and fresh: "fresh (subtree a) st"
  shows "node_typed e a st fl st'"
proof -
  obtain sg where sg: "ix_sigs cx name = Some sg" and len: "length args = length (sg_params sg)"
    using run by (auto simp: infer_function_def arg_kids_def numbered_def split: option.splits if_splits)
  let ?st0 = "st\<lparr>is_typed := (is_typed st)\<lparr>tp_calls := insert name (tp_calls (is_typed st))\<rparr>\<rparr>"
  obtain cs st1 st2 where pos: "lift_inf (positional name (arg_kids f (1 # a) args)) ?st0 = Inr (cs, st1)"
      and each: "eachI (\<lambda>(c, expected). bindI (value_of c (Some expected)) (\<lambda>t st.
           case expect_ty cx (fst c) t expected (str ''passes'') st of
             Inl _ \<Rightarrow> Inl (str ''passes '' @ tick (cx_show cx t) @ str '' where '' @ tick name @ str '' expects '' @
               tick (cx_show cx expected))
           | Inr r \<Rightarrow> Inr r)) (zip cs (sg_params sg)) st1 = Inr ((), st')"
      and fl: "fl = (case sg_ret sg of None \<Rightarrow> FUnit | Some r \<Rightarrow> FValue r)"
    using run sg by (auto simp: infer_function_def simp del: lift_inf_Inr split: if_splits)
  obtain xs where xs: "arg_values (1 # a) args = Some xs" and cs: "cs = kids_of f xs" "st1 = ?st0"
    by (rule positional_run [OF pos])
  note parts = call_args [OF e xs H]
  have "length xs = length (sg_params sg)"
    using xs len by (auto simp: arg_values_def numbered_def split: if_splits)
  from function_args_valued [OF each [unfolded cs] this parts(1)] have vs: "all_valued xs ?st0 st'" .
  have "extends {} (is_typed st) (is_typed ?st0)" by (simp add: extends_calls)
  then have g0: "good st ?st0 {} {} True (\<lambda>tp. True) noop (is_assigned ?st0)" by (rule good_still) simp_all
  have f1: "fresh (subtree (1 # a)) ?st0" using fresh_sub [OF fresh subtree_child] by (simp add: fresh_def)
  note g = good_seq [OF g0 good_args [OF e xs vs f1] Int_empty_left]
  have A: "{} \<union> places xs \<subseteq> subtree a - {a}" using order_trans [OF parts(3) subtree_below] by simp
  show ?thesis
  proof (rule node_ends [OF g], goal_cases)
    case 1
    show ?case by (simp add: fl split: option.split)
  next
    case 2
    show ?case by (rule call_not_var [OF e])
  next
    case 3
    show ?case by (rule A)
  next
    case 4
    show ?case using parts(4) by simp
  next
    case 5
    then show ?case using parts(5) by simp
  next
    case (6 tp)
    with untouched [OF fresh g A] have "tp_constructs tp a = None" "tp_methods tp a = None" by (simp_all add: at_node_def)
    with 6 e xs show ?case
      by (cases "sg_ret sg") (auto simp: accepted.simps [of tp e a] fl has_value_ends at_node_value at_node_unit)
  next
    case (7 tp)
    show ?case using live_call_args [OF e xs] by simp
  qed
qed

lemma numbered_simps: "numbered c [] = []" "numbered c [x] = [(0 # c, x)]"
  by (simp_all add: numbered_def)

lemma set_method_run: "set_method a m st = Inr ((), st') \<Longrightarrow>
    st' = st\<lparr>is_typed := (is_typed st)\<lparr>tp_methods := (tp_methods (is_typed st))(a \<mapsto> m)\<rparr>\<rparr>"
  by (simp add: set_method_def)

text \<open>A node with a method, written last.\<close>

lemma node_method:
  assumes g: "good st st1 A asg S P F (is_assigned st1)" "A \<subseteq> subtree a - {a}" "asg \<subseteq> assigns e" "sure e \<Longrightarrow> S"
    and m: "set_method a m st1 = Inr ((), st2)" and e: "\<not> is_var_expr e" "fl \<noteq> FNever" and fresh: "fresh (subtree a) st"
    and acc: "\<And>tp. P tp \<Longrightarrow> at_node a fl (is_typed st2) tp \<Longrightarrow> tp_methods tp a = Some m \<Longrightarrow> tp_constructs tp a = None \<Longrightarrow>
      accepted tp e a \<and> live_expr tp e a = F tp"
  shows "node_typed e a st fl st2"
proof -
  note st2 = set_method_run [OF m]
  show ?thesis
  proof (rule node_typedI [OF _ g(2-4)])
    show "good st st1 A asg S P F (assigned_after fl st1)" using g(1) e(2) by (simp add: assigned_after_def)
    show "is_assigned st2 = is_assigned st1" "extends {a} (is_typed st1) (is_typed st2)" by (simp_all add: st2 extends_method)
    show "was_read e fl st2" using e(1) by (rule was_read_other)
    fix tp assume tp: "P tp" "at_node a fl (is_typed st2) tp"
    moreover from this have "tp_methods tp a = Some m" "tp_constructs tp a = None"
      using untouched(2) [OF fresh g(1,2)] by (simp_all add: at_node_def st2)
    ultimately show "accepted tp e a \<and> live_expr tp e a = F tp" by (rule acc)
  qed
qed

lemma node_index:
  assumes e: "ex_kind e = EIndex recv args"
    and H: "sound_below f e"
    and run: "infer_index cx a (kid f (0 # a) recv) (kids f (1 # a) args) st = Inr (t, st2)" and fresh: "fresh (subtree a) st"
  shows "node_typed e a st (FValue t) st2"
proof -
  obtain rt st1 where r: "f recv (0 # a) None st = Inr (FValue rt, st1)"
    using run unfolding infer_index_def bindI_Inr value_of_kid by blast
  have "length (kids f (1 # a) args) = 1"
    using run r by (auto simp: infer_index_def split: list.splits)
  then obtain i where args: "args = [i]"
    by (cases args; cases "tl args") (auto simp: kids_def numbered_def)
  obtain m st1' where i: "f i (0 # 1 # a) None st1 = Inr (FValue NInt, st1')" and m: "set_method a m st1' = Inr ((), st2)"
    using run r by (auto simp: infer_index_def kids_eq args numbered_simps split: nty.splits option.splits if_splits)
  have in_e: "recv \<in> set (below (ex_kind e))" "set args \<subseteq> set (below (ex_kind e))" using e by (auto simp: below_def)
  note gr = sound_value(1) [OF sound_belowD [OF H in_e(1)] r fresh_sub [OF fresh subtree_child]]
  have "fresh (subtree (1 # a)) st1" by (rule fresh_later [OF gr fresh subtree_child]) (simp add: subtree_disjoint)
  then have f1: "fresh (places (numbered (1 # a) args)) st1" using places_in by (rule fresh_sub)
  have vs: "all_valued (numbered (1 # a) args) st1 st1'"
    using i sound_belowD [OF H] in_e by (auto simp: args numbered_simps intro: valued_run)
  have d: "subtree (0 # a) \<inter> places (numbered (1 # a) args) = {}" by (simp add: places_disjoint)
  note g = good_seq [OF gr good_values [OF siblings_numbered vs f1] d]
  note parts = kid_below [OF in_e(1)] list_below [OF in_e(2)]
  show ?thesis
  proof (rule node_method [OF g _ _ _ m])
    show "subtree (0 # a) \<union> places (numbered (1 # a) args) \<subseteq> subtree a - {a}" by (intro Un_least below_node)
    show "assigns recv \<union> all_assigns (numbered (1 # a) args) \<subseteq> assigns e"
      "sure e \<Longrightarrow> sure recv \<and> all_sure (numbered (1 # a) args)" using parts by blast+
    show "\<not> is_var_expr e" using e by (simp add: is_var_expr_def)
    fix tp assume "value_ok recv (0 # a) rt tp \<and> values_ok tp (accepted tp) (numbered (1 # a) args)"
      "at_node a (FValue t) (is_typed st2) tp"
    then show "accepted tp e a \<and> live_expr tp e a =
        (\<lambda>l. bindP (live_seq (live_expr tp) (numbered (1 # a) args) l) (live_expr tp recv (0 # a)))"
      using e args by (auto simp: accepted.simps [of tp e a] live_kinds value_ok_def at_node_value)
  qed (use fresh in simp_all)
qed

lemma node_sqrt:
  assumes e: "ex_kind e = ECall (Some r) nm args None safe parens" "is_const r"
    and H: "sound_below f e"
    and run: "infer_sqrt cx a (0 # a) (arg_kids f (1 # a) args) st = Inr (fl, st2)" and fresh: "fresh (subtree a) st"
  shows "node_typed e a st fl st2"
proof -
  obtain c where "arg_kids f (1 # a) args = [APos c]"
    using run by (auto simp: infer_sqrt_def split: list.splits arg.splits)
  moreover from this have "length (arg_kids f (1 # a) args) = 1" by simp
  then obtain y where "args = [y]" by (cases args; cases "tl args") (auto simp: arg_kids_def numbered_def)
  ultimately obtain x where args: "args = [APos x]" and c: "c = kid f (0 # 1 # a) x"
    by (cases y) (auto simp: arg_kids_def numbered_simps)
  obtain t st1 st1' where x: "f x (0 # 1 # a) None st = Inr (FValue t, st1)"
      and ty: "set_type (0 # a) FUnit st1 = Inr ((), st1')" and m: "set_method a MSqrt st1' = Inr ((), st2)"
      and fl: "fl = FValue NFloat"
    using run by (auto simp: infer_sqrt_def args arg_kids_def numbered_simps simp del: map_typed_Inr split: if_splits)
  let ?xs = "[(0 # 1 # a, x)]"
  have xs: "arg_values (1 # a) args = Some ?xs" by (simp add: args arg_values_def numbered_simps)
  note parts = call_args [OF e(1) xs H]
  have vs: "all_valued ?xs st st1" using x parts(1) by (auto intro: valued_run)
  have f1: "fresh (subtree (1 # a)) st" using fresh_sub [OF fresh subtree_child] .
  have d: "places ?xs \<inter> {0 # a} = {}" using point_child [OF parts(3) zero_neq_one] by (simp only: Int_commute)
  note g = good_seq [OF good_args [OF e(1) xs vs f1] good_set_type [OF ty] d]
  show ?thesis
  proof (rule node_method [OF g _ _ _ m])
    show "places ?xs \<union> {0 # a} \<subseteq> subtree a - {a}" using point_below order_trans [OF parts(3) subtree_below] by (intro Un_least)
    show "all_assigns ?xs \<union> {} \<subseteq> assigns e" "sure e \<Longrightarrow> all_sure ?xs \<and> True" using parts(4,5) by auto
    show "\<not> is_var_expr e" by (rule call_not_var [OF e(1)])
    fix tp assume "values_ok tp (accepted tp) ?xs \<and> True" "at_node a fl (is_typed st2) tp" "tp_methods tp a = Some MSqrt"
      "tp_constructs tp a = None"
    then show "accepted tp e a \<and> live_expr tp e a = (\<lambda>l. bindP (noop tp l) (live_seq (live_expr tp) ?xs))"
      using e xs fl live_call_args [OF e(1) xs]
      by (auto simp: accepted.simps [of tp e a] at_node_value has_value_ends)
  qed (use fresh fl in simp_all)
qed

subsection \<open>Methods\<close>

lemma method_with_arg_run:
  assumes "method_with_arg cx r t name (kid f b x) st = Inr ((m, ro), st')"
  shows "(\<exists>op. m = MStr op \<and> ro = Some NBool \<and> f x b None st = Inr (FValue NStr, st')) \<or>
    (\<exists>el item st1 st2. t = NArray el \<and> m = MPush \<and> ro = None \<and> f x b (elem_ty el) st = Inr (FValue item, st1) \<and>
      store_elem cx r el item st1 = Inr ((), st2) \<and> set_mutates st2 = Inr ((), st'))"
proof (cases t)
  case (NArray el)
  with assms show ?thesis by (auto simp: method_with_arg_def Let_def split: if_splits)
next
  case NStr
  with assms show ?thesis by (auto simp: method_with_arg_def Let_def split: if_splits)
qed (use assms in \<open>simp_all add: method_with_arg_def Let_def\<close>)

definition plain_meth :: "meth \<Rightarrow> bool" where
  "plain_meth m \<longleftrightarrow> \<not> loops m \<and> m \<noteq> MPush \<and> m \<noteq> MSqrt"

lemma simple_methods_plain: "(ns, m, r) \<in> set (simple_methods t) \<Longrightarrow> plain_meth m"
  by (cases t) (auto simp: simple_methods_def plain_meth_def loops_def split: if_splits)

lemma method_alone_run:
  assumes "method_alone cx t name st = Inr ((m, ro), st')"
  shows "(st' = st \<or> set_mutates st = Inr ((), st')) \<and> ro \<noteq> None \<and> plain_meth m"
proof (cases "find (\<lambda>(names, _). name \<in> set names) (simple_methods t)")
  case (Some y)
  then have "y \<in> set (simple_methods t)" by (metis find_Some_iff nth_mem)
  with simple_methods_plain [of "fst y" "fst (snd y)" "snd (snd y)"] assms Some show ?thesis
    by (cases y) (auto simp: method_alone_def)
next
  case None
  show ?thesis
  proof (cases t)
    case (NArray el)
    with assms None show ?thesis
      by (auto simp: method_alone_def element_method_def plain_meth_def loops_def split: if_splits option.splits)
  next
    case (NStruct i)
    with assms None show ?thesis
      by (auto simp: method_alone_def Let_def plain_meth_def loops_def split: if_splits option.splits)
  qed (use assms None in \<open>simp_all add: method_alone_def\<close>)
qed

lemma plain_method_run:
  assumes run: "plain_method cx r t name (kids_of f xs) st = Inr ((m, ro), st')"
    and xs: "sound_kids f xs" "siblings c xs" "fresh (places xs) st" and read: "array_read r t st"
  shows "good st st' (places xs) (all_assigns xs) (all_sure xs) (\<lambda>tp. values_ok tp (accepted tp) xs)
      (\<lambda>tp. live_seq (live_expr tp) xs) (is_assigned st')"
    and "length xs \<le> 1" "m = MPush \<and> length xs = 1 \<and> ro = None \<or> plain_meth m \<and> ro \<noteq> None"
proof -
  have "(good st st' (places xs) (all_assigns xs) (all_sure xs) (\<lambda>tp. values_ok tp (accepted tp) xs)
      (\<lambda>tp. live_seq (live_expr tp) xs) (is_assigned st')) \<and> length xs \<le> 1 \<and>
      (m = MPush \<and> length xs = 1 \<and> ro = None \<or> plain_meth m \<and> ro \<noteq> None)"
  proof (cases xs)
    case Nil
    with run have alone: "method_alone cx t name st = Inr ((m, ro), st')" by (simp add: plain_method_def)
    have "good st st' {} {} True (\<lambda>tp. True) noop (is_assigned st')"
      using method_alone_run [OF alone] good_refl good_mutates by blast
    then have "good st st' {} {} True (\<lambda>tp. True) (\<lambda>tp. live_seq (live_expr tp) []) (is_assigned st')"
      by (rule good_weaken) (simp_all add: fun_eq_iff)
    with method_alone_run [OF alone] Nil show ?thesis by (simp add: values_ok_def)
  next
    case (Cons y ys)
    obtain b x where y: "y = (b, x)" by force
    have ys: "ys = []" using run by (cases ys) (auto simp: Cons y plain_method_def kids_of_def)
    have run': "method_with_arg cx r t name (kid f b x) st = Inr ((m, ro), st')"
      using run by (simp add: Cons y ys plain_method_def kid_def)
    have sound: "sound_run (f x b) x b" using xs(1) by (simp add: Cons y)
    have vals: "good st st1 (places xs) (all_assigns xs) (all_sure xs) (\<lambda>tp. values_ok tp (accepted tp) xs)
      (\<lambda>tp. live_seq (live_expr tp) xs) (is_assigned st1)" if "f x b ex st = Inr (FValue u, st1)" for ex u st1
      by (rule good_values [OF xs(2) _ xs(3)]) (use valued_run [of "f x b", OF sound that] in \<open>auto simp: Cons y ys\<close>)
    from method_with_arg_run [OF run'] show ?thesis
    proof (elim disjE exE conjE)
      fix op assume "m = MStr op" "ro = Some NBool" "f x b None st = Inr (FValue NStr, st')"
      with vals show ?thesis by (auto simp: Cons ys plain_meth_def loops_def)
    next
      fix el item st1 st2
      assume push: "t = NArray el" "m = MPush" "ro = None" "f x b (elem_ty el) st = Inr (FValue item, st1)"
        "store_elem cx r el item st1 = Inr ((), st2)" "set_mutates st2 = Inr ((), st')"
      note v = vals [OF push(4)]
      have "array_read r (NArray el) st1" using array_read_later [OF read v] push(1) by simp
      note gs = good_seq [OF good_store [OF push(5) this] good_mutates [OF push(6)] Int_empty_left]
      have "places xs \<inter> ({} \<union> {}) = {}" by simp
      from good_seq [OF v gs this] push show ?thesis by (simp add: Cons ys)
    qed
  qed
  then show "good st st' (places xs) (all_assigns xs) (all_sure xs) (\<lambda>tp. values_ok tp (accepted tp) xs)
      (\<lambda>tp. live_seq (live_expr tp) xs) (is_assigned st')" "length xs \<le> 1"
    "m = MPush \<and> length xs = 1 \<and> ro = None \<or> plain_meth m \<and> ro \<noteq> None" by blast+
qed

lemma constant_is_const: "constant_name r = Some n \<Longrightarrow> is_const r"
  by (auto simp: constant_name_def is_const_def split: expr_kind.splits)

lemma node_plain_method:
  assumes e: "ex_kind e = ECall (Some r) nm args None safe parens" and H: "sound_below f e"
    and run: "infer_method cx a (kid f (0 # a) r) name (arg_kids f (1 # a) args) None st = Inr (fl, st2)"
    and fresh: "fresh (subtree a) st"
  shows "node_typed e a st fl st2"
proof -
  obtain t st1 where r: "f r (0 # a) None st = Inr (FValue t, st1)"
    using run unfolding infer_method_def bindI_Inr value_of_kid by blast
  obtain cs st1' m ro st1'' where pos: "lift_inf (positional name (arg_kids f (1 # a) args)) st1 = Inr (cs, st1')"
      and plain: "plain_method cx r t name cs st1' = Inr ((m, ro), st1'')"
      and m: "set_method a m st1'' = Inr ((), st2)" and fl: "fl = (case ro of None \<Rightarrow> FUnit | Some r \<Rightarrow> FValue r)"
    using run r by (auto simp: infer_method_def kid_def simp del: lift_inf_Inr)
  obtain xs where xs: "arg_values (1 # a) args = Some xs" and cs: "cs = kids_of f xs" "st1' = st1"
    by (rule positional_run [OF pos])
  have in_e: "r \<in> set (below (ex_kind e))" using e by (simp add: below_def option_list_def)
  note gr = sound_value [OF sound_belowD [OF H in_e] r fresh_sub [OF fresh subtree_child]]
  note parts = call_args [OF e xs H] and kid = kid_below [OF in_e]
  have "fresh (subtree (1 # a)) st1" by (rule fresh_later [OF gr(1) fresh subtree_child]) (simp add: subtree_disjoint)
  then have f1: "fresh (places xs) st1" using parts(3) by (rule fresh_sub)
  note p = plain_method_run [OF plain [unfolded cs] parts(1,2) f1 was_read_array [OF gr(2)]]
  have d: "subtree (0 # a) \<inter> places xs = {}" using apart [OF order_refl parts(3) zero_neq_one] .
  note g = good_seq [OF gr(1) p(1) d]
  show ?thesis
  proof (rule node_method [OF g _ _ _ m])
    show "subtree (0 # a) \<union> places xs \<subseteq> subtree a - {a}"
      using subtree_below order_trans [OF parts(3) subtree_below] by (intro Un_least)
    show "assigns r \<union> all_assigns xs \<subseteq> assigns e" "sure e \<Longrightarrow> sure r \<and> all_sure xs" using parts kid by blast+
    show "\<not> is_var_expr e" by (rule call_not_var [OF e])
    show "fl \<noteq> FNever" by (simp add: fl split: option.split)
    fix tp assume P: "value_ok r (0 # a) t tp \<and> values_ok tp (accepted tp) xs" and at: "at_node a fl (is_typed st2) tp"
      and tab: "tp_methods tp a = Some m" "tp_constructs tp a = None"
    have ok: "method_ok tp a m (length xs) False \<and> m \<noteq> MSqrt \<and> not_never tp a"
      using p(2,3) at by (auto simp: method_ok_def plain_meth_def fl has_value_ends at_node_value at_node_unit)
    show "accepted tp e a \<and> live_expr tp e a = (\<lambda>l. bindP (live_seq (live_expr tp) xs l) (live_expr tp r (0 # a)))"
      using P ok tab e xs by (auto simp: accepted.simps [of tp e a] live_kinds value_ok_def)
  qed (rule fresh)
qed

subsection \<open>Methods with a block\<close>

lemma elem_ty_plain: "elem_ty e = Some t \<Longrightarrow> \<not> is_array t"
  by (cases e) auto

lemma loop_params_run:
  assumes run: "loop_params cx t name (kids_of f xs) st = Inr ((m, ps), st')" and xs: "sound_kids f xs"
  shows "all_valued xs st st'" "loops m" "length xs = (if m = MUpto then 1 else 0)"
    "list_all (\<lambda>t. \<not> is_array t) ps" "\<exists>p. ps = (if m = MEachWithIndex then [p, NInt] else [p])"
proof -
  have "all_valued xs st st' \<and> loops m \<and> length xs = (if m = MUpto then 1 else 0) \<and> list_all (\<lambda>t. \<not> is_array t) ps \<and>
    (\<exists>p. ps = (if m = MEachWithIndex then [p, NInt] else [p]))"
  proof (cases "t = NInt")
    case True
    show ?thesis
    proof (cases xs)
      case Nil
      with run True show ?thesis by (auto simp: loop_params_def Let_def loops_def split: if_splits)
    next
      case (Cons y ys)
      obtain b x where y: "y = (b, x)" by force
      have ys: "ys = []" using run True by (cases ys) (auto simp: Cons y loop_params_def Let_def kids_of_def)
      have "m = MUpto" "ps = [NInt]" "f x b None st = Inr (FValue NInt, st')"
        using run True by (auto simp: Cons y ys loop_params_def Let_def split: if_splits)
      moreover have "sound_run (f x b) x b" using xs by (simp add: Cons y)
      ultimately show ?thesis using valued_run [of "f x b"] by (simp add: Cons y ys loops_def)
    qed
  next
    case False
    obtain el where t: "t = NArray el"
      using run False by (cases t; cases "kids_of f xs") (auto simp: loop_params_def Let_def)
    have Nil: "xs = []"
      using run by (cases xs) (auto simp: t loop_params_def Let_def kids_of_def)
    with run show ?thesis
      by (auto simp: t loop_params_def Let_def loops_def elem_ty_plain split: if_splits option.splits)
  qed
  then show "all_valued xs st st'" "loops m" "length xs = (if m = MUpto then 1 else 0)"
    "list_all (\<lambda>t. \<not> is_array t) ps" "\<exists>p. ps = (if m = MEachWithIndex then [p, NInt] else [p])" by blast+
qed

lemma bound_block_ok:
  assumes "bound_as (zip names ps) tp" "length names = length ps" "ps = (if m = MEachWithIndex then [p, NInt] else [p])"
    and "tp_blocks tp a = Some names"
  shows "block_ok tp a m"
proof (cases "m = MEachWithIndex")
  case True
  with assms(2,3) obtain n1 n2 where n: "names = [n1, n2]" by (auto simp: length_Suc_conv)
  with assms True have "known_var tp n1" "known_var tp n2" "\<not> is_heap_var tp n2" by (auto simp: bound_as_def)
  then show ?thesis using True n assms(4) by (simp add: block_ok_def)
next
  case False
  with assms(2,3) obtain n1 where n: "names = [n1]" by (auto simp: length_Suc_conv)
  with assms False have "known_var tp n1" by (auto simp: bound_as_def)
  then show ?thesis using False n assms(4) by (simp add: block_ok_def)
qed

lemma node_block_method:
  assumes e: "ex_kind e = ECall (Some r) nm args (Some b) safe parens" and H: "sound_below f e"
    and run: "infer_method cx a (kid f (0 # a) r) name (arg_kids f (1 # a) args)
      (Some (b, kids f (2 # a) (bd_stmts (bk_body b)))) st = Inr (fl, st3)"
    and fresh: "fresh (subtree a) st"
  shows "node_typed e a st fl st3"
proof -
  obtain t st1 where r: "f r (0 # a) None st = Inr (FValue t, st1)"
    using run unfolding infer_method_def bindI_Inr value_of_kid by blast
  obtain cs st1' m ps sta st2 where pos: "lift_inf (positional name (arg_kids f (1 # a) args)) st1 = Inr (cs, st1')"
      and lp: "loop_params cx t name cs st1' = Inr ((m, ps), sta)"
      and blk: "infer_block cx a b (kids f (2 # a) (bd_stmts (bk_body b))) ps sta = Inr ((), st2)"
      and m: "set_method a m st2 = Inr ((), st3)" and fl: "fl = FUnit"
    using run r by (auto simp: infer_method_def block_method_def kid_def simp del: lift_inf_Inr)
  obtain xs where xs: "arg_values (1 # a) args = Some xs" and cs: "cs = kids_of f xs" "st1' = st1"
    by (rule positional_run [OF pos])
  have in_e: "r \<in> set (below (ex_kind e))" "set (bd_stmts (bk_body b)) \<subseteq> set (below (ex_kind e))"
    using e by (auto simp: below_def option_list_def)
  note gr = sound_value(1) [OF sound_belowD [OF H in_e(1)] r fresh_sub [OF fresh subtree_child]]
  note parts = call_args [OF e xs H] and kid = kid_below [OF in_e(1)] and body = list_below [OF in_e(2)]
  note lp_run = loop_params_run [OF lp [unfolded cs] parts(1)]
  have "fresh (subtree (1 # a)) st1" by (rule fresh_later [OF gr fresh subtree_child]) (simp add: subtree_disjoint)
  note ga = good_args [OF e xs lp_run(1) this]
  have d1: "subtree (0 # a) \<inter> places xs = {}" using apart [OF order_refl parts(3) zero_neq_one] .
  note g1 = good_seq [OF gr ga d1]
  let ?es = "block_stmts a b"
  have es: "places ?es \<subseteq> subtree (2 # a)" unfolding block_stmts_def by (rule places_in)
  have d2: "(subtree (0 # a) \<union> places xs) \<inter> subtree (2 # a) = {}"
    using apart [OF parts(3) order_refl, of 2] subtree_disjoint [of 0 2 a] by (simp add: Int_Un_distrib2)
  have fb: "fresh (subtree (2 # a)) sta" by (rule fresh_later [OF g1 fresh subtree_child d2])
  have sb: "sound_kids f ?es" unfolding block_stmts_def by (rule sound_kids_below [OF H in_e(2)])
  obtain stb where gb: "good sta stb (places ?es) {} (all_sure ?es)
      (\<lambda>tp. bound_as (zip (block_names b) ps) tp \<and> statements_ok tp (accepted tp) ?es \<and> \<not> never_ends tp ?es)
      (block_live a (block_names b) (\<lambda>tp. live_seq (live_expr tp) ?es)) (is_assigned stb)"
    and st2: "is_assigned st2 = is_assigned stb"
      "is_typed st2 = (is_typed stb)\<lparr>tp_blocks := (tp_blocks (is_typed stb))(a \<mapsto> block_names b)\<rparr>"
    and len: "length (block_names b) = length ps"
    by (rule block_run [OF blk lp_run(4) sb fb])
  have d3: "(subtree (0 # a) \<union> places xs) \<inter> places ?es = {}" using d2 es by blast
  note g = good_seq [OF g1 gb d3]
  have A: "subtree (0 # a) \<union> places xs \<union> places ?es \<subseteq> subtree a - {a}"
    using subtree_below order_trans [OF parts(3) subtree_below] order_trans [OF es subtree_below] by (intro Un_least)
  note st3 = set_method_run [OF m]
  let ?B = "block_live a (block_names b) (\<lambda>tp. live_seq (live_expr tp) ?es)"
  let ?F = "\<lambda>tp l. bindP (?B tp l) (\<lambda>l. bindP (live_seq (live_expr tp) xs l) (live_expr tp r (0 # a)))"
  let ?P = "\<lambda>tp. (value_ok r (0 # a) t tp \<and> values_ok tp (accepted tp) xs) \<and> bound_as (zip (block_names b) ps) tp \<and>
    statements_ok tp (accepted tp) ?es \<and> \<not> never_ends tp ?es"
  show ?thesis
  proof (rule node_typedI)
    show "good st stb (subtree (0 # a) \<union> places xs \<union> places ?es) (assigns r \<union> all_assigns xs \<union> {})
        ((sure r \<and> all_sure xs) \<and> all_sure ?es) ?P ?F (assigned_after fl stb)"
      unfolding fl assigned_after_simps by (rule g)
    show "subtree (0 # a) \<union> places xs \<union> places ?es \<subseteq> subtree a - {a}" by (rule A)
    show "assigns r \<union> all_assigns xs \<union> {} \<subseteq> assigns e" using parts(4) kid(1) by simp
    show "sure e \<Longrightarrow> (sure r \<and> all_sure xs) \<and> all_sure ?es" using parts(5) kid(2) body(2) by (simp add: block_stmts_def)
    show "is_assigned st3 = is_assigned stb" by (simp add: st3 st2)
    show "extends {a} (is_typed stb) (is_typed st3)"
      using extends_trans [OF extends_block [of a "is_typed stb" "block_names b"] extends_method [of a _ m]] by (simp add: st3 st2)
    show "was_read e fl st3" using call_not_var [OF e] by (rule was_read_other)
    fix tp assume P: "?P tp" and at: "at_node a fl (is_typed st3) tp"
    have tab: "tp_methods tp a = Some m" "tp_constructs tp a = None" "tp_blocks tp a = Some (block_names b)"
      using at untouched(2) [OF fresh g A] by (simp_all add: at_node_def st3 st2)
    obtain p where p: "ps = (if m = MEachWithIndex then [p, NInt] else [p])" using lp_run(5) by blast
    have ok: "method_ok tp a m (length xs) True \<and> m \<noteq> MSqrt"
      using bound_block_ok [OF _ len p tab(3)] P lp_run(2,3) at by (auto simp: method_ok_def fl at_node_unit loops_def)
    have "accepted tp e a"
      using P ok tab e xs at by (simp add: accepted.simps [of tp e a] value_ok_def block_stmts_def fl at_node_unit)
    moreover have "live_inlined tp a (live_seq (live_expr tp) ?es) = ?B tp"
      using live_inlined_block [OF tab(3,1) lp_run(2), of "\<lambda>tp. live_seq (live_expr tp) ?es"] .
    ultimately show "accepted tp e a \<and> live_expr tp e a = ?F tp"
      using e xs by (simp add: live_kinds block_stmts_def)
  qed
qed

end
