(* ===== verification/Infer_Sound.thy ===== *)
theory Infer_Sound
  imports Infer_Calls
begin

text \<open>
  What \<open>infer\<close> guarantees: a body that it accepts, for a function that the interpreter hosts, is
  \<open>accepted\<close> node by node with the tables it returns, and every variable that is live on entry is a
  parameter. With that, no check of the translator's ownership can fail (\<open>infer_translates\<close>).
\<close>

subsection \<open>Every expression\<close>

text \<open>No block is given to a method of a constant, as in \<open>Math.sqrt(x) { }\<close>.\<close>

function bare_constants :: "expr \<Rightarrow> bool" where
  "bare_constants e \<longleftrightarrow>
     (case ex_kind e of ECall (Some r) _ _ (Some b) _ _ \<Rightarrow> \<not> is_const r | _ \<Rightarrow> True) \<and>
     (\<forall>x \<in> set (below (ex_kind e)). bare_constants x)"
  by auto
termination
  by (relation "measure size") (auto dest: size_below)

declare bare_constants.simps [simp del]

lemma bare_below: "bare_constants e \<Longrightarrow> x \<in> set (below (ex_kind e)) \<Longrightarrow> bare_constants x"
  by (subst (asm) bare_constants.simps) auto

lemma bare_call: "bare_constants e \<Longrightarrow> ex_kind e = ECall (Some r) nm args (Some b) safe parens \<Longrightarrow> \<not> is_const r"
  by (subst (asm) bare_constants.simps) simp

lemma infer_expr_node:
  "infer_expr cx e a ex = bindI (case ex_kind e of
        EInt _ \<Rightarrow> accept (FValue NInt)
      | EFloat _ \<Rightarrow> accept (FValue NFloat)
      | EBool _ \<Rightarrow> accept (FValue NBool)
      | EStr segs \<Rightarrow> bindI (infer_string cx (kids (infer_expr cx) a (seg_exprs segs))) (\<lambda>t. accept (FValue t))
      | EArray items \<Rightarrow> bindI (infer_array cx (kids (infer_expr cx) a items) ex) (\<lambda>t. accept (FValue t))
      | EVar name \<Rightarrow>
          (\<lambda>st. if is_builtin cx (is_typed st) name then infer_builtin cx a name [] st
                else bindI (read_local cx name) (\<lambda>t. accept (FValue t)) st)
      | EAssign target v \<Rightarrow>
          infer_assign cx (target_kids (infer_expr cx) (0 # a) target) (kid (infer_expr cx) (1 # a) v)
      | EOpAssign op target v \<Rightarrow>
          infer_op_assign cx op (0 # a) (target_kids (infer_expr cx) (0 # a) target) (kid (infer_expr cx) (1 # a) v)
      | EBinary op l r \<Rightarrow> infer_binary cx op (kid (infer_expr cx) (0 # a) l) (kid (infer_expr cx) (1 # a) r)
      | EUnary op x \<Rightarrow> bindI (infer_unary cx op (kid (infer_expr cx) (0 # a) x)) (\<lambda>t. accept (FValue t))
      | EIf cond thn els \<Rightarrow>
          infer_if cx (kid (infer_expr cx) (0 # a) cond) (kids (infer_expr cx) (1 # a) thn)
            (map_option (\<lambda>es. kids (infer_expr cx) (2 # a) es) els) ex
      | EWhile cond body \<Rightarrow>
          bindI (condition cx (kid (infer_expr cx) (0 # a) cond)) (\<lambda>_.
          bindI (loop_body (bindI (infer_stmts (kids (infer_expr cx) (1 # a) body) None) (\<lambda>_. accept ()))) (\<lambda>_.
          accept FUnit))
      | EReturn v \<Rightarrow> infer_return cx (map_option (\<lambda>x. kid (infer_expr cx) (0 # a) x) v)
      | EIndex recv args \<Rightarrow>
          bindI (infer_index cx a (kid (infer_expr cx) (0 # a) recv) (kids (infer_expr cx) (1 # a) args))
            (\<lambda>t. accept (FValue t))
      | ECall recv name args blk safe parens \<Rightarrow>
          (if safe then refuse (str ''uses '' @ describe_kind (ex_kind e))
           else infer_call cx a (map_option (\<lambda>x. kid (infer_expr cx) (0 # a) x) recv) (id_name name)
             (arg_kids (infer_expr cx) (1 # a) args)
             (map_option (\<lambda>b. (b, kids (infer_expr cx) (2 # a) (bd_stmts (bk_body b)))) blk))
      | k \<Rightarrow> refuse (str ''uses '' @ describe_kind k)) (finish a)"
  unfolding infer_expr.simps [of cx e a ex] finish_def ..

lemma node_assign:
  assumes e: "ex_kind e = EAssign tg v" and H: "sound_below f e" and Ht: "sound_below f tg"
    and run: "infer_assign cx (target_kids f (0 # a) tg) (kid f (1 # a) v) st = Inr (fl, st')" and fresh: "fresh (subtree a) st"
  shows "node_typed e a st fl st'"
proof -
  have v: "sound_run (f v (1 # a)) v (1 # a)" by (rule sound_belowD [OF H]) (simp add: e below_def)
  consider (var) n where "ex_kind tg = EVar n" | (index) r args where "ex_kind tg = EIndex r args"
    using run by (cases "ex_kind tg") (auto simp: target_kids_def infer_assign_def)
  then show ?thesis
  proof cases
    case var
    then obtain t st1 where "f v (1 # a) (declared cx n st) st = Inr (FValue t, st1)" "define_local cx n t st1 = Inr ((), st')"
        and fl: "fl = assigned_flow t"
      using run by (auto simp: target_kids_def infer_assign_def)
    from node_assign_var [where f = f, OF e var this(1) v this(2) fresh] show ?thesis by (simp add: fl)
  next
    case index
    then obtain item st1 el st2 st3 where r: "f v (1 # a) None st = Inr (FValue item, st1)"
        "element_target cx (kid f (0 # 0 # a) r) (kids f (1 # 0 # a) args) st1 = Inr (el, st2)"
        "store_elem cx r el item st2 = Inr ((), st3)" "set_mutates st3 = Inr ((), st')" and fl: "fl = FUnit"
      using run by (auto simp: target_kids_def infer_assign_def) (auto simp: kid_def)
    have "sound_run (f r (0 # 0 # a)) r (0 # 0 # a)" "sound_kids f (numbered (1 # 0 # a) args)"
      using sound_belowD [OF Ht] sound_kids_below [OF Ht] index by (auto simp: below_def)
    from node_assign_index [where f = f, OF e index r(1) v r(2) this r(3,4) fresh] show ?thesis by (simp add: fl)
  qed
qed

lemma node_op_assign:
  assumes e: "ex_kind e = EOpAssign op tg v" and H: "sound_below f e" and Ht: "sound_below f tg"
    and run: "infer_op_assign cx op (0 # a) (target_kids f (0 # a) tg) (kid f (1 # a) v) st = Inr (fl, st')"
    and fresh: "fresh (subtree a) st"
  shows "node_typed e a st fl st'"
proof -
  have v: "sound_run (f v (1 # a)) v (1 # a)" by (rule sound_belowD [OF H]) (simp add: e below_def)
  consider (var) n where "ex_kind tg = EVar n" | (index) r args where "ex_kind tg = EIndex r args"
    using run by (cases "ex_kind tg") (auto simp: target_kids_def infer_op_assign_def)
  then show ?thesis
  proof cases
    case var
    then obtain cur st1 st2 rhs st3 t st4 where r: "read_local cx n st = Inr (cur, st1)"
        "set_type (0 # a) (FValue cur) st1 = Inr ((), st2)" "f v (1 # a) None st2 = Inr (FValue rhs, st3)"
        "binary_types cx op cur rhs st3 = Inr (t, st4)" "define_local cx n t st4 = Inr ((), st')" and fl: "fl = assigned_flow t"
      using run by (auto simp: target_kids_def infer_op_assign_def simp del: map_typed_Inr split: if_splits)
    have "st4 = st3" by (rule binary_types_run [OF r(4)])
    with node_op_assign_var [where f = f, OF e var r(1,2,3) v _ fresh] r(5) show ?thesis by (simp add: fl)
  next
    case index
    then obtain el st1 cur st2 rhs st3 t st4 st5 where r: "element_target cx (kid f (0 # 0 # a) r) (kids f (1 # 0 # a) args) st = Inr (el, st1)"
        "set_type (0 # a) (FValue cur) st1 = Inr ((), st2)" "f v (1 # a) None st2 = Inr (FValue rhs, st3)"
        "binary_types cx op cur rhs st3 = Inr (t, st4)" "store_elem cx r el t st4 = Inr ((), st5)" "set_mutates st5 = Inr ((), st')"
        and fl: "fl = FUnit"
      using run by (auto simp: target_kids_def infer_op_assign_def simp del: map_typed_Inr split: if_splits option.splits)
        (auto simp: kid_def)
    have "sound_run (f r (0 # 0 # a)) r (0 # 0 # a)" "sound_kids f (numbered (1 # 0 # a) args)"
      using sound_belowD [OF Ht] sound_kids_below [OF Ht] index by (auto simp: below_def)
    with node_op_assign_index [where f = f, OF e index r(1) _ _ r(2,3) v _ r(6) fresh] binary_types_run [OF r(4)] r(5) show ?thesis
      by (simp add: fl)
  qed
qed

lemma node_call:
  assumes e: "ex_kind e = ECall recv nm args blk safe parens" and H: "sound_below f e" and hosted: "ix_target cx = Hosted"
    and bare: "bare_constants e"
    and run: "infer_call cx a (map_option (\<lambda>x. kid f (0 # a) x) recv) name (arg_kids f (1 # a) args)
      (map_option (\<lambda>b. (b, kids f (2 # a) (bd_stmts (bk_body b)))) blk) st = Inr (fl, st')"
    and fresh: "fresh (subtree a) st"
  shows "node_typed e a st fl st'"
proof (cases recv)
  case None
  have blk: "blk = None" using run None by (auto simp: infer_call_def Option.is_none_def split: if_splits option.splits)
  show ?thesis
  proof (cases "starts_uppercase (ix_env cx) name")
    case True
    with run None blk have "infer_construct cx a name (arg_kids f (1 # a) args) st = Inr (fl, st')" by (simp add: infer_call_def)
    moreover have "skips_const a st st" by (simp add: skips_const_def)
    ultimately show ?thesis using node_construct [OF e [unfolded None blk] _ H] fresh by blast
  next
    case False
    with run None blk hosted have "infer_function cx name (arg_kids f (1 # a) args) st = Inr (fl, st')"
      by (simp add: infer_call_def is_builtin_def)
    from node_function [OF e [unfolded None blk] H this fresh] show ?thesis .
  qed
next
  case (Some r)
  show ?thesis
  proof (cases "constant_name r")
    case None
    show ?thesis
    proof (cases blk)
      case blk: None
      with run Some None have "infer_method cx a (kid f (0 # a) r) name (arg_kids f (1 # a) args) None st = Inr (fl, st')"
        by (simp add: infer_call_def kid_def)
      from node_plain_method [OF e [unfolded Some blk] H this fresh] show ?thesis .
    next
      case blk: (Some b)
      with run Some None have "infer_method cx a (kid f (0 # a) r) name (arg_kids f (1 # a) args)
          (Some (b, kids f (2 # a) (bd_stmts (bk_body b)))) st = Inr (fl, st')"
        by (simp add: infer_call_def kid_def)
      from node_block_method [OF e [unfolded Some blk] H this fresh] show ?thesis .
    qed
  next
    case (Some ty)
    note const = constant_is_const [OF this]
    have blk: "blk = None" using bare_call [OF bare] e \<open>recv = Some r\<close> const by (cases blk) auto
    show ?thesis
    proof (cases "ty = str ''Math'' \<and> name = str ''sqrt''")
      case True
      with run \<open>recv = Some r\<close> Some have "infer_sqrt cx a (0 # a) (arg_kids f (1 # a) args) st = Inr (fl, st')"
        by (simp add: infer_call_def kid_def)
      from node_sqrt [OF e [unfolded \<open>recv = Some r\<close> blk] const H this fresh] show ?thesis .
    next
      case False
      with run \<open>recv = Some r\<close> Some blk obtain st0 where skip: "set_type (0 # a) FUnit st = Inr ((), st0)"
          and c: "infer_construct cx a ty (arg_kids f (1 # a) args) st0 = Inr (fl, st')"
        by (auto simp: infer_call_def kid_def set_type_def simp del: str_def split: if_splits)
      then have "skips_const a st st0" by (simp add: skips_const_def)
      from node_construct [OF e [unfolded blk] _ H this c fresh] const \<open>recv = Some r\<close> show ?thesis by blast
    qed
  qed
qed

theorem infer_expr_sound:
  "ix_target cx = Hosted \<Longrightarrow> ix_ret cx = Some r \<Longrightarrow> bare_constants e \<Longrightarrow> sound_run (infer_expr cx e a) e a"
proof (induction e arbitrary: a rule: measure_induct_rule [of size])
  case (less e)
  let ?f = "infer_expr cx"
  have IH: "size x < size e \<Longrightarrow> bare_constants x \<Longrightarrow> sound_run (?f x b) x b" for x b
    using less.IH less.prems(1,2) by blast
  have H: "sound_below ?f e"
    unfolding sound_below_def using IH size_below bare_below [OF less.prems(3)] by blast
  have Ht: "sound_below ?f x" if "x \<in> set (below (ex_kind e))" for x
    unfolding sound_below_def
  proof (intro ballI allI)
    fix y b assume y: "y \<in> set (below (ex_kind x))"
    have "size y < size e" using size_below [OF y] size_below [OF that] by simp
    moreover have "bare_constants y" using bare_below [OF bare_below [OF less.prems(3) that] y] .
    ultimately show "sound_run (?f y b) y b" by (rule IH)
  qed
  show ?case
    unfolding sound_run_def
  proof (intro allI impI)
    fix ex st fl st' assume fresh: "fresh (subtree a) st" and run: "?f e a ex st = Inr (fl, st')"
    have fin: "typed_node e a st fl st'" if "node_typed e a st fl1 st1" "finish a fl1 st1 = Inr (fl, st')" for fl1 st1
      using node_finished [OF that] by simp
    note run' = run [unfolded infer_expr_node [of cx e a ex] bindI_Inr]
    show "typed_node e a st fl st'"
    proof (cases "ex_kind e")
      case (EInt n)
      with run' have f: "finish a (FValue NInt) st = Inr (fl, st')" by auto
      show ?thesis by (rule fin [OF node_literal f]) (use EInt in auto)
    next
      case (EFloat n)
      with run' have f: "finish a (FValue NFloat) st = Inr (fl, st')" by auto
      show ?thesis by (rule fin [OF node_literal f]) (use EFloat in auto)
    next
      case (EBool n)
      with run' have f: "finish a (FValue NBool) st = Inr (fl, st')" by auto
      show ?thesis by (rule fin [OF node_literal f]) (use EBool in auto)
    next
      case (EStr segs)
      with run' obtain t st1 where s: "infer_string cx (kids ?f a (seg_exprs segs)) st = Inr (t, st1)"
          and f: "finish a (FValue t) st1 = Inr (fl, st')" by auto
      have in_e: "set (seg_exprs segs) \<subseteq> set (below (ex_kind e))" using EStr by (simp add: below_def)
      from node_values [OF infer_string_valued [OF s sound_kids_below [OF H in_e]] fresh in_e] EStr f show ?thesis by (auto intro: fin)
    next
      case (EArray items)
      with run' obtain t st1 where s: "infer_array cx (kids ?f a items) ex st = Inr (t, st1)"
          and f: "finish a (FValue t) st1 = Inr (fl, st')" by auto
      have in_e: "set items \<subseteq> set (below (ex_kind e))" using EArray by (simp add: below_def)
      from node_values [OF infer_array_valued [OF s sound_kids_below [OF H in_e]] fresh in_e] EArray f show ?thesis by (auto intro: fin)
    next
      case (EVar n)
      with run' less.prems(1) obtain t st1 where r: "read_local cx n st = Inr (t, st1)" "finish a (FValue t) st1 = Inr (fl, st')"
        by (auto simp: is_builtin_def)
      from fin [OF node_var [OF EVar r(1) fresh] r(2)] show ?thesis .
    next
      case (EAssign tg v)
      with run' obtain fl1 st1 where r: "infer_assign cx (target_kids ?f (0 # a) tg) (kid ?f (1 # a) v) st = Inr (fl1, st1)"
          "finish a fl1 st1 = Inr (fl, st')" by auto
      have "sound_below ?f tg" by (rule Ht) (simp add: EAssign below_def)
      from fin [OF node_assign [OF EAssign H this r(1) fresh] r(2)] show ?thesis .
    next
      case (EOpAssign op tg v)
      with run' obtain fl1 st1 where r: "infer_op_assign cx op (0 # a) (target_kids ?f (0 # a) tg) (kid ?f (1 # a) v) st = Inr (fl1, st1)"
          "finish a fl1 st1 = Inr (fl, st')" by auto
      have "sound_below ?f tg" by (rule Ht) (simp add: EOpAssign below_def)
      from fin [OF node_op_assign [OF EOpAssign H this r(1) fresh] r(2)] show ?thesis .
    next
      case (EBinary op l r)
      with run' obtain fl1 st1 where r: "infer_binary cx op (kid ?f (0 # a) l) (kid ?f (1 # a) r) st = Inr (fl1, st1)"
          "finish a fl1 st1 = Inr (fl, st')" by auto
      have "sound_run (?f l (0 # a)) l (0 # a)" "sound_run (?f r (1 # a)) r (1 # a)"
        using sound_belowD [OF H] EBinary by (simp_all add: below_def)
      from fin [OF node_binary [OF EBinary r(1) this fresh] r(2)] show ?thesis .
    next
      case (EUnary op x)
      with run' obtain t st1 where r: "infer_unary cx op (kid ?f (0 # a) x) st = Inr (t, st1)"
          "finish a (FValue t) st1 = Inr (fl, st')" by auto
      have "sound_run (?f x (0 # a)) x (0 # a)" using sound_belowD [OF H] EUnary by (simp add: below_def)
      from fin [OF node_unary [OF EUnary r(1) this fresh] r(2)] show ?thesis .
    next
      case (EIf cond thn els)
      with run' obtain fl1 st1 where r: "infer_if cx (kid ?f (0 # a) cond) (kids ?f (1 # a) thn)
          (map_option (\<lambda>es. kids ?f (2 # a) es) els) ex st = Inr (fl1, st1)" "finish a fl1 st1 = Inr (fl, st')" by auto
      have "cond \<in> set (below (ex_kind e))" "set thn \<subseteq> set (below (ex_kind e))" "set (else_list els) \<subseteq> set (below (ex_kind e))"
        by (auto simp: EIf below_def else_list_def)
      then have "sound_run (?f cond (0 # a)) cond (0 # a)" "sound_kids ?f (numbered (1 # a) thn)"
        "sound_kids ?f (numbered (2 # a) (else_list els))"
        using sound_belowD [OF H] sound_kids_below [OF H] by blast+
      from fin [OF node_if [OF EIf r(1) this fresh] r(2)] show ?thesis .
    next
      case (EWhile cond body)
      with run' obtain stc st1 t st2 where r: "condition cx (kid ?f (0 # a) cond) st = Inr ((), stc)"
          "infer_stmts (kids ?f (1 # a) body) None stc = Inr (t, st1)"
          "finish a FUnit (st1\<lparr>is_assigned := is_assigned stc\<rparr>) = Inr (fl, st')"
        by (auto simp: loop_body_run)
      have "sound_run (?f cond (0 # a)) cond (0 # a)" "sound_kids ?f (numbered (1 # a) body)"
        using sound_belowD [OF H] sound_kids_below [OF H] EWhile by (auto simp: below_def)
      from fin [OF node_while [OF EWhile r(1,2) this fresh] r(3)] show ?thesis .
    next
      case (EReturn v)
      with run' obtain fl1 st1 where r: "infer_return cx (map_option (\<lambda>x. kid ?f (0 # a) x) v) st = Inr (fl1, st1)"
          "finish a fl1 st1 = Inr (fl, st')" by auto
      have v: "sound_run (?f x (0 # a)) x (0 # a)" if "v = Some x" for x
        using sound_belowD [OF H] EReturn that by (simp add: below_def option_list_def)
      from fin [OF node_return [OF EReturn less.prems(2) r(1) v fresh] r(2)] show ?thesis by simp
    next
      case (EIndex recv args)
      with run' obtain t st1 where r: "infer_index cx a (kid ?f (0 # a) recv) (kids ?f (1 # a) args) st = Inr (t, st1)"
          "finish a (FValue t) st1 = Inr (fl, st')" by auto
      from fin [OF node_index [OF EIndex H r(1) fresh] r(2)] show ?thesis .
    next
      case (ECall recv nm args blk safe parens)
      with run' obtain fl1 st1 where r: "infer_call cx a (map_option (\<lambda>x. kid ?f (0 # a) x) recv) (id_name nm)
          (arg_kids ?f (1 # a) args) (map_option (\<lambda>b. (b, kids ?f (2 # a) (bd_stmts (bk_body b)))) blk) st = Inr (fl1, st1)"
          "finish a fl1 st1 = Inr (fl, st')" by (auto split: if_splits)
      from fin [OF node_call [OF ECall H less.prems(1,3) r(1) fresh] r(2)] show ?thesis .
    qed (use run' in simp_all)
  qed
qed

subsection \<open>A whole function\<close>

text \<open>Parameters as they are declared: different names, types that annotations can give.\<close>

definition params_ok :: "fn_def \<Rightarrow> signature \<Rightarrow> bool" where
  "params_ok d sg \<longleftrightarrow> distinct (param_names d) \<and> length (param_names d) = length (sg_params sg) \<and>
     list_all (\<lambda>t. \<not> is_unknown t) (sg_params sg)"

text \<open>
  Two bodies that \<open>infer\<close> accepts are left out. Where the right operand of \<open>&&\<close> or \<open>||\<close> assigns a
  variable, \<open>infer\<close> takes it as assigned although the operand may be skipped, and a local can be live on
  entry (\<open>sure\<close>); a block given to a method of a constant has no parameters in the tables and the
  analysis panics on it (\<open>bare_constants\<close>).
\<close>

definition regular_body :: "fn_def \<Rightarrow> bool" where
  "regular_body d \<longleftrightarrow> list_all (\<lambda>x. sure x \<and> bare_constants x) (bd_stmts (fn_body d))"

definition body_of :: "fn_def \<Rightarrow> (addr \<times> expr) list" where
  "body_of d = numbered [] (bd_stmts (fn_body d))"

lemma start_vars: "tp_vars (start_typed ps) = map_of (rev ps)" "tp_locals (start_typed ps) = []"
  "tp_methods (start_typed ps) = Map.empty" "tp_constructs (start_typed ps) = Map.empty"
proof -
  have "tp_vars (fold (\<lambda>(n, t) tp. tp\<lparr>tp_vars := (tp_vars tp)(n \<mapsto> t)\<rparr>) ps tp) = tp_vars tp ++ map_of (rev ps) \<and>
    tp_locals (fold (\<lambda>(n, t) tp. tp\<lparr>tp_vars := (tp_vars tp)(n \<mapsto> t)\<rparr>) ps tp) = tp_locals tp \<and>
    tp_methods (fold (\<lambda>(n, t) tp. tp\<lparr>tp_vars := (tp_vars tp)(n \<mapsto> t)\<rparr>) ps tp) = tp_methods tp \<and>
    tp_constructs (fold (\<lambda>(n, t) tp. tp\<lparr>tp_vars := (tp_vars tp)(n \<mapsto> t)\<rparr>) ps tp) = tp_constructs tp" for tp
    by (induction ps arbitrary: tp) (auto simp: fun_eq_iff map_add_def split: option.splits)
  from this [of typed_default] show "tp_vars (start_typed ps) = map_of (rev ps)" "tp_locals (start_typed ps) = []"
    "tp_methods (start_typed ps) = Map.empty" "tp_constructs (start_typed ps) = Map.empty"
    by (simp_all add: start_typed_def typed_default_def)
qed

lemma map_of_rev_distinct: "distinct (map fst xs) \<Longrightarrow> map_of (rev xs) = map_of xs"
proof (induction xs)
  case (Cons x xs)
  then have "map_of (rev xs) (fst x) = None" by (simp add: map_of_eq_None_iff)
  with Cons show ?case by (auto simp: map_add_def fun_eq_iff split: option.splits)
qed simp

lemma start_inv:
  assumes "params_ok d sg"
  shows "vars_inv (zip (param_names d) (sg_params sg)) (start_typed (zip (param_names d) (sg_params sg)))"
proof -
  let ?ps = "zip (param_names d) (sg_params sg)"
  have "map fst ?ps = param_names d" using assms by (simp add: params_ok_def)
  then have "distinct (map fst ?ps)" using assms by (simp add: params_ok_def)
  moreover have "\<not> is_unknown t" if "map_of ?ps n = Some t" for n t
    using map_of_SomeD [OF that] assms by (auto simp: params_ok_def list_all_iff dest: set_zip_rightD)
  ultimately show ?thesis by (simp add: vars_inv_def start_vars map_of_rev_distinct)
qed

text \<open>The state in which the typing of a body starts.\<close>

definition start_state :: "fn_def \<Rightarrow> signature \<Rightarrow> infer_st" where
  "start_state d sg = (let ps = zip (param_names d) (sg_params sg)
     in \<lparr>is_assigned = set (map fst ps), is_outer = set (map fst ps), is_typed = start_typed ps\<rparr>)"

lemma infer_run_good:
  assumes run: "infer_run cx d sg = Inr tp" and cx: "ix_target cx = Hosted" "ix_ret cx = Some r" "sg_ret sg = Some r"
    and bare: "list_all bare_constants (bd_stmts (fn_body d))"
  obtains fl st1 where "good (start_state d sg) st1 (places (body_of d)) (all_assigns (body_of d)) (all_sure (body_of d))
      (\<lambda>tp. statements_ok tp (accepted tp) (body_of d) \<and> last_flow (body_of d) fl tp)
      (\<lambda>tp. live_seq (live_expr tp) (body_of d)) (assigned_after fl st1)"
    "extends {} (is_typed st1) tp" "extends (- places (body_of d)) (is_typed st1) tp"
proof -
  let ?es = "body_of d"
  let ?st0 = "start_state d sg"
  obtain fl st1 where stmts: "infer_stmts (kids (infer_expr cx) [] (bd_stmts (fn_body d))) (Some r) ?st0 = Inr (fl, st1)"
      and last: "extends {} (is_typed st1) tp"
  proof -
    let ?k = "\<lambda>body. case (body, sg_ret sg) of
        (FValue t, Some ret) \<Rightarrow> expect_ty cx (last (bd_stmts (fn_body d))) t ret (str ''returns'')
      | (FUnit, Some _) \<Rightarrow> refuse (str ''its last statement has no value'')
      | _ \<Rightarrow> accept ()"
    obtain st2 where "bindI (infer_stmts (body_kids cx d) (sg_ret sg)) ?k ?st0 = Inr ((), st2)" and tp: "tp = is_typed st2"
      using run by (auto simp: infer_run_def start_state_def Let_def split: sum.splits prod.splits)
    then obtain fl st1 where s: "infer_stmts (body_kids cx d) (sg_ret sg) ?st0 = Inr (fl, st1)" and k: "?k fl st1 = Inr ((), st2)"
      unfolding bindI_Inr by blast
    have "extends {} (is_typed st1) tp"
      using k cx(3) expect_ty_run(1) by (cases fl) (auto simp: tp extends_refl)
    moreover have "infer_stmts (kids (infer_expr cx) [] (bd_stmts (fn_body d))) (Some r) ?st0 = Inr (fl, st1)"
      using s cx(3) by (simp add: body_kids_def)
    ultimately show thesis using that by blast
  qed
  have sib: "siblings [] ?es" unfolding body_of_def by (rule siblings_numbered)
  have sound: "sound_kids (infer_expr cx) ?es"
    using bare infer_expr_sound [OF cx(1,2)]
    by (auto simp: body_of_def sound_kids_def list_all_iff dest!: numbered_in)
  have "fresh (places ?es) ?st0" by (simp add: fresh_def start_state_def Let_def start_vars)
  from good_stmts [OF stmts [unfolded kids_eq, folded body_of_def] sib sound this] have
    g: "good ?st0 st1 (places ?es) (all_assigns ?es) (all_sure ?es)
      (\<lambda>tp. statements_ok tp (accepted tp) ?es \<and> last_flow ?es fl tp) (\<lambda>tp. live_seq (live_expr tp) ?es) (assigned_after fl st1)" .
  have later: "extends (- places ?es) (is_typed st1) tp" using last by (rule extends_mono) simp
  show thesis by (rule that [OF g last later])
qed

lemma infer_run_sound:
  assumes run: "infer_run cx d sg = Inr tp" and cx: "ix_target cx = Hosted" "ix_ret cx = Some r" "sg_ret sg = Some r"
    and ok: "params_ok d sg" "regular_body d"
  shows "own_vars d sg tp = tp_vars tp"
    "fst ` set (tp_locals tp) \<inter> set (param_names d) = {}"
    "live_body tp d = Some (l0, w) \<Longrightarrow> l0 \<subseteq> set (param_names d)"
proof -
  let ?ps = "zip (param_names d) (sg_params sg)" and ?es = "body_of d"
  let ?st0 = "start_state d sg"
  have names: "map fst ?ps = param_names d" using ok(1) by (simp add: params_ok_def)
  have st0: "is_assigned ?st0 = set (param_names d)" "is_typed ?st0 = start_typed ?ps"
    by (simp_all only: start_state_def Let_def infer_st.simps names)
  have "list_all bare_constants (bd_stmts (fn_body d))" using ok(2) by (simp add: regular_body_def list_all_iff)
  from infer_run_good [OF run cx this] obtain fl st1 where
    g: "good ?st0 st1 (places ?es) (all_assigns ?es) (all_sure ?es)
      (\<lambda>tp. statements_ok tp (accepted tp) ?es \<and> last_flow ?es fl tp) (\<lambda>tp. live_seq (live_expr tp) ?es) (assigned_after fl st1)"
    and last: "extends {} (is_typed st1) tp" and later: "extends (- places ?es) (is_typed st1) tp" .
  have "vars_inv ?ps (is_typed ?st0)" using start_inv [OF ok(1)] by (simp add: st0)
  then have inv: "vars_inv ?ps tp"
    using good_parts(1) [OF g] last unfolding extends_def vars_grow_def by blast
  have "set (param_names d) = fst ` set ?ps" using names by (metis list.set_map)
  then have dis: "distinct (map fst (?ps @ tp_locals tp))" "fst ` set ?ps \<inter> fst ` set (tp_locals tp) = {}"
    using inv ok(1) by (auto simp: vars_inv_def params_ok_def names)
  have "own_vars d sg tp = map_of (tp_locals tp) ++ map_of ?ps"
    unfolding own_vars_def using map_of_rev_distinct [OF dis(1)] by simp
  also have "\<dots> = map_of ?ps ++ map_of (tp_locals tp)"
    by (rule map_add_comm) (use dis(2) in \<open>auto simp: dom_map_of_conv_image_fst\<close>)
  also have "\<dots> = tp_vars tp" using inv by (simp add: vars_inv_def)
  finally show "own_vars d sg tp = tp_vars tp" .
  have "fst ` set ?ps = set (param_names d)" using names by (metis list.set_map)
  then show "fst ` set (tp_locals tp) \<inter> set (param_names d) = {}" using dis(2) by blast
  assume live: "live_body tp d = Some (l0, w)"
  then have F: "live_seq (live_expr tp) ?es {} = Some (l0, w)" by (simp add: live_body_def body_of_def)
  have "all_sure ?es" using ok(2)
    by (auto simp: body_of_def regular_body_def all_sure_def list_all_iff dest!: numbered_in)
  from good_holds(2) [OF g later this F] have "flows tp (set (param_names d)) l0 (assigned_after fl st1) {}"
    by (simp add: st0)
  moreover have "l0 \<subseteq> heap_vars tp"
    using writesD(2) [OF writes_numbered_child F [unfolded body_of_def]] by simp
  ultimately show "l0 \<subseteq> set (param_names d)" unfolding flows_def heap_vars_def by blast
qed

lemma infer_passes:
  assumes "infer u d sg sigs ss Hosted = Inr tp" "sg_ret sg = Some r"
  obtains cx where "infer_run cx d sg = Inr tp" "ix_target cx = Hosted" "ix_ret cx = Some r"
proof -
  let ?cx = "\<lparr>ix_sigs = sigs, ix_structs = ss, ix_ret = sg_ret sg, ix_target = Hosted, ix_seed = Map.empty, ix_env = u\<rparr>"
  have "infer_run ?cx d sg = Inr tp \<or> (\<exists>seed. infer_run (?cx\<lparr>ix_seed := seed\<rparr>) d sg = Inr tp)"
    using assms(1) by (auto simp: infer_def Let_def split: if_splits sum.splits)
  then show thesis
  proof
    assume "\<exists>seed. infer_run (?cx\<lparr>ix_seed := seed\<rparr>) d sg = Inr tp"
    then obtain seed where run: "infer_run (?cx\<lparr>ix_seed := seed\<rparr>) d sg = Inr tp" by blast
    show thesis by (rule that [OF run]) (use assms(2) in simp_all)
  qed (use that [of ?cx] assms(2) in simp)
qed

lemma infer_accepts:
  assumes "infer u d sg sigs ss Hosted = Inr tp" "sg_ret sg = Some r" "list_all bare_constants (bd_stmts (fn_body d))"
  shows "statements_ok tp (accepted tp) (body_of d)" "genkill (live_seq (live_expr tp) (body_of d))"
proof -
  obtain cx where "infer_run cx d sg = Inr tp" "ix_target cx = Hosted" "ix_ret cx = Some r"
    using infer_passes [OF assms(1,2)] .
  from infer_run_good [OF this assms(2,3)] obtain fl st1 where
    g: "good (start_state d sg) st1 (places (body_of d)) (all_assigns (body_of d)) (all_sure (body_of d))
      (\<lambda>tp. statements_ok tp (accepted tp) (body_of d) \<and> last_flow (body_of d) fl tp)
      (\<lambda>tp. live_seq (live_expr tp) (body_of d)) (assigned_after fl st1)"
    and later: "extends (- places (body_of d)) (is_typed st1) tp" .
  show ok: "statements_ok tp (accepted tp) (body_of d)" using good_holds(1) [OF g later] by simp
  show "genkill (live_seq (live_expr tp) (body_of d))"
    using ok live_genkill unfolding body_of_def by (intro genkill_numbered) auto
qed

lemma infer_sound:
  assumes "infer u d sg sigs ss Hosted = Inr tp" "sg_ret sg = Some r" "params_ok d sg" "regular_body d"
  shows "own_vars d sg tp = tp_vars tp" "fst ` set (tp_locals tp) \<inter> set (param_names d) = {}"
    "\<exists>l w. live_body tp d = Some (l, w) \<and> l \<subseteq> set (param_names d)"
    "statements_ok tp (accepted tp) (body_of d)"
proof -
  obtain cx where "infer_run cx d sg = Inr tp" "ix_target cx = Hosted" "ix_ret cx = Some r"
    using infer_passes [OF assms(1,2)] .
  note run = infer_run_sound [OF this assms(2-4)]
  show "own_vars d sg tp = tp_vars tp" "fst ` set (tp_locals tp) \<inter> set (param_names d) = {}" by (fact run)+
  have bare: "list_all bare_constants (bd_stmts (fn_body d))" using assms(4) by (simp add: regular_body_def list_all_iff)
  obtain l w where live: "live_body tp d = Some (l, w)"
    using infer_accepts(2) [OF assms(1,2) bare] unfolding genkill_def live_body_def body_of_def by blast
  with run(3) [OF live] show "\<exists>l w. live_body tp d = Some (l, w) \<and> l \<subseteq> set (param_names d)" by blast
  show "statements_ok tp (accepted tp) (body_of d)" by (rule infer_accepts(1) [OF assms(1,2) bare])
qed

definition sample_u :: std_env where
  "sample_u = \<lparr>is_alphabetic = (\<lambda>c. False), is_numeric = (\<lambda>c. False), is_uppercase = (\<lambda>c. False), parse_f64 = (\<lambda>s. None)\<rparr>"

definition node_at :: "expr_kind \<Rightarrow> expr" where
  "node_at k = Expr k (span_new 0 0)"

text \<open>\<open>def f(a: String) -> String; b = a; while false; b = a; end; b; end\<close>\<close>

definition sample_def :: fn_def where
  "sample_def = (let s = span_new 0 0; i = (\<lambda>n. \<lparr>id_name = n, id_span = s\<rparr>); a = node_at (EVar (str ''a'')); b = node_at (EVar (str ''b''));
      st = node_at (EAssign b a)
    in \<lparr>fn_kind = FkDef, fn_doc = None, fn_is_abstract = False, fn_on_self = False, fn_name = i (str ''f''),
        fn_params = [Param (i (str ''a'')) None None s], fn_ret = None, fn_effects = [], fn_model = None,
        fn_body = Body [st, node_at (EWhile (node_at (EBool False)) [st]), b] [] None s, fn_short = False, fn_pure = True, fn_span = s\<rparr>)"

definition sample_sg :: signature where
  "sample_sg = \<lparr>sg_params = [NStr], sg_ret = Some NStr\<rparr>"

abbreviation sample_infer :: "reject + typed" where
  "sample_infer \<equiv> infer sample_u sample_def sample_sg Map.empty \<lparr>ss_defs = [], ss_by_name = Map.empty\<rparr> Hosted"

lemma sample_infer_ok: "(case sample_infer of Inl why \<Rightarrow> False | Inr tp \<Rightarrow> \<not> never_ends tp (body_of sample_def))"
  by code_simp

lemma sample_regular: "params_ok sample_def sample_sg" "regular_body sample_def" "sg_ret sample_sg = Some NStr"
  by code_simp+

subsection \<open>What the translator relies on\<close>

text \<open>
  C29: the translator never meets an ownership that it cannot account for. For a hosted function that
  gives a value, whose parameters have different names and whose body \<open>infer\<close> accepts without an
  assignment in the right operand of \<open>&&\<close> or \<open>||\<close> nor a block given to a method of a constant: the
  liveness plan is found, every check of the walk over the body holds (a variable is read only while it
  is owned, the paths of a condition and the turns of a loop agree, no value is released twice) and,
  unless the body never ends, no heap value is left owned where it ends. Without the second condition it
  does not hold (\<open>skipped_assignment_breaks\<close>).
\<close>

theorem infer_translates:
  assumes "infer u d sg sigs ss Hosted = Inr tp" "sg_ret sg = Some r" "params_ok d sg" "regular_body d"
  shows "\<exists>held owned. translate_ownership d sg tp = Some (held, owned) \<and> (\<not> never_ends tp (body_of d) \<longrightarrow> owned = {})"
proof -
  note s = infer_sound [OF assms]
  obtain l w where live: "live_body tp d = Some (l, w)" "l \<subseteq> set (param_names d)" using s(3) by blast
  show ?thesis unfolding body_of_def
    by (rule function_translates [OF _ _ s(1,2) s(4) [unfolded body_of_def] live])
      (use assms(3) in \<open>simp_all add: params_ok_def\<close>)
qed

lemma infer_translates_witness:
  "case sample_infer of Inl why \<Rightarrow> False
   | Inr tp \<Rightarrow> (\<exists>held. translate_ownership sample_def sample_sg tp = Some (held, {}))"
proof -
  obtain tp where tp: "sample_infer = Inr tp" "\<not> never_ends tp (body_of sample_def)"
    using sample_infer_ok by (auto split: sum.splits)
  show ?thesis using infer_translates [OF tp(1) sample_regular(3,1,2)] tp by auto
qed

text \<open>
  C32: only parameters are live where a hosted function starts, under the conditions of the theorem
  before: no local variable that holds a heap value is read on a path that has not assigned it.
\<close>

theorem entry_live_are_params:
  assumes "infer u d sg sigs ss Hosted = Inr tp" "sg_ret sg = Some r" "params_ok d sg" "regular_body d"
  shows "\<exists>l w. live_body tp d = Some (l, w) \<and> l \<subseteq> set (param_names d)"
  by (rule infer_sound(3) [OF assms])

lemma entry_live_are_params_witness:
  "case sample_infer of Inl why \<Rightarrow> False
   | Inr tp \<Rightarrow> (\<exists>l w. live_body tp sample_def = Some (l, w) \<and> l \<subseteq> {str ''a''})"
proof -
  obtain tp where tp: "sample_infer = Inr tp" using sample_infer_ok by (auto split: sum.splits)
  have "set (param_names sample_def) = {str ''a''}" by code_simp
  then show ?thesis using entry_live_are_params [OF tp sample_regular(3,1,2)] tp by auto
qed

text \<open>
  C31: the liveness analysis of an accepted body, of a hosted function that gives a value, always ends
  with a plan, its loops included, if no block is given to a method of a constant (it panics on one:
  \<open>constant_block_panics\<close>). What is live before the body depends on what is live after it in one way
  only: a fixed set \<open>k\<close> is taken away and a fixed set \<open>g\<close> of variables that hold heap values is added.
\<close>

theorem liveness_ends:
  assumes "infer u d sg sigs ss Hosted = Inr tp" "sg_ret sg = Some r" "list_all bare_constants (bd_stmts (fn_body d))"
  shows "\<exists>g k. g \<subseteq> heap_vars tp \<and> (\<forall>l. \<exists>w. live_seq (live_expr tp) (body_of d) l = Some (g \<union> (l - k), w))"
proof -
  obtain g k where run: "\<And>l. \<exists>w. live_seq (live_expr tp) (body_of d) l = Some (g \<union> (l - k), w)"
    using infer_accepts(2) [OF assms] unfolding genkill_def by blast
  obtain w where "live_seq (live_expr tp) (body_of d) {} = Some (g, w)" using run [of "{}"] by auto
  from writesD(2) [OF writes_numbered_child this [unfolded body_of_def]] run show ?thesis by blast
qed

lemma liveness_ends_witness:
  "case sample_infer of Inl why \<Rightarrow> False
   | Inr tp \<Rightarrow> (\<exists>g k. g \<subseteq> heap_vars tp \<and> (\<forall>l. \<exists>w. live_seq (live_expr tp) (body_of sample_def) l = Some (g \<union> (l - k), w)))"
proof -
  obtain tp where tp: "sample_infer = Inr tp" using sample_infer_ok by (auto split: sum.splits)
  have "list_all bare_constants (bd_stmts (fn_body sample_def))" by code_simp
  from liveness_ends [OF tp sample_regular(3) this] tp show ?thesis by simp
qed

subsection \<open>The bodies left out\<close>

definition fn_of :: "string list \<Rightarrow> expr list \<Rightarrow> fn_def" where
  "fn_of ps stmts = sample_def\<lparr>fn_params := map (\<lambda>p. Param \<lparr>id_name = str p, id_span = span_new 0 0\<rparr> None None (span_new 0 0)) ps,
     fn_body := Body stmts [] None (span_new 0 0)\<rparr>"

definition infer_fn :: "nty list \<Rightarrow> nty \<Rightarrow> fn_def \<Rightarrow> reject + typed" where
  "infer_fn ts t d = infer sample_u d \<lparr>sg_params = ts, sg_ret = Some t\<rparr> Map.empty \<lparr>ss_defs = [], ss_by_name = Map.empty\<rparr> Hosted"

text \<open>
  \<open>def f(c: Bool) -> String; c && (if c; s = "x"; true; else; s = "x"; true; end); s; end\<close> is accepted,
  though \<open>s\<close> is live where it starts, and the translator fails on it.
\<close>

definition skipped_assignment :: fn_def where
  "skipped_assignment = (let c = node_at (EVar (str ''c'')); s = node_at (EVar (str ''s''));
      arm = [node_at (EAssign s (node_at (EStr [SegLit (str ''x'')]))), node_at (EBool True)]
    in fn_of [''c''] [node_at (EBinary OpAnd c (node_at (EIf c arm (Some arm)))), s])"

lemma skipped_assignment_breaks:
  "case infer_fn [NBool] NStr skipped_assignment of Inl why \<Rightarrow> False
   | Inr tp \<Rightarrow> map_option fst (live_body tp skipped_assignment) = Some {str ''s''} \<and>
       translate_ownership skipped_assignment \<lparr>sg_params = [NBool], sg_ret = Some NStr\<rparr> tp = None"
  by code_simp

text \<open>\<open>def f(x: Float) -> Float; Math.sqrt(x) { }; end\<close> is accepted, and the analysis panics.\<close>

definition constant_block :: fn_def where
  "constant_block = (let s = span_new 0 0; i = (\<lambda>n. \<lparr>id_name = str n, id_span = s\<rparr>)
    in fn_of [''x''] [node_at (ECall (Some (node_at (EConst [i ''Math'']))) (i ''sqrt'') [APos (node_at (EVar (str ''x'')))]
      (Some (Block [] (Body [] [] None s) s)) False True)])"

lemma constant_block_panics:
  "case infer_fn [NFloat] NFloat constant_block of Inl why \<Rightarrow> False | Inr tp \<Rightarrow> live_body tp constant_block = None"
  by code_simp

end
