(* ===== verification/Spec2Isabelle.thy ===== *)
theory Spec2Isabelle
  imports Lexer_Props Parse_Props Infix_Props Limiter_Rate Retry_Props
    Green_Runs Green_Sync Green_Channel Green_Timer Cron_Props Glob_Props Shell_Quote Known_Hosts
    Capability_Props Codec_Props Journal_Props Workflow_Props Operator_Props Index_Props
    Native_Number_Props Infer_Sound
begin

text \<open>
  A verification library of Grenat, a language for agents: its lexer and parser, the core of its
  interpreter's values, capabilities and durable workflows, the green tasks that programs run on, and
  the limits, schedules, patterns and host keys that its runtime relies on. Paths below are under
  \<open>src/crates\<close>.

  \<^bold>\<open>How the parts interact.\<close> A text goes through \<open>lex\<close> (grenat\_lexer) and \<open>parse\<close> (grenat\_parser) to the
  syntax tree (grenat\_ast) that the interpreter (grenat\_interp) walks. Its operators and indexes
  work on values that carry taint and secrets. A workflow stores what its steps give as JSON in a
  journal (grenat\_ops) and resumes from it. Every access to files and hosts is checked against
  the effects that functions declare, by the type checker on literals (grenat\_types) and again
  at run time. Programs run as green tasks (grenat\_green); calls to models wait for their turn
  in a limiter (grenat\_limits); jobs are started by schedules (grenat\_serve) and by files that appear
  (grenat\_watch); remote commands go over SSH (grenat\_ssh).

  \<^bold>\<open>Library.\<close> Prelude and Rust\_Text (characters as code points, slices, digits), Rust\_Split (splitting,
  UTF-8 bytes), Steps (step relations and their invariants), Files (a file as text lines), Floats (a
  double as its 64 bits, with its exact order; its arithmetic is a parameter), Gregorian (the
  numbering of days). Locales state the contracts that several parts share, and are interpreted on
  the definitions of the model.

  \<^bold>\<open>Lexer.\<close> Tokens (token.rs), Lexer and Lexer\_Run (lexer.rs, strings.rs): the lexer's
  state is a record, every method a function on it; the Unicode tables and the parser of floats are
  the parameter \<open>std_env\<close>. Its loops take fuel that is larger than what is left of the text, and
  Lexer\_Reads, Lexer\_Safety and Lexer\_Props show that it is never used up: every text is lexed, to well-formed
  tokens, and literals, words and comments to what they say.

  \<^bold>\<open>Parser.\<close> Ast (the tree), Ast\_Ok (its well-formedness), Cursor (cursor.rs, docs.rs),
  Parse\_Calls, Parse\_Exprs, Parse\_Stmts and Parse\_Items (types.rs to items.rs, lib.rs): one function per
  function of the code. Mutual recursion goes through a record of the recursive calls, tied by a level
  in \<open>Parse_Stmts.knot\<close>; \<open>parse_fuel\<close> is larger than the number of tokens, and every recursive
  call is behind a token consumed. Parse\_Spec states the contract of a parser (ends without panic,
  reports what it fails on, restores the context, well-formed result), Parse\_Total\_Calls,
  Parse\_Total\_Exprs, Parse\_Total\_Stmts and Parse\_Total\_Items prove it of every function, Parse\_Props
  has the theorems on whole programs and on documentation comments, Infix\_Props those on operator
  precedence.

  \<^bold>\<open>Limits.\<close> Limits (rate.rs, bucket.rs, slots.rs) and Limiter (limiter.rs) with its interleaved steps;
  Limits\_Bucket the refinement of the token bucket; Limiter\_Props and Limiter\_Rate the
  bounds that hold under every interleaving. Instants are nanoseconds, an overflow of the clock is the
  panic of the code. Retry\_After and Retry\_Props: the three formats of the header.

  \<^bold>\<open>Green tasks.\<close> Green\_Sched (task.rs, scheduler.rs): every access to shared memory is a step of a
  worker or a waker, atomics are sequentially consistent; Green\_Owners, Green\_Sched\_Props and Green\_Runs
  the invariants: each task in one place, no wake-up lost, workers stop only when all is done.
  Green\_Sync, Green\_Channel and Green\_Timer the same for locks, channels and sleeps, where park and wake
  are the token that the scheduler keeps.

  \<^bold>\<open>Schedules, patterns, hosts.\<close> Calendar and Cron (calendar.rs, cron.rs; the rounds of \<open>next\<close> are the
  code's and proved enough), Glob with the specification Wildcards (glob.rs), Host\_Pattern,
  Shell\_Quote and Known\_Hosts (grenat\_ssh; keys and HMAC are the parameter \<open>ssh_lib\<close>, the shell's own
  reading of a line is \<open>shell_words\<close>).

  \<^bold>\<open>Values and capabilities.\<close> Values (value/mod.rs, equality.rs: an array or hash has an address, for
  identity), Operators (ops.rs, sets.rs), Indexing (assign.rs, slicing.rs), Codec (codec.rs), Effects
  (effects.rs) and Capabilities (capabilities.rs), each with a theory of properties.

  \<^bold>\<open>Native code.\<close> Native\_Types (ty.rs, structs.rs, walk.rs of grenat\_codegen), Infer (infer/*.rs: the typing
  that accepts a function or says why not), Liveness (liveness.rs), Ownership (translate/*.rs: which
  variables own a reference while a body is translated), Native\_Numbers (translate/numbers.rs, with
  Cranelift's instructions as the parameter \<open>clif\<close>) and Number\_Methods (numbers.rs of the interpreter).
  Native\_Number\_Props: on numbers and booleans, compiled code and interpreter agree. Liveness\_Props
  states what an accepted body is, and that its analysis ends, each loop after two rounds;
  Ownership\_Props that no check of the translator then fails, what is owned being what is live.
  Infer\_Props, Infer\_Nodes, Infer\_Flow and Infer\_Calls show that what the typing of a node accepts is
  accepted in that sense, and Infer\_Sound, for a whole function of a hosted program, that the analysis
  ends, that only parameters are live where the function starts and that no check of the translator
  fails. The last two leave out two bodies that the typing accepts and the later passes do not handle: an
  assignment in the right operand of \<open>&&\<close> or \<open>||\<close>, and a block given to a method of a constant; and
  parameters with the same name.

  \<^bold>\<open>Workflows.\<close> Journal (journal.rs; the text of JSON is the parameter \<open>json_lib\<close>) and Workflow
  (workflow.rs): the body is a tree of its steps and of what it asks of the world, a block such a tree
  too, sharing the counters of the run; the input of a run is what the world answers and, for each line
  it appends, whether it is written, or the process dies or the disk refuses, after how many
  characters. A run never lacks fuel: it is structural recursion on the tree. Workflow\_Props shows that a
  run cut short is resumed where it stopped, and where the code does not do this: a step in the block
  of another (\<open>nested_step_shifts\<close>). Steps run at the same time by tasks of a workflow and workflows that
  call each other are not modelled.

  \<^bold>\<open>Not modelled.\<close> The evaluation of the whole language and the inference of its types, code
  for objects (arrays, strings and structs) and LLVM, protocol clients and servers (models, IMAP, MCP, LSP, HTTP, SSH sessions), the
  database, the formatter, packages and traces. The parts that talk to the system or to a library
  only are left aside; the others are future work, and PROJECT.json lists each. Weak memory
  orderings, the memory a program uses and the wording of most messages are out of the model.
\<close>

end
